(* ===== verification/Prelude.thy ===== *)
theory Prelude
  imports Main "HOL-Library.Word" "HOL-Library.List_Lexorder" "HOL-Library.Char_ord"
begin

text \<open>
  Shared vocabulary of the development: the machine types of the Rust sources, the
  \<^verbatim>\<open>Result<_, ProofError>\<close> type as a sum over the error code with its \<^verbatim>\<open>?\<close> operator
  (\<open>bindR\<close>), loops that stop at the first error (\<open>mapR\<close>, \<open>eachR\<close>), Rust strings as byte
  sequences, and the generic list, sorting and byte lemmas that the components share.
\<close>

section \<open>Machine types\<close>

type_synonym u8 = "8 word"
type_synonym u64 = "64 word"
type_synonym i64 = "64 word" \<comment> \<open>read with \<open>sint\<close>\<close>
type_synonym byte = "8 word"
type_synonym bytes = "8 word list"

text \<open>
  \<^verbatim>\<open>usize\<close> values (lengths, counts, limits) are \<open>nat\<close>; the only place where the width of
  \<^verbatim>\<open>usize\<close> shows is the conversion of a CBOR length argument, where it is 64 bits.
\<close>

definition usize_bits :: nat where
  "usize_bits = 64"

section \<open>Rust strings\<close>

text \<open>
  A Rust \<^verbatim>\<open>String\<close> is its UTF-8 byte sequence: a \<open>string\<close> whose characters are bytes, so
  \<open>length\<close> is \<^verbatim>\<open>str::len\<close>, \<open>=\<close> is byte equality and the lexicographic order of
  \<open>char list\<close> is the order of \<^verbatim>\<open>str\<close>.
\<close>

definition byte_of_char :: "char \<Rightarrow> byte" where
  "byte_of_char c = word_of_nat (of_char c)"

definition char_of_byte :: "byte \<Rightarrow> char" where
  "char_of_byte b = char_of (unat b)"

definition as_bytes :: "string \<Rightarrow> bytes" where
  "as_bytes s = map byte_of_char s"

definition str_of_bytes :: "bytes \<Rightarrow> string" where
  "str_of_bytes bs = map char_of_byte bs"

lemma of_char_lt_256: "(of_char c :: nat) < 256"
  using of_char_of [of "of_char c :: nat"] by (metis char_of_char mod_less_divisor zero_less_numeral)

lemma unat_byte_of_char [simp]: "unat (byte_of_char c) = of_char c"
  using of_char_lt_256 [of c] by (simp add: byte_of_char_def unat_of_nat)

lemma char_of_byte_of_char [simp]: "char_of_byte (byte_of_char c) = c"
  by (simp add: char_of_byte_def)

lemma byte_of_char_of_byte [simp]: "byte_of_char (char_of_byte b) = b"
proof -
  have "unat b < 256" using unsigned_less [of b, where ?'a = nat] by simp
  then have "(of_char (char_of (unat b)) :: nat) = unat b" by simp
  then show ?thesis by (simp add: byte_of_char_def char_of_byte_def)
qed

lemma as_bytes_str_of_bytes [simp]: "as_bytes (str_of_bytes bs) = bs"
  by (simp add: as_bytes_def str_of_bytes_def comp_def)

lemma str_of_bytes_as_bytes [simp]: "str_of_bytes (as_bytes s) = s"
  by (simp add: as_bytes_def str_of_bytes_def comp_def)

lemma length_as_bytes [simp]: "length (as_bytes s) = length s"
  by (simp add: as_bytes_def)

lemma as_bytes_inject [simp]: "as_bytes s = as_bytes t \<longleftrightarrow> s = t"
  by (metis str_of_bytes_as_bytes)

text \<open>
  \<^verbatim>\<open>std::str::from_utf8\<close>: the validation of RFC 3629 that the standard library runs
  (no overlong forms, no surrogates, nothing above U+10FFFF).
\<close>

definition in_range :: "nat \<Rightarrow> nat \<Rightarrow> byte \<Rightarrow> bool" where
  "in_range lo hi b \<longleftrightarrow> lo \<le> unat b \<and> unat b \<le> hi"

fun valid_utf8 :: "bytes \<Rightarrow> bool" where
  "valid_utf8 [] = True"
| "valid_utf8 (b0 # r) =
    (if in_range 0x00 0x7F b0 then valid_utf8 r
     else if in_range 0xC2 0xDF b0 then
       (case r of b1 # r' \<Rightarrow> in_range 0x80 0xBF b1 \<and> valid_utf8 r' | _ \<Rightarrow> False)
     else if in_range 0xE0 0xEF b0 then
       (case r of b1 # b2 # r' \<Rightarrow>
          in_range (if unat b0 = 0xE0 then 0xA0 else 0x80) (if unat b0 = 0xED then 0x9F else 0xBF) b1
          \<and> in_range 0x80 0xBF b2 \<and> valid_utf8 r' | _ \<Rightarrow> False)
     else if in_range 0xF0 0xF4 b0 then
       (case r of b1 # b2 # b3 # r' \<Rightarrow>
          in_range (if unat b0 = 0xF0 then 0x90 else 0x80) (if unat b0 = 0xF4 then 0x8F else 0xBF) b1
          \<and> in_range 0x80 0xBF b2 \<and> in_range 0x80 0xBF b3 \<and> valid_utf8 r' | _ \<Rightarrow> False)
     else False)"

text \<open>\<^verbatim>\<open>str::starts_with\<close> and \<^verbatim>\<open>str::strip_prefix\<close>.\<close>

fun strip_prefix :: "string \<Rightarrow> string \<Rightarrow> string option" where
  "strip_prefix [] s = Some s"
| "strip_prefix (p # ps) [] = None"
| "strip_prefix (p # ps) (c # s) = (if p = c then strip_prefix ps s else None)"

definition starts_with :: "string \<Rightarrow> string \<Rightarrow> bool" where
  "starts_with s p \<longleftrightarrow> strip_prefix p s \<noteq> None"

lemma strip_prefix_eq_Some: "strip_prefix p s = Some r \<longleftrightarrow> s = p @ r"
  by (induction p s rule: strip_prefix.induct) auto

lemma starts_with_iff: "starts_with s p \<longleftrightarrow> (\<exists>r. s = p @ r)"
  by (simp add: starts_with_def not_None_eq strip_prefix_eq_Some)

section \<open>Results\<close>

text \<open>
  \<open>bindR m f\<close> is \<^verbatim>\<open>f(m?)\<close>: the first error ends the function. \<open>mapR\<close> is a \<^verbatim>\<open>for\<close> loop
  that pushes \<^verbatim>\<open>f(x)?\<close>, \<open>eachR\<close> a \<^verbatim>\<open>for\<close> loop that only checks.
\<close>

fun bindR :: "'e + 'a \<Rightarrow> ('a \<Rightarrow> 'e + 'b) \<Rightarrow> 'e + 'b" where
  "bindR (Inl e) f = Inl e"
| "bindR (Inr x) f = f x"

fun mapR :: "('a \<Rightarrow> 'e + 'b) \<Rightarrow> 'a list \<Rightarrow> 'e + 'b list" where
  "mapR f [] = Inr []"
| "mapR f (x # xs) = bindR (f x) (\<lambda>y. bindR (mapR f xs) (\<lambda>ys. Inr (y # ys)))"

fun eachR :: "('a \<Rightarrow> 'e + unit) \<Rightarrow> 'a list \<Rightarrow> 'e + unit" where
  "eachR f [] = Inr ()"
| "eachR f (x # xs) = bindR (f x) (\<lambda>_. eachR f xs)"

definition ok_or :: "'a option \<Rightarrow> 'e \<Rightarrow> 'e + 'a" where
  "ok_or x e = (case x of None \<Rightarrow> Inl e | Some y \<Rightarrow> Inr y)"

named_theorems result_iff \<open>when a computation over results succeeds\<close>

lemma bindR_cong [fundef_cong]:
  "m = m' \<Longrightarrow> (\<And>x. m' = Inr x \<Longrightarrow> f x = f' x) \<Longrightarrow> bindR m f = bindR m' f'"
  by (cases m') auto

lemma mapR_cong [fundef_cong]:
  "xs = ys \<Longrightarrow> (\<And>x. x \<in> set ys \<Longrightarrow> f x = g x) \<Longrightarrow> mapR f xs = mapR g ys"
proof (induction ys arbitrary: xs)
  case (Cons y ys)
  then have "mapR f ys = mapR g ys" by simp
  with Cons.prems show ?case by simp
qed simp

lemma bindR_Inr_iff [result_iff]: "bindR m f = Inr y \<longleftrightarrow> (\<exists>x. m = Inr x \<and> f x = Inr y)"
  by (cases m) auto

lemma bindR_Inl_iff: "bindR m f = Inl e \<longleftrightarrow> m = Inl e \<or> (\<exists>x. m = Inr x \<and> f x = Inl e)"
  by (cases m) auto

lemma bindR_assoc: "bindR (bindR m f) g = bindR m (\<lambda>x. bindR (f x) g)"
  by (cases m) auto

lemma ok_or_Inr_iff [result_iff]: "ok_or x e = Inr y \<longleftrightarrow> x = Some y"
  by (auto simp: ok_or_def split: option.splits)

lemma ok_or_Some [simp]: "ok_or (Some y) e = Inr y"
  by (simp add: ok_or_def)

lemma if_Inl_Inr_iff [result_iff]: "(if b then Inl e else m) = Inr y \<longleftrightarrow> \<not> b \<and> m = Inr y"
  by auto

lemma mapR_Inr_iff: "mapR f xs = Inr ys \<longleftrightarrow> list_all2 (\<lambda>x y. f x = Inr y) xs ys"
proof (induction xs arbitrary: ys)
  case (Cons x xs)
  then show ?case by (auto simp: result_iff list_all2_Cons1)
qed auto

lemma mapR_map_Inr: "(\<And>x. x \<in> set xs \<Longrightarrow> f (g x) = Inr (h x)) \<Longrightarrow> mapR f (map g xs) = Inr (map h xs)"
  by (induction xs) auto

lemma eachR_Inr_iff [result_iff]: "eachR f xs = Inr u \<longleftrightarrow> (\<forall>x \<in> set xs. f x = Inr ())"
  by (induction xs) (auto simp: result_iff)

section \<open>Lists\<close>

text \<open>\<^verbatim>\<open>Vec::dedup\<close> removes consecutive repeats: \<open>remdups_adj\<close>.\<close>

lemma sorted_distinct_adj_strict:
  fixes xs :: "'a :: linorder list"
  shows "sorted xs \<Longrightarrow> distinct_adj xs \<Longrightarrow> sorted_wrt (<) xs"
proof (induction xs)
  case (Cons x xs)
  then have "sorted_wrt (<) xs" by (auto simp: distinct_adj_Cons)
  moreover have "x < y" if "y \<in> set xs" for y
  proof (cases xs)
    case (Cons z zs)
    with Cons.prems have "x \<le> z" "x \<noteq> z" by (auto simp: distinct_adj_Cons)
    moreover have "z \<le> y" using that Cons Cons.prems \<open>sorted_wrt (<) xs\<close> by auto
    ultimately show ?thesis by simp
  qed (use that in simp)
  ultimately show ?case by simp
qed simp

lemma remdups_adj_sort_eq_iff:
  fixes xs :: "'a :: linorder list"
  shows "remdups_adj (sort xs) = xs \<longleftrightarrow> sorted_wrt (<) xs"
proof
  assume *: "remdups_adj (sort xs) = xs"
  have "sorted_wrt (<) (remdups_adj (sort xs))"
    by (rule sorted_distinct_adj_strict) simp_all
  with * show "sorted_wrt (<) xs" by simp
next
  assume "sorted_wrt (<) xs"
  then have "sorted xs" "distinct xs" by (auto simp: strict_sorted_iff)
  then show "remdups_adj (sort xs) = xs"
    by (simp add: sorted_sort_id remdups_adj_distinct)
qed

lemma strict_sorted_key_map: "sorted_wrt (<) (map f xs) \<Longrightarrow> sort_key f xs = xs"
  by (simp add: sorted_sort_id sort_key_id_if_sorted strict_sorted_imp_sorted)

text \<open>A sort by key commutes with a map that keeps the key, and a strictly increasing
  sequence of keys is what sorting distinct keys gives.\<close>

lemma map_sort_key: "map g (sort_key (f \<circ> g) xs) = sort_key f (map g xs)"
  for f :: "'b \<Rightarrow> 'k :: linorder"
proof -
  have "map g (insort_key (f \<circ> g) x ys) = insort_key f (g x) (map g ys)" for x ys
    by (induction ys) auto
  then show ?thesis by (induction xs) auto
qed

lemma sort_key_strict:
  fixes f :: "'a \<Rightarrow> 'k :: linorder"
  assumes "distinct (map f xs)"
  shows "sorted_wrt (<) (map f (sort_key f xs))"
proof -
  have "distinct (map f (sort_key f xs))"
    using assms by (simp add: distinct_map inj_on_def)
  moreover have "sorted (map f (sort_key f xs))" by simp
  ultimately show ?thesis by (simp add: strict_sorted_iff)
qed

end
