(* ===== verification/Core.thy ===== *)
theory Core
  imports Prelude
begin

text \<open>
  The crate \<^verbatim>\<open>proof-core\<close>: stable error codes (\<^verbatim>\<open>error.rs\<close>), hash references
  (\<^verbatim>\<open>hash.rs\<close>), enforced resource limits (\<^verbatim>\<open>limits.rs\<close>) and the domain model
  (\<^verbatim>\<open>model.rs\<close>). A \<^verbatim>\<open>ProofError\<close> is represented by its code: the sources fix the codes and
  leave the message text free, and no code path reads a message. The open vocabularies
  \<^verbatim>\<open>EventType\<close>, \<^verbatim>\<open>EvidenceKind\<close> and \<^verbatim>\<open>RelType\<close> are transparent wrappers of \<^verbatim>\<open>String\<close>.
\<close>

section \<open>Errors\<close>

datatype error_code =
    NonCanonical | DuplicateMapKey | ForbiddenCborConstruct | IdMismatch | SignatureInvalid
  | UnknownAlgorithm | DeprecatedAlgorithm | UnsupportedVersion | LimitExceeded | Malformed
  | InvalidBase64Url | UnexpectedHeaderParam | AlgorithmConfusion | SchemaViolation
  | RelationshipUngrounded | DanglingReference | CycleDetected | PolicyInvalid | Expired
  | Revoked | RevocationUnknown | UnauthorizedStatus | Withdrawn | Compromised

type_synonym 'a result = "error_code + 'a"

fun error_code_as_str :: "error_code \<Rightarrow> string" where
  "error_code_as_str NonCanonical = ''NON_CANONICAL''"
| "error_code_as_str DuplicateMapKey = ''DUPLICATE_MAP_KEY''"
| "error_code_as_str ForbiddenCborConstruct = ''FORBIDDEN_CBOR_CONSTRUCT''"
| "error_code_as_str IdMismatch = ''ID_MISMATCH''"
| "error_code_as_str SignatureInvalid = ''SIGNATURE_INVALID''"
| "error_code_as_str UnknownAlgorithm = ''UNKNOWN_ALGORITHM''"
| "error_code_as_str DeprecatedAlgorithm = ''DEPRECATED_ALGORITHM''"
| "error_code_as_str UnsupportedVersion = ''UNSUPPORTED_VERSION''"
| "error_code_as_str LimitExceeded = ''LIMIT_EXCEEDED''"
| "error_code_as_str Malformed = ''MALFORMED''"
| "error_code_as_str InvalidBase64Url = ''INVALID_BASE64URL''"
| "error_code_as_str UnexpectedHeaderParam = ''UNEXPECTED_HEADER_PARAM''"
| "error_code_as_str AlgorithmConfusion = ''ALGORITHM_CONFUSION''"
| "error_code_as_str SchemaViolation = ''SCHEMA_VIOLATION''"
| "error_code_as_str RelationshipUngrounded = ''RELATIONSHIP_UNGROUNDED''"
| "error_code_as_str DanglingReference = ''DANGLING_REFERENCE''"
| "error_code_as_str CycleDetected = ''CYCLE_DETECTED''"
| "error_code_as_str PolicyInvalid = ''POLICY_INVALID''"
| "error_code_as_str Expired = ''EXPIRED''"
| "error_code_as_str Revoked = ''REVOKED''"
| "error_code_as_str RevocationUnknown = ''REVOCATION_UNKNOWN''"
| "error_code_as_str UnauthorizedStatus = ''UNAUTHORIZED_STATUS''"
| "error_code_as_str Withdrawn = ''WITHDRAWN''"
| "error_code_as_str Compromised = ''COMPROMISED''"

section \<open>Hash references\<close>

datatype hash_algorithm = Sha256 | Sha384

fun cbor_enum :: "hash_algorithm \<Rightarrow> u64" where
  "cbor_enum Sha256 = 0"
| "cbor_enum Sha384 = 1"

definition from_cbor_enum :: "u64 \<Rightarrow> hash_algorithm result" where
  "from_cbor_enum v =
     (if v = 0 then Inr Sha256 else if v = 1 then Inr Sha384 else Inl UnknownAlgorithm)"

fun hash_name :: "hash_algorithm \<Rightarrow> string" where
  "hash_name Sha256 = ''sha-256''"
| "hash_name Sha384 = ''sha-384''"

definition hash_from_name :: "string \<Rightarrow> hash_algorithm result" where
  "hash_from_name s =
     (if s = ''sha-256'' then Inr Sha256 else if s = ''sha-384'' then Inr Sha384
      else Inl UnknownAlgorithm)"

fun digest_len :: "hash_algorithm \<Rightarrow> nat" where
  "digest_len Sha256 = 32"
| "digest_len Sha384 = 48"

record hash_ref =
  hr_v :: u8
  hr_alg :: hash_algorithm
  hr_digest :: bytes

definition HashRef_new :: "hash_algorithm \<Rightarrow> bytes \<Rightarrow> hash_ref result" where
  "HashRef_new alg digest =
     (if length digest \<noteq> digest_len alg then Inl Malformed
      else Inr \<lparr>hr_v = 1, hr_alg = alg, hr_digest = digest\<rparr>)"

text \<open>What every \<^verbatim>\<open>HashRef\<close> built by \<^verbatim>\<open>HashRef::new\<close> satisfies.\<close>

definition hash_ref_ok :: "hash_ref \<Rightarrow> bool" where
  "hash_ref_ok h \<longleftrightarrow> hr_v h = 1 \<and> length (hr_digest h) = digest_len (hr_alg h)"

lemma from_cbor_enum_cbor_enum [simp]: "from_cbor_enum (cbor_enum a) = Inr a"
  by (cases a) (simp_all add: from_cbor_enum_def)

lemma from_cbor_enum_Inr [result_iff]: "from_cbor_enum n = Inr a \<longleftrightarrow> n = cbor_enum a"
  by (cases a) (auto simp: from_cbor_enum_def)

lemma HashRef_new_Inr [result_iff]:
  "HashRef_new alg d = Inr h \<longleftrightarrow> hash_ref_ok h \<and> hr_alg h = alg \<and> hr_digest h = d"
  by (cases h) (auto simp: HashRef_new_def hash_ref_ok_def)

section \<open>Limits\<close>

record limits =
  max_proof_size :: nat
  max_field_size :: nat
  max_depth :: nat
  max_array_items :: nat
  max_map_entries :: nat
  max_evidence_items :: nat
  max_nodes :: nat
  max_edges :: nat
  max_sig_size :: nat
  max_policy_requirements :: nat
  max_status_objects :: nat
  max_trusted_issuers :: nat
  max_revocation_authorities :: nat
  max_referenced_proofs :: nat
  max_vocabularies :: nat

definition default_limits :: limits where
  "default_limits = \<lparr>
     max_proof_size = 1024 * 1024,
     max_field_size = 64 * 1024,
     max_depth = 16,
     max_array_items = 256,
     max_map_entries = 64,
     max_evidence_items = 64,
     max_nodes = 128,
     max_edges = 256,
     max_sig_size = 256,
     max_policy_requirements = 32,
     max_status_objects = 64,
     max_trusted_issuers = 32,
     max_revocation_authorities = 16,
     max_referenced_proofs = 16,
     max_vocabularies = 16\<rparr>"

text \<open>The \<^verbatim>\<open>pairs\<close> array of \<^verbatim>\<open>Limits::checked\<close>: each bound in the order it is checked.\<close>

definition limit_values :: "limits \<Rightarrow> nat list" where
  "limit_values l = [
     max_proof_size l, max_field_size l, max_depth l, max_array_items l, max_map_entries l,
     max_evidence_items l, max_nodes l, max_edges l, max_sig_size l, max_policy_requirements l,
     max_status_objects l, max_trusted_issuers l, max_revocation_authorities l,
     max_referenced_proofs l, max_vocabularies l]"

definition limits_checked :: "limits \<Rightarrow> limits result" where
  "limits_checked l =
     bindR (eachR (\<lambda>(got, max). if got = 0 \<or> got > max then Inl LimitExceeded else Inr ())
              (zip (limit_values l) (limit_values default_limits)))
       (\<lambda>_. Inr l)"

section \<open>Domain model\<close>

type_synonym event_type = string
type_synonym evidence_kind = string
type_synonym rel_type = string

definition event_type_is_well_known :: "event_type \<Rightarrow> bool" where
  "event_type_is_well_known s \<longleftrightarrow> s \<in> set [''payment.created'', ''payment.completed'',
     ''invoice.issued'', ''document.signed'', ''package.shipped'',
     ''sensor.measurement.recorded'', ''ai.action.executed'']"

definition TRANSPARENCY_RECEIPT :: evidence_kind where
  "TRANSPARENCY_RECEIPT = ''transparency_receipt''"

definition evidence_kind_is_well_known :: "evidence_kind \<Rightarrow> bool" where
  "evidence_kind_is_well_known s \<longleftrightarrow> s \<in> set [''signed_event'', ''signed_document'',
     ''receipt'', ''credential'', ''measurement'', ''transaction_record'', TRANSPARENCY_RECEIPT,
     ''transparency_registration'', ''transparency_checkpoint'', ''device_attestation'',
     ''external_reference'']"

definition REFERENCES :: rel_type where "REFERENCES = ''REFERENCES''"
definition SUPERSEDES :: rel_type where "SUPERSEDES = ''SUPERSEDES''"
definition EQUIVALENT :: rel_type where "EQUIVALENT = ''EQUIVALENT''"
definition CONTRADICTS :: rel_type where "CONTRADICTS = ''CONTRADICTS''"

lemmas rel_type_defs = REFERENCES_def SUPERSEDES_def EQUIVALENT_def CONTRADICTS_def

definition requires_grounding :: "rel_type \<Rightarrow> bool" where
  "requires_grounding t \<longleftrightarrow> t \<in> set [''OWNS'', ''CREATED'', ''SETTLES'', ''EXECUTED'',
     EQUIVALENT, CONTRADICTS]"

definition rel_type_is_well_known :: "rel_type \<Rightarrow> bool" where
  "rel_type_is_well_known t \<longleftrightarrow> t \<in> set [''OWNS'', ''CREATED'', ''SETTLES'', REFERENCES,
     ''CONTAINS'', ''PRODUCED'', ''EXECUTED'', ''ISSUED'', SUPERSEDES, ''REVOKES'',
     EQUIVALENT, CONTRADICTS]"

datatype meta_value = MText string | MUint u64 | MBool bool

record event_content =
  ev_v :: u8
  ev_type :: event_type
  ev_subject :: string
  ev_effective_at :: u64
  ev_payload_ref :: hash_ref
  ev_metadata :: "(string \<times> meta_value) list"

record claim =
  claim_type :: string
  claim_fields :: "(string \<times> meta_value) list"

record attestation_content =
  att_v :: u8
  att_issuer :: string
  att_subject :: string
  att_claim :: claim
  att_issued_at :: u64
  att_expires_at :: "u64 option"
  att_evidence_ref :: "string option"

record evidence =
  evd_v :: u8
  evd_kind :: evidence_kind
  evd_digest :: hash_ref
  evd_attestation_ref :: "string option"
  evd_hint :: "string option"

record relationship =
  rel_v :: u8
  rel_from :: string
  rel_ty :: rel_type
  rel_to :: string
  rel_evidence_ref :: "string option"
  rel_attestation_ref :: "string option"

record proposition_content =
  prop_v :: u8
  prop_kind :: string
  prop_subject :: string
  prop_predicate :: string
  prop_object :: "string option"
  prop_at_time :: "u64 option"
  prop_context :: "(string \<times> meta_value) list"

record stored_attestation =
  sa_content :: attestation_content
  sa_sign1 :: bytes

record vocabulary_decl =
  voc_ns :: string
  voc_version :: u64

record proof_package =
  prf_v :: u8
  prf_id :: string
  prf_proposition :: proposition_content
  prf_events :: "event_content list"
  prf_attestations :: "stored_attestation list"
  prf_evidence :: "evidence list"
  prf_relationships :: "relationship list"
  prf_referenced_proofs :: "string list"
  prf_vocabularies :: "vocabulary_decl list"
  prf_created_at :: u64

datatype lifecycle_status =
  LActive | LExpired | LRevoked | LSuperseded | LCompromised | LUnknown

fun lifecycle_as_str :: "lifecycle_status \<Rightarrow> string" where
  "lifecycle_as_str LActive = ''ACTIVE''"
| "lifecycle_as_str LExpired = ''EXPIRED''"
| "lifecycle_as_str LRevoked = ''REVOKED''"
| "lifecycle_as_str LSuperseded = ''SUPERSEDED''"
| "lifecycle_as_str LCompromised = ''COMPROMISED''"
| "lifecycle_as_str LUnknown = ''UNKNOWN''"

definition lifecycle_parse :: "string \<Rightarrow> lifecycle_status option" where
  "lifecycle_parse s = map_of [(''ACTIVE'', LActive), (''EXPIRED'', LExpired),
     (''REVOKED'', LRevoked), (''SUPERSEDED'', LSuperseded), (''COMPROMISED'', LCompromised),
     (''UNKNOWN'', LUnknown)] s"

datatype evidence_status =
    EAvailable | EWithdrawn | ECompromised | ERevoked | ESuperseded | EExpired | EUnknown
  | EUnavailable

fun evidence_status_as_str :: "evidence_status \<Rightarrow> string" where
  "evidence_status_as_str EAvailable = ''AVAILABLE''"
| "evidence_status_as_str EWithdrawn = ''WITHDRAWN''"
| "evidence_status_as_str ECompromised = ''COMPROMISED''"
| "evidence_status_as_str ERevoked = ''REVOKED''"
| "evidence_status_as_str ESuperseded = ''SUPERSEDED''"
| "evidence_status_as_str EExpired = ''EXPIRED''"
| "evidence_status_as_str EUnknown = ''UNKNOWN''"
| "evidence_status_as_str EUnavailable = ''UNAVAILABLE''"

definition evidence_status_parse :: "string \<Rightarrow> evidence_status option" where
  "evidence_status_parse s = map_of [(''AVAILABLE'', EAvailable), (''WITHDRAWN'', EWithdrawn),
     (''COMPROMISED'', ECompromised), (''REVOKED'', ERevoked), (''SUPERSEDED'', ESuperseded),
     (''EXPIRED'', EExpired), (''UNKNOWN'', EUnknown), (''UNAVAILABLE'', EUnavailable)] s"

text \<open>
  \<^verbatim>\<open>vocabulary_ns\<close>: the text before the first colon when it is not at index 0, else
  \<^verbatim>\<open>legacy\<close>.
\<close>

definition vocabulary_ns :: "string \<Rightarrow> string" where
  "vocabulary_ns label =
     (let pre = takeWhile (\<lambda>c. c \<noteq> CHR '':'') label
      in if length pre < length label \<and> pre \<noteq> [] then pre else ''legacy'')"

section \<open>Properties of the core model\<close>

lemma limits_checked_Inr_iff:
  "limits_checked l = Inr l' \<longleftrightarrow>
   l' = l \<and> list_all2 (\<lambda>got max. 1 \<le> got \<and> got \<le> max) (limit_values l) (limit_values default_limits)"
proof -
  have "length (limit_values l) = length (limit_values default_limits)"
    by (simp add: limit_values_def)
  then show ?thesis
    by (auto simp: limits_checked_def result_iff list_all2_iff split: if_splits prod.splits)
qed

end
