(* ===== verification/Interfaces.thy ===== *)
theory Interfaces
  imports Prelude
begin

text \<open>
  The contracts between the components, as locales: what a client may rely on, with the
  client-side lemmas proved once. Each is interpreted on the model's own definitions in the
  theory of the component that provides them.
\<close>

section \<open>Canonical codecs\<close>

text \<open>
  A decoder that accepts exactly the encodings, of admissible size, of values in canonical
  form. Every canonical value then has one encoding, every accepted byte string one value,
  and checking a decoded value against its re-encoding can never fail.
\<close>

locale canonical_codec =
  fixes enc :: "'v \<Rightarrow> 'b"
    and dec :: "'b \<Rightarrow> 'e + 'v"
    and ok :: "'v \<Rightarrow> bool"
    and fits :: "'b \<Rightarrow> bool"
  assumes dec_iff: "dec b = Inr v \<longleftrightarrow> fits b \<and> ok v \<and> enc v = b"
begin

lemma dec_enc: "ok v \<Longrightarrow> fits (enc v) \<Longrightarrow> dec (enc v) = Inr v"
  by (simp add: dec_iff)

lemma enc_dec: "dec b = Inr v \<Longrightarrow> enc v = b"
  by (simp add: dec_iff)

lemma dec_inj: "dec b = Inr v \<Longrightarrow> dec b' = Inr v \<Longrightarrow> b = b'"
  by (auto simp: dec_iff)

lemma reencode_check: "bindR (dec b) (\<lambda>v. if enc v \<noteq> b then Inl e else Inr v) = dec b"
  by (cases "dec b") (auto dest: enc_dec)

lemma reencode_test: "bindR (dec b) (\<lambda>v. Inr (enc v = b)) \<noteq> Inr False"
  by (cases "dec b") (auto dest: enc_dec)

end

section \<open>Record schemas over a codec\<close>

text \<open>
  A schema turns records into values and back. On values in canonical form its parser accepts
  exactly the normal forms of the valid records. Reading bytes through the codec and the
  schema then accepts exactly the bytes that the record's own encoding writes, so a record
  has one byte string and re-encoding a parsed record gives the bytes it came from.
\<close>

locale record_schema = canonical_codec enc dec ok fits
  for enc :: "'v \<Rightarrow> 'b" and dec :: "'b \<Rightarrow> 'e + 'v" and ok fits +
  fixes norm :: "'v \<Rightarrow> 'v" and to_val :: "'x \<Rightarrow> 'v" and of_val :: "'v \<Rightarrow> 'e + 'x" and valid :: "'x \<Rightarrow> bool"
  assumes enc_norm: "enc (norm v) = enc v"
    and of_val_iff: "ok v \<Longrightarrow> of_val v = Inr x \<longleftrightarrow> valid x \<and> v = norm (to_val x)"
begin

lemma read_iff:
  "bindR (dec b) of_val = Inr x \<longleftrightarrow> valid x \<and> ok (norm (to_val x)) \<and> fits b \<and> enc (to_val x) = b"
  by (auto simp: bindR_Inr_iff dec_iff of_val_iff enc_norm)

lemma read_write:
  "valid x \<Longrightarrow> ok (norm (to_val x)) \<Longrightarrow> fits (enc (to_val x)) \<Longrightarrow> bindR (dec (enc (to_val x))) of_val = Inr x"
  by (simp add: read_iff)

lemma read_unique: "bindR (dec b) of_val = Inr x \<Longrightarrow> bindR (dec b') of_val = Inr x \<Longrightarrow> b = b'"
  by (auto simp: read_iff)

lemma write_inj:
  assumes "valid x" "ok (norm (to_val x))" "fits (enc (to_val x))"
    and "valid y" "ok (norm (to_val y))" "enc (to_val x) = enc (to_val y)"
  shows "x = y"
  using read_write [OF assms(1-3)] read_write [of y] assms by simp

end

end
