(* ===== verification/Cbor.thy ===== *)
theory Cbor
  imports Core Interfaces
begin

unbundle bit_operations_syntax

text \<open>
  The deterministic CBOR codec of \<^verbatim>\<open>proof-format/src/cbor.rs\<close>: the closed value set, the
  canonical encoder, the strict decoder with its limits, and the canonicality checks. The
  decoder's \<^verbatim>\<open>buf\<close> and \<^verbatim>\<open>limits\<close> never change and are arguments; \<^verbatim>\<open>pos\<close> is threaded through
  every call; \<^verbatim>\<open>depth\<close> is raised for the elements of an array or map and restored after
  them, so it is an argument of the recursive calls.

  The main result characterises the decoder exactly: it accepts a byte string if and only
  if the string is the canonical encoding of a value in canonical form within the limits,
  and it returns that value.
\<close>

section \<open>Values\<close>

datatype cbor_value =
    CUint u64
  | CNint i64
  | CText string
  | CBytes bytes
  | CArray "cbor_value list"
  | CMap "(cbor_value \<times> cbor_value) list"
  | CBool bool
  | CNull

section \<open>Encoder\<close>

text \<open>Big-endian bytes of the low \<open>k\<close> bytes of a number (\<^verbatim>\<open>to_be_bytes\<close>), and back.\<close>

fun to_be_bytes :: "nat \<Rightarrow> nat \<Rightarrow> bytes" where
  "to_be_bytes 0 n = []"
| "to_be_bytes (Suc k) n = word_of_nat (n div 256 ^ k) # to_be_bytes k n"

fun from_be_bytes :: "bytes \<Rightarrow> nat" where
  "from_be_bytes [] = 0"
| "from_be_bytes (b # bs) = unat b * 256 ^ length bs + from_be_bytes bs"

definition encode_head :: "u8 \<Rightarrow> u64 \<Rightarrow> bytes" where
  "encode_head major n =
     (let prefix = push_bit 5 major
      in if unat n < 24 then [prefix OR ucast n]
         else if unat n \<le> 0xFF then (prefix OR 24) # [ucast n]
         else if unat n \<le> 0xFFFF then (prefix OR 25) # to_be_bytes 2 (unat n)
         else if unat n \<le> 0xFFFFFFFF then (prefix OR 26) # to_be_bytes 4 (unat n)
         else (prefix OR 27) # to_be_bytes 8 (unat n))"

fun encode_value :: "cbor_value \<Rightarrow> bytes" where
  "encode_value (CUint n) = encode_head 0 n"
| "encode_value (CNint n) =
     (if 0 \<le> sint n then encode_head 0 n else encode_head 1 (word_of_int (-1 - sint n)))"
| "encode_value (CBytes b) = encode_head 2 (word_of_nat (length b)) @ b"
| "encode_value (CText s) = encode_head 3 (word_of_nat (length s)) @ as_bytes s"
| "encode_value (CArray items) =
     encode_head 4 (word_of_nat (length items)) @ concat (map encode_value items)"
| "encode_value (CMap pairs) =
     (let enc = sort_key fst (map (\<lambda>(k, v). (encode_value k, encode_value v)) pairs)
      in encode_head 5 (word_of_nat (length pairs)) @ concat (map (\<lambda>(kb, vb). kb @ vb) enc))"
| "encode_value (CBool b) = (if b then [0xf5] else [0xf4])"
| "encode_value CNull = [0xf6]"

definition encode_canonical :: "cbor_value \<Rightarrow> bytes" where
  "encode_canonical v = encode_value v"

text \<open>\<^verbatim>\<open>CborValue::sort_maps\<close>: every map, innermost first, sorted by its encoded keys.\<close>

fun sort_maps :: "cbor_value \<Rightarrow> cbor_value" where
  "sort_maps (CArray items) = CArray (map sort_maps items)"
| "sort_maps (CMap pairs) =
     CMap (sort_key (\<lambda>p. encode_canonical (fst p))
             (map (\<lambda>(k, v). (sort_maps k, sort_maps v)) pairs))"
| "sort_maps v = v"

definition sorted_map :: "(cbor_value \<times> cbor_value) list \<Rightarrow> cbor_value" where
  "sorted_map pairs = sort_maps (CMap pairs)"

section \<open>Decoder\<close>

definition arg_to_usize :: "u64 \<Rightarrow> nat result" where
  "arg_to_usize n = (if unat n < 2 ^ usize_bits then Inr (unat n) else Inl LimitExceeded)"

definition read :: "bytes \<Rightarrow> nat \<Rightarrow> nat \<Rightarrow> (bytes \<times> nat) result" where
  "read buf pos n =
     (if pos + n > length buf then Inl Malformed
      else Inr (take n (drop pos buf), pos + n))"

text \<open>\<^verbatim>\<open>read_arg\<close>; the multi-byte cases differ in the width and in the largest value that a
  shorter form can hold.\<close>

definition read_be :: "bytes \<Rightarrow> nat \<Rightarrow> nat \<Rightarrow> nat \<Rightarrow> (u64 \<times> nat) result" where
  "read_be buf pos k shorter_max =
     bindR (read buf pos k) (\<lambda>(b, pos').
       if from_be_bytes b \<le> shorter_max then Inl NonCanonical
       else Inr (word_of_nat (from_be_bytes b), pos'))"

definition read_arg :: "bytes \<Rightarrow> nat \<Rightarrow> u8 \<Rightarrow> (u64 \<times> nat) result" where
  "read_arg buf pos ai =
     (if unat ai \<le> 23 then Inr (ucast ai, pos)
      else if unat ai = 24 then read_be buf pos 1 23
      else if unat ai = 25 then read_be buf pos 2 0xFF
      else if unat ai = 26 then read_be buf pos 4 0xFFFF
      else if unat ai = 27 then read_be buf pos 8 0xFFFFFFFF
      else if unat ai \<le> 31 then Inl ForbiddenCborConstruct
      else Inl Malformed)"

text \<open>\<^verbatim>\<open>read_arg\<close> followed by \<^verbatim>\<open>arg_to_usize\<close> and the bound check of the container.\<close>

definition read_len :: "bytes \<Rightarrow> nat \<Rightarrow> u8 \<Rightarrow> nat \<Rightarrow> (nat \<times> nat) result" where
  "read_len buf pos ai bound =
     bindR (read_arg buf pos ai) (\<lambda>(n, pos').
     bindR (arg_to_usize n) (\<lambda>len.
       if len > bound then Inl LimitExceeded else Inr (len, pos')))"

definition decode_simple :: "u8 \<Rightarrow> cbor_value result" where
  "decode_simple ai =
     (if ai = 20 then Inr (CBool False)
      else if ai = 21 then Inr (CBool True)
      else if ai = 22 then Inr CNull
      else Inl ForbiddenCborConstruct)"

text \<open>The key-order check after each pair of a map.\<close>

definition check_key_order :: "bytes option \<Rightarrow> bytes \<Rightarrow> unit result" where
  "check_key_order prev kb =
     (case prev of None \<Rightarrow> Inr ()
      | Some p \<Rightarrow> if kb = p then Inl DuplicateMapKey
                  else if kb < p then Inl NonCanonical else Inr ())"

function (sequential)
  decode_value :: "limits \<Rightarrow> bytes \<Rightarrow> nat \<Rightarrow> nat \<Rightarrow> (cbor_value \<times> nat) result"
and decode_items :: "limits \<Rightarrow> bytes \<Rightarrow> nat \<Rightarrow> nat \<Rightarrow> nat \<Rightarrow> (cbor_value list \<times> nat) result"
and decode_pairs :: "limits \<Rightarrow> bytes \<Rightarrow> nat \<Rightarrow> nat \<Rightarrow> bytes option \<Rightarrow> nat
       \<Rightarrow> ((cbor_value \<times> cbor_value) list \<times> nat) result" where
  "decode_value l buf depth pos =
     (if depth > max_depth l then Inl LimitExceeded
      else if pos \<ge> length buf then Inl Malformed
      else bindR (read buf pos 1) (\<lambda>(ibs, pos1).
        let ib = hd ibs; major = drop_bit 5 ib; ai = ib AND 0x1f
        in if major = 0 then
             bindR (read_arg buf pos1 ai) (\<lambda>(n, pos2). Inr (CUint n, pos2))
           else if major = 1 then
             bindR (read_arg buf pos1 ai) (\<lambda>(n, pos2).
               let v = -1 - uint n
               in if v < - (2 ^ 63) then Inl ForbiddenCborConstruct
                  else Inr (CNint (word_of_int v), pos2))
           else if major = 2 then
             bindR (read_len buf pos1 ai (max_field_size l)) (\<lambda>(len, pos2).
             bindR (read buf pos2 len) (\<lambda>(b, pos3). Inr (CBytes b, pos3)))
           else if major = 3 then
             bindR (read_len buf pos1 ai (max_field_size l)) (\<lambda>(len, pos2).
             bindR (read buf pos2 len) (\<lambda>(b, pos3).
               if valid_utf8 b then Inr (CText (str_of_bytes b), pos3) else Inl Malformed))
           else if major = 4 then
             bindR (read_len buf pos1 ai (max_array_items l)) (\<lambda>(len, pos2).
             bindR (decode_items l buf (depth + 1) pos2 len) (\<lambda>(items, pos3).
               Inr (CArray items, pos3)))
           else if major = 5 then
             bindR (read_len buf pos1 ai (max_map_entries l)) (\<lambda>(len, pos2).
             bindR (decode_pairs l buf (depth + 1) pos2 None len) (\<lambda>(pairs, pos3).
               Inr (CMap pairs, pos3)))
           else if major = 6 then Inl ForbiddenCborConstruct
           else if major = 7 then
             bindR (decode_simple ai) (\<lambda>v. Inr (v, pos1))
           else Inl Malformed))"
| "decode_items l buf depth pos 0 = Inr ([], pos)"
| "decode_items l buf depth pos (Suc n) =
     bindR (decode_value l buf depth pos) (\<lambda>(x, pos1).
     bindR (decode_items l buf depth pos1 n) (\<lambda>(xs, pos2). Inr (x # xs, pos2)))"
| "decode_pairs l buf depth pos prev 0 = Inr ([], pos)"
| "decode_pairs l buf depth pos prev (Suc n) =
     bindR (decode_value l buf depth pos) (\<lambda>(k, pos1).
     bindR (decode_value l buf depth pos1) (\<lambda>(val, pos2).
     let kb = encode_canonical k
     in bindR (check_key_order prev kb) (\<lambda>_.
        bindR (decode_pairs l buf depth pos2 (Some kb) n) (\<lambda>(ps, pos3).
          Inr ((k, val) # ps, pos3)))))"
  by pat_completeness auto
termination
proof (relation "measures
    [\<lambda>x. case x of Inl (l, buf, d, pos) \<Rightarrow> Suc (max_depth l) - d
       | Inr (Inl (l, buf, d, pos, n)) \<Rightarrow> Suc (max_depth l) - d
       | Inr (Inr (l, buf, d, pos, prev, n)) \<Rightarrow> Suc (max_depth l) - d,
     \<lambda>x. case x of Inl _ \<Rightarrow> 0
       | Inr (Inl (l, buf, d, pos, n)) \<Rightarrow> n
       | Inr (Inr (l, buf, d, pos, prev, n)) \<Rightarrow> n]")
qed auto

declare decode_value.simps [simp del]

definition decode_strict :: "bytes \<Rightarrow> limits \<Rightarrow> cbor_value result" where
  "decode_strict bs l =
     (if length bs > max_proof_size l then Inl LimitExceeded
      else bindR (decode_value l bs 0 0) (\<lambda>(v, pos).
        if pos \<noteq> length bs then Inl Malformed else Inr v))"

definition is_canonical :: "bytes \<Rightarrow> limits \<Rightarrow> bool result" where
  "is_canonical bs l = bindR (decode_strict bs l) (\<lambda>v. Inr (encode_canonical v = bs))"

definition decode_and_check_canonical :: "bytes \<Rightarrow> limits \<Rightarrow> cbor_value result" where
  "decode_and_check_canonical bs l =
     bindR (decode_strict bs l) (\<lambda>v.
       if encode_canonical v \<noteq> bs then Inl NonCanonical else Inr v)"

section \<open>Canonical form\<close>

text \<open>
  \<open>canon_form l d v\<close>: at nesting depth \<open>d\<close> the value is within the limits, its texts are
  UTF-8, its negative integers are negative, and the keys of each map are strictly
  increasing as encoded byte strings. \<open>wf_value\<close> asks the same with the map keys only
  pairwise different, in any order: what a caller of the encoder has to provide.
\<close>

fun canon_form :: "limits \<Rightarrow> nat \<Rightarrow> cbor_value \<Rightarrow> bool" where
  "canon_form l d (CUint n) \<longleftrightarrow> d \<le> max_depth l"
| "canon_form l d (CNint n) \<longleftrightarrow> d \<le> max_depth l \<and> sint n < 0"
| "canon_form l d (CText s) \<longleftrightarrow> d \<le> max_depth l \<and> length s \<le> max_field_size l
     \<and> length s < 2 ^ 64 \<and> valid_utf8 (as_bytes s)"
| "canon_form l d (CBytes b) \<longleftrightarrow> d \<le> max_depth l \<and> length b \<le> max_field_size l \<and> length b < 2 ^ 64"
| "canon_form l d (CArray xs) \<longleftrightarrow> d \<le> max_depth l \<and> length xs \<le> max_array_items l
     \<and> length xs < 2 ^ 64 \<and> (\<forall>x \<in> set xs. canon_form l (Suc d) x)"
| "canon_form l d (CMap ps) \<longleftrightarrow> d \<le> max_depth l \<and> length ps \<le> max_map_entries l
     \<and> length ps < 2 ^ 64 \<and> (\<forall>(k, v) \<in> set ps. canon_form l (Suc d) k \<and> canon_form l (Suc d) v)
     \<and> sorted_wrt (<) (map (\<lambda>p. encode_canonical (fst p)) ps)"
| "canon_form l d (CBool b) \<longleftrightarrow> d \<le> max_depth l"
| "canon_form l d CNull \<longleftrightarrow> d \<le> max_depth l"

fun wf_value :: "limits \<Rightarrow> nat \<Rightarrow> cbor_value \<Rightarrow> bool" where
  "wf_value l d (CArray xs) \<longleftrightarrow> d \<le> max_depth l \<and> length xs \<le> max_array_items l
     \<and> length xs < 2 ^ 64 \<and> (\<forall>x \<in> set xs. wf_value l (Suc d) x)"
| "wf_value l d (CMap ps) \<longleftrightarrow> d \<le> max_depth l \<and> length ps \<le> max_map_entries l
     \<and> length ps < 2 ^ 64 \<and> (\<forall>(k, v) \<in> set ps. wf_value l (Suc d) k \<and> wf_value l (Suc d) v)
     \<and> distinct (map (\<lambda>p. encode_canonical (fst p)) ps)"
| "wf_value l d v \<longleftrightarrow> canon_form l d v"

text \<open>
  Vocabulary of the proofs: the head byte of an item and the argument bytes after it, a
  slice of the input, and the encoded entries of a map in the order they are listed.
\<close>

definition head_byte :: "u8 \<Rightarrow> u8 \<Rightarrow> u8" where
  "head_byte major ai = (push_bit 5 major OR ai)"


text \<open>\<open>span buf p bs q\<close>: the bytes \<open>bs\<close> stand in \<open>buf\<close> from position \<open>p\<close> up to \<open>q\<close>.\<close>

definition span :: "bytes \<Rightarrow> nat \<Rightarrow> bytes \<Rightarrow> nat \<Rightarrow> bool" where
  "span buf p bs q \<longleftrightarrow> q = p + length bs \<and> q \<le> length buf \<and> take (length bs) (drop p buf) = bs"

definition head_ai :: "u64 \<Rightarrow> u8" where
  "head_ai n = (if unat n < 24 then ucast n else if unat n \<le> 0xFF then 24
     else if unat n \<le> 0xFFFF then 25 else if unat n \<le> 0xFFFFFFFF then 26 else 27)"

definition head_tail :: "u64 \<Rightarrow> bytes" where
  "head_tail n = (if unat n < 24 then [] else if unat n \<le> 0xFF then to_be_bytes 1 (unat n)
     else if unat n \<le> 0xFFFF then to_be_bytes 2 (unat n)
     else if unat n \<le> 0xFFFFFFFF then to_be_bytes 4 (unat n) else to_be_bytes 8 (unat n))"

definition encode_pairs :: "(cbor_value \<times> cbor_value) list \<Rightarrow> bytes" where
  "encode_pairs ps = concat (map (\<lambda>(k, v). encode_value k @ encode_value v) ps)"

section \<open>Head bytes\<close>

lemma to_be_bytes_length [simp]: "length (to_be_bytes k n) = k"
  by (induction k) auto

lemma from_be_to_be: "from_be_bytes (to_be_bytes k n) = n mod 256 ^ k"
proof (induction k)
  case (Suc k)
  have "unat (word_of_nat (n div 256 ^ k) :: byte) = n div 256 ^ k mod 256"
    by (simp add: unat_of_nat)
  then have "from_be_bytes (to_be_bytes (Suc k) n) = n div 256 ^ k mod 256 * 256 ^ k + n mod 256 ^ k"
    using Suc by simp
  also have "\<dots> = n mod 256 ^ Suc k"
    using mod_mult2_eq [of n "256 ^ k" 256] by (simp add: mult.commute)
  finally show ?case .
qed simp

lemma from_be_bytes_less: "from_be_bytes bs < 256 ^ length bs"
proof (induction bs)
  case (Cons b bs)
  have "unat b \<le> 255" using unsigned_less [of b, where ?'a = nat] by simp
  then have "unat b * 256 ^ length bs \<le> 255 * 256 ^ length bs" by (rule mult_le_mono1)
  with Cons have "unat b * 256 ^ length bs + from_be_bytes bs < 255 * 256 ^ length bs + 256 ^ length bs"
    by (intro add_le_less_mono)
  then show ?case by simp
qed simp

lemma to_be_from_be: "to_be_bytes (length bs) (from_be_bytes bs) = bs"
proof -
  have shift: "to_be_bytes k (m * 256 ^ k + n) = to_be_bytes k n" for k m n
  proof (induction k arbitrary: m n)
    case (Suc k)
    have "(m * 256 ^ Suc k + n) div 256 ^ k = m * 256 + n div 256 ^ k"
      using div_mult_self1 [of "256 ^ k" n "m * 256"] by (simp add: ac_simps)
    moreover have "(word_of_nat (m * 256 + n div 256 ^ k) :: byte) = word_of_nat (n div 256 ^ k)"
      unfolding word_of_nat_eq_iff by (simp add: take_bit_eq_mod)
    moreover have "to_be_bytes k (m * 256 ^ Suc k + n) = to_be_bytes k n"
      using Suc [of "m * 256" n] by (simp add: ac_simps)
    ultimately show ?case by simp
  qed simp
  show ?thesis
  proof (induction bs)
    case (Cons b bs)
    have "(unat b * 256 ^ length bs + from_be_bytes bs) div 256 ^ length bs = unat b"
      using from_be_bytes_less [of bs] by simp
    with Cons shift show ?case by simp
  qed simp
qed

lemma and_31: "b AND 0x1f = take_bit 5 (b :: 8 word)"
  by (simp add: take_bit_eq_mask mask_eq_exp_minus_1)

lemma head_byte_split: "head_byte (drop_bit 5 b) (b AND 0x1f) = b"
  by (auto simp: head_byte_def and_31 bit_eq_iff bit_simps)

lemma small_bits: "unat m < 2 ^ k \<Longrightarrow> bit (m :: 8 word) i \<Longrightarrow> i < k"
  by (metis bit_take_bit_iff take_bit_nat_eq_self_iff unsigned_take_bit_eq word_unat_eq_iff)

lemma head_byte_major: "unat m < 8 \<Longrightarrow> unat a < 32 \<Longrightarrow> drop_bit 5 (head_byte m a) = m"
  using small_bits [of m 3] small_bits [of a 5]
  by (auto simp: head_byte_def bit_eq_iff bit_simps)

lemma head_byte_ai: "unat m < 8 \<Longrightarrow> unat a < 32 \<Longrightarrow> head_byte m a AND 0x1f = a"
  using small_bits [of m 3] small_bits [of a 5]
  by (auto simp: head_byte_def and_31 bit_eq_iff bit_simps)

lemma unat_and_31: "unat (b AND 0x1f :: 8 word) < 32"
  using take_bit_nat_less_exp [of 5 "unat b"] by (simp add: and_31 unsigned_take_bit_eq)

lemma unat_drop_5: "unat (drop_bit 5 b :: 8 word) < 8"
proof -
  have "unat (drop_bit 5 b) = unat b div 32"
    unfolding unat_drop_bit_eq by (simp add: drop_bit_eq_div)
  moreover have "unat b < 256" using unsigned_less [of b, where ?'a = nat] by simp
  ultimately show ?thesis by simp
qed

section \<open>Slices of the input\<close>

lemma span_Nil [simp]: "span buf p [] q \<longleftrightarrow> q = p \<and> p \<le> length buf"
  by (auto simp: span_def)

lemma span_append: "span buf p (xs @ ys) r \<longleftrightarrow> (\<exists>q. span buf p xs q \<and> span buf q ys r)"
proof
  assume *: "span buf p (xs @ ys) r"
  then have eq: "take (length xs) (drop p buf) @ take (length ys) (drop (p + length xs) buf) = xs @ ys"
    and len: "r = p + (length xs + length ys)" "r \<le> length buf"
    by (auto simp: span_def take_add add.commute)
  have "length (take (length xs) (drop p buf)) = length xs" using len by simp
  with eq have "take (length xs) (drop p buf) = xs" "take (length ys) (drop (p + length xs) buf) = ys"
    by (metis append_eq_append_conv)+
  with len show "\<exists>q. span buf p xs q \<and> span buf q ys r"
    by (intro exI [of _ "p + length xs"]) (simp add: span_def)
next
  assume "\<exists>q. span buf p xs q \<and> span buf q ys r"
  then show "span buf p (xs @ ys) r"
    by (auto simp: span_def take_add add.commute)
qed

lemma span_Cons: "span buf p (x # xs) r \<longleftrightarrow> p < length buf \<and> buf ! p = x \<and> span buf (Suc p) xs r"
proof -
  have "span buf p [x] q \<longleftrightarrow> q = Suc p \<and> p < length buf \<and> buf ! p = x" for q
    by (auto simp: span_def take_Suc_conv_app_nth hd_drop_conv_nth take_Suc)
  then show ?thesis using span_append [of buf p "[x]" xs r] by auto
qed

lemma read_Inr_iff: "read buf pos n = Inr (bs, pos') \<longleftrightarrow> length bs = n \<and> span buf pos bs pos'"
  by (auto simp: read_def span_def)

lemma encode_head_eq: "encode_head m n = head_byte m (head_ai n) # head_tail n"
  by (simp add: encode_head_def head_byte_def head_ai_def head_tail_def Let_def numeral_2_eq_2)

lemma unat_head_ai: "unat (head_ai n) < 32"
  by (auto simp: head_ai_def unsigned_ucast_eq take_bit_eq_mod)

lemma read_be_Inr_iff:
  assumes "0 < k" "k \<le> 8"
  shows "read_be buf pos k m = Inr (n, pos') \<longleftrightarrow>
    m < unat n \<and> unat n < 256 ^ k \<and> span buf pos (to_be_bytes k (unat n)) pos'"
proof
  assume "read_be buf pos k m = Inr (n, pos')"
  then obtain b where b: "length b = k" "span buf pos b pos'" "m < from_be_bytes b"
      and n: "n = word_of_nat (from_be_bytes b)"
    by (auto simp: read_be_def result_iff read_Inr_iff split: prod.splits if_splits)
  have "from_be_bytes b < 256 ^ k" using from_be_bytes_less [of b] b by simp
  moreover have "(256::nat) ^ k \<le> 256 ^ 8" using assms by (intro power_increasing) auto
  ultimately have "unat n = from_be_bytes b" using n by (simp add: unat_of_nat)
  then show "m < unat n \<and> unat n < 256 ^ k \<and> span buf pos (to_be_bytes k (unat n)) pos'"
    using b to_be_from_be [of b] \<open>from_be_bytes b < 256 ^ k\<close> by simp
next
  assume *: "m < unat n \<and> unat n < 256 ^ k \<and> span buf pos (to_be_bytes k (unat n)) pos'"
  then have "read buf pos k = Inr (to_be_bytes k (unat n), pos')"
    by (simp add: read_Inr_iff)
  with * show "read_be buf pos k m = Inr (n, pos')"
    by (simp add: read_be_def from_be_to_be)
qed

lemma unat_ucast_small: "unat (n :: u64) < 24 \<Longrightarrow> unat (ucast n :: u8) = unat n"
  by (simp add: unsigned_ucast_eq take_bit_eq_mod)

lemma read_arg_Inr_iff:
  assumes "unat ai < 32" "pos \<le> length buf"
  shows "read_arg buf pos ai = Inr (n, pos') \<longleftrightarrow> ai = head_ai n \<and> span buf pos (head_tail n) pos'"
proof -
  have n64: "unat n < 256 ^ 8" using unsigned_less [of n, where ?'a = nat] by simp
  have ai: "ai = w \<longleftrightarrow> unat ai = unat w" for w :: u8 by (rule word_unat_eq_iff)
  consider "unat ai \<le> 23" | "unat ai = 24" | "unat ai = 25" | "unat ai = 26" | "unat ai = 27"
    | "28 \<le> unat ai" by linarith
  then show ?thesis
  proof cases
    case 1
    then have "n = ucast ai \<longleftrightarrow> unat n < 24 \<and> ai = ucast n"
      by (auto simp: word_unat_eq_iff unsigned_ucast_eq take_bit_eq_mod)
    with 1 assms show ?thesis
      by (auto simp: read_arg_def head_ai_def head_tail_def split: if_splits)
  next
    case 2
    then show ?thesis
      by (auto simp: read_arg_def read_be_Inr_iff head_ai_def head_tail_def ai unat_ucast_small)
  next
    case 3
    then show ?thesis
      by (auto simp: read_arg_def read_be_Inr_iff head_ai_def head_tail_def ai unat_ucast_small)
  next
    case 4
    then show ?thesis
      by (auto simp: read_arg_def read_be_Inr_iff head_ai_def head_tail_def ai unat_ucast_small)
  next
    case 5
    with n64 show ?thesis
      by (auto simp: read_arg_def read_be_Inr_iff head_ai_def head_tail_def ai unat_ucast_small)
  next
    case 6
    with assms show ?thesis
      by (auto simp: read_arg_def head_ai_def ai unat_ucast_small split: if_splits)
  qed
qed

lemma arg_to_usize_eq [simp]: "arg_to_usize n = Inr (unat n)"
  using unsigned_less [of n, where ?'a = nat] by (simp add: arg_to_usize_def usize_bits_def)

lemma read_len_Inr_iff:
  assumes "unat ai < 32" "pos \<le> length buf"
  shows "read_len buf pos ai bound = Inr (len, pos') \<longleftrightarrow>
    len \<le> bound \<and> len < 2 ^ 64 \<and> ai = head_ai (word_of_nat len)
    \<and> span buf pos (head_tail (word_of_nat len)) pos'"
proof -
  have "(\<exists>n. unat (n :: u64) = len \<and> P n) \<longleftrightarrow> len < 2 ^ 64 \<and> P (word_of_nat len)" for P
    using unsigned_less [where ?'a = nat and ?'b = 64]
    by (auto simp: unat_of_nat intro!: exI [of _ "word_of_nat len"])
  from this [of "\<lambda>n. len \<le> bound \<and> ai = head_ai n \<and> span buf pos (head_tail n) pos'"]
  show ?thesis
    by (auto simp: read_len_def result_iff read_arg_Inr_iff [OF assms] split: prod.splits if_splits)
qed

lemma canon_form_depth: "canon_form l d v \<Longrightarrow> d \<le> max_depth l"
  by (cases v) auto

lemma encode_pairs_simps [simp]:
  "encode_pairs [] = []"
  "encode_pairs ((k, v) # ps) = encode_value k @ encode_value v @ encode_pairs ps"
  by (simp_all add: encode_pairs_def)

lemma encode_value_CMap_sorted:
  assumes "sorted_wrt (<) (map (\<lambda>p. encode_canonical (fst p)) ps)"
  shows "encode_value (CMap ps) = encode_head 5 (word_of_nat (length ps)) @ encode_pairs ps"
proof -
  let ?enc = "map (\<lambda>(k, v). (encode_value k, encode_value v)) ps"
  have "map fst ?enc = map (\<lambda>p. encode_canonical (fst p)) ps"
    by (auto simp: encode_canonical_def)
  with assms have "sort_key fst ?enc = ?enc" by (intro strict_sorted_key_map) (simp only:)
  then show ?thesis by (simp add: encode_pairs_def Let_def comp_def case_prod_unfold)
qed

lemma encode_value_not_Nil [simp]: "encode_value v \<noteq> []"
  by (cases v) (auto simp: encode_head_eq Let_def)

section \<open>One step of the decoder\<close>

lemma major_cases:
  assumes "unat (m :: u8) < 8"
  shows "m = 0 \<or> m = 1 \<or> m = 2 \<or> m = 3 \<or> m = 4 \<or> m = 5 \<or> m = 6 \<or> m = 7"
proof -
  have "unat m \<in> {0, 1, 2, 3, 4, 5, 6, 7}" using assms by auto
  then show ?thesis by (auto simp: word_unat_eq_iff)
qed

lemma decode_step:
  assumes "d \<le> max_depth l" "pos < length buf" "buf ! pos = head_byte m ai"
    and "unat m < 8" "unat ai < 32"
  shows "decode_value l buf d pos =
    (if m = 0 then bindR (read_arg buf (Suc pos) ai) (\<lambda>(n, pos2). Inr (CUint n, pos2))
     else if m = 1 then
       bindR (read_arg buf (Suc pos) ai) (\<lambda>(n, pos2).
         if - 1 - uint n < - (2 ^ 63) then Inl ForbiddenCborConstruct
         else Inr (CNint (word_of_int (- 1 - uint n)), pos2))
     else if m = 2 then
       bindR (read_len buf (Suc pos) ai (max_field_size l)) (\<lambda>(len, pos2).
       bindR (read buf pos2 len) (\<lambda>(b, pos3). Inr (CBytes b, pos3)))
     else if m = 3 then
       bindR (read_len buf (Suc pos) ai (max_field_size l)) (\<lambda>(len, pos2).
       bindR (read buf pos2 len) (\<lambda>(b, pos3).
         if valid_utf8 b then Inr (CText (str_of_bytes b), pos3) else Inl Malformed))
     else if m = 4 then
       bindR (read_len buf (Suc pos) ai (max_array_items l)) (\<lambda>(len, pos2).
       bindR (decode_items l buf (Suc d) pos2 len) (\<lambda>(items, pos3). Inr (CArray items, pos3)))
     else if m = 5 then
       bindR (read_len buf (Suc pos) ai (max_map_entries l)) (\<lambda>(len, pos2).
       bindR (decode_pairs l buf (Suc d) pos2 None len) (\<lambda>(pairs, pos3). Inr (CMap pairs, pos3)))
     else if m = 6 then Inl ForbiddenCborConstruct
     else bindR (decode_simple ai) (\<lambda>v. Inr (v, Suc pos)))"
proof -
  have "read buf pos 1 = Inr ([head_byte m ai], Suc pos)"
    using assms(2,3) by (simp add: read_Inr_iff span_Cons)
  then show ?thesis
    unfolding decode_value.simps [of l buf d pos]
    using assms major_cases [OF assms(4)] by (auto simp: head_byte_major head_byte_ai Let_def)
qed

lemma check_key_order_Inr_iff [result_iff]:
  "check_key_order prev kb = Inr u \<longleftrightarrow> (\<forall>p. prev = Some p \<longrightarrow> p < kb)"
  by (auto simp: check_key_order_def split: option.splits)

lemma sint_of_nint_arg:
  assumes "- (2 ^ 63) \<le> - 1 - uint (n :: u64)"
  shows "sint (word_of_int (- 1 - uint n) :: i64) = - 1 - uint n"
proof -
  have "(- 1 - uint n + 2 ^ 63) mod 2 ^ 64 = - 1 - uint n + 2 ^ 63"
    using assms uint_ge_0 [of n] power_Suc [of "2 :: int" 63]
    by (intro mod_pos_pos_trivial) (auto intro: le_less_trans [of _ 0])
  then show ?thesis unfolding int_word_sint by simp
qed

lemma nint_enc:
  assumes "- (2 ^ 63) \<le> - 1 - uint (n :: u64)"
  shows "encode_value (CNint (word_of_int (- 1 - uint n))) = encode_head 1 n
    \<and> sint (word_of_int (- 1 - uint n) :: i64) < 0"
proof -
  have "\<not> 0 \<le> - 1 - uint n" using uint_ge_0 [of n] by linarith
  then show ?thesis
    unfolding encode_value.simps sint_of_nint_arg [OF assms] by (simp del: uint_ge_0)
qed

lemma nint_arg_of_sint:
  assumes "sint (w :: i64) < 0"
  shows "uint (word_of_int (- 1 - sint w) :: u64) = - 1 - sint w" "- (2 ^ 63) \<le> sint w"
proof -
  have "- (2 ^ 63) \<le> sint w" "sint w < 2 ^ 63"
    using sint_greater_eq [of w] sint_less [of w] by simp_all
  with assms show "uint (word_of_int (- 1 - sint w) :: u64) = - 1 - sint w" "- (2 ^ 63) \<le> sint w"
    unfolding uint_word_of_int by simp_all
qed

section \<open>The decoder is sound\<close>

text \<open>What the decoder returns is in canonical form, and the bytes it consumed are its
  canonical encoding.\<close>

lemma span_le: "span buf p bs q \<Longrightarrow> q \<le> length buf"
  by (simp add: span_def)

lemma head_span:
  "p < length buf \<Longrightarrow> buf ! p = head_byte m (head_ai n) \<Longrightarrow> span buf (Suc p) (head_tail n) q
   \<Longrightarrow> span buf p (encode_head m n) q"
  by (simp add: encode_head_eq span_Cons)

lemma decode_simple_sound:
  assumes "decode_simple ai = Inr v" "unat ai < 32"
  shows "encode_value v = [head_byte 7 ai] \<and> (d \<le> max_depth l \<longrightarrow> canon_form l d v)"
  using assms by (auto simp: decode_simple_def head_byte_def split: if_splits)

lemma decode_scalar_sound:
  assumes d: "d \<le> max_depth l" and pos: "pos < length buf"
    and b: "buf ! pos = head_byte m ai" "unat m < 8" "unat ai < 32"
    and dec: "decode_value l buf d pos = Inr (v, pos')" and m: "m \<noteq> 4" "m \<noteq> 5"
  shows "canon_form l d v \<and> span buf pos (encode_value v) pos'"
proof -
  note stp = decode_step [OF d pos b]
  note lenD = read_len_Inr_iff [OF b(3) Suc_leI [OF pos], THEN iffD1]
  note argD = read_arg_Inr_iff [OF b(3) Suc_leI [OF pos], THEN iffD1]
  consider "m = 0" | "m = 1" | "m = 2" | "m = 3" | "m = 7"
    using dec stp major_cases [OF b(2)] m by fastforce
  then show ?thesis
  proof cases
    case 1
    with dec stp obtain n where "read_arg buf (Suc pos) ai = Inr (n, pos')" "v = CUint n"
      by (auto simp: result_iff split: prod.splits)
    with argD d pos b(1) 1 show ?thesis by (auto intro: head_span)
  next
    case 2
    with dec stp obtain n where n: "read_arg buf (Suc pos) ai = Inr (n, pos')"
        "v = CNint (word_of_int (- 1 - uint n))" "- (2 ^ 63) \<le> - 1 - uint n"
      by (auto simp: result_iff split: prod.splits if_splits)
    with nint_enc [OF n(3)] argD [OF n(1)] d pos b(1) 2 show ?thesis
      by (auto simp del: encode_value.simps intro: head_span)
  next
    case 3
    with dec stp obtain len p2 bs where
      len: "read_len buf (Suc pos) ai (max_field_size l) = Inr (len, p2)" and
      bs: "read buf p2 len = Inr (bs, pos')" and v: "v = CBytes bs"
      by (auto simp: result_iff split: prod.splits)
    from lenD [OF len] bs v d pos b(1) 3 show ?thesis
      by (auto simp: span_append read_Inr_iff intro: head_span)
  next
    case 4
    with dec stp obtain len p2 bs where
      len: "read_len buf (Suc pos) ai (max_field_size l) = Inr (len, p2)" and
      bs: "read buf p2 len = Inr (bs, pos')" "valid_utf8 bs" and v: "v = CText (str_of_bytes bs)"
      by (auto simp: result_iff split: prod.splits if_splits)
    then have "length (str_of_bytes bs) = len" by (simp add: str_of_bytes_def read_Inr_iff)
    with lenD [OF len] bs v d pos b(1) 4 show ?thesis
      by (auto simp: span_append read_Inr_iff intro: head_span)
  next
    case 5
    with dec stp have "decode_simple ai = Inr v" "pos' = Suc pos" by (auto simp: result_iff)
    with decode_simple_sound [OF this(1) b(3)] d pos b(1) 5 show ?thesis by (simp add: span_Cons)
  qed
qed

lemma decode_array_sound:
  assumes d: "d \<le> max_depth l" and pos: "pos < length buf"
    and b: "buf ! pos = head_byte 4 ai" "unat ai < 32"
    and dec: "decode_value l buf d pos = Inr (v, pos')"
    and IH: "\<And>len p2 items q. read_len buf (Suc pos) ai (max_array_items l) = Inr (len, p2) \<Longrightarrow>
      p2 \<le> length buf \<Longrightarrow> decode_items l buf (Suc d) p2 len = Inr (items, q) \<Longrightarrow>
      length items = len \<and> (\<forall>x \<in> set items. canon_form l (Suc d) x)
        \<and> span buf p2 (concat (map encode_value items)) q"
  shows "canon_form l d v \<and> span buf pos (encode_value v) pos'"
proof -
  from dec decode_step [OF d pos b(1) _ b(2)] obtain len p2 items where
    len: "read_len buf (Suc pos) ai (max_array_items l) = Inr (len, p2)" and
    it: "decode_items l buf (Suc d) p2 len = Inr (items, pos')" and v: "v = CArray items"
    by (auto simp: result_iff split: prod.splits)
  note L = read_len_Inr_iff [OF b(2) Suc_leI [OF pos], THEN iffD1, OF len]
  with IH [OF len _ it] have "length items = len \<and> (\<forall>x \<in> set items. canon_form l (Suc d) x)
      \<and> span buf p2 (concat (map encode_value items)) pos'" by (auto dest: span_le)
  with L v d pos b show ?thesis by (auto simp: span_append intro: head_span)
qed

lemma decode_map_sound:
  assumes d: "d \<le> max_depth l" and pos: "pos < length buf"
    and b: "buf ! pos = head_byte 5 ai" "unat ai < 32"
    and dec: "decode_value l buf d pos = Inr (v, pos')"
    and IH: "\<And>len p2 ps q. read_len buf (Suc pos) ai (max_map_entries l) = Inr (len, p2) \<Longrightarrow>
      p2 \<le> length buf \<Longrightarrow> decode_pairs l buf (Suc d) p2 None len = Inr (ps, q) \<Longrightarrow>
      length ps = len \<and> (\<forall>(k, v) \<in> set ps. canon_form l (Suc d) k \<and> canon_form l (Suc d) v)
        \<and> sorted_wrt (<) (map (\<lambda>p. encode_canonical (fst p)) ps) \<and> span buf p2 (encode_pairs ps) q"
  shows "canon_form l d v \<and> span buf pos (encode_value v) pos'"
proof -
  from dec decode_step [OF d pos b(1) _ b(2)] obtain len p2 ps where
    len: "read_len buf (Suc pos) ai (max_map_entries l) = Inr (len, p2)" and
    ps: "decode_pairs l buf (Suc d) p2 None len = Inr (ps, pos')" and v: "v = CMap ps"
    by (auto simp: result_iff split: prod.splits)
  note L = read_len_Inr_iff [OF b(2) Suc_leI [OF pos], THEN iffD1, OF len]
  then have "p2 \<le> length buf" by (auto dest: span_le)
  note P = IH [OF len this ps]
  then have "encode_value v = encode_head 5 (word_of_nat (length ps)) @ encode_pairs ps"
    using v encode_value_CMap_sorted by blast
  with P L v d pos b show ?thesis
    by (auto simp: span_append simp del: encode_value.simps intro: head_span)
qed

lemma decode_sound:
  "decode_value l buf d pos = Inr (v, pos') \<Longrightarrow>
     canon_form l d v \<and> span buf pos (encode_value v) pos'"
  "pos \<le> length buf \<Longrightarrow> decode_items l buf d pos n = Inr (xs, pos') \<Longrightarrow>
     length xs = n \<and> (\<forall>x \<in> set xs. canon_form l d x) \<and> span buf pos (concat (map encode_value xs)) pos'"
  "pos \<le> length buf \<Longrightarrow> decode_pairs l buf d pos prev n = Inr (ps, pos') \<Longrightarrow>
     length ps = n \<and> (\<forall>(k, v) \<in> set ps. canon_form l d k \<and> canon_form l d v)
     \<and> (\<forall>p. prev = Some p \<longrightarrow> sorted_wrt (<) (p # map (\<lambda>p. encode_canonical (fst p)) ps))
     \<and> sorted_wrt (<) (map (\<lambda>p. encode_canonical (fst p)) ps)
     \<and> span buf pos (encode_pairs ps) pos'"
proof (induction l buf d pos and l buf d pos n and l buf d pos prev n
    arbitrary: v pos' and xs pos' and ps pos'
    rule: decode_value_decode_items_decode_pairs.induct)
  case (1 l buf d pos)
  have d: "d \<le> max_depth l" and pos: "pos < length buf"
    using "1.prems" by (auto simp: decode_value.simps [of l buf d pos] split: if_splits)
  define m where "m = drop_bit 5 (buf ! pos)"
  define ai where "ai = (buf ! pos) AND 0x1f"
  have b: "buf ! pos = head_byte m ai" "unat m < 8" "unat ai < 32"
    by (simp_all add: m_def ai_def head_byte_split unat_drop_5 unat_and_31)
  have rd: "read buf pos 1 = Inr ([head_byte m ai], Suc pos)"
    using pos b(1) by (simp add: read_Inr_iff span_Cons)
  have nd: "\<not> max_depth l < d" "\<not> length buf \<le> pos" using d pos by simp_all
  have mm: "drop_bit 5 (hd [head_byte m ai]) = m" "hd [head_byte m ai] AND 0x1f = ai"
    using b by (simp_all add: head_byte_major head_byte_ai)
  note arr = "1.IH"(1) [OF nd rd refl refl refl refl, unfolded mm, folded Suc_eq_plus1]
  note mp = "1.IH"(2) [OF nd rd refl refl refl refl, unfolded mm, folded Suc_eq_plus1]
  consider "m = 4" | "m = 5" | "m \<noteq> 4" "m \<noteq> 5" by blast
  then show ?case
  proof cases
    case 1
    show ?thesis
      using d pos b(1) [unfolded 1] b(3) "1.prems"
    proof (rule decode_array_sound)
      show "length items = len \<and> (\<forall>x \<in> set items. canon_form l (Suc d) x)
          \<and> span buf p2 (concat (map encode_value items)) q"
        if "read_len buf (Suc pos) ai (max_array_items l) = Inr (len, p2)" "p2 \<le> length buf"
          "decode_items l buf (Suc d) p2 len = Inr (items, q)" for len p2 items q
        using arr [OF _ _ _ _ _ that(1) refl that(2,3)] 1 by simp
    qed
  next
    case 2
    show ?thesis
      using d pos b(1) [unfolded 2] b(3) "1.prems"
    proof (rule decode_map_sound)
      show "length ps = len \<and> (\<forall>(k, v) \<in> set ps. canon_form l (Suc d) k \<and> canon_form l (Suc d) v)
          \<and> sorted_wrt (<) (map (\<lambda>p. encode_canonical (fst p)) ps) \<and> span buf p2 (encode_pairs ps) q"
        if "read_len buf (Suc pos) ai (max_map_entries l) = Inr (len, p2)" "p2 \<le> length buf"
          "decode_pairs l buf (Suc d) p2 None len = Inr (ps, q)" for len p2 ps q
        using mp [OF _ _ _ _ _ _ that(1) refl that(2,3)] 2 by auto
    qed
  next
    case 3
    with d pos b "1.prems" show ?thesis by (intro decode_scalar_sound)
  qed
next
  case (2 l buf d pos)
  then show ?case by simp
next
  case (3 l buf d pos n)
  from "3.prems" obtain x p1 xs' where x: "decode_value l buf d pos = Inr (x, p1)"
      and xs': "decode_items l buf d p1 n = Inr (xs', pos')" and xs: "xs = x # xs'"
    by (auto simp: result_iff split: prod.splits)
  have X: "canon_form l d x \<and> span buf pos (encode_value x) p1" using "3.IH"(1) x by blast
  then have "p1 \<le> length buf" by (auto dest: span_le)
  then have "length xs' = n \<and> (\<forall>x \<in> set xs'. canon_form l d x) \<and> span buf p1 (concat (map encode_value xs')) pos'"
    using "3.IH"(2) [OF x refl] xs' by blast
  with X xs show ?case by (auto simp: span_append)
next
  case (4 l buf d pos prev)
  then show ?case by simp
next
  case (5 l buf d pos prev n)
  from "5.prems" obtain k p1 val p2 ps' where k: "decode_value l buf d pos = Inr (k, p1)"
      and val: "decode_value l buf d p1 = Inr (val, p2)"
      and ord: "check_key_order prev (encode_canonical k) = Inr ()"
      and ps': "decode_pairs l buf d p2 (Some (encode_canonical k)) n = Inr (ps', pos')"
      and ps: "ps = (k, val) # ps'"
    by (auto simp: result_iff Let_def split: prod.splits)
  have K: "canon_form l d k \<and> span buf pos (encode_value k) p1" using "5.IH"(1) k by blast
  have V: "canon_form l d val \<and> span buf p1 (encode_value val) p2" using "5.IH"(2) [OF k refl] val by blast
  then have "p2 \<le> length buf" by (auto dest: span_le)
  from "5.IH"(3) [OF k refl val refl refl ord this ps'] K V ps ord
  show ?case by (auto simp: span_append result_iff)
qed

section \<open>The decoder is complete\<close>

lemma decode_items_complete:
  assumes "\<And>x pos pos'. x \<in> set xs \<Longrightarrow> span buf pos (encode_value x) pos' \<Longrightarrow>
      decode_value l buf d pos = Inr (x, pos')"
    and "span buf pos (concat (map encode_value xs)) pos'"
  shows "decode_items l buf d pos (length xs) = Inr (xs, pos')"
  using assms
proof (induction xs arbitrary: pos)
  case (Cons x xs)
  then obtain q where q: "span buf pos (encode_value x) q" "span buf q (concat (map encode_value xs)) pos'"
    by (auto simp: span_append)
  have "decode_value l buf d pos = Inr (x, q)" using Cons.prems(1) q(1) by simp
  moreover have "decode_items l buf d q (length xs) = Inr (xs, pos')"
    using Cons.prems(1) q(2) by (intro Cons.IH) auto
  ultimately show ?case by simp
qed simp

lemma decode_pairs_complete:
  assumes "\<And>k v pos pos'. (k, v) \<in> set ps \<Longrightarrow> span buf pos (encode_value k) pos' \<Longrightarrow>
      decode_value l buf d pos = Inr (k, pos')"
    and "\<And>k v pos pos'. (k, v) \<in> set ps \<Longrightarrow> span buf pos (encode_value v) pos' \<Longrightarrow>
      decode_value l buf d pos = Inr (v, pos')"
    and "sorted_wrt (<) (map (\<lambda>p. encode_canonical (fst p)) ps)"
    and "\<forall>p. prev = Some p \<longrightarrow> (\<forall>x \<in> set ps. p < encode_canonical (fst x))"
    and "span buf pos (encode_pairs ps) pos'"
  shows "decode_pairs l buf d pos prev (length ps) = Inr (ps, pos')"
  using assms
proof (induction ps arbitrary: pos prev)
  case (Cons kv ps)
  obtain k v where kv: "kv = (k, v)" by (cases kv)
  from Cons.prems(5) obtain q r where q: "span buf pos (encode_value k) q" "span buf q (encode_value v) r"
      "span buf r (encode_pairs ps) pos'"
    by (auto simp: span_append kv)
  have "decode_value l buf d pos = Inr (k, q)" using Cons.prems(1) [of k v] q(1) by (simp add: kv)
  moreover have "decode_value l buf d q = Inr (v, r)" using Cons.prems(2) [of k v] q(2) by (simp add: kv)
  moreover have "check_key_order prev (encode_canonical k) = Inr ()"
    using Cons.prems(4) by (simp add: result_iff kv)
  moreover have "decode_pairs l buf d r (Some (encode_canonical k)) (length ps) = Inr (ps, pos')"
  proof (rule Cons.IH)
    show "decode_value l buf d p = Inr (k', p')"
      if "(k', v') \<in> set ps" "span buf p (encode_value k') p'" for k' v' p p'
      using Cons.prems(1) [of k' v'] that by simp
    show "decode_value l buf d p = Inr (v', p')"
      if "(k', v') \<in> set ps" "span buf p (encode_value v') p'" for k' v' p p'
      using Cons.prems(2) [of k' v'] that by simp
  qed (use Cons.prems(3) q(3) kv in auto)
  ultimately show ?case by (simp add: kv)
qed simp

lemma decode_at_head:
  assumes d: "d \<le> max_depth l" and sp: "span buf pos (encode_head m n) q" and m: "unat m < 8"
  shows "decode_value l buf d pos =
    (if m = 0 then Inr (CUint n, q)
     else if m = 1 then
       (if - 1 - uint n < - (2 ^ 63) then Inl ForbiddenCborConstruct
        else Inr (CNint (word_of_int (- 1 - uint n)), q))
     else if m = 2 then
       (if unat n > max_field_size l then Inl LimitExceeded
        else bindR (read buf q (unat n)) (\<lambda>(b, pos3). Inr (CBytes b, pos3)))
     else if m = 3 then
       (if unat n > max_field_size l then Inl LimitExceeded
        else bindR (read buf q (unat n)) (\<lambda>(b, pos3).
         if valid_utf8 b then Inr (CText (str_of_bytes b), pos3) else Inl Malformed))
     else if m = 4 then
       (if unat n > max_array_items l then Inl LimitExceeded
        else bindR (decode_items l buf (Suc d) q (unat n)) (\<lambda>(items, pos3). Inr (CArray items, pos3)))
     else if m = 5 then
       (if unat n > max_map_entries l then Inl LimitExceeded
        else bindR (decode_pairs l buf (Suc d) q None (unat n)) (\<lambda>(pairs, pos3). Inr (CMap pairs, pos3)))
     else if m = 6 then Inl ForbiddenCborConstruct
     else bindR (decode_simple (head_ai n)) (\<lambda>v. Inr (v, Suc pos)))"
proof -
  from sp have pos: "pos < length buf" and b: "buf ! pos = head_byte m (head_ai n)"
    and tl: "span buf (Suc pos) (head_tail n) q"
    by (simp_all add: encode_head_eq span_Cons)
  have ra: "read_arg buf (Suc pos) (head_ai n) = Inr (n, q)"
    using tl pos unat_head_ai by (simp add: read_arg_Inr_iff)
  have rl: "read_len buf (Suc pos) (head_ai n) bound =
      (if unat n > bound then Inl LimitExceeded else Inr (unat n, q))" for bound
    by (simp add: read_len_def ra)
  show ?thesis
    unfolding decode_step [OF d pos b m unat_head_ai] ra rl by simp
qed

lemma decode_complete:
  "canon_form l d v \<Longrightarrow> span buf pos (encode_value v) pos' \<Longrightarrow> decode_value l buf d pos = Inr (v, pos')"
proof (induction l d v arbitrary: pos pos' rule: canon_form.induct)
  case (1 l d n)
  then show ?case by (simp add: decode_at_head)
next
  case (2 l d w)
  then have neg: "sint w < 0" and d: "d \<le> max_depth l" by auto
  let ?n = "word_of_int (- 1 - sint w) :: u64"
  have un: "uint ?n = - 1 - sint w" and low: "- (2 ^ 63) \<le> sint w"
    using nint_arg_of_sint [OF neg] by auto
  have "span buf pos (encode_head 1 ?n) pos'" using "2.prems"(2) neg by simp
  from decode_at_head [OF d this] low show ?case unfolding un by simp
next
  case (3 l d s)
  then obtain q where q: "span buf pos (encode_head 3 (word_of_nat (length s))) q"
      "span buf q (as_bytes s) pos'"
    by (auto simp: span_append)
  have "read buf q (length s) = Inr (as_bytes s, pos')" using q(2) by (simp add: read_Inr_iff)
  with decode_at_head [OF _ q(1)] "3.prems"(1) show ?case by (simp add: unat_of_nat)
next
  case (4 l d b)
  then obtain q where q: "span buf pos (encode_head 2 (word_of_nat (length b))) q"
      "span buf q b pos'"
    by (auto simp: span_append)
  have "read buf q (length b) = Inr (b, pos')" using q(2) by (simp add: read_Inr_iff)
  with decode_at_head [OF _ q(1)] "4.prems"(1) show ?case by (simp add: unat_of_nat)
next
  case (5 l d xs)
  then obtain q where q: "span buf pos (encode_head 4 (word_of_nat (length xs))) q"
      "span buf q (concat (map encode_value xs)) pos'"
    by (auto simp: span_append)
  have "decode_items l buf (Suc d) q (length xs) = Inr (xs, pos')"
    using "5.IH" "5.prems"(1) q(2) by (intro decode_items_complete) auto
  with decode_at_head [OF _ q(1)] "5.prems"(1) show ?case by (simp add: unat_of_nat)
next
  case (6 l d ps)
  then have "encode_value (CMap ps) = encode_head 5 (word_of_nat (length ps)) @ encode_pairs ps"
    by (intro encode_value_CMap_sorted) simp
  with "6.prems"(2) obtain q where q: "span buf pos (encode_head 5 (word_of_nat (length ps))) q"
      "span buf q (encode_pairs ps) pos'"
    by (auto simp: span_append simp del: encode_value.simps)
  have "decode_pairs l buf (Suc d) q None (length ps) = Inr (ps, pos')"
    using "6.IH" "6.prems"(1) q(2) by (intro decode_pairs_complete) (auto simp: case_prod_unfold)
  with decode_at_head [OF _ q(1)] "6.prems"(1) show ?case by (simp add: unat_of_nat)
next
  case (7 l d b)
  have "encode_value (CBool b) = [head_byte 7 (if b then 21 else 20)]"
    by (simp add: head_byte_def)
  with "7.prems" show ?case
    by (cases b) (simp_all add: span_Cons decode_step [where m = 7] decode_simple_def)
next
  case (8 l d)
  have "encode_value CNull = [head_byte 7 22]" by (simp add: head_byte_def)
  with "8.prems" show ?case by (simp add: span_Cons decode_step [where m = 7] decode_simple_def)
qed

lemma decode_value_Inr_iff:
  "decode_value l buf d pos = Inr (v, pos') \<longleftrightarrow> canon_form l d v \<and> span buf pos (encode_value v) pos'"
  using decode_sound(1) decode_complete by blast

lemma decode_strict_Inr_iff:
  "decode_strict bs l = Inr v \<longleftrightarrow>
     length bs \<le> max_proof_size l \<and> canon_form l 0 v \<and> encode_canonical v = bs"
  by (auto simp: decode_strict_def result_iff decode_value_Inr_iff encode_canonical_def span_def
      split: prod.splits if_splits)

section \<open>Sorting the maps of a value\<close>

lemma sort_key_idem: "sort_key f (sort_key f xs) = sort_key (f :: 'a \<Rightarrow> 'k :: linorder) xs"
  by (simp add: sort_key_id_if_sorted)

lemma encode_sort_maps [simp]: "encode_value (sort_maps v) = encode_value v"
proof (induction v rule: sort_maps.induct)
  case (1 items)
  then have "map (encode_value \<circ> sort_maps) items = map encode_value items" by simp
  then show ?case by (simp only: sort_maps.simps encode_value.simps length_map map_map)
next
  case (2 pairs)
  let ?qs = "map (\<lambda>(k, v). (sort_maps k, sort_maps v)) pairs"
  let ?e = "\<lambda>(k, v). (encode_value k, encode_value v)"
  have eq: "map ?e ?qs = map ?e pairs" using 2 by (auto simp: case_prod_unfold)
  have "(\<lambda>p. encode_canonical (fst p)) = fst \<circ> ?e"
    by (auto simp: encode_canonical_def fun_eq_iff)
  then have "map ?e (sort_key (\<lambda>p. encode_canonical (fst p)) ?qs) = sort_key fst (map ?e ?qs)"
    by (simp only: map_sort_key)
  then have "sort_key fst (map ?e (sort_key (\<lambda>p. encode_canonical (fst p)) ?qs))
      = sort_key fst (map ?e pairs)"
    by (simp only: eq sort_key_idem)
  then show ?case by (simp only: sort_maps.simps encode_value.simps length_sort length_map)
qed auto

lemma canon_form_sort_maps: "wf_value l d v \<Longrightarrow> canon_form l d (sort_maps v)"
proof (induction l d v rule: wf_value.induct)
  case (2 l d ps)
  let ?qs = "map (\<lambda>(k, v). (sort_maps k, sort_maps v)) ps"
  have "map (\<lambda>p. encode_canonical (fst p)) ?qs = map (\<lambda>p. encode_canonical (fst p)) ps"
    by (auto simp: encode_canonical_def)
  with "2.prems" have "distinct (map (\<lambda>p. encode_canonical (fst p)) ?qs)"
    by (simp only: wf_value.simps)
  then have "sorted_wrt (<) (map (\<lambda>p. encode_canonical (fst p))
      (sort_key (\<lambda>p. encode_canonical (fst p)) ?qs))"
    by (rule sort_key_strict)
  moreover have "\<forall>(k, v) \<in> set ?qs. canon_form l (Suc d) k \<and> canon_form l (Suc d) v"
    using "2.IH" "2.prems" by fastforce
  ultimately show ?case using "2.prems" by simp
qed auto

lemma sort_maps_canon: "canon_form l d v \<Longrightarrow> sort_maps v = v"
proof (induction l d v rule: canon_form.induct)
  case (5 l d xs)
  then show ?case by (simp add: map_idI)
next
  case (6 l d ps)
  then have "map (\<lambda>(k, v). (sort_maps k, sort_maps v)) ps = ps"
    by (intro map_idI) (auto simp: case_prod_unfold)
  with "6.prems" show ?case by (simp add: strict_sorted_key_map)
qed auto

section \<open>The codec contract\<close>

interpretation cbor: canonical_codec encode_canonical "\<lambda>bs. decode_strict bs l" "canon_form l 0"
    "\<lambda>bs. length bs \<le> max_proof_size l" for l
  by unfold_locales (rule decode_strict_Inr_iff)

lemma canon_form_encode_inj:
  assumes "canon_form l d v" "canon_form l d w" "encode_value v = encode_value w"
  shows "v = w"
proof -
  have "span (encode_value v) 0 (encode_value v) (length (encode_value v))" by (simp add: span_def)
  then have "decode_value l (encode_value v) d 0 = Inr (v, length (encode_value v))"
    "decode_value l (encode_value v) d 0 = Inr (w, length (encode_value v))"
    using assms decode_complete by metis+
  then show ?thesis by simp
qed

lemma decode_value_prefix:
  assumes "canon_form l d v"
  shows "decode_value l (encode_value v @ rest) d 0 = Inr (v, length (encode_value v))"
  using assms by (intro decode_complete) (simp_all add: span_def)

lemmas encode_eval = encode_canonical_def encode_head_def as_bytes_def byte_of_char_def in_range_def

section \<open>Properties\<close>

text \<open>
  C18. The strict decoder accepts a byte string exactly when it is within the size limit
  and is the canonical encoding of a value in canonical form, and it returns that value.
\<close>

theorem decode_accepts_exactly_canonical:
  "decode_strict bs l = Inr v \<longleftrightarrow>
     length bs \<le> max_proof_size l \<and> canon_form l 0 v \<and> encode_canonical v = bs"
  by (rule cbor.dec_iff)

text \<open>
  Decoding the canonical encoding of any well-formed value (keys of each map pairwise
  different, in any order) gives the value back with its maps sorted.
\<close>

theorem encode_decode_roundtrip:
  assumes "wf_value l 0 v" and "length (encode_canonical v) \<le> max_proof_size l"
  shows "decode_strict (encode_canonical v) l = Inr (sort_maps v)"
proof -
  have "encode_canonical (sort_maps v) = encode_canonical v" by (simp add: encode_canonical_def)
  with assms cbor.dec_enc [of l "sort_maps v"] show ?thesis
    by (simp add: canon_form_sort_maps)
qed

theorem encode_decode_roundtrip_witness:
  "decode_strict (encode_canonical (CMap [(CText ''z'', CUint 1), (CUint 10, CUint 3)]))
     default_limits = Inr (CMap [(CUint 10, CUint 3), (CText ''z'', CUint 1)])"
proof -
  let ?v = "CMap [(CText ''z'', CUint 1), (CUint 10, CUint 3)]"
  have z: "encode_canonical (CText ''z'') = [0x61, 0x7a]" and t: "encode_canonical (CUint 10) = [0x0a]"
    by (simp_all add: encode_eval)
  have "wf_value default_limits 0 ?v" using z t by (simp add: default_limits_def encode_eval)
  moreover have "length (encode_canonical ?v) \<le> max_proof_size default_limits"
    by (simp add: default_limits_def encode_eval)
  moreover have "sort_maps ?v = CMap [(CUint 10, CUint 3), (CText ''z'', CUint 1)]"
    using z t by simp
  ultimately show ?thesis using encode_decode_roundtrip [of default_limits ?v] by simp
qed

text \<open>
  Re-encoding what the decoder returned always reproduces the input: the check of
  \<^verbatim>\<open>decode_and_check_canonical\<close> never rejects and \<^verbatim>\<open>is_canonical\<close> never answers
  \<^verbatim>\<open>Ok(false)\<close>.
\<close>

theorem reencode_check_redundant:
  "decode_and_check_canonical bs l = decode_strict bs l \<and> is_canonical bs l \<noteq> Inr False"
  using cbor.reencode_check [of bs l NonCanonical] cbor.reencode_test [of bs l]
  by (simp add: decode_and_check_canonical_def is_canonical_def)

text \<open>
  Two well-formed values have the same canonical bytes exactly when they are the same
  value up to the order of map entries.
\<close>

theorem canonical_bytes_identify_value:
  assumes "wf_value l d v" and "wf_value l d w"
  shows "encode_canonical v = encode_canonical w \<longleftrightarrow> sort_maps v = sort_maps w"
proof
  assume "encode_canonical v = encode_canonical w"
  then show "sort_maps v = sort_maps w"
    using assms by (auto simp: encode_canonical_def intro: canon_form_encode_inj canon_form_sort_maps)
next
  assume "sort_maps v = sort_maps w"
  then show "encode_canonical v = encode_canonical w"
    by (metis encode_canonical_def encode_sort_maps)
qed

theorem canonical_bytes_identify_value_witness:
  "encode_canonical (CMap [(CUint 1, CNull), (CUint 2, CNull)])
   = encode_canonical (CMap [(CUint 2, CNull), (CUint 1, CNull)])"
proof -
  let ?v = "CMap [(CUint 1, CNull), (CUint 2, CNull)]"
  let ?w = "CMap [(CUint 2, CNull), (CUint 1, CNull)]"
  have "wf_value default_limits 0 ?v" "wf_value default_limits 0 ?w"
    by (simp_all add: default_limits_def encode_eval)
  moreover have "sort_maps ?v = sort_maps ?w" by (simp add: encode_eval)
  ultimately show ?thesis using canonical_bytes_identify_value by blast
qed

text \<open>
  Bytes after a complete item are rejected as malformed, whatever they are.
\<close>

theorem trailing_bytes_rejected:
  assumes "canon_form l 0 v" and "rest \<noteq> []"
    and "length (encode_canonical v @ rest) \<le> max_proof_size l"
  shows "decode_strict (encode_canonical v @ rest) l = Inl Malformed"
  using assms decode_value_prefix [OF assms(1)]
  by (simp add: decode_strict_def encode_canonical_def)

theorem trailing_bytes_rejected_witness:
  "decode_strict (encode_canonical (CUint 1) @ [2]) default_limits = Inl Malformed"
  using trailing_bytes_rejected [of default_limits "CUint 1" "[2]"]
  by (simp add: default_limits_def encode_canonical_def encode_head_def)

text \<open>
  Tags, floats, simple values other than \<^verbatim>\<open>false\<close>, \<^verbatim>\<open>true\<close> and \<^verbatim>\<open>null\<close>, and
  indefinite lengths are rejected as forbidden from their first byte alone.
\<close>

theorem forbidden_constructs_rejected:
  assumes "drop_bit 5 b = (6 :: u8) \<or> drop_bit 5 b = 7 \<and> take_bit 5 b \<notin> {20, 21, 22}
      \<or> take_bit 5 b \<in> {28, 29, 30, 31}"
    and "length (b # rest) \<le> max_proof_size l"
  shows "decode_strict (b # rest) l = Inl ForbiddenCborConstruct"
proof -
  have b: "(b # rest) ! 0 = head_byte (drop_bit 5 b) (b AND 0x1f)"
    by (simp add: head_byte_split)
  note step = decode_step [OF _ _ b unat_drop_5 unat_and_31, of 0 l]
  consider (res) "b AND 0x1f \<in> {28, 29, 30, 31}" | (six) "drop_bit 5 b = 6"
    | (sev) "drop_bit 5 b = 7" "b AND 0x1f \<notin> {20, 21, 22}"
    using assms(1) unfolding and_31 by blast
  then have "decode_value l (b # rest) 0 0 = Inl ForbiddenCborConstruct"
  proof cases
    case res
    then have "read_arg (b # rest) (Suc 0) (b AND 0x1f) = Inl ForbiddenCborConstruct"
      "decode_simple (b AND 0x1f) = Inl ForbiddenCborConstruct"
      by (elim insertE emptyE; simp add: read_arg_def decode_simple_def)+
    then show ?thesis unfolding step by (simp add: step read_len_def)
  next
    case six
    then show ?thesis by (simp add: step)
  next
    case sev
    then show ?thesis by (simp add: step decode_simple_def)
  qed
  with assms(2) show ?thesis by (simp add: decode_strict_def)
qed

theorem forbidden_constructs_rejected_witness:
  "decode_strict [0xf9, 0x3c, 0x00] default_limits = Inl ForbiddenCborConstruct"
proof -
  have "drop_bit 5 (0xf9 :: u8) = 7" "take_bit 5 (0xf9 :: u8) = 25" by simp_all
  then show ?thesis
    using forbidden_constructs_rejected [of "0xf9" "[0x3c, 0x00]" default_limits]
    by (simp add: default_limits_def)
qed

end
