(* ===== verification/Graph.thy ===== *)
theory Graph
  imports Core
begin

text \<open>
  The crate \<^verbatim>\<open>proof-graph\<close> (\<^verbatim>\<open>lib.rs\<close>): topology checks over relationship records whose
  ids were verified before. Hash sets and hash maps are modelled by duplicate-free lists
  and partial functions; the order in which a hash set is iterated is the parameter
  \<open>iter\<close>, any function that lists the same elements once each (\<open>hash_iter\<close>). A \<^verbatim>\<open>Vec\<close>
  used as a stack is a list whose head is the top.
\<close>

section \<open>Data\<close>

record edge_record =
  er_content :: relationship
  er_id :: string

record node_set =
  ns_ids :: "string list"

definition NodeSet_new :: "string list \<Rightarrow> node_set" where
  "NodeSet_new ids = \<lparr>ns_ids = remdups ids\<rparr>"

definition ns_contains :: "node_set \<Rightarrow> string \<Rightarrow> bool" where
  "ns_contains ns i \<longleftrightarrow> i \<in> set (ns_ids ns)"

definition ns_len :: "node_set \<Rightarrow> nat" where
  "ns_len ns = length (ns_ids ns)"

record validated_graph =
  vg_edge_ids :: "string list"
  vg_node_count :: nat
  vg_edge_count :: nat
  vg_longest_supersedes_chain :: nat

text \<open>An iteration order of a hash set.\<close>

definition hash_iter :: "('a list \<Rightarrow> 'a list) \<Rightarrow> bool" where
  "hash_iter iter \<longleftrightarrow> (\<forall>xs. set (iter xs) = set xs \<and> distinct (iter xs))"

section \<open>Cycle detection\<close>

text \<open>The adjacency map built by \<^verbatim>\<open>adj.entry(from).or_default().push(to)\<close> over the edges.\<close>

definition nexts :: "('a \<times> 'a) list \<Rightarrow> 'a \<Rightarrow> 'a list" where
  "nexts es n = map snd (filter (\<lambda>e. fst e = n) es)"

definition endpoints_of :: "('a \<times> 'a) list \<Rightarrow> 'a list" where
  "endpoints_of es = remdups (concat (map (\<lambda>(a, b). [a, b]) es))"

datatype color = WHITE | GRAY | BLACK

text \<open>The inner \<^verbatim>\<open>for m in nexts\<close>: push every white successor, stop at a gray one.\<close>

fun push_nexts :: "('a \<Rightarrow> color) \<Rightarrow> 'a list \<Rightarrow> ('a \<times> bool) list \<Rightarrow> ('a \<times> bool) list result" where
  "push_nexts color [] stack = Inr stack"
| "push_nexts color (m # ms) stack =
     (case color m of
        BLACK \<Rightarrow> push_nexts color ms stack
      | GRAY \<Rightarrow> Inl CycleDetected
      | WHITE \<Rightarrow> push_nexts color ms ((m, False) # stack))"

definition white_count :: "('a \<times> 'a) list \<Rightarrow> ('a \<Rightarrow> color) \<Rightarrow> nat" where
  "white_count es color = card {n \<in> set (endpoints_of es). color n = WHITE}"

definition stack_weight :: "('a \<times> bool) list \<Rightarrow> nat" where
  "stack_weight stack = (\<Sum>(n, processed) \<leftarrow> stack. if processed then 1 else 2)"

lemma nexts_Nil: "n \<notin> set (endpoints_of es) \<Longrightarrow> nexts es n = []"
  by (force simp: nexts_def endpoints_of_def filter_empty_conv)

lemma white_count_le: "white_count es (color(n := c)) \<le> white_count es color" if "c \<noteq> WHITE"
  unfolding white_count_def using that by (intro card_mono) auto

lemma white_count_less:
  "n \<in> set (endpoints_of es) \<Longrightarrow> color n = WHITE \<Longrightarrow> c \<noteq> WHITE \<Longrightarrow>
   white_count es (color(n := c)) < white_count es color"
  unfolding white_count_def by (intro psubset_card_mono) auto

function dfs_loop :: "('a \<times> 'a) list \<Rightarrow> ('a \<Rightarrow> color) \<Rightarrow> ('a \<times> bool) list \<Rightarrow> ('a \<Rightarrow> color) result" where
  "dfs_loop es color [] = Inr color"
| "dfs_loop es color ((n, processed) # stack) =
     (if processed then dfs_loop es (color(n := BLACK)) stack
      else if color n = BLACK then dfs_loop es color stack
      else if color n = GRAY then Inl CycleDetected
      else bindR (push_nexts (color(n := GRAY)) (nexts es n) ((n, True) # stack))
             (\<lambda>stack'. dfs_loop es (color(n := GRAY)) stack'))"
  by pat_completeness auto
termination
proof (relation "measures [\<lambda>(es, color, stack). white_count es color, \<lambda>(es, color, stack). stack_weight stack]")
  fix es :: "('a \<times> 'a) list" and color n processed stack
  assume "processed"
  then show "((es, color(n := BLACK), stack), es, color, (n, processed) # stack) \<in>
      measures [\<lambda>(es, color, stack). white_count es color, \<lambda>(es, color, stack). stack_weight stack]"
    using white_count_le [of BLACK es color n] by (auto simp: stack_weight_def)
next
  fix es :: "('a \<times> 'a) list" and color n processed stack st'
  assume *: "\<not> processed" "color n \<noteq> BLACK" "color n \<noteq> GRAY"
    "push_nexts (color(n := GRAY)) (nexts es n) ((n, True) # stack) = Inr st'"
  then have w: "color n = WHITE" by (cases "color n") auto
  show "((es, color(n := GRAY), st'), es, color, (n, processed) # stack) \<in>
      measures [\<lambda>(es, color, stack). white_count es color, \<lambda>(es, color, stack). stack_weight stack]"
  proof (cases "n \<in> set (endpoints_of es)")
    case True
    then show ?thesis using white_count_less [of n es color GRAY] True w by simp
  next
    case False
    then have "st' = (n, True) # stack" using *(4) by (simp add: nexts_Nil)
    then show ?thesis
      using * white_count_le [of GRAY es color n] by (auto simp: stack_weight_def)
  qed
qed (auto simp: stack_weight_def)

fun dfs_starts :: "('a \<times> 'a) list \<Rightarrow> ('a \<Rightarrow> color) \<Rightarrow> 'a list \<Rightarrow> unit result" where
  "dfs_starts es color [] = Inr ()"
| "dfs_starts es color (start # rest) =
     (if color start \<noteq> WHITE then dfs_starts es color rest
      else bindR (dfs_loop es color [(start, False)]) (\<lambda>color'. dfs_starts es color' rest))"

text \<open>The edges each check keeps, as (from, to) pairs between members.\<close>

definition provenance_edges :: "edge_record list \<Rightarrow> node_set \<Rightarrow> (string \<times> string) list" where
  "provenance_edges edges nodes =
     map (\<lambda>e. (rel_from (er_content e), rel_to (er_content e)))
       (filter (\<lambda>e. rel_ty (er_content e) \<noteq> EQUIVALENT
          \<and> ns_contains nodes (rel_from (er_content e)) \<and> ns_contains nodes (rel_to (er_content e))) edges)"

definition derivation_edges :: "edge_record list \<Rightarrow> node_set \<Rightarrow> (string \<times> string) list" where
  "derivation_edges edges nodes =
     map (\<lambda>e. (rel_from (er_content e), rel_to (er_content e)))
       (filter (\<lambda>e. rel_ty (er_content e) \<noteq> REFERENCES \<and> rel_ty (er_content e) \<noteq> EQUIVALENT
          \<and> ns_contains nodes (rel_from (er_content e)) \<and> ns_contains nodes (rel_to (er_content e))) edges)"

definition check_acyclic_provenance ::
  "(string list \<Rightarrow> string list) \<Rightarrow> edge_record list \<Rightarrow> node_set \<Rightarrow> unit result" where
  "check_acyclic_provenance iter edges nodes =
     (let es = provenance_edges edges nodes in dfs_starts es (\<lambda>_. WHITE) (iter (endpoints_of es)))"

definition check_derivation_acyclic ::
  "(string list \<Rightarrow> string list) \<Rightarrow> edge_record list \<Rightarrow> node_set \<Rightarrow> unit result" where
  "check_derivation_acyclic iter edges nodes =
     (let es = derivation_edges edges nodes in dfs_starts es (\<lambda>_. WHITE) (iter (endpoints_of es)))"

subsection \<open>Correctness of the colouring search\<close>

lemma push_nexts_eq:
  "push_nexts color ms stack =
     (if \<exists>m\<in>set ms. color m = GRAY then Inl CycleDetected
      else Inr (rev (map (\<lambda>m. (m, False)) (filter (\<lambda>m. color m = WHITE) ms)) @ stack))"
  by (induction color ms stack rule: push_nexts.induct) (auto split: color.splits)

lemma set_nexts [simp]: "m \<in> set (nexts es n) \<longleftrightarrow> (n, m) \<in> set es"
  by (force simp: nexts_def)

text \<open>
  What the stack says of the nodes on it. \<open>seen\<close> holds the nodes above the current entry:
  an entry that waits to be finished reaches all of them, and every successor of it is
  finished or among them.
\<close>

fun stack_ok :: "('a \<times> 'a) set \<Rightarrow> ('a \<Rightarrow> color) \<Rightarrow> 'a set \<Rightarrow> ('a \<times> bool) list \<Rightarrow> bool" where
  "stack_ok R color seen [] = True"
| "stack_ok R color seen ((n, processed) # st) =
     ((processed \<longrightarrow> (\<forall>m. (n, m) \<in> R \<longrightarrow> color m = BLACK \<or> m \<in> seen) \<and> (\<forall>x\<in>seen. (n, x) \<in> R\<^sup>+))
      \<and> stack_ok R color (insert n seen) st)"

definition dfs_inv :: "('a \<times> 'a) set \<Rightarrow> ('a \<Rightarrow> color) \<Rightarrow> ('a \<times> bool) list \<Rightarrow> bool" where
  "dfs_inv R color st \<longleftrightarrow>
     (\<forall>n. color n = GRAY \<longleftrightarrow> (n, True) \<in> set st) \<and> distinct (map fst (filter snd st))
     \<and> (\<forall>n m. color n = BLACK \<longrightarrow> (n, m) \<in> R \<longrightarrow> color m = BLACK)
     \<and> (\<forall>n. color n = BLACK \<longrightarrow> (n, n) \<notin> R\<^sup>+) \<and> stack_ok R color {} st"

lemma stack_ok_pop:
  "stack_ok R color seen st \<Longrightarrow> (\<forall>m. color m = BLACK \<longrightarrow> color' m = BLACK) \<Longrightarrow>
   (\<forall>m\<in>seen - seen'. color' m = BLACK) \<Longrightarrow> seen' \<subseteq> seen \<Longrightarrow> stack_ok R color' seen' st"
proof (induction R color seen st arbitrary: seen' rule: stack_ok.induct)
  case (2 R color seen n processed st)
  have "stack_ok R color' (insert n seen') st"
    using "2.prems" by (intro "2.IH") auto
  then show ?case using "2.prems" by auto
qed simp

lemma stack_ok_push:
  "stack_ok R color seen st \<Longrightarrow> n \<in> seen \<Longrightarrow> (\<forall>x\<in>S. (n, x) \<in> R\<^sup>+) \<Longrightarrow> stack_ok R color (seen \<union> S) st"
proof (induction R color seen st rule: stack_ok.induct)
  case (2 R color seen k processed st)
  then have "stack_ok R color (insert k seen \<union> S) st" by auto
  then show ?case using "2.prems" by (auto intro: trancl_trans)
qed simp

lemma stack_ok_append:
  "stack_ok R color seen (map (\<lambda>m. (m, False)) ms @ st) = stack_ok R color (set ms \<union> seen) st"
  by (induction ms arbitrary: seen) (auto simp: insert_commute Un_commute)

lemma stack_ok_reach:
  "stack_ok R color seen st \<Longrightarrow> (k, True) \<in> set st \<Longrightarrow> n \<in> seen \<Longrightarrow> (k, n) \<in> R\<^sup>+"
  by (induction R color seen st rule: stack_ok.induct) auto

lemma black_trancl:
  "(n, m) \<in> R\<^sup>+ \<Longrightarrow> \<forall>n m. color n = BLACK \<longrightarrow> (n, m) \<in> R \<longrightarrow> color m = BLACK \<Longrightarrow> color n = BLACK \<Longrightarrow> color m = BLACK"
  by (induction rule: trancl_induct) auto

lemma not_on_cycle:
  assumes "\<forall>n m. color n = BLACK \<longrightarrow> (n, m) \<in> R \<longrightarrow> color m = BLACK"
    and "\<And>m. (n, m) \<in> R \<Longrightarrow> color m = BLACK" and "color n \<noteq> BLACK"
  shows "(n, n) \<notin> R\<^sup>+"
proof
  assume "(n, n) \<in> R\<^sup>+"
  then obtain m where "(n, m) \<in> R" "(m, n) \<in> R\<^sup>*" by (meson tranclD)
  then show False using assms black_trancl [of m n R color] by (auto simp: rtrancl_eq_or_trancl)
qed

lemma dfs_inv_finish:
  assumes "dfs_inv R color ((n, True) # st)"
  shows "dfs_inv R (color(n := BLACK)) st"
proof -
  have gray: "color n = GRAY" and notin: "n \<notin> set (map fst (filter snd st))"
    and succ: "\<And>m. (n, m) \<in> R \<Longrightarrow> color m = BLACK"
    and closed: "\<forall>n m. color n = BLACK \<longrightarrow> (n, m) \<in> R \<longrightarrow> color m = BLACK"
    using assms by (simp_all add: dfs_inv_def)
  have "(n, n) \<notin> R\<^sup>+"
    using not_on_cycle [OF closed succ] gray by simp
  moreover have "stack_ok R (color(n := BLACK)) {} st"
    by (rule stack_ok_pop [of R color "{n}"]) (use assms in \<open>simp_all add: dfs_inv_def\<close>)
  moreover have "(n, True) \<notin> set st" using notin by force
  then have "(color(n := BLACK)) k = GRAY \<longleftrightarrow> (k, True) \<in> set st" for k
    using assms by (cases "k = n") (simp_all add: dfs_inv_def)
  ultimately show ?thesis
    using assms succ unfolding dfs_inv_def by simp
qed

lemma dfs_inv_skip:
  "dfs_inv R color ((n, False) # st) \<Longrightarrow> color n = BLACK \<Longrightarrow> dfs_inv R color st"
  by (auto simp: dfs_inv_def elim: stack_ok_pop)

lemma dfs_inv_gray:
  "dfs_inv R color ((n, False) # st) \<Longrightarrow> color n = GRAY \<Longrightarrow> \<not> acyclic R"
  unfolding dfs_inv_def acyclic_def using stack_ok_reach [of R color "{n}" st n n] by auto

lemma dfs_inv_gray_next:
  "dfs_inv R color ((n, False) # st) \<Longrightarrow> (n, m) \<in> R \<Longrightarrow> (color(n := GRAY)) m = GRAY \<Longrightarrow> \<not> acyclic R"
  unfolding dfs_inv_def acyclic_def using stack_ok_reach [of R color "{n}" st m n]
  by (auto split: if_splits intro: trancl_into_trancl)

lemma dfs_inv_visit:
  assumes inv: "dfs_inv R color ((n, False) # st)" and white: "color n = WHITE"
    and ms: "\<And>m. m \<in> set ms \<longleftrightarrow> (n, m) \<in> R \<and> (color(n := GRAY)) m = WHITE"
    and nogray: "\<And>m. (n, m) \<in> R \<Longrightarrow> (color(n := GRAY)) m \<noteq> GRAY"
  shows "dfs_inv R (color(n := GRAY)) (map (\<lambda>m. (m, False)) ms @ (n, True) # st)"
proof -
  let ?c = "color(n := GRAY)"
  have "stack_ok R color {n} st" using inv by (simp add: dfs_inv_def)
  then have "stack_ok R color ({n} \<union> set ms) st"
    by (rule stack_ok_push) (auto simp: ms)
  then have "stack_ok R ?c (insert n (set ms)) st"
    by (rule stack_ok_pop) (use white in auto)
  moreover have "?c m = BLACK \<or> m \<in> set ms" if "(n, m) \<in> R" for m
    using nogray [OF that] that ms by (cases "?c m") auto
  ultimately have "stack_ok R ?c {} (map (\<lambda>m. (m, False)) ms @ (n, True) # st)"
    unfolding stack_ok_append by (auto simp: ms)
  moreover have "(n, True) \<notin> set st" using inv white by (force simp: dfs_inv_def)
  moreover have "filter snd (map (\<lambda>m. (m, False)) ms) = []" by (simp add: filter_empty_conv)
  ultimately show ?thesis
    using inv white unfolding dfs_inv_def by (force simp: image_iff)
qed

lemma visit_step:
  assumes inv: "dfs_inv (set es) color ((n, False) # st)" and white: "color n = WHITE"
  shows "push_nexts (color(n := GRAY)) (nexts es n) ((n, True) # st) = Inl e \<Longrightarrow>
           e = CycleDetected \<and> \<not> acyclic (set es)"
    and "push_nexts (color(n := GRAY)) (nexts es n) ((n, True) # st) = Inr st' \<Longrightarrow>
           dfs_inv (set es) (color(n := GRAY)) st' \<and> (n, True) \<in> set st' \<and> set st \<subseteq> set st'"
proof -
  let ?c = "color(n := GRAY)"
  let ?ms = "rev (filter (\<lambda>m. ?c m = WHITE) (nexts es n))"
  show "push_nexts ?c (nexts es n) ((n, True) # st) = Inl e \<Longrightarrow> e = CycleDetected \<and> \<not> acyclic (set es)"
    using dfs_inv_gray_next [OF inv] by (auto simp: push_nexts_eq simp del: fun_upd_apply split: if_splits)
  assume "push_nexts ?c (nexts es n) ((n, True) # st) = Inr st'"
  then have "st' = map (\<lambda>m. (m, False)) ?ms @ (n, True) # st" "\<forall>m\<in>set (nexts es n). ?c m \<noteq> GRAY"
    by (auto simp: push_nexts_eq rev_map simp del: fun_upd_apply split: if_splits)
  moreover from this have "dfs_inv (set es) ?c (map (\<lambda>m. (m, False)) ?ms @ (n, True) # st)"
    by (intro dfs_inv_visit [OF inv white]) auto
  ultimately show "dfs_inv (set es) ?c st' \<and> (n, True) \<in> set st' \<and> set st \<subseteq> set st'" by auto
qed

lemma dfs_loop_correct:
  "dfs_inv (set es) color st \<Longrightarrow>
   (case dfs_loop es color st of
      Inl e \<Rightarrow> e = CycleDetected \<and> \<not> acyclic (set es)
    | Inr color' \<Rightarrow> dfs_inv (set es) color' [] \<and> (\<forall>n. color n = BLACK \<longrightarrow> color' n = BLACK)
        \<and> (\<forall>n\<in>fst ` set st. color' n = BLACK))"
proof (induction es color st rule: dfs_loop.induct)
  case (1 es color)
  then show ?case by simp
next
  case (2 es color n processed st)
  consider "processed" | "\<not> processed" "color n = BLACK" | "\<not> processed" "color n = GRAY"
    | (w) "\<not> processed" "color n = WHITE" by (cases "color n") auto
  then show ?case
  proof cases
    case 1
    then have "dfs_inv (set es) (color(n := BLACK)) st" using "2.prems" dfs_inv_finish by simp
    with 1 "2.IH"(1) show ?thesis by (fastforce split: sum.splits)
  next
    case 2
    with "2.IH"(2) "2.prems" show ?thesis by (auto simp: dfs_inv_skip split: sum.splits)
  next
    case 3
    with "2.prems" show ?thesis by (auto simp: dfs_inv_gray)
  next
    case w
    define c where "c = color(n := GRAY)"
    show ?thesis
    proof (cases "push_nexts c (nexts es n) ((n, True) # st)")
      case (Inl e)
      with w "2.prems" show ?thesis
        using visit_step(1) [of es color n st e] by (simp add: c_def)
    next
      case (Inr st')
      have step: "dfs_inv (set es) c st'" "(n, True) \<in> set st'" "set st \<subseteq> set st'"
        using visit_step(2) [of es color n st st'] w "2.prems" Inr by (simp_all add: c_def)
      have IH: "case dfs_loop es c st' of
         Inl e \<Rightarrow> e = CycleDetected \<and> \<not> acyclic (set es)
       | Inr color' \<Rightarrow> dfs_inv (set es) color' [] \<and> (\<forall>n. c n = BLACK \<longrightarrow> color' n = BLACK)
           \<and> (\<forall>n\<in>fst ` set st'. color' n = BLACK)"
        using "2.IH"(3) [of st', folded c_def] w step(1) Inr by simp
      have run: "dfs_loop es color ((n, processed) # st) = dfs_loop es c st'"
        using w Inr by (simp add: c_def)
      have "c k = BLACK" if "color k = BLACK" for k using that w by (auto simp: c_def)
      then show ?thesis unfolding run using IH step(2,3) by (force split: sum.splits)
    qed
  qed
qed

lemma dfs_starts_correct:
  "dfs_inv (set es) color [] \<Longrightarrow>
   (case dfs_starts es color order of
      Inl e \<Rightarrow> e = CycleDetected \<and> \<not> acyclic (set es)
    | Inr _ \<Rightarrow> \<forall>n\<in>set order \<union> {n. color n = BLACK}. (n, n) \<notin> (set es)\<^sup>+)"
proof (induction es color order rule: dfs_starts.induct)
  case (2 es color start rest)
  show ?case
  proof (cases "color start = WHITE")
    case True
    then have "dfs_inv (set es) color [(start, False)]"
      using "2.prems" by (auto simp: dfs_inv_def)
    from dfs_loop_correct [OF this] show ?thesis
      using True "2.IH"(2) by (auto split: sum.splits)
  next
    case False
    with "2.prems" have "color start = BLACK" by (cases "color start") (auto simp: dfs_inv_def)
    with False "2.IH"(1) "2.prems" show ?thesis by (auto split: sum.splits)
  qed
qed (simp add: dfs_inv_def)

lemma set_endpoints_of: "set (endpoints_of es) = Field (set es)"
  by (force simp: endpoints_of_def Field_def)

lemma dfs_starts_decides:
  assumes "set order = Field (set es)"
  shows "dfs_starts es (\<lambda>_. WHITE) order = (if acyclic (set es) then Inr () else Inl CycleDetected)"
proof -
  have inv: "dfs_inv (set es) (\<lambda>_. WHITE) []" by (simp add: dfs_inv_def)
  have "n \<in> Field (set es)" if "(n, n) \<in> (set es)\<^sup>+" for n
    using that by (metis FieldI2 tranclD2)
  then have "acyclic (set es) \<longleftrightarrow> (\<forall>n\<in>set order. (n, n) \<notin> (set es)\<^sup>+)"
    using assms by (auto simp: acyclic_def)
  then show ?thesis using dfs_starts_correct [OF inv, of order] by (auto split: sum.splits)
qed

section \<open>The SUPERSEDES subgraph\<close>

text \<open>
  Kahn's algorithm with the maps of the source. \<open>Some\<close> is a run that returns, \<open>None\<close> the
  panic of \<^verbatim>\<open>*e -= 1\<close> at zero.
\<close>

record 'a kahn =
  k_dist :: "'a \<rightharpoonup> nat"
  k_indeg :: "'a \<rightharpoonup> nat"
  k_stack :: "'a list"
  k_seen :: nat
  k_longest :: nat

definition unwrap_or0 :: "nat option \<Rightarrow> nat" where
  "unwrap_or0 x = (case x of None \<Rightarrow> 0 | Some k \<Rightarrow> k)"

definition bump :: "'a \<Rightarrow> ('a \<rightharpoonup> nat) \<Rightarrow> 'a \<rightharpoonup> nat" where
  "bump a deg = deg(a \<mapsto> unwrap_or0 (deg a) + 1)"

fun relax_nexts :: "nat \<Rightarrow> 'a list \<Rightarrow> 'a kahn \<Rightarrow> 'a kahn result option" where
  "relax_nexts d [] k = Some (Inr k)"
| "relax_nexts d (m # ms) k =
     (case k_dist k m of
        None \<Rightarrow> Some (Inl Malformed)
      | Some dm \<Rightarrow>
          (let k1 = (if dm < d + 1
                     then k\<lparr>k_dist := (k_dist k)(m \<mapsto> d + 1), k_longest := max (k_longest k) (d + 1)\<rparr>
                     else k)
           in case k_indeg k1 m of
                None \<Rightarrow> Some (Inl Malformed)
              | Some 0 \<Rightarrow> None
              | Some (Suc e) \<Rightarrow>
                  (let k2 = k1\<lparr>k_indeg := (k_indeg k1)(m \<mapsto> e)\<rparr>
                   in relax_nexts d ms (if e = 0 then k2\<lparr>k_stack := m # k_stack k2\<rparr> else k2))))"

definition kahn_measure :: "'a set \<Rightarrow> 'a kahn \<Rightarrow> nat" where
  "kahn_measure N k = (\<Sum>m\<in>N. unwrap_or0 (k_indeg k m)) + length (k_stack k)"

lemma relax_nexts_measure:
  "relax_nexts d ms k = Some (Inr k') \<Longrightarrow> finite N \<Longrightarrow> set ms \<subseteq> N \<Longrightarrow> kahn_measure N k' \<le> kahn_measure N k"
proof (induction d ms k rule: relax_nexts.induct)
  case (2 d m ms k)
  obtain dm e where dm: "k_dist k m = Some dm" and e: "k_indeg k m = Some (Suc e)"
    using "2.prems"(1) by (auto simp: Let_def split: option.splits nat.splits if_splits)
  have eq: "(\<Sum>x\<in>N. unwrap_or0 (k_indeg k x)) = Suc ((\<Sum>x\<in>N. unwrap_or0 (((k_indeg k)(m \<mapsto> e)) x)))"
  proof -
    have "m \<in> N" using "2.prems" by simp
    moreover have "(\<Sum>x\<in>N - {m}. unwrap_or0 (k_indeg k x)) = (\<Sum>x\<in>N - {m}. unwrap_or0 (((k_indeg k)(m \<mapsto> e)) x))"
      by (intro sum.cong) auto
    ultimately show ?thesis using "2.prems"(2) e by (simp add: sum.remove [of N m] unwrap_or0_def)
  qed
  show ?case
    using "2.prems" "2.IH" [OF dm refl, of "Suc e" e] dm e eq
    by (auto simp: Let_def kahn_measure_def unwrap_or0_def simp del: fun_upd_apply split: if_splits)
qed simp

function kahn_loop :: "('a \<times> 'a) list \<Rightarrow> 'a kahn \<Rightarrow> 'a kahn result option" where
  "kahn_loop es k =
     (case k_stack k of
        [] \<Rightarrow> Some (Inr k)
      | n # stack \<Rightarrow>
          (case k_dist k n of
             None \<Rightarrow> Some (Inl Malformed)
           | Some d \<Rightarrow>
               (case relax_nexts d (nexts es n) (k\<lparr>k_stack := stack, k_seen := k_seen k + 1\<rparr>) of
                  None \<Rightarrow> None
                | Some (Inl e) \<Rightarrow> Some (Inl e)
                | Some (Inr k') \<Rightarrow> kahn_loop es k')))"
  by pat_completeness auto
termination
proof (relation "measure (\<lambda>(es, k). kahn_measure (Range (set es)) k)")
  fix es :: "('a \<times> 'a) list" and k n stack d r k'
  assume "k_stack k = n # stack"
    "relax_nexts d (nexts es n) (k\<lparr>k_stack := stack, k_seen := k_seen k + 1\<rparr>) = Some r" "r = Inr k'"
  then show "((es, k'), es, k) \<in> measure (\<lambda>(es, k). kahn_measure (Range (set es)) k)"
    using relax_nexts_measure [of d "nexts es n" _ k' "Range (set es)"]
    by (force simp: kahn_measure_def finite_Range)
qed simp

declare kahn_loop.simps [simp del]

definition supersedes_pairs :: "edge_record list \<Rightarrow> (string \<times> string) list" where
  "supersedes_pairs edges =
     map (\<lambda>e. (rel_from (er_content e), rel_to (er_content e)))
       (filter (\<lambda>e. rel_ty (er_content e) = SUPERSEDES) edges)"

definition check_chains ::
  "('a list \<Rightarrow> 'a list) \<Rightarrow> ('a \<times> 'a) list \<Rightarrow> nat \<Rightarrow> nat result option" where
  "check_chains iter pairs depth =
     (if pairs = [] then Some (Inr 0)
      else
        let out_deg = fold bump (map fst pairs) Map.empty;
            in_deg = fold bump (map snd pairs) Map.empty;
            nodes = endpoints_of pairs
        in if \<exists>n\<in>set (iter nodes). unwrap_or0 (out_deg n) > 1 \<or> unwrap_or0 (in_deg n) > 1
           then Some (Inl SchemaViolation)
           else
             case kahn_loop pairs
               \<lparr>k_dist = (\<lambda>n. if n \<in> set nodes then Some 1 else None), k_indeg = in_deg,
                k_stack = rev (filter (\<lambda>n. unwrap_or0 (in_deg n) = 0) (iter nodes)),
                k_seen = 0, k_longest = 1\<rparr> of
               None \<Rightarrow> None
             | Some (Inl e) \<Rightarrow> Some (Inl e)
             | Some (Inr k) \<Rightarrow>
                 if k_seen k \<noteq> length nodes then Some (Inl CycleDetected)
                 else if k_longest k > depth then Some (Inl LimitExceeded)
                 else Some (Inr (k_longest k)))"

definition check_supersedes ::
  "(string list \<Rightarrow> string list) \<Rightarrow> edge_record list \<Rightarrow> limits \<Rightarrow> nat result option" where
  "check_supersedes iter edges l = check_chains iter (supersedes_pairs edges) (max_depth l)"


subsection \<open>What the chain check decides\<close>

lemma bump_count: "unwrap_or0 (fold bump xs deg n) = unwrap_or0 (deg n) + count_list xs n"
  by (induction xs arbitrary: deg) (auto simp: bump_def unwrap_or0_def)

lemma bump_dom: "fold bump xs Map.empty n = None \<longleftrightarrow> n \<notin> set xs"
proof -
  have "fold bump xs deg n = None \<longleftrightarrow> deg n = None \<and> n \<notin> set xs" for deg
    by (induction xs arbitrary: deg) (auto simp: bump_def)
  then show ?thesis by simp
qed

lemma in_deg_eq:
  "fold bump xs Map.empty n = (if n \<in> set xs then Some (count_list xs n) else None)"
  using bump_count [of xs Map.empty n] bump_dom [of xs n]
  by (cases "fold bump xs Map.empty n") (auto simp: unwrap_or0_def)

lemma count_le1_distinct: "(\<forall>x\<in>set xs. count_list xs x \<le> 1) \<longleftrightarrow> distinct xs"
proof (induction xs)
  case (Cons x xs)
  have "count_list xs x = 0 \<longleftrightarrow> x \<notin> set xs" by (simp add: count_list_0_iff)
  with Cons show ?case by (auto simp: le_Suc_eq)
qed simp

text \<open>
  The linear shape: no node supersedes two others and no node is superseded twice. \<open>chain R n d\<close>:
  a walk of \<open>d\<close> nodes from a node without predecessor to \<open>n\<close>.
\<close>

definition linear :: "('a \<times> 'a) list \<Rightarrow> bool" where
  "linear es \<longleftrightarrow> distinct (map fst es) \<and> distinct (map snd es)"

inductive chain :: "('a \<times> 'a) set \<Rightarrow> 'a \<Rightarrow> nat \<Rightarrow> bool" for R where
  root: "n \<in> Field R \<Longrightarrow> n \<notin> Range R \<Longrightarrow> chain R n (Suc 0)"
| step: "chain R a d \<Longrightarrow> (a, b) \<in> R \<Longrightarrow> chain R b (Suc d)"

lemma linear_succ: "linear es \<Longrightarrow> (n, m) \<in> set es \<Longrightarrow> (n, m') \<in> set es \<Longrightarrow> m = m'"
  unfolding linear_def using eq_key_imp_eq_value by metis

lemma linear_pred: "linear es \<Longrightarrow> (n, m) \<in> set es \<Longrightarrow> (n', m) \<in> set es \<Longrightarrow> n = n'"
  unfolding linear_def by (metis (no_types, lifting) distinct_map inj_onD snd_conv fst_conv)

lemma linear_nexts:
  assumes "linear es" shows "(n, m) \<in> set es \<Longrightarrow> nexts es n = [m]"
    and "n \<notin> Domain (set es) \<Longrightarrow> nexts es n = []"
proof -
  have d: "distinct (map fst es)" using assms by (simp add: linear_def)
  show "(n, m) \<in> set es \<Longrightarrow> nexts es n = [m]" using d unfolding nexts_def
  proof (induction es)
    case (Cons e es)
    show ?case
    proof (cases "e = (n, m)")
      case True
      then have "filter (\<lambda>e. fst e = n) es = []" using Cons.prems by (force simp: filter_empty_conv)
      then show ?thesis using True by simp
    next
      case False
      then have "(n, m) \<in> set es" using Cons.prems by simp
      then have "fst e \<noteq> n" using Cons.prems image_eqI [of n fst "(n, m)"] by auto
      then show ?thesis using False Cons by simp
    qed
  qed simp
  show "n \<notin> Domain (set es) \<Longrightarrow> nexts es n = []" by (force simp: nexts_def filter_empty_conv)
qed

lemma linear_iff_degrees:
  assumes "set order = Field (set es)"
  shows "(\<exists>n\<in>set order. unwrap_or0 (fold bump (map fst es) Map.empty n) > 1
          \<or> unwrap_or0 (fold bump (map snd es) Map.empty n) > 1) \<longleftrightarrow> \<not> linear es"
proof -
  have c: "1 < unwrap_or0 (fold bump xs Map.empty n) \<longleftrightarrow> n \<in> set xs \<and> \<not> count_list xs n \<le> 1" for xs and n :: 'a
    by (auto simp: bump_count in_deg_eq unwrap_or0_def)
  have "set (map fst es) \<subseteq> set order" "set (map snd es) \<subseteq> set order"
    using assms by (force simp: Field_def)+
  then show ?thesis
    unfolding c linear_def by (subst (1 2) count_le1_distinct [symmetric]) blast
qed

lemma chain_Range: "chain R n d \<Longrightarrow> n \<in> Range R \<Longrightarrow> \<exists>a d'. d = Suc d' \<and> chain R a d' \<and> (a, n) \<in> R"
  by (erule chain.cases) auto

lemma chain_root: "chain R n d \<Longrightarrow> n \<notin> Range R \<Longrightarrow> d = 1"
  by (erule chain.cases) auto

lemma chain_Field: "chain R n d \<Longrightarrow> n \<in> Field R \<and> 1 \<le> d"
  by (induction rule: chain.induct) (auto simp: Field_def)

lemma chain_unique:
  assumes "linear es" "chain (set es) n d" "chain (set es) n d'"
  shows "d = d'"
  using assms(2,3)
proof (induction arbitrary: d' rule: chain.induct)
  case (root n)
  then show ?case using chain_root [of "set es" n d'] by simp
next
  case (step a d b)
  then obtain a' k where "d' = Suc k" "chain (set es) a' k" "(a', b) \<in> set es"
    using chain_Range [of "set es" b d'] by blast
  then show ?case using step.IH step.hyps(2) linear_pred [OF assms(1)] by metis
qed

text \<open>The loop invariant; \<open>S\<close> is the set of the nodes popped so far.\<close>

definition kahn_inv :: "('a \<times> 'a) list \<Rightarrow> 'a set \<Rightarrow> 'a kahn \<Rightarrow> bool" where
  "kahn_inv es S k \<longleftrightarrow>
     distinct (k_stack k) \<and> set (k_stack k) \<inter> S = {} \<and> S \<union> set (k_stack k) \<subseteq> Field (set es)
     \<and> (\<forall>n\<in>Field (set es). n \<in> S \<union> set (k_stack k) \<longleftrightarrow> n \<notin> Range (set es) \<or> (\<exists>a\<in>S. (a, n) \<in> set es))
     \<and> (\<forall>a m. (a, m) \<in> set es \<longrightarrow> k_indeg k m = Some (if a \<in> S then 0 else 1))
     \<and> (\<forall>n\<in>S \<union> set (k_stack k). \<exists>d. k_dist k n = Some d \<and> chain (set es) n d \<and> d \<le> k_longest k)
     \<and> (\<forall>n\<in>Field (set es) - (S \<union> set (k_stack k)). k_dist k n = Some 1)
     \<and> k_seen k = card S
     \<and> (k_longest k = 1 \<or> (\<exists>n. chain (set es) n (k_longest k)))"

lemma kahn_inv_leaf:
  assumes "kahn_inv es S k" "k_stack k = n # st" "n \<notin> Domain (set es)"
  shows "kahn_inv es (insert n S) (k\<lparr>k_stack := st, k_seen := k_seen k + 1\<rparr>)"
proof -
  have "finite S" "n \<notin> S"
    using assms finite_subset [of S "Field (set es)"] finite_Field by (auto simp: kahn_inv_def)
  then show ?thesis using assms unfolding kahn_inv_def by (auto simp: Domain_iff)
qed

lemma kahn_inv_step:
  assumes inv: "kahn_inv es S k" and st: "k_stack k = n # st" and d: "k_dist k n = Some d"
    and nm: "(n, m) \<in> set es" and lin: "linear es"
  shows "\<exists>k'. relax_nexts d [m] (k\<lparr>k_stack := st, k_seen := k_seen k + 1\<rparr>) = Some (Inr k')
      \<and> kahn_inv es (insert n S) k'"
proof -
  have fin: "finite S" "n \<notin> S"
    using inv st finite_subset [of S "Field (set es)"] finite_Field by (auto simp: kahn_inv_def)
  have mF: "m \<in> Field (set es)" "m \<in> Range (set es)" using nm by (auto simp: Field_def)
  have pred: "a = n" if "(a, m) \<in> set es" for a using linear_pred [OF lin] nm that by metis
  have "m \<in> S \<union> set (k_stack k) \<longleftrightarrow> m \<notin> Range (set es) \<or> (\<exists>a\<in>S. (a, m) \<in> set es)"
    using inv mF(1) unfolding kahn_inv_def by blast
  then have m: "m \<notin> S \<union> set (k_stack k)" "m \<noteq> n" using st mF(2) fin pred by auto
  have dm: "k_dist k m = Some 1" and im: "k_indeg k m = Some 1"
    using inv m mF fin nm unfolding kahn_inv_def by auto
  obtain ch: "chain (set es) n d" "d \<le> k_longest k"
    using inv st d unfolding kahn_inv_def by auto
  have ch': "chain (set es) m (Suc d)" by (rule chain.step [OF ch(1) nm])
  define k' where "k' = k\<lparr>k_stack := m # st, k_seen := k_seen k + 1, k_dist := (k_dist k)(m \<mapsto> d + 1),
      k_longest := max (k_longest k) (d + 1), k_indeg := (k_indeg k)(m \<mapsto> 0)\<rparr>"
  have "relax_nexts d [m] (k\<lparr>k_stack := st, k_seen := k_seen k + 1\<rparr>) = Some (Inr k')"
    using dm im chain_Field [OF ch(1)] by (simp add: k'_def Let_def)
  moreover have "kahn_inv es (insert n S) k'"
  proof -
    have dist: "\<exists>e. k_dist k' x = Some e \<and> chain (set es) x e \<and> e \<le> k_longest k'"
      if "x \<in> insert n S \<union> set (k_stack k')" for x
    proof (cases "x = m")
      case False
      then have "x \<in> S \<union> set (k_stack k)" using that st by (auto simp: k'_def)
      then obtain e where "k_dist k x = Some e" "chain (set es) x e" "e \<le> k_longest k"
        using inv unfolding kahn_inv_def by blast
      then show ?thesis using False by (auto simp: k'_def)
    qed (use ch' in \<open>simp add: k'_def\<close>)
    have done_iff: "x \<in> insert n S \<union> set (k_stack k') \<longleftrightarrow>
        x \<notin> Range (set es) \<or> (\<exists>a\<in>insert n S. (a, x) \<in> set es)" if "x \<in> Field (set es)" for x
    proof -
      have "x \<in> S \<union> set (k_stack k) \<longleftrightarrow> x \<notin> Range (set es) \<or> (\<exists>a\<in>S. (a, x) \<in> set es)"
        using inv that unfolding kahn_inv_def by blast
      moreover have "(n, x) \<in> set es \<longleftrightarrow> x = m" using nm linear_succ [OF lin nm] by blast
      ultimately show ?thesis using st mF(2) by (auto simp: k'_def)
    qed
    have indeg: "k_indeg k' x = Some (if a \<in> insert n S then 0 else 1)" if ax: "(a, x) \<in> set es" for a x
    proof (cases "x = m")
      case False
      then have "a \<noteq> n" using ax linear_succ [OF lin nm] by blast
      moreover have "k_indeg k x = Some (if a \<in> S then 0 else 1)"
        using inv ax unfolding kahn_inv_def by blast
      ultimately show ?thesis using False by (simp add: k'_def)
    qed (use ax pred in \<open>simp add: k'_def\<close>)
    have "k_longest k' = 1 \<or> (\<exists>x. chain (set es) x (k_longest k'))"
      using inv ch' unfolding kahn_inv_def k'_def by (auto simp: max_def)
    moreover have rest: "k_dist k' x = Some 1" if "x \<in> Field (set es) - (insert n S \<union> set (k_stack k'))" for x
      using that inv st unfolding kahn_inv_def k'_def by auto
    moreover have "distinct (k_stack k')" "set (k_stack k') \<inter> insert n S = {}"
      "insert n S \<union> set (k_stack k') \<subseteq> Field (set es)" "k_seen k' = card (insert n S)"
      using inv st m mF fin unfolding kahn_inv_def k'_def by auto
    ultimately show ?thesis unfolding kahn_inv_def
      by (intro conjI ballI allI impI) (assumption | erule dist done_iff indeg rest)+
  qed
  ultimately show ?thesis by blast
qed

lemma kahn_loop_correct:
  "kahn_inv es S k \<Longrightarrow> linear es \<Longrightarrow>
   \<exists>k' S'. kahn_loop es k = Some (Inr k') \<and> kahn_inv es S' k' \<and> k_stack k' = []"
proof (induction es k arbitrary: S rule: kahn_loop.induct)
  case (1 es k)
  show ?case
  proof (cases "k_stack k")
    case Nil
    with "1.prems" show ?thesis by (subst kahn_loop.simps) auto
  next
    case (Cons n st)
    obtain d where d: "k_dist k n = Some d"
      using "1.prems" Cons unfolding kahn_inv_def by auto
    let ?k = "k\<lparr>k_stack := st, k_seen := k_seen k + 1\<rparr>"
    obtain k1 where k1: "relax_nexts d (nexts es n) ?k = Some (Inr k1)" "kahn_inv es (insert n S) k1"
    proof (cases "n \<in> Domain (set es)")
      case True
      then obtain m where "(n, m) \<in> set es" by blast
      then show ?thesis
        using that kahn_inv_step [OF "1.prems"(1) Cons d] linear_nexts(1) [OF "1.prems"(2)] "1.prems"(2) by metis
    next
      case False
      then show ?thesis
        using that kahn_inv_leaf [OF "1.prems"(1) Cons] linear_nexts(2) [OF "1.prems"(2)] by simp
    qed
    from "1.IH" [OF Cons d k1(1) refl k1(2) "1.prems"(2)] show ?thesis
      using Cons d k1(1) by (subst kahn_loop.simps) simp
  qed
qed


text \<open>Walks: the reference for the length the check reports.\<close>

definition walk :: "('a \<times> 'a) set \<Rightarrow> 'a list \<Rightarrow> bool" where
  "walk R xs \<longleftrightarrow> xs \<noteq> [] \<and> set xs \<subseteq> Field R \<and> successively (\<lambda>a b. (a, b) \<in> R) xs"

definition longest_walk :: "('a \<times> 'a) set \<Rightarrow> nat" where
  "longest_walk R = Max (length ` {xs. walk R xs})"

lemma walk_snoc: "walk R (xs @ [b]) \<longleftrightarrow> (if xs = [] then b \<in> Field R else walk R xs \<and> (last xs, b) \<in> R)"
  by (auto simp: walk_def successively_append_iff Field_def)

lemma chain_walk: "chain R n d \<Longrightarrow> \<exists>xs. walk R xs \<and> last xs = n \<and> length xs = d"
proof (induction rule: chain.induct)
  case (root n)
  then show ?case by (intro exI [of _ "[n]"]) (simp add: walk_def)
next
  case (step a d b)
  then obtain xs where "walk R xs" "last xs = a" "length xs = d" by blast
  moreover from this have "xs \<noteq> []" by (simp add: walk_def)
  ultimately have "walk R (xs @ [b])" "length (xs @ [b]) = Suc d"
    using step.hyps(2) by (simp_all add: walk_snoc)
  then show ?case by (metis last_snoc)
qed

lemma walk_chain:
  assumes "\<And>n. n \<in> Field R \<Longrightarrow> \<exists>d. chain R n d" and "walk R xs"
  shows "\<exists>d. chain R (last xs) d \<and> length xs \<le> d"
  using assms(2)
proof (induction xs rule: rev_induct)
  case (snoc b xs)
  show ?case
  proof (cases "xs = []")
    case True
    then have "b \<in> Field R" using snoc.prems by (simp add: walk_def)
    then obtain d where "chain R b d" using assms(1) by blast
    then show ?thesis using True chain_Field by fastforce
  next
    case False
    then obtain d where "chain R (last xs) d" "length xs \<le> d" "(last xs, b) \<in> R"
      using snoc by (auto simp: walk_snoc)
    then have "chain R b (Suc d)" "length (xs @ [b]) \<le> Suc d" by (auto intro: chain.step)
    then show ?thesis by (metis last_snoc)
  qed
qed (simp add: walk_def)

lemma longest_walk_eq:
  assumes all: "\<And>n. n \<in> Field R \<Longrightarrow> \<exists>d. chain R n d"
    and top: "chain R n l" and bound: "\<And>n d. chain R n d \<Longrightarrow> d \<le> l"
  shows "longest_walk R = l"
proof -
  have "k \<le> l" if "k \<in> length ` {xs. walk R xs}" for k
    using that walk_chain [OF all] bound by (blast intro: order_trans)
  moreover from this have "finite (length ` {xs. walk R xs})"
    by (meson finite_nat_set_iff_bounded_le)
  moreover have "l \<in> length ` {xs. walk R xs}" using chain_walk [OF top] by blast
  ultimately show ?thesis unfolding longest_walk_def by (intro Max_eqI) auto
qed

lemma acyclic_chain:
  assumes "acyclic (set es)" "n \<in> Field (set es)"
  shows "\<exists>d. chain (set es) n d"
  using finite_acyclic_wf [OF finite_set assms(1)] assms(2)
proof (induction n rule: wf_induct_rule)
  case (less n)
  show ?case
  proof (cases "n \<in> Range (set es)")
    case True
    then obtain a where "(a, n) \<in> set es" by blast
    moreover from this obtain d where "chain (set es) a d" using less.IH [of a] FieldI1 by metis
    ultimately show ?thesis using chain.step by metis
  next
    case False
    then show ?thesis using chain.root [OF less.prems] by blast
  qed
qed

lemma chain_acyclic:
  assumes "linear es" "\<And>n. n \<in> Field (set es) \<Longrightarrow> \<exists>d. chain (set es) n d"
  shows "acyclic (set es)"
proof (rule acyclicI, intro allI notI)
  have up: "\<exists>d'>d. chain (set es) b d'" if "(a, b) \<in> (set es)\<^sup>+" "chain (set es) a d" for a b d
    using that
  proof (induction rule: trancl_induct)
    case (base b)
    then show ?case using chain.step [of "set es" a d b] by blast
  next
    case (step b c)
    then obtain d' where "d < d'" "chain (set es) b d'" by blast
    then show ?case using chain.step [OF _ step.hyps(2)] less_SucI by blast
  qed
  fix n assume "(n, n) \<in> (set es)\<^sup>+"
  moreover from this have "n \<in> Field (set es)" by (metis FieldI2 tranclD2)
  ultimately obtain d d' where "chain (set es) n d" "chain (set es) n d'" "d < d'"
    using assms(2) up by blast
  then show False using chain_unique [OF assms(1)] by blast
qed

lemma kahn_inv_done:
  assumes inv: "kahn_inv es S k" "k_stack k = []" and lin: "linear es"
  shows "k_seen k = card (Field (set es)) \<longleftrightarrow> acyclic (set es)"
    and "acyclic (set es) \<Longrightarrow> es \<noteq> [] \<Longrightarrow> k_longest k = longest_walk (set es)"
proof -
  have S: "S \<subseteq> Field (set es)" "k_seen k = card S"
    and dist: "\<And>n. n \<in> S \<Longrightarrow> \<exists>d. chain (set es) n d \<and> d \<le> k_longest k"
    and top: "k_longest k = 1 \<or> (\<exists>n. chain (set es) n (k_longest k))"
    using inv unfolding kahn_inv_def by auto
  have inS: "n \<in> S" if "chain (set es) n d" for n d
    using that inv by (induction rule: chain.induct) (auto simp: kahn_inv_def Field_def)
  have sub: "Field (set es) \<subseteq> S" if "acyclic (set es)" using acyclic_chain [OF that] inS by blast
  have "card S = card (Field (set es)) \<longleftrightarrow> S = Field (set es)"
    using S(1) by (metis card_subset_eq finite_Field finite_set)
  then show "k_seen k = card (Field (set es)) \<longleftrightarrow> acyclic (set es)"
    using S sub dist chain_acyclic [OF lin] by (metis subset_antisym)
  assume ac: "acyclic (set es)" and ne: "es \<noteq> []"
  obtain n where "n \<in> Field (set es)" using ne by (cases es) (auto simp: Field_def)
  then obtain d where d: "chain (set es) n d" "d \<le> k_longest k" using sub [OF ac] dist by blast
  then have "\<exists>n. chain (set es) n (k_longest k)" using top chain_Field [OF d(1)] by auto
  moreover have "d \<le> k_longest k" if ch: "chain (set es) n d" for n d
  proof -
    obtain d' where "chain (set es) n d'" "d' \<le> k_longest k" using dist [OF inS [OF ch]] by blast
    then show ?thesis using chain_unique [OF lin ch] by simp
  qed
  ultimately show "k_longest k = longest_walk (set es)"
    using longest_walk_eq [of "set es"] acyclic_chain [OF ac] by metis
qed

lemma kahn_inv_start:
  assumes "linear es" "set order = Field (set es)" "distinct order"
  shows "kahn_inv es {} \<lparr>k_dist = (\<lambda>n. if n \<in> Field (set es) then Some 1 else None),
     k_indeg = fold bump (map snd es) Map.empty,
     k_stack = rev (filter (\<lambda>n. unwrap_or0 (fold bump (map snd es) Map.empty n) = 0) order),
     k_seen = 0, k_longest = 1\<rparr>"
proof -
  have zero: "unwrap_or0 (fold bump (map snd es) Map.empty n) = 0 \<longleftrightarrow> n \<notin> Range (set es)" for n
    using bump_count [of "map snd es" Map.empty n]
    by (simp add: unwrap_or0_def [of None] count_list_0_iff snd_eq_Range)
  have one: "fold bump (map snd es) Map.empty m = Some 1" if "(a, m) \<in> set es" for a m
  proof -
    have "m \<in> set (map snd es)" using that by force
    moreover have "count_list (map snd es) m \<le> 1" using assms(1) calculation
      unfolding linear_def count_le1_distinct [symmetric] by blast
    ultimately have "count_list (map snd es) m = 1" using count_list_0_iff [of "map snd es" m] by linarith
    then show ?thesis using \<open>m \<in> set (map snd es)\<close> unfolding in_deg_eq by simp
  qed
  show ?thesis unfolding kahn_inv_def
    using assms one by (auto simp: zero intro!: chain.root)
qed

lemma check_chains_eq:
  assumes "hash_iter iter"
  shows "check_chains iter es depth = Some
    (if es = [] then Inr 0
     else if \<not> linear es then Inl SchemaViolation
     else if \<not> acyclic (set es) then Inl CycleDetected
     else if longest_walk (set es) > depth then Inl LimitExceeded
     else Inr (longest_walk (set es)))"
proof (cases "es = [] \<or> \<not> linear es")
  case True
  then show ?thesis
    using linear_iff_degrees [of "iter (endpoints_of es)" es] assms
    by (auto simp: check_chains_def Let_def hash_iter_def set_endpoints_of)
next
  case False
  let ?order = "iter (endpoints_of es)"
  have order: "set ?order = Field (set es)" "distinct ?order"
    using assms by (auto simp: hash_iter_def set_endpoints_of)
  have len: "length (endpoints_of es) = card (Field (set es))"
    by (metis distinct_card distinct_remdups endpoints_of_def set_endpoints_of)
  obtain k S where k: "kahn_inv es S k" "k_stack k = []"
    "kahn_loop es \<lparr>k_dist = (\<lambda>n. if n \<in> Field (set es) then Some 1 else None),
       k_indeg = fold bump (map snd es) Map.empty,
       k_stack = rev (filter (\<lambda>n. unwrap_or0 (fold bump (map snd es) Map.empty n) = 0) ?order),
       k_seen = 0, k_longest = 1\<rparr> = Some (Inr k)"
    using kahn_loop_correct [OF kahn_inv_start [OF _ order]] False by blast
  note fin = kahn_inv_done [OF k(1,2)]
  show ?thesis
    using False linear_iff_degrees [OF order(1)] k(3) fin
    by (simp add: check_chains_def Let_def set_endpoints_of len)
qed

section \<open>Edge validation\<close>

text \<open>\<^verbatim>\<open>split_once(c)\<close>; \<^verbatim>\<open>splitn(3, ':')\<close> yields three parts when it succeeds twice.\<close>

definition split_once :: "char \<Rightarrow> string \<Rightarrow> (string \<times> string) option" where
  "split_once c s = (case dropWhile (\<lambda>x. x \<noteq> c) s of [] \<Rightarrow> None | _ # rest \<Rightarrow> Some (takeWhile (\<lambda>x. x \<noteq> c) s, rest))"

definition is_ascii_digit :: "char \<Rightarrow> bool" where
  "is_ascii_digit c \<longleftrightarrow> c \<in> set ''0123456789''"

definition looks_like_artifact_id :: "string \<Rightarrow> bool" where
  "looks_like_artifact_id s =
     (case split_once (CHR '':'') s of
        None \<Rightarrow> False
      | Some (p, r) \<Rightarrow>
          (case split_once (CHR '':'') r of
             None \<Rightarrow> False
           | Some (v, rest) \<Rightarrow>
               (let versioned = (length v > 1 \<and> v ! 0 = CHR ''v'' \<and> list_all is_ascii_digit (drop 1 v) \<and> rest \<noteq> [])
                in (p \<in> set [''evt'', ''att'', ''evd'', ''rel'', ''prf''] \<and> rest \<noteq> [])
                   \<or> (versioned \<and> p \<noteq> [] \<and> CHR '' '' \<notin> set p))))"

definition edge_endpoints :: "node_set \<Rightarrow> relationship \<Rightarrow> string list result" where
  "edge_endpoints nodes r =
     (if rel_ty r = EQUIVALENT then
        bindR (eachR (\<lambda>ep. if looks_like_artifact_id ep \<and> \<not> ns_contains nodes ep
                           then Inl DanglingReference else Inr ()) [rel_from r, rel_to r])
          (\<lambda>_. Inr (filter (ns_contains nodes) [rel_from r, rel_to r]))
      else if \<not> ns_contains nodes (rel_from r) then Inl DanglingReference
      else if \<not> ns_contains nodes (rel_to r) then Inl DanglingReference
      else Inr [rel_from r, rel_to r])"

definition is_grounded_kind :: "string list option \<Rightarrow> relationship \<Rightarrow> bool" where
  "is_grounded_kind extra r \<longleftrightarrow> requires_grounding (rel_ty r)
     \<or> (case extra of None \<Rightarrow> False | Some s \<Rightarrow> rel_ty r \<in> set s)"

definition check_backing_ref :: "node_set \<Rightarrow> string \<times> string option \<Rightarrow> unit result" where
  "check_backing_ref nodes = (\<lambda>(prefix, opt).
     case opt of None \<Rightarrow> Inr ()
     | Some i \<Rightarrow>
         if i = [] then Inl SchemaViolation
         else if \<not> starts_with i prefix then Inl SchemaViolation
         else if \<not> ns_contains nodes i then Inl DanglingReference
         else Inr ())"

definition check_edge :: "node_set \<Rightarrow> string list option \<Rightarrow> relationship \<Rightarrow> string list result" where
  "check_edge nodes extra r =
     (if rel_v r \<noteq> 1 then Inl UnsupportedVersion
      else if rel_from r = [] \<or> rel_to r = [] then Inl DanglingReference
      else if rel_from r = rel_to r then Inl SchemaViolation
      else
        bindR (edge_endpoints nodes r) (\<lambda>eps.
        if is_grounded_kind extra r \<and> rel_evidence_ref r = None \<and> rel_attestation_ref r = None
        then Inl RelationshipUngrounded
        else bindR (eachR (check_backing_ref nodes)
                     [(''evd:v1:'', rel_evidence_ref r), (''att:v1:'', rel_attestation_ref r)])
               (\<lambda>_. Inr eps)))"

fun check_edges ::
  "node_set \<Rightarrow> string list option \<Rightarrow> string list \<Rightarrow> string list \<Rightarrow> edge_record list \<Rightarrow> string list result" where
  "check_edges nodes extra seen endpoints [] = Inr endpoints"
| "check_edges nodes extra seen endpoints (e # es) =
     (if er_id e \<in> set seen then Inl SchemaViolation
      else bindR (check_edge nodes extra (er_content e))
             (\<lambda>eps. check_edges nodes extra (er_id e # seen) (fold List.insert eps endpoints) es))"

definition validate_graph_with_grounding ::
  "(string list \<Rightarrow> string list) \<Rightarrow> edge_record list \<Rightarrow> node_set \<Rightarrow> limits \<Rightarrow> string list option \<Rightarrow>
   validated_graph result option" where
  "validate_graph_with_grounding iter edges nodes l extra =
     (if length edges > max_edges l then Some (Inl LimitExceeded)
      else if ns_len nodes > max_nodes l then Some (Inl LimitExceeded)
      else case check_edges nodes extra [] [] edges of
          Inl e \<Rightarrow> Some (Inl e)
        | Inr endpoints \<Rightarrow>
            if length endpoints > max_nodes l then Some (Inl LimitExceeded)
            else map_option (\<lambda>r. bindR r (\<lambda>longest.
                   Inr \<lparr>vg_edge_ids = map er_id edges, vg_node_count = length endpoints,
                        vg_edge_count = length edges, vg_longest_supersedes_chain = longest\<rparr>))
                   (check_supersedes iter edges l))"

definition validate_graph ::
  "(string list \<Rightarrow> string list) \<Rightarrow> edge_record list \<Rightarrow> node_set \<Rightarrow> limits \<Rightarrow> validated_graph result option" where
  "validate_graph iter edges nodes l = validate_graph_with_grounding iter edges nodes l None"

subsection \<open>The contract of the edge checks\<close>

definition backing_ok :: "node_set \<Rightarrow> string \<Rightarrow> string option \<Rightarrow> bool" where
  "backing_ok nodes prefix opt \<longleftrightarrow> (\<forall>i. opt = Some i \<longrightarrow> starts_with i prefix \<and> ns_contains nodes i)"

definition edge_ok :: "node_set \<Rightarrow> string list option \<Rightarrow> relationship \<Rightarrow> bool" where
  "edge_ok nodes extra r \<longleftrightarrow>
     rel_v r = 1 \<and> rel_from r \<noteq> [] \<and> rel_to r \<noteq> [] \<and> rel_from r \<noteq> rel_to r
     \<and> (\<forall>ep\<in>{rel_from r, rel_to r}.
          rel_ty r \<noteq> EQUIVALENT \<or> looks_like_artifact_id ep \<longrightarrow> ns_contains nodes ep)
     \<and> (is_grounded_kind extra r \<longrightarrow> rel_evidence_ref r \<noteq> None \<or> rel_attestation_ref r \<noteq> None)
     \<and> backing_ok nodes ''evd:v1:'' (rel_evidence_ref r) \<and> backing_ok nodes ''att:v1:'' (rel_attestation_ref r)"

definition member_endpoints :: "node_set \<Rightarrow> edge_record list \<Rightarrow> string set" where
  "member_endpoints nodes edges =
     (\<Union>e\<in>set edges. {rel_from (er_content e), rel_to (er_content e)}) \<inter> set (ns_ids nodes)"

lemma check_backing_ref_iff:
  "p \<noteq> [] \<Longrightarrow> check_backing_ref nodes (p, opt) = Inr () \<longleftrightarrow> backing_ok nodes p opt"
  by (cases opt) (auto simp: check_backing_ref_def backing_ok_def starts_with_iff)

lemma check_edge_Inr_iff:
  "check_edge nodes extra r = Inr eps \<longleftrightarrow>
     edge_ok nodes extra r \<and> eps = filter (ns_contains nodes) [rel_from r, rel_to r]"
  by (auto simp: check_edge_def edge_endpoints_def edge_ok_def check_backing_ref_iff result_iff
      split: if_splits)

lemma check_edges_Inr_iff:
  "check_edges nodes extra seen acc es = Inr eps \<longleftrightarrow>
     distinct (map er_id es) \<and> set (map er_id es) \<inter> set seen = {}
     \<and> (\<forall>e\<in>set es. edge_ok nodes extra (er_content e))
     \<and> eps = fold List.insert (concat (map (\<lambda>e.
           filter (ns_contains nodes) [rel_from (er_content e), rel_to (er_content e)]) es)) acc"
  by (induction es arbitrary: seen acc) (auto simp: check_edge_Inr_iff result_iff)

lemma length_fold_insert: "length (fold List.insert xs []) = card (set xs)"
proof -
  have "set (fold List.insert xs ys) = set xs \<union> set ys"
    and "distinct ys \<Longrightarrow> distinct (fold List.insert xs ys)" for ys :: "'a list"
    by (induction xs arbitrary: ys) auto
  then show ?thesis using distinct_card [of "fold List.insert xs []"] by simp
qed

lemma set_member_endpoints:
  "set (concat (map (\<lambda>e. filter (ns_contains nodes) [rel_from (er_content e), rel_to (er_content e)]) es))
   = member_endpoints nodes es"
  by (auto simp: member_endpoints_def ns_contains_def split: if_splits)

lemma card_member_endpoints: "card (member_endpoints nodes es) \<le> ns_len nodes"
proof -
  have "card (member_endpoints nodes es) \<le> card (set (ns_ids nodes))"
    by (rule card_mono) (auto simp: member_endpoints_def)
  then show ?thesis using card_length [of "ns_ids nodes"] by (simp add: ns_len_def)
qed

section \<open>Cycle checks as one contract\<close>

text \<open>
  Both cycle checks keep some of the edges and decide whether the kept ones form a DAG.
\<close>

locale cycle_check =
  fixes check :: "(string list \<Rightarrow> string list) \<Rightarrow> edge_record list \<Rightarrow> node_set \<Rightarrow> unit result"
    and kept :: "edge_record list \<Rightarrow> node_set \<Rightarrow> (string \<times> string) list"
  assumes decides: "hash_iter iter \<Longrightarrow>
      check iter edges nodes = (if acyclic (set (kept edges nodes)) then Inr () else Inl CycleDetected)"
    and kept_mono: "set edges \<subseteq> set edges' \<Longrightarrow> set (kept edges nodes) \<subseteq> set (kept edges' nodes)"
begin

lemma order_irrelevant:
  "hash_iter iter \<Longrightarrow> hash_iter iter' \<Longrightarrow> set edges = set edges' \<Longrightarrow>
   check iter edges nodes = check iter' edges' nodes"
  using kept_mono [of edges edges' nodes] kept_mono [of edges' edges nodes] by (simp add: decides)

lemma subset_passes:
  "hash_iter iter \<Longrightarrow> check iter edges' nodes = Inr () \<Longrightarrow> set edges \<subseteq> set edges' \<Longrightarrow>
   check iter edges nodes = Inr ()"
  using kept_mono [of edges edges' nodes] acyclic_subset by (auto simp: decides split: if_splits)

end

lemma check_by_dfs:
  "hash_iter iter \<Longrightarrow> dfs_starts es (\<lambda>_. WHITE) (iter (endpoints_of es)) =
     (if acyclic (set es) then Inr () else Inl CycleDetected)"
  by (rule dfs_starts_decides) (simp add: hash_iter_def set_endpoints_of)

interpretation provenance: cycle_check check_acyclic_provenance provenance_edges
  by unfold_locales (auto simp: check_acyclic_provenance_def check_by_dfs provenance_edges_def)

interpretation derivation: cycle_check check_derivation_acyclic derivation_edges
  by unfold_locales (auto simp: check_derivation_acyclic_def check_by_dfs derivation_edges_def)

lemma hash_iter_remdups: "hash_iter remdups"
  by (simp add: hash_iter_def)

text \<open>Sample edges for the concrete instances below.\<close>

definition sample_edge :: "rel_type \<Rightarrow> string \<Rightarrow> string \<Rightarrow> edge_record" where
  "sample_edge t a b =
     \<lparr>er_content = \<lparr>rel_v = 1, rel_from = a, rel_ty = t, rel_to = b,
        rel_evidence_ref = Some ''evd:v1:x'', rel_attestation_ref = None\<rparr>, er_id = a @ b\<rparr>"

definition sample_nodes :: node_set where
  "sample_nodes = NodeSet_new [''evt:v1:a'', ''evt:v1:b'', ''evt:v1:c'', ''evd:v1:x'']"

definition sample_limits :: limits where
  "sample_limits = \<lparr>max_proof_size = 9, max_field_size = 9, max_depth = 9, max_array_items = 9,
     max_map_entries = 9, max_evidence_items = 9, max_nodes = 9, max_edges = 9,
     max_sig_size = 9, max_policy_requirements = 9, max_status_objects = 9, max_trusted_issuers = 9,
     max_revocation_authorities = 9, max_referenced_proofs = 9, max_vocabularies = 9\<rparr>"

section \<open>Properties\<close>

text \<open>
  C21. The fail-closed derivation check: whatever order the hash set is iterated in, the search
  ends, and it reports CYCLE_DETECTED exactly when the member edges that are neither REFERENCES nor
  EQUIVALENT contain a directed cycle.
\<close>

theorem derivation_check_decides_acyclicity:
  "hash_iter iter \<Longrightarrow>
   check_derivation_acyclic iter edges nodes =
     (if acyclic {(rel_from (er_content e), rel_to (er_content e)) | e. e \<in> set edges
          \<and> rel_ty (er_content e) \<notin> {REFERENCES, EQUIVALENT}
          \<and> ns_contains nodes (rel_from (er_content e)) \<and> ns_contains nodes (rel_to (er_content e))}
      then Inr () else Inl CycleDetected)"
proof -
  have "set (derivation_edges edges nodes) =
      {(rel_from (er_content e), rel_to (er_content e)) | e. e \<in> set edges
          \<and> rel_ty (er_content e) \<notin> {REFERENCES, EQUIVALENT}
          \<and> ns_contains nodes (rel_from (er_content e)) \<and> ns_contains nodes (rel_to (er_content e))}"
    by (auto simp: derivation_edges_def)
  then show "hash_iter iter \<Longrightarrow> ?thesis" by (simp only: derivation.decides)
qed

theorem derivation_check_decides_acyclicity_witness:
  "hash_iter remdups \<and>
   \<not> acyclic {(rel_from (er_content e), rel_to (er_content e)) | e.
        e \<in> set [sample_edge ''PRODUCED'' ''evt:v1:a'' ''evt:v1:b'', sample_edge ''OWNS'' ''evt:v1:b'' ''evt:v1:a'']
        \<and> rel_ty (er_content e) \<notin> {REFERENCES, EQUIVALENT}
        \<and> ns_contains sample_nodes (rel_from (er_content e)) \<and> ns_contains sample_nodes (rel_to (er_content e))}"
proof -
  have "check_derivation_acyclic remdups
      [sample_edge ''PRODUCED'' ''evt:v1:a'' ''evt:v1:b'', sample_edge ''OWNS'' ''evt:v1:b'' ''evt:v1:a''] sample_nodes
      = Inl CycleDetected"
    by code_simp
  then show ?thesis
    unfolding derivation_check_decides_acyclicity [OF hash_iter_remdups]
    using hash_iter_remdups by (simp split: if_splits)
qed

text \<open>
  The opt-in DAG profile is the stricter check: a graph it accepts passes the derivation
  check too, as does every subset of its edges, in any iteration order.
\<close>

theorem dag_profile_implies_derivation:
  assumes "hash_iter iter" "hash_iter iter'" "check_acyclic_provenance iter edges nodes = Inr ()"
    and "set edges' \<subseteq> set edges"
  shows "check_acyclic_provenance iter' edges' nodes = Inr () \<and> check_derivation_acyclic iter' edges' nodes = Inr ()"
proof -
  have p: "check_acyclic_provenance iter' edges' nodes = Inr ()"
    using provenance.subset_passes provenance.order_irrelevant assms by metis
  have "set (derivation_edges edges' nodes) \<subseteq> set (provenance_edges edges' nodes)"
    by (auto simp: derivation_edges_def provenance_edges_def)
  then show ?thesis
    using p provenance.decides [OF assms(2)] derivation.decides [OF assms(2)] acyclic_subset
    by (metis sum.distinct(1))
qed

theorem dag_profile_implies_derivation_witness:
  "check_acyclic_provenance remdups [sample_edge REFERENCES ''evt:v1:a'' ''evt:v1:b'',
     sample_edge ''PRODUCED'' ''evt:v1:b'' ''evt:v1:c''] sample_nodes = Inr () \<and>
   check_derivation_acyclic (rev \<circ> remdups) [sample_edge ''PRODUCED'' ''evt:v1:b'' ''evt:v1:c''] sample_nodes = Inr ()"
proof -
  have "check_acyclic_provenance remdups [sample_edge REFERENCES ''evt:v1:a'' ''evt:v1:b'',
     sample_edge ''PRODUCED'' ''evt:v1:b'' ''evt:v1:c''] sample_nodes = Inr ()"
    by code_simp
  moreover have "hash_iter (rev \<circ> remdups :: string list \<Rightarrow> string list)" by (simp add: hash_iter_def)
  ultimately show ?thesis
    using dag_profile_implies_derivation [OF hash_iter_remdups, of "rev \<circ> remdups" _ sample_nodes
        "[sample_edge ''PRODUCED'' ''evt:v1:b'' ''evt:v1:c'']"] by (metis list.set_intros(2) set_subset_Cons)
qed

text \<open>
  The SUPERSEDES check returns (no panic, no endless loop) for every input, and its result
  is: 0 without SUPERSEDES edges, SCHEMA_VIOLATION when a node supersedes or is superseded
  twice, CYCLE_DETECTED on a cycle, LIMIT_EXCEEDED when the longest chain has more than
  max_depth nodes, and otherwise the number of nodes of the longest chain.
\<close>

theorem supersedes_check_decides:
  "hash_iter iter \<Longrightarrow>
   check_supersedes iter edges l = Some
    (let es = supersedes_pairs edges in
     if es = [] then Inr 0
     else if \<not> (distinct (map fst es) \<and> distinct (map snd es)) then Inl SchemaViolation
     else if \<not> acyclic (set es) then Inl CycleDetected
     else if longest_walk (set es) > max_depth l then Inl LimitExceeded
     else Inr (longest_walk (set es)))"
  unfolding check_supersedes_def Let_def linear_def [symmetric] by (rule check_chains_eq)

theorem supersedes_check_decides_witness:
  "hash_iter remdups \<and> longest_walk {(''evt:v1:a'', ''evt:v1:b''), (''evt:v1:b'', ''evt:v1:c'')} = 3"
proof -
  let ?es = "[sample_edge SUPERSEDES ''evt:v1:a'' ''evt:v1:b'', sample_edge SUPERSEDES ''evt:v1:b'' ''evt:v1:c'']"
  have run: "check_supersedes remdups ?es sample_limits = Some (Inr 3)"
    by code_simp
  have "supersedes_pairs ?es = [(''evt:v1:a'', ''evt:v1:b''), (''evt:v1:b'', ''evt:v1:c'')]"
    by code_simp
  then show ?thesis
    using run hash_iter_remdups unfolding supersedes_check_decides [OF hash_iter_remdups]
    by (simp add: Let_def split: if_splits)
qed

lemma check_supersedes_total: "hash_iter iter \<Longrightarrow> check_supersedes iter edges l \<noteq> None"
  by (simp add: check_supersedes_def check_chains_eq)

lemma check_supersedes_Inr_iff:
  "hash_iter iter \<Longrightarrow> check_supersedes iter edges l = Some (Inr n) \<longleftrightarrow>
     linear (supersedes_pairs edges) \<and> acyclic (set (supersedes_pairs edges))
     \<and> n = (if supersedes_pairs edges = [] then 0 else longest_walk (set (supersedes_pairs edges)))
     \<and> n \<le> max_depth l"
  by (auto simp: check_supersedes_def check_chains_eq linear_def acyclic_def)

lemma validate_graph_Inr_iff:
  "validate_graph_with_grounding iter edges nodes l extra = Some (Inr g) \<longleftrightarrow>
     length edges \<le> max_edges l \<and> ns_len nodes \<le> max_nodes l
     \<and> distinct (map er_id edges) \<and> (\<forall>e\<in>set edges. edge_ok nodes extra (er_content e))
     \<and> check_supersedes iter edges l = Some (Inr (vg_longest_supersedes_chain g))
     \<and> vg_edge_ids g = map er_id edges \<and> vg_edge_count g = length edges
     \<and> vg_node_count g = card (member_endpoints nodes edges)"
proof (cases "check_edges nodes extra [] [] edges")
  case (Inl e)
  then have "\<not> (distinct (map er_id edges) \<and> (\<forall>e\<in>set edges. edge_ok nodes extra (er_content e)))"
    using check_edges_Inr_iff [of nodes extra "[]" "[]" edges] by auto
  with Inl show ?thesis by (auto simp: validate_graph_with_grounding_def)
next
  case (Inr eps)
  note iff = check_edges_Inr_iff [THEN iffD1, OF Inr]
  have ok: "distinct (map er_id edges) \<and> (\<forall>e\<in>set edges. edge_ok nodes extra (er_content e))"
    using iff by (elim conjE) (intro conjI)
  have len: "length eps = card (member_endpoints nodes edges)"
    using iff by (elim conjE) (simp only: length_fold_insert set_member_endpoints)
  show ?thesis
    using Inr ok len card_member_endpoints [of nodes edges] unfolding validate_graph_with_grounding_def
    by (cases g) (auto simp: result_iff)
qed

text \<open>
  C20. Graph validation always returns, and it accepts exactly the graphs within the edge, node
  and depth limits whose edge ids are distinct, whose edges are well-formed, resolved and
  grounded, and whose SUPERSEDES edges form acyclic linear chains; the summary lists every
  edge, counts the member endpoints and reports the longest chain. (The limit on the
  endpoints adds nothing: it is implied by the limit on the node set.)
\<close>

theorem validate_graph_accepts_iff:
  assumes "hash_iter iter"
  shows "\<exists>r. validate_graph_with_grounding iter edges nodes l extra = Some r \<and>
    (\<forall>g. r = Inr g \<longleftrightarrow>
       length edges \<le> max_edges l \<and> ns_len nodes \<le> max_nodes l
       \<and> distinct (map er_id edges) \<and> (\<forall>e\<in>set edges. edge_ok nodes extra (er_content e))
       \<and> linear (supersedes_pairs edges) \<and> acyclic (set (supersedes_pairs edges))
       \<and> vg_longest_supersedes_chain g =
            (if supersedes_pairs edges = [] then 0 else longest_walk (set (supersedes_pairs edges)))
       \<and> vg_longest_supersedes_chain g \<le> max_depth l
       \<and> vg_edge_ids g = map er_id edges \<and> vg_edge_count g = length edges
       \<and> vg_node_count g = card (member_endpoints nodes edges))"
proof -
  let ?v = "validate_graph_with_grounding iter edges nodes l extra"
  have "?v \<noteq> None"
    using check_supersedes_total [OF assms] by (simp add: validate_graph_with_grounding_def split: sum.splits)
  then show ?thesis
    using validate_graph_Inr_iff [of iter edges nodes l extra] check_supersedes_Inr_iff [OF assms, of edges l] by auto
qed

theorem validate_graph_accepts_iff_witness:
  "hash_iter remdups \<and>
   edge_ok sample_nodes None (er_content (sample_edge ''OWNS'' ''evt:v1:a'' ''evt:v1:b''))"
proof -
  have "validate_graph_with_grounding remdups [sample_edge ''OWNS'' ''evt:v1:a'' ''evt:v1:b''] sample_nodes sample_limits None =
    Some (Inr \<lparr>vg_edge_ids = [''evt:v1:aevt:v1:b''], vg_node_count = 2, vg_edge_count = 1, vg_longest_supersedes_chain = 0\<rparr>)"
    by code_simp
  then show ?thesis
    using validate_graph_accepts_iff [OF hash_iter_remdups, of "[sample_edge ''OWNS'' ''evt:v1:a'' ''evt:v1:b'']"
        sample_nodes sample_limits None] hash_iter_remdups
    by (metis list.set_intros(1) option.inject)
qed

end
