(* ===== verification/Schema.thy ===== *)
theory Schema
  imports Cbor "HOL-Library.Multiset"
begin

text \<open>
  The closed schemas of \<^verbatim>\<open>proof-format/src/schema.rs\<close>: the conversions between the domain
  records and CBOR values. A parser reads a map by its text keys (\<open>field\<close>), rejects unknown
  keys and versions, and checks every bound; the encoders build the maps in source order and
  the codec sorts them. The second half proves, for every schema, that parsing a canonical
  value succeeds exactly on the sorted encodings of admissible records (\<open>\<dots>_parse_iff\<close>), which
  gives the round trip in both directions at once. Base64 is a third-party crate: its two
  functions are the record \<open>base64_engine\<close>, a parameter of the definitions that call it.
\<close>

section \<open>Field access\<close>

type_synonym cbor_map = "(cbor_value \<times> cbor_value) list"

text \<open>The first entry whose key is the text \<open>key\<close>: the \<^verbatim>\<open>for\<close> and \<^verbatim>\<open>find\<close> loops over a map.\<close>

definition field :: "cbor_map \<Rightarrow> string \<Rightarrow> cbor_value option" where
  "field m key = map_of m (CText key)"

definition text_field :: "cbor_map \<Rightarrow> string \<Rightarrow> string result" where
  "text_field m key =
     (case field m key of
        Some (CText s) \<Rightarrow> if s = [] \<or> length s > 1024 then Inl SchemaViolation else Inr s
      | Some _ \<Rightarrow> Inl SchemaViolation
      | None \<Rightarrow> Inl SchemaViolation)"

definition uint_field :: "cbor_map \<Rightarrow> string \<Rightarrow> u64 result" where
  "uint_field m key =
     (case field m key of
        Some (CUint n) \<Rightarrow> Inr n
      | Some _ \<Rightarrow> Inl SchemaViolation
      | None \<Rightarrow> Inl SchemaViolation)"

definition opt_text_or_nil :: "cbor_map \<Rightarrow> string \<Rightarrow> string option result" where
  "opt_text_or_nil m key =
     (case field m key of
        Some CNull \<Rightarrow> Inr None
      | Some (CText s) \<Rightarrow> if s = [] \<or> length s > 1024 then Inl SchemaViolation else Inr (Some s)
      | Some _ \<Rightarrow> Inl SchemaViolation
      | None \<Rightarrow> Inl SchemaViolation)"

definition opt_ref_or_nil :: "cbor_map \<Rightarrow> string \<Rightarrow> string \<Rightarrow> string option result" where
  "opt_ref_or_nil m key prefix =
     bindR (opt_text_or_nil m key) (\<lambda>r.
       case r of
         None \<Rightarrow> Inr None
       | Some s \<Rightarrow> if \<not> starts_with s prefix then Inl SchemaViolation else Inr (Some s))"

definition opt_uint_or_nil :: "cbor_map \<Rightarrow> string \<Rightarrow> u64 option result" where
  "opt_uint_or_nil m key =
     (case field m key of
        Some CNull \<Rightarrow> Inr None
      | Some (CUint n) \<Rightarrow> Inr (Some n)
      | Some _ \<Rightarrow> Inl SchemaViolation
      | None \<Rightarrow> Inl SchemaViolation)"

definition check_version :: "cbor_map \<Rightarrow> unit result" where
  "check_version m =
     (case field m ''v'' of
        Some (CUint n) \<Rightarrow> if n = 1 then Inr () else Inl UnsupportedVersion
      | Some _ \<Rightarrow> Inl UnsupportedVersion
      | None \<Rightarrow> Inl SchemaViolation)"

definition check_closed :: "cbor_map \<Rightarrow> string list \<Rightarrow> unit result" where
  "check_closed m allowed =
     eachR (\<lambda>(k, _). case k of
         CText kk \<Rightarrow> if kk \<notin> set allowed then Inl SchemaViolation else Inr ()
       | _ \<Rightarrow> Inl SchemaViolation) m"

definition as_map :: "cbor_value \<Rightarrow> cbor_map result" where
  "as_map v = (case v of CMap p \<Rightarrow> Inr p | _ \<Rightarrow> Inl SchemaViolation)"

definition required :: "cbor_map \<Rightarrow> string \<Rightarrow> cbor_value result" where
  "required m key = ok_or (field m key) SchemaViolation"

section \<open>Scalars, metadata and hash references\<close>

definition meta_value_from_cbor :: "cbor_value \<Rightarrow> meta_value result" where
  "meta_value_from_cbor v =
     (case v of
        CText s \<Rightarrow> if length s > 1024 then Inl SchemaViolation else Inr (MText s)
      | CUint n \<Rightarrow> Inr (MUint n)
      | CBool b \<Rightarrow> Inr (MBool b)
      | _ \<Rightarrow> Inl SchemaViolation)"

fun meta_value_to_cbor :: "meta_value \<Rightarrow> cbor_value" where
  "meta_value_to_cbor (MText s) = CText s"
| "meta_value_to_cbor (MUint n) = CUint n"
| "meta_value_to_cbor (MBool b) = CBool b"

definition meta_pairs_to_cbor :: "(string \<times> meta_value) list \<Rightarrow> cbor_map" where
  "meta_pairs_to_cbor = map (\<lambda>(k, v). (CText k, meta_value_to_cbor v))"

text \<open>The loop over metadata or context entries; \<open>seen\<close> is the hash set of its keys.\<close>

fun meta_pairs_from_cbor :: "string list \<Rightarrow> cbor_map \<Rightarrow> (string \<times> meta_value) list result" where
  "meta_pairs_from_cbor seen [] = Inr []"
| "meta_pairs_from_cbor seen ((k, val) # rest) =
     (case k of
        CText ks \<Rightarrow>
          if length ks > 64 \<or> ks \<in> set seen then Inl SchemaViolation
          else bindR (meta_value_from_cbor val) (\<lambda>m.
               bindR (meta_pairs_from_cbor (ks # seen) rest) (\<lambda>ms. Inr ((ks, m) # ms)))
      | _ \<Rightarrow> Inl SchemaViolation)"

definition metadata_from_cbor :: "cbor_value \<Rightarrow> (string \<times> meta_value) list result" where
  "metadata_from_cbor v =
     bindR (as_map v) (\<lambda>pairs.
       if length pairs > 16 then Inl LimitExceeded else meta_pairs_from_cbor [] pairs)"

definition hashref_to_cbor :: "hash_ref \<Rightarrow> cbor_value" where
  "hashref_to_cbor h = CMap [
     (CText ''alg'', CUint (cbor_enum (hr_alg h))),
     (CText ''digest'', CBytes (hr_digest h)),
     (CText ''v'', CUint (ucast (hr_v h)))]"

text \<open>\<^verbatim>\<open>find_map\<close>: the first entry with key \<^verbatim>\<open>digest\<close> and a byte string.\<close>

fun find_digest :: "cbor_map \<Rightarrow> bytes option" where
  "find_digest [] = None"
| "find_digest ((k, val) # rest) =
     (case (k, val) of
        (CText kk, CBytes b) \<Rightarrow> if kk = ''digest'' then Some b else find_digest rest
      | _ \<Rightarrow> find_digest rest)"

definition hashref_from_cbor :: "cbor_value \<Rightarrow> hash_ref result" where
  "hashref_from_cbor v =
     bindR (as_map v) (\<lambda>m.
     bindR (check_closed m [''v'', ''alg'', ''digest'']) (\<lambda>_.
     bindR (check_version m) (\<lambda>_.
     bindR (uint_field m ''alg'') (\<lambda>alg_n.
     bindR (from_cbor_enum alg_n) (\<lambda>alg.
     bindR (ok_or (find_digest m) SchemaViolation) (\<lambda>digest.
     HashRef_new alg digest))))))"

definition opt_text_to_cbor :: "string option \<Rightarrow> cbor_value" where
  "opt_text_to_cbor x = (case x of Some s \<Rightarrow> CText s | None \<Rightarrow> CNull)"

definition opt_uint_to_cbor :: "u64 option \<Rightarrow> cbor_value" where
  "opt_uint_to_cbor x = (case x of Some n \<Rightarrow> CUint n | None \<Rightarrow> CNull)"

section \<open>Event\<close>

definition EVENT_FIELDS :: "string list" where
  "EVENT_FIELDS = [''effective_at'', ''metadata'', ''payload_ref'', ''subject'', ''type'', ''v'']"

definition event_map :: "event_content \<Rightarrow> cbor_value" where
  "event_map e = CMap [
     (CText ''effective_at'', CUint (ev_effective_at e)),
     (CText ''metadata'', CMap (meta_pairs_to_cbor (ev_metadata e))),
     (CText ''payload_ref'', hashref_to_cbor (ev_payload_ref e)),
     (CText ''subject'', CText (ev_subject e)),
     (CText ''type'', CText (ev_type e)),
     (CText ''v'', CUint 1)]"

definition event_to_cbor :: "event_content \<Rightarrow> cbor_value result" where
  "event_to_cbor e = (if ev_v e \<noteq> 1 then Inl UnsupportedVersion else Inr (event_map e))"

definition cbor_to_event :: "cbor_value \<Rightarrow> limits \<Rightarrow> event_content result" where
  "cbor_to_event v l =
     bindR (as_map v) (\<lambda>m.
     if length m > max_map_entries l then Inl LimitExceeded else
     bindR (check_closed m EVENT_FIELDS) (\<lambda>_.
     bindR (check_version m) (\<lambda>_.
     bindR (text_field m ''type'') (\<lambda>t.
     bindR (text_field m ''subject'') (\<lambda>subject.
     bindR (uint_field m ''effective_at'') (\<lambda>effective_at.
     bindR (required m ''payload_ref'') (\<lambda>pref.
     bindR (hashref_from_cbor pref) (\<lambda>payload_ref.
     bindR (required m ''metadata'') (\<lambda>meta_cbor.
     bindR (metadata_from_cbor meta_cbor) (\<lambda>metadata.
     Inr \<lparr>ev_v = 1, ev_type = t, ev_subject = subject, ev_effective_at = effective_at,
          ev_payload_ref = payload_ref, ev_metadata = metadata\<rparr>))))))))))"

section \<open>Attestation\<close>

definition ATT_FIELDS :: "string list" where
  "ATT_FIELDS = [''claim'', ''evidence_ref'', ''expires_at'', ''issued_at'', ''issuer'', ''subject'', ''v'']"

definition claim_to_cbor :: "claim \<Rightarrow> cbor_value" where
  "claim_to_cbor c = CMap ((CText ''type'', CText (claim_type c)) # meta_pairs_to_cbor (claim_fields c))"

definition attestation_to_cbor :: "attestation_content \<Rightarrow> cbor_value" where
  "attestation_to_cbor a = CMap [
     (CText ''claim'', claim_to_cbor (att_claim a)),
     (CText ''evidence_ref'', opt_text_to_cbor (att_evidence_ref a)),
     (CText ''expires_at'', opt_uint_to_cbor (att_expires_at a)),
     (CText ''issued_at'', CUint (att_issued_at a)),
     (CText ''issuer'', CText (att_issuer a)),
     (CText ''subject'', CText (att_subject a)),
     (CText ''v'', CUint (ucast (att_v a)))]"

text \<open>The claim loop: \<open>ct\<close> is \<^verbatim>\<open>claim_type\<close>, \<open>seen\<close> the keys so far; it returns the type and the fields.\<close>

fun claim_pairs_from_cbor ::
  "string option \<Rightarrow> string list \<Rightarrow> cbor_map \<Rightarrow> (string option \<times> (string \<times> meta_value) list) result" where
  "claim_pairs_from_cbor ct seen [] = Inr (ct, [])"
| "claim_pairs_from_cbor ct seen ((k, val) # rest) =
     (case k of
        CText ks \<Rightarrow>
          if ks \<in> set seen then Inl SchemaViolation
          else if ks = ''type'' then
            (case val of
               CText s \<Rightarrow>
                 if s = [] \<or> length s > 128 then Inl SchemaViolation
                 else claim_pairs_from_cbor (Some s) (ks # seen) rest
             | _ \<Rightarrow> Inl SchemaViolation)
          else
            bindR (meta_value_from_cbor val) (\<lambda>m.
            bindR (claim_pairs_from_cbor ct (ks # seen) rest) (\<lambda>(ct', fields).
            Inr (ct', (ks, m) # fields)))
      | _ \<Rightarrow> Inl SchemaViolation)"

definition claim_from_cbor :: "cbor_value \<Rightarrow> claim result" where
  "claim_from_cbor v =
     bindR (as_map v) (\<lambda>claim_pairs.
     if length claim_pairs > 16 \<or> claim_pairs = [] then Inl SchemaViolation else
     bindR (claim_pairs_from_cbor None [] claim_pairs) (\<lambda>(ct, fields).
     bindR (ok_or ct SchemaViolation) (\<lambda>ty. Inr \<lparr>claim_type = ty, claim_fields = fields\<rparr>)))"

definition cbor_to_attestation :: "cbor_value \<Rightarrow> limits \<Rightarrow> attestation_content result" where
  "cbor_to_attestation v l =
     bindR (as_map v) (\<lambda>m.
     if length m > max_map_entries l then Inl LimitExceeded else
     bindR (check_closed m ATT_FIELDS) (\<lambda>_.
     bindR (check_version m) (\<lambda>_.
     bindR (text_field m ''issuer'') (\<lambda>issuer.
     bindR (text_field m ''subject'') (\<lambda>subject.
     bindR (uint_field m ''issued_at'') (\<lambda>issued_at.
     bindR (opt_uint_or_nil m ''expires_at'') (\<lambda>expires_at.
     bindR (opt_ref_or_nil m ''evidence_ref'' ''evd:v1:'') (\<lambda>evidence_ref.
     if (case expires_at of Some e \<Rightarrow> e < issued_at | None \<Rightarrow> False) then Inl SchemaViolation else
     bindR (required m ''claim'') (\<lambda>claim_cbor.
     bindR (claim_from_cbor claim_cbor) (\<lambda>claim.
     Inr \<lparr>att_v = 1, att_issuer = issuer, att_subject = subject,
          att_claim = claim, att_issued_at = issued_at, att_expires_at = expires_at,
          att_evidence_ref = evidence_ref\<rparr>))))))))))"

section \<open>Evidence\<close>

definition EVIDENCE_FIELDS :: "string list" where
  "EVIDENCE_FIELDS = [''attestation_ref'', ''digest'', ''hint'', ''kind'', ''v'']"

definition evidence_to_cbor :: "evidence \<Rightarrow> cbor_value" where
  "evidence_to_cbor e = CMap [
     (CText ''attestation_ref'', opt_text_to_cbor (evd_attestation_ref e)),
     (CText ''digest'', hashref_to_cbor (evd_digest e)),
     (CText ''hint'', opt_text_to_cbor (evd_hint e)),
     (CText ''kind'', CText (evd_kind e)),
     (CText ''v'', CUint (ucast (evd_v e)))]"

definition cbor_to_evidence :: "cbor_value \<Rightarrow> limits \<Rightarrow> evidence result" where
  "cbor_to_evidence v l =
     bindR (as_map v) (\<lambda>m.
     if length m > max_map_entries l then Inl LimitExceeded else
     bindR (check_closed m EVIDENCE_FIELDS) (\<lambda>_.
     bindR (check_version m) (\<lambda>_.
     bindR (text_field m ''kind'') (\<lambda>kind.
     bindR (required m ''digest'') (\<lambda>digest_cbor.
     bindR (hashref_from_cbor digest_cbor) (\<lambda>digest.
     bindR (opt_ref_or_nil m ''attestation_ref'' ''att:v1:'') (\<lambda>attestation_ref.
     bindR (opt_text_or_nil m ''hint'') (\<lambda>hint.
     if (case hint of Some s \<Rightarrow> length s > 256 | None \<Rightarrow> False) then Inl SchemaViolation else
     Inr \<lparr>evd_v = 1, evd_kind = kind, evd_digest = digest,
          evd_attestation_ref = attestation_ref, evd_hint = hint\<rparr>))))))))"

section \<open>Relationship\<close>

definition REL_FIELDS :: "string list" where
  "REL_FIELDS = [''attestation_ref'', ''evidence_ref'', ''from'', ''to'', ''type'', ''v'']"

definition relationship_to_cbor :: "relationship \<Rightarrow> cbor_value" where
  "relationship_to_cbor r = CMap [
     (CText ''attestation_ref'', opt_text_to_cbor (rel_attestation_ref r)),
     (CText ''evidence_ref'', opt_text_to_cbor (rel_evidence_ref r)),
     (CText ''from'', CText (rel_from r)),
     (CText ''to'', CText (rel_to r)),
     (CText ''type'', CText (rel_ty r)),
     (CText ''v'', CUint (ucast (rel_v r)))]"

definition cbor_to_relationship :: "cbor_value \<Rightarrow> limits \<Rightarrow> relationship result" where
  "cbor_to_relationship v l =
     bindR (as_map v) (\<lambda>m.
     if length m > max_map_entries l then Inl LimitExceeded else
     bindR (check_closed m REL_FIELDS) (\<lambda>_.
     bindR (check_version m) (\<lambda>_.
     bindR (text_field m ''from'') (\<lambda>from.
     bindR (text_field m ''to'') (\<lambda>to.
     if from = to then Inl SchemaViolation else
     bindR (text_field m ''type'') (\<lambda>t.
     bindR (opt_ref_or_nil m ''evidence_ref'' ''evd:v1:'') (\<lambda>evidence_ref.
     bindR (opt_ref_or_nil m ''attestation_ref'' ''att:v1:'') (\<lambda>attestation_ref.
     Inr \<lparr>rel_v = 1, rel_from = from, rel_ty = t, rel_to = to,
          rel_evidence_ref = evidence_ref, rel_attestation_ref = attestation_ref\<rparr>))))))))"

section \<open>Proposition\<close>

definition PROP_FIELDS :: "string list" where
  "PROP_FIELDS = [''at_time'', ''context'', ''kind'', ''object'', ''predicate'', ''subject'', ''v'']"

definition proposition_to_cbor :: "proposition_content \<Rightarrow> cbor_value" where
  "proposition_to_cbor p = CMap [
     (CText ''at_time'', opt_uint_to_cbor (prop_at_time p)),
     (CText ''context'', CMap (meta_pairs_to_cbor (prop_context p))),
     (CText ''kind'', CText (prop_kind p)),
     (CText ''object'', opt_text_to_cbor (prop_object p)),
     (CText ''predicate'', CText (prop_predicate p)),
     (CText ''subject'', CText (prop_subject p)),
     (CText ''v'', CUint (ucast (prop_v p)))]"

definition cbor_to_proposition :: "cbor_value \<Rightarrow> limits \<Rightarrow> proposition_content result" where
  "cbor_to_proposition v l =
     bindR (as_map v) (\<lambda>m.
     if length m > max_map_entries l then Inl LimitExceeded else
     bindR (check_closed m PROP_FIELDS) (\<lambda>_.
     bindR (check_version m) (\<lambda>_.
     bindR (text_field m ''kind'') (\<lambda>kind.
     bindR (text_field m ''subject'') (\<lambda>subject.
     bindR (text_field m ''predicate'') (\<lambda>predicate.
     bindR (opt_text_or_nil m ''object'') (\<lambda>object.
     bindR (opt_uint_or_nil m ''at_time'') (\<lambda>at_time.
     bindR (required m ''context'') (\<lambda>ctx_cbor.
     bindR (metadata_from_cbor ctx_cbor) (\<lambda>context.
     Inr \<lparr>prop_v = 1, prop_kind = kind, prop_subject = subject, prop_predicate = predicate,
          prop_object = object, prop_at_time = at_time, prop_context = context\<rparr>))))))))))"

section \<open>Proof\<close>

record base64_engine =
  b64_encode :: "bytes \<Rightarrow> string"
  b64_decode :: "string \<Rightarrow> bytes option"

definition PROOF_FIELDS :: "string list" where
  "PROOF_FIELDS = [''attestations'', ''created_at'', ''events'', ''evidence'', ''proof_id'',
     ''proposition'', ''referenced_proofs'', ''relationships'', ''v'', ''vocabularies'']"

definition attestation_entry_to_cbor :: "stored_attestation \<Rightarrow> cbor_value" where
  "attestation_entry_to_cbor a = CMap [
     (CText ''content'', attestation_to_cbor (sa_content a)),
     (CText ''sign1'', CBytes (sa_sign1 a))]"

definition cbor_to_attestation_entry :: "cbor_value \<Rightarrow> limits \<Rightarrow> stored_attestation result" where
  "cbor_to_attestation_entry v l =
     bindR (as_map v) (\<lambda>m.
     bindR (check_closed m [''content'', ''sign1'']) (\<lambda>_.
     bindR (required m ''content'') (\<lambda>content_cbor.
     bindR (cbor_to_attestation content_cbor l) (\<lambda>content.
     bindR (required m ''sign1'') (\<lambda>sign1.
     case sign1 of
       CBytes b \<Rightarrow>
         if b = [] \<or> length b > max_proof_size l then Inl LimitExceeded
         else Inr \<lparr>sa_content = content, sa_sign1 = b\<rparr>
     | _ \<Rightarrow> Inl SchemaViolation)))))"

definition vocabulary_to_cbor :: "vocabulary_decl \<Rightarrow> cbor_value" where
  "vocabulary_to_cbor vd = CMap [(CText ''ns'', CText (voc_ns vd)), (CText ''version'', CUint (voc_version vd))]"

definition proof_to_cbor :: "proof_package \<Rightarrow> cbor_value result" where
  "proof_to_cbor p =
     bindR (mapR event_to_cbor (prf_events p)) (\<lambda>events.
     Inr (CMap ([
       (CText ''attestations'', CArray (map attestation_entry_to_cbor (prf_attestations p))),
       (CText ''created_at'', CUint (prf_created_at p)),
       (CText ''events'', CArray events),
       (CText ''evidence'', CArray (map evidence_to_cbor (prf_evidence p))),
       (CText ''proof_id'', CText (prf_id p)),
       (CText ''proposition'', proposition_to_cbor (prf_proposition p)),
       (CText ''relationships'', CArray (map relationship_to_cbor (prf_relationships p))),
       (CText ''v'', CUint 1)]
       @ (if prf_referenced_proofs p = [] then []
          else [(CText ''referenced_proofs'', CArray (map CText (prf_referenced_proofs p)))])
       @ (if prf_vocabularies p = [] then []
          else [(CText ''vocabularies'', CArray (map vocabulary_to_cbor (prf_vocabularies p)))]))))"

definition cbor_array :: "cbor_map \<Rightarrow> string \<Rightarrow> cbor_value list result" where
  "cbor_array m key =
     bindR (required m key) (\<lambda>v. case v of CArray a \<Rightarrow> Inr a | _ \<Rightarrow> Inl SchemaViolation)"

text \<open>\<^verbatim>\<open>for item in cbor_array(map, key)? { out.push(parse(item)?) }\<close>\<close>

definition parse_array :: "(cbor_value \<Rightarrow> 'a result) \<Rightarrow> cbor_map \<Rightarrow> string \<Rightarrow> 'a list result" where
  "parse_array f m key = bindR (cbor_array m key) (mapR f)"

definition check_proof_ref_shape :: "base64_engine \<Rightarrow> string \<Rightarrow> unit result" where
  "check_proof_ref_shape b64 i =
     bindR (ok_or (strip_prefix ''prf:v1:'' i) SchemaViolation) (\<lambda>rest.
     bindR (ok_or (b64_decode b64 rest) SchemaViolation) (\<lambda>raw.
     if b64_encode b64 raw \<noteq> rest then Inl SchemaViolation
     else if length raw \<noteq> 32 then Inl SchemaViolation
     else Inr ()))"

definition cbor_to_referenced_proofs :: "base64_engine \<Rightarrow> cbor_map \<Rightarrow> limits \<Rightarrow> string list result" where
  "cbor_to_referenced_proofs b64 m l =
     (case field m ''referenced_proofs'' of
        None \<Rightarrow> Inr []
      | Some (CArray items) \<Rightarrow>
          if length items > max_referenced_proofs l then Inl LimitExceeded else
          bindR (mapR (\<lambda>item. case item of
              CText s \<Rightarrow> bindR (check_proof_ref_shape b64 s) (\<lambda>_. Inr s)
            | _ \<Rightarrow> Inl SchemaViolation) items) (\<lambda>refs.
          let sorted = remdups_adj (sort refs)
          in if length sorted \<noteq> length refs \<or> sorted \<noteq> refs then Inl SchemaViolation else Inr refs)
      | Some _ \<Rightarrow> Inl SchemaViolation)"

text \<open>
  \<^verbatim>\<open>ns.contains(char::is_whitespace)\<close>: the UTF-8 forms of the characters with the Unicode
  property \<^verbatim>\<open>White_Space\<close>. In a valid string a byte pattern occurs exactly where its character does.
\<close>

definition whitespace_forms :: "nat list list" where
  "whitespace_forms =
     map (\<lambda>b. [b]) [9, 10, 11, 12, 13, 32] @ [[0xC2, 0x85], [0xC2, 0xA0], [0xE1, 0x9A, 0x80]]
     @ map (\<lambda>b. [0xE2, 0x80, b]) ([0x80 ..< 0x8B] @ [0xA8, 0xA9, 0xAF])
     @ [[0xE2, 0x81, 0x9F], [0xE3, 0x80, 0x80]]"

fun contains_whitespace :: "string \<Rightarrow> bool" where
  "contains_whitespace [] = False"
| "contains_whitespace (c # s) =
     (list_ex (\<lambda>p. take (length p) (map of_char (c # s)) = p) whitespace_forms \<or> contains_whitespace s)"

definition cbor_to_vocabulary :: "cbor_value \<Rightarrow> vocabulary_decl result" where
  "cbor_to_vocabulary item =
     bindR (as_map item) (\<lambda>pairs.
     bindR (check_closed pairs [''ns'', ''version'']) (\<lambda>_.
     bindR (text_field pairs ''ns'') (\<lambda>ns.
     if ns = [] \<or> length ns > 128 then Inl SchemaViolation
     else if CHR '':'' \<in> set ns \<or> contains_whitespace ns then Inl SchemaViolation else
     bindR (uint_field pairs ''version'') (\<lambda>version.
     Inr \<lparr>voc_ns = ns, voc_version = version\<rparr>))))"

text \<open>\<^verbatim>\<open>sort_by\<close> and \<^verbatim>\<open>dedup_by\<close> on the namespaces: only they and the length are compared afterwards.\<close>

definition cbor_to_vocabularies :: "cbor_map \<Rightarrow> limits \<Rightarrow> vocabulary_decl list result" where
  "cbor_to_vocabularies m l =
     (case field m ''vocabularies'' of
        None \<Rightarrow> Inr []
      | Some (CArray arr) \<Rightarrow>
          if length arr > max_vocabularies l then Inl LimitExceeded else
          bindR (mapR cbor_to_vocabulary arr) (\<lambda>out.
          let sorted = remdups_adj (map voc_ns (sort_key voc_ns out))
          in if length sorted \<noteq> length out \<or> sorted \<noteq> map voc_ns out then Inl SchemaViolation else Inr out)
      | Some _ \<Rightarrow> Inl SchemaViolation)"

definition cbor_to_proof :: "base64_engine \<Rightarrow> cbor_value \<Rightarrow> limits \<Rightarrow> proof_package result" where
  "cbor_to_proof b64 v l =
     bindR (as_map v) (\<lambda>m.
     bindR (check_closed m PROOF_FIELDS) (\<lambda>_.
     bindR (check_version m) (\<lambda>_.
     bindR (text_field m ''proof_id'') (\<lambda>proof_id.
     if \<not> starts_with proof_id ''prf:v1:'' then Inl SchemaViolation else
     bindR (required m ''proposition'') (\<lambda>prop_cbor.
     bindR (cbor_to_proposition prop_cbor l) (\<lambda>prop.
     bindR (uint_field m ''created_at'') (\<lambda>created_at.
     bindR (parse_array (\<lambda>item. cbor_to_event item l) m ''events'') (\<lambda>events.
     bindR (parse_array (\<lambda>item. cbor_to_attestation_entry item l) m ''attestations'') (\<lambda>attestations.
     bindR (parse_array (\<lambda>item. cbor_to_evidence item l) m ''evidence'') (\<lambda>evidence.
     bindR (parse_array (\<lambda>item. cbor_to_relationship item l) m ''relationships'') (\<lambda>relationships.
     bindR (cbor_to_referenced_proofs b64 m l) (\<lambda>referenced_proofs.
     if length relationships > max_edges l then Inl LimitExceeded
     else if length events + length attestations + length evidence > max_nodes l then Inl LimitExceeded else
     bindR (cbor_to_vocabularies m l) (\<lambda>vocabularies.
     Inr \<lparr>prf_v = 1, prf_id = proof_id, prf_proposition = prop, prf_events = events,
          prf_attestations = attestations, prf_evidence = evidence, prf_relationships = relationships,
          prf_referenced_proofs = referenced_proofs, prf_vocabularies = vocabularies,
          prf_created_at = created_at\<rparr>)))))))))))))"

section \<open>Canonical maps and their fields\<close>

declare sort_maps.simps(2) [simp del]

definition entries :: "cbor_map \<Rightarrow> cbor_map" where
  "entries ps = map (\<lambda>(k, v). (sort_maps k, sort_maps v)) ps"

lemma sort_maps_CMap: "sort_maps (CMap ps) = CMap (sort_key (\<lambda>p. encode_canonical (fst p)) (entries ps))"
  by (simp add: entries_def sort_maps.simps(2))

lemma entries_simps [simp]:
  "entries [] = []" "entries ((k, v) # ps) = (sort_maps k, sort_maps v) # entries ps"
  "entries (ps @ qs) = entries ps @ entries qs"
  by (simp_all add: entries_def)

lemma canon_map_distinct: "canon_form l d (CMap m) \<Longrightarrow> distinct (map fst m)"
proof -
  assume "canon_form l d (CMap m)"
  then have "distinct (map encode_canonical (map fst m))"
    by (simp add: strict_sorted_iff comp_def)
  then show ?thesis by (simp only: distinct_map)
qed

lemma strict_key_unique:
  fixes f :: "'a \<Rightarrow> 'k :: linorder"
  assumes "sorted_wrt (<) (map f xs)" "sorted_wrt (<) (map f ys)" "set xs = set ys"
  shows "xs = ys"
proof -
  have "map f xs = map f ys"
    using assms by (intro strict_sorted_equal) auto
  moreover have "inj_on f (set xs \<union> set ys)"
    using assms by (simp add: strict_sorted_iff distinct_map)
  ultimately show ?thesis by (rule map_inj_on)
qed

text \<open>A canonical map is the sorted form of a list of entries exactly when the entries are the same.\<close>

lemma canon_map_eq_set:
  assumes "canon_form l d (CMap m)" and "distinct (map fst (entries ps))"
  shows "CMap m = sort_maps (CMap ps) \<longleftrightarrow> set m = set (entries ps)"
proof
  assume eq: "set m = set (entries ps)"
  let ?f = "\<lambda>p. encode_canonical (fst p :: cbor_value)"
  have m: "distinct m" "inj_on ?f (set m)" "sorted (map ?f m)"
    using assms(1) by (simp_all add: strict_sorted_iff distinct_map)
  have "mset (entries ps) = mset m"
    using eq m(1) assms(2) distinct_map set_eq_iff_mset_eq_distinct by blast
  then have "sort_key ?f (entries ps) = m"
    using m eq by (intro sort_key_inj_key_eq) auto
  then show "CMap m = sort_maps (CMap ps)" by (simp only: sort_maps_CMap)
qed (simp only: sort_maps_CMap cbor_value.inject set_sort)

lemma canon_map_eq_iff:
  assumes m: "canon_form l d (CMap m)" and ps: "map fst (entries ps) = map CText ks" "distinct ks"
  shows "CMap m = sort_maps (CMap ps) \<longleftrightarrow>
    (\<forall>(k, v) \<in> set m. k \<in> CText ` set ks) \<and> (\<forall>(k, v) \<in> set (entries ps). map_of m k = Some v)"
proof -
  have d: "distinct (map fst m)" "distinct (map fst (entries ps))"
    using canon_map_distinct [OF m] ps by (auto simp: distinct_map inj_on_def)
  have keys: "fst ` set (entries ps) = CText ` set ks"
    using arg_cong [OF ps(1), of set] by simp
  have "set m = set (entries ps) \<longleftrightarrow>
      (\<forall>(k, v) \<in> set m. k \<in> CText ` set ks) \<and> (\<forall>(k, v) \<in> set (entries ps). map_of m k = Some v)"
  proof (intro iffI)
    assume R: "(\<forall>(k, v) \<in> set m. k \<in> CText ` set ks) \<and> (\<forall>(k, v) \<in> set (entries ps). map_of m k = Some v)"
    have "(k, v) \<in> set (entries ps)" if kv: "(k, v) \<in> set m" for k v
    proof -
      have "k \<in> fst ` set (entries ps)" using R kv keys by auto
      then obtain w where "(k, w) \<in> set (entries ps)" by auto
      moreover from this R have "map_of m k = Some w" by blast
      moreover have "map_of m k = Some v" using kv d(1) by simp
      ultimately show ?thesis by simp
    qed
    then show "set m = set (entries ps)" using R map_of_SomeD by fast
  next
    assume "set m = set (entries ps)"
    then show "(\<forall>(k, v) \<in> set m. k \<in> CText ` set ks) \<and> (\<forall>(k, v) \<in> set (entries ps). map_of m k = Some v)"
      unfolding keys [symmetric] using d(1) by (auto intro: rev_image_eqI)
  qed
  then show ?thesis using canon_map_eq_set [OF m d(2)] by simp
qed

lemma canon_field: "canon_form l d (CMap m) \<Longrightarrow> field m k = Some v \<Longrightarrow> canon_form l (Suc d) v"
  by (auto simp: field_def dest!: map_of_SomeD)

section \<open>When a field parses\<close>

definition text_ok :: "string \<Rightarrow> bool" where
  "text_ok s \<longleftrightarrow> s \<noteq> [] \<and> length s \<le> 1024"

lemma text_field_Inr [result_iff]: "text_field m k = Inr s \<longleftrightarrow> field m k = Some (CText s) \<and> text_ok s"
  by (auto simp: text_field_def text_ok_def split: option.splits cbor_value.splits)

lemma uint_field_Inr [result_iff]: "uint_field m k = Inr n \<longleftrightarrow> field m k = Some (CUint n)"
  by (auto simp: uint_field_def split: option.splits cbor_value.splits)

lemma opt_text_Inr [result_iff]:
  "opt_text_or_nil m k = Inr r \<longleftrightarrow> field m k = Some (opt_text_to_cbor r) \<and> pred_option text_ok r"
  by (auto simp: opt_text_or_nil_def opt_text_to_cbor_def text_ok_def split: option.splits cbor_value.splits)

lemma opt_ref_Inr [result_iff]:
  "opt_ref_or_nil m k p = Inr r \<longleftrightarrow>
     field m k = Some (opt_text_to_cbor r) \<and> pred_option (\<lambda>s. text_ok s \<and> starts_with s p) r"
  by (cases r) (auto simp: opt_ref_or_nil_def result_iff opt_text_to_cbor_def split: option.splits)

lemma opt_uint_Inr [result_iff]: "opt_uint_or_nil m k = Inr r \<longleftrightarrow> field m k = Some (opt_uint_to_cbor r)"
  by (auto simp: opt_uint_or_nil_def opt_uint_to_cbor_def split: option.splits cbor_value.splits)

lemma check_version_Inr [result_iff]: "check_version m = Inr u \<longleftrightarrow> field m ''v'' = Some (CUint 1)"
  by (auto simp: check_version_def split: option.splits cbor_value.splits)

lemma check_closed_Inr [result_iff]:
  "check_closed m allowed = Inr u \<longleftrightarrow> (\<forall>(k, v) \<in> set m. k \<in> CText ` set allowed)"
proof -
  have "(case k of CText kk \<Rightarrow> if kk \<notin> set allowed then Inl SchemaViolation else Inr () | _ \<Rightarrow> Inl SchemaViolation)
      = Inr () \<longleftrightarrow> k \<in> CText ` set allowed" for k
    by (cases k) auto
  then show ?thesis by (simp add: check_closed_def result_iff case_prod_unfold)
qed

lemma as_map_Inr [result_iff]: "as_map v = Inr m \<longleftrightarrow> v = CMap m"
  by (auto simp: as_map_def split: cbor_value.splits)

lemma required_Inr [result_iff]: "required m k = Inr v \<longleftrightarrow> field m k = Some v"
  by (simp add: required_def result_iff)

lemma sort_maps_scalar [simp]:
  "sort_maps (meta_value_to_cbor x) = meta_value_to_cbor x"
  "sort_maps (opt_text_to_cbor r) = opt_text_to_cbor r"
  "sort_maps (opt_uint_to_cbor u) = opt_uint_to_cbor u"
  by (cases x; cases r; cases u; simp add: opt_text_to_cbor_def opt_uint_to_cbor_def)+

lemma opt_to_cbor_inject [simp]:
  "opt_text_to_cbor r = opt_text_to_cbor r' \<longleftrightarrow> r = r'"
  "opt_uint_to_cbor u = opt_uint_to_cbor u' \<longleftrightarrow> u = u'"
  by (auto simp: opt_text_to_cbor_def opt_uint_to_cbor_def split: option.splits)

lemma meta_value_to_cbor_inject [simp]: "meta_value_to_cbor x = meta_value_to_cbor y \<longleftrightarrow> x = y"
  by (cases x; cases y) auto


section \<open>Metadata, claims and hash references\<close>

fun meta_value_ok :: "meta_value \<Rightarrow> bool" where
  "meta_value_ok (MText s) = (length s \<le> 1024)"
| "meta_value_ok _ = True"

definition meta_sorted :: "(string \<times> meta_value) list \<Rightarrow> bool" where
  "meta_sorted md \<longleftrightarrow> sorted_wrt (<) (map (\<lambda>p. encode_canonical (CText (fst p))) md)"

definition metadata_ok :: "(string \<times> meta_value) list \<Rightarrow> bool" where
  "metadata_ok md \<longleftrightarrow> length md \<le> 16 \<and> meta_sorted md \<and> (\<forall>(k, v) \<in> set md. length k \<le> 64 \<and> meta_value_ok v)"

definition claim_ok :: "claim \<Rightarrow> bool" where
  "claim_ok c \<longleftrightarrow> claim_type c \<noteq> [] \<and> length (claim_type c) \<le> 128 \<and> length (claim_fields c) \<le> 15
     \<and> meta_sorted (claim_fields c) \<and> ''type'' \<notin> fst ` set (claim_fields c)
     \<and> (\<forall>(k, v) \<in> set (claim_fields c). meta_value_ok v)"

lemma meta_value_Inr [result_iff]: "meta_value_from_cbor v = Inr x \<longleftrightarrow> v = meta_value_to_cbor x \<and> meta_value_ok x"
  by (cases x) (auto simp: meta_value_from_cbor_def split: cbor_value.splits if_splits)

lemma entries_meta [simp]: "entries (meta_pairs_to_cbor md) = meta_pairs_to_cbor md"
  by (auto simp: entries_def meta_pairs_to_cbor_def)

lemma meta_keys: "map (\<lambda>p. encode_canonical (fst p)) (meta_pairs_to_cbor md) = map (\<lambda>p. encode_canonical (CText (fst p))) md"
  by (auto simp: meta_pairs_to_cbor_def)

lemma sort_maps_meta: "meta_sorted md \<Longrightarrow> sort_maps (CMap (meta_pairs_to_cbor md)) = CMap (meta_pairs_to_cbor md)"
  unfolding sort_maps_CMap entries_meta by (simp add: meta_sorted_def strict_sorted_key_map meta_keys del: map_map)

lemma canon_meta_sorted: "canon_form l d (CMap (meta_pairs_to_cbor md)) \<Longrightarrow> meta_sorted md"
  unfolding meta_sorted_def meta_keys [symmetric] by simp

lemma meta_sorted_distinct: "meta_sorted md \<Longrightarrow> distinct (map fst md)"
  unfolding meta_sorted_def by (auto simp: strict_sorted_iff distinct_map inj_on_def)

lemma meta_pairs_from_cbor_Inr:
  "meta_pairs_from_cbor seen m = Inr md \<longleftrightarrow>
     m = meta_pairs_to_cbor md \<and> distinct (map fst md) \<and> (\<forall>x \<in> set md. fst x \<notin> set seen)
     \<and> (\<forall>x \<in> set md. length (fst x) \<le> 64 \<and> meta_value_ok (snd x))"
proof (induction m arbitrary: seen md)
  case (Cons p rest)
  obtain k val where [simp]: "p = (k, val)" by (cases p)
  show ?case
    by (cases k; cases md) (auto simp: Cons.IH result_iff meta_pairs_to_cbor_def)
qed (auto simp: meta_pairs_to_cbor_def)

lemma metadata_Inr [result_iff]:
  assumes "canon_form l d v"
  shows "metadata_from_cbor v = Inr md \<longleftrightarrow> v = sort_maps (CMap (meta_pairs_to_cbor md)) \<and> metadata_ok md"
proof -
  have "metadata_from_cbor v = Inr md \<longleftrightarrow> v = CMap (meta_pairs_to_cbor md) \<and> length md \<le> 16
      \<and> distinct (map fst md) \<and> (\<forall>(k, v) \<in> set md. length k \<le> 64 \<and> meta_value_ok v)"
    by (auto simp: metadata_from_cbor_def result_iff meta_pairs_from_cbor_Inr meta_pairs_to_cbor_def)
  then show ?thesis
    using assms canon_meta_sorted sort_maps_meta meta_sorted_distinct unfolding metadata_ok_def by metis
qed

lemma find_digest_field: "distinct (map fst m) \<Longrightarrow> find_digest m = Some b \<longleftrightarrow> field m ''digest'' = Some (CBytes b)"
  by (induction m rule: find_digest.induct)
     (auto simp: field_def dest: map_of_SomeD intro: rev_image_eqI split: cbor_value.splits)

lemma hashref_Inr [result_iff]:
  assumes "canon_form l d v"
  shows "hashref_from_cbor v = Inr h \<longleftrightarrow> v = sort_maps (hashref_to_cbor h) \<and> hash_ref_ok h"
proof (cases v)
  case (CMap m)
  note canon = assms [unfolded CMap]
  have "v = sort_maps (hashref_to_cbor h) \<longleftrightarrow>
    (\<forall>(k, v) \<in> set m. k \<in> CText ` set [''alg'', ''digest'', ''v'']) \<and> field m ''alg'' = Some (CUint (cbor_enum (hr_alg h)))
    \<and> field m ''digest'' = Some (CBytes (hr_digest h)) \<and> field m ''v'' = Some (CUint (ucast (hr_v h)))"
    unfolding CMap hashref_to_cbor_def
    by (subst canon_map_eq_iff [OF canon, of _ "[''alg'', ''digest'', ''v'']"]) (simp_all add: field_def)
  then show ?thesis
    unfolding CMap hashref_from_cbor_def
    by (auto simp: result_iff find_digest_field [OF canon_map_distinct [OF canon]] hash_ref_ok_def)
qed (auto simp: hashref_from_cbor_def hashref_to_cbor_def as_map_def sort_maps_CMap)


definition fresh_keys :: "string list \<Rightarrow> cbor_map \<Rightarrow> bool" where
  "fresh_keys seen m \<longleftrightarrow> (\<forall>x \<in> set m. \<exists>s. fst x = CText s \<and> s \<notin> set seen)"

lemma fresh_keys_simps [simp]:
  "fresh_keys seen []"
  "fresh_keys seen ((k, v) # m) \<longleftrightarrow> (\<exists>s. k = CText s \<and> s \<notin> set seen) \<and> fresh_keys seen m"
  by (simp_all add: fresh_keys_def)

lemma fresh_keys_Cons: "fresh_keys (a # seen) m \<longleftrightarrow> fresh_keys seen m \<and> CText a \<notin> fst ` set m"
  by (induction m) auto

lemma claim_pairs_Inr:
  "claim_pairs_from_cbor ct seen m = Inr (ct', fs) \<longleftrightarrow>
     fresh_keys seen m \<and> distinct (map fst m)
     \<and> filter (\<lambda>x. fst x \<noteq> CText ''type'') m = meta_pairs_to_cbor fs \<and> (\<forall>x \<in> set fs. meta_value_ok (snd x))
     \<and> (case map_of m (CText ''type'') of
           None \<Rightarrow> ct' = ct
         | Some v \<Rightarrow> \<exists>s. v = CText s \<and> s \<noteq> [] \<and> length s \<le> 128 \<and> ct' = Some s)"
proof (induction m arbitrary: ct seen fs)
  case (Cons p rest)
  obtain k val where p [simp]: "p = (k, val)" by (cases p)
  show ?case
  proof (cases "k = CText ''type''")
    case True
    have "map_of rest (CText ''type'') = None \<longleftrightarrow> CText ''type'' \<notin> fst ` set rest"
      by (simp add: map_of_eq_None_iff)
    then show ?thesis using True by (cases val) (auto simp: Cons.IH fresh_keys_Cons)
  next
    case False
    then show ?thesis
      by (cases k; cases fs) (auto simp: Cons.IH result_iff meta_pairs_to_cbor_def fresh_keys_Cons)
  qed
qed (auto simp: meta_pairs_to_cbor_def)


lemma in_fst: "(a, b) \<in> S \<Longrightarrow> a \<in> fst ` S"
  by force

lemma split_at_key:
  assumes "distinct (map fst m)" "map_of m k = Some v"
  shows "set m = insert (k, v) (set (filter (\<lambda>x. fst x \<noteq> k) m))"
proof -
  have "x = (k, v)" if x: "x \<in> set m" "fst x = k" for x
  proof -
    have "map_of m k = Some (snd x)" using x by (intro map_of_is_SomeI [OF assms(1)]) auto
    then show ?thesis using assms(2) x(2) by (simp add: prod_eq_iff)
  qed
  then show ?thesis using map_of_SomeD [OF assms(2)] unfolding set_filter by blast
qed

lemma split_at_key_length:
  "distinct (map fst m) \<Longrightarrow> map_of m k = Some v \<Longrightarrow> length m = Suc (length (filter (\<lambda>x. fst x \<noteq> k) m))"
proof (induction m)
  case (Cons p m)
  show ?case
  proof (cases "fst p = k")
    case True
    then have "filter (\<lambda>x. fst x \<noteq> k) m = m" using Cons.prems(1) by (auto simp: filter_id_conv dest: in_fst)
    then show ?thesis using True by simp
  qed (use Cons in simp)
qed simp

lemma claim_Inr:
  assumes canon: "canon_form l d (CMap m)"
  shows "length m \<le> 16 \<and> m \<noteq> [] \<and> claim_pairs_from_cbor None [] m = Inr (Some (claim_type c), claim_fields c) \<longleftrightarrow>
    CMap m = sort_maps (claim_to_cbor c) \<and> claim_ok c"
proof -
  let ?ty = "(CText ''type'', CText (claim_type c))" and ?fs = "meta_pairs_to_cbor (claim_fields c)"
  let ?rest = "filter (\<lambda>x. fst x \<noteq> CText ''type'') m"
  let ?key = "\<lambda>p. encode_canonical (fst p :: cbor_value)"
  have sorted: "sorted_wrt (<) (map ?key m)" and dist: "distinct (map fst m)"
    using canon canon_map_distinct by auto
  have keys: "map fst ?fs = map CText (map fst (claim_fields c))" by (auto simp: meta_pairs_to_cbor_def)
  have ty_notin: "CText ''type'' \<notin> fst ` set ?fs \<longleftrightarrow> ''type'' \<notin> fst ` set (claim_fields c)"
    by (force simp: meta_pairs_to_cbor_def)
  have rest: "sorted_wrt (<) (map ?key ?rest)"
    using sorted by (auto simp: sorted_wrt_map intro: sorted_wrt_filter)
  have "distinct (map fst (entries (?ty # ?fs)))" if "claim_ok c"
  proof -
    have "distinct (map CText (map fst (claim_fields c)))"
      using that meta_sorted_distinct [of "claim_fields c"] by (simp add: claim_ok_def distinct_map inj_on_def)
    then have "distinct (map fst ?fs)" by (simp only: keys)
    then show ?thesis using that ty_notin by (simp add: claim_ok_def)
  qed
  then have eq_set: "CMap m = sort_maps (claim_to_cbor c) \<longleftrightarrow> set m = insert ?ty (set ?fs)" if "claim_ok c"
    using that canon_map_eq_set [OF canon, of "?ty # ?fs"] by (simp add: claim_to_cbor_def)
  have same: "?rest = ?fs" if "claim_ok c" "set m = insert ?ty (set ?fs)"
  proof (rule strict_key_unique [OF rest])
    show "sorted_wrt (<) (map ?key ?fs)" using that(1) unfolding meta_keys claim_ok_def meta_sorted_def by blast
    have "\<forall>x\<in>set ?fs. fst x \<noteq> CText ''type''" using that(1) ty_notin by (auto simp: claim_ok_def dest: in_fst)
    then show "set ?rest = set ?fs" using that(2) by auto
  qed
  have fresh: "fresh_keys [] m" if "set m = insert ?ty (set ?fs)"
    using that by (auto simp: fresh_keys_def meta_pairs_to_cbor_def)
  show ?thesis
  proof (intro iffI; elim conjE)
    assume m: "length m \<le> 16" "claim_pairs_from_cbor None [] m = Inr (Some (claim_type c), claim_fields c)"
    then have p: "?rest = ?fs" "\<forall>x \<in> set (claim_fields c). meta_value_ok (snd x)"
      "map_of m (CText ''type'') = Some (CText (claim_type c))" "claim_type c \<noteq> []" "length (claim_type c) \<le> 128"
      unfolding claim_pairs_Inr by (auto split: option.splits)
    have "claim_ok c"
    proof -
      have "length (claim_fields c) = length ?rest" unfolding p(1) by (simp add: meta_pairs_to_cbor_def)
      moreover have "CText ''type'' \<notin> fst ` set ?rest" by auto
      moreover have "meta_sorted (claim_fields c)" using rest unfolding p(1) meta_keys meta_sorted_def .
      ultimately show ?thesis
        using p m(1) split_at_key_length [OF dist p(3)] ty_notin unfolding claim_ok_def by auto
    qed
    then show "CMap m = sort_maps (claim_to_cbor c) \<and> claim_ok c"
      using eq_set split_at_key [OF dist p(3)] p(1) by simp
  next
    assume ok: "claim_ok c" and "CMap m = sort_maps (claim_to_cbor c)"
    then have s: "set m = insert ?ty (set ?fs)" using eq_set by simp
    then have ty: "map_of m (CText ''type'') = Some (CText (claim_type c))" using dist by simp
    show "length m \<le> 16 \<and> m \<noteq> [] \<and> claim_pairs_from_cbor None [] m = Inr (Some (claim_type c), claim_fields c)"
      using ok same [OF ok s] fresh [OF s] dist ty split_at_key_length [OF dist ty]
      unfolding claim_pairs_Inr claim_ok_def by (auto simp: meta_pairs_to_cbor_def)
  qed
qed


lemma claim_parse_iff:
  assumes "canon_form l d v"
  shows "claim_from_cbor v = Inr c \<longleftrightarrow> v = sort_maps (claim_to_cbor c) \<and> claim_ok c"
proof (cases v)
  case (CMap m)
  have "claim_from_cbor v = Inr c \<longleftrightarrow> length m \<le> 16 \<and> m \<noteq> []
      \<and> claim_pairs_from_cbor None [] m = Inr (Some (claim_type c), claim_fields c)"
    by (cases c) (auto simp: CMap claim_from_cbor_def result_iff)
  then show ?thesis using claim_Inr [OF assms [unfolded CMap]] CMap by simp
qed (auto simp: claim_from_cbor_def claim_to_cbor_def as_map_def sort_maps_CMap)

section \<open>Admissible records\<close>

definition ref_ok :: "string \<Rightarrow> string option \<Rightarrow> bool" where
  "ref_ok p r \<longleftrightarrow> pred_option (\<lambda>s. text_ok s \<and> starts_with s p) r"

definition event_ok :: "event_content \<Rightarrow> bool" where
  "event_ok e \<longleftrightarrow> ev_v e = 1 \<and> text_ok (ev_type e) \<and> text_ok (ev_subject e)
     \<and> hash_ref_ok (ev_payload_ref e) \<and> metadata_ok (ev_metadata e)"

definition attestation_ok :: "attestation_content \<Rightarrow> bool" where
  "attestation_ok a \<longleftrightarrow> att_v a = 1 \<and> text_ok (att_issuer a) \<and> text_ok (att_subject a) \<and> claim_ok (att_claim a)
     \<and> pred_option (\<lambda>x. att_issued_at a \<le> x) (att_expires_at a) \<and> ref_ok ''evd:v1:'' (att_evidence_ref a)"

definition evidence_ok :: "evidence \<Rightarrow> bool" where
  "evidence_ok e \<longleftrightarrow> evd_v e = 1 \<and> text_ok (evd_kind e) \<and> hash_ref_ok (evd_digest e)
     \<and> ref_ok ''att:v1:'' (evd_attestation_ref e) \<and> pred_option (\<lambda>s. s \<noteq> [] \<and> length s \<le> 256) (evd_hint e)"

definition relationship_ok :: "relationship \<Rightarrow> bool" where
  "relationship_ok r \<longleftrightarrow> rel_v r = 1 \<and> text_ok (rel_from r) \<and> text_ok (rel_to r) \<and> rel_from r \<noteq> rel_to r
     \<and> text_ok (rel_ty r) \<and> ref_ok ''evd:v1:'' (rel_evidence_ref r) \<and> ref_ok ''att:v1:'' (rel_attestation_ref r)"

definition proposition_ok :: "proposition_content \<Rightarrow> bool" where
  "proposition_ok p \<longleftrightarrow> prop_v p = 1 \<and> text_ok (prop_kind p) \<and> text_ok (prop_subject p)
     \<and> text_ok (prop_predicate p) \<and> pred_option text_ok (prop_object p) \<and> metadata_ok (prop_context p)"

lemma canon_map_len: "canon_form l d (CMap m) \<Longrightarrow> \<not> max_map_entries l < length m"
  by simp

lemma relationship_parse_iff:
  assumes "canon_form l d v"
  shows "cbor_to_relationship v l = Inr r \<longleftrightarrow> relationship_ok r \<and> v = sort_maps (relationship_to_cbor r)"
proof (cases v)
  case (CMap m)
  note canon = assms [unfolded CMap]
  have eq: "v = sort_maps (relationship_to_cbor r) \<longleftrightarrow>
    (\<forall>(k, v) \<in> set m. k \<in> CText ` set REL_FIELDS)
    \<and> field m ''attestation_ref'' = Some (opt_text_to_cbor (rel_attestation_ref r))
    \<and> field m ''evidence_ref'' = Some (opt_text_to_cbor (rel_evidence_ref r))
    \<and> field m ''from'' = Some (CText (rel_from r)) \<and> field m ''to'' = Some (CText (rel_to r))
    \<and> field m ''type'' = Some (CText (rel_ty r)) \<and> field m ''v'' = Some (CUint (ucast (rel_v r)))"
    unfolding CMap relationship_to_cbor_def
    by (subst canon_map_eq_iff [OF canon, of _ REL_FIELDS]) (simp_all add: field_def REL_FIELDS_def)
  show ?thesis
    unfolding eq unfolding CMap cbor_to_relationship_def relationship_ok_def ref_ok_def
    by (cases r) (auto simp: result_iff canon_map_len [OF canon])
qed (auto simp: cbor_to_relationship_def relationship_to_cbor_def as_map_def sort_maps_CMap)

lemma evidence_parse_iff:
  assumes "canon_form l d v"
  shows "cbor_to_evidence v l = Inr e \<longleftrightarrow> evidence_ok e \<and> v = sort_maps (evidence_to_cbor e)"
proof (cases v)
  case (CMap m)
  note canon = assms [unfolded CMap]
  have eq: "v = sort_maps (evidence_to_cbor e) \<longleftrightarrow>
    (\<forall>(k, v) \<in> set m. k \<in> CText ` set EVIDENCE_FIELDS)
    \<and> field m ''attestation_ref'' = Some (opt_text_to_cbor (evd_attestation_ref e))
    \<and> field m ''digest'' = Some (sort_maps (hashref_to_cbor (evd_digest e)))
    \<and> field m ''hint'' = Some (opt_text_to_cbor (evd_hint e))
    \<and> field m ''kind'' = Some (CText (evd_kind e)) \<and> field m ''v'' = Some (CUint (ucast (evd_v e)))"
    unfolding CMap evidence_to_cbor_def
    by (subst canon_map_eq_iff [OF canon, of _ EVIDENCE_FIELDS]) (simp_all add: field_def EVIDENCE_FIELDS_def)
  show ?thesis
    unfolding eq unfolding CMap cbor_to_evidence_def evidence_ok_def ref_ok_def
    by (cases e) (auto simp: result_iff canon_map_len [OF canon] hashref_Inr [OF canon_field [OF canon]] text_ok_def
        split: option.splits)
qed (auto simp: cbor_to_evidence_def evidence_to_cbor_def as_map_def sort_maps_CMap)


lemma event_parse_iff:
  assumes "canon_form l d v"
  shows "cbor_to_event v l = Inr e \<longleftrightarrow> event_ok e \<and> v = sort_maps (event_map e)"
proof (cases v)
  case (CMap m)
  note canon = assms [unfolded CMap]
  have eq: "v = sort_maps (event_map e) \<longleftrightarrow>
    (\<forall>(k, v) \<in> set m. k \<in> CText ` set EVENT_FIELDS)
    \<and> field m ''effective_at'' = Some (CUint (ev_effective_at e))
    \<and> field m ''metadata'' = Some (sort_maps (CMap (meta_pairs_to_cbor (ev_metadata e))))
    \<and> field m ''payload_ref'' = Some (sort_maps (hashref_to_cbor (ev_payload_ref e)))
    \<and> field m ''subject'' = Some (CText (ev_subject e))
    \<and> field m ''type'' = Some (CText (ev_type e)) \<and> field m ''v'' = Some (CUint 1)"
    unfolding CMap event_map_def
    by (subst canon_map_eq_iff [OF canon, of _ EVENT_FIELDS])
       (simp_all add: field_def EVENT_FIELDS_def)
  show ?thesis
    unfolding eq unfolding CMap cbor_to_event_def event_ok_def
    by (cases e) (auto simp: result_iff canon_map_len [OF canon] hashref_Inr [OF canon_field [OF canon]]
       metadata_Inr [OF canon_field [OF canon]])
qed (auto simp: cbor_to_event_def event_map_def as_map_def sort_maps_CMap)

lemma proposition_parse_iff:
  assumes "canon_form l d v"
  shows "cbor_to_proposition v l = Inr p \<longleftrightarrow> proposition_ok p \<and> v = sort_maps (proposition_to_cbor p)"
proof (cases v)
  case (CMap m)
  note canon = assms [unfolded CMap]
  have eq: "v = sort_maps (proposition_to_cbor p) \<longleftrightarrow>
    (\<forall>(k, v) \<in> set m. k \<in> CText ` set PROP_FIELDS)
    \<and> field m ''at_time'' = Some (opt_uint_to_cbor (prop_at_time p))
    \<and> field m ''context'' = Some (sort_maps (CMap (meta_pairs_to_cbor (prop_context p))))
    \<and> field m ''kind'' = Some (CText (prop_kind p)) \<and> field m ''object'' = Some (opt_text_to_cbor (prop_object p))
    \<and> field m ''predicate'' = Some (CText (prop_predicate p)) \<and> field m ''subject'' = Some (CText (prop_subject p))
    \<and> field m ''v'' = Some (CUint (ucast (prop_v p)))"
    unfolding CMap proposition_to_cbor_def
    by (subst canon_map_eq_iff [OF canon, of _ PROP_FIELDS]) (simp_all add: field_def PROP_FIELDS_def)
  show ?thesis
    unfolding eq unfolding CMap cbor_to_proposition_def proposition_ok_def
    by (cases p) (auto simp: result_iff canon_map_len [OF canon]
       metadata_Inr [OF canon_field [OF canon]])
qed (auto simp: cbor_to_proposition_def proposition_to_cbor_def as_map_def sort_maps_CMap)


lemma attestation_parse_iff:
  assumes "canon_form l d v"
  shows "cbor_to_attestation v l = Inr a \<longleftrightarrow> attestation_ok a \<and> v = sort_maps (attestation_to_cbor a)"
proof (cases v)
  case (CMap m)
  note canon = assms [unfolded CMap]
  have eq: "v = sort_maps (attestation_to_cbor a) \<longleftrightarrow>
    (\<forall>(k, v) \<in> set m. k \<in> CText ` set ATT_FIELDS)
    \<and> field m ''claim'' = Some (sort_maps (claim_to_cbor (att_claim a)))
    \<and> field m ''evidence_ref'' = Some (opt_text_to_cbor (att_evidence_ref a))
    \<and> field m ''expires_at'' = Some (opt_uint_to_cbor (att_expires_at a))
    \<and> field m ''issued_at'' = Some (CUint (att_issued_at a)) \<and> field m ''issuer'' = Some (CText (att_issuer a))
    \<and> field m ''subject'' = Some (CText (att_subject a)) \<and> field m ''v'' = Some (CUint (ucast (att_v a)))"
    unfolding CMap attestation_to_cbor_def
    by (subst canon_map_eq_iff [OF canon, of _ ATT_FIELDS]) (simp_all add: field_def ATT_FIELDS_def)
  have expiry: "\<not> (case x of Some e \<Rightarrow> e < i | None \<Rightarrow> False) \<longleftrightarrow> pred_option (\<lambda>e. i \<le> e) x" for x and i :: u64
    by (auto simp: not_less split: option.splits)
  show ?thesis
    unfolding eq unfolding CMap cbor_to_attestation_def attestation_ok_def ref_ok_def
    by (cases a) (auto simp: result_iff canon_map_len [OF canon] expiry claim_parse_iff [OF canon_field [OF canon]])
qed (auto simp: cbor_to_attestation_def attestation_to_cbor_def as_map_def sort_maps_CMap)

section \<open>The proof package\<close>

definition entry_ok :: "limits \<Rightarrow> stored_attestation \<Rightarrow> bool" where
  "entry_ok l a \<longleftrightarrow> attestation_ok (sa_content a) \<and> sa_sign1 a \<noteq> [] \<and> length (sa_sign1 a) \<le> max_proof_size l"

definition vocabulary_ok :: "vocabulary_decl \<Rightarrow> bool" where
  "vocabulary_ok v \<longleftrightarrow> voc_ns v \<noteq> [] \<and> length (voc_ns v) \<le> 128 \<and> CHR '':'' \<notin> set (voc_ns v)
     \<and> \<not> contains_whitespace (voc_ns v)"

definition refs_ok :: "base64_engine \<Rightarrow> limits \<Rightarrow> string list \<Rightarrow> bool" where
  "refs_ok b64 l refs \<longleftrightarrow> length refs \<le> max_referenced_proofs l \<and> sorted_wrt (<) refs
     \<and> (\<forall>r \<in> set refs. check_proof_ref_shape b64 r = Inr ())"

definition vocabularies_ok :: "limits \<Rightarrow> vocabulary_decl list \<Rightarrow> bool" where
  "vocabularies_ok l vs \<longleftrightarrow> length vs \<le> max_vocabularies l \<and> sorted_wrt (<) (map voc_ns vs)
     \<and> (\<forall>v \<in> set vs. vocabulary_ok v)"

definition proof_ok :: "base64_engine \<Rightarrow> limits \<Rightarrow> proof_package \<Rightarrow> bool" where
  "proof_ok b64 l p \<longleftrightarrow> prf_v p = 1 \<and> text_ok (prf_id p) \<and> starts_with (prf_id p) ''prf:v1:''
     \<and> proposition_ok (prf_proposition p) \<and> (\<forall>e \<in> set (prf_events p). event_ok e)
     \<and> (\<forall>a \<in> set (prf_attestations p). entry_ok l a) \<and> (\<forall>e \<in> set (prf_evidence p). evidence_ok e)
     \<and> (\<forall>r \<in> set (prf_relationships p). relationship_ok r)
     \<and> refs_ok b64 l (prf_referenced_proofs p) \<and> vocabularies_ok l (prf_vocabularies p)
     \<and> length (prf_relationships p) \<le> max_edges l
     \<and> length (prf_events p) + length (prf_attestations p) + length (prf_evidence p) \<le> max_nodes l"

lemma case_cbor_Inr [result_iff]:
  "(case v of CBytes b \<Rightarrow> f b | _ \<Rightarrow> Inl e) = Inr y \<longleftrightarrow> (\<exists>b. v = CBytes b \<and> f b = Inr y)"
  "(case v of CArray a \<Rightarrow> g a | _ \<Rightarrow> Inl e) = Inr z \<longleftrightarrow> (\<exists>a. v = CArray a \<and> g a = Inr z)"
  "(case v of CText s \<Rightarrow> h s | _ \<Rightarrow> Inl e) = Inr w \<longleftrightarrow> (\<exists>s. v = CText s \<and> h s = Inr w)"
  by (cases v; simp)+

lemma entry_parse_iff:
  assumes "canon_form l d v"
  shows "cbor_to_attestation_entry v l = Inr a \<longleftrightarrow> entry_ok l a \<and> v = sort_maps (attestation_entry_to_cbor a)"
proof (cases v)
  case (CMap m)
  note canon = assms [unfolded CMap]
  have eq: "v = sort_maps (attestation_entry_to_cbor a) \<longleftrightarrow>
    (\<forall>(k, v) \<in> set m. k \<in> CText ` set [''content'', ''sign1''])
    \<and> field m ''content'' = Some (sort_maps (attestation_to_cbor (sa_content a)))
    \<and> field m ''sign1'' = Some (CBytes (sa_sign1 a))"
    unfolding CMap attestation_entry_to_cbor_def
    by (subst canon_map_eq_iff [OF canon, of _ "[''content'', ''sign1'']"]) (simp_all add: field_def)
  show ?thesis
    unfolding eq unfolding CMap cbor_to_attestation_entry_def entry_ok_def
    by (cases a) (auto simp: result_iff attestation_parse_iff [OF canon_field [OF canon]])
qed (auto simp: cbor_to_attestation_entry_def attestation_entry_to_cbor_def as_map_def sort_maps_CMap)

lemma vocabulary_parse_iff:
  assumes "canon_form l d v"
  shows "cbor_to_vocabulary v = Inr a \<longleftrightarrow> vocabulary_ok a \<and> v = sort_maps (vocabulary_to_cbor a)"
proof (cases v)
  case (CMap m)
  note canon = assms [unfolded CMap]
  have eq: "v = sort_maps (vocabulary_to_cbor a) \<longleftrightarrow>
    (\<forall>(k, v) \<in> set m. k \<in> CText ` set [''ns'', ''version''])
    \<and> field m ''ns'' = Some (CText (voc_ns a)) \<and> field m ''version'' = Some (CUint (voc_version a))"
    unfolding CMap vocabulary_to_cbor_def
    by (subst canon_map_eq_iff [OF canon, of _ "[''ns'', ''version'']"]) (simp_all add: field_def)
  show ?thesis
    unfolding eq unfolding CMap cbor_to_vocabulary_def vocabulary_ok_def
    by (cases a) (auto simp: result_iff text_ok_def)
qed (auto simp: cbor_to_vocabulary_def vocabulary_to_cbor_def as_map_def sort_maps_CMap)

lemma mapR_iff_map:
  "(\<And>x y. x \<in> set xs \<Longrightarrow> f x = Inr y \<longleftrightarrow> P y \<and> x = g y) \<Longrightarrow>
   mapR f xs = Inr ys \<longleftrightarrow> (\<forall>y \<in> set ys. P y) \<and> xs = map g ys"
proof (induction xs arbitrary: ys)
  case (Cons x xs)
  then have "mapR f xs = Inr zs \<longleftrightarrow> (\<forall>y \<in> set zs. P y) \<and> xs = map g zs" for zs by simp
  then show ?case using Cons.prems [of x] by (cases ys) (auto simp: result_iff)
qed auto

lemma cbor_array_Inr [result_iff]: "cbor_array m k = Inr xs \<longleftrightarrow> field m k = Some (CArray xs)"
  by (simp add: cbor_array_def result_iff)

lemma array_parse_iff:
  assumes canon: "canon_form l d (CMap m)"
    and item: "\<And>d x y. canon_form l d x \<Longrightarrow> f x = Inr y \<longleftrightarrow> P y \<and> x = sort_maps (g y)"
  shows "parse_array f m k = Inr ys \<longleftrightarrow>
    (\<forall>y \<in> set ys. P y) \<and> field m k = Some (sort_maps (CArray (map g ys)))"
proof -
  have "mapR f xs = Inr ys \<longleftrightarrow> (\<forall>y \<in> set ys. P y) \<and> xs = map (\<lambda>y. sort_maps (g y)) ys"
    if "field m k = Some (CArray xs)" for xs
    using canon_field [OF canon that] item by (intro mapR_iff_map) auto
  then show ?thesis by (auto simp: parse_array_def result_iff comp_def)
qed

lemma refs_parse_iff:
  "cbor_to_referenced_proofs b64 m l = Inr refs \<longleftrightarrow>
     refs_ok b64 l refs \<and> field m ''referenced_proofs'' \<in> (if refs = [] then {None, Some (CArray [])} else {Some (CArray (map CText refs))})"
proof -
  have item: "(case x of CText s \<Rightarrow> bindR (check_proof_ref_shape b64 s) (\<lambda>_. Inr s) | _ \<Rightarrow> Inl SchemaViolation) = Inr y
      \<longleftrightarrow> check_proof_ref_shape b64 y = Inr () \<and> x = CText y" for x y
    by (cases x) (auto simp: result_iff)
  have srt: "length (remdups_adj (sort refs)) \<noteq> length refs \<or> remdups_adj (sort refs) \<noteq> refs \<longleftrightarrow> \<not> sorted_wrt (<) refs"
    for refs :: "string list" using remdups_adj_sort_eq_iff [of refs] by auto
  have "mapR (\<lambda>x. case x of CText s \<Rightarrow> bindR (check_proof_ref_shape b64 s) (\<lambda>_. Inr s) | _ \<Rightarrow> Inl SchemaViolation) xs = Inr ys
      \<longleftrightarrow> (\<forall>y \<in> set ys. check_proof_ref_shape b64 y = Inr ()) \<and> xs = map CText ys" for xs ys
    by (rule mapR_iff_map) (rule item)
  then show ?thesis
    unfolding cbor_to_referenced_proofs_def refs_ok_def Let_def srt
    by (auto simp: result_iff split: option.splits cbor_value.splits)
qed

lemma vocabularies_parse_iff:
  assumes canon: "canon_form l d (CMap m)"
  shows "cbor_to_vocabularies m l = Inr vs \<longleftrightarrow>
     vocabularies_ok l vs \<and> field m ''vocabularies'' \<in>
       (if vs = [] then {None, Some (CArray [])} else {Some (sort_maps (CArray (map vocabulary_to_cbor vs)))})"
proof -
  have "remdups_adj (map voc_ns (sort_key voc_ns vs)) = remdups_adj (sort (map voc_ns vs))"
    for vs :: "vocabulary_decl list"
    using map_sort_key [of voc_ns "\<lambda>x. x" vs] by (simp add: comp_def)
  then have srt: "length (remdups_adj (map voc_ns (sort_key voc_ns vs))) \<noteq> length vs
      \<or> remdups_adj (map voc_ns (sort_key voc_ns vs)) \<noteq> map voc_ns vs \<longleftrightarrow> \<not> sorted_wrt (<) (map voc_ns vs)"
    for vs :: "vocabulary_decl list"
    using remdups_adj_sort_eq_iff [of "map voc_ns vs"] by auto
  have "mapR cbor_to_vocabulary xs = Inr ys \<longleftrightarrow>
      (\<forall>y \<in> set ys. vocabulary_ok y) \<and> xs = map (\<lambda>y. sort_maps (vocabulary_to_cbor y)) ys"
    if "field m ''vocabularies'' = Some (CArray xs)" for xs ys
    using canon_field [OF canon that] vocabulary_parse_iff by (intro mapR_iff_map) auto
  then show ?thesis
    unfolding cbor_to_vocabularies_def vocabularies_ok_def Let_def srt
    by (auto simp: result_iff comp_def split: option.splits cbor_value.splits)
qed


lemma proof_to_cbor_eq:
  assumes "\<forall>e \<in> set (prf_events p). event_ok e"
  shows "proof_to_cbor p = Inr (CMap ([
       (CText ''attestations'', CArray (map attestation_entry_to_cbor (prf_attestations p))),
       (CText ''created_at'', CUint (prf_created_at p)),
       (CText ''events'', CArray (map event_map (prf_events p))),
       (CText ''evidence'', CArray (map evidence_to_cbor (prf_evidence p))),
       (CText ''proof_id'', CText (prf_id p)),
       (CText ''proposition'', proposition_to_cbor (prf_proposition p)),
       (CText ''relationships'', CArray (map relationship_to_cbor (prf_relationships p))),
       (CText ''v'', CUint 1)]
       @ (if prf_referenced_proofs p = [] then []
          else [(CText ''referenced_proofs'', CArray (map CText (prf_referenced_proofs p)))])
       @ (if prf_vocabularies p = [] then []
          else [(CText ''vocabularies'', CArray (map vocabulary_to_cbor (prf_vocabularies p)))])))"
proof -
  have "mapR event_to_cbor (map id (prf_events p)) = Inr (map event_map (prf_events p))"
    using assms by (intro mapR_map_Inr) (simp add: event_to_cbor_def event_ok_def)
  then show ?thesis by (simp add: proof_to_cbor_def)
qed

text \<open>The fields that \<^verbatim>\<open>cbor_to_proof\<close> reads, by the values \<^verbatim>\<open>proof_to_cbor\<close> writes in them.\<close>

definition proof_fields :: "cbor_map \<Rightarrow> proof_package \<Rightarrow> bool" where
  "proof_fields m p \<longleftrightarrow>
     (\<forall>(k, v) \<in> set m. k \<in> CText ` set PROOF_FIELDS)
     \<and> field m ''attestations'' = Some (sort_maps (CArray (map attestation_entry_to_cbor (prf_attestations p))))
     \<and> field m ''created_at'' = Some (CUint (prf_created_at p))
     \<and> field m ''events'' = Some (sort_maps (CArray (map event_map (prf_events p))))
     \<and> field m ''evidence'' = Some (sort_maps (CArray (map evidence_to_cbor (prf_evidence p))))
     \<and> field m ''proof_id'' = Some (CText (prf_id p))
     \<and> field m ''proposition'' = Some (sort_maps (proposition_to_cbor (prf_proposition p)))
     \<and> field m ''relationships'' = Some (sort_maps (CArray (map relationship_to_cbor (prf_relationships p))))
     \<and> field m ''v'' = Some (CUint 1)"

lemma proof_parse_fields:
  assumes canon: "canon_form l d (CMap m)"
  shows "cbor_to_proof b64 (CMap m) l = Inr p \<longleftrightarrow> proof_ok b64 l p \<and> proof_fields m p
    \<and> field m ''referenced_proofs'' \<in> (if prf_referenced_proofs p = [] then {None, Some (CArray [])}
         else {Some (CArray (map CText (prf_referenced_proofs p)))})
    \<and> field m ''vocabularies'' \<in> (if prf_vocabularies p = [] then {None, Some (CArray [])}
         else {Some (sort_maps (CArray (map vocabulary_to_cbor (prf_vocabularies p))))})"
proof -
  have arr:
    "parse_array (\<lambda>item. cbor_to_event item l) m k = Inr es \<longleftrightarrow>
       (\<forall>e \<in> set es. event_ok e) \<and> field m k = Some (sort_maps (CArray (map event_map es)))"
    "parse_array (\<lambda>item. cbor_to_attestation_entry item l) m k = Inr as \<longleftrightarrow>
       (\<forall>a \<in> set as. entry_ok l a) \<and> field m k = Some (sort_maps (CArray (map attestation_entry_to_cbor as)))"
    "parse_array (\<lambda>item. cbor_to_evidence item l) m k = Inr vs \<longleftrightarrow>
       (\<forall>v \<in> set vs. evidence_ok v) \<and> field m k = Some (sort_maps (CArray (map evidence_to_cbor vs)))"
    "parse_array (\<lambda>item. cbor_to_relationship item l) m k = Inr rs \<longleftrightarrow>
       (\<forall>r \<in> set rs. relationship_ok r) \<and> field m k = Some (sort_maps (CArray (map relationship_to_cbor rs)))"
    for k es as vs rs
    by (rule array_parse_iff [OF canon],
        erule event_parse_iff entry_parse_iff evidence_parse_iff relationship_parse_iff)+
  show ?thesis
    unfolding cbor_to_proof_def proof_ok_def proof_fields_def
    by (cases p) (auto simp: result_iff arr refs_parse_iff vocabularies_parse_iff [OF canon]
       proposition_parse_iff [OF canon_field [OF canon]] not_less simp del: sort_maps.simps)
qed


lemma field_None: "field m k = None \<longleftrightarrow> (\<forall>(k', v) \<in> set m. k' \<noteq> CText k)"
  by (force simp: field_def map_of_eq_None_iff)

lemma proof_keys:
  fixes p :: proof_package
  defines "base \<equiv> [''attestations'', ''created_at'', ''events'', ''evidence'', ''proof_id'', ''proposition'',
      ''relationships'', ''v''] @ (if prf_referenced_proofs p = [] then [] else [''referenced_proofs''])
      @ (if prf_vocabularies p = [] then [] else [''vocabularies''])"
  shows "(\<forall>(k, v) \<in> set m. k \<in> CText ` set base) \<longleftrightarrow>
      (\<forall>(k, v) \<in> set m. k \<in> CText ` set PROOF_FIELDS)
      \<and> (prf_referenced_proofs p = [] \<longrightarrow> field m ''referenced_proofs'' = None)
      \<and> (prf_vocabularies p = [] \<longrightarrow> field m ''vocabularies'' = None)"
proof -
  have ks: "set base = set PROOF_FIELDS
      - (if prf_referenced_proofs p = [] then {''referenced_proofs''} else {})
      - (if prf_vocabularies p = [] then {''vocabularies''} else {})"
    unfolding PROOF_FIELDS_def base_def
    by (cases "prf_referenced_proofs p = []"; cases "prf_vocabularies p = []") (simp_all add: insert_Diff_if insert_commute)
  have mem: "k \<in> CText ` set base \<longleftrightarrow> k \<in> CText ` set PROOF_FIELDS
      \<and> (prf_referenced_proofs p = [] \<longrightarrow> k \<noteq> CText ''referenced_proofs'')
      \<and> (prf_vocabularies p = [] \<longrightarrow> k \<noteq> CText ''vocabularies'')" for k
    unfolding ks by (auto split: if_splits)
  show ?thesis unfolding field_None case_prod_unfold mem by blast
qed

lemma proof_write_fields:
  assumes canon: "canon_form l d (CMap m)" and ok: "\<forall>e \<in> set (prf_events p). event_ok e"
  shows "(\<exists>w. proof_to_cbor p = Inr w \<and> CMap m = sort_maps w) \<longleftrightarrow> proof_fields m p
    \<and> field m ''referenced_proofs'' = (if prf_referenced_proofs p = [] then None
         else Some (CArray (map CText (prf_referenced_proofs p))))
    \<and> field m ''vocabularies'' = (if prf_vocabularies p = [] then None
         else Some (sort_maps (CArray (map vocabulary_to_cbor (prf_vocabularies p)))))"
proof -
  let ?base = "[''attestations'', ''created_at'', ''events'', ''evidence'', ''proof_id'', ''proposition'',
      ''relationships'', ''v'']"
  let ?r = "if prf_referenced_proofs p = [] then [] else [''referenced_proofs'']"
  let ?v = "if prf_vocabularies p = [] then [] else [''vocabularies'']"
  let ?ps = "[(CText ''attestations'', CArray (map attestation_entry_to_cbor (prf_attestations p))),
       (CText ''created_at'', CUint (prf_created_at p)),
       (CText ''events'', CArray (map event_map (prf_events p))),
       (CText ''evidence'', CArray (map evidence_to_cbor (prf_evidence p))),
       (CText ''proof_id'', CText (prf_id p)),
       (CText ''proposition'', proposition_to_cbor (prf_proposition p)),
       (CText ''relationships'', CArray (map relationship_to_cbor (prf_relationships p))),
       (CText ''v'', CUint 1)]
       @ (if prf_referenced_proofs p = [] then []
          else [(CText ''referenced_proofs'', CArray (map CText (prf_referenced_proofs p)))])
       @ (if prf_vocabularies p = [] then []
          else [(CText ''vocabularies'', CArray (map vocabulary_to_cbor (prf_vocabularies p)))])"
  have "CMap m = sort_maps (CMap ?ps) \<longleftrightarrow>
    (\<forall>(k, v) \<in> set m. k \<in> CText ` set (?base @ ?r @ ?v)) \<and> (\<forall>(k, v) \<in> set (entries ?ps). map_of m k = Some v)"
    by (rule canon_map_eq_iff [OF canon]) simp_all
  also have "(\<forall>(k, v) \<in> set (entries ?ps). map_of m k = Some v) \<longleftrightarrow>
     (\<forall>(k, v) \<in> set (entries (take 8 ?ps)). map_of m k = Some v)
     \<and> (prf_referenced_proofs p \<noteq> [] \<longrightarrow> field m ''referenced_proofs'' = Some (CArray (map CText (prf_referenced_proofs p))))
     \<and> (prf_vocabularies p \<noteq> [] \<longrightarrow>
          field m ''vocabularies'' = Some (sort_maps (CArray (map vocabulary_to_cbor (prf_vocabularies p)))))"
    by (simp add: field_def comp_def) blast
  finally show ?thesis
    unfolding proof_to_cbor_eq [OF ok] proof_fields_def proof_keys
    by (simp add: field_def) blast
qed

section \<open>Schemas over the codec\<close>

interpretation event_schema: record_schema encode_canonical "\<lambda>bs. decode_strict bs l" "canon_form l 0"
    "\<lambda>bs. length bs \<le> max_proof_size l" sort_maps event_map "\<lambda>v. cbor_to_event v l" event_ok for l
  by unfold_locales (simp_all add: encode_canonical_def event_parse_iff)

interpretation attestation_schema: record_schema encode_canonical "\<lambda>bs. decode_strict bs l" "canon_form l 0"
    "\<lambda>bs. length bs \<le> max_proof_size l" sort_maps attestation_to_cbor "\<lambda>v. cbor_to_attestation v l" attestation_ok for l
  by unfold_locales (simp_all add: encode_canonical_def attestation_parse_iff)

interpretation evidence_schema: record_schema encode_canonical "\<lambda>bs. decode_strict bs l" "canon_form l 0"
    "\<lambda>bs. length bs \<le> max_proof_size l" sort_maps evidence_to_cbor "\<lambda>v. cbor_to_evidence v l" evidence_ok for l
  by unfold_locales (simp_all add: encode_canonical_def evidence_parse_iff)

interpretation relationship_schema: record_schema encode_canonical "\<lambda>bs. decode_strict bs l" "canon_form l 0"
    "\<lambda>bs. length bs \<le> max_proof_size l" sort_maps relationship_to_cbor "\<lambda>v. cbor_to_relationship v l" relationship_ok for l
  by unfold_locales (simp_all add: encode_canonical_def relationship_parse_iff)

interpretation proposition_schema: record_schema encode_canonical "\<lambda>bs. decode_strict bs l" "canon_form l 0"
    "\<lambda>bs. length bs \<le> max_proof_size l" sort_maps proposition_to_cbor "\<lambda>v. cbor_to_proposition v l" proposition_ok for l
  by unfold_locales (simp_all add: encode_canonical_def proposition_parse_iff)

text \<open>A spelled-out empty list of referenced proofs reads like the absent key.\<close>

lemma eachR_skip: "f x = Inr () \<Longrightarrow> eachR f (xs @ x # ys) = eachR f (xs @ ys)"
  by (induction xs) auto

lemma empty_linkage_parses:
  assumes "canon_form l d (CMap (m1 @ (CText ''referenced_proofs'', CArray []) # m2))"
  shows "cbor_to_proof b64 (CMap (m1 @ (CText ''referenced_proofs'', CArray []) # m2)) l
           = cbor_to_proof b64 (CMap (m1 @ m2)) l"
proof -
  let ?m' = "m1 @ (CText ''referenced_proofs'', CArray []) # m2"
  have absent: "CText ''referenced_proofs'' \<notin> fst ` set (m1 @ m2)"
    using canon_map_distinct [OF assms] by auto
  have same: "field ?m' k = field (m1 @ m2) k" if "k \<noteq> ''referenced_proofs''" for k
    using that by (simp add: field_def map_of_append map_add_def split: option.split)
  have refs: "field ?m' ''referenced_proofs'' = Some (CArray [])" "field (m1 @ m2) ''referenced_proofs'' = None"
    using absent by (auto simp: field_def map_of_append map_add_def map_of_eq_None_iff split: option.splits
        dest: map_of_SomeD in_fst)
  have closed: "check_closed ?m' PROOF_FIELDS = check_closed (m1 @ m2) PROOF_FIELDS"
    unfolding check_closed_def by (rule eachR_skip) (simp add: PROOF_FIELDS_def)
  have "cbor_to_referenced_proofs b64 ?m' l = cbor_to_referenced_proofs b64 (m1 @ m2) l"
    by (simp add: cbor_to_referenced_proofs_def refs)
  then show ?thesis
    unfolding cbor_to_proof_def as_map_def
    by (simp add: closed same text_field_def check_version_def uint_field_def required_def parse_array_def
        cbor_array_def cbor_to_vocabularies_def cong: if_cong)
qed

text \<open>A sample package with no members, for the concrete instances below.\<close>

definition sample_b64 :: base64_engine where
  "sample_b64 = \<lparr>b64_encode = (\<lambda>_. []), b64_decode = (\<lambda>_. None)\<rparr>"

definition sample_proof_map :: cbor_map where
  "sample_proof_map = [
     (CText ''v'', CUint 1), (CText ''events'', CArray []), (CText ''evidence'', CArray []),
     (CText ''proof_id'', CText ''prf:v1:x''), (CText ''created_at'', CUint 5),
     (CText ''proposition'', CMap [
        (CText ''v'', CUint 1), (CText ''kind'', CText ''k''), (CText ''object'', CNull),
        (CText ''at_time'', CNull), (CText ''context'', CMap []), (CText ''subject'', CText ''s''),
        (CText ''predicate'', CText ''p'')]),
     (CText ''attestations'', CArray []), (CText ''relationships'', CArray [])]"

definition sample_proof :: proof_package where
  "sample_proof = \<lparr>prf_v = 1, prf_id = ''prf:v1:x'',
     prf_proposition = \<lparr>prop_v = 1, prop_kind = ''k'', prop_subject = ''s'', prop_predicate = ''p'',
        prop_object = None, prop_at_time = None, prop_context = []\<rparr>,
     prf_events = [], prf_attestations = [], prf_evidence = [], prf_relationships = [],
     prf_referenced_proofs = [], prf_vocabularies = [], prf_created_at = 5\<rparr>"

lemma sample_canon: "canon_form default_limits 0 (CMap sample_proof_map)"
  "canon_form default_limits 0 (CMap (sample_proof_map @ [(CText ''referenced_proofs'', CArray [])]))"
  by (simp_all add: sample_proof_map_def default_limits_def encode_eval)

lemmas schema_eval = as_map_def check_closed_def check_version_def text_field_def uint_field_def opt_text_or_nil_def
  opt_uint_or_nil_def required_def field_def metadata_from_cbor_def parse_array_def cbor_array_def starts_with_def

lemma sample_parses: "cbor_to_proof sample_b64 (CMap sample_proof_map) default_limits = Inr sample_proof"
  by (simp add: cbor_to_proof_def cbor_to_proposition_def cbor_to_referenced_proofs_def cbor_to_vocabularies_def
      sample_proof_map_def sample_proof_def default_limits_def PROOF_FIELDS_def PROP_FIELDS_def schema_eval)

section \<open>Properties\<close>

text \<open>
  Reading an event from bytes: strict decoding followed by the closed schema returns the
  event \<open>e\<close> exactly when \<open>e\<close> is admissible (version 1, bounded texts, full-length digest, at most
  16 sorted metadata entries), its encoding is within the limits, and the bytes are that
  encoding. Every accepted event therefore re-encodes to the bytes it came from.
\<close>

theorem event_bytes_iff:
  "bindR (decode_strict bs l) (\<lambda>v. cbor_to_event v l) = Inr e \<longleftrightarrow>
     event_ok e \<and> canon_form l 0 (sort_maps (event_map e)) \<and> length bs \<le> max_proof_size l
     \<and> event_to_cbor e = Inr (event_map e) \<and> encode_canonical (event_map e) = bs"
  by (auto simp: event_schema.read_iff event_to_cbor_def event_ok_def)

text \<open>
  Reading an attestation from bytes succeeds exactly on the canonical encoding of an admissible
  attestation: in particular the expiry is not before the issue time, the claim has a type
  and at most 15 further fields, and an evidence reference names an evidence id.
\<close>

theorem attestation_bytes_iff:
  "bindR (decode_strict bs l) (\<lambda>v. cbor_to_attestation v l) = Inr a \<longleftrightarrow>
     attestation_ok a \<and> canon_form l 0 (sort_maps (attestation_to_cbor a)) \<and> length bs \<le> max_proof_size l
     \<and> encode_canonical (attestation_to_cbor a) = bs"
  by (rule attestation_schema.read_iff)

text \<open>
  Evidence, relationships and propositions are read from bytes with the same guarantee: a
  record is returned exactly when it is admissible and the bytes are its canonical encoding.
\<close>

theorem member_bytes_iff:
  "(bindR (decode_strict bs l) (\<lambda>v. cbor_to_evidence v l) = Inr e \<longleftrightarrow>
     evidence_ok e \<and> canon_form l 0 (sort_maps (evidence_to_cbor e)) \<and> length bs \<le> max_proof_size l
     \<and> encode_canonical (evidence_to_cbor e) = bs)
   \<and> (bindR (decode_strict bs l) (\<lambda>v. cbor_to_relationship v l) = Inr r \<longleftrightarrow>
     relationship_ok r \<and> canon_form l 0 (sort_maps (relationship_to_cbor r)) \<and> length bs \<le> max_proof_size l
     \<and> encode_canonical (relationship_to_cbor r) = bs)
   \<and> (bindR (decode_strict bs l) (\<lambda>v. cbor_to_proposition v l) = Inr p \<longleftrightarrow>
     proposition_ok p \<and> canon_form l 0 (sort_maps (proposition_to_cbor p)) \<and> length bs \<le> max_proof_size l
     \<and> encode_canonical (proposition_to_cbor p) = bs)"
  by (intro conjI evidence_schema.read_iff relationship_schema.read_iff proposition_schema.read_iff)

text \<open>
  C19. A proof package parses from a canonical value exactly when it is admissible and the
  value is its own encoding with sorted maps, provided the value does not spell out an
  empty list for one of the two optional keys.
\<close>

theorem proof_parse_iff:
  assumes "canon_form l d (CMap m)"
    and "field m ''referenced_proofs'' \<noteq> Some (CArray [])" "field m ''vocabularies'' \<noteq> Some (CArray [])"
  shows "cbor_to_proof b64 (CMap m) l = Inr p \<longleftrightarrow>
    proof_ok b64 l p \<and> (\<exists>w. proof_to_cbor p = Inr w \<and> CMap m = sort_maps w)"
  using proof_parse_fields [OF assms(1), of b64 p] proof_write_fields [OF assms(1), of p] assms(2,3)
  by (auto simp: proof_ok_def split: if_splits)

theorem proof_parse_iff_witness:
  "proof_ok sample_b64 default_limits sample_proof
   \<and> (\<exists>w. proof_to_cbor sample_proof = Inr w \<and> CMap sample_proof_map = sort_maps w)"
proof -
  have "field sample_proof_map ''referenced_proofs'' \<noteq> Some (CArray [])"
    "field sample_proof_map ''vocabularies'' \<noteq> Some (CArray [])"
    by (simp_all add: sample_proof_map_def field_def)
  from proof_parse_iff [OF sample_canon(1) this] sample_parses show ?thesis by blast
qed

text \<open>
  The two optional keys are not canonical: a value that spells out an empty list of
  referenced proofs parses to the same package as the value without the key, although the
  two have different encodings, so the bytes of a package are not determined by its contents.
\<close>

theorem empty_linkage_not_canonical:
  assumes "canon_form l d (CMap (m1 @ m2))" "canon_form l d (CMap (m1 @ (CText ''referenced_proofs'', CArray []) # m2))"
  shows "cbor_to_proof b64 (CMap (m1 @ (CText ''referenced_proofs'', CArray []) # m2)) l
           = cbor_to_proof b64 (CMap (m1 @ m2)) l
       \<and> encode_canonical (CMap (m1 @ (CText ''referenced_proofs'', CArray []) # m2)) \<noteq> encode_canonical (CMap (m1 @ m2))"
  using empty_linkage_parses [OF assms(2), of b64] canon_form_encode_inj [OF assms(2,1)]
  by (auto simp: encode_canonical_def dest: arg_cong [of _ _ length])

theorem empty_linkage_not_canonical_witness:
  "cbor_to_proof sample_b64 (CMap (sample_proof_map @ [(CText ''referenced_proofs'', CArray [])])) default_limits
     = Inr sample_proof"
  using empty_linkage_not_canonical [of default_limits 0 sample_proof_map "[]" sample_b64] sample_canon sample_parses
  by simp

end
