(* ===== verification/Ids.thy ===== *)
theory Ids
  imports Schema
begin

text \<open>
  Content-addressed identifiers and reserved claims: \<^verbatim>\<open>proof-crypto/src/id.rs\<close>, \<^verbatim>\<open>hash.rs\<close> and
  \<^verbatim>\<open>claim.rs\<close>. SHA-256, SHA-384 and base64 are third-party crates: the two hash functions
  are the record \<open>hash_engine\<close>, base64 the record \<open>base64_engine\<close> of the schemas. What the code
  relies on is \<open>b64_law\<close> (decoding inverts encoding) and \<open>sha256_law\<close> (32 bytes). No
  injectivity of the hash is assumed: where two inputs would have to agree, the theorems
  name the collision as the alternative.
\<close>

section \<open>Digests\<close>

record hash_engine =
  sha256 :: "bytes \<Rightarrow> bytes"
  sha384 :: "bytes \<Rightarrow> bytes"

definition b64_law :: "base64_engine \<Rightarrow> bool" where
  "b64_law b64 \<longleftrightarrow> (\<forall>bs. b64_decode b64 (b64_encode b64 bs) = Some bs)"

definition sha256_law :: "hash_engine \<Rightarrow> bool" where
  "sha256_law h \<longleftrightarrow> (\<forall>bs. length (sha256 h bs) = 32)"

definition compute_digest :: "hash_engine \<Rightarrow> bytes \<Rightarrow> u64 \<Rightarrow> bytes result" where
  "compute_digest h content alg =
     (if alg = 0 then Inr (sha256 h content)
      else if alg = 1 then Inr (sha384 h content)
      else Inl UnknownAlgorithm)"

definition verify_content_digest :: "hash_engine \<Rightarrow> bytes \<Rightarrow> u64 \<Rightarrow> bytes \<Rightarrow> unit result" where
  "verify_content_digest h content alg expected =
     (if alg = 0 then (if sha256 h content \<noteq> expected then Inl IdMismatch else Inr ())
      else if alg = 1 then (if sha384 h content \<noteq> expected then Inl IdMismatch else Inr ())
      else Inl UnknownAlgorithm)"

section \<open>Identifiers\<close>

definition b64u_nopad :: "base64_engine \<Rightarrow> bytes \<Rightarrow> string" where
  "b64u_nopad b64 bs = b64_encode b64 bs"

definition b64u_decode :: "base64_engine \<Rightarrow> string \<Rightarrow> bytes result" where
  "b64u_decode b64 s = ok_or (b64_decode b64 s) InvalidBase64Url"

definition id_with :: "base64_engine \<Rightarrow> hash_engine \<Rightarrow> string \<Rightarrow> bytes \<Rightarrow> string" where
  "id_with b64 h prefix canonical = prefix @ '':v1:'' @ b64u_nopad b64 (sha256 h canonical)"

definition event_id :: "base64_engine \<Rightarrow> hash_engine \<Rightarrow> bytes \<Rightarrow> string" where
  "event_id b64 h = id_with b64 h ''evt''"

definition attestation_id :: "base64_engine \<Rightarrow> hash_engine \<Rightarrow> bytes \<Rightarrow> string" where
  "attestation_id b64 h = id_with b64 h ''att''"

definition evidence_id :: "base64_engine \<Rightarrow> hash_engine \<Rightarrow> bytes \<Rightarrow> string" where
  "evidence_id b64 h = id_with b64 h ''evd''"

definition relationship_id :: "base64_engine \<Rightarrow> hash_engine \<Rightarrow> bytes \<Rightarrow> string" where
  "relationship_id b64 h = id_with b64 h ''rel''"

text \<open>The binding map of a proof id, the inner \<^verbatim>\<open>fn sorted\<close> included.\<close>

definition sorted_ids :: "string list \<Rightarrow> cbor_value" where
  "sorted_ids ids = CArray (map CText (sort ids))"

definition proof_binding ::
  "cbor_value \<Rightarrow> u64 \<Rightarrow> string list \<Rightarrow> string list \<Rightarrow> string list \<Rightarrow> string list \<Rightarrow> string list \<Rightarrow>
   (string \<times> u64) list \<Rightarrow> cbor_value" where
  "proof_binding prop created_at event_ids attestation_ids evidence_ids relationship_ids refs vocabularies =
     CMap ([
       (CText ''attestations'', sorted_ids attestation_ids),
       (CText ''created_at'', CUint created_at),
       (CText ''events'', sorted_ids event_ids),
       (CText ''evidence'', sorted_ids evidence_ids),
       (CText ''relationships'', sorted_ids relationship_ids),
       (CText ''proposition'', prop),
       (CText ''v'', CUint 1)]
       @ (if refs = [] then [] else [(CText ''referenced_proofs'', sorted_ids refs)])
       @ (if vocabularies = [] then []
          else [(CText ''vocabularies'', CArray (map (\<lambda>(ns, version).
                 CMap [(CText ''ns'', CText ns), (CText ''version'', CUint version)]) (sort_key fst vocabularies)))]))"

definition proof_id_full ::
  "base64_engine \<Rightarrow> hash_engine \<Rightarrow> cbor_value \<Rightarrow> u64 \<Rightarrow> string list \<Rightarrow> string list \<Rightarrow> string list \<Rightarrow>
   string list \<Rightarrow> string list \<Rightarrow> (string \<times> u64) list \<Rightarrow> string" where
  "proof_id_full b64 h prop created_at event_ids attestation_ids evidence_ids relationship_ids refs vocabularies =
     id_with b64 h ''prf'' (encode_canonical
       (proof_binding prop created_at event_ids attestation_ids evidence_ids relationship_ids refs vocabularies))"

definition proof_id_with_refs ::
  "base64_engine \<Rightarrow> hash_engine \<Rightarrow> cbor_value \<Rightarrow> u64 \<Rightarrow> string list \<Rightarrow> string list \<Rightarrow> string list \<Rightarrow>
   string list \<Rightarrow> string list \<Rightarrow> string" where
  "proof_id_with_refs b64 h prop created_at event_ids attestation_ids evidence_ids relationship_ids refs =
     proof_id_full b64 h prop created_at event_ids attestation_ids evidence_ids relationship_ids refs []"

definition proof_id ::
  "base64_engine \<Rightarrow> hash_engine \<Rightarrow> cbor_value \<Rightarrow> u64 \<Rightarrow> string list \<Rightarrow> string list \<Rightarrow> string list \<Rightarrow>
   string list \<Rightarrow> string" where
  "proof_id b64 h prop created_at event_ids attestation_ids evidence_ids relationship_ids =
     proof_id_with_refs b64 h prop created_at event_ids attestation_ids evidence_ids relationship_ids []"

definition check_proof_ref_shape_id :: "base64_engine \<Rightarrow> string \<Rightarrow> unit result" where
  "check_proof_ref_shape_id b64 i =
     bindR (ok_or (strip_prefix ''prf:v1:'' i) SchemaViolation) (\<lambda>rest.
     bindR (b64u_decode b64 rest) (\<lambda>raw.
     if b64u_nopad b64 raw \<noteq> rest then Inl SchemaViolation
     else if length raw \<noteq> 32 then Inl SchemaViolation
     else Inr ()))"

definition verify_id :: "base64_engine \<Rightarrow> hash_engine \<Rightarrow> string \<Rightarrow> string \<Rightarrow> bytes \<Rightarrow> unit result" where
  "verify_id b64 h prefix i canonical =
     bindR (ok_or (strip_prefix (prefix @ '':v1:'') i) IdMismatch) (\<lambda>rest.
     bindR (b64u_decode b64 rest) (\<lambda>raw.
     if b64u_nopad b64 raw \<noteq> rest then Inl IdMismatch
     else if length raw \<noteq> 32 then Inl IdMismatch
     else if raw \<noteq> sha256 h canonical then Inl IdMismatch
     else Inr ()))"

section \<open>Reserved claims\<close>

datatype claim_kind = KStatement | KRevoke | KSupersede | KWithdraw | KCompromise

definition CLAIM_DELEGATE :: string where "CLAIM_DELEGATE = ''delegate''"
definition CLAIM_IDENTITY_BIND :: string where "CLAIM_IDENTITY_BIND = ''identity.bind''"
definition CLAIM_TRANSPARENCY_CHECKPOINT :: string where
  "CLAIM_TRANSPARENCY_CHECKPOINT = ''transparency.checkpoint''"
definition CLAIM_FIELD_DENIES :: string where "CLAIM_FIELD_DENIES = ''denies''"
definition CLAIM_FIELD_EVIDENCE_DIGEST :: string where "CLAIM_FIELD_EVIDENCE_DIGEST = ''evidence_digest''"

fun is_status :: "claim_kind \<Rightarrow> bool" where
  "is_status KRevoke = True"
| "is_status KSupersede = True"
| "is_status KWithdraw = True"
| "is_status KCompromise = True"
| "is_status KStatement = False"

definition claim_kind_of :: "attestation_content \<Rightarrow> claim_kind" where
  "claim_kind_of a =
     (let t = claim_type (att_claim a)
      in if t = ''revoke'' then KRevoke
         else if t = ''supersede'' then KSupersede
         else if t = ''withdraw'' then KWithdraw
         else if t = ''compromise'' then KCompromise
         else KStatement)"

text \<open>\<^verbatim>\<open>find_map\<close> over the claim fields: the first entry with the key and the right type.\<close>

fun claim_text_in :: "(string \<times> meta_value) list \<Rightarrow> string \<Rightarrow> string option" where
  "claim_text_in [] key = None"
| "claim_text_in ((k, v) # fs) key =
     (case v of MText s \<Rightarrow> if k = key then Some s else claim_text_in fs key | _ \<Rightarrow> claim_text_in fs key)"

fun claim_uint_in :: "(string \<times> meta_value) list \<Rightarrow> string \<Rightarrow> u64 option" where
  "claim_uint_in [] key = None"
| "claim_uint_in ((k, v) # fs) key =
     (case v of MUint n \<Rightarrow> if k = key then Some n else claim_uint_in fs key | _ \<Rightarrow> claim_uint_in fs key)"

definition claim_text :: "claim \<Rightarrow> string \<Rightarrow> string option" where
  "claim_text c key = claim_text_in (claim_fields c) key"

definition revocation_target :: "attestation_content \<Rightarrow> string result" where
  "revocation_target a =
     (if claim_kind_of a \<noteq> KRevoke then Inl SchemaViolation else
      bindR (ok_or (claim_text (att_claim a) ''target'') SchemaViolation) (\<lambda>t.
      if t = [] then Inl SchemaViolation
      else if \<not> starts_with t ''att:v1:'' then Inl SchemaViolation
      else Inr t))"

definition withdrawal_target :: "attestation_content \<Rightarrow> string result" where
  "withdrawal_target a =
     (if claim_kind_of a \<noteq> KWithdraw then Inl SchemaViolation else
      bindR (ok_or (claim_text (att_claim a) ''target'') SchemaViolation) (\<lambda>t.
      if t = [] then Inl SchemaViolation
      else if \<not> list_ex (starts_with t) [''evt:v'', ''att:v'', ''evd:v'', ''rel:v'', ''prf:v'']
              \<or> CHR '':'' \<notin> set t then Inl SchemaViolation
      else Inr t))"

definition compromise_mark :: "attestation_content \<Rightarrow> (string \<times> u64) result" where
  "compromise_mark a =
     (if claim_kind_of a \<noteq> KCompromise then Inl SchemaViolation else
      bindR (ok_or (claim_text (att_claim a) ''target'') SchemaViolation) (\<lambda>target.
      if target = [] then Inl SchemaViolation
      else if \<not> list_ex (starts_with target) [''key:'', ''att:v'', ''evt:v'', ''evd:v'', ''rel:v'', ''did:'']
      then Inl SchemaViolation
      else bindR (ok_or (claim_uint_in (claim_fields (att_claim a)) ''at_time'') SchemaViolation) (\<lambda>at_time.
      Inr (target, at_time))))"

definition denial_target :: "attestation_content \<Rightarrow> string option" where
  "denial_target a = claim_text (att_claim a) CLAIM_FIELD_DENIES"

definition supersession_pair :: "attestation_content \<Rightarrow> (string \<times> string) result" where
  "supersession_pair a =
     (if claim_kind_of a \<noteq> KSupersede then Inl SchemaViolation else
      bindR (ok_or (claim_text (att_claim a) ''old'') SchemaViolation) (\<lambda>old.
      bindR (ok_or (claim_text (att_claim a) ''new'') SchemaViolation) (\<lambda>new.
      if old = [] \<or> new = [] then Inl SchemaViolation
      else if old = new then Inl SchemaViolation
      else bindR (eachR (\<lambda>v. if \<not> starts_with v ''att:v1:'' then Inl SchemaViolation else Inr ()) [old, new]) (\<lambda>_.
      Inr (old, new)))))"

text \<open>
  \<^verbatim>\<open>evidence_digest_hex\<close>. \<^verbatim>\<open>to_lowercase\<close> is spelled out on the ASCII letters: every other
  character fails the hex-digit test before and after it. The length that the error carries
  for diagnostics is not kept.
\<close>

datatype digest_claim_error = NonText | MalformedDigest

definition lower_ascii :: "char \<Rightarrow> char" where
  "lower_ascii c = (let n = of_char c :: nat in if 65 \<le> n \<and> n \<le> 90 then char_of (n + 32) else c)"

definition is_ascii_hexdigit :: "char \<Rightarrow> bool" where
  "is_ascii_hexdigit c \<longleftrightarrow> c \<in> set ''0123456789abcdefABCDEF''"

definition normalize_hex :: "string \<Rightarrow> string" where
  "normalize_hex s =
     map lower_ascii
       (case strip_prefix ''0x'' s of
          Some r \<Rightarrow> r
        | None \<Rightarrow> (case strip_prefix ''0X'' s of Some r \<Rightarrow> r | None \<Rightarrow> s))"

fun evidence_digest_in :: "(string \<times> meta_value) list \<Rightarrow> (digest_claim_error + string) option" where
  "evidence_digest_in [] = None"
| "evidence_digest_in ((k, v) # fs) =
     (if k \<noteq> CLAIM_FIELD_EVIDENCE_DIGEST then evidence_digest_in fs
      else case v of
        MText s \<Rightarrow>
          (let normalized = normalize_hex s
           in if \<not> ((length normalized = 64 \<or> length normalized = 96) \<and> list_all is_ascii_hexdigit normalized)
              then Some (Inl MalformedDigest) else Some (Inr normalized))
      | _ \<Rightarrow> Some (Inl NonText))"

definition evidence_digest_hex :: "claim \<Rightarrow> (digest_claim_error + string) option" where
  "evidence_digest_hex c = evidence_digest_in (claim_fields c)"

section \<open>Identifier laws\<close>

lemma verify_id_eq:
  assumes "b64_law b64" "sha256_law h"
  shows "verify_id b64 h p i c = Inr () \<longleftrightarrow> i = id_with b64 h p c"
proof -
  have "verify_id b64 h p i c = Inr () \<longleftrightarrow>
      (\<exists>rest. i = p @ '':v1:'' @ rest \<and> b64_decode b64 rest = Some (sha256 h c) \<and> b64_encode b64 (sha256 h c) = rest
        \<and> length (sha256 h c) = 32)"
    by (auto simp: verify_id_def result_iff strip_prefix_eq_Some b64u_decode_def b64u_nopad_def)
  then show ?thesis using assms by (auto simp: b64_law_def sha256_law_def id_with_def b64u_nopad_def)
qed

lemma b64_encode_inject: "b64_law b64 \<Longrightarrow> b64_encode b64 x = b64_encode b64 y \<longleftrightarrow> x = y"
  unfolding b64_law_def by (metis option.inject)

lemma id_with_eq: "b64_law b64 \<Longrightarrow> id_with b64 h p c = id_with b64 h p c' \<longleftrightarrow> sha256 h c = sha256 h c'"
  by (simp add: id_with_def b64u_nopad_def b64_encode_inject)

lemma id_with_prefix: "length p = length q \<Longrightarrow> id_with b64 h p c = id_with b64 h q c' \<Longrightarrow> p = q"
  by (simp add: id_with_def)

text \<open>The entries that the binding map writes; they determine every bound part.\<close>

lemma enc_eq_entries:
  assumes "wf_value l 0 (CMap ps)" "wf_value l 0 (CMap qs)"
  shows "encode_canonical (CMap ps) = encode_canonical (CMap qs) \<longleftrightarrow> sort_maps (CMap ps) = sort_maps (CMap qs)"
  using canon_form_encode_inj [OF canon_form_sort_maps [OF assms(1)] canon_form_sort_maps [OF assms(2)]]
    encode_sort_maps [of "CMap ps"] encode_sort_maps [of "CMap qs"]
  unfolding encode_canonical_def by metis

lemma entries_lookup:
  assumes "wf_value l d (CMap ps)" "sort_maps (CMap ps) = sort_maps (CMap qs)" "wf_value l d (CMap qs)"
  shows "map_of (entries ps) = map_of (entries qs)"
proof -
  have "set (entries ps) = set (entries qs)"
    using assms(2) unfolding sort_maps_CMap by (metis cbor_value.inject(6) set_sort)
  moreover have "distinct (map fst (entries rs))" if "wf_value l d (CMap rs)" for rs
  proof -
    have "map (\<lambda>p. encode_canonical (fst p)) (entries rs) = map (\<lambda>p. encode_canonical (fst p)) rs"
      by (auto simp: entries_def encode_canonical_def)
    then have "distinct (map encode_canonical (map fst (entries rs)))"
      using that by (simp add: comp_def)
    then show ?thesis by (simp only: distinct_map)
  qed
  ultimately show ?thesis using assms(1,3) map_of_inject_set by blast
qed

lemma sorted_ids_eq [simp]: "sorted_ids xs = sorted_ids ys \<longleftrightarrow> sort xs = sort ys"
  by (auto simp: sorted_ids_def inj_map_eq_map inj_def)

lemma sort_maps_sorted_ids [simp]: "sort_maps (sorted_ids xs) = sorted_ids xs"
  by (simp add: sorted_ids_def comp_def)

lemma binding_lookup:
  fixes p c evs ats eds rls refs vs
  defines "b \<equiv> proof_binding p c evs ats eds rls refs vs"
  assumes "b = CMap ps"
  shows "map_of (entries ps) (CText ''attestations'') = Some (sorted_ids ats)"
    "map_of (entries ps) (CText ''created_at'') = Some (CUint c)"
    "map_of (entries ps) (CText ''events'') = Some (sorted_ids evs)"
    "map_of (entries ps) (CText ''evidence'') = Some (sorted_ids eds)"
    "map_of (entries ps) (CText ''relationships'') = Some (sorted_ids rls)"
    "map_of (entries ps) (CText ''proposition'') = Some (sort_maps p)"
    "map_of (entries ps) (CText ''referenced_proofs'') = (if refs = [] then None else Some (sorted_ids refs))"
    "map_of (entries ps) (CText ''vocabularies'') = (if vs = [] then None
       else Some (CArray (map (\<lambda>(ns, version).
         CMap [(CText ''ns'', CText ns), (CText ''version'', CUint version)]) (sort_key fst vs))))"
proof -
  have voc: "sort_maps (CMap [(CText ''ns'', CText ns), (CText ''version'', CUint n)])
      = CMap [(CText ''ns'', CText ns), (CText ''version'', CUint n)]" for ns n
    by (simp add: sort_maps.simps(2) encode_eval)
  note unf = assms(2) [unfolded b_def proof_binding_def cbor_value.inject, symmetric]
  show "map_of (entries ps) (CText ''attestations'') = Some (sorted_ids ats)"
    "map_of (entries ps) (CText ''created_at'') = Some (CUint c)"
    "map_of (entries ps) (CText ''events'') = Some (sorted_ids evs)"
    "map_of (entries ps) (CText ''evidence'') = Some (sorted_ids eds)"
    "map_of (entries ps) (CText ''relationships'') = Some (sorted_ids rls)"
    "map_of (entries ps) (CText ''proposition'') = Some (sort_maps p)"
    "map_of (entries ps) (CText ''referenced_proofs'') = (if refs = [] then None else Some (sorted_ids refs))"
    "map_of (entries ps) (CText ''vocabularies'') = (if vs = [] then None
       else Some (CArray (map (\<lambda>(ns, version).
         CMap [(CText ''ns'', CText ns), (CText ''version'', CUint version)]) (sort_key fst vs))))"
    by (simp_all add: unf voc comp_def case_prod_unfold)
qed


lemma vocab_entries_inject:
  "map (\<lambda>(ns, version). CMap [(CText ''ns'', CText ns), (CText ''version'', CUint version)]) xs =
   map (\<lambda>(ns, version). CMap [(CText ''ns'', CText ns), (CText ''version'', CUint version)]) ys \<longleftrightarrow> xs = ys"
  by (rule inj_map_eq_map) (auto simp: inj_def)

lemma sort_eq_Nil: "sort xs = sort ys \<Longrightarrow> xs = [] \<longleftrightarrow> ys = []"
  by (metis length_0_conv length_sort)

lemma sort_key_eq_Nil: "sort_key f xs = sort_key f ys \<Longrightarrow> xs = [] \<longleftrightarrow> ys = []"
  by (metis length_0_conv length_sort)

lemma binding_bytes_eq:
  assumes "wf_value l 0 (proof_binding p c evs ats eds rls refs vs)"
    and "wf_value l 0 (proof_binding p' c' evs' ats' eds' rls' refs' vs')"
  shows "encode_canonical (proof_binding p c evs ats eds rls refs vs) =
         encode_canonical (proof_binding p' c' evs' ats' eds' rls' refs' vs') \<longleftrightarrow>
     sort_maps p = sort_maps p' \<and> c = c' \<and> sort evs = sort evs' \<and> sort ats = sort ats' \<and> sort eds = sort eds'
     \<and> sort rls = sort rls' \<and> sort refs = sort refs' \<and> sort_key fst vs = sort_key fst vs'" (is "?bytes \<longleftrightarrow> ?parts")
proof -
  obtain ps qs where ps: "proof_binding p c evs ats eds rls refs vs = CMap ps"
    and qs: "proof_binding p' c' evs' ats' eds' rls' refs' vs' = CMap qs"
    by (simp add: proof_binding_def)
  have eq: "?bytes \<longleftrightarrow> sort_maps (CMap ps) = sort_maps (CMap qs)"
    using enc_eq_entries assms unfolding ps qs by blast
  show ?thesis
  proof
    assume ?bytes
    then have m: "map_of (entries ps) = map_of (entries qs)"
      using eq entries_lookup assms unfolding ps qs by blast
    show ?parts
      using binding_lookup [OF ps, unfolded m] binding_lookup [OF qs]
      by (auto simp: vocab_entries_inject split: if_splits)
  next
    assume p: ?parts
    then have "refs = [] \<longleftrightarrow> refs' = []" "vs = [] \<longleftrightarrow> vs' = []"
      using sort_eq_Nil sort_key_eq_Nil by blast+
    then have "entries ps = entries qs"
      using p ps [unfolded proof_binding_def, symmetric] qs [unfolded proof_binding_def, symmetric]
      by (simp add: sorted_ids_def)
    then show ?bytes unfolding eq sort_maps_CMap by simp
  qed
qed

section \<open>Claims\<close>

lemma lower_hex_digit: "is_ascii_hexdigit (lower_ascii c) \<Longrightarrow> lower_ascii c \<in> set ''0123456789abcdef''"
proof -
  assume h: "is_ascii_hexdigit (lower_ascii c)"
  have "of_char (lower_ascii c) \<notin> {65..90::nat}"
    using of_char_lt_256 [of c] by (simp add: lower_ascii_def Let_def)
  then have "lower_ascii c \<notin> set ''ABCDEF''" by auto
  with h show ?thesis by (auto simp: is_ascii_hexdigit_def)
qed

lemma evidence_digest_hex_lower:
  "evidence_digest_hex c = Some (Inr s) \<Longrightarrow>
   (length s = 64 \<or> length s = 96) \<and> list_all (\<lambda>ch. ch \<in> set ''0123456789abcdef'') s"
proof -
  have "evidence_digest_in fs = Some (Inr s) \<Longrightarrow>
      (length s = 64 \<or> length s = 96) \<and> list_all (\<lambda>ch. ch \<in> set ''0123456789abcdef'') s" for fs
  proof (induction fs rule: evidence_digest_in.induct)
    case (2 k v fs)
    show ?case
    proof (cases "k = CLAIM_FIELD_EVIDENCE_DIGEST")
      case True
      with "2.prems" obtain t where "s = normalize_hex t" "length s = 64 \<or> length s = 96" "list_all is_ascii_hexdigit s"
        by (auto simp: Let_def split: meta_value.splits if_splits)
      then show ?thesis using lower_hex_digit by (auto simp: normalize_hex_def list_all_iff)
    qed (use 2 in simp)
  qed simp
  then show "evidence_digest_hex c = Some (Inr s) \<Longrightarrow> ?thesis" by (simp add: evidence_digest_hex_def)
qed


text \<open>Engines for the concrete instances below: bytes as characters, and a constant digest.\<close>

definition plain_b64 :: base64_engine where
  "plain_b64 = \<lparr>b64_encode = str_of_bytes, b64_decode = (\<lambda>s. Some (as_bytes s))\<rparr>"

definition zero_hash :: hash_engine where
  "zero_hash = \<lparr>sha256 = (\<lambda>_. replicate 32 0), sha384 = (\<lambda>_. replicate 48 0)\<rparr>"

lemma engine_laws: "b64_law plain_b64" "sha256_law zero_hash"
  by (simp_all add: b64_law_def plain_b64_def sha256_law_def zero_hash_def)

section \<open>Properties\<close>

text \<open>
  The id check accepts one string for a given kind and content: the recomputed id. In
  particular a base64 spelling with other pad bits is rejected.
\<close>

theorem verify_id_accepts_only_the_id:
  assumes "b64_law b64" "sha256_law h"
  shows "verify_id b64 h prefix i canonical = Inr () \<longleftrightarrow> i = id_with b64 h prefix canonical"
  using assms by (rule verify_id_eq)

theorem verify_id_accepts_only_the_id_witness:
  "verify_id plain_b64 zero_hash ''evt'' (''evt:v1:'' @ replicate 32 (char_of (0 :: nat))) [1, 2] = Inr ()"
  using verify_id_accepts_only_the_id [OF engine_laws, of "''evt''" _ "[1, 2]"]
  by (simp add: id_with_def b64u_nopad_def plain_b64_def zero_hash_def str_of_bytes_def char_of_byte_def)

text \<open>
  Ids of different kinds are never equal, and two ids of one kind are equal exactly when
  the digests of the two contents are.
\<close>

theorem artifact_ids_separate_and_bind:
  assumes "b64_law b64"
  shows "event_id b64 h c \<noteq> attestation_id b64 h c' \<and> event_id b64 h c \<noteq> evidence_id b64 h c'
    \<and> event_id b64 h c \<noteq> relationship_id b64 h c' \<and> attestation_id b64 h c \<noteq> evidence_id b64 h c'
    \<and> attestation_id b64 h c \<noteq> relationship_id b64 h c' \<and> evidence_id b64 h c \<noteq> relationship_id b64 h c'
    \<and> (event_id b64 h c = event_id b64 h c' \<longleftrightarrow> sha256 h c = sha256 h c')
    \<and> (attestation_id b64 h c = attestation_id b64 h c' \<longleftrightarrow> sha256 h c = sha256 h c')
    \<and> (evidence_id b64 h c = evidence_id b64 h c' \<longleftrightarrow> sha256 h c = sha256 h c')
    \<and> (relationship_id b64 h c = relationship_id b64 h c' \<longleftrightarrow> sha256 h c = sha256 h c')"
proof -
  have "id_with b64 h p c \<noteq> id_with b64 h q c'" if "length p = length q" "p \<noteq> q" for p q
    using that id_with_prefix by blast
  then show ?thesis
    unfolding event_id_def attestation_id_def evidence_id_def relationship_id_def id_with_eq [OF assms] by simp
qed

theorem artifact_ids_separate_and_bind_witness:
  "b64_law plain_b64 \<and> event_id plain_b64 zero_hash [1] = event_id plain_b64 zero_hash [2]
   \<and> event_id plain_b64 zero_hash [1] \<noteq> evidence_id plain_b64 zero_hash [1]"
  using artifact_ids_separate_and_bind [OF engine_laws(1), of zero_hash "[1]"] engine_laws(1)
  by (auto simp: zero_hash_def)

text \<open>
  C17. A proof id binds every part of the package: the bytes under the digest are equal exactly
  when the propositions (up to map order), the creation times, the four member id sets, the
  referenced proofs and the vocabulary declarations are, and the ids are equal exactly when
  the digests of those bytes are.
\<close>

theorem proof_id_binds_every_part:
  assumes "b64_law b64"
    and "wf_value l 0 (proof_binding p c evs ats eds rls refs vs)"
    and "wf_value l 0 (proof_binding p' c' evs' ats' eds' rls' refs' vs')"
  shows "(proof_id_full b64 h p c evs ats eds rls refs vs = proof_id_full b64 h p' c' evs' ats' eds' rls' refs' vs' \<longleftrightarrow>
      sha256 h (encode_canonical (proof_binding p c evs ats eds rls refs vs)) =
      sha256 h (encode_canonical (proof_binding p' c' evs' ats' eds' rls' refs' vs')))
    \<and> (encode_canonical (proof_binding p c evs ats eds rls refs vs) =
       encode_canonical (proof_binding p' c' evs' ats' eds' rls' refs' vs') \<longleftrightarrow>
      sort_maps p = sort_maps p' \<and> c = c' \<and> mset evs = mset evs' \<and> mset ats = mset ats' \<and> mset eds = mset eds'
      \<and> mset rls = mset rls' \<and> mset refs = mset refs' \<and> sort_key fst vs = sort_key fst vs')"
proof -
  have "sort xs = sort ys \<longleftrightarrow> mset xs = mset ys" for xs ys :: "string list"
    by (metis mset_sort properties_for_sort sorted_sort)
  then show ?thesis
    using binding_bytes_eq [OF assms(2,3)] id_with_eq [OF assms(1)] by (simp add: proof_id_full_def)
qed

theorem proof_id_binds_every_part_witness:
  "encode_canonical (proof_binding CNull 1 [''b'', ''a''] [] [] [] [] []) =
   encode_canonical (proof_binding CNull 1 [''a'', ''b''] [] [] [] [] [])
   \<and> encode_canonical (proof_binding CNull 1 [''a'', ''b''] [] [] [] [] []) \<noteq>
     encode_canonical (proof_binding CNull 2 [''a'', ''b''] [] [] [] [] [])"
proof -
  have wf: "wf_value default_limits 0 (proof_binding CNull n xs [] [] [] [] [])"
    if "xs \<in> {[''b'', ''a''], [''a'', ''b'']}" for n xs
    using that by (auto simp: proof_binding_def sorted_ids_def default_limits_def encode_eval)
  have "[''b'', ''a''] \<in> {[''b'', ''a''], [''a'', ''b'']}" "[''a'', ''b''] \<in> {[''b'', ''a''], [''a'', ''b'']}" by simp_all
  note w = this [THEN wf]
  show ?thesis
    using proof_id_binds_every_part [OF engine_laws(1) w(1) w(2), of zero_hash 1 1]
      proof_id_binds_every_part [OF engine_laws(1) w(2) w(2), of zero_hash 1 2] by simp
qed

text \<open>
  The two copies of the reference-shape check (in the schema and in the id module) accept the
  same strings: the prefix followed by the encoding of 32 bytes.
\<close>

theorem ref_shape_checks_agree:
  assumes "b64_law b64"
  shows "(check_proof_ref_shape_id b64 i = Inr () \<longleftrightarrow> check_proof_ref_shape b64 i = Inr ())
    \<and> (check_proof_ref_shape b64 i = Inr () \<longleftrightarrow> (\<exists>raw. length raw = 32 \<and> i = ''prf:v1:'' @ b64_encode b64 raw))"
proof -
  have shape: "check_proof_ref_shape b64 i = Inr () \<longleftrightarrow>
      (\<exists>raw. i = ''prf:v1:'' @ b64_encode b64 raw \<and> b64_decode b64 (b64_encode b64 raw) = Some raw \<and> length raw = 32)"
    by (auto simp: check_proof_ref_shape_def result_iff strip_prefix_eq_Some)
  have "check_proof_ref_shape_id b64 i = Inr () \<longleftrightarrow>
      (\<exists>raw. i = ''prf:v1:'' @ b64_encode b64 raw \<and> b64_decode b64 (b64_encode b64 raw) = Some raw \<and> length raw = 32)"
    by (auto simp: check_proof_ref_shape_id_def result_iff strip_prefix_eq_Some b64u_decode_def b64u_nopad_def)
  then show ?thesis using shape assms by (auto simp: b64_law_def)
qed

theorem ref_shape_checks_agree_witness:
  "check_proof_ref_shape plain_b64 (''prf:v1:'' @ str_of_bytes (replicate 32 7)) = Inr ()"
proof -
  have "\<exists>raw. length raw = 32 \<and> ''prf:v1:'' @ str_of_bytes (replicate 32 7) = ''prf:v1:'' @ b64_encode plain_b64 raw"
    by (intro exI [of _ "replicate 32 7"]) (simp add: plain_b64_def)
  then show ?thesis
    using ref_shape_checks_agree [OF engine_laws(1), of "''prf:v1:'' @ str_of_bytes (replicate 32 7)"] by blast
qed

text \<open>
  An accepted evidence digest claim is lowercase hexadecimal of a SHA-256 or SHA-384 length,
  so comparing it with the lowercase digest of the evidence is comparing the bytes.
\<close>

theorem evidence_digest_claim_normalised:
  "evidence_digest_hex c = Some (Inr s) \<Longrightarrow>
   (length s = 64 \<or> length s = 96) \<and> list_all (\<lambda>ch. ch \<in> set ''0123456789abcdef'') s"
  by (rule evidence_digest_hex_lower)

theorem evidence_digest_claim_normalised_witness:
  "evidence_digest_hex \<lparr>claim_type = ''x'', claim_fields = [(''evidence_digest'', MText (''0x'' @ replicate 64 (CHR ''A'')))]\<rparr>
     = Some (Inr (replicate 64 (CHR ''a'')))
   \<and> list_all (\<lambda>ch. ch \<in> set ''0123456789abcdef'') (replicate 64 (CHR ''a''))"
proof -
  have [simp]: "lower_ascii (CHR ''A'') = CHR ''a''" by code_simp
  have "evidence_digest_hex \<lparr>claim_type = ''x'', claim_fields = [(''evidence_digest'', MText (''0x'' @ replicate 64 (CHR ''A'')))]\<rparr>
     = Some (Inr (replicate 64 (CHR ''a'')))"
    by (simp add: evidence_digest_hex_def CLAIM_FIELD_EVIDENCE_DIGEST_def normalize_hex_def
        is_ascii_hexdigit_def list_all_iff)
  with evidence_digest_claim_normalised [OF this] show ?thesis by blast
qed

text \<open>
  A claim has at most one status effect, and only status claims have one: when one of the four
  extractors succeeds the claim is of the matching reserved type and the other three fail.
\<close>

theorem status_effects_exclusive:
  "(revocation_target a = Inr t \<longrightarrow> claim_kind_of a = KRevoke)
   \<and> (withdrawal_target a = Inr t \<longrightarrow> claim_kind_of a = KWithdraw)
   \<and> (compromise_mark a = Inr (t, n) \<longrightarrow> claim_kind_of a = KCompromise)
   \<and> (supersession_pair a = Inr (t, u) \<longrightarrow> claim_kind_of a = KSupersede \<and> t \<noteq> u)
   \<and> (\<not> is_status (claim_kind_of a) \<longrightarrow> revocation_target a = Inl SchemaViolation
       \<and> withdrawal_target a = Inl SchemaViolation \<and> compromise_mark a = Inl SchemaViolation
       \<and> supersession_pair a = Inl SchemaViolation)"
  by (auto simp: revocation_target_def withdrawal_target_def compromise_mark_def supersession_pair_def result_iff)

theorem status_effects_exclusive_witness:
  "revocation_target \<lparr>att_v = 1, att_issuer = ''i'', att_subject = ''s'',
      att_claim = \<lparr>claim_type = ''revoke'', claim_fields = [(''target'', MText ''att:v1:x'')]\<rparr>,
      att_issued_at = 0, att_expires_at = None, att_evidence_ref = None\<rparr> = Inr ''att:v1:x''
   \<and> claim_kind_of \<lparr>att_v = 1, att_issuer = ''i'', att_subject = ''s'',
      att_claim = \<lparr>claim_type = ''revoke'', claim_fields = [(''target'', MText ''att:v1:x'')]\<rparr>,
      att_issued_at = 0, att_expires_at = None, att_evidence_ref = None\<rparr> = KRevoke"
  using status_effects_exclusive [of "\<lparr>att_v = 1, att_issuer = ''i'', att_subject = ''s'',
      att_claim = \<lparr>claim_type = ''revoke'', claim_fields = [(''target'', MText ''att:v1:x'')]\<rparr>,
      att_issued_at = 0, att_expires_at = None, att_evidence_ref = None\<rparr>" "''att:v1:x''"]
  by (simp add: revocation_target_def claim_kind_of_def claim_text_def starts_with_def)

end
