(* ===== verification/Search.thy ===== *)
theory Search
  imports Graph
begin

text \<open>
  The breadth-first search that \<^verbatim>\<open>proof-policy/src/eval.rs\<close> runs twice, over delegation
  links (\<^verbatim>\<open>delegation_chain\<close>) and over identity bindings (\<^verbatim>\<open>identity_path\<close>), with its
  predecessor map and the walk back from the target. The walk back is a loop that need not
  end for an arbitrary predecessor map, so it is a partial function: \<open>None\<close> is a run that
  does not return. \<open>bfs_path_correct\<close> shows that the search always returns, that a chain it
  reports is a path of the graph, and that it reports one whenever there is one.
\<close>

section \<open>The search\<close>

text \<open>The loop over the successors of \<open>cur\<close>; \<open>seen\<close> lists the members of the hash set, newest first.\<close>

fun visit_nexts :: "'a \<Rightarrow> 'a list \<Rightarrow> ('a \<rightharpoonup> 'a) \<Rightarrow> 'a list \<Rightarrow> 'a list \<Rightarrow> ('a \<rightharpoonup> 'a) \<times> 'a list \<times> 'a list" where
  "visit_nexts cur [] prev seen queue = (prev, seen, queue)"
| "visit_nexts cur (n # ns) prev seen queue =
     (if n \<in> set seen then visit_nexts cur ns prev seen queue
      else visit_nexts cur ns (prev(n \<mapsto> cur)) (n # seen) (queue @ [n]))"

definition unseen :: "('a \<times> 'a) list \<Rightarrow> 'a list \<Rightarrow> nat" where
  "unseen es seen = card (Range (set es) - set seen)"

lemma unseen_Cons:
  assumes "n \<in> Range (set es)" "n \<notin> set seen"
  shows "unseen es seen = Suc (unseen es (n # seen))"
proof -
  have "card (Range (set es) - set seen) = Suc (card (Range (set es) - set seen - {n}))"
    using assms by (intro card.remove) (auto simp: finite_Range)
  moreover have "Range (set es) - set seen - {n} = Range (set es) - set (n # seen)" by auto
  ultimately show ?thesis unfolding unseen_def by simp
qed

lemma visit_nexts_measure:
  "visit_nexts cur ns prev seen queue = (prev', seen', queue') \<Longrightarrow> set ns \<subseteq> Range (set es) \<Longrightarrow>
   unseen es seen' + length queue' = unseen es seen + length queue"
proof (induction cur ns prev seen queue rule: visit_nexts.induct)
  case (2 cur n ns prev seen queue)
  show ?case
  proof (cases "n \<in> set seen")
    case True
    with 2 show ?thesis by simp
  next
    case False
    then have "visit_nexts cur ns (prev(n \<mapsto> cur)) (n # seen) (queue @ [n]) = (prev', seen', queue')"
      using "2.prems"(1) by simp
    from "2.IH"(2) [OF False this] show ?thesis using "2.prems"(2) unseen_Cons [of n es seen] False by simp
  qed
qed auto

function bfs_loop ::
  "('a \<times> 'a) list \<Rightarrow> 'a \<Rightarrow> ('a \<rightharpoonup> 'a) \<Rightarrow> 'a list \<Rightarrow> 'a list \<Rightarrow> ('a \<rightharpoonup> 'a) option" where
  "bfs_loop es target prev seen [] = None"
| "bfs_loop es target prev seen (cur # queue) =
     (if cur = target then Some prev
      else case visit_nexts cur (nexts es cur) prev seen queue of
        (prev', seen', queue') \<Rightarrow> bfs_loop es target prev' seen' queue')"
  by pat_completeness auto
termination
proof (relation "measure (\<lambda>(es, target, prev, seen, queue). unseen es seen + length queue)", goal_cases)
  case (2 es target prev seen cur queue prev' y seen' queue')
  then have "visit_nexts cur (nexts es cur) prev seen queue = (prev', seen', queue')" by simp
  moreover have "set (nexts es cur) \<subseteq> Range (set es)" by auto
  ultimately show ?case using visit_nexts_measure by fastforce
qed simp

text \<open>\<^verbatim>\<open>while at != root { p = prev.get(at).unwrap_or(root); chain.push(p); at = p }\<close>, then \<^verbatim>\<open>reverse\<close>.\<close>

partial_function (option) walk_back :: "'a \<Rightarrow> ('a \<rightharpoonup> 'a) \<Rightarrow> 'a \<Rightarrow> 'a list \<Rightarrow> 'a list option" where
  "walk_back root prev at links =
     (if at = root then Some (rev links)
      else let p = (case prev at of Some q \<Rightarrow> q | None \<Rightarrow> root) in walk_back root prev p (links @ [p]))"

declare walk_back.simps [code]

definition bfs_path :: "('a \<times> 'a) list \<Rightarrow> 'a \<Rightarrow> 'a \<Rightarrow> 'a list option option" where
  "bfs_path es root target =
     (case bfs_loop es target Map.empty [root] [root] of
        None \<Rightarrow> Some None
      | Some prev \<Rightarrow> map_option Some (walk_back root prev target [target]))"

section \<open>Correctness\<close>

definition path :: "('a \<times> 'a) set \<Rightarrow> 'a \<Rightarrow> 'a list \<Rightarrow> 'a \<Rightarrow> bool" where
  "path R a xs b \<longleftrightarrow> xs \<noteq> [] \<and> hd xs = a \<and> last xs = b \<and> successively (\<lambda>x y. (x, y) \<in> R) xs"

lemma path_Cons: "path R a (a # xs) b \<longleftrightarrow> (if xs = [] then a = b else (a, hd xs) \<in> R \<and> path R (hd xs) xs b)"
  by (cases xs) (auto simp: path_def)

lemma path_reach: "path R a xs b \<Longrightarrow> (a, b) \<in> R\<^sup>*"
proof (induction xs arbitrary: a)
  case (Cons x xs)
  then have [simp]: "x = a" by (simp add: path_def)
  show ?case
  proof (cases xs)
    case (Cons y ys)
    then have "(a, y) \<in> R" "(y, b) \<in> R\<^sup>*" using Cons.IH [of y] Cons.prems Cons
      by (auto simp: path_Cons path_def split: if_splits)
    then show ?thesis by simp
  qed (use Cons.prems in \<open>auto simp: path_def\<close>)
qed (simp add: path_def)

text \<open>The predecessor map is a tree over the seen nodes: each points to an older one by an edge.\<close>

fun pred_tree :: "('a \<times> 'a) set \<Rightarrow> 'a \<Rightarrow> ('a \<rightharpoonup> 'a) \<Rightarrow> 'a list \<Rightarrow> bool" where
  "pred_tree R root prev [] = False"
| "pred_tree R root prev (n # seen) =
     (if seen = [] then n = root
      else n \<notin> set seen \<and> (\<exists>p\<in>set seen. prev n = Some p \<and> (p, n) \<in> R) \<and> pred_tree R root prev seen)"

lemma pred_tree_root: "pred_tree R root prev seen \<Longrightarrow> root \<in> set seen"
  by (induction seen) (auto split: if_splits)

lemma pred_tree_upd: "pred_tree R root prev seen \<Longrightarrow> n \<notin> set seen \<Longrightarrow> pred_tree R root (prev(n \<mapsto> c)) seen"
  by (induction seen) (auto split: if_splits)

lemma walk_back_path:
  "pred_tree R root prev seen \<Longrightarrow> at \<in> set seen \<Longrightarrow> path R at (rev links) b \<Longrightarrow>
   \<exists>xs. walk_back root prev at links = Some xs \<and> path R root xs b"
proof (induction seen arbitrary: at links)
  case (Cons n seen)
  show ?case
  proof (cases "at = root \<or> at \<in> set seen")
    case True
    then show ?thesis
    proof (cases "at = root")
      case True
      then show ?thesis using Cons.prems(3) by (subst walk_back.simps) auto
    next
      case False
      with True Cons.prems(1) Cons.IH [of "at" links] Cons.prems(3) show ?thesis by (auto split: if_splits)
    qed
  next
    case False
    with Cons.prems(1,2) obtain p where p: "at = n" "p \<in> set seen" "prev n = Some p" "(p, n) \<in> R"
      "pred_tree R root prev seen" by (auto split: if_splits)
    have "path R p (rev (links @ [p])) b"
      using p(1,4) Cons.prems(3) by (auto simp: path_def path_Cons successively_Cons)
    from Cons.IH [OF p(5,2) this] show ?thesis
      using False p by (subst walk_back.simps) (simp add: Let_def)
  qed
qed simp

definition bfs_inv :: "('a \<times> 'a) set \<Rightarrow> 'a \<Rightarrow> 'a \<Rightarrow> ('a \<rightharpoonup> 'a) \<Rightarrow> 'a list \<Rightarrow> 'a list \<Rightarrow> bool" where
  "bfs_inv R root target prev seen queue \<longleftrightarrow>
     pred_tree R root prev seen \<and> set queue \<subseteq> set seen
     \<and> (\<forall>n\<in>set seen - set queue. n \<noteq> target \<and> (\<forall>m. (n, m) \<in> R \<longrightarrow> m \<in> set seen))"

lemma visit_nexts_props:
  "visit_nexts cur ns prev seen queue = (prev', seen', queue') \<Longrightarrow> pred_tree R root prev seen \<Longrightarrow>
   cur \<in> set seen \<Longrightarrow> (\<forall>n\<in>set ns. (cur, n) \<in> R) \<Longrightarrow>
   pred_tree R root prev' seen' \<and> set seen' = set seen \<union> set ns \<and> set queue' = set queue \<union> (set ns - set seen)"
proof (induction cur ns prev seen queue rule: visit_nexts.induct)
  case (2 cur n ns prev seen queue)
  show ?case
  proof (cases "n \<in> set seen")
    case True
    with 2 show ?thesis by auto
  next
    case False
    have "pred_tree R root (prev(n \<mapsto> cur)) (n # seen)"
      using False "2.prems" pred_tree_upd [of R root prev seen n cur] by auto
    moreover have "visit_nexts cur ns (prev(n \<mapsto> cur)) (n # seen) (queue @ [n]) = (prev', seen', queue')"
      using "2.prems"(1) False by simp
    moreover have "cur \<in> set (n # seen)" "\<forall>n\<in>set ns. (cur, n) \<in> R" using "2.prems"(3,4) by simp_all
    ultimately have "pred_tree R root prev' seen' \<and> set seen' = set (n # seen) \<union> set ns
        \<and> set queue' = set (queue @ [n]) \<union> (set ns - set (n # seen))"
      using "2.IH"(2) [OF False] by blast
    then show ?thesis using False by auto
  qed
qed auto

lemma bfs_inv_step:
  assumes "bfs_inv R root target prev seen (cur # queue)" "cur \<noteq> target"
    and "visit_nexts cur ns prev seen queue = (prev', seen', queue')" "set ns = {m. (cur, m) \<in> R}"
  shows "bfs_inv R root target prev' seen' queue'"
proof -
  have p: "pred_tree R root prev' seen'" "set seen' = set seen \<union> set ns" "set queue' = set queue \<union> (set ns - set seen)"
    using visit_nexts_props [OF assms(3), of R root] assms(1,4) by (auto simp: bfs_inv_def)
  show ?thesis unfolding bfs_inv_def
  proof (intro conjI ballI)
    fix n assume "n \<in> set seen' - set queue'"
    then have n: "n \<in> set seen" "n \<notin> set queue" using p by auto
    have "n = cur \<or> n \<in> set seen - set (cur # queue)" using n by auto
    then have "n \<noteq> target \<and> (\<forall>m. (n, m) \<in> R \<longrightarrow> m \<in> set seen \<union> set ns)"
      using assms(1,2,4) unfolding bfs_inv_def by blast
    then show "n \<noteq> target" "\<forall>m. (n, m) \<in> R \<longrightarrow> m \<in> set seen'" using p(2) by auto
  qed (use assms(1) p in \<open>auto simp: bfs_inv_def\<close>)
qed

lemma bfs_loop_correct:
  "bfs_inv (set es) root target prev seen queue \<Longrightarrow>
   (case bfs_loop es target prev seen queue of
      None \<Rightarrow> (root, target) \<notin> (set es)\<^sup>*
    | Some prev' \<Rightarrow> \<exists>seen'. pred_tree (set es) root prev' seen' \<and> target \<in> set seen')"
proof (induction es target prev seen queue rule: bfs_loop.induct)
  case (1 es target prev seen)
  then have tree: "pred_tree (set es) root prev seen"
    and closed: "\<And>n m. n \<in> set seen \<Longrightarrow> (n, m) \<in> set es \<Longrightarrow> m \<in> set seen" and "target \<notin> set seen"
    by (auto simp: bfs_inv_def)
  have "n \<in> set seen" if "(root, n) \<in> (set es)\<^sup>*" for n
    using that by (induction rule: rtrancl_induct) (use pred_tree_root [OF tree] closed in auto)
  then show ?case using \<open>target \<notin> set seen\<close> by auto
next
  case (2 es target prev seen cur queue)
  show ?case
  proof (cases "cur = target")
    case True
    with "2.prems" show ?thesis by (auto simp: bfs_inv_def)
  next
    case False
    obtain prev' seen' queue' where v: "visit_nexts cur (nexts es cur) prev seen queue = (prev', seen', queue')"
      by (cases "visit_nexts cur (nexts es cur) prev seen queue")
    have "bfs_inv (set es) root target prev' seen' queue'"
      using bfs_inv_step [OF "2.prems" False v] set_nexts [of _ es cur] by blast
    with "2.IH" [OF False v [symmetric] refl] False v show ?thesis by simp
  qed
qed

text \<open>The search returns; it finds a path of the graph exactly when there is one.\<close>

lemma bfs_path_correct:
  "\<exists>r. bfs_path es root target = Some r \<and>
     (case r of None \<Rightarrow> (root, target) \<notin> (set es)\<^sup>* | Some xs \<Rightarrow> path (set es) root xs target)"
proof -
  have "bfs_inv (set es) root target Map.empty [root] [root]" by (simp add: bfs_inv_def)
  note loop = bfs_loop_correct [OF this]
  show ?thesis
  proof (cases "bfs_loop es target Map.empty [root] [root]")
    case None
    with loop show ?thesis by (simp add: bfs_path_def)
  next
    case (Some prev)
    with loop obtain seen where "pred_tree (set es) root prev seen" "target \<in> set seen" by auto
    from walk_back_path [OF this, of "[target]" target] show ?thesis
      using Some by (auto simp: bfs_path_def path_def)
  qed
qed

section \<open>The contract of a path search\<close>

text \<open>
  What the policy leaves rely on: the search returns, what it reports is a path, and it reports
  nothing only when there is none.
\<close>

locale path_finder =
  fixes find :: "('a \<times> 'a) list \<Rightarrow> 'a \<Rightarrow> 'a \<Rightarrow> 'a list option option"
  assumes correct: "\<exists>r. find es a b = Some r \<and>
      (case r of None \<Rightarrow> (a, b) \<notin> (set es)\<^sup>* | Some xs \<Rightarrow> path (set es) a xs b)"
begin

lemma returns: "find es a b \<noteq> None"
  using correct [of es a b] by auto

lemma found_path: "find es a b = Some (Some xs) \<Longrightarrow> path (set es) a xs b"
  using correct [of es a b] by auto

lemma found_iff: "(\<exists>xs. find es a b = Some (Some xs)) \<longleftrightarrow> (a, b) \<in> (set es)\<^sup>*"
  using correct [of es a b] path_reach by (fastforce split: option.splits)

lemma not_found_iff: "find es a b = Some None \<longleftrightarrow> (a, b) \<notin> (set es)\<^sup>*"
  using correct [of es a b] path_reach by (fastforce split: option.splits)

lemma found_mono:
  "set es \<subseteq> set es' \<Longrightarrow> find es a b = Some (Some xs) \<Longrightarrow> \<exists>ys. find es' a b = Some (Some ys)"
  using rtrancl_mono [of "set es" "set es'"] unfolding found_iff by (metis found_iff subsetD)

lemma found_sym:
  "sym (set es) \<Longrightarrow> find es a b = Some (Some xs) \<Longrightarrow> \<exists>ys. find es b a = Some (Some ys)"
  using found_iff [of es a b] found_iff [of es b a] sym_rtrancl [of "set es"] by (metis symD)

end

interpretation bfs: path_finder bfs_path
  by unfold_locales (rule bfs_path_correct)

end
