(* ===== verification/Store.thy ===== *)
theory Store
  imports Ids
begin

text \<open>
  Storage and transport: \<^verbatim>\<open>proof-format/src/store.rs\<close> (the artifact store trait and its
  in-memory implementation), \<^verbatim>\<open>envelope.rs\<close> and \<^verbatim>\<open>bundle.rs\<close>. The trait is the locale
  \<open>artifact_store\<close>, interpreted on the memory store. The \<^verbatim>\<open>hex\<close> crate is the record
  \<open>hex_engine\<close> with \<open>hex_law\<close>: decoding inverts encoding and encodings contain no whitespace.
\<close>

section \<open>The store contract\<close>

text \<open>A sequence of puts, each of which may fail and then leaves the store as it was.\<close>

primrec puts :: "('s \<Rightarrow> string \<Rightarrow> bytes \<Rightarrow> 'e + 's) \<Rightarrow> 's \<Rightarrow> (string \<times> bytes) list \<Rightarrow> 's" where
  "puts put s [] = s"
| "puts put s (x # xs) = puts put (case put s (fst x) (snd x) of Inl _ \<Rightarrow> s | Inr s' \<Rightarrow> s') xs"

text \<open>
  What a loader relies on: a put that succeeds is read back, other ids are untouched, a put
  never changes bytes that are already held, and repeating a successful put succeeds.
\<close>

locale artifact_store =
  fixes put :: "'s \<Rightarrow> string \<Rightarrow> bytes \<Rightarrow> 'e + 's"
    and get :: "'s \<Rightarrow> string \<Rightarrow> bytes option"
  assumes put_get: "put s i b = Inr s' \<Longrightarrow> get s' i = Some b"
    and put_other: "put s i b = Inr s' \<Longrightarrow> j \<noteq> i \<Longrightarrow> get s' j = get s j"
    and put_keeps: "put s i b = Inr s' \<Longrightarrow> get s i = Some b' \<Longrightarrow> b' = b"
    and put_again: "put s i b = Inr s' \<Longrightarrow> put s' i b = Inr s'"
begin

lemma put_monotone: "put s i b = Inr s' \<Longrightarrow> get s j = Some c \<Longrightarrow> get s' j = Some c"
  by (cases "j = i") (auto dest: put_get put_other put_keeps)

lemma puts_keep: "get s j = Some c \<Longrightarrow> get (puts put s xs) j = Some c"
  by (induction xs arbitrary: s) (auto split: sum.splits dest: put_monotone)

lemma put_then_puts: "put s i b = Inr s' \<Longrightarrow> get (puts put s' xs) i = Some b"
  by (intro puts_keep) (rule put_get)

lemma puts_only: "get (puts put s xs) j = Some c \<Longrightarrow> get s j = Some c \<or> (j, c) \<in> set xs"
proof (induction xs arbitrary: s)
  case (Cons x xs)
  show ?case
  proof (cases "put s (fst x) (snd x)")
    case (Inr s')
    with Cons have "get s' j = Some c \<or> (j, c) \<in> set xs" by simp
    then show ?thesis using put_get [OF Inr] put_other [OF Inr, of j]
      by (cases x; cases "j = fst x") auto
  qed (use Cons in auto)
qed simp

end

section \<open>The memory store\<close>

record memory_store =
  ms_inner :: "string \<rightharpoonup> bytes"
  ms_max_bytes :: nat

datatype store_error = EmptyArgument | TooManyBytes | StoreConflict

definition MemoryStore_new :: memory_store where
  "MemoryStore_new = \<lparr>ms_inner = Map.empty, ms_max_bytes = max_proof_size default_limits\<rparr>"

definition with_limits :: "limits \<Rightarrow> memory_store" where
  "with_limits l = \<lparr>ms_inner = Map.empty, ms_max_bytes = max_proof_size l\<rparr>"

definition store_put :: "memory_store \<Rightarrow> string \<Rightarrow> bytes \<Rightarrow> store_error + memory_store" where
  "store_put s i cbor =
     (if i = [] \<or> cbor = [] then Inl EmptyArgument
      else if length cbor > ms_max_bytes s then Inl TooManyBytes
      else case ms_inner s i of
        Some prev \<Rightarrow>
          if prev \<noteq> cbor then Inl StoreConflict
          else Inr (s\<lparr>ms_inner := (ms_inner s)(i \<mapsto> cbor)\<rparr>)
      | None \<Rightarrow> Inr (s\<lparr>ms_inner := (ms_inner s)(i \<mapsto> cbor)\<rparr>))"

definition store_get :: "memory_store \<Rightarrow> string \<Rightarrow> bytes option" where
  "store_get s i = ms_inner s i"

definition store_len :: "memory_store \<Rightarrow> nat" where
  "store_len s = card (dom (ms_inner s))"

lemma store_put_Inr [result_iff]:
  "store_put s i b = Inr s' \<longleftrightarrow>
     i \<noteq> [] \<and> b \<noteq> [] \<and> length b \<le> ms_max_bytes s \<and> (ms_inner s i = None \<or> ms_inner s i = Some b)
     \<and> s' = s\<lparr>ms_inner := (ms_inner s)(i \<mapsto> b)\<rparr>"
  by (auto simp: store_put_def split: option.splits if_splits)

interpretation memory: artifact_store store_put store_get
  by unfold_locales (auto simp: result_iff store_get_def)

section \<open>Envelopes\<close>

datatype artifact_kind = AEvent | AAttestation | AEvidence | ARelationship | AProof | AStatus

fun artifact_kind_as_str :: "artifact_kind \<Rightarrow> string" where
  "artifact_kind_as_str AEvent = ''event''"
| "artifact_kind_as_str AAttestation = ''attestation''"
| "artifact_kind_as_str AEvidence = ''evidence''"
| "artifact_kind_as_str ARelationship = ''relationship''"
| "artifact_kind_as_str AProof = ''proof''"
| "artifact_kind_as_str AStatus = ''status''"

definition artifact_kind_parse :: "string \<Rightarrow> artifact_kind option" where
  "artifact_kind_parse s = map_of [(''event'', AEvent), (''attestation'', AAttestation),
     (''evidence'', AEvidence), (''relationship'', ARelationship), (''proof'', AProof), (''status'', AStatus)] s"

record hex_engine =
  hex_encode :: "bytes \<Rightarrow> string"
  hex_decode :: "string \<Rightarrow> bytes option"

text \<open>
  \<^verbatim>\<open>str::trim\<close>: whitespace characters removed at both ends. A whitespace character at the
  end is one of the UTF-8 forms as a suffix.
\<close>

definition ws_prefix :: "string \<Rightarrow> nat list option" where
  "ws_prefix s = List.find (\<lambda>p. take (length p) (map of_char s) = p) whitespace_forms"

definition ws_suffix :: "string \<Rightarrow> nat list option" where
  "ws_suffix s = List.find (\<lambda>p. take (length p) (rev (map of_char s)) = rev p) whitespace_forms"

lemma whitespace_forms_nonempty: "p \<in> set whitespace_forms \<Longrightarrow> p \<noteq> []"
  by (auto simp: whitespace_forms_def)

lemma find_ws_nonempty: "List.find P whitespace_forms = Some p \<Longrightarrow> p \<noteq> []"
  using whitespace_forms_nonempty by (auto simp: find_Some_iff)

function trim_start :: "string \<Rightarrow> string" where
  "trim_start s = (if s = [] then [] else case ws_prefix s of None \<Rightarrow> s | Some p \<Rightarrow> trim_start (drop (length p) s))"
  by pat_completeness auto
termination
  by (relation "measure length") (auto simp: ws_prefix_def dest: find_ws_nonempty)

function trim_end :: "string \<Rightarrow> string" where
  "trim_end s = (if s = [] then [] else case ws_suffix s of None \<Rightarrow> s
      | Some p \<Rightarrow> trim_end (take (length s - length p) s))"
  by pat_completeness auto
termination
  by (relation "measure length") (auto simp: ws_suffix_def dest: find_ws_nonempty)

declare trim_start.simps [simp del] trim_end.simps [simp del]

definition str_trim :: "string \<Rightarrow> string" where
  "str_trim s = trim_end (trim_start s)"

record artifact_envelope =
  env_container_version :: nat
  env_kind :: artifact_kind
  env_id :: string
  env_cbor_hex :: string
  env_sign1_b64u :: "string option"

definition CONTAINER_VERSION :: nat where "CONTAINER_VERSION = 1"

definition ArtifactEnvelope_new ::
  "hex_engine \<Rightarrow> artifact_kind \<Rightarrow> string \<Rightarrow> bytes \<Rightarrow> string option \<Rightarrow> artifact_envelope" where
  "ArtifactEnvelope_new hx kind i cbor sign1 =
     \<lparr>env_container_version = CONTAINER_VERSION, env_kind = kind, env_id = i,
      env_cbor_hex = hex_encode hx cbor, env_sign1_b64u = sign1\<rparr>"

definition cbor_bytes :: "hex_engine \<Rightarrow> artifact_envelope \<Rightarrow> limits \<Rightarrow> bytes result" where
  "cbor_bytes hx env l =
     bindR (ok_or (hex_decode hx (str_trim (env_cbor_hex env))) Malformed) (\<lambda>raw.
     if length raw > max_proof_size l then Inl LimitExceeded
     else if raw = [] then Inl Malformed
     else Inr raw)"

section \<open>Bundles\<close>

record bundle_blob =
  blob_digest :: hash_ref
  blob_bytes :: bytes

record proof_bundle =
  bun_container_version :: nat
  bun_proofs :: "artifact_envelope list"
  bun_blobs :: "bundle_blob list"

definition Bundle_new :: proof_bundle where
  "Bundle_new = \<lparr>bun_container_version = CONTAINER_VERSION, bun_proofs = [], bun_blobs = []\<rparr>"

definition with_proof :: "proof_bundle \<Rightarrow> artifact_envelope \<Rightarrow> proof_bundle" where
  "with_proof b env = b\<lparr>bun_proofs := bun_proofs b @ [env]\<rparr>"

definition with_blob :: "proof_bundle \<Rightarrow> hash_ref \<Rightarrow> bytes \<Rightarrow> proof_bundle" where
  "with_blob b digest bs = b\<lparr>bun_blobs := bun_blobs b @ [\<lparr>blob_digest = digest, blob_bytes = bs\<rparr>]\<rparr>"

fun find_map_blob :: "hash_ref \<Rightarrow> bundle_blob list \<Rightarrow> bytes option" where
  "find_map_blob want [] = None"
| "find_map_blob want (b # bs) = (if blob_digest b = want then Some (blob_bytes b) else find_map_blob want bs)"

definition find_blob :: "proof_bundle \<Rightarrow> hash_ref \<Rightarrow> bytes option" where
  "find_blob b want = find_map_blob want (bun_blobs b)"

definition bundle_validate :: "proof_bundle \<Rightarrow> limits \<Rightarrow> unit result" where
  "bundle_validate b l =
     (if length (bun_proofs b) > max_array_items l then Inl LimitExceeded
      else if length (bun_blobs b) > max_evidence_items l then Inl LimitExceeded
      else eachR (\<lambda>x. if length (blob_bytes x) > max_field_size l then Inl LimitExceeded else Inr ()) (bun_blobs b))"

definition check_blob_against_digest :: "hash_engine \<Rightarrow> bytes \<Rightarrow> hash_ref \<Rightarrow> unit result" where
  "check_blob_against_digest h bs want =
     (let computed = (case hr_alg want of Sha256 \<Rightarrow> sha256 h bs | Sha384 \<Rightarrow> sha384 h bs)
      in if length computed \<noteq> length (hr_digest want) \<or> computed \<noteq> hr_digest want then Inl IdMismatch
         else Inr ())"

section \<open>Laws of the transport\<close>

definition hex_law :: "hex_engine \<Rightarrow> bool" where
  "hex_law hx \<longleftrightarrow> (\<forall>bs. hex_decode hx (hex_encode hx bs) = Some bs
     \<and> list_all (\<lambda>c. c \<in> set ''0123456789abcdef'') (hex_encode hx bs))"

lemma hexdigit_code: "c \<in> set ''0123456789abcdef'' \<Longrightarrow> (48 :: nat) \<le> of_char c \<and> of_char c < (128 :: nat)"
  by auto

lemma whitespace_form_bounds:
  "p \<in> set whitespace_forms \<Longrightarrow> (hd p \<le> 32 \<or> hd p \<ge> 128) \<and> (last p \<le> 32 \<or> last p \<ge> 128)"
  by (auto simp: whitespace_forms_def)

lemma trim_hex: "list_all (\<lambda>c. c \<in> set ''0123456789abcdef'') s \<Longrightarrow> str_trim s = s"
proof -
  assume a: "list_all (\<lambda>c. c \<in> set ''0123456789abcdef'') s"
  have "ws_prefix s = None" "ws_suffix s = None" if "s \<noteq> []"
  proof -
    have hd: "of_char (hd s) \<ge> (48::nat)" "of_char (hd s) < (128::nat)" "of_char (last s) \<ge> (48::nat)" "of_char (last s) < (128::nat)"
      using a that hexdigit_code by (simp_all add: list_all_iff)
    show "ws_prefix s = None" unfolding ws_prefix_def find_None_iff
    proof (intro notI, elim exE conjE)
      fix p assume p: "p \<in> set whitespace_forms" "take (length p) (map of_char s) = p"
      then have "hd p = of_char (hd s)" using that whitespace_forms_nonempty [OF p(1)]
        by (metis hd_map hd_take length_greater_0_conv)
      then show False using whitespace_form_bounds [OF p(1)] hd by auto
    qed
    show "ws_suffix s = None" unfolding ws_suffix_def find_None_iff
    proof (intro notI, elim exE conjE)
      fix p assume p: "p \<in> set whitespace_forms" "take (length p) (rev (map of_char s)) = rev p"
      then have "last p = of_char (last s)" using that whitespace_forms_nonempty [OF p(1)]
        by (metis hd_rev hd_take last_map length_greater_0_conv)
      then show False using whitespace_form_bounds [OF p(1)] hd by auto
    qed
  qed
  then show ?thesis by (cases "s = []") (simp_all add: str_trim_def trim_start.simps [of s] trim_end.simps [of s]
      trim_start.simps [of "[]"] trim_end.simps [of "[]"])
qed


lemma cbor_bytes_Inr [result_iff]:
  "cbor_bytes hx env l = Inr raw \<longleftrightarrow>
     hex_decode hx (str_trim (env_cbor_hex env)) = Some raw \<and> length raw \<le> max_proof_size l \<and> raw \<noteq> []"
  by (auto simp: cbor_bytes_def result_iff split: if_splits)

lemma find_map_blob_append:
  "find_map_blob want (xs @ ys) = (case find_map_blob want xs of Some b \<Rightarrow> Some b | None \<Rightarrow> find_map_blob want ys)"
  by (induction xs) auto

lemma find_map_blob_Some:
  "find_map_blob want xs = Some b \<Longrightarrow> \<lparr>blob_digest = want, blob_bytes = b\<rparr> \<in> set xs"
  by (induction xs) (auto split: if_splits)

lemma check_blob_Inr [result_iff]:
  "check_blob_against_digest h bs want = Inr () \<longleftrightarrow>
     hr_digest want = (case hr_alg want of Sha256 \<Rightarrow> sha256 h bs | Sha384 \<Rightarrow> sha384 h bs)"
  by (auto simp: check_blob_against_digest_def Let_def split: hash_algorithm.splits if_splits)

section \<open>Properties of storage and transport\<close>

text \<open>
  The memory store never rewrites history: once a put of bytes under an id has succeeded,
  no later sequence of puts, whatever its ids and bytes and whichever of them fail, changes
  what a get of that id returns; and every binding a get ever returns was either there at the
  start or is one of the pairs put.
\<close>

theorem store_keeps_history:
  "store_put s i b = Inr s' \<Longrightarrow>
     store_get (puts store_put s' xs) i = Some b \<and>
     (store_get (puts store_put s' xs) j = Some c \<longrightarrow> store_get s j = Some c \<or> (j, c) \<in> set ((i, b) # xs))"
  using memory.put_then_puts [of s i b s' xs] memory.puts_only [of s' xs j c] memory.put_get [of s i b s']
    memory.put_other [of s i b s' j] by (cases "j = i") auto

theorem store_keeps_history_witness:
  "store_get (puts store_put
     (MemoryStore_new\<lparr>ms_inner := [''prf:v1:x'' \<mapsto> [1, 2, 3]]\<rparr>) [(''prf:v1:x'', [9]), (''prf:v1:y'', [7])]) ''prf:v1:x''
     = Some [1, 2, 3]"
  by (rule store_keeps_history [of MemoryStore_new, THEN conjunct1])
    (simp add: store_put_Inr MemoryStore_new_def default_limits_def)

text \<open>
  The envelope is a faithful carrier: reading the bytes of an envelope built from
  non-empty bytes within the size limit gives exactly these bytes back, empty bytes are
  MALFORMED and oversize ones LIMIT_EXCEEDED, and the kind tag survives its text form.
\<close>

theorem envelope_roundtrip:
  "hex_law hx \<Longrightarrow>
     cbor_bytes hx (ArtifactEnvelope_new hx kind i bs sign1) l =
       (if length bs > max_proof_size l then Inl LimitExceeded else if bs = [] then Inl Malformed else Inr bs)
     \<and> artifact_kind_parse (artifact_kind_as_str (env_kind (ArtifactEnvelope_new hx kind i bs sign1))) = Some kind"
  by (cases kind) (simp_all add: hex_law_def cbor_bytes_def ArtifactEnvelope_new_def trim_hex ok_or_def
      artifact_kind_parse_def)

text \<open>A hex codec that satisfies the law, for the witness.\<close>

definition hex_digit :: "nat \<Rightarrow> char" where
  "hex_digit n = ''0123456789abcdef'' ! (n mod 16)"

definition hex_value :: "char \<Rightarrow> nat option" where
  "hex_value c = map_of (zip ''0123456789abcdef'' [0..<16]) c"

fun hex_read :: "string \<Rightarrow> bytes option" where
  "hex_read [] = Some []"
| "hex_read (a # b # s) = (case (hex_value a, hex_value b, hex_read s) of
      (Some x, Some y, Some r) \<Rightarrow> Some (word_of_nat (16 * x + y) # r) | _ \<Rightarrow> None)"
| "hex_read _ = None"

definition plain_hex :: hex_engine where
  "plain_hex = \<lparr>hex_encode = (\<lambda>bs. concat (map (\<lambda>b. [hex_digit (unat b div 16), hex_digit (unat b)]) bs)),
     hex_decode = hex_read\<rparr>"

lemma hex_digit_all: "n < 16 \<Longrightarrow> hex_value (''0123456789abcdef'' ! n) = Some n"
proof -
  assume "n < 16"
  then have "n \<in> {0,1,2,3,4,5,6,7,8,9,10,11,12,13,14,15}"
    unfolding insert_iff empty_iff by presburger
  then show ?thesis by (elim insertE) (simp_all add: hex_value_def upt_rec)
qed

lemma hex_value_digit: "hex_value (hex_digit n) = Some (n mod 16)"
  by (simp add: hex_digit_def hex_digit_all)

lemma plain_hex_law: "hex_law plain_hex"
proof -
  have "hex_read (hex_encode plain_hex bs) = Some bs" for bs
  proof (induction bs)
    case (Cons b bs)
    have "unat b < 256" using unsigned_less [of b] by simp
    then have "unat b div 16 < 16" by simp
    then have "16 * (unat b div 16 mod 16) + unat b mod 16 = unat b" by simp
    with Cons show ?case by (simp add: plain_hex_def hex_value_digit)
  qed (simp add: plain_hex_def)
  moreover have "hex_digit n \<in> set ''0123456789abcdef''" for n
    unfolding hex_digit_def by (rule nth_mem) simp
  ultimately show ?thesis by (auto simp: hex_law_def plain_hex_def list_all_iff)
qed

theorem envelope_roundtrip_witness:
  "cbor_bytes plain_hex (ArtifactEnvelope_new plain_hex AStatus ''att:v1:x'' [0xA1, 0xFF] None) default_limits
     = Inr [0xA1, 0xFF]"
  using envelope_roundtrip [OF plain_hex_law, of AStatus "''att:v1:x''" "[0xA1, 0xFF]" None default_limits]
  by (simp add: default_limits_def)

text \<open>
  A blob found in a bundle and authenticated against its digest is the content the digest
  names: the first blob carried under a digest is the one found and later additions never
  displace it, authentication succeeds exactly when the digest is the hash of the bytes, and
  so other bytes authenticate under the same digest only if they are a hash collision.
\<close>

theorem bundle_blob_authentic:
  "find_blob b want = Some bs \<Longrightarrow> check_blob_against_digest h bs want = Inr () \<Longrightarrow>
     \<lparr>blob_digest = want, blob_bytes = bs\<rparr> \<in> set (bun_blobs b) \<and>
     find_blob (with_blob (with_proof b env) d bs') want = Some bs \<and>
     (check_blob_against_digest h bs' want = Inr () \<longleftrightarrow>
       (case hr_alg want of Sha256 \<Rightarrow> sha256 h bs' = sha256 h bs | Sha384 \<Rightarrow> sha384 h bs' = sha384 h bs))"
  by (auto simp: find_blob_def with_blob_def with_proof_def find_map_blob_append result_iff
      split: hash_algorithm.splits dest: find_map_blob_Some)

definition sample_blob_ref :: hash_ref where
  "sample_blob_ref = \<lparr>hr_v = 1, hr_alg = Sha256, hr_digest = replicate 32 0\<rparr>"

theorem bundle_blob_authentic_witness:
  "find_blob (with_blob (with_proof (with_blob Bundle_new sample_blob_ref [1])
       (ArtifactEnvelope_new plain_hex AProof ''prf:v1:x'' [1] None)) sample_blob_ref [2]) sample_blob_ref = Some [1]"
  by (rule bundle_blob_authentic [of _ _ _ zero_hash, THEN conjunct2, THEN conjunct1])
    (simp_all add: find_blob_def with_blob_def Bundle_new_def check_blob_Inr sample_blob_ref_def zero_hash_def)

end
