(* ===== verification/Policy.thy ===== *)
theory Policy
  imports Ids
begin

text \<open>
  Policies, \<^verbatim>\<open>proof-policy/src/policy.rs\<close> and \<^verbatim>\<open>expr.rs\<close>: the closed requirement set, version-2
  expression trees, their stable rendering, their canonical bytes and the policy hash.
  \<open>policy_bytes_inject\<close> shows that the canonical bytes determine the policy.
\<close>

section \<open>Requirements\<close>

datatype field_op = FEq | FNe | FGt | FGte | FLt | FLte

fun field_op_as_str :: "field_op \<Rightarrow> string" where
  "field_op_as_str FEq = ''eq''"
| "field_op_as_str FNe = ''ne''"
| "field_op_as_str FGt = ''gt''"
| "field_op_as_str FGte = ''gte''"
| "field_op_as_str FLt = ''lt''"
| "field_op_as_str FLte = ''lte''"

definition field_op_parse :: "string \<Rightarrow> field_op option" where
  "field_op_parse s = map_of [(''eq'', FEq), (''ne'', FNe), (''gt'', FGt), (''gte'', FGte),
     (''lt'', FLt), (''lte'', FLte)] s"

datatype field_value = FText string | FUint u64 | FBool bool

datatype requirement =
    SignatureValid
  | IssuerTrusted string
  | IssuerExcluded string
  | RelationshipExists rel_type
  | NotExpired
  | NotRevoked
  | NotSuperseded
  | EvidencePresent evidence_kind
  | TransparencyPresent
  | ProofFresh u64
  | DelegatedAuthority string string "string option"
  | IdentityBound string string
  | TransparencyInclusion string
  | NoConflictingEvidence
  | VocabularyAccepted string u64
  | EvidenceUsable evidence_kind
  | EvidenceBound evidence_kind
  | RequiresReference string
  | ForbidsReference string
  | ClaimField "string option" "string option" string field_op field_value

text \<open>Decimal rendering of unsigned integers, as \<^verbatim>\<open>format!\<close> prints them.\<close>

definition dec_digit :: "nat \<Rightarrow> char" where
  "dec_digit n = ''0123456789'' ! (n mod 10)"

fun show_nat :: "nat \<Rightarrow> string" where
  "show_nat n = (if n < 10 then [dec_digit n] else show_nat (n div 10) @ [dec_digit n])"

declare show_nat.simps [simp del]

fun show_value :: "field_value \<Rightarrow> string" where
  "show_value (FText s) = [CHR 0x22] @ s @ [CHR 0x22]"
| "show_value (FUint n) = show_nat (unat n)"
| "show_value (FBool b) = (if b then ''true'' else ''false'')"

fun describe :: "requirement \<Rightarrow> string" where
  "describe SignatureValid = ''signature_valid''"
| "describe (IssuerTrusted issuer) = ''issuer_trusted('' @ issuer @ '')''"
| "describe (IssuerExcluded issuer) = ''issuer_excluded('' @ issuer @ '')''"
| "describe (RelationshipExists r) = ''relationship_exists('' @ r @ '')''"
| "describe NotExpired = ''not_expired''"
| "describe NotRevoked = ''not_revoked''"
| "describe NotSuperseded = ''not_superseded''"
| "describe (EvidencePresent kind) = ''evidence_present('' @ kind @ '')''"
| "describe TransparencyPresent = ''transparency_present''"
| "describe (ProofFresh n) = ''proof_fresh('' @ show_nat (unat n) @ ''s)''"
| "describe (DelegatedAuthority root issuer scope) =
     (case scope of
        None \<Rightarrow> ''delegated_authority(root='' @ root @ '', issuer='' @ issuer @ '')''
      | Some sc \<Rightarrow> ''delegated_authority(root='' @ root @ '', issuer='' @ issuer @ '', scope='' @ sc @ '')'')"
| "describe (IdentityBound a b) = ''identity_bound('' @ a @ '', '' @ b @ '')''"
| "describe (TransparencyInclusion log) = ''transparency_inclusion('' @ log @ '')''"
| "describe NoConflictingEvidence = ''no_conflicting_evidence''"
| "describe (VocabularyAccepted ns n) = ''vocabulary_accepted('' @ ns @ '', max_version='' @ show_nat (unat n) @ '')''"
| "describe (EvidenceUsable kind) = ''evidence_usable('' @ kind @ '')''"
| "describe (EvidenceBound kind) = ''evidence_bound('' @ kind @ '')''"
| "describe (RequiresReference i) = ''requires_reference('' @ i @ '')''"
| "describe (ForbidsReference i) = ''forbids_reference('' @ i @ '')''"
| "describe (ClaimField ct sub f op v) =
     ''claim_field('' @ (case ct of None \<Rightarrow> [] | Some t \<Rightarrow> ''type='' @ t @ '' '')
       @ (case sub of None \<Rightarrow> [] | Some s \<Rightarrow> ''subject='' @ s @ '' '')
       @ f @ '' '' @ field_op_as_str op @ '' '' @ show_value v @ '')''"

fun type_str :: "requirement \<Rightarrow> string" where
  "type_str SignatureValid = ''signature_valid''"
| "type_str (IssuerTrusted _) = ''issuer_trusted''"
| "type_str (IssuerExcluded _) = ''issuer_excluded''"
| "type_str (RelationshipExists _) = ''relationship_exists''"
| "type_str NotExpired = ''not_expired''"
| "type_str NotRevoked = ''not_revoked''"
| "type_str NotSuperseded = ''not_superseded''"
| "type_str (EvidencePresent _) = ''evidence_present''"
| "type_str TransparencyPresent = ''transparency_present''"
| "type_str (ProofFresh _) = ''proof_fresh''"
| "type_str (DelegatedAuthority _ _ _) = ''delegated_authority''"
| "type_str (IdentityBound _ _) = ''identity_bound''"
| "type_str (TransparencyInclusion _) = ''transparency_inclusion''"
| "type_str NoConflictingEvidence = ''no_conflicting_evidence''"
| "type_str (VocabularyAccepted _ _) = ''vocabulary_accepted''"
| "type_str (EvidenceUsable _) = ''evidence_usable''"
| "type_str (EvidenceBound _) = ''evidence_bound''"
| "type_str (RequiresReference _) = ''requires_reference''"
| "type_str (ForbidsReference _) = ''forbids_reference''"
| "type_str (ClaimField _ _ _ _ _) = ''claim_field''"

fun is_v2_only :: "requirement \<Rightarrow> bool" where
  "is_v2_only (DelegatedAuthority _ _ _) = True"
| "is_v2_only (IdentityBound _ _) = True"
| "is_v2_only (TransparencyInclusion _) = True"
| "is_v2_only NoConflictingEvidence = True"
| "is_v2_only (VocabularyAccepted _ _) = True"
| "is_v2_only (EvidenceUsable _) = True"
| "is_v2_only (EvidenceBound _) = True"
| "is_v2_only (RequiresReference _) = True"
| "is_v2_only (ForbidsReference _) = True"
| "is_v2_only (ClaimField _ _ _ _ _) = True"
| "is_v2_only _ = False"

section \<open>Expressions and policies\<close>

datatype policy_expr =
    ELeaf requirement
  | EAll "policy_expr list"
  | EAny "policy_expr list"
  | ENot policy_expr
  | EThreshold nat "policy_expr list"

fun join :: "string \<Rightarrow> string list \<Rightarrow> string" where
  "join sep [] = []"
| "join sep [s] = s"
| "join sep (s # t # ss) = s @ sep @ join sep (t # ss)"

fun describe_expr :: "policy_expr \<Rightarrow> string" where
  "describe_expr (ELeaf r) = describe r"
| "describe_expr (EAll cs) = ''all['' @ join '', '' (map describe_expr cs) @ '']''"
| "describe_expr (EAny cs) = ''any['' @ join '', '' (map describe_expr cs) @ '']''"
| "describe_expr (ENot c) = ''not('' @ describe_expr c @ '')''"
| "describe_expr (EThreshold k opts) =
     ''threshold('' @ show_nat k @ ''/'' @ show_nat (length opts) @ '')['' @ join '', '' (map describe_expr opts) @ '']''"

fun node_count :: "policy_expr \<Rightarrow> nat" where
  "node_count (ELeaf _) = 1"
| "node_count (EAll cs) = 1 + sum_list (map node_count cs)"
| "node_count (EAny cs) = 1 + sum_list (map node_count cs)"
| "node_count (ENot c) = 1 + node_count c"
| "node_count (EThreshold k opts) = 1 + sum_list (map node_count opts)"

record policy =
  pol_version :: u8
  pol_id :: string
  pol_requirements :: "requirement list"
  pol_expression :: "policy_expr option"

section \<open>Canonical bytes\<close>

definition opt_pair :: "string \<Rightarrow> string option \<Rightarrow> (cbor_value \<times> cbor_value) list" where
  "opt_pair k x = (case x of None \<Rightarrow> [] | Some s \<Rightarrow> [(CText k, CText s)])"

fun field_value_to_cbor :: "field_value \<Rightarrow> cbor_value" where
  "field_value_to_cbor (FText s) = CText s"
| "field_value_to_cbor (FUint n) = CUint n"
| "field_value_to_cbor (FBool b) = CBool b"

fun requirement_pairs :: "requirement \<Rightarrow> (cbor_value \<times> cbor_value) list" where
  "requirement_pairs (IssuerTrusted issuer) = [(CText ''issuer'', CText issuer)]"
| "requirement_pairs (IssuerExcluded issuer) = [(CText ''issuer'', CText issuer)]"
| "requirement_pairs (RelationshipExists r) = [(CText ''relationship'', CText r)]"
| "requirement_pairs (EvidencePresent kind) = [(CText ''kind'', CText kind)]"
| "requirement_pairs (EvidenceUsable kind) = [(CText ''kind'', CText kind)]"
| "requirement_pairs (EvidenceBound kind) = [(CText ''kind'', CText kind)]"
| "requirement_pairs (RequiresReference i) = [(CText ''id'', CText i)]"
| "requirement_pairs (ForbidsReference i) = [(CText ''id'', CText i)]"
| "requirement_pairs (ProofFresh n) = [(CText ''max_age_seconds'', CUint n)]"
| "requirement_pairs (DelegatedAuthority root issuer scope) =
     [(CText ''root'', CText root), (CText ''issuer'', CText issuer)] @ opt_pair ''scope'' scope"
| "requirement_pairs (IdentityBound a b) = [(CText ''a'', CText a), (CText ''b'', CText b)]"
| "requirement_pairs (TransparencyInclusion log) = [(CText ''log'', CText log)]"
| "requirement_pairs (VocabularyAccepted ns n) = [(CText ''ns'', CText ns), (CText ''max_version'', CUint n)]"
| "requirement_pairs (ClaimField ct sub f op v) =
     opt_pair ''claim_type'' ct @ opt_pair ''subject'' sub
     @ [(CText ''field'', CText f), (CText ''op'', CText (field_op_as_str op)), (CText ''value'', field_value_to_cbor v)]"
| "requirement_pairs _ = []"

definition requirement_to_cbor :: "requirement \<Rightarrow> cbor_value" where
  "requirement_to_cbor req =
     CMap (sort_key (\<lambda>p. encode_canonical (fst p))
       ((CText ''type'', CText (type_str req)) # requirement_pairs req))"

fun expression_to_cbor :: "policy_expr \<Rightarrow> cbor_value" where
  "expression_to_cbor (ELeaf r) = requirement_to_cbor r"
| "expression_to_cbor (EAll cs) = CMap [(CText ''all'', CArray (map expression_to_cbor cs))]"
| "expression_to_cbor (EAny cs) = CMap [(CText ''any'', CArray (map expression_to_cbor cs))]"
| "expression_to_cbor (ENot c) = CMap [(CText ''not'', expression_to_cbor c)]"
| "expression_to_cbor (EThreshold k opts) = CMap [(CText ''threshold'',
     CMap [(CText ''k'', CUint (word_of_nat k)), (CText ''of'', CArray (map expression_to_cbor opts))])]"

definition policy_map :: "policy \<Rightarrow> cbor_value" where
  "policy_map p = CMap
     ([(CText ''policy_id'', CText (pol_id p)), (CText ''policy_version'', CUint (ucast (pol_version p)))]
      @ (if pol_version p = 2 then
           (case pol_expression p of None \<Rightarrow> [] | Some e \<Rightarrow> [(CText ''expression'', expression_to_cbor e)])
         else [(CText ''requirements'', CArray (map requirement_to_cbor (pol_requirements p)))]))"

definition policy_to_canonical_cbor :: "policy \<Rightarrow> bytes" where
  "policy_to_canonical_cbor p = encode_canonical (policy_map p)"

definition canonical_policy_hash :: "base64_engine \<Rightarrow> hash_engine \<Rightarrow> policy \<Rightarrow> string" where
  "canonical_policy_hash b64 h p =
     ''policy:v'' @ show_nat (unat (pol_version p)) @ '':'' @ b64u_nopad b64 (sha256 h (policy_to_canonical_cbor p))"

section \<open>Canonical bytes identify the policy\<close>

text \<open>
  The leaf map determines the leaf: \<open>leaf_of\<close> reads the variant back from the map entries.
\<close>

fun text_at :: "cbor_value option \<Rightarrow> string" where
  "text_at (Some (CText s)) = s"
| "text_at _ = []"

fun uint_at :: "cbor_value option \<Rightarrow> u64" where
  "uint_at (Some (CUint n)) = n"
| "uint_at _ = 0"

fun opt_text_at :: "cbor_value option \<Rightarrow> string option" where
  "opt_text_at (Some (CText s)) = Some s"
| "opt_text_at _ = None"

fun val_of :: "cbor_value option \<Rightarrow> field_value" where
  "val_of (Some (CText s)) = FText s"
| "val_of (Some (CUint n)) = FUint n"
| "val_of (Some (CBool b)) = FBool b"
| "val_of _ = FBool False"

definition leaf_of :: "(cbor_value \<rightharpoonup> cbor_value) \<Rightarrow> requirement option" where
  "leaf_of m = (let at = (\<lambda>k. m (CText k)) in map_of
     [(''signature_valid'', SignatureValid), (''issuer_trusted'', IssuerTrusted (text_at (at ''issuer''))),
      (''issuer_excluded'', IssuerExcluded (text_at (at ''issuer''))),
      (''relationship_exists'', RelationshipExists (text_at (at ''relationship''))),
      (''not_expired'', NotExpired), (''not_revoked'', NotRevoked), (''not_superseded'', NotSuperseded),
      (''evidence_present'', EvidencePresent (text_at (at ''kind''))), (''transparency_present'', TransparencyPresent),
      (''proof_fresh'', ProofFresh (uint_at (at ''max_age_seconds''))),
      (''delegated_authority'', DelegatedAuthority (text_at (at ''root'')) (text_at (at ''issuer'')) (opt_text_at (at ''scope''))),
      (''identity_bound'', IdentityBound (text_at (at ''a'')) (text_at (at ''b''))),
      (''transparency_inclusion'', TransparencyInclusion (text_at (at ''log''))),
      (''no_conflicting_evidence'', NoConflictingEvidence),
      (''vocabulary_accepted'', VocabularyAccepted (text_at (at ''ns'')) (uint_at (at ''max_version''))),
      (''evidence_usable'', EvidenceUsable (text_at (at ''kind''))), (''evidence_bound'', EvidenceBound (text_at (at ''kind''))),
      (''requires_reference'', RequiresReference (text_at (at ''id''))),
      (''forbids_reference'', ForbidsReference (text_at (at ''id''))),
      (''claim_field'', ClaimField (opt_text_at (at ''claim_type'')) (opt_text_at (at ''subject'')) (text_at (at ''field''))
         (case field_op_parse (text_at (at ''op'')) of Some op \<Rightarrow> op | None \<Rightarrow> FEq) (val_of (at ''value'')))]
     (text_at (at ''type'')))"

lemma field_op_parse_as_str [simp]: "field_op_parse (field_op_as_str op) = Some op"
  by (cases op) (simp_all add: field_op_parse_def)

lemma val_of_field_value [simp]: "val_of (Some (field_value_to_cbor v)) = v"
  by (cases v) simp_all

lemma leaf_of_pairs:
  "leaf_of (map_of ((CText ''type'', CText (type_str r)) # requirement_pairs r)) = Some r"
  by (cases r) (simp_all add: leaf_of_def Let_def opt_pair_def split: option.splits)

lemma requirement_keys_distinct: "distinct (map fst ((CText ''type'', CText (type_str r)) # requirement_pairs r))"
  by (cases r) (simp_all add: opt_pair_def split: option.splits)

lemma map_of_sort_key: "distinct (map fst ps) \<Longrightarrow> map_of (sort_key f ps) = map_of ps"
  by (intro map_of_inject_set [THEN iffD2]) (simp_all add: distinct_map)

lemma requirement_to_cbor_inject: "requirement_to_cbor r = requirement_to_cbor s \<longleftrightarrow> r = s"
proof
  assume "requirement_to_cbor r = requirement_to_cbor s"
  then have "map_of (sort_key (\<lambda>p. encode_canonical (fst p)) ((CText ''type'', CText (type_str r)) # requirement_pairs r))
    = map_of (sort_key (\<lambda>p. encode_canonical (fst p)) ((CText ''type'', CText (type_str s)) # requirement_pairs s))"
    by (simp only: requirement_to_cbor_def cbor_value.inject)
  then show "r = s"
    unfolding map_of_sort_key [OF requirement_keys_distinct] by (metis leaf_of_pairs option.inject)
qed simp



text \<open>Leaf maps and expression maps are already in canonical order.\<close>

lemma entries_requirement_pairs: "entries (requirement_pairs r) = requirement_pairs r"
proof -
  have "sort_maps (field_value_to_cbor v) = field_value_to_cbor v" for v by (cases v) simp_all
  then show ?thesis by (cases r) (simp_all add: opt_pair_def split: option.splits)
qed

lemma entries_id_iff: "entries ps = ps \<longleftrightarrow> (\<forall>p \<in> set ps. sort_maps (fst p) = fst p \<and> sort_maps (snd p) = snd p)"
  unfolding entries_def by (induction ps) (auto simp: prod_eq_iff case_prod_unfold)

lemma sort_maps_sorted_flat:
  assumes "entries ps = ps"
  shows "sort_maps (CMap (sort_key (\<lambda>p. encode_canonical (fst p)) ps)) = CMap (sort_key (\<lambda>p. encode_canonical (fst p)) ps)"
proof -
  have "entries (sort_key (\<lambda>p. encode_canonical (fst p)) ps) = sort_key (\<lambda>p. encode_canonical (fst p)) ps"
    using assms by (simp only: entries_id_iff set_sort)
  then show ?thesis unfolding sort_maps_CMap by (simp only: sort_key_id_if_sorted sorted_sort_key)
qed

lemma sort_maps_requirement [simp]: "sort_maps (requirement_to_cbor r) = requirement_to_cbor r"
  unfolding requirement_to_cbor_def by (rule sort_maps_sorted_flat) (simp add: entries_requirement_pairs)

lemma sort_maps_expression [simp]: "sort_maps (expression_to_cbor e) = expression_to_cbor e"
  by (induction e rule: expression_to_cbor.induct) (simp_all add: sort_maps_CMap comp_def encode_eval cong: map_cong)

fun thresholds_ok :: "policy_expr \<Rightarrow> bool" where
  "thresholds_ok (ELeaf _) = True"
| "thresholds_ok (EAll cs) = list_all thresholds_ok cs"
| "thresholds_ok (EAny cs) = list_all thresholds_ok cs"
| "thresholds_ok (ENot c) = thresholds_ok c"
| "thresholds_ok (EThreshold k opts) = (k < 2 ^ usize_bits \<and> list_all thresholds_ok opts)"

lemma leaf_map_has_type: "requirement_to_cbor r = CMap ps \<Longrightarrow> map_of ps (CText ''type'') \<noteq> None"
  unfolding requirement_to_cbor_def cbor_value.inject
  using map_of_sort_key [OF requirement_keys_distinct [of r], of "\<lambda>p. encode_canonical (fst p)"] by force

lemma leaf_map_lacks [simp]:
  "k \<noteq> ''type'' \<Longrightarrow> requirement_to_cbor r \<noteq> CMap [(CText k, v)]"
  "k \<noteq> ''type'' \<Longrightarrow> CMap [(CText k, v)] \<noteq> requirement_to_cbor r"
proof -
  show *: "requirement_to_cbor r \<noteq> CMap [(CText k, v)]" if "k \<noteq> ''type''" for k v
  proof
    assume "requirement_to_cbor r = CMap [(CText k, v)]"
    from leaf_map_has_type [OF this] that show False by simp
  qed
  show "CMap [(CText k, v)] \<noteq> requirement_to_cbor r" if "k \<noteq> ''type''"
    using * [OF that] by metis
qed

lemma map_inject_on:
  "map f xs = map f ys \<Longrightarrow> (\<And>x y. x \<in> set xs \<Longrightarrow> y \<in> set ys \<Longrightarrow> f x = f y \<Longrightarrow> x = y) \<Longrightarrow> xs = ys"
  by (induction xs arbitrary: ys) (auto simp: Cons_eq_map_conv)

lemma expression_lists_inject:
  assumes "\<And>x y. x \<in> set cs \<Longrightarrow> thresholds_ok x \<Longrightarrow> thresholds_ok y \<Longrightarrow> expression_to_cbor x = expression_to_cbor y \<Longrightarrow> x = y"
    and "list_all thresholds_ok cs" "list_all thresholds_ok ds"
    and "map expression_to_cbor cs = map expression_to_cbor ds"
  shows "cs = ds"
  using assms(4) by (rule map_inject_on) (use assms(1-3) in \<open>simp add: list_all_iff\<close>)

lemma expression_to_cbor_inject:
  "thresholds_ok e \<Longrightarrow> thresholds_ok e' \<Longrightarrow> expression_to_cbor e = expression_to_cbor e' \<Longrightarrow> e = e'"
proof (induction e arbitrary: e' rule: expression_to_cbor.induct)
  case (1 r)
  then show ?case by (cases e') (simp_all add: requirement_to_cbor_inject)
next
  case (2 cs)
  show ?case
  proof (cases e')
    case (EAll ds)
    with "2.prems" have "cs = ds" by (intro expression_lists_inject [OF "2.IH"]) simp_all
    with EAll show ?thesis by simp
  qed (use "2.prems" in simp_all)
next
  case (3 cs)
  show ?case
  proof (cases e')
    case (EAny ds)
    with "3.prems" have "cs = ds" by (intro expression_lists_inject [OF "3.IH"]) simp_all
    with EAny show ?thesis by simp
  qed (use "3.prems" in simp_all)
next
  case (4 c)
  show ?case
  proof (cases e')
    case (ENot d)
    with "4.prems" have "c = d" by (intro "4.IH") simp_all
    with ENot show ?thesis by simp
  qed (use "4.prems" in simp_all)
next
  case (5 k cs)
  show ?case
  proof (cases e')
    case (EThreshold j ds)
    with "5.prems" have "cs = ds" by (intro expression_lists_inject [OF "5.IH"]) simp_all
    moreover have "word_of_nat k = (word_of_nat j :: u64)" "k < 2 ^ 64" "j < 2 ^ 64"
      using "5.prems" EThreshold by (simp_all add: usize_bits_def)
    then have "k = j" by (simp add: word_of_nat_eq_iff take_bit_nat_eq_self)
    ultimately show ?thesis using EThreshold by simp
  qed (use "5.prems" in simp_all)
qed


definition policy_shape :: "policy \<Rightarrow> bool" where
  "policy_shape p \<longleftrightarrow>
     (if pol_version p = 2
      then pol_requirements p = [] \<and> (case pol_expression p of None \<Rightarrow> True | Some e \<Rightarrow> thresholds_ok e)
      else pol_expression p = None)"

lemma policy_lookup:
  assumes "policy_map p = CMap ps"
  shows "map_of (entries ps) (CText ''policy_id'') = Some (CText (pol_id p))"
    "map_of (entries ps) (CText ''policy_version'') = Some (CUint (ucast (pol_version p)))"
    "map_of (entries ps) (CText ''expression'') =
       (if pol_version p = 2 then map_option expression_to_cbor (pol_expression p) else None)"
    "map_of (entries ps) (CText ''requirements'') =
       (if pol_version p = 2 then None else Some (CArray (map requirement_to_cbor (pol_requirements p))))"
  using assms [unfolded policy_map_def cbor_value.inject, symmetric]
  by (simp_all add: comp_def split: option.splits)

lemma ucast_version_inject: "ucast (v :: u8) = (ucast w :: u64) \<longleftrightarrow> v = w"
  by transfer (simp add: take_bit_eq_mod)

lemma policy_bytes_inject:
  assumes "wf_value l 0 (policy_map p)" "wf_value l 0 (policy_map q)" "policy_shape p" "policy_shape q"
    and eq: "policy_to_canonical_cbor p = policy_to_canonical_cbor q"
  shows "p = q"
proof -
  obtain ps qs where ps: "policy_map p = CMap ps" and qs: "policy_map q = CMap qs"
    by (simp add: policy_map_def)
  have "sort_maps (CMap ps) = sort_maps (CMap qs)"
    using eq enc_eq_entries assms(1,2) unfolding policy_to_canonical_cbor_def ps qs by blast
  then have m: "map_of (entries ps) = map_of (entries qs)"
    using entries_lookup assms(1,2) unfolding ps qs by blast
  note L = policy_lookup [OF ps, unfolded m] policy_lookup [OF qs]
  have i: "pol_id p = pol_id q" using L(1,5) by simp
  have v: "pol_version p = pol_version q" using L(2,6) by (simp add: ucast_version_inject)
  have "pol_requirements p = pol_requirements q"
    using L(4,8) v assms(3,4) by (auto simp: policy_shape_def inj_map_eq_map inj_def requirement_to_cbor_inject split: if_splits)
  moreover have "pol_expression p = pol_expression q"
    using L(3,7) v assms(3,4) expression_to_cbor_inject
    by (auto simp: policy_shape_def split: if_splits option.splits)
  ultimately show ?thesis using i v by simp
qed

section \<open>Properties\<close>

lemma show_nat_digits: "set (show_nat n) \<subseteq> set ''0123456789''"
proof (induction n rule: show_nat.induct)
  case (1 n)
  have "dec_digit k \<in> set ''0123456789''" for k unfolding dec_digit_def by (rule nth_mem) simp
  with 1 show ?case by (subst show_nat.simps) auto
qed

lemma dec_digit_eq: "dec_digit m = dec_digit n \<longleftrightarrow> m mod 10 = n mod 10"
proof -
  have "distinct ''0123456789''" by simp
  then show ?thesis unfolding dec_digit_def by (subst nth_eq_iff_index_eq) simp_all
qed

lemma show_nat_nonempty: "show_nat n \<noteq> []" "[] \<noteq> show_nat n"
  by (subst show_nat.simps, simp)+

lemma show_nat_inject: "show_nat m = show_nat n \<Longrightarrow> m = n"
proof (induction m arbitrary: n rule: show_nat.induct)
  case (1 m)
  consider "m < 10" "n < 10" | "m < 10" "\<not> n < 10" | "\<not> m < 10" "n < 10" | "\<not> m < 10" "\<not> n < 10" by blast
  then show ?case
  proof cases
    case 1
    with "1.prems" show ?thesis by (simp add: show_nat.simps [of m] show_nat.simps [of n] dec_digit_eq)
  next
    case 4
    with "1.prems" have "show_nat (m div 10) = show_nat (n div 10)" "m mod 10 = n mod 10"
      by (simp_all add: show_nat.simps [of m] show_nat.simps [of n] dec_digit_eq)
    with "1.IH" [OF 4(1)] have "m div 10 = n div 10" by simp
    with \<open>m mod 10 = n mod 10\<close> show ?thesis by (metis div_mult_mod_eq)
  qed (use "1.prems" show_nat_nonempty in \<open>simp_all add: show_nat.simps [of m] show_nat.simps [of n]\<close>)
qed

lemma show_nat_colon: "show_nat m @ CHR '':'' # s = show_nat n @ CHR '':'' # t \<longleftrightarrow> m = n \<and> s = t"
proof -
  have "takeWhile (\<lambda>c. c \<noteq> CHR '':'') (show_nat k @ CHR '':'' # u) = show_nat k" for k u
    using show_nat_digits [of k] by (subst takeWhile_append2) auto
  then show ?thesis using show_nat_inject by (metis same_append_eq list.inject)
qed

text \<open>
  The canonical bytes identify the policy: two policies with the shape of parsed ones have
  the same canonical bytes only if they are equal, so the policy hash, which binds the version
  and the digest of these bytes, names one policy up to collisions of the hash.
\<close>

theorem policy_bytes_identify_policy:
  assumes "wf_value l 0 (policy_map p)" "wf_value l 0 (policy_map q)" "policy_shape p" "policy_shape q" "b64_law b64"
  shows "(policy_to_canonical_cbor p = policy_to_canonical_cbor q \<longleftrightarrow> p = q)
    \<and> (canonical_policy_hash b64 h p = canonical_policy_hash b64 h q \<longleftrightarrow>
        pol_version p = pol_version q \<and> sha256 h (policy_to_canonical_cbor p) = sha256 h (policy_to_canonical_cbor q))"
  using policy_bytes_inject [OF assms(1-4)] assms(5)
  by (auto simp: canonical_policy_hash_def b64u_nopad_def b64_encode_inject show_nat_colon
      word_unat_eq_iff [symmetric])

definition sample_policy :: "nat \<Rightarrow> policy" where
  "sample_policy k = \<lparr>pol_version = 2, pol_id = ''p'', pol_requirements = [],
     pol_expression = Some (EThreshold k [ELeaf SignatureValid, ENot (ELeaf (IssuerExcluded ''key:ed25519:A''))])\<rparr>"

theorem policy_bytes_identify_policy_witness:
  "policy_to_canonical_cbor (sample_policy 1) \<noteq> policy_to_canonical_cbor (sample_policy 2)"
proof -
  have "wf_value default_limits 0 (policy_map (sample_policy k))" for k
    by (simp add: policy_map_def sample_policy_def default_limits_def encode_eval requirement_to_cbor_def)
  moreover have "policy_shape (sample_policy 1)" "policy_shape (sample_policy 2)"
    by (simp_all add: policy_shape_def sample_policy_def usize_bits_def)
  ultimately have "policy_to_canonical_cbor (sample_policy 1) = policy_to_canonical_cbor (sample_policy 2)
      \<longleftrightarrow> sample_policy 1 = sample_policy 2"
    using policy_bytes_identify_policy [of default_limits "sample_policy 1" "sample_policy 2" plain_b64 zero_hash] engine_laws
    by blast
  then show ?thesis by (simp add: sample_policy_def)
qed

end
