(* ===== verification/Policy_Parse.thy ===== *)
theory Policy_Parse
  imports Policy
begin

text \<open>
  The policy parser, \<^verbatim>\<open>parse_policy\<close> of \<^verbatim>\<open>proof-policy/src/policy.rs\<close> and \<^verbatim>\<open>parse_expression\<close> of
  \<^verbatim>\<open>expr.rs\<close>, from JSON documents, with its node budget. \<^verbatim>\<open>serde_json::Value\<close> is the datatype
  \<open>json\<close> with the constructors of that type; a number keeps what \<^verbatim>\<open>as_u64\<close> distinguishes. An
  object is the list of its entries, in which keys are distinct. Error texts, and the \<^verbatim>\<open>what\<close>
  argument that only feeds them, are not modelled.
\<close>

section \<open>Parsing\<close>

datatype json_number = PosInt u64 | NegInt i64 | FloatNum

datatype json =
    JNull
  | JBool bool
  | JNumber json_number
  | JString string
  | JArray "json list"
  | JObject "(string \<times> json) list"

type_synonym json_obj = "(string \<times> json) list"

fun as_u64 :: "json_number \<Rightarrow> u64 option" where
  "as_u64 (PosInt n) = Some n"
| "as_u64 (NegInt _) = None"
| "as_u64 FloatNum = None"

fun as_object :: "json \<Rightarrow> json_obj result" where
  "as_object (JObject m) = Inr m"
| "as_object _ = Inl PolicyInvalid"

fun as_array :: "json \<Rightarrow> json list result" where
  "as_array (JArray xs) = Inr xs"
| "as_array _ = Inl PolicyInvalid"

definition obj_get :: "json_obj \<Rightarrow> string \<Rightarrow> json result" where
  "obj_get m k = ok_or (map_of m k) PolicyInvalid"

definition contains_key :: "json_obj \<Rightarrow> string \<Rightarrow> bool" where
  "contains_key m k \<longleftrightarrow> map_of m k \<noteq> None"

definition reject_extra_keys :: "json_obj \<Rightarrow> string list \<Rightarrow> unit result" where
  "reject_extra_keys m allowed =
     eachR (\<lambda>k. if k \<notin> set allowed then Inl PolicyInvalid else Inr ()) (map fst m)"

definition req_string :: "json_obj \<Rightarrow> string \<Rightarrow> string result" where
  "req_string m k = (case map_of m k of Some (JString s) \<Rightarrow> Inr s | _ \<Rightarrow> Inl PolicyInvalid)"

definition req_u64 :: "json_obj \<Rightarrow> string \<Rightarrow> u64 result" where
  "req_u64 m k = (case map_of m k of Some (JNumber n) \<Rightarrow> ok_or (as_u64 n) PolicyInvalid | _ \<Rightarrow> Inl PolicyInvalid)"

definition opt_nonempty :: "json_obj \<Rightarrow> string \<Rightarrow> string option result" where
  "opt_nonempty m k = (case map_of m k of
      None \<Rightarrow> Inr None
    | Some (JString s) \<Rightarrow> if s \<noteq> [] then Inr (Some s) else Inl PolicyInvalid
    | Some _ \<Rightarrow> Inl PolicyInvalid)"

definition KEYREF_PREFIXES :: "string list" where
  "KEYREF_PREFIXES = [''key:ed25519:'', ''key:p256:'']"

definition is_supported_keyref :: "string \<Rightarrow> bool" where
  "is_supported_keyref s \<longleftrightarrow> list_ex (\<lambda>p. starts_with s p \<and> length s > length p) KEYREF_PREFIXES"

definition require_keyref :: "json_obj \<Rightarrow> string \<Rightarrow> string result" where
  "require_keyref m k = bindR (req_string m k) (\<lambda>v. if \<not> is_supported_keyref v then Inl PolicyInvalid else Inr v)"

definition require_proof_ref :: "base64_engine \<Rightarrow> json_obj \<Rightarrow> string \<Rightarrow> string result" where
  "require_proof_ref b64 m k = bindR (req_string m k) (\<lambda>v.
     case check_proof_ref_shape_id b64 v of Inl _ \<Rightarrow> Inl PolicyInvalid | Inr _ \<Rightarrow> Inr v)"

definition parse_field_value :: "json_obj \<Rightarrow> field_value result" where
  "parse_field_value m = (case map_of m ''value'' of
      Some (JString s) \<Rightarrow> Inr (FText s)
    | Some (JNumber n) \<Rightarrow> bindR (ok_or (as_u64 n) PolicyInvalid) (\<lambda>u. Inr (FUint u))
    | Some (JBool b) \<Rightarrow> Inr (FBool b)
    | _ \<Rightarrow> Inl PolicyInvalid)"

fun op_allowed :: "field_value \<Rightarrow> field_op \<Rightarrow> bool" where
  "op_allowed (FUint _) _ = True"
| "op_allowed _ FEq = True"
| "op_allowed _ FNe = True"
| "op_allowed _ _ = False"

definition parse_claim_field :: "json_obj \<Rightarrow> requirement result" where
  "parse_claim_field m =
     bindR (reject_extra_keys m [''type'', ''claim_type'', ''subject'', ''field'', ''op'', ''value'']) (\<lambda>_.
     bindR (opt_nonempty m ''claim_type'') (\<lambda>ct.
     bindR (opt_nonempty m ''subject'') (\<lambda>sub.
     bindR (req_string m ''field'') (\<lambda>f.
     if f = [] \<or> length f > 128 then Inl PolicyInvalid
     else if f = ''type'' then Inl PolicyInvalid
     else
     bindR (req_string m ''op'') (\<lambda>op_s.
     bindR (ok_or (field_op_parse op_s) PolicyInvalid) (\<lambda>op.
     bindR (parse_field_value m) (\<lambda>v.
     if \<not> op_allowed v op then Inl PolicyInvalid
     else Inr (ClaimField ct sub f op v))))))))"

definition V2_LEAVES :: "string list" where
  "V2_LEAVES = [''delegated_authority'', ''identity_bound'', ''transparency_inclusion'',
     ''no_conflicting_evidence'', ''vocabulary_accepted'', ''evidence_usable'', ''evidence_bound'',
     ''requires_reference'', ''forbids_reference'', ''claim_field'']"

definition parse_requirement_inner :: "base64_engine \<Rightarrow> json_obj \<Rightarrow> bool \<Rightarrow> requirement result" where
  "parse_requirement_inner b64 m v1_only =
     bindR (req_string m ''type'') (\<lambda>t.
     if v1_only \<and> t \<in> set V2_LEAVES then Inl PolicyInvalid
     else if t = ''signature_valid'' then
       bindR (reject_extra_keys m [''type'']) (\<lambda>_. Inr SignatureValid)
     else if t = ''issuer_trusted'' then
       bindR (reject_extra_keys m [''type'', ''issuer'']) (\<lambda>_.
       bindR (req_string m ''issuer'') (\<lambda>issuer.
       if \<not> is_supported_keyref issuer then Inl PolicyInvalid else Inr (IssuerTrusted issuer)))
     else if t = ''issuer_excluded'' then
       bindR (reject_extra_keys m [''type'', ''issuer'']) (\<lambda>_.
       bindR (req_string m ''issuer'') (\<lambda>issuer.
       if \<not> is_supported_keyref issuer then Inl PolicyInvalid else Inr (IssuerExcluded issuer)))
     else if t = ''relationship_exists'' then
       bindR (reject_extra_keys m [''type'', ''relationship'']) (\<lambda>_.
       bindR (req_string m ''relationship'') (\<lambda>r. Inr (RelationshipExists r)))
     else if t = ''not_expired'' then
       bindR (reject_extra_keys m [''type'']) (\<lambda>_. Inr NotExpired)
     else if t = ''not_revoked'' then
       bindR (reject_extra_keys m [''type'']) (\<lambda>_. Inr NotRevoked)
     else if t = ''not_superseded'' then
       bindR (reject_extra_keys m [''type'']) (\<lambda>_. Inr NotSuperseded)
     else if t = ''evidence_present'' then
       bindR (reject_extra_keys m [''type'', ''kind'']) (\<lambda>_.
       bindR (req_string m ''kind'') (\<lambda>k. Inr (EvidencePresent k)))
     else if t = ''transparency_present'' then
       bindR (reject_extra_keys m [''type'']) (\<lambda>_. Inr TransparencyPresent)
     else if t = ''proof_fresh'' then
       bindR (reject_extra_keys m [''type'', ''max_age_seconds'']) (\<lambda>_.
       bindR (req_u64 m ''max_age_seconds'') (\<lambda>n. Inr (ProofFresh n)))
     else if t = ''delegated_authority'' then
       bindR (reject_extra_keys m [''type'', ''root'', ''issuer'', ''scope'']) (\<lambda>_.
       bindR (opt_nonempty m ''scope'') (\<lambda>scope.
       bindR (require_keyref m ''root'') (\<lambda>root.
       bindR (require_keyref m ''issuer'') (\<lambda>issuer.
       Inr (DelegatedAuthority root issuer scope)))))
     else if t = ''identity_bound'' then
       bindR (reject_extra_keys m [''type'', ''a'', ''b'']) (\<lambda>_.
       bindR (req_string m ''a'') (\<lambda>a.
       bindR (req_string m ''b'') (\<lambda>b.
       if a = [] \<or> b = [] then Inl PolicyInvalid else Inr (IdentityBound a b))))
     else if t = ''transparency_inclusion'' then
       bindR (reject_extra_keys m [''type'', ''log'']) (\<lambda>_.
       bindR (require_keyref m ''log'') (\<lambda>log. Inr (TransparencyInclusion log)))
     else if t = ''no_conflicting_evidence'' then
       bindR (reject_extra_keys m [''type'']) (\<lambda>_. Inr NoConflictingEvidence)
     else if t = ''vocabulary_accepted'' then
       bindR (reject_extra_keys m [''type'', ''ns'', ''max_version'']) (\<lambda>_.
       bindR (req_string m ''ns'') (\<lambda>ns.
       if ns = [] \<or> length ns > 128 then Inl PolicyInvalid
       else bindR (req_u64 m ''max_version'') (\<lambda>n. Inr (VocabularyAccepted ns n))))
     else if t = ''evidence_usable'' then
       bindR (reject_extra_keys m [''type'', ''kind'']) (\<lambda>_.
       bindR (req_string m ''kind'') (\<lambda>k. Inr (EvidenceUsable k)))
     else if t = ''evidence_bound'' then
       bindR (reject_extra_keys m [''type'', ''kind'']) (\<lambda>_.
       bindR (req_string m ''kind'') (\<lambda>k. Inr (EvidenceBound k)))
     else if t = ''requires_reference'' then
       bindR (reject_extra_keys m [''type'', ''id'']) (\<lambda>_.
       bindR (require_proof_ref b64 m ''id'') (\<lambda>i. Inr (RequiresReference i)))
     else if t = ''forbids_reference'' then
       bindR (reject_extra_keys m [''type'', ''id'']) (\<lambda>_.
       bindR (require_proof_ref b64 m ''id'') (\<lambda>i. Inr (ForbidsReference i)))
     else if t = ''claim_field'' then parse_claim_field m
     else Inl PolicyInvalid)"

definition parse_requirement :: "base64_engine \<Rightarrow> json \<Rightarrow> requirement result" where
  "parse_requirement b64 v = bindR (as_object v) (\<lambda>m. parse_requirement_inner b64 m True)"

definition parse_requirement_v2_leaf :: "base64_engine \<Rightarrow> json_obj \<Rightarrow> requirement result" where
  "parse_requirement_v2_leaf b64 m = parse_requirement_inner b64 m False"

definition connectives :: "json_obj \<Rightarrow> string list" where
  "connectives m = filter (contains_key m) [''all'', ''any'', ''not'', ''threshold'']"

lemma size_map_of: "map_of m k = Some v \<Longrightarrow> size v < size (JObject m)"
proof -
  assume "map_of m k = Some v"
  then have "(k, v) \<in> set m" by (rule map_of_SomeD)
  then show ?thesis by (induction m) auto
qed

lemma size_map_of_nested:
  "map_of m k = Some (JObject m') \<Longrightarrow> map_of m' k' = Some v \<Longrightarrow> size v < size (JObject m)"
  by (drule size_map_of)+ simp

lemma as_object_Inr [result_iff]: "as_object v = Inr m \<longleftrightarrow> v = JObject m"
  by (cases v) auto

lemma as_array_Inr [result_iff]: "as_array v = Inr xs \<longleftrightarrow> v = JArray xs"
  by (cases v) auto

lemma obj_get_Inr [result_iff]: "obj_get m k = Inr v \<longleftrightarrow> map_of m k = Some v"
  by (auto simp: obj_get_def ok_or_def split: option.splits)

text \<open>The remaining node budget is threaded through the parse, as the source threads \<^verbatim>\<open>&mut budget\<close>.\<close>

function (sequential) parse_expression :: "base64_engine \<Rightarrow> json \<Rightarrow> nat \<Rightarrow> (policy_expr \<times> nat) result"
  and parse_expressions :: "base64_engine \<Rightarrow> json list \<Rightarrow> nat \<Rightarrow> (policy_expr list \<times> nat) result" where
  "parse_expression b64 v budget =
     (if budget = 0 then Inl LimitExceeded
      else bindR (as_object v) (\<lambda>m.
      if contains_key m ''type'' then
        bindR (parse_requirement_v2_leaf b64 m) (\<lambda>r. Inr (ELeaf r, budget - 1))
      else case connectives m of
        [kind] \<Rightarrow>
          if kind = ''all'' \<or> kind = ''any'' then
            bindR (reject_extra_keys m [kind]) (\<lambda>_.
            bindR (obj_get m kind) (\<lambda>w.
            bindR (as_array w) (\<lambda>items.
            if items = [] then Inl PolicyInvalid
            else bindR (parse_expressions b64 items (budget - 1)) (\<lambda>(out, rest).
            Inr (if kind = ''all'' then EAll out else EAny out, rest)))))
          else if kind = ''not'' then
            bindR (reject_extra_keys m [''not'']) (\<lambda>_.
            bindR (obj_get m ''not'') (\<lambda>w.
            bindR (parse_expression b64 w (budget - 1)) (\<lambda>(c, rest). Inr (ENot c, rest))))
          else if kind = ''threshold'' then
            bindR (reject_extra_keys m [''threshold'']) (\<lambda>_.
            bindR (obj_get m ''threshold'') (\<lambda>w.
            bindR (as_object w) (\<lambda>t.
            bindR (reject_extra_keys t [''k'', ''of'']) (\<lambda>_.
            bindR (req_u64 t ''k'') (\<lambda>k.
            bindR (obj_get t ''of'') (\<lambda>u.
            bindR (as_array u) (\<lambda>options.
            if options = [] then Inl PolicyInvalid
            else if k = 0 \<or> unat k > length options then Inl PolicyInvalid
            else bindR (parse_expressions b64 options (budget - 1)) (\<lambda>(out, rest).
            Inr (EThreshold (unat k) out, rest)))))))))
          else Inl PolicyInvalid
      | _ \<Rightarrow> Inl PolicyInvalid))"
| "parse_expressions b64 [] budget = Inr ([], budget)"
| "parse_expressions b64 (v # vs) budget =
     bindR (parse_expression b64 v budget) (\<lambda>(e, rest).
     bindR (parse_expressions b64 vs rest) (\<lambda>(es, rest'). Inr (e # es, rest')))"
  by pat_completeness auto
termination
  by (relation "measure (\<lambda>x. case x of Inl (_, v, _) \<Rightarrow> size v | Inr (_, vs, _) \<Rightarrow> size_list size vs)")
    (auto simp: result_iff dest: size_map_of size_map_of_nested)

definition parse_policy :: "base64_engine \<Rightarrow> json \<Rightarrow> limits \<Rightarrow> policy result" where
  "parse_policy b64 v l =
     bindR (as_object v) (\<lambda>root.
     bindR (req_u64 root ''policy_version'') (\<lambda>version.
     bindR (req_string root ''policy_id'') (\<lambda>i.
     if i = [] \<or> length i > 128 then Inl PolicyInvalid
     else if version = 1 then
       bindR (reject_extra_keys root [''policy_version'', ''policy_id'', ''requirements'']) (\<lambda>_.
       bindR (obj_get root ''requirements'') (\<lambda>reqs.
       bindR (as_array reqs) (\<lambda>reqs.
       if reqs = [] then Inl PolicyInvalid
       else if length reqs > max_policy_requirements l then Inl LimitExceeded
       else bindR (mapR (parse_requirement b64) reqs) (\<lambda>out.
       Inr \<lparr>pol_version = 1, pol_id = i, pol_requirements = out, pol_expression = None\<rparr>))))
     else if version = 2 then
       bindR (reject_extra_keys root [''policy_version'', ''policy_id'', ''expression'']) (\<lambda>_.
       if contains_key root ''requirements'' then Inl PolicyInvalid
       else bindR (obj_get root ''expression'') (\<lambda>w.
       bindR (parse_expression b64 w (max_policy_requirements l)) (\<lambda>(e, _).
       Inr \<lparr>pol_version = 2, pol_id = i, pol_requirements = [], pol_expression = Some e\<rparr>)))
     else Inl UnsupportedVersion)))"

section \<open>What the parser accepts\<close>

text \<open>
  \<open>policy_ok\<close> is the declarative reading of the documented schema: bounds on the id, closed
  leaf sets per version, supported key references, non-empty connectives, satisfiable
  thresholds, and the node bound.
\<close>

fun leaf_ok :: "base64_engine \<Rightarrow> requirement \<Rightarrow> bool" where
  "leaf_ok b64 (IssuerTrusted i) = is_supported_keyref i"
| "leaf_ok b64 (IssuerExcluded i) = is_supported_keyref i"
| "leaf_ok b64 (DelegatedAuthority root i scope) =
     (is_supported_keyref root \<and> is_supported_keyref i \<and> scope \<noteq> Some [])"
| "leaf_ok b64 (IdentityBound a b) = (a \<noteq> [] \<and> b \<noteq> [])"
| "leaf_ok b64 (TransparencyInclusion log) = is_supported_keyref log"
| "leaf_ok b64 (VocabularyAccepted ns n) = (ns \<noteq> [] \<and> length ns \<le> 128)"
| "leaf_ok b64 (RequiresReference i) = (check_proof_ref_shape_id b64 i = Inr ())"
| "leaf_ok b64 (ForbidsReference i) = (check_proof_ref_shape_id b64 i = Inr ())"
| "leaf_ok b64 (ClaimField ct sub f op v) =
     (ct \<noteq> Some [] \<and> sub \<noteq> Some [] \<and> f \<noteq> [] \<and> length f \<le> 128 \<and> f \<noteq> ''type'' \<and> op_allowed v op)"
| "leaf_ok b64 _ = True"

fun expr_ok :: "base64_engine \<Rightarrow> policy_expr \<Rightarrow> bool" where
  "expr_ok b64 (ELeaf r) = leaf_ok b64 r"
| "expr_ok b64 (EAll cs) = (cs \<noteq> [] \<and> list_all (expr_ok b64) cs)"
| "expr_ok b64 (EAny cs) = (cs \<noteq> [] \<and> list_all (expr_ok b64) cs)"
| "expr_ok b64 (ENot c) = expr_ok b64 c"
| "expr_ok b64 (EThreshold k cs) = (1 \<le> k \<and> k \<le> length cs \<and> k < 2 ^ usize_bits \<and> list_all (expr_ok b64) cs)"

definition policy_ok :: "base64_engine \<Rightarrow> limits \<Rightarrow> policy \<Rightarrow> bool" where
  "policy_ok b64 l p \<longleftrightarrow> pol_id p \<noteq> [] \<and> length (pol_id p) \<le> 128 \<and>
     (case pol_expression p of
        None \<Rightarrow> pol_version p = 1 \<and> pol_requirements p \<noteq> []
          \<and> length (pol_requirements p) \<le> max_policy_requirements l
          \<and> list_all (\<lambda>r. leaf_ok b64 r \<and> \<not> is_v2_only r) (pol_requirements p)
      | Some e \<Rightarrow> pol_version p = 2 \<and> pol_requirements p = [] \<and> expr_ok b64 e
          \<and> node_count e \<le> max_policy_requirements l)"

lemma req_string_Inr [result_iff]: "req_string m k = Inr s \<longleftrightarrow> map_of m k = Some (JString s)"
  by (auto simp: req_string_def split: option.splits json.splits)

lemma as_u64_Some [simp]: "as_u64 n = Some u \<longleftrightarrow> n = PosInt u"
  by (cases n) auto

lemma req_u64_Inr [result_iff]: "req_u64 m k = Inr n \<longleftrightarrow> map_of m k = Some (JNumber (PosInt n))"
  by (auto simp: req_u64_def result_iff split: option.splits json.splits)

lemma opt_nonempty_Inr [result_iff]:
  "opt_nonempty m k = Inr x \<longleftrightarrow> x \<noteq> Some [] \<and> map_of m k = map_option JString x"
  by (cases x) (auto simp: opt_nonempty_def split: option.splits json.splits if_splits)

lemma require_keyref_Inr [result_iff]:
  "require_keyref m k = Inr s \<longleftrightarrow> map_of m k = Some (JString s) \<and> is_supported_keyref s"
  by (auto simp: require_keyref_def result_iff)

lemma not_Inl_unit: "(\<forall>e. r \<noteq> Inl e) \<longleftrightarrow> r = Inr ()"
  by (cases r) auto

lemma require_proof_ref_Inr [result_iff]:
  "require_proof_ref b64 m k = Inr s \<longleftrightarrow> map_of m k = Some (JString s) \<and> check_proof_ref_shape_id b64 s = Inr ()"
  by (auto simp: require_proof_ref_def result_iff not_Inl_unit split: sum.splits)

lemma reject_extra_keys_Inr [result_iff]:
  "reject_extra_keys m ks = Inr () \<longleftrightarrow> fst ` set m \<subseteq> set ks"
  by (auto simp: reject_extra_keys_def result_iff)

lemma parse_claim_field_sound: "parse_claim_field m = Inr r \<Longrightarrow> leaf_ok b64 r \<and> type_str r = ''claim_field''"
  by (auto simp: parse_claim_field_def result_iff)

lemma v2_leaf_names: "is_v2_only r \<longleftrightarrow> type_str r \<in> set V2_LEAVES"
  by (cases r) (simp_all add: V2_LEAVES_def)

lemma parse_leaf_sound:
  "parse_requirement_inner b64 m v1 = Inr r \<Longrightarrow>
     leaf_ok b64 r \<and> map_of m ''type'' = Some (JString (type_str r)) \<and> (v1 \<longrightarrow> \<not> is_v2_only r)"
  unfolding parse_requirement_inner_def bindR_Inr_iff req_string_Inr v2_leaf_names
  by (elim exE conjE, split if_split_asm, simp)
    (auto simp: result_iff split: if_splits dest: parse_claim_field_sound)


declare parse_expression.simps [simp del]

lemma parse_expressions_Inr:
  "parse_expressions b64 (v # vs) n = Inr (es, rest) \<longleftrightarrow>
     (\<exists>e k es'. parse_expression b64 v n = Inr (e, k) \<and> parse_expressions b64 vs k = Inr (es', rest) \<and> es = e # es')"
  by (auto simp: result_iff split: prod.splits)

lemma connectives_known: "connectives m = [k] \<Longrightarrow> k \<in> {''all'', ''any'', ''not'', ''threshold''}"
proof -
  assume "connectives m = [k]"
  then have "k \<in> set (connectives m)" by simp
  then show ?thesis unfolding connectives_def set_filter by auto
qed

text \<open>The four ways in which an expression object parses.\<close>

lemma parse_expression_cases [consumes 1, case_names leaf all any_of negation threshold]:
  assumes "parse_expression b64 v n = Inr (e, rest)"
  obtains (leaf) m r where "n \<noteq> 0" "v = JObject m" "parse_requirement_inner b64 m False = Inr r" "e = ELeaf r" "rest = n - 1"
  | (all) m vs es where "n \<noteq> 0" "v = JObject m" "map_of m ''all'' = Some (JArray vs)" "vs \<noteq> []"
      "parse_expressions b64 vs (n - 1) = Inr (es, rest)" "e = EAll es" "fst ` set m \<subseteq> {''all''}"
  | (any_of) m vs es where "n \<noteq> 0" "v = JObject m" "map_of m ''any'' = Some (JArray vs)" "vs \<noteq> []"
      "parse_expressions b64 vs (n - 1) = Inr (es, rest)" "e = EAny es" "fst ` set m \<subseteq> {''any''}"
  | (negation) m w c where "n \<noteq> 0" "v = JObject m" "map_of m ''not'' = Some w"
      "parse_expression b64 w (n - 1) = Inr (c, rest)" "e = ENot c" "fst ` set m \<subseteq> {''not''}"
  | (threshold) m t k vs es where "n \<noteq> 0" "v = JObject m" "map_of m ''threshold'' = Some (JObject t)"
      "map_of t ''of'' = Some (JArray vs)" "k \<noteq> 0" "unat (k :: u64) \<le> length vs"
      "parse_expressions b64 vs (n - 1) = Inr (es, rest)" "e = EThreshold (unat k) es" "fst ` set m \<subseteq> {''threshold''}"
      "fst ` set t \<subseteq> {''k'', ''of''}" "map_of t ''k'' = Some (JNumber (PosInt k))"
proof -
  from assms obtain m where n: "n \<noteq> 0" and m: "v = JObject m"
    by (auto simp: parse_expression.simps [of b64 v] result_iff)
  show thesis
  proof (cases "contains_key m ''type''")
    case True
    with assms n m leaf show thesis
      by (auto simp: parse_expression.simps [of b64 "JObject m"] result_iff parse_requirement_v2_leaf_def)
  next
    case False
    with assms n m obtain k where k: "connectives m = [k]"
      by (auto simp: parse_expression.simps [of b64 "JObject m"] split: list.splits)
    note body = assms [unfolded m parse_expression.simps [of b64 "JObject m"] as_object.simps bindR.simps if_not_P [OF n] if_not_P [OF False] k list.case]
    from connectives_known [OF k] consider "k = ''all''" | "k = ''any''" | "k = ''not''" | "k = ''threshold''" by blast
    then show thesis
    proof cases
      case 1
      with body n m all show thesis by (auto simp: result_iff split: prod.splits)
    next
      case 2
      with body n m any_of show thesis by (auto simp: result_iff split: prod.splits)
    next
      case 3
      with body n m negation show thesis by (auto simp: result_iff split: prod.splits)
    next
      case 4
      with body n m threshold show thesis by (auto simp: result_iff split: prod.splits)
    qed
  qed
qed

lemma size_array_member: "map_of m k = Some (JArray vs) \<Longrightarrow> w \<in> set vs \<Longrightarrow> size w < size (JObject m)"
  using size_map_of [of m k "JArray vs"] size_list_estimation' [of w vs "size w" size] by simp

lemma parse_expressions_sound:
  assumes "\<And>w n e rest. w \<in> set vs \<Longrightarrow> parse_expression b64 w n = Inr (e, rest) \<Longrightarrow> expr_ok b64 e \<and> rest + node_count e = n"
  shows "parse_expressions b64 vs n = Inr (es, rest) \<Longrightarrow>
     list_all (expr_ok b64) es \<and> length es = length vs \<and> rest + sum_list (map node_count es) = n"
  using assms
proof (induction vs arbitrary: n es)
  case (Cons v vs)
  from Cons.prems(1) obtain e k es' where *: "parse_expression b64 v n = Inr (e, k)"
    "parse_expressions b64 vs k = Inr (es', rest)" "es = e # es'"
    by (auto simp only: parse_expressions_Inr)
  have "list_all (expr_ok b64) es' \<and> length es' = length vs \<and> rest + sum_list (map node_count es') = k"
    using Cons.IH [OF *(2)] Cons.prems(2) by (meson list.set_intros(2))
  moreover have "expr_ok b64 e \<and> k + node_count e = n" using Cons.prems(2) *(1) by (meson list.set_intros(1))
  ultimately show ?case using *(3) by simp
qed simp

lemma parse_expression_sound:
  "parse_expression b64 v n = Inr (e, rest) \<Longrightarrow> expr_ok b64 e \<and> rest + node_count e = n"
proof (induction v arbitrary: n e rest rule: measure_induct_rule [of size])
  case (less v)
  have list: "list_all (expr_ok b64) es \<and> length es = length vs \<and> rest + sum_list (map node_count es) = n - 1"
    if "parse_expressions b64 vs (n - 1) = Inr (es, rest)" "\<And>w. w \<in> set vs \<Longrightarrow> size w < size v" for vs es
    by (rule parse_expressions_sound [OF _ that(1)]) (use less.IH that(2) in blast)
  from less.prems show ?case
  proof (cases rule: parse_expression_cases)
    case (leaf m r)
    then show ?thesis using parse_leaf_sound [of b64 m False r] by simp
  next
    case (all m vs es)
    then show ?thesis using list [of vs es] size_array_member [OF all(3)] by auto
  next
    case (any_of m vs es)
    then show ?thesis using list [of vs es] size_array_member [OF any_of(3)] by auto
  next
    case (negation m w c)
    then show ?thesis using less.IH [of w "n - 1" c rest] size_map_of [OF negation(3)] by auto
  next
    case (threshold m t k vs es)
    have "size w < size v" if "w \<in> set vs" for w
      using size_array_member [OF threshold(4) that] size_map_of [OF threshold(3)] threshold(2) by simp
    moreover have "unat k < 2 ^ usize_bits" using unsigned_less [of k] by (simp add: usize_bits_def)
    moreover have "0 < unat k" using threshold(5) by (simp add: unat_gt_0)
    ultimately show ?thesis using threshold list [of vs es] by auto
  qed
qed

text \<open>The document that the schema prescribes for a policy, with the keys in one order.\<close>

definition opt_json :: "string \<Rightarrow> string option \<Rightarrow> json_obj" where
  "opt_json k x = (case x of None \<Rightarrow> [] | Some s \<Rightarrow> [(k, JString s)])"

fun value_json :: "field_value \<Rightarrow> json" where
  "value_json (FText s) = JString s"
| "value_json (FUint n) = JNumber (PosInt n)"
| "value_json (FBool b) = JBool b"

fun leaf_fields :: "requirement \<Rightarrow> json_obj" where
  "leaf_fields (IssuerTrusted i) = [(''issuer'', JString i)]"
| "leaf_fields (IssuerExcluded i) = [(''issuer'', JString i)]"
| "leaf_fields (RelationshipExists r) = [(''relationship'', JString r)]"
| "leaf_fields (EvidencePresent k) = [(''kind'', JString k)]"
| "leaf_fields (EvidenceUsable k) = [(''kind'', JString k)]"
| "leaf_fields (EvidenceBound k) = [(''kind'', JString k)]"
| "leaf_fields (RequiresReference i) = [(''id'', JString i)]"
| "leaf_fields (ForbidsReference i) = [(''id'', JString i)]"
| "leaf_fields (ProofFresh n) = [(''max_age_seconds'', JNumber (PosInt n))]"
| "leaf_fields (DelegatedAuthority root i scope) =
     [(''root'', JString root), (''issuer'', JString i)] @ opt_json ''scope'' scope"
| "leaf_fields (IdentityBound a b) = [(''a'', JString a), (''b'', JString b)]"
| "leaf_fields (TransparencyInclusion log) = [(''log'', JString log)]"
| "leaf_fields (VocabularyAccepted ns n) = [(''ns'', JString ns), (''max_version'', JNumber (PosInt n))]"
| "leaf_fields (ClaimField ct sub f op v) = opt_json ''claim_type'' ct @ opt_json ''subject'' sub
     @ [(''field'', JString f), (''op'', JString (field_op_as_str op)), (''value'', value_json v)]"
| "leaf_fields _ = []"

definition leaf_json :: "requirement \<Rightarrow> json_obj" where
  "leaf_json r = (''type'', JString (type_str r)) # leaf_fields r"

fun expr_json :: "policy_expr \<Rightarrow> json" where
  "expr_json (ELeaf r) = JObject (leaf_json r)"
| "expr_json (EAll cs) = JObject [(''all'', JArray (map expr_json cs))]"
| "expr_json (EAny cs) = JObject [(''any'', JArray (map expr_json cs))]"
| "expr_json (ENot c) = JObject [(''not'', expr_json c)]"
| "expr_json (EThreshold k cs) = JObject [(''threshold'',
     JObject [(''k'', JNumber (PosInt (word_of_nat k))), (''of'', JArray (map expr_json cs))])]"

definition policy_json :: "policy \<Rightarrow> json" where
  "policy_json p = JObject ([(''policy_version'', JNumber (PosInt (ucast (pol_version p)))), (''policy_id'', JString (pol_id p))]
     @ (case pol_expression p of
          None \<Rightarrow> [(''requirements'', JArray (map (\<lambda>r. JObject (leaf_json r)) (pol_requirements p)))]
        | Some e \<Rightarrow> [(''expression'', expr_json e)]))"

lemma parse_leaf_json:
  assumes "leaf_ok b64 r" "v1 \<longrightarrow> \<not> is_v2_only r"
  shows "parse_requirement_inner b64 (leaf_json r) v1 = Inr r"
proof -
  note unfolds = parse_requirement_inner_def leaf_json_def req_string_def reject_extra_keys_def req_u64_def
      opt_nonempty_def require_keyref_def require_proof_ref_def V2_LEAVES_def opt_json_def parse_claim_field_def
      parse_field_value_def
  show ?thesis
  proof (cases r)
    case (ClaimField ct sub f op v)
    then show ?thesis using assms by (cases v; cases ct; cases sub) (simp_all add: unfolds)
  qed (use assms in \<open>simp_all add: unfolds split: option.splits\<close>)
qed

text \<open>
  Two documents are the same up to the order of the entries of objects; an object is what its look-ups give.
\<close>

inductive same_json :: "json \<Rightarrow> json \<Rightarrow> bool" where
  null: "same_json JNull JNull"
| bool: "same_json (JBool b) (JBool b)"
| number: "same_json (JNumber n) (JNumber n)"
| string: "same_json (JString s) (JString s)"
| array: "list_all2 same_json vs ws \<Longrightarrow> same_json (JArray vs) (JArray ws)"
| object: "(\<And>k. rel_option same_json (map_of m k) (map_of m' k)) \<Longrightarrow> same_json (JObject m) (JObject m')"
monos list.rel_mono option.rel_mono

inductive_simps same_json_simps [simp]:
  "same_json JNull w" "same_json (JBool b) w" "same_json (JNumber n) w" "same_json (JString s) w" "same_json (JArray vs) w" "same_json (JObject m) w"

inductive_simps same_json_simps' [simp]:
  "same_json v (JString s)" "same_json v (JNumber n)" "same_json v (JBool b)"  "same_json v (JArray ws)" "same_json v (JObject m)"

lemma same_json_refl: "same_json v v"
proof (induction v)
  case (JArray vs)
  then show ?case by (simp add: list.rel_refl_strong)
next
  case (JObject m)
  have "same_json x x" if "map_of m k = Some x" for k x
    using JObject [of "(k, x)" x] map_of_SomeD [OF that] by simp
  then have "rel_option same_json (map_of m k) (map_of m k)" for k by (cases "map_of m k") auto
  then show ?case by simp
qed simp_all

lemma reject_extra_keys_lookup: "reject_extra_keys m ks = (if dom (map_of m) \<subseteq> set ks then Inr () else Inl PolicyInvalid)"
  unfolding reject_extra_keys_def dom_map_of_conv_image_fst by (induction m) auto

lemma lookup_eqI: "fst ` set m \<subseteq> K \<Longrightarrow> fst ` set m' \<subseteq> K \<Longrightarrow> (\<And>k. k \<in> K \<Longrightarrow> map_of m k = map_of m' k) \<Longrightarrow> map_of m = map_of m'"
  by (metis ext map_of_eq_None_iff subset_iff)

lemma parse_leaf_cong:
  assumes "map_of m = map_of m'"
  shows "parse_requirement_inner b64 m v1 = parse_requirement_inner b64 m' v1"
  unfolding parse_requirement_inner_def reject_extra_keys_lookup req_string_def req_u64_def opt_nonempty_def require_keyref_def
    require_proof_ref_def parse_claim_field_def parse_field_value_def assms ..

lemma parse_field_value_Inr [result_iff]: "parse_field_value m = Inr v \<longleftrightarrow> map_of m ''value'' = Some (value_json v)"
  by (cases v) (auto simp: parse_field_value_def result_iff split: option.splits json.splits)

lemma field_op_text: "field_op_parse s = Some op \<longleftrightarrow> s = field_op_as_str op"
  by (cases op) (auto simp: field_op_parse_def split: if_splits)


lemma parse_claim_field_doc:
  assumes "parse_claim_field m = Inr r" "map_of m ''type'' = Some (JString ''claim_field'')"
  shows "map_of m = map_of (leaf_json r)"
proof -
  have "\<exists>ct sub f op v. r = ClaimField ct sub f op v \<and> fst ` set m \<subseteq> {''type'', ''claim_type'', ''subject'', ''field'', ''op'', ''value''}
     \<and> map_of m ''claim_type'' = map_option JString ct \<and> map_of m ''subject'' = map_option JString sub \<and> map_of m ''field'' = Some (JString f)
     \<and> map_of m ''op'' = Some (JString (field_op_as_str op)) \<and> map_of m ''value'' = Some (value_json v)"
    using assms(1) by (auto simp: parse_claim_field_def result_iff field_op_text)
  then obtain ct sub f op v where r: "r = ClaimField ct sub f op v" and keys: "fst ` set m \<subseteq> {''type'', ''claim_type'', ''subject'', ''field'', ''op'', ''value''}"
      and look: "map_of m ''claim_type'' = map_option JString ct" "map_of m ''subject'' = map_option JString sub" "map_of m ''field'' = Some (JString f)"
      "map_of m ''op'' = Some (JString (field_op_as_str op))" "map_of m ''value'' = Some (value_json v)"
    by blast
  show ?thesis
  proof (rule lookup_eqI [OF keys])
    show "fst ` set (leaf_json r) \<subseteq> {''type'', ''claim_type'', ''subject'', ''field'', ''op'', ''value''}"
      by (cases ct; cases sub) (simp_all add: r leaf_json_def opt_json_def)
    show "map_of m k = map_of (leaf_json r) k" if "k \<in> {''type'', ''claim_type'', ''subject'', ''field'', ''op'', ''value''}" for k
      using that by (elim insertE emptyE) (simp_all add: look assms(2) r leaf_json_def opt_json_def split: option.splits)
  qed
qed


lemma leaf_doc_eqI:
  assumes "fst ` set m \<subseteq> insert ''type'' K" "map_of m ''type'' = Some (JString (type_str r))" "fst ` set (leaf_fields r) \<subseteq> K" "''type'' \<notin> K"
    and "\<forall>k \<in> K. map_of m k = map_of (leaf_fields r) k"
  shows "map_of m = map_of (leaf_json r)"
  by (rule lookup_eqI [OF assms(1)]) (use assms(2-5) in \<open>auto simp: leaf_json_def\<close>)

lemma parse_leaf_doc:
  assumes "parse_requirement_inner b64 m v1 = Inr r"
  shows "map_of m = map_of (leaf_json r)"
proof -
  have type: "map_of m ''type'' = Some (JString (type_str r))" using parse_leaf_sound [OF assms] by blast
  note parse = assms [unfolded parse_requirement_inner_def bindR_Inr_iff req_string_Inr type reject_extra_keys_Inr]
  show ?thesis
  proof (cases r)
    case (ClaimField ct sub f op v)
    then have "parse_claim_field m = Inr r" using parse by (simp add: result_iff split: if_splits)
    then show ?thesis using parse_claim_field_doc type ClaimField by simp
  next
    case (DelegatedAuthority root i scope)
    then show ?thesis
      using parse type by (cases scope) (rule leaf_doc_eqI [where K = "{''root'', ''issuer'', ''scope''}"]; simp add: opt_json_def result_iff split: if_splits)+
  qed ((insert parse type; simp add: result_iff split: if_splits; elim conjE; (rule leaf_doc_eqI, assumption, simp_all))+)
qed

lemma same_entry:
  assumes "same_json v (JObject [(k, x)])"
  obtains m w where "v = JObject m" "map_of m = [k \<mapsto> w]" "same_json w x"
proof -
  from assms obtain m where m: "v = JObject m" "\<And>j. rel_option same_json (map_of m j) (map_of [(k, x)] j)" by auto
  then obtain w where "map_of m k = Some w" "same_json w x" using m(2) [of k] by (cases "map_of m k") auto
  moreover have "map_of m j = None" if "j \<noteq> k" for j using m(2) [of j] that by simp
  ultimately have "map_of m = [k \<mapsto> w]" "same_json w x" by (auto simp: fun_eq_iff)
  then show thesis by (rule that [OF m(1)])
qed

lemma leaf_entries_atomic: "x \<in> snd ` set (leaf_json r) \<Longrightarrow> same_json w x \<longleftrightarrow> w = x"
proof (cases r)
  case (ClaimField ct sub f op v)
  then show "x \<in> snd ` set (leaf_json r) \<Longrightarrow> ?thesis" by (cases v) (auto simp: leaf_json_def opt_json_def split: option.splits)
qed (auto simp: leaf_json_def opt_json_def split: option.splits)

lemma same_leaf: "same_json v (JObject (leaf_json r)) \<longleftrightarrow> (\<exists>m. v = JObject m \<and> map_of m = map_of (leaf_json r))"
proof -
  have "rel_option same_json a (map_of (leaf_json r) k) \<longleftrightarrow> a = map_of (leaf_json r) k" for a k
    using leaf_entries_atomic [of _ r] map_of_SomeD [of "leaf_json r" k] by (cases "map_of (leaf_json r) k"; cases a) force+
  then show ?thesis by (auto simp: fun_eq_iff)
qed

lemma parse_same_expressions:
  assumes "\<And>c v n. c \<in> set cs \<Longrightarrow> same_json v (expr_json c) \<Longrightarrow> node_count c \<le> n \<Longrightarrow> parse_expression b64 v n = Inr (c, n - node_count c)"
    and "list_all2 same_json vs (map expr_json cs)" "sum_list (map node_count cs) \<le> n"
  shows "parse_expressions b64 vs n = Inr (cs, n - sum_list (map node_count cs))"
  using assms
proof (induction cs arbitrary: vs n)
  case (Cons c cs)
  then obtain v vs' where v: "vs = v # vs'" "same_json v (expr_json c)" "list_all2 same_json vs' (map expr_json cs)"
    by (auto simp: list_all2_Cons2)
  have "parse_expressions b64 vs' (n - node_count c) = Inr (cs, n - node_count c - sum_list (map node_count cs))"
    by (rule Cons.IH) (use Cons.prems v(3) in auto)
  moreover have "parse_expression b64 v n = Inr (c, n - node_count c)"
    by (rule Cons.prems(1)) (use Cons.prems(3) v(2) in auto)
  ultimately show ?case by (simp add: v(1))
qed simp

lemma parse_same_expr:
  "same_json v (expr_json e) \<Longrightarrow> expr_ok b64 e \<Longrightarrow> node_count e \<le> n \<Longrightarrow> parse_expression b64 v n = Inr (e, n - node_count e)"
proof (induction e arbitrary: v n rule: expr_json.induct)
  case (1 r)
  then obtain m where m: "v = JObject m" "map_of m = map_of (leaf_json r)" by (auto simp: same_leaf simp del: same_json_simps')
  have "contains_key m ''type''" by (simp add: contains_key_def m(2) leaf_json_def)
  then show ?case using parse_leaf_json [of b64 r False] 1 parse_leaf_cong [OF m(2)]
    by (simp add: m(1) parse_expression.simps parse_requirement_v2_leaf_def)
next
  case (2 cs)
  obtain m w where m: "v = JObject m" "map_of m = [''all'' \<mapsto> w]" "same_json w (JArray (map expr_json cs))"
    using same_entry "2.prems"(1) by (metis expr_json.simps(2))
  then obtain vs where vs: "w = JArray vs" "list_all2 same_json vs (map expr_json cs)" by auto
  have "parse_expressions b64 vs (n - 1) = Inr (cs, n - 1 - sum_list (map node_count cs))"
    by (rule parse_same_expressions [OF _ vs(2)]) (use 2 in \<open>auto simp: list_all_iff\<close>)
  moreover have "vs \<noteq> []" using vs(2) "2.prems"(2) by auto
  ultimately show ?case using "2.prems"(2,3)
    by (simp add: m vs(1) parse_expression.simps contains_key_def connectives_def reject_extra_keys_lookup obj_get_def)
next
  case (3 cs)
  obtain m w where m: "v = JObject m" "map_of m = [''any'' \<mapsto> w]" "same_json w (JArray (map expr_json cs))"
    using same_entry "3.prems"(1) by (metis expr_json.simps(3))
  then obtain vs where vs: "w = JArray vs" "list_all2 same_json vs (map expr_json cs)" by auto
  have "parse_expressions b64 vs (n - 1) = Inr (cs, n - 1 - sum_list (map node_count cs))"
    by (rule parse_same_expressions [OF _ vs(2)]) (use 3 in \<open>auto simp: list_all_iff\<close>)
  moreover have "vs \<noteq> []" using vs(2) "3.prems"(2) by auto
  ultimately show ?case using "3.prems"(2,3)
    by (simp add: m vs(1) parse_expression.simps contains_key_def connectives_def reject_extra_keys_lookup obj_get_def)
next
  case (4 c)
  obtain m w where m: "v = JObject m" "map_of m = [''not'' \<mapsto> w]" "same_json w (expr_json c)"
    using same_entry "4.prems"(1) by (metis expr_json.simps(4))
  have "parse_expression b64 w (n - 1) = Inr (c, n - 1 - node_count c)"
    by (rule "4.IH" [OF m(3)]) (use "4.prems" in auto)
  with "4.prems"(2,3) show ?case
    by (simp add: m parse_expression.simps [of _ "JObject _"] contains_key_def connectives_def reject_extra_keys_lookup obj_get_def)
next
  case (5 k cs)
  let ?of = "[(''k'', JNumber (PosInt (word_of_nat k))), (''of'', JArray (map expr_json cs))]"
  obtain m w where m: "v = JObject m" "map_of m = [''threshold'' \<mapsto> w]" "same_json w (JObject ?of)"
    using same_entry "5.prems"(1) by (metis expr_json.simps(5))
  then obtain t where t: "w = JObject t" and look: "\<And>j. rel_option same_json (map_of t j) (map_of ?of j)" by auto
  obtain vs where vs: "map_of t ''of'' = Some (JArray vs)" "list_all2 same_json vs (map expr_json cs)"
    using look [of "''of''"] by (cases "map_of t ''of''") auto
  have k: "map_of t ''k'' = Some (JNumber (PosInt (word_of_nat k)))" using look [of "''k''"] by (cases "map_of t ''k''") auto
  have keys: "dom (map_of t) \<subseteq> {''k'', ''of''}"
  proof
    fix j assume "j \<in> dom (map_of t)"
    then show "j \<in> {''k'', ''of''}" using look [of j] by (cases "j = ''k'' \<or> j = ''of''") auto
  qed
  have "parse_expressions b64 vs (n - 1) = Inr (cs, n - 1 - sum_list (map node_count cs))"
    by (rule parse_same_expressions [OF _ vs(2)]) (use 5 in \<open>auto simp: list_all_iff\<close>)
  moreover have "unat (word_of_nat k :: u64) = k" using "5.prems"(2) by (simp add: unat_of_nat usize_bits_def)
  moreover have "word_of_nat k \<noteq> (0 :: u64)" using calculation(2) "5.prems"(2) by auto
  moreover have "length vs = length cs" "vs \<noteq> []" using vs(2) "5.prems"(2) by (auto dest: list_all2_lengthD)
  ultimately show ?case using "5.prems"(2,3) keys
    by (simp add: m t parse_expression.simps contains_key_def connectives_def reject_extra_keys_lookup obj_get_def req_u64_def k vs(1))
qed

lemma parse_expressions_doc:
  assumes "\<And>w n e rest. w \<in> set vs \<Longrightarrow> parse_expression b64 w n = Inr (e, rest) \<Longrightarrow> same_json w (expr_json e)"
  shows "parse_expressions b64 vs n = Inr (es, rest) \<Longrightarrow> list_all2 same_json vs (map expr_json es)"
  using assms
proof (induction vs arbitrary: n es)
  case (Cons v vs)
  from Cons.prems(1) obtain e k es' where *: "parse_expression b64 v n = Inr (e, k)"
    "parse_expressions b64 vs k = Inr (es', rest)" "es = e # es'"
    by (auto simp only: parse_expressions_Inr)
  moreover have "list_all2 same_json vs (map expr_json es')" using Cons.IH [OF *(2)] Cons.prems(2) by (meson list.set_intros(2))
  ultimately show ?case using Cons.prems(2) [of v n e k] by simp
qed simp

lemma same_one_entry: "fst ` set m \<subseteq> {k} \<Longrightarrow> map_of m k = Some w \<Longrightarrow> same_json w x \<Longrightarrow> same_json (JObject m) (JObject [(k, x)])"
  by (auto simp: subset_iff) (metis domI dom_map_of_conv_image_fst imageE singletonD not_Some_eq option.rel_intros(1) subsetI)

lemma parse_expression_doc: "parse_expression b64 v n = Inr (e, rest) \<Longrightarrow> same_json v (expr_json e)"
proof (induction v arbitrary: n e rest rule: measure_induct_rule [of size])
  case (less v)
  have list: "same_json (JArray vs) (JArray (map expr_json es))"
    if "parse_expressions b64 vs (n - 1) = Inr (es, rest)" "\<And>w. w \<in> set vs \<Longrightarrow> size w < size v" for vs es
    using parse_expressions_doc [OF _ that(1)] less.IH that(2) by simp
  from less.prems show ?case
  proof (cases rule: parse_expression_cases)
    case (leaf m r)
    then show ?thesis using parse_leaf_doc by (simp only: expr_json.simps same_leaf) blast
  next
    case (all m vs es)
    then show ?thesis using same_one_entry [OF all(7,3)] list [of vs es] size_array_member [OF all(3)] by (simp only: expr_json.simps)
  next
    case (any_of m vs es)
    then show ?thesis using same_one_entry [OF any_of(7,3)] list [of vs es] size_array_member [OF any_of(3)] by (simp only: expr_json.simps)
  next
    case (negation m w c)
    then show ?thesis using same_one_entry [OF negation(6,3)] less.IH [of w "n - 1" c rest] size_map_of [OF negation(3)] by (simp only: expr_json.simps)
  next
    case (threshold m t k vs es)
    have size: "size w < size v" if "w \<in> set vs" for w
      using size_array_member [OF threshold(4) that] size_map_of [OF threshold(3)] threshold(2) by simp
    have "rel_option same_json (map_of t j) (map_of [(''k'', JNumber (PosInt k)), (''of'', JArray (map expr_json es))] j)" for j
      using threshold(10,11,4) list [OF threshold(7) size] map_of_eq_None_iff [of t j] by (cases "j = ''k'' \<or> j = ''of''") auto
    then have "same_json (JObject t) (JObject [(''k'', JNumber (PosInt k)), (''of'', JArray (map expr_json es))])" by (rule same_json.object)
    then show ?thesis using same_one_entry [OF threshold(9,3)] by (simp add: threshold(2,8) del: same_json_simps same_json_simps')
  qed
qed

lemma same_entries:
  assumes "fst ` set m \<subseteq> fst ` set m'" "\<And>k x. map_of m' k = Some x \<Longrightarrow> \<exists>w. map_of m k = Some w \<and> same_json w x"
  shows "same_json (JObject m) (JObject m')"
proof (rule same_json.object)
  fix k show "rel_option same_json (map_of m k) (map_of m' k)"
  proof (cases "map_of m' k")
    case None
    then have "map_of m k = None" using assms(1) by (auto simp: map_of_eq_None_iff)
    then show ?thesis using None by simp
  next
    case (Some x)
    then show ?thesis using assms(2) by fastforce
  qed
qed

lemma same_three:
  assumes "distinct [a, b, c]"
  shows "same_json v (JObject [(a, x), (b, y), (c, z)]) \<longleftrightarrow> (\<exists>m. v = JObject m \<and> fst ` set m \<subseteq> {a, b, c}
    \<and> (\<exists>w. map_of m a = Some w \<and> same_json w x) \<and> (\<exists>w. map_of m b = Some w \<and> same_json w y) \<and> (\<exists>w. map_of m c = Some w \<and> same_json w z))"
    (is "?l \<longleftrightarrow> ?r")
proof
  have found: "rel_option same_json u (Some y) \<Longrightarrow> \<exists>w. u = Some w \<and> same_json w y" for u y by (cases u) auto
  assume ?l
  then obtain m where m: "v = JObject m" and look: "\<And>j. rel_option same_json (map_of m j) (map_of [(a, x), (b, y), (c, z)] j)" by auto
  have "j \<in> {a, b, c}" if "j \<in> fst ` set m" for j
  proof (rule ccontr)
    assume "j \<notin> {a, b, c}"
    then have "map_of m j = None" using look [of j] by simp
    then show False using that by (simp add: map_of_eq_None_iff)
  qed
  then show ?r using m look [of a] look [of b] look [of c] assms by (auto dest: found)
next
  assume ?r
  then obtain m where m: "v = JObject m" "fst ` set m \<subseteq> {a, b, c}" "\<exists>w. map_of m a = Some w \<and> same_json w x"
      "\<exists>w. map_of m b = Some w \<and> same_json w y" "\<exists>w. map_of m c = Some w \<and> same_json w z"
    by blast
  show ?l unfolding m(1)
    by (rule same_entries) (use m(2-5) in \<open>auto split: if_splits\<close>)
qed

lemma policy_doc:
  "same_json v (JObject [(''policy_version'', JNumber n), (''policy_id'', JString i), (k, z)]) \<longleftrightarrow>
     (\<exists>m w. v = JObject m \<and> fst ` set m \<subseteq> {''policy_version'', ''policy_id'', k} \<and> map_of m ''policy_version'' = Some (JNumber n)
        \<and> map_of m ''policy_id'' = Some (JString i) \<and> map_of m k = Some w \<and> same_json w z)"
  if "distinct [''policy_version'', ''policy_id'', k]"
  unfolding same_three [OF that] by auto

lemma parse_same_requirement:
  "leaf_ok b64 r \<Longrightarrow> \<not> is_v2_only r \<Longrightarrow> parse_requirement b64 v = Inr r \<longleftrightarrow> same_json v (JObject (leaf_json r))"
  using parse_leaf_json [of b64 r True] parse_leaf_cong parse_leaf_doc
  unfolding same_leaf parse_requirement_def bindR_Inr_iff as_object_Inr by metis

lemma policy_docD:
  assumes "same_json v (JObject [(''policy_version'', JNumber n), (''policy_id'', JString i), (k, z)])" "k \<noteq> ''policy_version''" "k \<noteq> ''policy_id''"
  obtains m w where "v = JObject m" "map_of m ''policy_version'' = Some (JNumber n)" "map_of m ''policy_id'' = Some (JString i)"
    "map_of m k = Some w" "same_json w z" "reject_extra_keys m [''policy_version'', ''policy_id'', k] = Inr ()" "fst ` set m \<subseteq> {''policy_version'', ''policy_id'', k}"
proof -
  have "distinct [''policy_version'', ''policy_id'', k]" using assms(2,3) by simp
  from iffD1 [OF policy_doc [OF this] assms(1)] show thesis
    by (elim exE conjE) (rule that; simp add: reject_extra_keys_Inr)
qed

lemma parse_same_policy:
  assumes "same_json v (policy_json p)" "policy_ok b64 l p"
  shows "parse_policy b64 v l = Inr p"
proof (cases "pol_expression p")
  case None
  with assms(2) have *: "pol_version p = 1" "pol_requirements p \<noteq> []" "length (pol_requirements p) \<le> max_policy_requirements l"
    "pol_id p \<noteq> []" "length (pol_id p) \<le> 128"
    and leaves: "\<And>r. r \<in> set (pol_requirements p) \<Longrightarrow> leaf_ok b64 r \<and> \<not> is_v2_only r"
    by (auto simp: policy_ok_def list_all_iff)
  have "policy_json p = JObject [(''policy_version'', JNumber (PosInt 1)), (''policy_id'', JString (pol_id p)),
      (''requirements'', JArray (map (\<lambda>r. JObject (leaf_json r)) (pol_requirements p)))]"
    by (simp add: policy_json_def None *)
  note doc = assms(1) [unfolded this]
  obtain m w where m: "v = JObject m" "map_of m ''policy_version'' = Some (JNumber (PosInt 1))"
      "map_of m ''policy_id'' = Some (JString (pol_id p))" "map_of m ''requirements'' = Some w"
      "same_json w (JArray (map (\<lambda>r. JObject (leaf_json r)) (pol_requirements p)))"
      "reject_extra_keys m [''policy_version'', ''policy_id'', ''requirements''] = Inr ()"
      "fst ` set m \<subseteq> {''policy_version'', ''policy_id'', ''requirements''}"
    by (rule policy_docD [OF doc]) simp_all
  then obtain reqs where reqs: "w = JArray reqs" "list_all2 same_json reqs (map (\<lambda>r. JObject (leaf_json r)) (pol_requirements p))" by auto
  have "mapR (parse_requirement b64) reqs = Inr (pol_requirements p)"
    using reqs(2) leaves parse_same_requirement unfolding mapR_Inr_iff list_all2_conv_all_nth by (metis length_map nth_map nth_mem)
  moreover have "length reqs = length (pol_requirements p)" "reqs \<noteq> []" using reqs *(2) by (auto dest: list_all2_lengthD)
  ultimately show ?thesis
    using * None m(1-4,6) reqs(1) by (simp add: parse_policy_def req_u64_def req_string_def obj_get_def)
next
  case (Some e)
  with assms(2) have *: "pol_version p = 2" "pol_requirements p = []" "expr_ok b64 e" "node_count e \<le> max_policy_requirements l"
    "pol_id p \<noteq> []" "length (pol_id p) \<le> 128"
    by (auto simp: policy_ok_def)
  have "policy_json p = JObject [(''policy_version'', JNumber (PosInt 2)), (''policy_id'', JString (pol_id p)), (''expression'', expr_json e)]"
    by (simp add: policy_json_def Some *)
  note doc = assms(1) [unfolded this]
  obtain m w where m: "v = JObject m" "map_of m ''policy_version'' = Some (JNumber (PosInt 2))"
      "map_of m ''policy_id'' = Some (JString (pol_id p))" "map_of m ''expression'' = Some w" "same_json w (expr_json e)"
      "reject_extra_keys m [''policy_version'', ''policy_id'', ''expression''] = Inr ()"
      "fst ` set m \<subseteq> {''policy_version'', ''policy_id'', ''expression''}"
    by (rule policy_docD [OF doc]) simp_all
  have "''requirements'' \<notin> {''policy_version'', ''policy_id'', ''expression''}" by simp
  then have "map_of m ''requirements'' = None" using m(7) unfolding map_of_eq_None_iff by (rule contra_subsetD [rotated])
  then show ?thesis
    using * Some m(1-4,6) parse_same_expr [OF m(5) *(3,4)]
    by (simp add: parse_policy_def req_u64_def req_string_def obj_get_def contains_key_def)
qed

lemma parse_policy_json: "policy_ok b64 l p \<Longrightarrow> parse_policy b64 (policy_json p) l = Inr p"
  by (rule parse_same_policy [OF same_json_refl])

lemma parse_policy_sound:
  assumes "parse_policy b64 v l = Inr p"
  shows "policy_ok b64 l p \<and> same_json v (policy_json p)"
proof -
  from assms obtain root version i where v_root: "v = JObject root" and get: "req_u64 root ''policy_version'' = Inr version"
      "req_string root ''policy_id'' = Inr i"
    by (auto simp: parse_policy_def bindR_Inr_iff as_object_Inr)
  with assms have root: "i \<noteq> []" "length i \<le> 128" and ver: "version = 1 \<or> version = 2"
    by (auto simp: parse_policy_def split: if_splits)
  note body = assms [unfolded v_root parse_policy_def as_object.simps bindR.simps get]
  from ver show ?thesis
  proof
    assume v: "version = 1"
    with root body obtain reqs out where reqs: "reqs \<noteq> []" "length reqs \<le> max_policy_requirements l"
        "map_of root ''requirements'' = Some (JArray reqs)" "fst ` set root \<subseteq> {''policy_version'', ''policy_id'', ''requirements''}"
      and out: "mapR (parse_requirement b64) reqs = Inr out"
      and p: "p = \<lparr>pol_version = 1, pol_id = i, pol_requirements = out, pol_expression = None\<rparr>"
      by (auto simp: result_iff)
    moreover have "leaf_ok b64 r \<and> \<not> is_v2_only r" if "parse_requirement b64 x = Inr r" for x r
      using that parse_leaf_sound [of b64 _ True r] by (auto simp: parse_requirement_def result_iff)
    then have "list_all2 (\<lambda>x r. leaf_ok b64 r \<and> \<not> is_v2_only r) reqs out"
      using out unfolding mapR_Inr_iff by (auto elim!: list_all2_mono)
    then have "list_all (\<lambda>r. leaf_ok b64 r \<and> \<not> is_v2_only r) out" "length out = length reqs"
      by (auto simp: list_all2_conv_all_nth list_all_length)
    ultimately have "policy_ok b64 l p" using root by (auto simp: policy_ok_def)
    moreover have "same_json x (JObject (leaf_json r))" if "parse_requirement b64 x = Inr r" for x r
      using that parse_leaf_doc unfolding parse_requirement_def bindR_Inr_iff as_object_Inr same_leaf by blast
    then have "same_json (JArray reqs) (JArray (map (\<lambda>r. JObject (leaf_json r)) out))"
      using out by (intro same_json.array) (auto simp: mapR_Inr_iff list_all2_conv_all_nth simp del: same_json_simps same_json_simps')
    then have "same_json v (policy_json p)"
      using reqs(3,4) get v v_root by (simp add: policy_json_def p policy_doc req_u64_Inr req_string_Inr del: same_json_simps same_json_simps')
    ultimately show ?thesis by simp
  next
    assume v: "version = 2"
    with root body obtain w e rest where e: "parse_expression b64 w (max_policy_requirements l) = Inr (e, rest)"
      and w: "map_of root ''expression'' = Some w" "fst ` set root \<subseteq> {''policy_version'', ''policy_id'', ''expression''}"
      and p: "p = \<lparr>pol_version = 2, pol_id = i, pol_requirements = [], pol_expression = Some e\<rparr>"
      by (auto simp: result_iff)
    have "policy_ok b64 l p" using parse_expression_sound [OF e] root p by (auto simp: policy_ok_def)
    moreover have "same_json v (policy_json p)"
      using parse_expression_doc [OF e] w get v v_root
      by (simp add: policy_json_def p policy_doc req_u64_Inr req_string_Inr del: same_json_simps same_json_simps')
    ultimately show ?thesis by simp
  qed
qed

section \<open>Properties\<close>

text \<open>
  C22. What the parser accepts, document by document: a JSON document parses to a policy if and only if the policy is admissible and
  the document is the one the schema prescribes for it, up to the order of the entries of objects. Every object has the keys of its
  form and no others, the keys name the leaf or the connective that the policy has there, and their values are its parameters.
  Admissible means: the id has 1 to 128 bytes and it is either a version-1 policy with a
  non-empty list, within the requirement bound, of valid leaves of the ten version-1 types, or
  a version-2 policy whose expression has valid leaves, no empty connective, thresholds
  between 1 and the number of options, and at most as many nodes as the requirement bound.
\<close>

theorem parse_policy_accepts_iff:
  "parse_policy b64 v l = Inr p \<longleftrightarrow> policy_ok b64 l p \<and> same_json v (policy_json p)"
  using parse_policy_sound parse_same_policy by blast

end
