(* ===== verification/Report.thy ===== *)
theory Report
  imports Policy_Parse
begin

text \<open>
  The verification report, \<^verbatim>\<open>proof-verify/src/report.rs\<close>: check, lifecycle, evidence-status and
  conflict records, the report itself, and its projection on the eight verification
  dimensions. The human-readable message of a record is not modelled, except that an evidence record
  keeps whether its message says that a provenance hint is unverified, which the front ends read.
\<close>

section \<open>Records\<close>

datatype validity = Valid | Invalid

datatype policy_decision = Pass | Fail | Indeterminate

fun policy_decision_as_str :: "policy_decision \<Rightarrow> string" where
  "policy_decision_as_str Pass = ''pass''"
| "policy_decision_as_str Fail = ''fail''"
| "policy_decision_as_str Indeterminate = ''indeterminate''"

record check_record =
  chk_stage :: string
  chk_object :: string
  chk_ok :: bool
  chk_code :: "error_code option"

definition check_ok :: "string \<Rightarrow> string \<Rightarrow> check_record" where
  "check_ok stage obj = \<lparr>chk_stage = stage, chk_object = obj, chk_ok = True, chk_code = None\<rparr>"

definition check_fail :: "string \<Rightarrow> string \<Rightarrow> error_code \<Rightarrow> check_record" where
  "check_fail stage obj code = \<lparr>chk_stage = stage, chk_object = obj, chk_ok = False, chk_code = Some code\<rparr>"

definition check_note :: "string \<Rightarrow> string \<Rightarrow> check_record" where
  "check_note stage obj = \<lparr>chk_stage = stage, chk_object = obj, chk_ok = True, chk_code = None\<rparr>"

record lifecycle_record =
  lcr_object :: string
  lcr_status :: lifecycle_status
  lcr_code :: "error_code option"

record evidence_status_record =
  esr_object :: string
  esr_status :: evidence_status
  esr_code :: "error_code option"
  esr_hint_unverified :: bool

datatype conflict_kind = DivergentClaims | Denial | Contradiction

fun conflict_kind_as_str :: "conflict_kind \<Rightarrow> string" where
  "conflict_kind_as_str DivergentClaims = ''divergent_claims''"
| "conflict_kind_as_str Denial = ''denial''"
| "conflict_kind_as_str Contradiction = ''contradiction''"

record conflict_record =
  cfr_kind :: conflict_kind
  cfr_claim_type :: string
  cfr_subject :: string
  cfr_attestation_ids :: "string list"

record verify_report =
  rep_proof_id :: "string option"
  rep_cryptographic_validity :: validity
  rep_evidence_validity :: validity
  rep_policy_decision :: policy_decision
  rep_lifecycle_checked :: bool
  rep_lifecycle :: "lifecycle_record list"
  rep_status_objects :: "string list"
  rep_withdrawn_ids :: "string list"
  rep_referenced_proofs :: "string list"
  rep_vocabularies :: "vocabulary_decl list"
  rep_evidence_status :: "evidence_status_record list"
  rep_conflicts :: "conflict_record list"
  rep_checks :: "check_record list"
  rep_status_inputs_valid :: bool

definition failure_codes :: "verify_report \<Rightarrow> error_code list" where
  "failure_codes rep = List.map_filter chk_code (filter (\<lambda>c. \<not> chk_ok c) (rep_checks rep))"

definition passed_crypto :: "verify_report \<Rightarrow> bool" where
  "passed_crypto rep \<longleftrightarrow> rep_cryptographic_validity rep = Valid"

section \<open>Dimensions\<close>

datatype dimension =
  DStructural | DCryptographic | DEvidence | DProvenance | DTemporal | DRevocation | DPolicy | DOverall

fun dimension_as_str :: "dimension \<Rightarrow> string" where
  "dimension_as_str DStructural = ''structural''"
| "dimension_as_str DCryptographic = ''cryptographic''"
| "dimension_as_str DEvidence = ''evidence''"
| "dimension_as_str DProvenance = ''provenance''"
| "dimension_as_str DTemporal = ''temporal''"
| "dimension_as_str DRevocation = ''revocation''"
| "dimension_as_str DPolicy = ''policy''"
| "dimension_as_str DOverall = ''overall''"

datatype verdict = VValid | VInvalid | VIndeterminate | VNotApplicable

fun verdict_as_str :: "verdict \<Rightarrow> string" where
  "verdict_as_str VValid = ''valid''"
| "verdict_as_str VInvalid = ''invalid''"
| "verdict_as_str VIndeterminate = ''indeterminate''"
| "verdict_as_str VNotApplicable = ''not_applicable''"

definition verdict_for :: "verify_report \<Rightarrow> string list \<Rightarrow> bool \<Rightarrow> verdict \<Rightarrow> verdict" where
  "verdict_for rep stages empty_ok empty_verdict =
     (let relevant = filter (\<lambda>c. chk_stage c \<in> set stages) (rep_checks rep)
      in if relevant = [] then (if empty_ok then VValid else empty_verdict)
         else if list_ex (\<lambda>c. \<not> chk_ok c) relevant then VInvalid
         else VValid)"

definition evidence_verdict :: "verify_report \<Rightarrow> verdict" where
  "evidence_verdict rep = (case rep_evidence_validity rep of
      Valid \<Rightarrow> VValid
    | Invalid \<Rightarrow> if \<not> rep_lifecycle_checked rep then VIndeterminate else VInvalid)"

definition provenance_verdict :: "verify_report \<Rightarrow> verdict" where
  "provenance_verdict rep =
     (if \<not> rep_lifecycle_checked rep then VIndeterminate
      else let rel = filter (\<lambda>c. chk_stage c = ''RELATIONSHIPS'' \<or> chk_stage c = ''GRAPH'') (rep_checks rep)
           in if rel = [] then VNotApplicable
              else if list_ex (\<lambda>c. \<not> chk_ok c) rel then VInvalid
              else VValid)"

fun policy_verdict :: "policy_decision \<Rightarrow> verdict" where
  "policy_verdict Pass = VValid"
| "policy_verdict Fail = VInvalid"
| "policy_verdict Indeterminate = VIndeterminate"

definition dimensions :: "verify_report \<Rightarrow> (dimension \<times> verdict) list" where
  "dimensions rep =
     (let structural = verdict_for rep [''PARSE'', ''SCHEMA'', ''CANONICAL''] False VIndeterminate;
          cryptographic = verdict_for rep [''IDENTIFIERS'', ''SIGNATURES'', ''KEYS''] False VIndeterminate;
          evidence = evidence_verdict rep;
          provenance = provenance_verdict rep;
          temporal = verdict_for rep [''TIME''] False VIndeterminate;
          revocation = verdict_for rep [''REVOCATION''] False VIndeterminate;
          pol = policy_verdict (rep_policy_decision rep);
          overall =
            (if VInvalid \<in> set [structural, cryptographic, evidence, provenance, temporal, revocation, pol] then VInvalid
             else if VIndeterminate \<in> set [structural, cryptographic, evidence, temporal, revocation, pol] then VIndeterminate
             else VValid)
      in [(DStructural, structural), (DCryptographic, cryptographic), (DEvidence, evidence), (DProvenance, provenance),
          (DTemporal, temporal), (DRevocation, revocation), (DPolicy, pol), (DOverall, overall)])"

lemma dimension_keys: "map fst (dimensions rep) = [DStructural, DCryptographic, DEvidence, DProvenance, DTemporal, DRevocation, DPolicy, DOverall]"
  by (simp add: dimensions_def Let_def)

lemma check_simps [simp]:
  "chk_stage (check_ok s x) = s" "chk_object (check_ok s x) = x" "chk_ok (check_ok s x)" "chk_code (check_ok s x) = None"
  "chk_stage (check_fail s x c) = s" "chk_object (check_fail s x c) = x" "\<not> chk_ok (check_fail s x c)"
  "chk_code (check_fail s x c) = Some c"
  "chk_stage (check_note s x) = s" "chk_object (check_note s x) = x" "chk_ok (check_note s x)" "chk_code (check_note s x) = None"
  by (simp_all add: check_ok_def check_fail_def check_note_def)

end
