(* ===== verification/State.thy ===== *)
theory State
  imports Report
begin

text \<open>
  The view of a verified proof that policies may consume, \<^verbatim>\<open>proof-policy/src/state.rs\<close>, and its
  projection from a report and the proof it describes.
\<close>

section \<open>The view\<close>

record claim_summary =
  cs_attestation_id :: string
  cs_issuer :: string
  cs_subject :: string
  cs_claim_type :: string
  cs_fields :: "(string \<times> meta_value) list"

record edge_fact =
  ef_from :: string
  ef_rel_type :: rel_type
  ef_to :: string
  ef_attester :: "string option"
  ef_attestation :: "string option"

record delegation =
  del_attestation_id :: string
  del_delegator :: string
  del_delegatee :: string
  del_scope :: "string option"
  del_issued_at :: u64
  del_expires_at :: "u64 option"

record evidence_binding =
  eb_attestation_id :: string
  eb_evidence_id :: string

record identity_binding =
  ib_attestation_id :: string
  ib_asserter :: string
  ib_subject :: string
  ib_equivalent :: string

record evidence_status_entry =
  ese_id :: string
  ese_kind :: evidence_kind
  ese_status :: evidence_status
  ese_attestation_ref :: "string option"

record verified_state =
  st_proof_id :: string
  st_crypto_valid :: bool
  st_evidence_valid :: bool
  st_status_inputs_valid :: bool
  st_verified_issuers :: "string list"
  st_attestation_ids :: "string list"
  st_active_attestation_ids :: "string list"
  st_superseded_ids :: "string list"
  st_attestation_times :: "(u64 \<times> u64 option) list"
  st_rel_types :: "rel_type list"
  st_evidence_kinds :: "evidence_kind list"
  st_proof_created_at :: u64
  st_claims :: "claim_summary list"
  st_edges :: "edge_fact list"
  st_delegations :: "delegation list"
  st_identity_bindings :: "identity_binding list"
  st_evidence_bindings :: "evidence_binding list"
  st_withdrawn_ids :: "string list"
  st_vocabularies_used :: "string list"
  st_vocabularies_declared :: "vocabulary_decl list"
  st_conflicts :: "conflict_record list"
  st_referenced_proofs :: "string list"
  st_evidence_statuses :: "evidence_status_entry list"

definition has_transparency :: "verified_state \<Rightarrow> bool" where
  "has_transparency st \<longleftrightarrow> TRANSPARENCY_RECEIPT \<in> set (st_evidence_kinds st)"

section \<open>The projection\<close>

text \<open>Ids of the members, recomputed from their contents as the source does at each use.\<close>

definition att_id_of :: "base64_engine \<Rightarrow> hash_engine \<Rightarrow> attestation_content \<Rightarrow> string" where
  "att_id_of b64 h c = attestation_id b64 h (encode_canonical (attestation_to_cbor c))"

definition evd_id_of :: "base64_engine \<Rightarrow> hash_engine \<Rightarrow> evidence \<Rightarrow> string" where
  "evd_id_of b64 h e = evidence_id b64 h (encode_canonical (evidence_to_cbor e))"

definition verified_ids :: "verify_report \<Rightarrow> string list" where
  "verified_ids rep =
     List.map_filter (\<lambda>c. strip_prefix ''att:'' (chk_object c))
       (filter (\<lambda>c. chk_ok c \<and> chk_stage c = ''SIGNATURES'') (rep_checks rep))"

text \<open>The first hash map of the function: issuer of each signature-verified attestation; later entries win.\<close>

definition issuer_by_id :: "base64_engine \<Rightarrow> hash_engine \<Rightarrow> verify_report \<Rightarrow> proof_package \<Rightarrow> string \<rightharpoonup> string" where
  "issuer_by_id b64 h rep p =
     foldl (\<lambda>m a. let i = att_id_of b64 h (sa_content a)
                  in if i \<in> set (verified_ids rep) then m(i \<mapsto> att_issuer (sa_content a)) else m)
       Map.empty (prf_attestations p)"

definition is_statement :: "base64_engine \<Rightarrow> hash_engine \<Rightarrow> verify_report \<Rightarrow> stored_attestation \<Rightarrow> bool" where
  "is_statement b64 h rep a \<longleftrightarrow>
     att_id_of b64 h (sa_content a) \<in> set (verified_ids rep)
     \<and> att_id_of b64 h (sa_content a) \<notin> set (rep_status_objects rep)"

definition statements_of :: "base64_engine \<Rightarrow> hash_engine \<Rightarrow> verify_report \<Rightarrow> proof_package \<Rightarrow> attestation_content list" where
  "statements_of b64 h rep p = map sa_content (filter (is_statement b64 h rep) (prf_attestations p))"

definition claim_summary_of :: "base64_engine \<Rightarrow> hash_engine \<Rightarrow> attestation_content \<Rightarrow> claim_summary" where
  "claim_summary_of b64 h c = \<lparr>cs_attestation_id = att_id_of b64 h c, cs_issuer = att_issuer c, cs_subject = att_subject c,
     cs_claim_type = claim_type (att_claim c), cs_fields = claim_fields (att_claim c)\<rparr>"

definition delegation_of :: "base64_engine \<Rightarrow> hash_engine \<Rightarrow> attestation_content \<Rightarrow> delegation option" where
  "delegation_of b64 h c =
     (if claim_type (att_claim c) = CLAIM_DELEGATE
      then Some \<lparr>del_attestation_id = att_id_of b64 h c, del_delegator = att_issuer c, del_delegatee = att_subject c,
             del_scope = claim_text (att_claim c) ''scope'', del_issued_at = att_issued_at c, del_expires_at = att_expires_at c\<rparr>
      else None)"

definition identity_binding_of :: "base64_engine \<Rightarrow> hash_engine \<Rightarrow> attestation_content \<Rightarrow> identity_binding option" where
  "identity_binding_of b64 h c =
     (if claim_type (att_claim c) = CLAIM_DELEGATE then None
      else if claim_type (att_claim c) = CLAIM_IDENTITY_BIND then
        map_option (\<lambda>equivalent. \<lparr>ib_attestation_id = att_id_of b64 h c, ib_asserter = att_issuer c,
            ib_subject = att_subject c, ib_equivalent = equivalent\<rparr>) (claim_text (att_claim c) ''equivalent'')
      else None)"

definition active_ids :: "verify_report \<Rightarrow> string list" where
  "active_ids rep = List.map_filter (\<lambda>r. strip_prefix ''att:'' (lcr_object r))
     (filter (\<lambda>r. lcr_status r = LActive) (rep_lifecycle rep))"

definition superseded_ids :: "verify_report \<Rightarrow> string list" where
  "superseded_ids rep = List.map_filter (\<lambda>r. strip_prefix ''att:'' (lcr_object r))
     (filter (\<lambda>r. lcr_status r = LSuperseded) (rep_lifecycle rep))"

definition HEX :: string where "HEX = ''0123456789abcdef''"

definition lower_hex :: "bytes \<Rightarrow> string" where
  "lower_hex bs = concat (map (\<lambda>b. [HEX ! unat (drop_bit 4 b), HEX ! unat (Bit_Operations.and b 0x0f)]) bs)"

definition digest_by_evd :: "base64_engine \<Rightarrow> hash_engine \<Rightarrow> proof_package \<Rightarrow> string \<rightharpoonup> string" where
  "digest_by_evd b64 h p =
     foldl (\<lambda>m e. m(evd_id_of b64 h e \<mapsto> lower_hex (hr_digest (evd_digest e)))) Map.empty (prf_evidence p)"

definition evidence_binding_of ::
  "base64_engine \<Rightarrow> hash_engine \<Rightarrow> verify_report \<Rightarrow> proof_package \<Rightarrow> attestation_content \<Rightarrow> evidence_binding option" where
  "evidence_binding_of b64 h rep p c =
     (let i = att_id_of b64 h c
      in if i \<notin> set (verified_ids rep) \<or> i \<notin> set (active_ids rep) then None
         else if claim_kind_of c \<noteq> KStatement then None
         else case evidence_digest_hex (att_claim c) of
           Some (Inr claimed) \<Rightarrow>
             (case att_evidence_ref c of
                None \<Rightarrow> None
              | Some eref \<Rightarrow>
                  if digest_by_evd b64 h p eref = Some claimed
                  then Some \<lparr>eb_attestation_id = i, eb_evidence_id = eref\<rparr> else None)
         | _ \<Rightarrow> None)"

definition edge_fact_of :: "base64_engine \<Rightarrow> hash_engine \<Rightarrow> verify_report \<Rightarrow> proof_package \<Rightarrow> relationship \<Rightarrow> edge_fact" where
  "edge_fact_of b64 h rep p r =
     \<lparr>ef_from = rel_from r, ef_rel_type = rel_ty r, ef_to = rel_to r,
      ef_attester = (case rel_attestation_ref r of
         None \<Rightarrow> None
       | Some aref \<Rightarrow> if aref \<in> set (verified_ids rep) then issuer_by_id b64 h rep p aref else None),
      ef_attestation = rel_attestation_ref r\<rparr>"

definition vocabularies_used :: "proof_package \<Rightarrow> string list" where
  "vocabularies_used p = sort (remdups (
     map (\<lambda>e. vocabulary_ns (ev_type e)) (prf_events p)
     @ map (\<lambda>a. vocabulary_ns (claim_type (att_claim (sa_content a)))) (prf_attestations p)
     @ map (\<lambda>e. vocabulary_ns (evd_kind e)) (prf_evidence p)
     @ map (\<lambda>r. vocabulary_ns (rel_ty r)) (prf_relationships p)
     @ [vocabulary_ns (prop_kind (prf_proposition p)), vocabulary_ns (prop_predicate (prf_proposition p))]))"

definition status_by_object :: "verify_report \<Rightarrow> string \<rightharpoonup> evidence_status" where
  "status_by_object rep =
     foldl (\<lambda>m r. case strip_prefix ''evd:'' (esr_object r) of None \<Rightarrow> m | Some i \<Rightarrow> m(i \<mapsto> esr_status r))
       Map.empty (rep_evidence_status rep)"

definition evidence_entry_of :: "base64_engine \<Rightarrow> hash_engine \<Rightarrow> verify_report \<Rightarrow> evidence \<Rightarrow> evidence_status_entry" where
  "evidence_entry_of b64 h rep e =
     \<lparr>ese_id = evd_id_of b64 h e, ese_kind = evd_kind e,
      ese_status = (case status_by_object rep (evd_id_of b64 h e) of Some s \<Rightarrow> s | None \<Rightarrow> EUnknown),
      ese_attestation_ref = evd_attestation_ref e\<rparr>"

definition state_from_report_and_proof ::
  "base64_engine \<Rightarrow> hash_engine \<Rightarrow> verify_report \<Rightarrow> proof_package \<Rightarrow> verified_state result" where
  "state_from_report_and_proof b64 h rep p =
     bindR (ok_or (rep_proof_id rep) SchemaViolation) (\<lambda>rid.
     if rid \<noteq> prf_id p then Inl SchemaViolation
     else let stmts = statements_of b64 h rep p in
     Inr \<lparr>st_proof_id = rid,
          st_crypto_valid = (rep_cryptographic_validity rep = Valid),
          st_evidence_valid = (rep_evidence_validity rep = Valid),
          st_status_inputs_valid = rep_status_inputs_valid rep,
          st_verified_issuers = map att_issuer stmts,
          st_attestation_ids = map (att_id_of b64 h) stmts,
          st_active_attestation_ids = active_ids rep,
          st_superseded_ids = superseded_ids rep,
          st_attestation_times = map (\<lambda>c. (att_issued_at c, att_expires_at c)) stmts,
          st_rel_types = map rel_ty (prf_relationships p),
          st_evidence_kinds = map evd_kind (prf_evidence p),
          st_proof_created_at = prf_created_at p,
          st_claims = map (claim_summary_of b64 h) stmts,
          st_edges = map (edge_fact_of b64 h rep p) (prf_relationships p),
          st_delegations = List.map_filter (delegation_of b64 h) stmts,
          st_identity_bindings = List.map_filter (identity_binding_of b64 h) stmts,
          st_evidence_bindings = List.map_filter (\<lambda>a. evidence_binding_of b64 h rep p (sa_content a)) (prf_attestations p),
          st_withdrawn_ids = rep_withdrawn_ids rep,
          st_vocabularies_used = vocabularies_used p,
          st_vocabularies_declared = prf_vocabularies p,
          st_conflicts = rep_conflicts rep,
          st_referenced_proofs = prf_referenced_proofs p,
          st_evidence_statuses = map (evidence_entry_of b64 h rep) (prf_evidence p)\<rparr>)"

section \<open>What the projection carries over\<close>

lemma map_filter_set: "set (List.map_filter f xs) = {y. \<exists>x \<in> set xs. f x = Some y}"
  by (force simp: map_filter_def)

lemma foldl_map_upd_Some:
  "foldl (\<lambda>m x. m(k x \<mapsto> v x)) m0 xs i = Some y \<Longrightarrow> m0 i = Some y \<or> (\<exists>x \<in> set xs. k x = i \<and> v x = y)"
  by (induction xs arbitrary: m0) (fastforce split: if_splits)+

lemma digest_by_evd_Some:
  "digest_by_evd b64 h p i = Some d \<Longrightarrow> \<exists>e \<in> set (prf_evidence p). evd_id_of b64 h e = i \<and> lower_hex (hr_digest (evd_digest e)) = d"
  using foldl_map_upd_Some [of "evd_id_of b64 h" "\<lambda>e. lower_hex (hr_digest (evd_digest e))" Map.empty "prf_evidence p" i d]
  by (auto simp: digest_by_evd_def)

lemma evidence_binding_of_Some:
  "evidence_binding_of b64 h rep p c = Some b \<longleftrightarrow>
     att_id_of b64 h c \<in> set (verified_ids rep) \<and> att_id_of b64 h c \<in> set (active_ids rep) \<and> claim_kind_of c = KStatement
     \<and> (\<exists>d eref. evidence_digest_hex (att_claim c) = Some (Inr d) \<and> att_evidence_ref c = Some eref
          \<and> digest_by_evd b64 h p eref = Some d \<and> b = \<lparr>eb_attestation_id = att_id_of b64 h c, eb_evidence_id = eref\<rparr>)"
  by (auto simp: evidence_binding_of_def Let_def split: option.splits sum.splits if_splits)

lemma HEX_nth_eq: "m < 16 \<Longrightarrow> n < 16 \<Longrightarrow> HEX ! m = HEX ! n \<longleftrightarrow> m = n"
proof -
  assume "m < 16" "n < 16"
  moreover have "distinct HEX" "length HEX = 16" by (simp_all add: HEX_def)
  ultimately show ?thesis by (simp add: nth_eq_iff_index_eq)
qed

lemma nibbles:
  fixes b :: byte
  shows "unat (drop_bit 4 b) = unat b div 16" "unat (Bit_Operations.and b 0x0f) = unat b mod 16"
proof -
  have "(0x0f :: byte) = mask 4" by (simp add: mask_eq_exp_minus_1)
  then have "Bit_Operations.and b 0x0f = take_bit 4 b" by (simp only: take_bit_eq_mask)
  then show "unat (Bit_Operations.and b 0x0f) = unat b mod 16"
    by (simp only: unsigned_take_bit_eq) (simp add: take_bit_eq_mod)
  show "unat (drop_bit 4 b) = unat b div 16" by (simp add: drop_bit_eq_div unat_div_distrib)
qed

lemma lower_hex_inject: "lower_hex xs = lower_hex ys \<longleftrightarrow> xs = ys"
proof (induction xs arbitrary: ys)
  case Nil
  then show ?case by (cases ys) (auto simp: lower_hex_def)
next
  case (Cons x xs)
  show ?case
  proof (cases ys)
    case (Cons y zs)
    have b: "unat z div 16 < 16" for z :: byte
      using unsigned_less [of z, where ?'a = nat] by (simp add: div_less_iff_less_mult)
    have "lower_hex (x # xs) = lower_hex (y # zs) \<longleftrightarrow> unat x div 16 = unat y div 16 \<and> unat x mod 16 = unat y mod 16 \<and> xs = zs"
      using Cons.IH [of zs] by (simp add: lower_hex_def nibbles HEX_nth_eq b)
    moreover have "unat x div 16 = unat y div 16 \<and> unat x mod 16 = unat y mod 16 \<longleftrightarrow> x = y"
      by (metis div_mult_mod_eq word_unat_eq_iff)
    ultimately show ?thesis using Cons by auto
  qed (simp add: lower_hex_def)
qed

lemma state_projection_Inr:
  "state_from_report_and_proof b64 h rep p = Inr st \<Longrightarrow> rep_proof_id rep = Some (prf_id p) \<and> st_proof_id st = prf_id p"
  by (auto simp: state_from_report_and_proof_def result_iff Let_def)

lemma state_projection_statuses:
  "state_from_report_and_proof b64 h rep p = Inr st \<Longrightarrow>
     st_evidence_statuses st = map (evidence_entry_of b64 h rep) (prf_evidence p)"
  by (auto simp: state_from_report_and_proof_def result_iff Let_def)

lemmas state_projection_fields = state_from_report_and_proof_def result_iff Let_def

end
