(* ===== verification/Eval.thy ===== *)
theory Eval
  imports State Search
begin

text \<open>
  The policy evaluator, \<^verbatim>\<open>proof-policy/src/eval.rs\<close>: one function per requirement family, the
  delegation and identity searches, version-2 expressions and \<^verbatim>\<open>evaluate_policy\<close>. The searches are
  the breadth-first search of \<open>Search\<close>, whose result is \<open>None\<close> when the loop would not end, so
  evaluation is partial here and \<open>eval_one_total\<close> shows that it always returns. Messages are not
  modelled; a result keeps the rendered requirement and whether it passed.
\<close>

section \<open>Inputs and outcomes\<close>

record revocation_set =
  rs_revoked :: "string set"

definition RevocationSet_empty :: revocation_set where
  "RevocationSet_empty = \<lparr>rs_revoked = {}\<rparr>"

definition RevocationSet_new :: "string list \<Rightarrow> revocation_set" where
  "RevocationSet_new ids = \<lparr>rs_revoked = set ids\<rparr>"

record eval_inputs =
  in_trusted_issuers :: "string list"
  in_revocations :: revocation_set
  in_verified_at :: u64
  in_skew_leeway :: u64

definition default_inputs :: eval_inputs where
  "default_inputs = \<lparr>in_trusted_issuers = [], in_revocations = RevocationSet_empty, in_verified_at = 0, in_skew_leeway = 300\<rparr>"

record requirement_result =
  rr_requirement :: string
  rr_passed :: bool

record policy_outcome =
  out_policy_id :: string
  out_decision :: policy_decision
  out_results :: "requirement_result list"

definition pass :: "string \<Rightarrow> requirement_result" where
  "pass req = \<lparr>rr_requirement = req, rr_passed = True\<rparr>"

definition fail :: "string \<Rightarrow> requirement_result" where
  "fail req = \<lparr>rr_requirement = req, rr_passed = False\<rparr>"

text \<open>\<^verbatim>\<open>u64::saturating_add\<close> and \<^verbatim>\<open>u64::saturating_sub\<close>.\<close>

definition sat_add :: "u64 \<Rightarrow> u64 \<Rightarrow> u64" where
  "sat_add a b = (if unat a + unat b \<ge> 2 ^ 64 then - 1 else a + b)"

definition sat_sub :: "u64 \<Rightarrow> u64 \<Rightarrow> u64" where
  "sat_sub a b = (if a < b then 0 else a - b)"

section \<open>Leaves\<close>

fun not_expired :: "(string \<times> u64 \<times> u64 option) list \<Rightarrow> eval_inputs \<Rightarrow> bool" where
  "not_expired [] inp = True"
| "not_expired ((i, issued, expires) # xs) inp =
     (if issued > sat_add (in_verified_at inp) (in_skew_leeway inp) then False
      else case expires of
        Some e \<Rightarrow> if in_verified_at inp > sat_add e (in_skew_leeway inp) then False else not_expired xs inp
      | None \<Rightarrow> not_expired xs inp)"

definition active_set :: "verified_state \<Rightarrow> string set" where
  "active_set st = set (st_active_attestation_ids st)"

definition delegation_links :: "verified_state \<Rightarrow> string option \<Rightarrow> (string \<times> string) list" where
  "delegation_links st scope =
     map (\<lambda>d. (del_delegator d, del_delegatee d))
       (filter (\<lambda>d. del_attestation_id d \<in> active_set st
                  \<and> (case scope of None \<Rightarrow> True | Some sc \<Rightarrow> del_scope d = Some sc))
         (st_delegations st))"

definition delegation_chain :: "verified_state \<Rightarrow> string \<Rightarrow> string \<Rightarrow> string option \<Rightarrow> string list option option" where
  "delegation_chain st root target scope =
     (if target = root then Some (Some [root]) else bfs_path (delegation_links st scope) root target)"

definition link_edge :: "string \<Rightarrow> string \<Rightarrow> (string \<times> string) list" where
  "link_edge x y = [(x, y), (y, x)]"

definition edge_live :: "verified_state \<Rightarrow> eval_inputs \<Rightarrow> edge_fact \<Rightarrow> bool" where
  "edge_live st inp e \<longleftrightarrow>
     (case ef_attestation e of
        None \<Rightarrow> False
      | Some aref \<Rightarrow> aref \<in> active_set st
          \<and> (case ef_attester e of None \<Rightarrow> False | Some t \<Rightarrow> t \<in> set (in_trusted_issuers inp)))"

definition identity_links :: "verified_state \<Rightarrow> eval_inputs \<Rightarrow> (string \<times> string) list" where
  "identity_links st inp =
     concat (map (\<lambda>b. link_edge (ib_subject b) (ib_equivalent b))
       (filter (\<lambda>b. ib_asserter b \<in> set (in_trusted_issuers inp) \<and> ib_attestation_id b \<in> active_set st)
         (st_identity_bindings st)))
     @ concat (map (\<lambda>e. link_edge (ef_from e) (ef_to e))
       (filter (\<lambda>e. ef_rel_type e = EQUIVALENT \<and> edge_live st inp e) (st_edges st)))"

definition identity_path :: "verified_state \<Rightarrow> eval_inputs \<Rightarrow> string \<Rightarrow> string \<Rightarrow> string list option option" where
  "identity_path st inp a b = (if a = b then Some (Some [a]) else bfs_path (identity_links st inp) a b)"

text \<open>Whether a receipt is bound to an active checkpoint of the log; the detail text is not kept.\<close>

definition transparency_binding :: "verified_state \<Rightarrow> string \<Rightarrow> bool" where
  "transparency_binding st log =
     (let checkpoints = map cs_attestation_id (filter (\<lambda>c. cs_claim_type c = CLAIM_TRANSPARENCY_CHECKPOINT
            \<and> cs_issuer c = log \<and> cs_attestation_id c \<in> active_set st) (st_claims st))
      in if checkpoints = [] then False
         else list_ex (\<lambda>e. ese_kind e = TRANSPARENCY_RECEIPT
                \<and> (case ese_attestation_ref e of None \<Rightarrow> False | Some aref \<Rightarrow> aref \<in> set checkpoints))
                (st_evidence_statuses st))"

fun field_matches :: "meta_value \<Rightarrow> field_value \<Rightarrow> field_op \<Rightarrow> bool" where
  "field_matches (MUint a) (FUint b) FEq = (a = b)"
| "field_matches (MUint a) (FUint b) FNe = (a \<noteq> b)"
| "field_matches (MUint a) (FUint b) FGt = (a > b)"
| "field_matches (MUint a) (FUint b) FGte = (a \<ge> b)"
| "field_matches (MUint a) (FUint b) FLt = (a < b)"
| "field_matches (MUint a) (FUint b) FLte = (a \<le> b)"
| "field_matches (MText a) (FText b) FEq = (a = b)"
| "field_matches (MText a) (FText b) FNe = (a \<noteq> b)"
| "field_matches (MBool a) (FBool b) FEq = (a = b)"
| "field_matches (MBool a) (FBool b) FNe = (a \<noteq> b)"
| "field_matches _ _ _ = False"

definition claim_satisfies ::
  "verified_state \<Rightarrow> string option \<Rightarrow> string option \<Rightarrow> string \<Rightarrow> field_op \<Rightarrow> field_value \<Rightarrow> claim_summary \<Rightarrow> bool" where
  "claim_satisfies st ct sub f op v c \<longleftrightarrow>
     cs_attestation_id c \<in> active_set st
     \<and> (case ct of None \<Rightarrow> True | Some t \<Rightarrow> cs_claim_type c = t)
     \<and> (case sub of None \<Rightarrow> True | Some s \<Rightarrow> cs_subject c = s)
     \<and> (case map_of (cs_fields c) f of None \<Rightarrow> False | Some actual \<Rightarrow> field_matches actual v op)"

definition eval_claim_field ::
  "verified_state \<Rightarrow> string option \<Rightarrow> string option \<Rightarrow> string \<Rightarrow> field_op \<Rightarrow> field_value \<Rightarrow> bool" where
  "eval_claim_field st ct sub f op v = list_ex (claim_satisfies st ct sub f op v) (st_claims st)"

definition vocabulary_accepted :: "verified_state \<Rightarrow> string \<Rightarrow> u64 \<Rightarrow> bool" where
  "vocabulary_accepted st ns max_version =
     (let over = map voc_version (filter (\<lambda>vd. voc_ns vd = ns) (st_vocabularies_declared st))
      in if list_ex (\<lambda>v. v > max_version) over then False
         else if ns \<in> set (st_vocabularies_used st) \<and> \<not> list_ex (\<lambda>v. v \<le> max_version) over then False
         else True)"

definition evidence_usable :: "verified_state \<Rightarrow> evidence_kind \<Rightarrow> bool" where
  "evidence_usable st kind = list_ex (\<lambda>e. ese_kind e = kind \<and> ese_status e = EAvailable) (st_evidence_statuses st)"

definition evidence_bound :: "verified_state \<Rightarrow> evidence_kind \<Rightarrow> bool" where
  "evidence_bound st kind =
     (let available = ese_id ` set (filter (\<lambda>e. ese_kind e = kind \<and> ese_status e = EAvailable) (st_evidence_statuses st))
      in list_ex (\<lambda>b. eb_evidence_id b \<in> available) (st_evidence_bindings st))"

definition result_of :: "requirement \<Rightarrow> bool \<Rightarrow> requirement_result" where
  "result_of req b = (if b then pass (describe req) else fail (describe req))"

fun eval_one :: "requirement \<Rightarrow> verified_state \<Rightarrow> eval_inputs \<Rightarrow> requirement_result option" where
  "eval_one SignatureValid st inp = Some (pass (describe SignatureValid))"
| "eval_one (IssuerTrusted issuer) st inp = Some (result_of (IssuerTrusted issuer)
     (issuer \<in> set (in_trusted_issuers inp) \<and> issuer \<in> set (st_verified_issuers st)))"
| "eval_one (IssuerExcluded issuer) st inp = Some (result_of (IssuerExcluded issuer) (issuer \<notin> set (st_verified_issuers st)))"
| "eval_one (RelationshipExists r) st inp = Some (result_of (RelationshipExists r) (r \<in> set (st_rel_types st)))"
| "eval_one NotExpired st inp =
     Some (result_of NotExpired (not_expired (zip (st_attestation_ids st) (st_attestation_times st)) inp))"
| "eval_one NotRevoked st inp = Some (result_of NotRevoked
     (\<not> list_ex (\<lambda>i. i \<in> rs_revoked (in_revocations inp)) (st_attestation_ids st)))"
| "eval_one NotSuperseded st inp = Some (result_of NotSuperseded (st_superseded_ids st = []))"
| "eval_one (EvidencePresent kind) st inp = Some (result_of (EvidencePresent kind) (kind \<in> set (st_evidence_kinds st)))"
| "eval_one TransparencyPresent st inp = Some (result_of TransparencyPresent (has_transparency st))"
| "eval_one (ProofFresh max_age) st inp =
     Some (if in_verified_at inp = 0 then fail (describe (ProofFresh max_age))
       else result_of (ProofFresh max_age) (sat_sub (in_verified_at inp) (st_proof_created_at st) \<le> max_age))"
| "eval_one (DelegatedAuthority root issuer scope) st inp =
     (if root \<notin> set (in_trusted_issuers inp) then Some (fail (describe (DelegatedAuthority root issuer scope)))
      else if issuer \<notin> set (st_verified_issuers st) then Some (fail (describe (DelegatedAuthority root issuer scope)))
      else map_option (\<lambda>chain. result_of (DelegatedAuthority root issuer scope) (chain \<noteq> None))
             (delegation_chain st root issuer scope))"
| "eval_one (IdentityBound a b) st inp =
     map_option (\<lambda>found. result_of (IdentityBound a b) (found \<noteq> None)) (identity_path st inp a b)"
| "eval_one (TransparencyInclusion log) st inp = Some (result_of (TransparencyInclusion log) (transparency_binding st log))"
| "eval_one NoConflictingEvidence st inp = Some (result_of NoConflictingEvidence (st_conflicts st = []))"
| "eval_one (VocabularyAccepted ns n) st inp = Some (result_of (VocabularyAccepted ns n) (vocabulary_accepted st ns n))"
| "eval_one (EvidenceUsable kind) st inp = Some (result_of (EvidenceUsable kind) (evidence_usable st kind))"
| "eval_one (EvidenceBound kind) st inp = Some (result_of (EvidenceBound kind) (evidence_bound st kind))"
| "eval_one (RequiresReference i) st inp = Some (result_of (RequiresReference i) (i \<in> set (st_referenced_proofs st)))"
| "eval_one (ForbidsReference i) st inp = Some (result_of (ForbidsReference i) (i \<notin> set (st_referenced_proofs st)))"
| "eval_one (ClaimField ct sub f op v) st inp = Some (result_of (ClaimField ct sub f op v) (eval_claim_field st ct sub f op v))"

section \<open>Expressions and policies\<close>

text \<open>
  Every child is evaluated, in order; the results are appended to the accumulator that is
  threaded through, as the source pushes them to \<^verbatim>\<open>results\<close>. The list version gives the outcome
  of every child.
\<close>

fun eval_expr ::
    "policy_expr \<Rightarrow> verified_state \<Rightarrow> eval_inputs \<Rightarrow> requirement_result list \<Rightarrow> (bool \<times> requirement_result list) option"
  and eval_exprs ::
    "policy_expr list \<Rightarrow> verified_state \<Rightarrow> eval_inputs \<Rightarrow> requirement_result list \<Rightarrow> (bool list \<times> requirement_result list) option" where
  "eval_expr (ELeaf req) st inp rs =
     Option.bind (eval_one req st inp) (\<lambda>res. Some (rr_passed res, rs @ [res]))"
| "eval_expr (EAll cs) st inp rs =
     Option.bind (eval_exprs cs st inp rs) (\<lambda>(bs, rs'). Some (foldl (\<lambda>ok b. b \<and> ok) True bs, rs'))"
| "eval_expr (EAny cs) st inp rs =
     Option.bind (eval_exprs cs st inp rs) (\<lambda>(bs, rs'). Some (foldl (\<lambda>ok b. b \<or> ok) False bs, rs'))"
| "eval_expr (ENot c) st inp rs =
     Option.bind (eval_expr c st inp rs) (\<lambda>(b, rs'). Some (\<not> b, rs'))"
| "eval_expr (EThreshold k opts) st inp rs =
     Option.bind (eval_exprs opts st inp rs)
       (\<lambda>(bs, rs'). Some (foldl (\<lambda>count b. if b then count + 1 else count) 0 bs \<ge> k, rs'))"
| "eval_exprs [] st inp rs = Some ([], rs)"
| "eval_exprs (c # cs) st inp rs =
     Option.bind (eval_expr c st inp rs) (\<lambda>(b, rs').
     Option.bind (eval_exprs cs st inp rs') (\<lambda>(bs, rs''). Some (b # bs, rs'')))"

fun eval_all :: "requirement list \<Rightarrow> verified_state \<Rightarrow> eval_inputs \<Rightarrow> requirement_result list \<Rightarrow> requirement_result list option" where
  "eval_all [] st inp rs = Some rs"
| "eval_all (r # reqs) st inp rs = Option.bind (eval_one r st inp) (\<lambda>res. eval_all reqs st inp (rs @ [res]))"

definition evaluate_policy :: "verified_state \<Rightarrow> policy \<Rightarrow> eval_inputs \<Rightarrow> policy_outcome option" where
  "evaluate_policy st p inp =
     (if \<not> st_crypto_valid st \<or> \<not> st_evidence_valid st
      then Some \<lparr>out_policy_id = pol_id p, out_decision = Indeterminate, out_results = []\<rparr>
      else if pol_version p = 2 then
        (case pol_expression p of
           Some e \<Rightarrow>
             Option.bind (eval_expr e st inp []) (\<lambda>(passed, rs).
               Some \<lparr>out_policy_id = pol_id p, out_decision = (if passed then Pass else Fail), out_results = rs\<rparr>)
         | None \<Rightarrow> Some \<lparr>out_policy_id = pol_id p, out_decision = Indeterminate, out_results = []\<rparr>)
      else
        Option.bind (eval_all (pol_requirements p) st inp []) (\<lambda>rs.
          Some \<lparr>out_policy_id = pol_id p, out_decision = (if list_all rr_passed rs then Pass else Fail), out_results = rs\<rparr>))"

section \<open>Reference semantics\<close>

text \<open>
  What each requirement means, over sets, relations and unbounded numbers: no saturating
  arithmetic, no search, no evaluation order.
\<close>

definition delegates :: "verified_state \<Rightarrow> string option \<Rightarrow> (string \<times> string) set" where
  "delegates st scope = {(del_delegator d, del_delegatee d) | d.
     d \<in> set (st_delegations st) \<and> del_attestation_id d \<in> set (st_active_attestation_ids st)
     \<and> (scope \<noteq> None \<longrightarrow> del_scope d = scope)}"

definition same_identity :: "verified_state \<Rightarrow> string set \<Rightarrow> (string \<times> string) set" where
  "same_identity st trusted =
     {(ib_subject b, ib_equivalent b) | b. b \<in> set (st_identity_bindings st)
        \<and> ib_asserter b \<in> trusted \<and> ib_attestation_id b \<in> set (st_active_attestation_ids st)}
     \<union> {(ef_from e, ef_to e) | e t i. e \<in> set (st_edges st) \<and> ef_rel_type e = EQUIVALENT
        \<and> ef_attester e = Some t \<and> t \<in> trusted \<and> ef_attestation e = Some i \<and> i \<in> set (st_active_attestation_ids st)}"

definition within_validity :: "eval_inputs \<Rightarrow> u64 \<times> u64 option \<Rightarrow> bool" where
  "within_validity inp t \<longleftrightarrow>
     unat (fst t) \<le> unat (in_verified_at inp) + unat (in_skew_leeway inp)
     \<and> (\<forall>e. snd t = Some e \<longrightarrow> unat (in_verified_at inp) \<le> unat e + unat (in_skew_leeway inp))"

fun holds :: "requirement \<Rightarrow> verified_state \<Rightarrow> eval_inputs \<Rightarrow> bool" where
  "holds SignatureValid st inp = True"
| "holds (IssuerTrusted i) st inp = (i \<in> set (in_trusted_issuers inp) \<and> i \<in> set (st_verified_issuers st))"
| "holds (IssuerExcluded i) st inp = (i \<notin> set (st_verified_issuers st))"
| "holds (RelationshipExists r) st inp = (r \<in> set (st_rel_types st))"
| "holds NotExpired st inp =
     (\<forall>(i, t) \<in> set (zip (st_attestation_ids st) (st_attestation_times st)). within_validity inp t)"
| "holds NotRevoked st inp = (set (st_attestation_ids st) \<inter> rs_revoked (in_revocations inp) = {})"
| "holds NotSuperseded st inp = (st_superseded_ids st = [])"
| "holds (EvidencePresent k) st inp = (k \<in> set (st_evidence_kinds st))"
| "holds TransparencyPresent st inp = (TRANSPARENCY_RECEIPT \<in> set (st_evidence_kinds st))"
| "holds (ProofFresh n) st inp =
     (in_verified_at inp \<noteq> 0 \<and> unat (in_verified_at inp) \<le> unat (st_proof_created_at st) + unat n)"
| "holds (DelegatedAuthority root i scope) st inp =
     (root \<in> set (in_trusted_issuers inp) \<and> i \<in> set (st_verified_issuers st) \<and> (root, i) \<in> (delegates st scope)\<^sup>*)"
| "holds (IdentityBound a b) st inp =
     ((a, b) \<in> (same_identity st (set (in_trusted_issuers inp)) \<union> (same_identity st (set (in_trusted_issuers inp)))\<inverse>)\<^sup>*)"
| "holds (TransparencyInclusion log) st inp =
     (\<exists>c \<in> set (st_claims st). \<exists>e \<in> set (st_evidence_statuses st).
        cs_claim_type c = CLAIM_TRANSPARENCY_CHECKPOINT \<and> cs_issuer c = log
        \<and> cs_attestation_id c \<in> set (st_active_attestation_ids st)
        \<and> ese_kind e = TRANSPARENCY_RECEIPT \<and> ese_attestation_ref e = Some (cs_attestation_id c))"
| "holds NoConflictingEvidence st inp = (st_conflicts st = [])"
| "holds (VocabularyAccepted ns n) st inp =
     ((\<forall>d \<in> set (st_vocabularies_declared st). voc_ns d = ns \<longrightarrow> voc_version d \<le> n)
      \<and> (ns \<in> set (st_vocabularies_used st) \<longrightarrow> ns \<in> voc_ns ` set (st_vocabularies_declared st)))"
| "holds (EvidenceUsable k) st inp =
     (\<exists>e \<in> set (st_evidence_statuses st). ese_kind e = k \<and> ese_status e = EAvailable)"
| "holds (EvidenceBound k) st inp =
     (\<exists>e \<in> set (st_evidence_statuses st). \<exists>b \<in> set (st_evidence_bindings st).
        ese_kind e = k \<and> ese_status e = EAvailable \<and> eb_evidence_id b = ese_id e)"
| "holds (RequiresReference i) st inp = (i \<in> set (st_referenced_proofs st))"
| "holds (ForbidsReference i) st inp = (i \<notin> set (st_referenced_proofs st))"
| "holds (ClaimField ct sub f op v) st inp =
     (\<exists>c \<in> set (st_claims st). cs_attestation_id c \<in> set (st_active_attestation_ids st)
        \<and> (ct \<noteq> None \<longrightarrow> ct = Some (cs_claim_type c)) \<and> (sub \<noteq> None \<longrightarrow> sub = Some (cs_subject c))
        \<and> (\<exists>x. map_of (cs_fields c) f = Some x \<and> field_matches x v op))"

fun expr_holds :: "(requirement \<Rightarrow> bool) \<Rightarrow> policy_expr \<Rightarrow> bool" where
  "expr_holds P (ELeaf r) = P r"
| "expr_holds P (EAll cs) = (\<forall>c \<in> set cs. expr_holds P c)"
| "expr_holds P (EAny cs) = (\<exists>c \<in> set cs. expr_holds P c)"
| "expr_holds P (ENot c) = (\<not> expr_holds P c)"
| "expr_holds P (EThreshold k cs) = (k \<le> length (filter (expr_holds P) cs))"

fun leaves :: "policy_expr \<Rightarrow> requirement list" where
  "leaves (ELeaf r) = [r]"
| "leaves (EAll cs) = concat (map leaves cs)"
| "leaves (EAny cs) = concat (map leaves cs)"
| "leaves (ENot c) = leaves c"
| "leaves (EThreshold k cs) = concat (map leaves cs)"

section \<open>The evaluator refines the reference semantics\<close>

lemma sat_add_less: "x > sat_add a b \<longleftrightarrow> unat x > unat a + unat b"
proof (cases "unat a + unat b \<ge> 2 ^ 64")
  case True
  moreover have "unat x < 2 ^ 64" using unsigned_less [of x] by simp
  ultimately show ?thesis by (simp add: sat_add_def word_not_simps)
next
  case False
  then have "unat (a + b) = unat a + unat b" by (simp add: unat_word_ariths)
  with False show ?thesis by (simp add: sat_add_def word_less_nat_alt)
qed

lemma sat_sub_le: "sat_sub a b \<le> m \<longleftrightarrow> unat a \<le> unat b + unat m"
proof (cases "a < b")
  case True
  then show ?thesis by (simp add: sat_sub_def word_less_nat_alt)
next
  case False
  then have "unat (a - b) = unat a - unat b" by (simp add: unat_sub_if' word_less_nat_alt)
  with False show ?thesis by (auto simp: sat_sub_def word_le_nat_alt word_less_nat_alt)
qed

lemma not_expired_iff: "not_expired xs inp \<longleftrightarrow> (\<forall>(i, t) \<in> set xs. within_validity inp t)"
  by (induction xs inp rule: not_expired.induct)
    (auto simp: within_validity_def sat_add_less not_less split: option.splits)

lemma delegation_links_set: "set (delegation_links st scope) = delegates st scope"
  by (auto simp: delegation_links_def delegates_def active_set_def split: option.splits)

lemma delegation_chain_found: "\<exists>r. delegation_chain st root target scope = Some r \<and> (r \<noteq> None \<longleftrightarrow> (root, target) \<in> (delegates st scope)\<^sup>*)"
  using bfs.returns [of "delegation_links st scope" root target]
    bfs.not_found_iff [of "delegation_links st scope" root target] delegation_links_set [of st scope]
  by (auto simp: delegation_chain_def)

lemma link_edges_set:
  "set (concat (map (\<lambda>x. link_edge (f x) (g x)) xs)) = (\<lambda>x. (f x, g x)) ` set xs \<union> ((\<lambda>x. (f x, g x)) ` set xs)\<inverse>"
  by (induction xs) (auto simp: link_edge_def)

lemma edge_live_iff:
  "edge_live st inp e \<longleftrightarrow> (\<exists>t i. ef_attester e = Some t \<and> t \<in> set (in_trusted_issuers inp)
     \<and> ef_attestation e = Some i \<and> i \<in> set (st_active_attestation_ids st))"
  by (auto simp: edge_live_def active_set_def split: option.splits)

lemma identity_links_set:
  "set (identity_links st inp) =
     same_identity st (set (in_trusted_issuers inp)) \<union> (same_identity st (set (in_trusted_issuers inp)))\<inverse>"
proof -
  let ?B = "{b \<in> set (st_identity_bindings st). ib_asserter b \<in> set (in_trusted_issuers inp) \<and> ib_attestation_id b \<in> active_set st}"
  let ?E = "{e \<in> set (st_edges st). ef_rel_type e = EQUIVALENT \<and> edge_live st inp e}"
  have "same_identity st (set (in_trusted_issuers inp)) =
      (\<lambda>b. (ib_subject b, ib_equivalent b)) ` ?B \<union> (\<lambda>e. (ef_from e, ef_to e)) ` ?E"
    unfolding same_identity_def edge_live_iff active_set_def image_def by blast
  then show ?thesis
    unfolding identity_links_def set_append link_edges_set set_filter converse_Un by blast
qed

lemma identity_path_found:
  "\<exists>r. identity_path st inp a b = Some r \<and>
     (r \<noteq> None \<longleftrightarrow> (a, b) \<in> (same_identity st (set (in_trusted_issuers inp)) \<union> (same_identity st (set (in_trusted_issuers inp)))\<inverse>)\<^sup>*)"
  using bfs.returns [of "identity_links st inp" a b]
    bfs.not_found_iff [of "identity_links st inp" a b] identity_links_set [of st inp]
  by (auto simp: identity_path_def)


lemma eval_one_total: "eval_one r st inp = Some (result_of r (holds r st inp))"
proof (cases r)
  case NotExpired
  then show ?thesis by (simp add: not_expired_iff)
next
  case (ProofFresh n)
  then show ?thesis by (simp add: sat_sub_le result_of_def)
next
  case (DelegatedAuthority root i scope)
  then show ?thesis using delegation_chain_found [of st root i scope] by (auto simp: result_of_def)
next
  case (IdentityBound a b)
  then show ?thesis using identity_path_found [of st inp a b] by auto
next
  case (TransparencyInclusion log)
  have "transparency_binding st log \<longleftrightarrow> holds r st inp"
    unfolding TransparencyInclusion
    by (auto simp: transparency_binding_def active_set_def Let_def list_ex_iff filter_empty_conv split: option.splits) metis
  with TransparencyInclusion show ?thesis by simp
next
  case (VocabularyAccepted ns n)
  have "vocabulary_accepted st ns n \<longleftrightarrow> holds r st inp"
    unfolding VocabularyAccepted
    by (auto simp: vocabulary_accepted_def Let_def list_ex_iff not_le)
  with VocabularyAccepted show ?thesis by simp
next
  case (ClaimField ct sub f op v)
  have "claim_satisfies st ct sub f op v c \<longleftrightarrow> cs_attestation_id c \<in> set (st_active_attestation_ids st)
        \<and> (ct \<noteq> None \<longrightarrow> ct = Some (cs_claim_type c)) \<and> (sub \<noteq> None \<longrightarrow> sub = Some (cs_subject c))
        \<and> (\<exists>x. map_of (cs_fields c) f = Some x \<and> field_matches x v op)" for c
    by (cases ct; cases sub; cases "map_of (cs_fields c) f") (auto simp: claim_satisfies_def active_set_def)
  then have "eval_claim_field st ct sub f op v \<longleftrightarrow> holds r st inp"
    unfolding ClaimField by (simp add: eval_claim_field_def list_ex_iff)
  with ClaimField show ?thesis by simp
next
  case (EvidenceBound k)
  have "evidence_bound st k \<longleftrightarrow> holds r st inp"
    unfolding EvidenceBound by (auto simp: evidence_bound_def Let_def list_ex_iff)
  with EvidenceBound show ?thesis by simp
qed (auto simp: result_of_def list_ex_iff has_transparency_def evidence_usable_def)

lemma foldl_and: "foldl (\<lambda>ok b. b \<and> ok) a bs \<longleftrightarrow> a \<and> list_all (\<lambda>b. b) bs"
  by (induction bs arbitrary: a) auto

lemma foldl_or: "foldl (\<lambda>ok b. b \<or> ok) a bs \<longleftrightarrow> a \<or> list_ex (\<lambda>b. b) bs"
  by (induction bs arbitrary: a) auto

lemma foldl_count: "foldl (\<lambda>count b. if b then count + 1 else count) n bs = n + length (filter (\<lambda>b. b) bs)" for n :: nat
  by (induction bs arbitrary: n) auto

lemma eval_expr_total:
  "eval_expr e st inp rs =
     Some (expr_holds (\<lambda>r. holds r st inp) e, rs @ map (\<lambda>r. result_of r (holds r st inp)) (leaves e))"
  "eval_exprs es st inp rs =
     Some (map (expr_holds (\<lambda>r. holds r st inp)) es, rs @ map (\<lambda>r. result_of r (holds r st inp)) (concat (map leaves es)))"
proof (induction e st inp rs and es st inp rs rule: eval_expr_eval_exprs.induct)
  case (1 r st inp rs)
  then show ?case by (simp add: eval_one_total result_of_def pass_def fail_def)
qed (simp_all add: foldl_and foldl_or foldl_count list_all_iff list_ex_iff filter_map comp_def)

lemma eval_all_total:
  "eval_all reqs st inp rs = Some (rs @ map (\<lambda>r. result_of r (holds r st inp)) reqs)"
  by (induction reqs arbitrary: rs) (simp_all add: eval_one_total)

lemma result_of_passed [simp]: "rr_passed (result_of r b) = b" "rr_requirement (result_of r b) = describe r"
  by (simp_all add: result_of_def pass_def fail_def)

definition policy_leaves :: "policy \<Rightarrow> requirement list" where
  "policy_leaves p = (if pol_version p = 2 then (case pol_expression p of None \<Rightarrow> [] | Some e \<Rightarrow> leaves e) else pol_requirements p)"

definition policy_meaning :: "policy \<Rightarrow> verified_state \<Rightarrow> eval_inputs \<Rightarrow> policy_decision" where
  "policy_meaning p st inp =
     (if \<not> (st_crypto_valid st \<and> st_evidence_valid st) \<or> (pol_version p = 2 \<and> pol_expression p = None) then Indeterminate
      else if (case pol_expression p of
                 Some e \<Rightarrow> if pol_version p = 2 then expr_holds (\<lambda>r. holds r st inp) e
                           else (\<forall>r \<in> set (pol_requirements p). holds r st inp)
               | None \<Rightarrow> (\<forall>r \<in> set (pol_requirements p). holds r st inp))
           then Pass else Fail)"

lemma evaluate_policy_total:
  "evaluate_policy st p inp = Some
     \<lparr>out_policy_id = pol_id p, out_decision = policy_meaning p st inp,
      out_results = (if policy_meaning p st inp = Indeterminate then []
        else map (\<lambda>r. \<lparr>rr_requirement = describe r, rr_passed = holds r st inp\<rparr>) (policy_leaves p))\<rparr>"
proof -
  have res: "result_of r b = \<lparr>rr_requirement = describe r, rr_passed = b\<rparr>" for r b
    by (simp add: result_of_def pass_def fail_def)
  show ?thesis
    by (auto simp: evaluate_policy_def policy_meaning_def policy_leaves_def eval_expr_total eval_all_total list_all_iff res
        split: option.splits)
qed

section \<open>More trust never turns a pass into a failure\<close>

fun negation_free :: "policy_expr \<Rightarrow> bool" where
  "negation_free (ELeaf _) = True"
| "negation_free (EAll cs) = list_all negation_free cs"
| "negation_free (EAny cs) = list_all negation_free cs"
| "negation_free (ENot _) = False"
| "negation_free (EThreshold _ cs) = list_all negation_free cs"

lemma same_identity_mono: "T \<subseteq> T' \<Longrightarrow> same_identity st T \<subseteq> same_identity st T'"
  unfolding same_identity_def by blast

lemma holds_mono:
  assumes "set (in_trusted_issuers inp) \<subseteq> set T" "holds r st inp"
  shows "holds r st (inp\<lparr>in_trusted_issuers := T\<rparr>)"
proof (cases r)
  case (IdentityBound a b)
  let ?R = "\<lambda>X. same_identity st X \<union> (same_identity st X)\<inverse>"
  have "?R (set (in_trusted_issuers inp)) \<subseteq> ?R (set T)"
    using same_identity_mono [OF assms(1), of st] by blast
  from rtrancl_mono [OF this] show ?thesis using assms(2) IdentityBound by auto
qed (use assms in \<open>auto simp: within_validity_def\<close>)

lemma length_filter_mono: "(\<And>x. x \<in> set xs \<Longrightarrow> P x \<Longrightarrow> Q x) \<Longrightarrow> length (filter P xs) \<le> length (filter Q xs)"
  by (induction xs) (auto simp: le_SucI)

lemma expr_holds_mono:
  "negation_free e \<Longrightarrow> (\<And>r. P r \<Longrightarrow> Q r) \<Longrightarrow> expr_holds P e \<Longrightarrow> expr_holds Q e"
proof (induction e rule: negation_free.induct)
  case (5 k cs)
  have "length (filter (expr_holds P) cs) \<le> length (filter (expr_holds Q) cs)"
    using 5 by (intro length_filter_mono) (auto simp: list_all_iff)
  with 5 show ?case by simp
qed (auto simp: list_all_iff)

section \<open>Properties\<close>

lemma not_expired_at_zero:
  assumes "in_verified_at inp = 0"
  shows "holds NotExpired st inp \<longleftrightarrow>
     (\<forall>(i, issued, expires) \<in> set (zip (st_attestation_ids st) (st_attestation_times st)). issued \<le> in_skew_leeway inp)"
  using assms by (auto simp: within_validity_def word_le_nat_alt split: option.splits)

text \<open>
  C15. Evaluation refines the reference semantics: it always returns, its decision is
  INDETERMINATE exactly when the proof is not valid or a version-2 policy has no expression,
  and otherwise PASS exactly when the policy holds (all requirements, or the boolean and
  threshold reading of the expression), where each requirement is read over sets, closures of
  relations and unbounded numbers; and it reports one result per leaf, in order, with the
  truth of that leaf. Of the two requirements on time only the freshness of the proof fails at a zero clock; that of
  unexpired statements reads their bounds as at any other time (lemma \<open>not_expired_at_zero\<close>).
\<close>

theorem evaluate_policy_refines_meaning:
  "evaluate_policy st p inp = Some
     \<lparr>out_policy_id = pol_id p, out_decision = policy_meaning p st inp,
      out_results = (if policy_meaning p st inp = Indeterminate then []
        else map (\<lambda>r. \<lparr>rr_requirement = describe r, rr_passed = holds r st inp\<rparr>) (policy_leaves p))\<rparr>"
  by (rule evaluate_policy_total)

text \<open>
  C16. The delegation search always ends, and decides authority: it returns a chain from the
  root to the target in which every step is an active delegation that carries the required
  scope, and it returns no chain only if there is none.
\<close>

theorem delegation_chain_correct:
  "\<exists>r. delegation_chain st root target scope = Some r \<and>
     (case r of
        Some c \<Rightarrow> path (delegates st scope) root c target
      | None \<Rightarrow> (root, target) \<notin> (delegates st scope)\<^sup>*)"
proof (cases "target = root")
  case True
  then show ?thesis by (simp add: delegation_chain_def path_def)
next
  case False
  obtain r where r: "bfs_path (delegation_links st scope) root target = Some r"
    using bfs.returns [of "delegation_links st scope" root target] by auto
  show ?thesis
  proof (cases r)
    case None
    with r bfs.not_found_iff [of "delegation_links st scope" root target]
    have "(root, target) \<notin> (delegates st scope)\<^sup>*" by (simp add: delegation_links_set)
    with r None False show ?thesis by (simp add: delegation_chain_def)
  next
    case (Some c)
    with r bfs.found_path [of "delegation_links st scope"] False show ?thesis
      by (simp add: delegation_chain_def delegation_links_set)
  qed
qed

text \<open>
  Trust is monotone: when a policy without negation passes, it still passes after the
  verifier adds issuers to its trust list.
\<close>

theorem pass_monotone_in_trust:
  assumes "evaluate_policy st p inp = Some out" "out_decision out = Pass"
    and "set (in_trusted_issuers inp) \<subseteq> set T"
    and "case pol_expression p of None \<Rightarrow> True | Some e \<Rightarrow> negation_free e"
  shows "map_option out_decision (evaluate_policy st p (inp\<lparr>in_trusted_issuers := T\<rparr>)) = Some Pass"
proof -
  have "policy_meaning p st inp = Pass" using assms(1,2) by (auto simp: evaluate_policy_total)
  then have "policy_meaning p st (inp\<lparr>in_trusted_issuers := T\<rparr>) = Pass"
    using assms(4) holds_mono [OF assms(3)]
      expr_holds_mono [of _ "\<lambda>r. holds r st inp" "\<lambda>r. holds r st (inp\<lparr>in_trusted_issuers := T\<rparr>)"]
    by (auto simp: policy_meaning_def split: if_splits option.splits)
  then show ?thesis by (simp add: evaluate_policy_total)
qed

definition sample_state :: verified_state where
  "sample_state = \<lparr>st_proof_id = ''prf:v1:x'', st_crypto_valid = True, st_evidence_valid = True,
     st_status_inputs_valid = True, st_verified_issuers = [''key:ed25519:B''], st_attestation_ids = [''a1'', ''a2''],
     st_active_attestation_ids = [''a1'', ''a2''], st_superseded_ids = [], st_attestation_times = [(1, None), (2, Some 9)],
     st_rel_types = [], st_evidence_kinds = [], st_proof_created_at = 5, st_claims = [], st_edges = [],
     st_delegations = [\<lparr>del_attestation_id = ''a1'', del_delegator = ''key:ed25519:A'', del_delegatee = ''key:ed25519:B'',
        del_scope = None, del_issued_at = 1, del_expires_at = None\<rparr>],
     st_identity_bindings = [], st_evidence_bindings = [], st_withdrawn_ids = [], st_vocabularies_used = [],
     st_vocabularies_declared = [], st_conflicts = [], st_referenced_proofs = [], st_evidence_statuses = []\<rparr>"

definition sample_inputs :: eval_inputs where
  "sample_inputs = \<lparr>in_trusted_issuers = [''key:ed25519:A''], in_revocations = RevocationSet_empty,
     in_verified_at = 7, in_skew_leeway = 1\<rparr>"

definition sample_authority_policy :: policy where
  "sample_authority_policy = \<lparr>pol_version = 2, pol_id = ''p'', pol_requirements = [],
     pol_expression = Some (EAll [ELeaf NotExpired, ELeaf (DelegatedAuthority ''key:ed25519:A'' ''key:ed25519:B'' None)])\<rparr>"

theorem pass_monotone_in_trust_witness:
  "map_option out_decision (evaluate_policy sample_state sample_authority_policy
     (sample_inputs\<lparr>in_trusted_issuers := [''key:ed25519:C'', ''key:ed25519:A'']\<rparr>)) = Some Pass"
proof -
  have "(''key:ed25519:A'', ''key:ed25519:B'') \<in> delegates sample_state None"
    by (auto simp: delegates_def sample_state_def)
  then have "policy_meaning sample_authority_policy sample_state sample_inputs = Pass"
    by (auto simp: policy_meaning_def sample_authority_policy_def sample_inputs_def within_validity_def sample_state_def)
  then show ?thesis
    by (intro pass_monotone_in_trust [OF evaluate_policy_total])
      (simp_all add: sample_inputs_def sample_authority_policy_def)
qed

section \<open>Properties of the projection\<close>

text \<open>
  The projection succeeds exactly when the report and the proof have the same id, and what
  it carries over is attributable: every issuer, claim and delegation of the view comes from an
  attestation of the proof whose signature the report records as verified and that is not a
  status object, and the id, time, issuer and claim lists of the view are aligned.
\<close>

theorem state_projection_attributable:
  assumes "state_from_report_and_proof b64 h rep p = Inr st"
  shows "rep_proof_id rep = Some (prf_id p)
    \<and> st_verified_issuers st = map cs_issuer (st_claims st) \<and> st_attestation_ids st = map cs_attestation_id (st_claims st)
    \<and> length (st_attestation_times st) = length (st_claims st)
    \<and> set (st_claims st) = claim_summary_of b64 h ` {c. c \<in> sa_content ` set (prf_attestations p)
         \<and> att_id_of b64 h c \<in> set (verified_ids rep) \<and> att_id_of b64 h c \<notin> set (rep_status_objects rep)}
    \<and> (\<forall>d \<in> set (st_delegations st). \<exists>c \<in> set (st_claims st). cs_claim_type c = CLAIM_DELEGATE
         \<and> cs_attestation_id c = del_attestation_id d \<and> cs_issuer c = del_delegator d \<and> cs_subject c = del_delegatee d)"
proof -
  have st: "st_claims st = map (claim_summary_of b64 h) (statements_of b64 h rep p)"
    "st_delegations st = List.map_filter (delegation_of b64 h) (statements_of b64 h rep p)"
    "st_verified_issuers st = map att_issuer (statements_of b64 h rep p)"
    "st_attestation_ids st = map (att_id_of b64 h) (statements_of b64 h rep p)"
    "st_attestation_times st = map (\<lambda>c. (att_issued_at c, att_expires_at c)) (statements_of b64 h rep p)"
    using assms by (auto simp: state_projection_fields)
  have "set (statements_of b64 h rep p) = {c. c \<in> sa_content ` set (prf_attestations p)
         \<and> att_id_of b64 h c \<in> set (verified_ids rep) \<and> att_id_of b64 h c \<notin> set (rep_status_objects rep)}"
    by (auto simp: statements_of_def is_statement_def)
  moreover have "\<exists>c \<in> set (st_claims st). cs_claim_type c = CLAIM_DELEGATE
         \<and> cs_attestation_id c = del_attestation_id d \<and> cs_issuer c = del_delegator d \<and> cs_subject c = del_delegatee d"
    if "d \<in> set (st_delegations st)" for d
    using that by (auto simp: st map_filter_set delegation_of_def claim_summary_of_def split: if_splits)
  ultimately show ?thesis using assms st
    by (auto simp: state_projection_Inr claim_summary_of_def comp_def)
qed

text \<open>
  The evidence requirements are strictly ordered on the views that the projection builds:
  bound evidence is usable, usable evidence is present, and transparency inclusion implies a
  transparency receipt; and a binding of the view is cryptographic: it comes from a verified,
  active statement whose claim spells the very digest of an evidence item of the proof.
\<close>

theorem evidence_requirements_ordered:
  assumes "state_from_report_and_proof b64 h rep p = Inr st"
  shows "(holds (EvidenceBound k) st inp \<longrightarrow> holds (EvidenceUsable k) st inp)
    \<and> (holds (EvidenceUsable k) st inp \<longrightarrow> holds (EvidencePresent k) st inp)
    \<and> (holds (TransparencyInclusion log) st inp \<longrightarrow> holds TransparencyPresent st inp)
    \<and> (\<forall>b \<in> set (st_evidence_bindings st). \<exists>a \<in> set (prf_attestations p). \<exists>e \<in> set (prf_evidence p).
         att_id_of b64 h (sa_content a) = eb_attestation_id b \<and> evd_id_of b64 h e = eb_evidence_id b
         \<and> eb_attestation_id b \<in> set (verified_ids rep) \<and> eb_attestation_id b \<in> set (active_ids rep)
         \<and> claim_kind_of (sa_content a) = KStatement \<and> att_evidence_ref (sa_content a) = Some (eb_evidence_id b)
         \<and> evidence_digest_hex (att_claim (sa_content a)) = Some (Inr (lower_hex (hr_digest (evd_digest e)))))"
proof -
  have st: "st_evidence_statuses st = map (evidence_entry_of b64 h rep) (prf_evidence p)"
    "st_evidence_kinds st = map evd_kind (prf_evidence p)"
    "st_evidence_bindings st = List.map_filter (\<lambda>a. evidence_binding_of b64 h rep p (sa_content a)) (prf_attestations p)"
    using assms by (auto simp: state_projection_fields)
  have "\<exists>a \<in> set (prf_attestations p). \<exists>e \<in> set (prf_evidence p).
         att_id_of b64 h (sa_content a) = eb_attestation_id b \<and> evd_id_of b64 h e = eb_evidence_id b
         \<and> eb_attestation_id b \<in> set (verified_ids rep) \<and> eb_attestation_id b \<in> set (active_ids rep)
         \<and> claim_kind_of (sa_content a) = KStatement \<and> att_evidence_ref (sa_content a) = Some (eb_evidence_id b)
         \<and> evidence_digest_hex (att_claim (sa_content a)) = Some (Inr (lower_hex (hr_digest (evd_digest e))))"
    if "b \<in> set (st_evidence_bindings st)" for b
  proof -
    from that obtain a d eref where a: "a \<in> set (prf_attestations p)"
        "att_id_of b64 h (sa_content a) \<in> set (verified_ids rep)" "att_id_of b64 h (sa_content a) \<in> set (active_ids rep)"
        "claim_kind_of (sa_content a) = KStatement"
        "evidence_digest_hex (att_claim (sa_content a)) = Some (Inr d)" "att_evidence_ref (sa_content a) = Some eref"
        "digest_by_evd b64 h p eref = Some d" "b = \<lparr>eb_attestation_id = att_id_of b64 h (sa_content a), eb_evidence_id = eref\<rparr>"
      unfolding st(3) map_filter_set evidence_binding_of_Some by blast
    from digest_by_evd_Some [OF a(7)] obtain e where "e \<in> set (prf_evidence p)" "evd_id_of b64 h e = eref"
        "lower_hex (hr_digest (evd_digest e)) = d" by blast
    with a show ?thesis by (intro bexI [of _ a] bexI [of _ e]) simp_all
  qed
  moreover have "ese_kind e \<in> set (st_evidence_kinds st)" if "e \<in> set (st_evidence_statuses st)" for e
    using that by (auto simp: st evidence_entry_of_def)
  ultimately show ?thesis by (intro conjI impI ballI) (auto, metis)
qed

text \<open>A package with one attestation and one evidence item, and a report that verifies both.\<close>

definition sample_content :: attestation_content where
  "sample_content = \<lparr>att_v = 1, att_issuer = ''key:ed25519:A'', att_subject = ''s'',
     att_claim = \<lparr>claim_type = ''paid'', claim_fields = []\<rparr>, att_issued_at = 1, att_expires_at = None, att_evidence_ref = None\<rparr>"

definition sample_item :: evidence where
  "sample_item = \<lparr>evd_v = 1, evd_kind = ''receipt'', evd_digest = \<lparr>hr_v = 1, hr_alg = Sha256, hr_digest = replicate 32 0\<rparr>, evd_attestation_ref = None, evd_hint = None\<rparr>"

definition sample_package :: proof_package where
  "sample_package = \<lparr>prf_v = 1, prf_id = ''prf:v1:x'',
     prf_proposition = \<lparr>prop_v = 1, prop_kind = ''k'', prop_subject = ''s'', prop_predicate = ''p'', prop_object = None,
       prop_at_time = None, prop_context = []\<rparr>,
     prf_events = [], prf_attestations = [\<lparr>sa_content = sample_content, sa_sign1 = []\<rparr>], prf_evidence = [sample_item],
     prf_relationships = [], prf_referenced_proofs = [], prf_vocabularies = [], prf_created_at = 5\<rparr>"

definition sample_report :: verify_report where
  "sample_report = \<lparr>rep_proof_id = Some ''prf:v1:x'', rep_cryptographic_validity = Valid, rep_evidence_validity = Valid,
     rep_policy_decision = Indeterminate, rep_lifecycle_checked = True,
     rep_lifecycle = [], rep_status_objects = [], rep_withdrawn_ids = [], rep_referenced_proofs = [], rep_vocabularies = [],
     rep_evidence_status = [\<lparr>esr_object = ''evd:'' @ evd_id_of plain_b64 zero_hash sample_item, esr_status = EAvailable, esr_code = None, esr_hint_unverified = False\<rparr>],
     rep_conflicts = [], rep_checks = [check_ok ''SIGNATURES'' (''att:'' @ att_id_of plain_b64 zero_hash sample_content)],
     rep_status_inputs_valid = True\<rparr>"

definition sample_view :: verified_state where
  "sample_view = (case state_from_report_and_proof plain_b64 zero_hash sample_report sample_package of Inr st \<Rightarrow> st)"

lemma sample_view_projected: "state_from_report_and_proof plain_b64 zero_hash sample_report sample_package = Inr sample_view"
  by (simp add: sample_view_def state_from_report_and_proof_def sample_report_def sample_package_def Let_def)

lemma strip_prefix_append [simp]: "strip_prefix p (p @ s) = Some s"
  by (induction p) auto

lemma sample_verified: "verified_ids sample_report = [att_id_of plain_b64 zero_hash sample_content]"
  using strip_prefix_append [of "''att:''"] by (simp add: verified_ids_def sample_report_def map_filter_def del: strip_prefix.simps)

theorem state_projection_attributable_witness:
  "rep_proof_id sample_report = Some (prf_id sample_package)
   \<and> set (st_claims sample_view) = claim_summary_of plain_b64 zero_hash ` {sample_content}"
proof -
  have "{c. c \<in> sa_content ` set (prf_attestations sample_package)
      \<and> att_id_of plain_b64 zero_hash c \<in> set (verified_ids sample_report)
      \<and> att_id_of plain_b64 zero_hash c \<notin> set (rep_status_objects sample_report)} = {sample_content}"
    by (auto simp: sample_verified sample_package_def) (simp add: sample_report_def)
  then show ?thesis using state_projection_attributable [OF sample_view_projected] by simp
qed

theorem evidence_requirements_ordered_witness:
  "holds (EvidenceUsable ''receipt'') sample_view sample_inputs \<and> holds (EvidencePresent ''receipt'') sample_view sample_inputs"
proof -
  have "st_evidence_statuses sample_view = map (evidence_entry_of plain_b64 zero_hash sample_report) [sample_item]"
    using state_projection_statuses [OF sample_view_projected] by (simp add: sample_package_def)
  moreover have "ese_kind (evidence_entry_of plain_b64 zero_hash sample_report sample_item) = ''receipt''"
    "ese_status (evidence_entry_of plain_b64 zero_hash sample_report sample_item) = EAvailable"
    using strip_prefix_append [of "''evd:''"]
    by (simp_all add: evidence_entry_of_def sample_item_def status_by_object_def sample_report_def del: strip_prefix.simps)
  ultimately have "holds (EvidenceUsable ''receipt'') sample_view sample_inputs" by simp
  then show ?thesis using evidence_requirements_ordered [OF sample_view_projected] by blast
qed

end
