(* ===== verification/Cose.thy ===== *)
theory Cose
  imports Eval
begin

text \<open>
  Signatures: \<^verbatim>\<open>proof-crypto/src/alg.rs\<close>, \<^verbatim>\<open>keys.rs\<close>, \<^verbatim>\<open>cose.rs\<close>. The crates
  \<^verbatim>\<open>ed25519_dalek\<close> and \<^verbatim>\<open>p256\<close> are the record \<open>sig_engine\<close>; a signing key is its seed. The only
  assumption made of them, and only where a freshly made signature is verified, is
  \<open>ed25519_law\<close>: public keys have 32 bytes and are accepted, signatures have 64 bytes, and the
  verifier accepts what the signer made. Nothing is assumed about which other signatures the
  verifier accepts: the theorems state which message and key it was asked about.
\<close>

section \<open>Algorithms\<close>

definition COSE_ED25519 :: i64 where "COSE_ED25519 = -19"
definition COSE_ESP256 :: i64 where "COSE_ESP256 = -9"
definition DEPRECATED :: "i64 list" where "DEPRECATED = [-8, -7, -35, -36]"

record allowed_algs =
  al_ed25519 :: bool
  al_esp256 :: bool
  al_allow_deprecated :: bool

definition AllowedAlgs_default :: allowed_algs where
  "AllowedAlgs_default = \<lparr>al_ed25519 = True, al_esp256 = False, al_allow_deprecated = False\<rparr>"

definition AllowedAlgs_strict :: allowed_algs where
  "AllowedAlgs_strict = AllowedAlgs_default"

definition with_esp256 :: "allowed_algs \<Rightarrow> allowed_algs" where
  "with_esp256 al = al\<lparr>al_esp256 := True\<rparr>"

definition with_deprecated :: "allowed_algs \<Rightarrow> allowed_algs" where
  "with_deprecated al = al\<lparr>al_allow_deprecated := True\<rparr>"

definition is_allowed :: "allowed_algs \<Rightarrow> i64 \<Rightarrow> bool" where
  "is_allowed al alg =
     (if alg = COSE_ED25519 then al_ed25519 al
      else if alg = COSE_ESP256 then al_esp256 al
      else False)"

definition is_deprecated :: "i64 \<Rightarrow> bool" where
  "is_deprecated alg \<longleftrightarrow> alg \<in> set DEPRECATED"

section \<open>Keys\<close>

record sig_engine =
  ed_public :: "bytes \<Rightarrow> bytes"
  ed_sign :: "bytes \<Rightarrow> bytes \<Rightarrow> bytes"
  ed_key_valid :: "bytes \<Rightarrow> bool"
  ed_verify :: "bytes \<Rightarrow> bytes \<Rightarrow> bytes \<Rightarrow> bool"
  ec_seed_valid :: "bytes \<Rightarrow> bool"
  ec_point :: "bytes \<Rightarrow> bytes option \<times> bytes option"
  ec_sign :: "bytes \<Rightarrow> bytes \<Rightarrow> bytes"
  ec_point_valid :: "bytes \<Rightarrow> bool"
  ec_key_valid :: "bytes \<Rightarrow> bool"
  ec_sig_valid :: "bytes \<Rightarrow> bool"
  ec_verify :: "bytes \<Rightarrow> bytes \<Rightarrow> bytes \<Rightarrow> bool"

record ed25519_key =
  ek_seed :: bytes

definition Ed25519Key_from_seed :: "bytes \<Rightarrow> ed25519_key" where
  "Ed25519Key_from_seed seed = \<lparr>ek_seed = seed\<rparr>"

definition pubkey_bytes :: "sig_engine \<Rightarrow> ed25519_key \<Rightarrow> bytes" where
  "pubkey_bytes e k = ed_public e (ek_seed k)"

definition key_ref :: "base64_engine \<Rightarrow> sig_engine \<Rightarrow> ed25519_key \<Rightarrow> string" where
  "key_ref b64 e k = ''key:ed25519:'' @ b64_encode b64 (pubkey_bytes e k)"

definition key_sign :: "sig_engine \<Rightarrow> ed25519_key \<Rightarrow> bytes \<Rightarrow> bytes" where
  "key_sign e k msg = ed_sign e (ek_seed k) msg"

definition parse_ed25519_keyref :: "base64_engine \<Rightarrow> string \<Rightarrow> bytes result" where
  "parse_ed25519_keyref b64 kr =
     bindR (ok_or (strip_prefix ''key:ed25519:'' kr) SchemaViolation) (\<lambda>rest.
     bindR (b64u_decode b64 rest) (\<lambda>raw.
     if b64u_nopad b64 raw \<noteq> rest then Inl SchemaViolation
     else if length raw \<noteq> 32 then Inl SchemaViolation
     else Inr raw))"

record p256_key =
  pk_seed :: bytes

definition P256Key_from_seed :: "sig_engine \<Rightarrow> bytes \<Rightarrow> p256_key result" where
  "P256Key_from_seed e seed = (if \<not> ec_seed_valid e seed then Inl Malformed else Inr \<lparr>pk_seed = seed\<rparr>)"

definition pubkey_xy :: "sig_engine \<Rightarrow> p256_key \<Rightarrow> bytes result" where
  "pubkey_xy e k =
     bindR (ok_or (fst (ec_point e (pk_seed k))) Malformed) (\<lambda>x.
     bindR (ok_or (snd (ec_point e (pk_seed k))) Malformed) (\<lambda>y.
     if length x \<noteq> 32 \<or> length y \<noteq> 32 then Inl Malformed
     else Inr (x @ y)))"

definition p256_key_ref :: "base64_engine \<Rightarrow> sig_engine \<Rightarrow> p256_key \<Rightarrow> string result" where
  "p256_key_ref b64 e k = bindR (pubkey_xy e k) (\<lambda>xy. Inr (''key:p256:'' @ b64_encode b64 xy))"

definition parse_p256_keyref :: "base64_engine \<Rightarrow> string \<Rightarrow> bytes result" where
  "parse_p256_keyref b64 kr =
     bindR (ok_or (strip_prefix ''key:p256:'' kr) SchemaViolation) (\<lambda>rest.
     bindR (b64u_decode b64 rest) (\<lambda>raw.
     if b64u_nopad b64 raw \<noteq> rest then Inl SchemaViolation
     else if length raw \<noteq> 64 then Inl SchemaViolation
     else Inr raw))"

section \<open>COSE Sign1\<close>

definition EXTERNAL_AAD :: bytes where "EXTERNAL_AAD = as_bytes ''PE1''"

definition protected_bytes :: "i64 \<Rightarrow> bytes \<Rightarrow> bytes" where
  "protected_bytes alg kid_raw =
     (let alg_val = (if 0 \<le> sint alg then CUint alg else CNint alg);
          inner = CMap [(CUint 1, alg_val), (CUint 4, CBytes kid_raw)]
      in encode_canonical inner)"

definition sig_structure_with_aad :: "bytes \<Rightarrow> bytes \<Rightarrow> bytes \<Rightarrow> bytes" where
  "sig_structure_with_aad protected_raw aad payload =
     encode_canonical (CArray [CText ''Signature1'', CBytes protected_raw, CBytes aad, CBytes payload])"

definition sig_structure :: "bytes \<Rightarrow> bytes \<Rightarrow> bytes" where
  "sig_structure protected_raw payload = sig_structure_with_aad protected_raw EXTERNAL_AAD payload"

definition sign_ed25519_with_aad :: "sig_engine \<Rightarrow> bytes \<Rightarrow> ed25519_key \<Rightarrow> bytes \<Rightarrow> bytes" where
  "sign_ed25519_with_aad e payload_canonical k external_aad =
     (let kid = pubkey_bytes e k;
          prot = protected_bytes COSE_ED25519 kid;
          tbs = sig_structure_with_aad prot external_aad payload_canonical;
          sig = key_sign e k tbs
      in encode_canonical (CArray [CBytes prot, CMap [], CBytes payload_canonical, CBytes sig]))"

definition sign_ed25519 :: "sig_engine \<Rightarrow> bytes \<Rightarrow> ed25519_key \<Rightarrow> bytes" where
  "sign_ed25519 e payload_canonical k = sign_ed25519_with_aad e payload_canonical k EXTERNAL_AAD"

definition sign_esp256_with_aad :: "sig_engine \<Rightarrow> bytes \<Rightarrow> p256_key \<Rightarrow> p256_key \<Rightarrow> bytes \<Rightarrow> bytes result" where
  "sign_esp256_with_aad e payload_canonical k signing_key external_aad =
     bindR (pubkey_xy e k) (\<lambda>kid.
     let prot = protected_bytes COSE_ESP256 kid;
         tbs = sig_structure_with_aad prot external_aad payload_canonical;
         sig = ec_sign e (pk_seed signing_key) tbs
     in Inr (encode_canonical (CArray [CBytes prot, CMap [], CBytes payload_canonical, CBytes sig])))"

definition sign_esp256 :: "sig_engine \<Rightarrow> bytes \<Rightarrow> p256_key \<Rightarrow> p256_key \<Rightarrow> bytes result" where
  "sign_esp256 e payload_canonical k signing_key =
     sign_esp256_with_aad e payload_canonical k signing_key EXTERNAL_AAD"

record parsed_sign1 =
  ps_alg :: i64
  ps_kid :: bytes
  ps_payload :: bytes
  ps_signature :: bytes
  ps_protected_raw :: bytes

text \<open>The loop over the two entries of the protected header.\<close>

fun parse_header :: "i64 option \<Rightarrow> bytes option \<Rightarrow> cbor_map \<Rightarrow> (i64 option \<times> bytes option) result" where
  "parse_header alg kid [] = Inr (alg, kid)"
| "parse_header alg kid ((k, v) # rest) =
     (if k = CUint 1 then
        (case v of
           CNint n \<Rightarrow> parse_header (Some n) kid rest
         | CUint n \<Rightarrow> if unat n > 2 ^ 63 - 1 then Inl UnknownAlgorithm else parse_header (Some n) kid rest
         | _ \<Rightarrow> Inl UnexpectedHeaderParam)
      else if k = CUint 4 then
        (case v of
           CBytes b \<Rightarrow> parse_header alg (Some b) rest
         | _ \<Rightarrow> Inl UnexpectedHeaderParam)
      else Inl UnexpectedHeaderParam)"

definition check_kid_shape :: "i64 \<Rightarrow> bytes \<Rightarrow> unit result" where
  "check_kid_shape alg kid =
     (if alg = COSE_ED25519 \<and> length kid \<noteq> 32 then Inl AlgorithmConfusion
      else if alg = COSE_ESP256 \<and> length kid \<noteq> 64 then Inl AlgorithmConfusion
      else Inr ())"

definition parse_protected :: "bytes \<Rightarrow> limits \<Rightarrow> (i64 \<times> bytes) result" where
  "parse_protected protected_raw l =
     bindR (decode_strict protected_raw l) (\<lambda>inner.
     if encode_canonical inner \<noteq> protected_raw then Inl NonCanonical
     else bindR (case inner of CMap p \<Rightarrow> Inr p | _ \<Rightarrow> Inl Malformed) (\<lambda>pairs.
     if length pairs \<noteq> 2 then Inl UnexpectedHeaderParam
     else bindR (parse_header None None pairs) (\<lambda>(alg, kid).
     bindR (ok_or alg UnexpectedHeaderParam) (\<lambda>alg.
     bindR (ok_or kid UnexpectedHeaderParam) (\<lambda>kid.
     bindR (check_kid_shape alg kid) (\<lambda>_. Inr (alg, kid)))))))"

definition parse_sign1 :: "bytes \<Rightarrow> limits \<Rightarrow> parsed_sign1 result" where
  "parse_sign1 bs l =
     (if length bs > max_proof_size l then Inl LimitExceeded
      else bindR (decode_strict bs l) (\<lambda>outer.
      if encode_canonical outer \<noteq> bs then Inl NonCanonical
      else bindR (case outer of CArray a \<Rightarrow> Inr a | _ \<Rightarrow> Inl Malformed) (\<lambda>items.
      if length items \<noteq> 4 then Inl Malformed
      else bindR (case items ! 0 of CBytes b \<Rightarrow> Inr b | _ \<Rightarrow> Inl Malformed) (\<lambda>protected_raw.
      if items ! 1 \<noteq> CMap [] then Inl UnexpectedHeaderParam
      else bindR (case items ! 2 of CBytes b \<Rightarrow> Inr b | _ \<Rightarrow> Inl Malformed) (\<lambda>payload.
      if length payload > max_proof_size l then Inl LimitExceeded
      else bindR (case items ! 3 of CBytes b \<Rightarrow> Inr b | _ \<Rightarrow> Inl Malformed) (\<lambda>signature.
      if length signature > max_sig_size l then Inl LimitExceeded
      else bindR (parse_protected protected_raw l) (\<lambda>(alg, kid).
      Inr \<lparr>ps_alg = alg, ps_kid = kid, ps_payload = payload, ps_signature = signature,
           ps_protected_raw = protected_raw\<rparr>)))))))"

definition p256_verify_key :: "sig_engine \<Rightarrow> bytes \<Rightarrow> bytes result" where
  "p256_verify_key e xy =
     (let unc = 0x04 # xy
      in if \<not> ec_point_valid e unc then Inl Malformed
         else if \<not> ec_key_valid e unc then Inl Malformed
         else Inr unc)"

text \<open>
  The deprecated-id decision: \<open>None\<close> when the id is not deprecated, the operation it is mapped
  to when historical verification is enabled and supported.
\<close>

definition historical_op :: "allowed_algs \<Rightarrow> i64 \<Rightarrow> bytes \<Rightarrow> i64 option result" where
  "historical_op al alg kid =
     (if is_deprecated alg then
        if \<not> al_allow_deprecated al then Inl DeprecatedAlgorithm
        else if alg = -8 \<and> length kid = 32 then Inr (Some COSE_ED25519)
        else if alg = -7 \<and> length kid = 64 \<and> al_esp256 al then Inr (Some COSE_ESP256)
        else if alg = -7 then Inl UnexpectedHeaderParam
        else Inl DeprecatedAlgorithm
      else Inr None)"

definition check_ed25519 :: "base64_engine \<Rightarrow> sig_engine \<Rightarrow> string \<Rightarrow> parsed_sign1 \<Rightarrow> bytes \<Rightarrow> unit result" where
  "check_ed25519 b64 e expected_issuer p external_aad =
     bindR (parse_ed25519_keyref b64 expected_issuer) (\<lambda>expect.
     if expect \<noteq> ps_kid p then Inl SignatureInvalid
     else if \<not> ed_key_valid e expect then Inl Malformed
     else let tbs = sig_structure_with_aad (ps_protected_raw p) external_aad (ps_payload p)
          in if \<not> ed_verify e expect tbs (ps_signature p) then Inl SignatureInvalid else Inr ())"

definition check_esp256 :: "base64_engine \<Rightarrow> sig_engine \<Rightarrow> string \<Rightarrow> parsed_sign1 \<Rightarrow> bytes \<Rightarrow> unit result" where
  "check_esp256 b64 e expected_issuer p external_aad =
     bindR (parse_p256_keyref b64 expected_issuer) (\<lambda>expect.
     if expect \<noteq> ps_kid p then Inl SignatureInvalid
     else bindR (p256_verify_key e expect) (\<lambda>vk.
     if \<not> ec_sig_valid e (ps_signature p) then Inl SignatureInvalid
     else let tbs = sig_structure_with_aad (ps_protected_raw p) external_aad (ps_payload p)
          in if \<not> ec_verify e vk tbs (ps_signature p) then Inl SignatureInvalid else Inr ()))"

definition verify_sign1_with_aad ::
  "base64_engine \<Rightarrow> sig_engine \<Rightarrow> bytes \<Rightarrow> string \<Rightarrow> allowed_algs \<Rightarrow> limits \<Rightarrow> bytes \<Rightarrow> parsed_sign1 result" where
  "verify_sign1_with_aad b64 e bs expected_issuer al l external_aad =
     (if length external_aad > 1024 then Inl LimitExceeded
      else bindR (parse_sign1 bs l) (\<lambda>p.
      bindR (historical_op al (ps_alg p) (ps_kid p)) (\<lambda>historical.
      if historical = None \<and> \<not> is_allowed al (ps_alg p) then
        (if ps_alg p = COSE_ED25519 \<or> ps_alg p = COSE_ESP256 then Inl UnexpectedHeaderParam
         else Inl UnknownAlgorithm)
      else if length (ps_signature p) \<noteq> 64 then Inl SignatureInvalid
      else let op = (case historical of Some x \<Rightarrow> x | None \<Rightarrow> ps_alg p)
           in bindR (if op = COSE_ED25519 then check_ed25519 b64 e expected_issuer p external_aad
                     else if op = COSE_ESP256 then check_esp256 b64 e expected_issuer p external_aad
                     else Inl UnknownAlgorithm) (\<lambda>_. Inr p))))"

definition verify_sign1 ::
  "base64_engine \<Rightarrow> sig_engine \<Rightarrow> bytes \<Rightarrow> string \<Rightarrow> allowed_algs \<Rightarrow> limits \<Rightarrow> parsed_sign1 result" where
  "verify_sign1 b64 e bs expected_issuer al l =
     verify_sign1_with_aad b64 e bs expected_issuer al l EXTERNAL_AAD"

section \<open>Lemmas\<close>

lemma ed25519_keyref_Inr [result_iff]:
  "b64_law b64 \<Longrightarrow> parse_ed25519_keyref b64 kr = Inr raw \<longleftrightarrow>
   kr = ''key:ed25519:'' @ b64_encode b64 raw \<and> length raw = 32"
  by (auto simp: parse_ed25519_keyref_def result_iff strip_prefix_eq_Some b64u_decode_def b64u_nopad_def b64_law_def)

lemma p256_keyref_Inr [result_iff]:
  "b64_law b64 \<Longrightarrow> parse_p256_keyref b64 kr = Inr raw \<longleftrightarrow>
   kr = ''key:p256:'' @ b64_encode b64 raw \<and> length raw = 64"
  by (auto simp: parse_p256_keyref_def result_iff strip_prefix_eq_Some b64u_decode_def b64u_nopad_def b64_law_def)

definition header_value :: "i64 \<Rightarrow> bytes \<Rightarrow> cbor_value" where
  "header_value alg kid =
     CMap [(CUint 1, if 0 \<le> sint alg then CUint alg else CNint alg), (CUint 4, CBytes kid)]"

definition sign1_value :: "bytes \<Rightarrow> bytes \<Rightarrow> bytes \<Rightarrow> cbor_value" where
  "sign1_value prot payload sig = CArray [CBytes prot, CMap [], CBytes payload, CBytes sig]"

lemma header_canon:
  "canon_form l 0 (header_value alg kid) \<longleftrightarrow>
     1 \<le> max_depth l \<and> 2 \<le> max_map_entries l \<and> length kid \<le> max_field_size l \<and> length kid < 2 ^ 64"
proof -
  have "encode_canonical (CUint 1) < encode_canonical (CUint 4)" by (simp add: encode_eval)
  then show ?thesis by (auto simp: header_value_def)
qed

lemma sint_mod_cases:
  fixes x m :: int
  assumes "0 \<le> x" "x < 2 * m"
  shows "0 \<le> (x + m) mod (2 * m) - m \<longleftrightarrow> x < m"
proof (cases "x < m")
  case True
  then show ?thesis using assms by simp
next
  case False
  have "x + m = (x - m) + 2 * m" by simp
  then have "(x + m) mod (2 * m) = (x - m) mod (2 * m)" by (simp only: mod_add_self2)
  also have "\<dots> = x - m" using False assms by (intro mod_pos_pos_trivial) simp_all
  finally show ?thesis using False assms by simp
qed

lemma sint_nonneg_u64: "0 \<le> sint (n :: i64) \<longleftrightarrow> \<not> 2 ^ 63 - 1 < unat n"
proof -
  have s: "sint n = (uint n + 2 ^ 63) mod (2 * 2 ^ 63) - 2 ^ 63"
    using int_word_sint [where 'a = 64, of "uint n"] by simp
  have "uint n < 2 * 2 ^ 63" using uint_lt2p [of n] by simp
  then have "0 \<le> sint n \<longleftrightarrow> uint n < 2 ^ 63" unfolding s by (rule sint_mod_cases [OF uint_ge_0])
  also have "\<dots> \<longleftrightarrow> unat n < 2 ^ 63" unfolding unat_eq_nat_uint by (subst nat_less_iff) simp_all
  also have "\<dots> \<longleftrightarrow> \<not> 2 ^ 63 - 1 < unat n" by simp linarith
  finally show ?thesis .
qed

lemma sint_neg_u64: "sint (n :: i64) < 0 \<longleftrightarrow> 2 ^ 63 - 1 < unat n"
  using sint_nonneg_u64 by (metis not_le)

lemma parse_header_pair:
  assumes "canon_form l 0 (CMap pairs)" "length pairs = 2"
  shows "parse_header None None pairs = Inr (Some alg, Some kid) \<longleftrightarrow> CMap pairs = header_value alg kid"
proof -
  obtain k1 v1 k2 v2 where p: "pairs = [(k1, v1), (k2, v2)]"
    using assms(2) by (auto simp: numeral_2_eq_2 length_Suc_conv)
  have lt: "encode_canonical k1 < encode_canonical k2" using assms(1) by (simp add: p)
  have v1: "canon_form l (Suc 0) v1" using assms(1) by (simp add: p)
  have "\<not> encode_canonical (CUint 4) < encode_canonical (CUint 1)" by (simp add: encode_eval)
  then show ?thesis
    using lt v1 by (auto simp: p header_value_def sint_nonneg_u64 sint_neg_u64 split: cbor_value.splits if_splits)
qed

lemma case_container_Inr [result_iff]:
  "(case v of CMap p \<Rightarrow> Inr p | _ \<Rightarrow> Inl e) = Inr m \<longleftrightarrow> v = CMap m"
  "(case v of CArray a \<Rightarrow> Inr a | _ \<Rightarrow> Inl e) = Inr xs \<longleftrightarrow> v = CArray xs"
  "(case v of CBytes b \<Rightarrow> Inr b | _ \<Rightarrow> Inl e) = Inr bs \<longleftrightarrow> v = CBytes bs"
  by (auto split: cbor_value.splits)

lemma parse_protected_Inr [result_iff]:
  "parse_protected pr l = Inr (alg, kid) \<longleftrightarrow>
   pr = protected_bytes alg kid \<and> length pr \<le> max_proof_size l \<and> canon_form l 0 (header_value alg kid)
   \<and> check_kid_shape alg kid = Inr ()"
proof -
  have bytes: "protected_bytes alg kid = encode_canonical (header_value alg kid)"
    by (simp add: protected_bytes_def header_value_def Let_def)
  have "parse_protected pr l = Inr (alg, kid) \<longleftrightarrow>
    (\<exists>pairs. length pr \<le> max_proof_size l \<and> canon_form l 0 (CMap pairs) \<and> encode_canonical (CMap pairs) = pr
       \<and> length pairs = 2 \<and> parse_header None None pairs = Inr (Some alg, Some kid) \<and> check_kid_shape alg kid = Inr ())"
    (is "_ \<longleftrightarrow> ?rhs")
  proof
    assume "parse_protected pr l = Inr (alg, kid)"
    then show ?rhs
      unfolding parse_protected_def bindR_Inr_iff if_Inl_Inr_iff decode_strict_Inr_iff ok_or_Inr_iff case_container_Inr
      by (elim exE conjE)
        (auto simp: bindR_Inr_iff ok_or_Inr_iff simp del: canon_form.simps parse_header.simps split: prod.splits)
  next
    assume ?rhs
    then obtain pairs where "decode_strict pr l = Inr (CMap pairs)" "encode_canonical (CMap pairs) = pr" "length pairs = 2"
      "parse_header None None pairs = Inr (Some alg, Some kid)" "check_kid_shape alg kid = Inr ()"
      unfolding decode_strict_Inr_iff by blast
    then show "parse_protected pr l = Inr (alg, kid)" by (simp add: parse_protected_def)
  qed
  also have "\<dots> \<longleftrightarrow> (\<exists>pairs. CMap pairs = header_value alg kid \<and> length pr \<le> max_proof_size l
       \<and> canon_form l 0 (CMap pairs) \<and> encode_canonical (CMap pairs) = pr \<and> length pairs = 2 \<and> check_kid_shape alg kid = Inr ())"
    using parse_header_pair by blast
  also have "\<dots> \<longleftrightarrow> pr = protected_bytes alg kid \<and> length pr \<le> max_proof_size l \<and> canon_form l 0 (header_value alg kid)
     \<and> check_kid_shape alg kid = Inr ()"
    unfolding bytes by (auto simp: header_value_def)
  finally show ?thesis .
qed

text \<open>What the shape check of a Sign1 accepts.\<close>

definition sign1_ok :: "limits \<Rightarrow> parsed_sign1 \<Rightarrow> bool" where
  "sign1_ok l p \<longleftrightarrow>
     ps_protected_raw p = protected_bytes (ps_alg p) (ps_kid p)
     \<and> length (ps_protected_raw p) \<le> max_proof_size l \<and> length (ps_payload p) \<le> max_proof_size l
     \<and> length (ps_signature p) \<le> max_sig_size l
     \<and> canon_form l 0 (header_value (ps_alg p) (ps_kid p))
     \<and> canon_form l 0 (sign1_value (ps_protected_raw p) (ps_payload p) (ps_signature p))
     \<and> (ps_alg p = COSE_ED25519 \<longrightarrow> length (ps_kid p) = 32)
     \<and> (ps_alg p = COSE_ESP256 \<longrightarrow> length (ps_kid p) = 64)"

lemma check_kid_shape_Inr [result_iff]:
  "check_kid_shape alg kid = Inr u \<longleftrightarrow>
   (alg = COSE_ED25519 \<longrightarrow> length kid = 32) \<and> (alg = COSE_ESP256 \<longrightarrow> length kid = 64)"
  by (simp add: check_kid_shape_def)

lemma parse_sign1_iff [result_iff]:
  "parse_sign1 bs l = Inr p \<longleftrightarrow>
   length bs \<le> max_proof_size l \<and> sign1_ok l p
   \<and> bs = encode_canonical (sign1_value (ps_protected_raw p) (ps_payload p) (ps_signature p))"
proof -
  have four: "(length items = 4 \<and> items ! 0 = CBytes a \<and> items ! 1 = CMap [] \<and> items ! 2 = CBytes b \<and> items ! 3 = CBytes c)
     \<longleftrightarrow> items = [CBytes a, CMap [], CBytes b, CBytes c]" for items a b c
    by (auto simp: list_eq_iff_nth_eq less_Suc_eq eval_nat_numeral)
  have "parse_sign1 bs l = Inr p \<longleftrightarrow>
    (\<exists>items a b c alg kid. length bs \<le> max_proof_size l \<and> canon_form l 0 (CArray items) \<and> encode_canonical (CArray items) = bs
      \<and> (length items = 4 \<and> items ! 0 = CBytes a \<and> items ! 1 = CMap [] \<and> items ! 2 = CBytes b \<and> items ! 3 = CBytes c)
      \<and> length b \<le> max_proof_size l \<and> length c \<le> max_sig_size l \<and> parse_protected a l = Inr (alg, kid)
      \<and> p = \<lparr>ps_alg = alg, ps_kid = kid, ps_payload = b, ps_signature = c, ps_protected_raw = a\<rparr>)"
    unfolding parse_sign1_def bindR_Inr_iff if_Inl_Inr_iff decode_strict_Inr_iff case_container_Inr not_less
    by (auto simp del: canon_form.simps)
  also have "\<dots> \<longleftrightarrow> length bs \<le> max_proof_size l \<and> sign1_ok l p
   \<and> bs = encode_canonical (sign1_value (ps_protected_raw p) (ps_payload p) (ps_signature p))"
    unfolding four by (cases p) (auto simp: result_iff sign1_ok_def sign1_value_def)
  finally show ?thesis .
qed

text \<open>
  The reference reading of a verified signature: the message is the PE1 structure over the
  protected bytes and the payload, the key is the one that the expected issuer names, and the
  algorithm is one the verifier allows.
\<close>

definition ed25519_signed :: "base64_engine \<Rightarrow> sig_engine \<Rightarrow> string \<Rightarrow> allowed_algs \<Rightarrow> bytes \<Rightarrow> parsed_sign1 \<Rightarrow> bool" where
  "ed25519_signed b64 e issuer al aad p \<longleftrightarrow>
     (ps_alg p = COSE_ED25519 \<and> al_ed25519 al \<or> ps_alg p = -8 \<and> al_allow_deprecated al)
     \<and> length (ps_kid p) = 32 \<and> issuer = ''key:ed25519:'' @ b64_encode b64 (ps_kid p) \<and> ed_key_valid e (ps_kid p)
     \<and> ed_verify e (ps_kid p) (sig_structure_with_aad (ps_protected_raw p) aad (ps_payload p)) (ps_signature p)"

definition esp256_signed :: "base64_engine \<Rightarrow> sig_engine \<Rightarrow> string \<Rightarrow> allowed_algs \<Rightarrow> bytes \<Rightarrow> parsed_sign1 \<Rightarrow> bool" where
  "esp256_signed b64 e issuer al aad p \<longleftrightarrow>
     al_esp256 al \<and> (ps_alg p = COSE_ESP256 \<or> ps_alg p = -7 \<and> al_allow_deprecated al)
     \<and> length (ps_kid p) = 64 \<and> issuer = ''key:p256:'' @ b64_encode b64 (ps_kid p)
     \<and> ec_point_valid e (0x04 # ps_kid p) \<and> ec_key_valid e (0x04 # ps_kid p) \<and> ec_sig_valid e (ps_signature p)
     \<and> ec_verify e (0x04 # ps_kid p) (sig_structure_with_aad (ps_protected_raw p) aad (ps_payload p)) (ps_signature p)"

lemma check_ed25519_Inr [result_iff]:
  assumes "b64_law b64"
  shows "check_ed25519 b64 e issuer p aad = Inr u \<longleftrightarrow>
    length (ps_kid p) = 32 \<and> issuer = ''key:ed25519:'' @ b64_encode b64 (ps_kid p) \<and> ed_key_valid e (ps_kid p)
    \<and> ed_verify e (ps_kid p) (sig_structure_with_aad (ps_protected_raw p) aad (ps_payload p)) (ps_signature p)"
  using assms by (auto simp: check_ed25519_def result_iff Let_def)

lemma check_esp256_Inr [result_iff]:
  assumes "b64_law b64"
  shows "check_esp256 b64 e issuer p aad = Inr u \<longleftrightarrow>
    length (ps_kid p) = 64 \<and> issuer = ''key:p256:'' @ b64_encode b64 (ps_kid p)
     \<and> ec_point_valid e (0x04 # ps_kid p) \<and> ec_key_valid e (0x04 # ps_kid p) \<and> ec_sig_valid e (ps_signature p)
     \<and> ec_verify e (0x04 # ps_kid p) (sig_structure_with_aad (ps_protected_raw p) aad (ps_payload p)) (ps_signature p)"
  using assms by (auto simp: check_esp256_def p256_verify_key_def result_iff Let_def)

lemmas alg_defs = COSE_ED25519_def COSE_ESP256_def DEPRECATED_def is_deprecated_def is_allowed_def historical_op_def

lemma verify_sign1_iff [result_iff]:
  assumes "b64_law b64"
  shows "verify_sign1_with_aad b64 e bs issuer al l aad = Inr p \<longleftrightarrow>
    length aad \<le> 1024 \<and> parse_sign1 bs l = Inr p \<and> length (ps_signature p) = 64
    \<and> (ed25519_signed b64 e issuer al aad p \<or> esp256_signed b64 e issuer al aad p)"
proof -
  have "sign1_ok l p \<Longrightarrow> ps_alg p = COSE_ED25519 \<Longrightarrow> length (ps_kid p) = 32" for l p by (simp add: sign1_ok_def)
  then show ?thesis
    unfolding verify_sign1_with_aad_def bindR_Inr_iff if_Inl_Inr_iff
    by (cases "ps_alg p \<in> {-19, -9, -8, -7, -35, -36}")
      (auto simp: alg_defs result_iff assms ed25519_signed_def esp256_signed_def Let_def split: if_splits option.splits)
qed


section \<open>Signing and verifying\<close>

text \<open>What is used of \<^verbatim>\<open>ed25519_dalek\<close> when a fresh signature is verified.\<close>

definition ed25519_law :: "sig_engine \<Rightarrow> bool" where
  "ed25519_law e \<longleftrightarrow> (\<forall>seed. length seed = 32 \<longrightarrow>
     length (ed_public e seed) = 32 \<and> ed_key_valid e (ed_public e seed)
     \<and> (\<forall>msg. length (ed_sign e seed msg) = 64 \<and> ed_verify e (ed_public e seed) msg (ed_sign e seed msg)))"

text \<open>Limits under which a signature over a payload can be carried.\<close>

definition sign1_fits :: "limits \<Rightarrow> bytes \<Rightarrow> bool" where
  "sign1_fits l payload \<longleftrightarrow> 1 \<le> max_depth l \<and> 4 \<le> max_array_items l \<and> 2 \<le> max_map_entries l \<and> 64 \<le> max_sig_size l
     \<and> 77 \<le> max_field_size l \<and> length payload \<le> max_field_size l \<and> length payload < 2 ^ 64
     \<and> length payload + 200 \<le> max_proof_size l"

lemma length_encode_head: "length (encode_head m n) \<le> 9"
  by (simp add: encode_head_def Let_def)

lemma length_encode_bytes: "length (encode_value (CBytes b)) \<le> 9 + length b"
  using length_encode_head [of 2 "word_of_nat (length b)"] by simp

lemma length_protected: "length (protected_bytes alg kid) \<le> 45 + length kid"
proof -
  have "length (encode_value (if 0 \<le> sint alg then CUint alg else CNint alg)) \<le> 9"
    using length_encode_head by simp
  moreover have "encode_canonical (CUint 1) < encode_canonical (CUint 4)" by (simp add: encode_eval)
  ultimately show ?thesis
    using length_encode_bytes [of kid] length_encode_head [of 5 2] length_encode_head [of 0 1] length_encode_head [of 0 4]
    by (simp add: protected_bytes_def Let_def encode_canonical_def)
qed

lemma length_sign1:
  "length (encode_canonical (sign1_value prot payload sig)) \<le> 45 + length prot + length payload + length sig"
  using length_encode_bytes [of prot] length_encode_bytes [of payload] length_encode_bytes [of sig]
    length_encode_head [of 4 4] length_encode_head [of 5 0]
  by (simp add: sign1_value_def encode_canonical_def)

lemma sign_ed25519_verifies:
  assumes law: "b64_law b64" "ed25519_law e" and seed: "length (ek_seed k) = 32"
    and al: "al_ed25519 al" and fits: "sign1_fits l payload" and aad: "length aad \<le> 1024"
  shows "\<exists>p. verify_sign1_with_aad b64 e (sign_ed25519_with_aad e payload k aad) (key_ref b64 e k) al l aad = Inr p
    \<and> ps_payload p = payload \<and> ps_alg p = COSE_ED25519 \<and> ps_kid p = pubkey_bytes e k"
proof -
  define prot where "prot = protected_bytes COSE_ED25519 (pubkey_bytes e k)"
  define p where "p = \<lparr>ps_alg = COSE_ED25519, ps_kid = pubkey_bytes e k, ps_payload = payload,
     ps_signature = key_sign e k (sig_structure_with_aad prot aad payload), ps_protected_raw = prot\<rparr>"
  have k: "length (pubkey_bytes e k) = 32" "ed_key_valid e (pubkey_bytes e k)"
    "length (key_sign e k m) = 64" "ed_verify e (pubkey_bytes e k) m (key_sign e k m)" for m
    using law(2) seed by (simp_all add: ed25519_law_def pubkey_bytes_def key_sign_def)
  have len: "length prot \<le> 77" using length_protected [of COSE_ED25519 "pubkey_bytes e k"] k(1) by (simp add: prot_def)
  have "sign1_ok l p"
    using fits k len
    by (auto simp: sign1_ok_def p_def prot_def [symmetric] header_canon sign1_value_def sign1_fits_def)
      (simp add: COSE_ED25519_def COSE_ESP256_def)
  moreover have bytes: "sign_ed25519_with_aad e payload k aad = encode_canonical (sign1_value prot payload (ps_signature p))"
    by (simp add: sign_ed25519_with_aad_def p_def prot_def sign1_value_def Let_def)
  moreover have "length (encode_canonical (sign1_value prot payload (ps_signature p))) \<le> max_proof_size l"
    using length_sign1 [of prot payload "ps_signature p"] len k(3) fits by (simp add: p_def sign1_fits_def)
  ultimately have "parse_sign1 (sign_ed25519_with_aad e payload k aad) l = Inr p"
    by (simp add: parse_sign1_iff p_def)
  moreover have "ed25519_signed b64 e (key_ref b64 e k) al aad p"
    using al k by (simp add: ed25519_signed_def p_def key_ref_def)
  ultimately have "verify_sign1_with_aad b64 e (sign_ed25519_with_aad e payload k aad) (key_ref b64 e k) al l aad = Inr p"
    using aad k(3) by (simp add: verify_sign1_iff law(1)) (simp add: p_def)
  then show ?thesis by (rule exI [where x = p, OF conjI]) (simp add: p_def)
qed

section \<open>Domain separation\<close>

definition room_for :: "nat \<Rightarrow> limits" where
  "room_for n = default_limits\<lparr>max_field_size := n + 16\<rparr>"

lemma sig_structure_inject:
  assumes "length prot < 2 ^ 64" "length aad < 2 ^ 64" "length payload < 2 ^ 64"
    and "length prot' < 2 ^ 64" "length aad' < 2 ^ 64" "length payload' < 2 ^ 64"
  shows "sig_structure_with_aad prot aad payload = sig_structure_with_aad prot' aad' payload' \<longleftrightarrow>
    prot = prot' \<and> aad = aad' \<and> payload = payload'"
proof -
  define n where "n = length prot + length aad + length payload + length prot' + length aad' + length payload'"
  have utf: "valid_utf8 (as_bytes ''Signature1'')" by (simp add: as_bytes_def byte_of_char_def in_range_def)
  have "canon_form (room_for n) 0 (CArray [CText ''Signature1'', CBytes prot, CBytes aad, CBytes payload])"
    "canon_form (room_for n) 0 (CArray [CText ''Signature1'', CBytes prot', CBytes aad', CBytes payload'])"
    using assms utf by (simp_all add: room_for_def n_def default_limits_def)
  then show ?thesis using canon_form_encode_inj by (fastforce simp: sig_structure_with_aad_def encode_canonical_def)
qed

lemma protected_bytes_inject:
  assumes "length kid < 2 ^ 64" "length kid' < 2 ^ 64"
  shows "protected_bytes alg kid = protected_bytes alg' kid' \<longleftrightarrow> alg = alg' \<and> kid = kid'"
proof -
  define n where "n = length kid + length kid'"
  have "canon_form (room_for n) 0 (header_value alg kid)" "canon_form (room_for n) 0 (header_value alg' kid')"
    using assms by (simp_all add: header_canon room_for_def n_def default_limits_def)
  moreover have "protected_bytes a k = encode_value (header_value a k)" for a k
    by (simp add: protected_bytes_def header_value_def Let_def encode_canonical_def)
  ultimately have "protected_bytes alg kid = protected_bytes alg' kid' \<Longrightarrow> header_value alg kid = header_value alg' kid'"
    using canon_form_encode_inj by metis
  then show ?thesis by (auto simp: header_value_def split: if_splits)
qed

section \<open>Properties\<close>

text \<open>An engine for the concrete instances: a signature names its key and the length of its message.\<close>

definition plain_sig :: sig_engine where
  "plain_sig = \<lparr>ed_public = (\<lambda>seed. seed), ed_sign = (\<lambda>seed msg. seed @ replicate 31 0 @ [word_of_nat (length msg)]),
     ed_key_valid = (\<lambda>pk. True), ed_verify = (\<lambda>pk msg sig. sig = pk @ replicate 31 0 @ [word_of_nat (length msg)]),
     ec_seed_valid = (\<lambda>seed. False), ec_point = (\<lambda>seed. (None, None)), ec_sign = (\<lambda>seed msg. []),
     ec_point_valid = (\<lambda>pt. False), ec_key_valid = (\<lambda>pt. False), ec_sig_valid = (\<lambda>sig. False),
     ec_verify = (\<lambda>pt msg sig. False)\<rparr>"

definition sample_key :: ed25519_key where
  "sample_key = Ed25519Key_from_seed (replicate 32 9)"

lemma plain_sig_law: "ed25519_law plain_sig"
  by (simp add: ed25519_law_def plain_sig_def)

lemma sample_key_seed [simp]: "length (ek_seed sample_key) = 32"
  by (simp add: sample_key_def Ed25519Key_from_seed_def)

text \<open>
  C11. Verification of a COSE Sign1 accepts exactly these byte strings: the canonical four-element
  array, within the limits, whose protected header is exactly \<open>{1: alg, 4: kid}\<close>, whose
  unprotected header is empty, whose 64-byte signature the engine accepts for the PE1 structure
  over that header and payload, under the key that the expected issuer names, with an
  algorithm the verifier allows (deprecated ids only on the historical opt-in).
\<close>

theorem verify_sign1_accepts_iff:
  assumes "b64_law b64"
  shows "verify_sign1 b64 e bs issuer al l = Inr p \<longleftrightarrow>
    length bs \<le> max_proof_size l \<and> sign1_ok l p
    \<and> bs = encode_canonical (CArray [CBytes (protected_bytes (ps_alg p) (ps_kid p)), CMap [],
              CBytes (ps_payload p), CBytes (ps_signature p)])
    \<and> length (ps_signature p) = 64
    \<and> (ed25519_signed b64 e issuer al EXTERNAL_AAD p \<or> esp256_signed b64 e issuer al EXTERNAL_AAD p)"
  by (auto simp: verify_sign1_def result_iff assms sign1_value_def EXTERNAL_AAD_def sign1_ok_def)

theorem verify_sign1_accepts_iff_witness:
  "\<exists>p. ed25519_signed plain_b64 plain_sig (key_ref plain_b64 plain_sig sample_key) AllowedAlgs_strict EXTERNAL_AAD p
     \<and> ps_payload p = [5]"
proof -
  have "\<exists>p. verify_sign1 plain_b64 plain_sig (sign_ed25519_with_aad plain_sig [5] sample_key EXTERNAL_AAD)
      (key_ref plain_b64 plain_sig sample_key) AllowedAlgs_strict default_limits = Inr p
      \<and> ps_payload p = [5] \<and> ps_alg p = COSE_ED25519 \<and> ps_kid p = pubkey_bytes plain_sig sample_key"
    unfolding verify_sign1_def
    by (rule sign_ed25519_verifies [OF engine_laws(1) plain_sig_law sample_key_seed])
      (simp_all add: AllowedAlgs_strict_def AllowedAlgs_default_def sign1_fits_def default_limits_def EXTERNAL_AAD_def)
  then obtain p where "verify_sign1 plain_b64 plain_sig (sign_ed25519_with_aad plain_sig [5] sample_key EXTERNAL_AAD)
      (key_ref plain_b64 plain_sig sample_key) AllowedAlgs_strict default_limits = Inr p" "ps_payload p = [5]"
    by blast
  then show ?thesis unfolding verify_sign1_accepts_iff [OF engine_laws(1)]
    by (auto simp: esp256_signed_def AllowedAlgs_strict_def AllowedAlgs_default_def)
qed

text \<open>
  What is signed with a key verifies under that key's reference, for every payload that fits
  the limits and every domain of at most 1024 bytes, and verification returns the payload.
\<close>

theorem signature_round_trip:
  assumes "b64_law b64" "ed25519_law e" "length (ek_seed k) = 32"
    and "al_ed25519 al" "sign1_fits l payload" "length aad \<le> 1024"
  shows "\<exists>p. verify_sign1_with_aad b64 e (sign_ed25519_with_aad e payload k aad) (key_ref b64 e k) al l aad = Inr p
    \<and> ps_payload p = payload \<and> ps_alg p = COSE_ED25519 \<and> ps_kid p = pubkey_bytes e k"
  using assms by (rule sign_ed25519_verifies)

theorem signature_round_trip_witness:
  "\<exists>p. verify_sign1_with_aad plain_b64 plain_sig (sign_ed25519_with_aad plain_sig [1, 2, 3] sample_key [7])
      (key_ref plain_b64 plain_sig sample_key) AllowedAlgs_strict default_limits [7] = Inr p \<and> ps_payload p = [1, 2, 3]"
  using signature_round_trip [OF engine_laws(1) plain_sig_law sample_key_seed, of AllowedAlgs_strict default_limits "[1, 2, 3]" "[7]"]
  by (auto simp: AllowedAlgs_strict_def AllowedAlgs_default_def sign1_fits_def default_limits_def)

text \<open>
  Domain separation: the message under an accepted signature determines the algorithm, the
  key, the domain and the payload. A signature accepted in two domains, or for two payloads,
  was accepted by the engine for two different messages.
\<close>

theorem signed_message_determines_context:
  assumes "b64_law b64"
    and "verify_sign1_with_aad b64 e bs issuer al l aad = Inr p"
    and "verify_sign1_with_aad b64 e bs' issuer' al' l' aad' = Inr p'"
  shows "sig_structure_with_aad (ps_protected_raw p) aad (ps_payload p) =
         sig_structure_with_aad (ps_protected_raw p') aad' (ps_payload p') \<longleftrightarrow>
    ps_alg p = ps_alg p' \<and> ps_kid p = ps_kid p' \<and> aad = aad' \<and> ps_payload p = ps_payload p'"
proof -
  have "length (ps_protected_raw q) < 2 ^ 64 \<and> length a < 2 ^ 64 \<and> length (ps_payload q) < 2 ^ 64 \<and> length (ps_kid q) < 2 ^ 64
      \<and> ps_protected_raw q = protected_bytes (ps_alg q) (ps_kid q)"
    if "verify_sign1_with_aad b64 e b i x m a = Inr q" for b i x m a q
    using that unfolding verify_sign1_iff [OF assms(1)] parse_sign1_iff by (auto simp: sign1_ok_def header_canon sign1_value_def)
  from this [OF assms(2)] this [OF assms(3)] show ?thesis
    by (auto simp: sig_structure_inject protected_bytes_inject)
qed

theorem signed_message_determines_context_witness:
  "sig_structure_with_aad (protected_bytes COSE_ED25519 (replicate 32 9)) [1] [5] \<noteq>
   sig_structure_with_aad (protected_bytes COSE_ED25519 (replicate 32 9)) [2] [5]"
proof -
  have fits: "sign1_fits default_limits [5]" "al_ed25519 AllowedAlgs_strict"
    by (simp_all add: sign1_fits_def default_limits_def AllowedAlgs_strict_def AllowedAlgs_default_def)
  have "\<exists>p. verify_sign1_with_aad plain_b64 plain_sig (sign_ed25519_with_aad plain_sig [5] sample_key [d])
      (key_ref plain_b64 plain_sig sample_key) AllowedAlgs_strict default_limits [d] = Inr p
      \<and> ps_payload p = [5] \<and> ps_alg p = COSE_ED25519 \<and> ps_kid p = pubkey_bytes plain_sig sample_key" for d
    by (rule sign_ed25519_verifies [OF engine_laws(1) plain_sig_law sample_key_seed fits(2,1)]) simp
  then obtain p q where v: "verify_sign1_with_aad plain_b64 plain_sig (sign_ed25519_with_aad plain_sig [5] sample_key [1])
      (key_ref plain_b64 plain_sig sample_key) AllowedAlgs_strict default_limits [1] = Inr p"
      "verify_sign1_with_aad plain_b64 plain_sig (sign_ed25519_with_aad plain_sig [5] sample_key [2])
      (key_ref plain_b64 plain_sig sample_key) AllowedAlgs_strict default_limits [2] = Inr q"
    and pq: "ps_payload p = [5]" "ps_alg p = COSE_ED25519" "ps_kid p = pubkey_bytes plain_sig sample_key"
      "ps_payload q = [5]" "ps_alg q = COSE_ED25519" "ps_kid q = pubkey_bytes plain_sig sample_key"
    by metis
  have "pubkey_bytes plain_sig sample_key = replicate 32 9"
    by (simp add: pubkey_bytes_def plain_sig_def sample_key_def Ed25519Key_from_seed_def)
  moreover have "ps_protected_raw p = protected_bytes (ps_alg p) (ps_kid p)" "ps_protected_raw q = protected_bytes (ps_alg q) (ps_kid q)"
    using v unfolding verify_sign1_iff [OF engine_laws(1)] parse_sign1_iff by (simp_all add: sign1_ok_def)
  ultimately show ?thesis
    using signed_message_determines_context [OF engine_laws(1) v] pq by simp
qed

end
