(* ===== verification/Build.thy ===== *)
theory Build
  imports Cose Store
begin

text \<open>
  Creating and verifying signed artifacts: \<^verbatim>\<open>proof-crypto/src/build.rs\<close>, and the check of a
  transport envelope against its canonical bytes, \<^verbatim>\<open>proof-crypto/src/envelope.rs\<close>.
\<close>

section \<open>Events\<close>

record created_event =
  ce_content :: event_content
  ce_canonical :: bytes
  ce_id :: string

definition create_event :: "base64_engine \<Rightarrow> hash_engine \<Rightarrow> event_content \<Rightarrow> limits \<Rightarrow> created_event result" where
  "create_event b64 h content l =
     (if ev_v content \<noteq> 1 then Inl UnsupportedVersion
      else bindR (event_to_cbor content) (\<lambda>value.
      let canonical = encode_canonical value
      in bindR (decode_and_check_canonical canonical l) (\<lambda>decoded.
         bindR (cbor_to_event decoded l) (\<lambda>back.
         if back \<noteq> content then Inl SchemaViolation
         else Inr \<lparr>ce_content = content, ce_canonical = canonical, ce_id = event_id b64 h canonical\<rparr>))))"

text \<open>The tamper check shared by the three verifiers of unsigned artifacts.\<close>

definition check_expected_id :: "base64_engine \<Rightarrow> hash_engine \<Rightarrow> string \<Rightarrow> string option \<Rightarrow> bytes \<Rightarrow> unit result" where
  "check_expected_id b64 h prefix expected_id canonical =
     (case expected_id of Some expect \<Rightarrow> verify_id b64 h prefix expect canonical | None \<Rightarrow> Inr ())"

definition verify_event ::
  "base64_engine \<Rightarrow> hash_engine \<Rightarrow> bytes \<Rightarrow> string option \<Rightarrow> limits \<Rightarrow> (event_content \<times> string) result" where
  "verify_event b64 h canonical expected_id l =
     bindR (decode_and_check_canonical canonical l) (\<lambda>value.
     bindR (cbor_to_event value l) (\<lambda>content.
     bindR (check_expected_id b64 h ''evt'' expected_id canonical) (\<lambda>_.
     Inr (content, event_id b64 h canonical))))"

section \<open>Attestations\<close>

record created_attestation =
  ca_content :: attestation_content
  ca_canonical :: bytes
  ca_id :: string
  ca_sign1 :: bytes

definition attest ::
  "base64_engine \<Rightarrow> hash_engine \<Rightarrow> sig_engine \<Rightarrow> attestation_content \<Rightarrow> ed25519_key \<Rightarrow> limits \<Rightarrow> created_attestation result" where
  "attest b64 h e content k l =
     (if att_v content \<noteq> 1 then Inl UnsupportedVersion
      else if att_issuer content \<noteq> key_ref b64 e k then Inl SchemaViolation
      else let canonical = encode_canonical (attestation_to_cbor content)
           in bindR (decode_and_check_canonical canonical l) (\<lambda>decoded.
              bindR (cbor_to_attestation decoded l) (\<lambda>back.
              if back \<noteq> content then Inl SchemaViolation
              else Inr \<lparr>ca_content = content, ca_canonical = canonical, ca_id = attestation_id b64 h canonical,
                        ca_sign1 = sign_ed25519 e canonical k\<rparr>)))"

definition verify_attestation ::
  "base64_engine \<Rightarrow> hash_engine \<Rightarrow> sig_engine \<Rightarrow> bytes \<Rightarrow> string \<Rightarrow> allowed_algs \<Rightarrow> limits \<Rightarrow>
   (attestation_content \<times> string) result" where
  "verify_attestation b64 h e sign1 expected_issuer al l =
     bindR (verify_sign1 b64 e sign1 expected_issuer al l) (\<lambda>parsed.
     bindR (decode_and_check_canonical (ps_payload parsed) l) (\<lambda>value.
     bindR (cbor_to_attestation value l) (\<lambda>content.
     if att_issuer content \<noteq> expected_issuer then Inl SignatureInvalid
     else Inr (content, attestation_id b64 h (ps_payload parsed)))))"

section \<open>Status objects\<close>

record signed_status =
  ss_content :: attestation_content
  ss_sign1 :: bytes

text \<open>The attestation content all four builders fill in: the issuer is the signing key.\<close>

definition status_content ::
  "base64_engine \<Rightarrow> sig_engine \<Rightarrow> ed25519_key \<Rightarrow> string \<Rightarrow> string \<Rightarrow> (string \<times> meta_value) list \<Rightarrow> u64 \<Rightarrow>
   attestation_content" where
  "status_content b64 e by_key subject ty fs issued_at =
     \<lparr>att_v = 1, att_issuer = key_ref b64 e by_key, att_subject = subject,
      att_claim = \<lparr>claim_type = ty, claim_fields = fs\<rparr>,
      att_issued_at = issued_at, att_expires_at = None, att_evidence_ref = None\<rparr>"

definition reason_fields :: "string option \<Rightarrow> (string \<times> meta_value) list result" where
  "reason_fields reason =
     (case reason of None \<Rightarrow> Inr []
      | Some r \<Rightarrow> if r = [] then Inl SchemaViolation else Inr [(''reason'', MText r)])"

definition revoke_attestation ::
  "base64_engine \<Rightarrow> hash_engine \<Rightarrow> sig_engine \<Rightarrow> string \<Rightarrow> string option \<Rightarrow> ed25519_key \<Rightarrow> u64 \<Rightarrow> limits \<Rightarrow>
   created_attestation result" where
  "revoke_attestation b64 h e target reason by_key issued_at l =
     (if target = [] then Inl SchemaViolation
      else bindR (reason_fields reason) (\<lambda>fs.
      attest b64 h e (status_content b64 e by_key target ''revoke'' (fs @ [(''target'', MText target)]) issued_at)
        by_key l))"

definition supersede_attestation ::
  "base64_engine \<Rightarrow> hash_engine \<Rightarrow> sig_engine \<Rightarrow> string \<Rightarrow> string \<Rightarrow> ed25519_key \<Rightarrow> u64 \<Rightarrow> limits \<Rightarrow>
   created_attestation result" where
  "supersede_attestation b64 h e old new by_key issued_at l =
     (if old = [] \<or> new = [] then Inl SchemaViolation
      else if old = new then Inl SchemaViolation
      else attest b64 h e
        (status_content b64 e by_key old ''supersede'' [(''new'', MText new), (''old'', MText old)] issued_at) by_key l)"

definition withdraw_attestation ::
  "base64_engine \<Rightarrow> hash_engine \<Rightarrow> sig_engine \<Rightarrow> string \<Rightarrow> string option \<Rightarrow> ed25519_key \<Rightarrow> u64 \<Rightarrow> limits \<Rightarrow>
   created_attestation result" where
  "withdraw_attestation b64 h e target reason by_key issued_at l =
     (if target = [] then Inl SchemaViolation
      else bindR (reason_fields reason) (\<lambda>fs.
      attest b64 h e (status_content b64 e by_key target ''withdraw'' (fs @ [(''target'', MText target)]) issued_at)
        by_key l))"

definition compromise_attestation ::
  "base64_engine \<Rightarrow> hash_engine \<Rightarrow> sig_engine \<Rightarrow> string \<Rightarrow> u64 \<Rightarrow> string option \<Rightarrow> ed25519_key \<Rightarrow> u64 \<Rightarrow> limits \<Rightarrow>
   created_attestation result" where
  "compromise_attestation b64 h e target at_time reason by_key issued_at l =
     (if target = [] then Inl SchemaViolation
      else bindR (reason_fields reason) (\<lambda>fs.
      attest b64 h e (status_content b64 e by_key target ''compromise''
          (fs @ [(''target'', MText target), (''at_time'', MUint at_time)]) issued_at)
        by_key l))"

definition verify_status_object ::
  "base64_engine \<Rightarrow> hash_engine \<Rightarrow> sig_engine \<Rightarrow> bytes \<Rightarrow> string \<Rightarrow> allowed_algs \<Rightarrow> limits \<Rightarrow> attestation_content result" where
  "verify_status_object b64 h e sign1 expected_issuer al l =
     bindR (verify_attestation b64 h e sign1 expected_issuer al l) (\<lambda>(content, i).
     if \<not> is_status (claim_kind_of content) then Inl SchemaViolation else Inr content)"

definition to_signed_status :: "created_attestation \<Rightarrow> signed_status result" where
  "to_signed_status created =
     (if \<not> is_status (claim_kind_of (ca_content created)) then Inl SchemaViolation
      else Inr \<lparr>ss_content = ca_content created, ss_sign1 = ca_sign1 created\<rparr>)"

section \<open>Evidence and relationships\<close>

record created_evidence =
  cv_content :: evidence
  cv_canonical :: bytes
  cv_id :: string

definition check_attestation_ref :: "string option \<Rightarrow> unit result" where
  "check_attestation_ref r =
     (case r of None \<Rightarrow> Inr ()
      | Some r \<Rightarrow> if r = [] \<or> length r > 1024 then Inl SchemaViolation
                  else if \<not> starts_with r ''att:v1:'' then Inl SchemaViolation
                  else Inr ())"

definition make_evidence ::
  "base64_engine \<Rightarrow> hash_engine \<Rightarrow> evidence_kind \<Rightarrow> hash_ref \<Rightarrow> string option \<Rightarrow> string option \<Rightarrow> limits \<Rightarrow>
   created_evidence result" where
  "make_evidence b64 h kind digest attestation_ref hint l =
     bindR (check_attestation_ref attestation_ref) (\<lambda>_.
     let content = \<lparr>evd_v = 1, evd_kind = kind, evd_digest = digest, evd_attestation_ref = attestation_ref, evd_hint = hint\<rparr>;
         canonical = encode_canonical (evidence_to_cbor content)
     in bindR (decode_and_check_canonical canonical l) (\<lambda>decoded.
        bindR (cbor_to_evidence decoded l) (\<lambda>back.
        if back \<noteq> content then Inl SchemaViolation
        else Inr \<lparr>cv_content = content, cv_canonical = canonical, cv_id = evidence_id b64 h canonical\<rparr>)))"

definition verify_evidence ::
  "base64_engine \<Rightarrow> hash_engine \<Rightarrow> bytes \<Rightarrow> string option \<Rightarrow> limits \<Rightarrow> (evidence \<times> string) result" where
  "verify_evidence b64 h canonical expected_id l =
     bindR (decode_and_check_canonical canonical l) (\<lambda>value.
     bindR (cbor_to_evidence value l) (\<lambda>content.
     bindR (check_expected_id b64 h ''evd'' expected_id canonical) (\<lambda>_.
     Inr (content, evidence_id b64 h canonical))))"

record created_relationship =
  cr_content :: relationship
  cr_canonical :: bytes
  cr_id :: string

definition make_relationship ::
  "base64_engine \<Rightarrow> hash_engine \<Rightarrow> relationship \<Rightarrow> limits \<Rightarrow> created_relationship result" where
  "make_relationship b64 h content l =
     (if rel_v content \<noteq> 1 then Inl UnsupportedVersion
      else let canonical = encode_canonical (relationship_to_cbor content)
           in bindR (decode_and_check_canonical canonical l) (\<lambda>decoded.
              bindR (cbor_to_relationship decoded l) (\<lambda>back.
              if back \<noteq> content then Inl SchemaViolation
              else Inr \<lparr>cr_content = content, cr_canonical = canonical, cr_id = relationship_id b64 h canonical\<rparr>)))"

definition verify_relationship ::
  "base64_engine \<Rightarrow> hash_engine \<Rightarrow> bytes \<Rightarrow> string option \<Rightarrow> limits \<Rightarrow> (relationship \<times> string) result" where
  "verify_relationship b64 h canonical expected_id l =
     bindR (decode_and_check_canonical canonical l) (\<lambda>value.
     bindR (cbor_to_relationship value l) (\<lambda>content.
     bindR (check_expected_id b64 h ''rel'' expected_id canonical) (\<lambda>_.
     Inr (content, relationship_id b64 h canonical))))"

section \<open>Envelopes\<close>

text \<open>The ids of the members of a package, recomputed from their own encodings.\<close>

definition event_member_id :: "base64_engine \<Rightarrow> hash_engine \<Rightarrow> event_content \<Rightarrow> string result" where
  "event_member_id b64 h ev = bindR (event_to_cbor ev) (\<lambda>v. Inr (event_id b64 h (encode_canonical v)))"

definition attestation_member_id :: "base64_engine \<Rightarrow> hash_engine \<Rightarrow> attestation_content \<Rightarrow> string" where
  "attestation_member_id b64 h a = attestation_id b64 h (encode_canonical (attestation_to_cbor a))"

definition evidence_member_id :: "base64_engine \<Rightarrow> hash_engine \<Rightarrow> evidence \<Rightarrow> string" where
  "evidence_member_id b64 h ev = evidence_id b64 h (encode_canonical (evidence_to_cbor ev))"

definition relationship_member_id :: "base64_engine \<Rightarrow> hash_engine \<Rightarrow> relationship \<Rightarrow> string" where
  "relationship_member_id b64 h r = relationship_id b64 h (encode_canonical (relationship_to_cbor r))"

type_synonym member_ids = "string list \<times> string list \<times> string list \<times> string list"

definition member_id_sets :: "base64_engine \<Rightarrow> hash_engine \<Rightarrow> proof_package \<Rightarrow> member_ids result" where
  "member_id_sets b64 h p =
     bindR (mapR (event_member_id b64 h) (prf_events p)) (\<lambda>eids.
     Inr (eids, map (\<lambda>a. attestation_member_id b64 h (sa_content a)) (prf_attestations p),
          map (evidence_member_id b64 h) (prf_evidence p), map (relationship_member_id b64 h) (prf_relationships p)))"

definition vocabulary_pairs :: "proof_package \<Rightarrow> (string \<times> u64) list" where
  "vocabulary_pairs p = map (\<lambda>vd. (voc_ns vd, voc_version vd)) (prf_vocabularies p)"

definition envelope_id ::
  "base64_engine \<Rightarrow> hash_engine \<Rightarrow> artifact_kind \<Rightarrow> cbor_value \<Rightarrow> limits \<Rightarrow> string result" where
  "envelope_id b64 h kind value l =
     (case kind of
        AEvent \<Rightarrow> bindR (cbor_to_event value l) (\<lambda>x.
          bindR (event_to_cbor x) (\<lambda>v. Inr (event_id b64 h (encode_canonical v))))
      | AEvidence \<Rightarrow> bindR (cbor_to_evidence value l) (\<lambda>x. Inr (evidence_id b64 h (encode_canonical (evidence_to_cbor x))))
      | ARelationship \<Rightarrow> bindR (cbor_to_relationship value l) (\<lambda>x.
          Inr (relationship_id b64 h (encode_canonical (relationship_to_cbor x))))
      | AAttestation \<Rightarrow> bindR (cbor_to_attestation value l) (\<lambda>x.
          Inr (attestation_id b64 h (encode_canonical (attestation_to_cbor x))))
      | AStatus \<Rightarrow> bindR (cbor_to_attestation value l) (\<lambda>x.
          Inr (attestation_id b64 h (encode_canonical (attestation_to_cbor x))))
      | AProof \<Rightarrow> bindR (cbor_to_proof b64 value l) (\<lambda>p.
          bindR (member_id_sets b64 h p) (\<lambda>(eids, aids, vids, rids).
          Inr (proof_id_full b64 h (proposition_to_cbor (prf_proposition p)) (prf_created_at p) eids aids vids rids
            (prf_referenced_proofs p) (vocabulary_pairs p)))))"

definition verify_envelope_signature ::
  "base64_engine \<Rightarrow> sig_engine \<Rightarrow> bytes \<Rightarrow> string \<Rightarrow> limits \<Rightarrow> string option \<Rightarrow> allowed_algs option \<Rightarrow> unit result" where
  "verify_envelope_signature b64 e bs s l expected_issuer allowed =
     bindR (ok_or (b64_decode b64 s) Malformed) (\<lambda>sig.
     bindR (parse_sign1 sig l) (\<lambda>_.
     case (expected_issuer, allowed) of
       (Some issuer, Some al) \<Rightarrow> bindR (verify_sign1 b64 e sig issuer al l) (\<lambda>_. Inr ())
     | _ \<Rightarrow>
         bindR (decode_and_check_canonical bs l) (\<lambda>value.
         bindR (cbor_to_attestation value l) (\<lambda>entry.
         let al = (case allowed of Some al \<Rightarrow> al | None \<Rightarrow> AllowedAlgs_strict)
         in case verify_sign1 b64 e sig (att_issuer entry) al l of
              Inr _ \<Rightarrow> Inr ()
            | Inl _ \<Rightarrow> Inl SignatureInvalid))))"

definition verify_envelope ::
  "base64_engine \<Rightarrow> hash_engine \<Rightarrow> hex_engine \<Rightarrow> sig_engine \<Rightarrow> artifact_envelope \<Rightarrow> limits \<Rightarrow> string option \<Rightarrow>
   allowed_algs option \<Rightarrow> bytes result" where
  "verify_envelope b64 h hx e env l expected_issuer allowed =
     (if env_container_version env \<noteq> CONTAINER_VERSION then Inl UnsupportedVersion
      else bindR (cbor_bytes hx env l) (\<lambda>bs.
      bindR (decode_and_check_canonical bs l) (\<lambda>value.
      bindR (envelope_id b64 h (env_kind env) value l) (\<lambda>recomputed.
      if recomputed \<noteq> env_id env then Inl IdMismatch
      else if env_kind env = AAttestation \<or> env_kind env = AStatus then
        (case env_sign1_b64u env of
           Some s \<Rightarrow> bindR (verify_envelope_signature b64 e bs s l expected_issuer allowed) (\<lambda>_. Inr bs)
         | None \<Rightarrow> Inr bs)
      else Inr bs))))"

section \<open>Sizes\<close>

lemma sum_list_sort_key: "sum_list (map f (sort_key g xs)) = (sum_list (map f xs) :: nat)"
  by (metis mset_map mset_sort sum_mset_sum_list)

lemma length_encode_map:
  "length (encode_value (CMap ps)) \<le>
   9 + sum_list (map (\<lambda>(k, v). length (encode_value k) + length (encode_value v)) ps)"
proof -
  have "length (concat (map (\<lambda>(kb, vb). kb @ vb) (sort_key fst (map (\<lambda>(k, v). (encode_value k, encode_value v)) ps)))) =
      sum_list (map (\<lambda>(kb, vb). length kb + length vb) (sort_key fst (map (\<lambda>(k, v). (encode_value k, encode_value v)) ps)))"
    by (simp add: length_concat comp_def case_prod_unfold)
  also have "\<dots> = sum_list (map (\<lambda>(k, v). length (encode_value k) + length (encode_value v)) ps)"
    by (simp only: sum_list_sort_key) (simp add: comp_def case_prod_unfold)
  finally show ?thesis using length_encode_head [of 5 "word_of_nat (length ps)"] by simp
qed

lemma length_encode_text: "length (encode_value (CText s)) \<le> 9 + length s"
  using length_encode_head [of 3 "word_of_nat (length s)"] by simp

lemma length_encode_uint: "length (encode_value (CUint n)) \<le> 9"
  using length_encode_head [of 0 n] by simp

lemma length_encode_meta: "meta_value_ok x \<Longrightarrow> length (encode_value (meta_value_to_cbor x)) \<le> 1033"
  by (cases x)
    (auto simp del: encode_value.simps(4) simp: length_encode_head intro!: order_trans [OF length_encode_text]
      intro: order_trans [OF length_encode_head])

lemma length_encode_opt_text: "pred_option text_ok r \<Longrightarrow> length (encode_value (opt_text_to_cbor r)) \<le> 1033"
  by (cases r) (auto simp: opt_text_to_cbor_def text_ok_def intro!: order_trans [OF length_encode_text] simp del: encode_value.simps(4))

lemma length_encode_opt_uint: "length (encode_value (opt_uint_to_cbor r)) \<le> 9"
  by (cases r) (auto simp: opt_uint_to_cbor_def length_encode_head)


lemma length_encode_claim:
  assumes "claim_ok c" "\<forall>(k, v) \<in> set (claim_fields c). length k \<le> 64"
  shows "length (encode_value (claim_to_cbor c)) \<le> 16749"
proof -
  have "length (encode_value (CText k)) + length (encode_value (meta_value_to_cbor v)) \<le> 1106"
    if "(k, v) \<in> set (claim_fields c)" for k v
    using that assms length_encode_text [of k] length_encode_meta [of v] by (fastforce simp: claim_ok_def)
  then have "sum_list (map (\<lambda>(k, v). length (encode_value k) + length (encode_value v)) (meta_pairs_to_cbor (claim_fields c)))
      \<le> sum_list (map (\<lambda>_. 1106) (claim_fields c))"
    unfolding meta_pairs_to_cbor_def map_map by (intro sum_list_mono) auto
  also have "\<dots> \<le> 15 * 1106" using assms(1) by (simp add: sum_list_triv claim_ok_def)
  finally have "sum_list (map (\<lambda>(k, v). length (encode_value k) + length (encode_value v)) (meta_pairs_to_cbor (claim_fields c)))
      \<le> 15 * 1106" .
  moreover have "length (encode_value (CText (claim_type c))) \<le> 137" "length (encode_value (CText ''type'')) \<le> 13"
    using length_encode_text [of "claim_type c"] length_encode_text [of "''type''"] assms(1) by (simp_all add: claim_ok_def)
  ultimately show ?thesis
    using length_encode_map [of "(CText ''type'', CText (claim_type c)) # meta_pairs_to_cbor (claim_fields c)"]
    by (simp add: claim_to_cbor_def del: encode_value.simps)
qed

lemma length_encode_attestation:
  assumes ok: "attestation_ok a" and keys: "\<forall>(k, v) \<in> set (claim_fields (att_claim a)). length k \<le> 64"
  shows "length (encode_canonical (attestation_to_cbor a)) \<le> 20000"
proof -
  have "length (encode_value (claim_to_cbor (att_claim a))) \<le> 16749"
    using length_encode_claim ok keys by (simp add: attestation_ok_def)
  moreover have "length (encode_value (opt_text_to_cbor (att_evidence_ref a))) \<le> 1033"
    using ok by (intro length_encode_opt_text) (auto simp: attestation_ok_def ref_ok_def pred_option_def)
  moreover have "length (encode_value (CText (att_issuer a))) \<le> 1033" "length (encode_value (CText (att_subject a))) \<le> 1033"
    using length_encode_text [of "att_issuer a"] length_encode_text [of "att_subject a"] ok
    by (simp_all add: attestation_ok_def text_ok_def)
  moreover have "length (encode_value (CText ''claim'')) \<le> 14" "length (encode_value (CText ''evidence_ref'')) \<le> 21"
    "length (encode_value (CText ''expires_at'')) \<le> 19" "length (encode_value (CText ''issued_at'')) \<le> 18"
    "length (encode_value (CText ''issuer'')) \<le> 15" "length (encode_value (CText ''subject'')) \<le> 16"
    "length (encode_value (CText ''v'')) \<le> 10"
    by (simp_all add: encode_head_def)
  ultimately show ?thesis
    using length_encode_map [of "[(CText ''claim'', claim_to_cbor (att_claim a)),
       (CText ''evidence_ref'', opt_text_to_cbor (att_evidence_ref a)),
       (CText ''expires_at'', opt_uint_to_cbor (att_expires_at a)),
       (CText ''issued_at'', CUint (att_issued_at a)), (CText ''issuer'', CText (att_issuer a)),
       (CText ''subject'', CText (att_subject a)), (CText ''v'', CUint (ucast (att_v a)))]"]
      length_encode_opt_uint [of "att_expires_at a"] length_encode_uint [of "att_issued_at a"] length_encode_uint [of "ucast (att_v a)"]
    by (simp add: attestation_to_cbor_def encode_canonical_def del: encode_value.simps)
qed

section \<open>Reading back what was built\<close>

lemma decode_check_eq: "decode_and_check_canonical bs l = decode_strict bs l"
  unfolding decode_and_check_canonical_def by (rule cbor.reencode_check)

lemma read_attestation_Inr [result_iff]:
  "bindR (decode_and_check_canonical bs l) (\<lambda>v. bindR (cbor_to_attestation v l) f) = Inr y \<longleftrightarrow>
   (\<exists>a. attestation_ok a \<and> canon_form l 0 (sort_maps (attestation_to_cbor a)) \<and> length bs \<le> max_proof_size l
     \<and> encode_canonical (attestation_to_cbor a) = bs \<and> f a = Inr y)"
  unfolding bindR_assoc [symmetric] decode_check_eq bindR_Inr_iff [of "bindR _ _"] attestation_schema.read_iff by blast

lemma attest_Inr [result_iff]:
  "attest b64 h e c k l = Inr ca \<longleftrightarrow>
     attestation_ok c \<and> att_issuer c = key_ref b64 e k \<and> canon_form l 0 (sort_maps (attestation_to_cbor c))
     \<and> length (encode_canonical (attestation_to_cbor c)) \<le> max_proof_size l
     \<and> ca = \<lparr>ca_content = c, ca_canonical = encode_canonical (attestation_to_cbor c),
             ca_id = attestation_member_id b64 h c, ca_sign1 = sign_ed25519 e (encode_canonical (attestation_to_cbor c)) k\<rparr>"
  unfolding attest_def Let_def if_Inl_Inr_iff read_attestation_Inr
  by (auto simp: attestation_member_id_def attestation_ok_def)

lemma verify_attestation_Inr [result_iff]:
  assumes "b64_law b64"
  shows "verify_attestation b64 h e bs issuer al l = Inr (c, i) \<longleftrightarrow>
    (\<exists>p. verify_sign1 b64 e bs issuer al l = Inr p \<and> ps_payload p = encode_canonical (attestation_to_cbor c))
    \<and> attestation_ok c \<and> att_issuer c = issuer \<and> i = attestation_member_id b64 h c
    \<and> canon_form l 0 (sort_maps (attestation_to_cbor c))
    \<and> length (encode_canonical (attestation_to_cbor c)) \<le> max_proof_size l"
  unfolding verify_attestation_def bindR_Inr_iff [of "verify_sign1 b64 e bs issuer al l"] read_attestation_Inr
  by (auto simp: attestation_member_id_def)

lemma attest_verifies:
  assumes law: "b64_law b64" "ed25519_law e" and seed: "length (ek_seed k) = 32"
    and al: "al_ed25519 al" and ca: "attest b64 h e c k l = Inr ca" and fits: "sign1_fits l (ca_canonical ca)"
  shows "verify_attestation b64 h e (ca_sign1 ca) (key_ref b64 e k) al l = Inr (c, ca_id ca)"
proof -
  have "\<exists>p. verify_sign1 b64 e (ca_sign1 ca) (key_ref b64 e k) al l = Inr p \<and> ps_payload p = ca_canonical ca"
    using sign_ed25519_verifies [OF law seed al fits, of EXTERNAL_AAD] ca
    by (auto simp: attest_Inr verify_sign1_def sign_ed25519_def EXTERNAL_AAD_def)
  then show ?thesis using ca by (auto simp: attest_Inr verify_attestation_Inr law(1))
qed

section \<open>Status objects are always built\<close>

definition utf8_text :: "string \<Rightarrow> bool" where
  "utf8_text s \<longleftrightarrow> text_ok s \<and> valid_utf8 (as_bytes s)"

fun utf8_meta :: "meta_value \<Rightarrow> bool" where
  "utf8_meta (MText s) \<longleftrightarrow> valid_utf8 (as_bytes s)"
| "utf8_meta _ \<longleftrightarrow> True"

lemma utf8_text_canon: "utf8_text s \<Longrightarrow> d \<le> 16 \<Longrightarrow> canon_form default_limits d (CText s)"
  by (simp add: utf8_text_def text_ok_def default_limits_def)

lemma meta_canon:
  "meta_value_ok x \<Longrightarrow> utf8_meta x \<Longrightarrow> d \<le> 16 \<Longrightarrow> wf_value default_limits d (meta_value_to_cbor x)"
  by (cases x) (auto simp: default_limits_def)

lemma claim_wf:
  assumes "d \<le> 10" "claim_ok c" "valid_utf8 (as_bytes (claim_type c))"
    and "distinct (map (\<lambda>k. encode_canonical (CText k)) (''type'' # map fst (claim_fields c)))"
    and "\<forall>(k, v) \<in> set (claim_fields c). length k \<le> 64 \<and> valid_utf8 (as_bytes k) \<and> utf8_meta v"
  shows "wf_value default_limits d (claim_to_cbor c)"
proof -
  have type: "wf_value default_limits (Suc d) (CText ''type'')" "wf_value default_limits (Suc d) (CText (claim_type c))"
    using assms(1-3) by (simp_all add: default_limits_def as_bytes_def byte_of_char_def in_range_def claim_ok_def)
  have fields: "wf_value default_limits (Suc d) (CText k) \<and> wf_value default_limits (Suc d) (meta_value_to_cbor v)"
    if "(k, v) \<in> set (claim_fields c)" for k v
    using that assms(1,2,5) meta_canon [of v "Suc d"] by (fastforce simp: default_limits_def claim_ok_def)
  have keys: "map (\<lambda>p. encode_canonical (fst p)) (meta_pairs_to_cbor (claim_fields c)) =
      map (\<lambda>k. encode_canonical (CText k)) (map fst (claim_fields c))"
    by (simp add: meta_pairs_to_cbor_def case_prod_unfold)
  have size: "length (claim_fields c) \<le> 15" using assms(2) by (simp add: claim_ok_def)
  show ?thesis
    unfolding claim_to_cbor_def wf_value.simps list.map fst_conv keys
  proof (intro conjI)
    show "\<forall>(k, v) \<in> set ((CText ''type'', CText (claim_type c)) # meta_pairs_to_cbor (claim_fields c)).
        wf_value default_limits (Suc d) k \<and> wf_value default_limits (Suc d) v"
      using type fields unfolding meta_pairs_to_cbor_def by (auto simp del: wf_value.simps)
  qed (use size assms(1,4) in \<open>simp_all add: default_limits_def meta_pairs_to_cbor_def\<close>)
qed

lemma attestation_wf:
  assumes "d \<le> 9" "attestation_ok a" "wf_value default_limits (Suc d) (claim_to_cbor (att_claim a))"
    and "utf8_text (att_issuer a)" "utf8_text (att_subject a)" "att_evidence_ref a = None"
  shows "wf_value default_limits d (attestation_to_cbor a)"
proof -
  have keys: "canon_form default_limits (Suc d) (CText k)"
    if "k \<in> set [''claim'', ''evidence_ref'', ''expires_at'', ''issued_at'', ''issuer'', ''subject'', ''v'']" for k
    using that assms(1) by (auto simp: default_limits_def as_bytes_def byte_of_char_def in_range_def)
  have vals: "canon_form default_limits (Suc d) (CText (att_issuer a))" "canon_form default_limits (Suc d) (CText (att_subject a))"
    "canon_form default_limits (Suc d) (opt_uint_to_cbor (att_expires_at a))" "canon_form default_limits (Suc d) CNull"
    using utf8_text_canon assms(1,4,5) by (auto simp: opt_uint_to_cbor_def default_limits_def split: option.splits)
  have distinct: "distinct (map (\<lambda>k. encode_canonical (CText k)) [''claim'', ''evidence_ref'', ''expires_at'', ''issued_at'', ''issuer'', ''subject'', ''v''])"
    by (simp add: encode_eval)
  show ?thesis
    using keys vals distinct assms(1,3,6)
    by (cases "att_expires_at a")
      (simp_all add: attestation_to_cbor_def opt_text_to_cbor_def opt_uint_to_cbor_def default_limits_def claim_to_cbor_def)
qed


text \<open>A claim type and field list of the four builders.\<close>

definition status_shape :: "string \<Rightarrow> (string \<times> meta_value) list \<Rightarrow> bool" where
  "status_shape ty fs \<longleftrightarrow> ty \<in> set [''revoke'', ''supersede'', ''withdraw'', ''compromise'']
     \<and> map fst fs \<in> set [[''target''], [''reason'', ''target''], [''new'', ''old''],
          [''target'', ''at_time''], [''reason'', ''target'', ''at_time'']]
     \<and> (\<forall>(k, v) \<in> set fs. meta_value_ok v \<and> utf8_meta v)"

lemma status_keys:
  assumes "status_shape ty fs"
  shows "claim_ok \<lparr>claim_type = ty, claim_fields = fs\<rparr>" "valid_utf8 (as_bytes ty)"
    "distinct (map (\<lambda>k. encode_canonical (CText k)) (''type'' # map fst fs))"
    "\<forall>(k, v) \<in> set fs. length k \<le> 64 \<and> valid_utf8 (as_bytes k) \<and> utf8_meta v"
proof -
  have sort: "sorted_wrt (<) (map (\<lambda>k. encode_canonical (CText k)) (map fst fs))"
    "distinct (map (\<lambda>k. encode_canonical (CText k)) (''type'' # map fst fs))"
    using assms by (auto simp: status_shape_def encode_eval)
  have key: "length k \<le> 64 \<and> valid_utf8 (as_bytes k) \<and> k \<noteq> ''type''" if "k \<in> set (map fst fs)" for k
    using that assms by (auto simp: status_shape_def as_bytes_def byte_of_char_def in_range_def simp del: set_map)
  have "length (map fst fs) \<le> 15" using assms by (auto simp: status_shape_def simp del: length_map)
  then show "claim_ok \<lparr>claim_type = ty, claim_fields = fs\<rparr>"
    using sort(1) key assms by (auto simp: claim_ok_def meta_sorted_def comp_def status_shape_def)
  show "valid_utf8 (as_bytes ty)"
    using assms by (auto simp: status_shape_def as_bytes_def byte_of_char_def in_range_def)
  show "\<forall>(k, v) \<in> set fs. length k \<le> 64 \<and> valid_utf8 (as_bytes k) \<and> utf8_meta v"
    using key assms by (fastforce simp: status_shape_def)
  show "distinct (map (\<lambda>k. encode_canonical (CText k)) (''type'' # map fst fs))" by (rule sort(2))
qed

lemma status_built:
  assumes law: "b64_law b64" "ed25519_law e" and seed: "length (ek_seed k) = 32" and al: "al_ed25519 al"
    and key: "utf8_text (key_ref b64 e k)" and subject: "utf8_text s" and shape: "status_shape ty fs"
  shows "\<exists>ca. attest b64 h e (status_content b64 e k s ty fs at) k default_limits = Inr ca
    \<and> verify_status_object b64 h e (ca_sign1 ca) (key_ref b64 e k) al default_limits = Inr (ca_content ca)
    \<and> ca_content ca = status_content b64 e k s ty fs at"
proof -
  let ?c = "status_content b64 e k s ty fs at"
  note keys = status_keys [OF shape]
  have ok: "attestation_ok ?c"
    using keys(1) key subject by (simp add: attestation_ok_def status_content_def utf8_text_def ref_ok_def)
  have "wf_value default_limits 0 (attestation_to_cbor ?c)"
    using ok claim_wf [of 1 "att_claim ?c"] keys key subject by (intro attestation_wf) (simp_all add: status_content_def)
  then have canon: "canon_form default_limits 0 (sort_maps (attestation_to_cbor ?c))" by (rule canon_form_sort_maps)
  have size: "length (encode_canonical (attestation_to_cbor ?c)) \<le> 20000"
    using length_encode_attestation [OF ok] keys(4) by (fastforce simp: status_content_def)
  then obtain ca where ca: "attest b64 h e ?c k default_limits = Inr ca"
    using ok canon unfolding attest_Inr by (auto simp: status_content_def default_limits_def)
  have "sign1_fits default_limits (ca_canonical ca)"
    using ca size by (auto simp: attest_Inr sign1_fits_def default_limits_def)
  with attest_verifies [OF law seed al ca] have "verify_attestation b64 h e (ca_sign1 ca) (key_ref b64 e k) al default_limits = Inr (?c, ca_id ca)" .
  moreover have "is_status (claim_kind_of ?c)"
    using shape by (auto simp: status_shape_def claim_kind_of_def status_content_def)
  ultimately show ?thesis using ca by (auto simp: verify_status_object_def attest_Inr)
qed


lemma status_effects:
  "r \<in> set [[], [(''reason'', MText x)]] \<Longrightarrow> t \<noteq> [] \<Longrightarrow>
     revocation_target (status_content b64 e k t ''revoke'' (r @ [(''target'', MText t)]) at) =
       (if starts_with t ''att:v1:'' then Inr t else Inl SchemaViolation)"
  "r \<in> set [[], [(''reason'', MText x)]] \<Longrightarrow> t \<noteq> [] \<Longrightarrow>
     withdrawal_target (status_content b64 e k t ''withdraw'' (r @ [(''target'', MText t)]) at) =
       (if list_ex (starts_with t) [''evt:v'', ''att:v'', ''evd:v'', ''rel:v'', ''prf:v''] then Inr t else Inl SchemaViolation)"
  "r \<in> set [[], [(''reason'', MText x)]] \<Longrightarrow> t \<noteq> [] \<Longrightarrow>
     compromise_mark (status_content b64 e k t ''compromise'' (r @ [(''target'', MText t), (''at_time'', MUint n)]) at) =
       (if list_ex (starts_with t) [''key:'', ''att:v'', ''evt:v'', ''evd:v'', ''rel:v'', ''did:''] then Inr (t, n)
        else Inl SchemaViolation)"
  "t \<noteq> [] \<Longrightarrow> u \<noteq> [] \<Longrightarrow> t \<noteq> u \<Longrightarrow>
     supersession_pair (status_content b64 e k t ''supersede'' [(''new'', MText u), (''old'', MText t)] at) =
       (if starts_with t ''att:v1:'' \<and> starts_with u ''att:v1:'' then Inr (t, u) else Inl SchemaViolation)"
  by (auto simp: revocation_target_def withdrawal_target_def compromise_mark_def supersession_pair_def status_content_def
      claim_kind_of_def claim_text_def starts_with_iff)

definition reason_ok :: "string option \<Rightarrow> bool" where
  "reason_ok r \<longleftrightarrow> r = None \<or> (\<exists>x. r = Some x \<and> utf8_text x)"

lemma reason_fields_ok:
  assumes "reason_ok reason"
  obtains r x where "reason_fields reason = Inr r" "r \<in> set [[], [(''reason'', MText x)]]" "r \<noteq> [] \<Longrightarrow> utf8_text x"
  using assms by (cases reason) (auto simp: reason_ok_def reason_fields_def utf8_text_def text_ok_def)

section \<open>Properties\<close>

lemma sample_key_ref: "utf8_text (key_ref plain_b64 plain_sig sample_key)"
proof -
  have "valid_utf8 (replicate n 9)" for n by (induction n) (simp_all add: in_range_def)
  then show ?thesis
    by (simp add: utf8_text_def text_ok_def key_ref_def plain_b64_def pubkey_bytes_def plain_sig_def sample_key_def
        Ed25519Key_from_seed_def as_bytes_def str_of_bytes_def byte_of_char_def char_of_byte_def in_range_def)
qed

lemma strict_ed25519: "al_ed25519 AllowedAlgs_strict"
  by (simp add: AllowedAlgs_strict_def AllowedAlgs_default_def)

text \<open>
  C12. Attestations are authenticated as a whole: verification returns a content and an id exactly
  when the signature verifies for the expected issuer over the canonical encoding of that
  content, the content is admissible and names that issuer, and the id is the content's own.
  A status object is accepted on the same terms if its claim is one of the four status kinds.
\<close>

theorem verify_attestation_accepts_iff:
  assumes "b64_law b64"
  shows "(verify_attestation b64 h e bs issuer al l = Inr (c, i) \<longleftrightarrow>
      (\<exists>p. verify_sign1 b64 e bs issuer al l = Inr p \<and> ps_payload p = encode_canonical (attestation_to_cbor c))
      \<and> attestation_ok c \<and> att_issuer c = issuer \<and> i = attestation_member_id b64 h c
      \<and> canon_form l 0 (sort_maps (attestation_to_cbor c))
      \<and> length (encode_canonical (attestation_to_cbor c)) \<le> max_proof_size l)
    \<and> (verify_status_object b64 h e bs issuer al l = Inr c \<longleftrightarrow>
      (\<exists>i. verify_attestation b64 h e bs issuer al l = Inr (c, i)) \<and> is_status (claim_kind_of c))"
  by (auto simp: verify_attestation_Inr assms verify_status_object_def bindR_Inr_iff)

theorem verify_attestation_accepts_iff_witness:
  "\<exists>c bs. verify_status_object plain_b64 zero_hash plain_sig bs (key_ref plain_b64 plain_sig sample_key)
       AllowedAlgs_strict default_limits = Inr c
     \<and> att_issuer c = key_ref plain_b64 plain_sig sample_key"
proof -
  have "utf8_text ''att:v1:x''" "status_shape ''revoke'' [(''target'', MText ''att:v1:x'')]"
    by (simp_all add: utf8_text_def text_ok_def status_shape_def as_bytes_def byte_of_char_def in_range_def)
  from status_built [OF engine_laws(1) plain_sig_law sample_key_seed strict_ed25519 sample_key_ref this, of zero_hash 0]
  obtain ca :: created_attestation where "verify_status_object plain_b64 zero_hash plain_sig (ca_sign1 ca)
      (key_ref plain_b64 plain_sig sample_key) AllowedAlgs_strict default_limits = Inr (ca_content ca)"
    by blast
  then show ?thesis using verify_attestation_accepts_iff [OF engine_laws(1)] by metis
qed

text \<open>
  The status builders always succeed on non-empty UTF-8 text of at most 1024 bytes under the
  default limits; what they return passes the status verifier for the signing key, and the
  verified claim has exactly the requested effect. A target outside the prefixes a
  kind may name gives a signed object without effect.
\<close>

theorem status_builders_effective:
  assumes "b64_law b64" "ed25519_law e" "length (ek_seed k) = 32" "al_ed25519 al" "utf8_text (key_ref b64 e k)"
    and "utf8_text t" "utf8_text u" "t \<noteq> u" "reason_ok reason"
  shows "(\<exists>ca. revoke_attestation b64 h e t reason k at default_limits = Inr ca
      \<and> verify_status_object b64 h e (ca_sign1 ca) (key_ref b64 e k) al default_limits = Inr (ca_content ca)
      \<and> revocation_target (ca_content ca) = (if starts_with t ''att:v1:'' then Inr t else Inl SchemaViolation))
    \<and> (\<exists>ca. withdraw_attestation b64 h e t reason k at default_limits = Inr ca
      \<and> verify_status_object b64 h e (ca_sign1 ca) (key_ref b64 e k) al default_limits = Inr (ca_content ca)
      \<and> withdrawal_target (ca_content ca) =
          (if list_ex (starts_with t) [''evt:v'', ''att:v'', ''evd:v'', ''rel:v'', ''prf:v''] then Inr t else Inl SchemaViolation))
    \<and> (\<exists>ca. compromise_attestation b64 h e t n reason k at default_limits = Inr ca
      \<and> verify_status_object b64 h e (ca_sign1 ca) (key_ref b64 e k) al default_limits = Inr (ca_content ca)
      \<and> compromise_mark (ca_content ca) =
          (if list_ex (starts_with t) [''key:'', ''att:v'', ''evt:v'', ''evd:v'', ''rel:v'', ''did:''] then Inr (t, n)
           else Inl SchemaViolation))
    \<and> (\<exists>ca. supersede_attestation b64 h e t u k at default_limits = Inr ca
      \<and> verify_status_object b64 h e (ca_sign1 ca) (key_ref b64 e k) al default_limits = Inr (ca_content ca)
      \<and> supersession_pair (ca_content ca) =
          (if starts_with t ''att:v1:'' \<and> starts_with u ''att:v1:'' then Inr (t, u) else Inl SchemaViolation))"
proof -
  obtain r x where r: "reason_fields reason = Inr r" "r \<in> set [[], [(''reason'', MText x)]]" "r \<noteq> [] \<Longrightarrow> utf8_text x"
    using reason_fields_ok [OF assms(9)] by blast
  have ne: "t \<noteq> []" "u \<noteq> []" using assms(6,7) by (auto simp: utf8_text_def text_ok_def)
  have okt: "meta_value_ok (MText y) \<and> utf8_meta (MText y)" if "utf8_text y" for y
    using that by (simp add: utf8_text_def text_ok_def)
  have shape: "status_shape ''revoke'' (r @ [(''target'', MText t)])" "status_shape ''withdraw'' (r @ [(''target'', MText t)])"
    "status_shape ''compromise'' (r @ [(''target'', MText t), (''at_time'', MUint n)])"
    "status_shape ''supersede'' [(''new'', MText u), (''old'', MText t)]"
    using r(2,3) okt assms(6,7) by (auto simp: status_shape_def)
  note built = status_built [OF assms(1-5) assms(6)]
  show ?thesis
    using built [OF shape(1), of h at] built [OF shape(2), of h at] built [OF shape(3), of h at] built [OF shape(4), of h at]
      status_effects(1-3) [OF r(2) ne(1)] status_effects(4) [OF ne assms(8)] ne assms(8) r(1)
    unfolding revoke_attestation_def withdraw_attestation_def compromise_attestation_def supersede_attestation_def
    by (elim exE conjE, intro conjI) fastforce+
qed


theorem status_builders_effective_witness:
  "\<exists>ca. revoke_attestation plain_b64 zero_hash plain_sig ''att:v1:x'' (Some ''lost'') sample_key 7 default_limits = Inr ca
     \<and> revocation_target (ca_content ca) = Inr ''att:v1:x''"
proof -
  have "utf8_text ''att:v1:x''" "utf8_text ''att:v1:y''" "reason_ok (Some ''lost'')"
    by (simp_all add: utf8_text_def text_ok_def reason_ok_def as_bytes_def byte_of_char_def in_range_def)
  then show ?thesis
    using status_builders_effective [OF engine_laws(1) plain_sig_law sample_key_seed strict_ed25519 sample_key_ref,
        of "''att:v1:x''" "''att:v1:y''" "Some ''lost''" zero_hash 7 0]
    by (auto simp: starts_with_def)
qed

lemma attestation_limits:
  assumes "canon_form l 0 (sort_maps (attestation_to_cbor a))"
  shows "1 \<le> max_depth l \<and> 2 \<le> max_map_entries l"
proof -
  obtain m where m: "sort_maps (attestation_to_cbor a) = CMap m" "length m = 7"
    by (simp add: attestation_to_cbor_def sort_maps_CMap)
  then obtain k v m' where "m = (k, v) # m'" by (cases m) auto
  then show ?thesis using assms m canon_form_depth [of l "Suc 0" k] by simp
qed

text \<open>
  C13. An attestation that \<^verbatim>\<open>attest\<close> signs verifies again, as the same content and id, exactly when
  its canonical encoding fits the field size limit; with claim keys of at most 64 bytes it is
  never longer than 20000 bytes. Claim keys have no bound of their own, so longer
  encodings exist: they are signed, and no verifier with the same limits accepts them.
\<close>

theorem attest_verifies_iff_fits:
  assumes "b64_law b64" "ed25519_law e" "length (ek_seed k) = 32" "al_ed25519 al"
    and "attest b64 h e c k l = Inr ca"
    and "4 \<le> max_array_items l" "64 \<le> max_sig_size l" "77 \<le> max_field_size l"
    and "length (ca_canonical ca) + 200 \<le> max_proof_size l" "max_proof_size l < 2 ^ 64"
  shows "(verify_attestation b64 h e (ca_sign1 ca) (key_ref b64 e k) al l = Inr (c, ca_id ca) \<longleftrightarrow>
      length (ca_canonical ca) \<le> max_field_size l)
    \<and> ((\<forall>(key, v) \<in> set (claim_fields (att_claim c)). length key \<le> 64) \<longrightarrow> length (ca_canonical ca) \<le> 20000)"
proof -
  have c: "attestation_ok c" "ca_canonical ca = encode_canonical (attestation_to_cbor c)"
      "canon_form l 0 (sort_maps (attestation_to_cbor c))"
    using assms(5) by (auto simp: attest_Inr)
  have "length (ca_canonical ca) \<le> max_field_size l"
    if "verify_attestation b64 h e (ca_sign1 ca) (key_ref b64 e k) al l = Inr (c, ca_id ca)"
    using that c(2) unfolding verify_attestation_Inr [OF assms(1)] verify_sign1_def verify_sign1_iff [OF assms(1)] parse_sign1_iff
    by (auto simp: sign1_ok_def sign1_value_def)
  moreover have "verify_attestation b64 h e (ca_sign1 ca) (key_ref b64 e k) al l = Inr (c, ca_id ca)"
    if "length (ca_canonical ca) \<le> max_field_size l"
    using attestation_limits [OF c(3)] that assms(6-10) by (intro attest_verifies [OF assms(1-5)]) (simp add: sign1_fits_def)
  ultimately show ?thesis using length_encode_attestation [OF c(1)] c(2) by auto
qed

theorem attest_verifies_iff_fits_witness:
  "\<exists>c ca. attest plain_b64 zero_hash plain_sig c sample_key default_limits = Inr ca
     \<and> verify_attestation plain_b64 zero_hash plain_sig (ca_sign1 ca) (key_ref plain_b64 plain_sig sample_key)
         AllowedAlgs_strict default_limits = Inr (c, ca_id ca)"
proof -
  have "utf8_text ''att:v1:x''" "status_shape ''revoke'' [(''target'', MText ''att:v1:x'')]"
    by (simp_all add: utf8_text_def text_ok_def status_shape_def as_bytes_def byte_of_char_def in_range_def)
  from status_built [OF engine_laws(1) plain_sig_law sample_key_seed strict_ed25519 sample_key_ref this, of zero_hash 0]
  obtain ca :: created_attestation where
    ca: "attest plain_b64 zero_hash plain_sig (status_content plain_b64 plain_sig sample_key ''att:v1:x'' ''revoke''
      [(''target'', MText ''att:v1:x'')] 0) sample_key default_limits = Inr ca" by blast
  let ?c = "status_content plain_b64 plain_sig sample_key ''att:v1:x'' ''revoke'' [(''target'', MText ''att:v1:x'')] 0"
  have size: "length (ca_canonical ca) \<le> 20000"
    using length_encode_attestation [of ?c] ca by (auto simp: attest_Inr status_content_def)
  note iff = attest_verifies_iff_fits [OF engine_laws(1) plain_sig_law sample_key_seed strict_ed25519 ca, THEN conjunct1]
  have "verify_attestation plain_b64 zero_hash plain_sig (ca_sign1 ca) (key_ref plain_b64 plain_sig sample_key)
         AllowedAlgs_strict default_limits = Inr (?c, ca_id ca)"
    by (subst iff) (use size in \<open>simp_all add: default_limits_def\<close>)
  with ca show ?thesis by blast
qed

text \<open>Whose signature an envelope must carry, and under which algorithms.\<close>

definition envelope_signer :: "string option \<Rightarrow> allowed_algs option \<Rightarrow> attestation_content \<Rightarrow> string" where
  "envelope_signer expected allowed a = (case (expected, allowed) of (Some issuer, Some al) \<Rightarrow> issuer | _ \<Rightarrow> att_issuer a)"

definition envelope_algs :: "allowed_algs option \<Rightarrow> allowed_algs" where
  "envelope_algs allowed = (case allowed of Some al \<Rightarrow> al | None \<Rightarrow> AllowedAlgs_strict)"

lemma envelope_signature_iff:
  assumes "b64_law b64" "attestation_ok a" "canon_form l 0 (sort_maps (attestation_to_cbor a))" "length bs \<le> max_proof_size l"
    and "encode_canonical (attestation_to_cbor a) = bs"
  shows "verify_envelope_signature b64 e bs s l expected allowed = Inr () \<longleftrightarrow>
    (\<exists>sig p. b64_decode b64 s = Some sig \<and> verify_sign1 b64 e sig (envelope_signer expected allowed a) (envelope_algs allowed) l = Inr p)"
proof -
  have read: "bindR (decode_and_check_canonical bs l) (\<lambda>value. bindR (cbor_to_attestation value l) f) = f a" for f :: "attestation_content \<Rightarrow> unit result"
  proof -
    have "bindR (decode_and_check_canonical bs l) (\<lambda>value. cbor_to_attestation value l) = Inr a"
      unfolding decode_check_eq attestation_schema.read_iff using assms(2-5) by blast
    then show ?thesis by (metis bindR_assoc bindR.simps(2))
  qed
  have parse: "verify_sign1 b64 e sig issuer al l = Inr p \<Longrightarrow> parse_sign1 sig l = Inr p" for sig issuer al p
    by (simp add: verify_sign1_def verify_sign1_iff assms(1))
  have masked: "(case x of Inl _ \<Rightarrow> Inl SignatureInvalid | Inr _ \<Rightarrow> Inr ()) = Inr () \<longleftrightarrow> (\<exists>p. x = Inr p)" for x :: "parsed_sign1 result"
    by (cases x) auto
  have unit: "bindR x (\<lambda>_. Inr ()) = Inr () \<longleftrightarrow> (\<exists>p. x = Inr p)" for x :: "parsed_sign1 result" by (cases x) auto
  show ?thesis
    unfolding verify_envelope_signature_def read Let_def envelope_signer_def envelope_algs_def
    by (cases expected; cases allowed; simp add: bindR_Inr_iff ok_or_Inr_iff masked unit) (use parse in blast)+
qed

text \<open>
  C14. A transport envelope of an attestation or status object is accepted exactly when its
  container version is 1, its bytes are the canonical encoding of an admissible attestation
  whose own id it carries, and the signature it carries, if any, verifies. An envelope without a signature is accepted. The signer is
  the expected issuer if the caller gives both an issuer and the algorithms, and otherwise the issuer that the attestation itself
  names, so an expected issuer alone is ignored; the algorithms are the given ones, or the strict set. The payload of the
  signature is not compared with the bytes: the witness is an envelope accepted with the issuer's signature over other bytes.
\<close>

theorem attestation_envelope_accepts_iff:
  assumes "b64_law b64" "env_kind env = AAttestation \<or> env_kind env = AStatus"
  shows "verify_envelope b64 h hx e env l expected allowed = Inr bs \<longleftrightarrow>
    env_container_version env = 1 \<and> cbor_bytes hx env l = Inr bs
    \<and> (\<exists>a. attestation_ok a \<and> canon_form l 0 (sort_maps (attestation_to_cbor a))
        \<and> encode_canonical (attestation_to_cbor a) = bs \<and> env_id env = attestation_member_id b64 h a
        \<and> (case env_sign1_b64u env of None \<Rightarrow> True
           | Some s \<Rightarrow> \<exists>sig p. b64_decode b64 s = Some sig
               \<and> verify_sign1 b64 e sig (envelope_signer expected allowed a) (envelope_algs allowed) l = Inr p))"
proof -
  have id: "bindR (decode_and_check_canonical bs l) (\<lambda>value. bindR (envelope_id b64 h (env_kind env) value l) f) = Inr y \<longleftrightarrow>
      (\<exists>a. attestation_ok a \<and> canon_form l 0 (sort_maps (attestation_to_cbor a)) \<and> length bs \<le> max_proof_size l
     \<and> encode_canonical (attestation_to_cbor a) = bs \<and> f (attestation_member_id b64 h a) = Inr y)" for bs f y
    using assms(2) by (auto simp: envelope_id_def bindR_assoc read_attestation_Inr attestation_member_id_def)
  have bound: "cbor_bytes hx env l = Inr b \<Longrightarrow> length b \<le> max_proof_size l" for b by (simp add: cbor_bytes_Inr)
  have kind: "(if env_kind env = AAttestation \<or> env_kind env = AStatus then x else y) = x" for x y :: "bytes result"
    using assms(2) by simp
  have checked: "(case env_sign1_b64u env of Some s \<Rightarrow> bindR (verify_envelope_signature b64 e b s l expected allowed) (\<lambda>_. Inr b) | None \<Rightarrow> Inr b) = Inr bs \<longleftrightarrow>
      b = bs \<and> (case env_sign1_b64u env of None \<Rightarrow> True
           | Some s \<Rightarrow> \<exists>sig p. b64_decode b64 s = Some sig
               \<and> verify_sign1 b64 e sig (envelope_signer expected allowed a) (envelope_algs allowed) l = Inr p)"
    if "attestation_ok a" "canon_form l 0 (sort_maps (attestation_to_cbor a))" "length b \<le> max_proof_size l" "encode_canonical (attestation_to_cbor a) = b" for a b
    using envelope_signature_iff [OF assms(1) that] by (auto simp: bindR_Inr_iff split: option.splits)
  show ?thesis
    unfolding verify_envelope_def if_Inl_Inr_iff bindR_Inr_iff [of "cbor_bytes hx env l"] id kind CONTAINER_VERSION_def
    using bound checked by (auto simp: if_Inl_Inr_iff)
qed

theorem attestation_envelope_accepts_iff_witness:
  "\<exists>a bs. bs = encode_canonical (attestation_to_cbor a) \<and> bs \<noteq> [5]
     \<and> verify_envelope plain_b64 zero_hash plain_hex plain_sig
        (ArtifactEnvelope_new plain_hex AAttestation (attestation_member_id plain_b64 zero_hash a) bs
          (Some (b64_encode plain_b64 (sign_ed25519 plain_sig [5] sample_key)))) default_limits None None = Inr bs"
proof -
  let ?a = "status_content plain_b64 plain_sig sample_key ''att:v1:x'' ''revoke'' [(''target'', MText ''att:v1:x'')] 0"
  let ?bs = "encode_canonical (attestation_to_cbor ?a)"
  have "utf8_text ''att:v1:x''" "status_shape ''revoke'' [(''target'', MText ''att:v1:x'')]"
    by (simp_all add: utf8_text_def text_ok_def status_shape_def as_bytes_def byte_of_char_def in_range_def)
  from status_built [OF engine_laws(1) plain_sig_law sample_key_seed strict_ed25519 sample_key_ref this, of zero_hash 0]
  have a: "attestation_ok ?a" "canon_form default_limits 0 (sort_maps (attestation_to_cbor ?a))"
      "length ?bs \<le> max_proof_size default_limits"
    by (auto simp: attest_Inr)
  have sig: "\<exists>p. verify_sign1 plain_b64 plain_sig (sign_ed25519 plain_sig [5] sample_key) (att_issuer ?a)
      AllowedAlgs_strict default_limits = Inr p"
    using sign_ed25519_verifies [OF engine_laws(1) plain_sig_law sample_key_seed strict_ed25519, of default_limits "[5]" EXTERNAL_AAD]
    by (auto simp: status_content_def verify_sign1_def sign_ed25519_def sign1_fits_def default_limits_def EXTERNAL_AAD_def)
  have "?bs \<noteq> []" "?bs \<noteq> [5]" using a(2) by (simp_all add: encode_canonical_def attestation_to_cbor_def encode_head_def)
  moreover have "cbor_bytes plain_hex (ArtifactEnvelope_new plain_hex AAttestation (attestation_member_id plain_b64 zero_hash ?a) ?bs
      (Some (b64_encode plain_b64 (sign_ed25519 plain_sig [5] sample_key)))) default_limits = Inr ?bs"
    using plain_hex_law a(3) calculation(1) by (simp add: cbor_bytes_Inr ArtifactEnvelope_new_def hex_law_def trim_hex)
  ultimately have "verify_envelope plain_b64 zero_hash plain_hex plain_sig
        (ArtifactEnvelope_new plain_hex AAttestation (attestation_member_id plain_b64 zero_hash ?a) ?bs
          (Some (b64_encode plain_b64 (sign_ed25519 plain_sig [5] sample_key)))) default_limits None None = Inr ?bs"
    using a sig by (subst attestation_envelope_accepts_iff [OF engine_laws(1)])
      (auto simp: ArtifactEnvelope_new_def CONTAINER_VERSION_def plain_b64_def envelope_signer_def envelope_algs_def intro!: exI [of _ ?a])
  then show ?thesis using \<open>?bs \<noteq> [5]\<close> by blast
qed

end
