(* ===== verification/Pipeline.thy ===== *)
theory Pipeline
  imports Build "HOL-Library.Product_Lexorder"
begin

text \<open>
  The staged verifier, \<^verbatim>\<open>proof-verify/src/pipeline.rs\<close>, its context \<^verbatim>\<open>context.rs\<close> and status
  sources \<^verbatim>\<open>status.rs\<close>. Each stage of \<^verbatim>\<open>verify_proof\<close> is one definition that returns the check
  records it appends, in the order of the source, and what it hands to later stages; the
  composition appends them in stage order. Message texts are not kept. The outer \<open>option\<close> is
  \<open>None\<close> only if the graph stage would panic.
\<close>

section \<open>Context\<close>

record vocabulary_accept =
  va_ns :: string
  va_max_version :: u64

record verify_ctx =
  ctx_verified_at :: u64
  ctx_clock_skew_leeway :: u64
  ctx_trusted_issuers :: "string list"
  ctx_allow_remote :: bool
  ctx_allowed_algs :: allowed_algs
  ctx_limits :: limits
  ctx_status_objects :: "signed_status list"
  ctx_revocation_authorities :: "string list"
  ctx_revocations_known_at :: "u64 option"
  ctx_report_all_failures :: bool
  ctx_accepted_vocabularies :: "vocabulary_accept list"
  ctx_extra_grounded :: "string list"
  ctx_require_acyclic_provenance :: bool
  ctx_require_status_feed :: bool

definition VerifyCtx_default :: verify_ctx where
  "VerifyCtx_default = \<lparr>ctx_verified_at = 0, ctx_clock_skew_leeway = 300, ctx_trusted_issuers = [],
     ctx_allow_remote = False, ctx_allowed_algs = AllowedAlgs_strict, ctx_limits = default_limits,
     ctx_status_objects = [], ctx_revocation_authorities = [], ctx_revocations_known_at = None,
     ctx_report_all_failures = False, ctx_accepted_vocabularies = [], ctx_extra_grounded = [],
     ctx_require_acyclic_provenance = False, ctx_require_status_feed = True\<rparr>"

text \<open>The trait \<^verbatim>\<open>StatusSource\<close> as a record of its two methods, and the in-memory source.\<close>

record status_source =
  src_status_at :: "u64 \<Rightarrow> signed_status list result"
  src_known_at :: "u64 option"

definition VecStatusSource_new :: "signed_status list \<Rightarrow> u64 option \<Rightarrow> status_source" where
  "VecStatusSource_new objects known_at = \<lparr>src_status_at = (\<lambda>as_of. Inr objects), src_known_at = known_at\<rparr>"

definition ctx_with_status_source :: "verify_ctx \<Rightarrow> status_source \<Rightarrow> verify_ctx result" where
  "ctx_with_status_source ctx src =
     bindR (src_status_at src (ctx_verified_at ctx)) (\<lambda>objects.
     let ctx1 = ctx\<lparr>ctx_status_objects := objects\<rparr>
     in Inr (if ctx_revocations_known_at ctx1 = None
             then ctx1\<lparr>ctx_revocations_known_at := src_known_at src\<rparr> else ctx1))"

text \<open>\<^verbatim>\<open>VerificationContext\<close> has the same fields in another order.\<close>

record verification_context =
  vc_verified_at :: u64
  vc_clock_skew_leeway :: u64
  vc_allowed_algs :: allowed_algs
  vc_trusted_issuers :: "string list"
  vc_revocation_authorities :: "string list"
  vc_status_objects :: "signed_status list"
  vc_revocations_known_at :: "u64 option"
  vc_limits :: limits
  vc_allow_remote :: bool
  vc_report_all_failures :: bool
  vc_accepted_vocabularies :: "vocabulary_accept list"
  vc_extra_grounded :: "string list"
  vc_require_acyclic_provenance :: bool
  vc_require_status_feed :: bool

definition VerificationContext_default :: verification_context where
  "VerificationContext_default = \<lparr>vc_verified_at = 0, vc_clock_skew_leeway = 300, vc_allowed_algs = AllowedAlgs_strict,
     vc_trusted_issuers = [], vc_revocation_authorities = [], vc_status_objects = [], vc_revocations_known_at = None,
     vc_limits = default_limits, vc_allow_remote = False, vc_report_all_failures = False,
     vc_accepted_vocabularies = [], vc_extra_grounded = [], vc_require_acyclic_provenance = False,
     vc_require_status_feed = True\<rparr>"

definition to_verify_ctx :: "verification_context \<Rightarrow> verify_ctx" where
  "to_verify_ctx c = \<lparr>ctx_verified_at = vc_verified_at c, ctx_clock_skew_leeway = vc_clock_skew_leeway c,
     ctx_trusted_issuers = vc_trusted_issuers c, ctx_allow_remote = vc_allow_remote c,
     ctx_allowed_algs = vc_allowed_algs c, ctx_limits = vc_limits c, ctx_status_objects = vc_status_objects c,
     ctx_revocation_authorities = vc_revocation_authorities c, ctx_revocations_known_at = vc_revocations_known_at c,
     ctx_report_all_failures = vc_report_all_failures c, ctx_accepted_vocabularies = vc_accepted_vocabularies c,
     ctx_extra_grounded = vc_extra_grounded c, ctx_require_acyclic_provenance = vc_require_acyclic_provenance c,
     ctx_require_status_feed = vc_require_status_feed c\<rparr>"

definition vc_with_status_source :: "verification_context \<Rightarrow> status_source \<Rightarrow> verification_context result" where
  "vc_with_status_source c src =
     bindR (src_status_at src (vc_verified_at c)) (\<lambda>objects.
     let c1 = c\<lparr>vc_status_objects := objects\<rparr>
     in Inr (if vc_revocations_known_at c1 = None
             then c1\<lparr>vc_revocations_known_at := src_known_at src\<rparr> else c1))"

section \<open>The report\<close>

definition CRYPTO_STAGES :: "string list" where
  "CRYPTO_STAGES = [''PARSE'', ''SCHEMA'', ''CANONICAL'', ''IDENTIFIERS'', ''SIGNATURES'', ''KEYS'']"

definition EVIDENCE_STAGES :: "string list" where
  "EVIDENCE_STAGES = [''TIME'', ''REVOCATION'', ''EVIDENCE'', ''RELATIONSHIPS'', ''GRAPH'']"

definition STATUS_STAGE :: string where "STATUS_STAGE = ''STATUS''"

definition stage_valid :: "check_record list \<Rightarrow> string list \<Rightarrow> validity" where
  "stage_valid checks stages =
     (let bad = list_ex (\<lambda>c. \<not> chk_ok c \<and> chk_stage c \<in> set stages) checks
      in if bad then Invalid else Valid)"

definition policy_note :: check_record where
  "policy_note = check_note ''POLICY'' ''policy:caller''"

definition finalize ::
  "string option \<Rightarrow> check_record list \<Rightarrow> check_record option \<Rightarrow> lifecycle_record list \<Rightarrow> string list \<Rightarrow> string list \<Rightarrow>
   string list \<Rightarrow> vocabulary_decl list \<Rightarrow> evidence_status_record list \<Rightarrow> conflict_record list \<Rightarrow> bool \<Rightarrow> verify_report" where
  "finalize pid checks note_extra lifecycle status_objects withdrawn_ids referenced_proofs vocabularies
     evidence_status conflicts lifecycle_checked =
     (let checks = checks @ (case note_extra of Some n \<Rightarrow> [n] | None \<Rightarrow> [])
      in \<lparr>rep_proof_id = pid,
          rep_cryptographic_validity = stage_valid checks CRYPTO_STAGES,
          rep_evidence_validity = (if lifecycle_checked then stage_valid checks EVIDENCE_STAGES else Invalid),
          rep_policy_decision = Indeterminate,
          rep_lifecycle_checked = lifecycle_checked,
          rep_lifecycle = lifecycle,
          rep_status_objects = status_objects,
          rep_withdrawn_ids = withdrawn_ids,
          rep_referenced_proofs = referenced_proofs,
          rep_vocabularies = vocabularies,
          rep_evidence_status = evidence_status,
          rep_conflicts = conflicts,
          rep_checks = checks,
          rep_status_inputs_valid = (\<not> list_ex (\<lambda>c. \<not> chk_ok c \<and> chk_stage c = STATUS_STAGE) checks)\<rparr>)"

text \<open>The report of an early exit: no stage after CANONICAL ran.\<close>

definition early_report :: "string option \<Rightarrow> check_record list \<Rightarrow> verify_report" where
  "early_report pid checks = finalize pid checks (Some policy_note) [] [] [] [] [] [] [] False"

section \<open>Time and identifiers\<close>

definition time_validity :: "attestation_content \<Rightarrow> verify_ctx \<Rightarrow> bool" where
  "time_validity content ctx =
     (let now = ctx_verified_at ctx; skew = ctx_clock_skew_leeway ctx
      in if now = 0 then False
         else if att_issued_at content > sat_add now skew then False
         else case att_expires_at content of
                Some exp \<Rightarrow> \<not> now > sat_add exp skew
              | None \<Rightarrow> True)"

definition pipeline_event_id :: "base64_engine \<Rightarrow> hash_engine \<Rightarrow> event_content \<Rightarrow> string result" where
  "pipeline_event_id b64 h ev =
     (case event_to_cbor ev of
        Inl _ \<Rightarrow> Inl SchemaViolation
      | Inr v \<Rightarrow> Inr (event_id b64 h (encode_canonical v)))"

definition recomputed_proof_id :: "base64_engine \<Rightarrow> hash_engine \<Rightarrow> proof_package \<Rightarrow> string result" where
  "recomputed_proof_id b64 h p =
     bindR (mapR (pipeline_event_id b64 h) (prf_events p)) (\<lambda>event_ids.
     let att_ids = map (\<lambda>a. attestation_id b64 h (encode_canonical (attestation_to_cbor (sa_content a)))) (prf_attestations p);
         evd_ids = map (\<lambda>x. evidence_id b64 h (encode_canonical (evidence_to_cbor x))) (prf_evidence p);
         rel_ids = map (\<lambda>r. relationship_id b64 h (encode_canonical (relationship_to_cbor r))) (prf_relationships p)
     in Inr (proof_id_full b64 h (proposition_to_cbor (prf_proposition p)) (prf_created_at p) event_ids att_ids evd_ids rel_ids
               (prf_referenced_proofs p) (vocabulary_pairs p)))"

section \<open>Vocabulary notes\<close>

definition used_namespaces :: "proof_package \<Rightarrow> string list" where
  "used_namespaces p = sort (remdups (
     map (\<lambda>x. vocabulary_ns (ev_type x)) (prf_events p)
     @ map (\<lambda>a. vocabulary_ns (claim_type (att_claim (sa_content a)))) (prf_attestations p)
     @ map (\<lambda>x. vocabulary_ns (evd_kind x)) (prf_evidence p)
     @ map (\<lambda>r. vocabulary_ns (rel_ty r)) (prf_relationships p)
     @ [vocabulary_ns (prop_kind (prf_proposition p)), vocabulary_ns (prop_predicate (prf_proposition p))]))"

definition vocabulary_notes :: "verify_ctx \<Rightarrow> proof_package \<Rightarrow> check_record list" where
  "vocabulary_notes ctx p =
     (let used = used_namespaces p;
          declared = map voc_ns (prf_vocabularies p);
          note = check_note ''SCHEMA'' (''proof:'' @ prf_id p);
          accepted = ctx_accepted_vocabularies ctx
      in (if prf_vocabularies p \<noteq> [] then map (\<lambda>ns. note) (filter (\<lambda>ns. ns \<notin> set declared) used) else [])
         @ (if accepted \<noteq> [] then
              concat (map (\<lambda>vd. case List.find (\<lambda>a. va_ns a = voc_ns vd) accepted of
                  None \<Rightarrow> [note]
                | Some acc \<Rightarrow> if voc_version vd > va_max_version acc then [note] else []) (prf_vocabularies p))
              @ map (\<lambda>ns. note) (filter (\<lambda>ns. \<not> list_ex (\<lambda>a. va_ns a = ns) accepted) used)
            else []))"

section \<open>Signatures and keys\<close>

definition error_stage :: "error_code \<Rightarrow> string" where
  "error_stage code =
     (if code \<in> set [AlgorithmConfusion, UnknownAlgorithm, DeprecatedAlgorithm, UnexpectedHeaderParam]
      then ''KEYS'' else ''SIGNATURES'')"

definition self_issuer :: "base64_engine \<Rightarrow> parsed_sign1 \<Rightarrow> string" where
  "self_issuer b64 p =
     (if ps_alg p = COSE_ED25519 then ''key:ed25519:'' @ b64u_nopad b64 (ps_kid p)
      else if ps_alg p = COSE_ESP256 then ''key:p256:'' @ b64u_nopad b64 (ps_kid p)
      else if ps_alg p = -8 \<and> length (ps_kid p) = 32 then ''key:ed25519:'' @ b64u_nopad b64 (ps_kid p)
      else if ps_alg p = -7 \<and> length (ps_kid p) = 64 then ''key:p256:'' @ b64u_nopad b64 (ps_kid p)
      else ''key:unknown:placeholder'')"

type_synonym verified_entry = "string \<times> attestation_content"

definition check_entry ::
  "base64_engine \<Rightarrow> hash_engine \<Rightarrow> sig_engine \<Rightarrow> verify_ctx \<Rightarrow> stored_attestation \<Rightarrow> string \<Rightarrow>
   check_record list \<times> verified_entry option" where
  "check_entry b64 h e ctx entry att_id =
     (let obj = ''att:'' @ att_id
      in case parse_sign1 (sa_sign1 entry) (ctx_limits ctx) of
           Inl code \<Rightarrow> ([check_fail (error_stage code) obj code], None)
         | Inr parsed \<Rightarrow>
             (case verify_attestation b64 h e (sa_sign1 entry) (self_issuer b64 parsed) (ctx_allowed_algs ctx) (ctx_limits ctx) of
                Inr (content, i) \<Rightarrow>
                  if content \<noteq> sa_content entry \<or> i \<noteq> att_id
                  then ([check_fail ''SIGNATURES'' obj SignatureInvalid], None)
                  else ([check_ok ''SIGNATURES'' obj, check_ok ''KEYS'' obj], Some (att_id, sa_content entry))
              | Inl code \<Rightarrow> ([check_fail (error_stage code) obj code], None)))"

definition signature_stage ::
  "base64_engine \<Rightarrow> hash_engine \<Rightarrow> sig_engine \<Rightarrow> verify_ctx \<Rightarrow> proof_package \<Rightarrow> string list \<Rightarrow>
   check_record list \<times> verified_entry list" where
  "signature_stage b64 h e ctx p att_ids =
     (let rs = map (\<lambda>(entry, att_id). check_entry b64 h e ctx entry att_id) (zip (prf_attestations p) att_ids)
      in (concat (map fst rs)
          @ (if prf_attestations p = [] then [check_note ''SIGNATURES'' (''proof:'' @ prf_id p)] else []),
          List.map_filter snd rs))"

section \<open>Timeliness\<close>

definition statement_entries :: "verified_entry list \<Rightarrow> verified_entry list" where
  "statement_entries verified = filter (\<lambda>(i, c). claim_kind_of c = KStatement) verified"

definition time_stage :: "verify_ctx \<Rightarrow> verified_entry list \<Rightarrow> check_record list \<times> string list" where
  "time_stage ctx verified =
     (map (\<lambda>(i, c). if time_validity c ctx then check_ok ''TIME'' (''att:'' @ i) else check_fail ''TIME'' (''att:'' @ i) Expired)
        (statement_entries verified),
      map fst (filter (\<lambda>(i, c). \<not> time_validity c ctx) (statement_entries verified)))"


section \<open>Status effects\<close>

record status_effect =
  se_target :: string
  se_kind :: claim_kind
  se_issuer :: string
  se_issued_at :: u64
  se_object :: string
  se_at_time :: "u64 option"

definition mk_effect :: "attestation_content \<Rightarrow> string \<Rightarrow> string \<Rightarrow> u64 option \<Rightarrow> status_effect" where
  "mk_effect content obj target at_time =
     \<lparr>se_target = target, se_kind = claim_kind_of content, se_issuer = att_issuer content,
      se_issued_at = att_issued_at content, se_object = obj, se_at_time = at_time\<rparr>"

text \<open>The four extractors, as both loops call them; a statement is no status claim.\<close>

definition effect_of_claim :: "attestation_content \<Rightarrow> string \<Rightarrow> status_effect result" where
  "effect_of_claim content obj =
     (case claim_kind_of content of
        KRevoke \<Rightarrow> bindR (revocation_target content) (\<lambda>t. Inr (mk_effect content obj t None))
      | KSupersede \<Rightarrow> bindR (supersession_pair content) (\<lambda>(old, new). Inr (mk_effect content obj old None))
      | KWithdraw \<Rightarrow> bindR (withdrawal_target content) (\<lambda>t. Inr (mk_effect content obj t None))
      | KCompromise \<Rightarrow> bindR (compromise_mark content) (\<lambda>(t, at_time). Inr (mk_effect content obj t (Some at_time)))
      | KStatement \<Rightarrow> Inl SchemaViolation)"

definition effect_result :: "string \<Rightarrow> status_effect result \<Rightarrow> check_record list \<times> status_effect list" where
  "effect_result obj r =
     (case r of Inr eff \<Rightarrow> ([], [eff]) | Inl code \<Rightarrow> ([check_fail STATUS_STAGE obj code], []))"

definition embedded_effect :: "verified_entry \<Rightarrow> check_record list \<times> status_effect list \<times> string list" where
  "embedded_effect = (\<lambda>(att_id, content).
     if claim_kind_of content = KStatement then ([], [], [])
     else let (cs, es) = effect_result (''att:'' @ att_id) (effect_of_claim content (''att:'' @ att_id))
          in (cs, es, [att_id]))"

definition supplied_effect ::
  "base64_engine \<Rightarrow> hash_engine \<Rightarrow> sig_engine \<Rightarrow> verify_ctx \<Rightarrow> nat \<times> signed_status \<Rightarrow> check_record list \<times> status_effect list" where
  "supplied_effect b64 h e ctx = (\<lambda>(i, status).
     let label = ''status:'' @ show_nat (i + 1)
     in effect_result label
          (bindR (verify_status_object b64 h e (ss_sign1 status) (att_issuer (ss_content status))
                    (ctx_allowed_algs ctx) (ctx_limits ctx))
             (\<lambda>content. effect_of_claim content label)))"

section \<open>Authority\<close>

text \<open>Hash maps collected from an iterator: the last entry of a key is the one found.\<close>

definition last_of :: "(string \<times> 'v) list \<Rightarrow> string \<rightharpoonup> 'v" where
  "last_of ps = map_of (rev ps)"

definition empowered :: "verify_ctx \<Rightarrow> proof_package \<Rightarrow> string list \<Rightarrow> verified_entry list \<Rightarrow> status_effect \<Rightarrow> bool" where
  "empowered ctx p evd_ids verified eff =
     (let statement_by_id = last_of (statement_entries verified);
          issuer_by_att_id = last_of (map (\<lambda>(i, c). (i, att_issuer c)) verified);
          authority = se_issuer eff \<in> set (ctx_revocation_authorities ctx)
      in case se_kind eff of
           KCompromise \<Rightarrow> se_issuer eff = se_target eff \<or> authority
         | KWithdraw \<Rightarrow>
             if authority then True
             else (case issuer_by_att_id (se_target eff) of
                     Some iss \<Rightarrow> iss = se_issuer eff
                   | None \<Rightarrow>
                       list_ex (\<lambda>(ev, eid). eid = se_target eff
                         \<and> (case evd_attestation_ref ev of
                              Some aref \<Rightarrow> issuer_by_att_id aref = Some (se_issuer eff)
                            | None \<Rightarrow> False)) (zip (prf_evidence p) evd_ids))
         | _ \<Rightarrow>
             (case statement_by_id (se_target eff) of
                Some tc \<Rightarrow> att_issuer tc = se_issuer eff \<or> authority
              | None \<Rightarrow> authority))"

definition timely :: "verify_ctx \<Rightarrow> status_effect \<Rightarrow> bool" where
  "timely ctx eff \<longleftrightarrow> ctx_verified_at ctx \<noteq> 0 \<and> se_issued_at eff \<le> ctx_verified_at ctx"

definition effect_checks ::
  "verify_ctx \<Rightarrow> proof_package \<Rightarrow> string list \<Rightarrow> verified_entry list \<Rightarrow> status_effect \<Rightarrow> check_record list" where
  "effect_checks ctx p evd_ids verified eff =
     (if \<not> empowered ctx p evd_ids verified eff then [check_fail STATUS_STAGE (se_object eff) UnauthorizedStatus] else [])
     @ (if \<not> timely ctx eff then [check_fail STATUS_STAGE (se_object eff) Expired] else [])"

definition applied_effects ::
  "verify_ctx \<Rightarrow> proof_package \<Rightarrow> string list \<Rightarrow> verified_entry list \<Rightarrow> status_effect list \<Rightarrow> status_effect list" where
  "applied_effects ctx p evd_ids verified effects =
     filter (\<lambda>eff. empowered ctx p evd_ids verified eff \<and> timely ctx eff) effects"

definition push_new :: "'a list \<Rightarrow> 'a \<Rightarrow> 'a list" where
  "push_new xs x = (if x \<in> set xs then xs else xs @ [x])"

definition withdrawn_targets :: "status_effect list \<Rightarrow> string list" where
  "withdrawn_targets applied = foldl push_new [] (map se_target (filter (\<lambda>eff. se_kind eff = KWithdraw) applied))"

definition compromises_of :: "status_effect list \<Rightarrow> (string \<times> u64) list" where
  "compromises_of applied =
     List.map_filter (\<lambda>eff. if se_kind eff = KCompromise then map_option (\<lambda>at. (se_target eff, at)) (se_at_time eff) else None)
       applied"

section \<open>Lifecycle\<close>

definition revocation_stale :: "verify_ctx \<Rightarrow> nat \<Rightarrow> bool" where
  "revocation_stale ctx total_status_inputs \<longleftrightarrow>
     ctx_revocations_known_at ctx = None
     \<or> sat_sub (ctx_verified_at ctx) (case ctx_revocations_known_at ctx of Some t \<Rightarrow> t | None \<Rightarrow> 0) > ctx_clock_skew_leeway ctx
     \<or> (ctx_require_status_feed ctx \<and> total_status_inputs = 0)"

definition lifecycle_of ::
  "status_effect list \<Rightarrow> string list \<Rightarrow> bool \<Rightarrow> verified_entry \<Rightarrow> lifecycle_status" where
  "lifecycle_of applied time_failed stale = (\<lambda>(att_id, content).
     let compromised = list_ex (\<lambda>(t, at). (t = att_issuer content \<or> t = att_id) \<and> att_issued_at content \<ge> at)
                         (compromises_of applied);
         revoked = list_ex (\<lambda>eff. se_target eff = att_id \<and> se_kind eff = KRevoke) applied;
         superseded = list_ex (\<lambda>eff. se_target eff = att_id \<and> se_kind eff = KSupersede) applied;
         expired = att_id \<in> set time_failed
     in if compromised then LCompromised
        else if revoked then LRevoked
        else if superseded then LSuperseded
        else if expired then LExpired
        else if stale then LUnknown
        else LActive)"

fun lifecycle_code :: "lifecycle_status \<Rightarrow> error_code option" where
  "lifecycle_code LActive = None"
| "lifecycle_code LRevoked = Some Revoked"
| "lifecycle_code LSuperseded = None"
| "lifecycle_code LCompromised = Some Compromised"
| "lifecycle_code LExpired = Some Expired"
| "lifecycle_code LUnknown = Some RevocationUnknown"

fun lifecycle_ok :: "lifecycle_status \<Rightarrow> bool" where
  "lifecycle_ok LActive = True"
| "lifecycle_ok LRevoked = False"
| "lifecycle_ok LSuperseded = True"
| "lifecycle_ok LCompromised = False"
| "lifecycle_ok LExpired = True"
| "lifecycle_ok LUnknown = False"

definition unwrap_code :: "error_code option \<Rightarrow> error_code" where
  "unwrap_code c = (case c of Some x \<Rightarrow> x | None \<Rightarrow> RevocationUnknown)"

definition lifecycle_stage ::
  "status_effect list \<Rightarrow> string list \<Rightarrow> bool \<Rightarrow> verified_entry list \<Rightarrow> check_record list \<times> lifecycle_record list" where
  "lifecycle_stage applied time_failed stale verified =
     (let sts = map (\<lambda>x. (''att:'' @ fst x, lifecycle_of applied time_failed stale x)) (statement_entries verified)
      in (map (\<lambda>(obj, s). if lifecycle_ok s then check_ok ''REVOCATION'' obj
                          else check_fail ''REVOCATION'' obj (unwrap_code (lifecycle_code s))) sts,
          map (\<lambda>(obj, s). \<lparr>lcr_object = obj, lcr_status = s, lcr_code = lifecycle_code s\<rparr>) sts))"

definition revocation_notes :: "verify_ctx \<Rightarrow> string \<Rightarrow> nat \<Rightarrow> check_record list" where
  "revocation_notes ctx stored_id inputs =
     (let note = check_note ''REVOCATION'' (''proof:'' @ stored_id)
      in [note]
         @ (if inputs = 0 \<and> ctx_revocations_known_at ctx \<noteq> None \<and> \<not> revocation_stale ctx inputs then [note] else [])
         @ (if ctx_require_status_feed ctx \<and> inputs = 0 then [note] else []))"

section \<open>Evidence\<close>

definition evidence_ref_checks :: "proof_package \<Rightarrow> node_set \<Rightarrow> check_record list" where
  "evidence_ref_checks p nodes =
     concat (map (\<lambda>a. case att_evidence_ref (sa_content a) of
         Some r \<Rightarrow> if \<not> ns_contains nodes r then [check_fail ''EVIDENCE'' (''proof:'' @ prf_id p) DanglingReference] else []
       | None \<Rightarrow> []) (prf_attestations p))"

definition digest_check :: "(string \<rightharpoonup> string) \<Rightarrow> verified_entry \<Rightarrow> check_record list" where
  "digest_check digests = (\<lambda>(att_id, content).
     let obj = ''att:'' @ att_id
     in case evidence_digest_hex (att_claim content) of
          None \<Rightarrow> []
        | Some (Inl _) \<Rightarrow> [check_fail ''EVIDENCE'' obj SchemaViolation]
        | Some (Inr normalized) \<Rightarrow>
            (case att_evidence_ref content of
               None \<Rightarrow> [check_fail ''EVIDENCE'' obj DanglingReference]
             | Some eref \<Rightarrow>
                 (case digests eref of
                    None \<Rightarrow> [check_fail ''EVIDENCE'' obj DanglingReference]
                  | Some actual \<Rightarrow>
                      if map lower_ascii actual \<noteq> normalized then [check_fail ''EVIDENCE'' obj IdMismatch]
                      else [check_ok ''EVIDENCE'' obj])))"

definition evidence_state ::
  "status_effect list \<Rightarrow> (string \<rightharpoonup> lifecycle_status) \<Rightarrow> evidence \<Rightarrow> string \<Rightarrow> evidence_status \<times> error_code option \<times> bool" where
  "evidence_state applied lifecycle_by_att ev eid =
     (let withdrawn = list_ex (\<lambda>eff. se_target eff = eid \<and> se_kind eff = KWithdraw) applied;
          marked = list_ex (\<lambda>(t, at). t = eid) (compromises_of applied);
          backing = Option.bind (evd_attestation_ref ev) lifecycle_by_att
      in if marked then (ECompromised, Some Compromised, False)
         else if withdrawn then (EWithdrawn, Some Withdrawn, False)
         else (case backing of
             Some LCompromised \<Rightarrow> (ECompromised, Some Compromised, False)
           | Some LRevoked \<Rightarrow> (ERevoked, Some Revoked, False)
           | Some LSuperseded \<Rightarrow> (ESuperseded, None, True)
           | Some LExpired \<Rightarrow> (EExpired, Some Expired, True)
           | Some LUnknown \<Rightarrow> (EUnknown, Some RevocationUnknown, False)
           | Some LActive \<Rightarrow> (EAvailable, None, True)
           | None \<Rightarrow> if evd_attestation_ref ev = None then (EAvailable, None, True)
                      else (EUnknown, Some RevocationUnknown, True)))"

text \<open>
  Of the message of an evidence record only what the front ends read is kept: whether it says
  \<^verbatim>\<open>provenance hint unverified\<close>, which is the message of the one UNKNOWN that does not fail.
\<close>

definition evidence_check :: "string \<Rightarrow> evidence_status \<times> error_code option \<times> bool \<Rightarrow> check_record \<times> evidence_status_record" where
  "evidence_check eid = (\<lambda>(status, code, ok).
     let obj = ''evd:'' @ eid
     in (if ok then check_ok ''EVIDENCE'' obj else check_fail ''EVIDENCE'' obj (unwrap_code code),
         \<lparr>esr_object = obj, esr_status = status, esr_code = code, esr_hint_unverified = (status = EUnknown \<and> ok)\<rparr>))"

text \<open>
  The whole stage. \<^verbatim>\<open>evidence_bad\<close> is set wherever a failed EVIDENCE record is pushed, so it
  holds exactly if one of the records is a failure.
\<close>

definition evidence_stage ::
  "proof_package \<Rightarrow> string list \<Rightarrow> node_set \<Rightarrow> verified_entry list \<Rightarrow> status_effect list \<Rightarrow> lifecycle_record list \<Rightarrow>
   check_record list \<times> evidence_status_record list" where
  "evidence_stage p evd_ids nodes verified applied lifecycle =
     (let lifecycle_by_att = last_of (List.map_filter (\<lambda>l. map_option (\<lambda>i. (i, lcr_status l)) (strip_prefix ''att:'' (lcr_object l))) lifecycle);
          digests = last_of (zip evd_ids (map (\<lambda>ev. lower_hex (hr_digest (evd_digest ev))) (prf_evidence p)));
          rs = map (\<lambda>(ev, eid). evidence_check eid (evidence_state applied lifecycle_by_att ev eid)) (zip (prf_evidence p) evd_ids);
          checks = evidence_ref_checks p nodes @ concat (map (digest_check digests) (statement_entries verified)) @ map fst rs;
          evidence_bad = list_ex (\<lambda>c. \<not> chk_ok c) checks
      in (checks @ (if \<not> evidence_bad then [check_ok ''EVIDENCE'' (''proof:'' @ prf_id p)] else []), map snd rs))"


section \<open>Graph\<close>

definition result_check :: "string \<Rightarrow> string \<Rightarrow> unit result \<Rightarrow> check_record" where
  "result_check stage obj r = (case r of Inr _ \<Rightarrow> check_ok stage obj | Inl code \<Rightarrow> check_fail stage obj code)"

definition graph_stage ::
  "(string list \<Rightarrow> string list) \<Rightarrow> verify_ctx \<Rightarrow> proof_package \<Rightarrow> string list \<Rightarrow> node_set \<Rightarrow> check_record list option" where
  "graph_stage iter ctx p rel_ids nodes =
     (let edges = map (\<lambda>(r, i). \<lparr>er_content = r, er_id = i\<rparr>) (zip (prf_relationships p) rel_ids);
          extra = (if ctx_extra_grounded ctx = [] then None else Some (ctx_extra_grounded ctx));
          obj = ''proof:'' @ prf_id p
      in map_option (\<lambda>r. case r of
             Inr g \<Rightarrow>
               [check_ok ''RELATIONSHIPS'' obj, check_ok ''GRAPH'' obj,
                result_check ''GRAPH'' obj (check_derivation_acyclic iter edges nodes)]
               @ (if ctx_require_acyclic_provenance ctx
                  then [result_check ''GRAPH'' obj (check_acyclic_provenance iter edges nodes)] else [])
           | Inl code \<Rightarrow>
               [check_fail (if code \<in> set [RelationshipUngrounded, DanglingReference] then ''RELATIONSHIPS'' else ''GRAPH'') obj code])
           (validate_graph_with_grounding iter edges nodes (ctx_limits ctx) extra))"

text \<open>The loop over the referenced proofs stops at the first failure.\<close>

fun check_refs :: "base64_engine \<Rightarrow> string \<Rightarrow> string list \<Rightarrow> check_record list" where
  "check_refs b64 stored_id [] = []"
| "check_refs b64 stored_id (r # rs) =
     (case check_proof_ref_shape_id b64 r of
        Inl code \<Rightarrow> [check_fail ''GRAPH'' (''proof:'' @ stored_id) code]
      | Inr _ \<Rightarrow>
          if r = stored_id then [check_fail ''GRAPH'' (''proof:'' @ stored_id) CycleDetected]
          else check_refs b64 stored_id rs)"

definition linkage_stage :: "base64_engine \<Rightarrow> verify_ctx \<Rightarrow> proof_package \<Rightarrow> check_record list" where
  "linkage_stage b64 ctx p =
     (let refs = prf_referenced_proofs p; obj = ''proof:'' @ prf_id p; dedup = remdups_adj (sort refs);
          fails = (if length refs > max_referenced_proofs (ctx_limits ctx) then [check_fail ''GRAPH'' obj LimitExceeded] else [])
            @ (if length dedup \<noteq> length refs \<or> dedup \<noteq> refs then [check_fail ''GRAPH'' obj SchemaViolation] else [])
            @ check_refs b64 (prf_id p) refs
      in if refs = [] then [] else fails @ (if fails = [] then [check_note ''GRAPH'' obj] else []))"

section \<open>Divergence\<close>

definition claim_key :: "attestation_content \<Rightarrow> string \<times> string" where
  "claim_key c = (claim_type (att_claim c), att_subject c)"

definition divergent_claims :: "verified_entry list \<Rightarrow> conflict_record list" where
  "divergent_claims verified =
     (let stmts = statement_entries verified
      in concat (map (\<lambda>k.
           let members = filter (\<lambda>(i, c). claim_key c = k) stmts
           in if length members < 2 then []
              else if list_all (\<lambda>(i, c). att_claim c = att_claim (snd (hd members))) members then []
              else [\<lparr>cfr_kind = DivergentClaims, cfr_claim_type = fst k, cfr_subject = snd k,
                     cfr_attestation_ids = sort (map (\<lambda>(i, c). ''att:'' @ i) members)\<rparr>])
           (sort (remdups (map (\<lambda>(i, c). claim_key c) stmts)))))"

definition denial_entry :: "(string \<rightharpoonup> attestation_content) \<Rightarrow> verified_entry \<Rightarrow> ((string \<times> string) \<times> string list) option" where
  "denial_entry statements = (\<lambda>(att_id, content).
     case denial_target content of
       None \<Rightarrow> None
     | Some target \<Rightarrow>
         (case statements target of
            Some denied \<Rightarrow> Some (claim_key denied, remdups_adj (sort [''att:'' @ att_id, ''att:'' @ target]))
          | None \<Rightarrow> Some ((claim_type (att_claim content), ''external:'' @ target), [''att:'' @ att_id])))"

definition denials :: "verified_entry list \<Rightarrow> conflict_record list" where
  "denials verified =
     (let stmts = statement_entries verified;
          opposed = List.map_filter (denial_entry (last_of stmts)) stmts
      in map (\<lambda>k. \<lparr>cfr_kind = Denial, cfr_claim_type = fst k, cfr_subject = snd k,
                    cfr_attestation_ids = remdups_adj (sort (concat (map snd (filter (\<lambda>(k', ids). k' = k) opposed))))\<rparr>)
           (sort (remdups (map fst opposed))))"

definition contradiction_of ::
  "(string \<rightharpoonup> attestation_content) \<Rightarrow> string \<Rightarrow> relationship \<Rightarrow> check_record list \<times> conflict_record list" where
  "contradiction_of statements stored_id r =
     (case (statements (rel_from r), statements (rel_to r)) of
        (Some _, Some denied) \<Rightarrow>
          ([], [\<lparr>cfr_kind = Contradiction, cfr_claim_type = claim_type (att_claim denied), cfr_subject = att_subject denied,
                 cfr_attestation_ids = remdups_adj (sort [''att:'' @ rel_from r, ''att:'' @ rel_to r])\<rparr>])
      | _ \<Rightarrow> ([check_note ''EVIDENCE'' (''proof:'' @ stored_id)], []))"

definition conflict_stage :: "proof_package \<Rightarrow> verified_entry list \<Rightarrow> check_record list \<times> conflict_record list" where
  "conflict_stage p verified =
     (let statements = last_of (statement_entries verified);
          cs = map (contradiction_of statements (prf_id p)) (filter (\<lambda>r. rel_ty r = CONTRADICTS) (prf_relationships p));
          out = divergent_claims verified @ concat (map snd cs) @ denials verified;
          conflicts = sort_key (\<lambda>c. (conflict_kind_as_str (cfr_kind c), cfr_claim_type c, cfr_subject c, cfr_attestation_ids c)) out
      in (concat (map fst cs) @ map (\<lambda>c. check_note ''EVIDENCE'' (''proof:'' @ prf_id p)) conflicts, conflicts))"

section \<open>The pipeline\<close>

text \<open>Everything after CANONICAL, given the recomputed ids.\<close>

definition verify_members ::
  "base64_engine \<Rightarrow> hash_engine \<Rightarrow> sig_engine \<Rightarrow> (string list \<Rightarrow> string list) \<Rightarrow> verify_ctx \<Rightarrow> proof_package \<Rightarrow>
   check_record list \<Rightarrow> bool \<Rightarrow> string list \<Rightarrow> string \<Rightarrow> verify_report option" where
  "verify_members b64 h e iter ctx p checks0 canonical_failed event_ids recomputed =
     (let stored_id = prf_id p;
          att_ids = map (\<lambda>a. attestation_id b64 h (encode_canonical (attestation_to_cbor (sa_content a)))) (prf_attestations p);
          evd_ids = map (\<lambda>x. evidence_id b64 h (encode_canonical (evidence_to_cbor x))) (prf_evidence p);
          rel_ids = map (\<lambda>r. relationship_id b64 h (encode_canonical (relationship_to_cbor r))) (prf_relationships p);
          id_check = (if recomputed \<noteq> stored_id then check_fail ''IDENTIFIERS'' (''proof:'' @ stored_id) IdMismatch
                      else check_ok ''IDENTIFIERS'' (''proof:'' @ stored_id));
          (sig_checks, verified) = signature_stage b64 h e ctx p att_ids;
          (time_checks, time_failed) = time_stage ctx verified;
          embedded = map embedded_effect verified;
          supplied = map (supplied_effect b64 h e ctx) (enumerate 0 (ctx_status_objects ctx));
          status_objects = concat (map (\<lambda>(cs, es, ids). ids) embedded);
          effects = concat (map (\<lambda>(cs, es, ids). es) embedded) @ concat (map snd supplied);
          applied = applied_effects ctx p evd_ids verified effects;
          status_checks = concat (map fst embedded) @ concat (map fst supplied)
            @ concat (map (effect_checks ctx p evd_ids verified) effects);
          inputs = length status_objects + length (ctx_status_objects ctx);
          (life_checks, lifecycle) = lifecycle_stage applied time_failed (revocation_stale ctx inputs) verified;
          nodes = NodeSet_new (event_ids @ att_ids @ evd_ids);
          (evidence_checks, evidence_status) = evidence_stage p evd_ids nodes verified applied lifecycle;
          (conflict_checks, conflicts) = conflict_stage p verified
      in map_option (\<lambda>graph_checks.
           let report = finalize (Some stored_id)
                 (checks0 @ [id_check] @ sig_checks @ time_checks @ status_checks @ life_checks
                  @ revocation_notes ctx stored_id inputs @ evidence_checks @ graph_checks @ linkage_stage b64 ctx p @ conflict_checks)
                 (Some policy_note) lifecycle status_objects (withdrawn_targets applied) (prf_referenced_proofs p)
                 (prf_vocabularies p) evidence_status conflicts True
           in if canonical_failed then report\<lparr>rep_evidence_validity := Invalid\<rparr> else report)
           (graph_stage iter ctx p rel_ids nodes))"

text \<open>The bounds on the caller's vectors, checked before the bytes are looked at.\<close>

definition ctx_misuse :: "verify_ctx \<Rightarrow> error_code option" where
  "ctx_misuse ctx =
     (if ctx_allow_remote ctx then Some SchemaViolation
      else if length (ctx_status_objects ctx) > max_status_objects (ctx_limits ctx) then Some LimitExceeded
      else if length (ctx_trusted_issuers ctx) > max_trusted_issuers (ctx_limits ctx) then Some LimitExceeded
      else if length (ctx_revocation_authorities ctx) > max_revocation_authorities (ctx_limits ctx) then Some LimitExceeded
      else None)"

definition verify_proof ::
  "base64_engine \<Rightarrow> hash_engine \<Rightarrow> sig_engine \<Rightarrow> (string list \<Rightarrow> string list) \<Rightarrow> bytes \<Rightarrow> verify_ctx \<Rightarrow>
   verify_report result option" where
  "verify_proof b64 h e iter bs ctx =
     (case ctx_misuse ctx of
        Some code \<Rightarrow> Some (Inl code)
      | None \<Rightarrow>
          (case decode_strict bs (ctx_limits ctx) of
             Inl code \<Rightarrow> Some (Inr (early_report None [check_fail ''PARSE'' ''proof:bytes'' code]))
           | Inr value \<Rightarrow>
               (case cbor_to_proof b64 value (ctx_limits ctx) of
                  Inl code \<Rightarrow> Some (Inr (early_report None
                    [check_ok ''PARSE'' ''proof:bytes'', check_fail ''SCHEMA'' ''proof:bytes'' code]))
                | Inr p \<Rightarrow>
                    (let obj = ''proof:'' @ prf_id p;
                         checks = [check_ok ''PARSE'' ''proof:bytes'', check_ok ''SCHEMA'' obj] @ vocabulary_notes ctx p;
                         canonical_failed = (encode_canonical value \<noteq> bs);
                         checks' = checks @ [if canonical_failed then check_fail ''CANONICAL'' obj NonCanonical
                                             else check_ok ''CANONICAL'' obj]
                     in if canonical_failed \<and> \<not> ctx_report_all_failures ctx
                        then Some (Inr (early_report (Some (prf_id p)) checks'))
                        else (case mapR (pipeline_event_id b64 h) (prf_events p) of
                                Inl code \<Rightarrow> Some (Inl code)
                              | Inr event_ids \<Rightarrow>
                                  (case recomputed_proof_id b64 h p of
                                     Inl code \<Rightarrow> Some (Inl code)
                                   | Inr recomputed \<Rightarrow>
                                       map_option Inr
                                         (verify_members b64 h e iter ctx p checks' canonical_failed event_ids recomputed)))))))"

end
