(* ===== verification/Verdict.thy ===== *)
theory Verdict
  imports Pipeline
begin

text \<open>
  What a verification report means: the pipeline of \<open>Pipeline\<close> always returns a report, and
  the two validities, the lifecycle and the evidence status of the report are characterised by the
  bytes, the signatures, the clock and the status objects. The first section names the
  intermediate results of the stages, so that lemmas can speak of them.
\<close>

section \<open>The stages named\<close>

definition att_ids_of :: "base64_engine \<Rightarrow> hash_engine \<Rightarrow> proof_package \<Rightarrow> string list" where
  "att_ids_of b64 h p = map (\<lambda>a. attestation_member_id b64 h (sa_content a)) (prf_attestations p)"

definition evd_ids_of :: "base64_engine \<Rightarrow> hash_engine \<Rightarrow> proof_package \<Rightarrow> string list" where
  "evd_ids_of b64 h p = map (evidence_member_id b64 h) (prf_evidence p)"

definition rel_ids_of :: "base64_engine \<Rightarrow> hash_engine \<Rightarrow> proof_package \<Rightarrow> string list" where
  "rel_ids_of b64 h p = map (relationship_member_id b64 h) (prf_relationships p)"

definition verified_of :: "base64_engine \<Rightarrow> hash_engine \<Rightarrow> sig_engine \<Rightarrow> verify_ctx \<Rightarrow> proof_package \<Rightarrow> verified_entry list" where
  "verified_of b64 h e ctx p = snd (signature_stage b64 h e ctx p (att_ids_of b64 h p))"

definition embedded_status :: "verified_entry list \<Rightarrow> string list" where
  "embedded_status verified = map fst (filter (\<lambda>(i, c). claim_kind_of c \<noteq> KStatement) verified)"

definition effects_of :: "base64_engine \<Rightarrow> hash_engine \<Rightarrow> sig_engine \<Rightarrow> verify_ctx \<Rightarrow> proof_package \<Rightarrow> status_effect list" where
  "effects_of b64 h e ctx p =
     concat (map (\<lambda>x. fst (snd (embedded_effect x))) (verified_of b64 h e ctx p))
     @ concat (map (\<lambda>x. snd (supplied_effect b64 h e ctx x)) (enumerate 0 (ctx_status_objects ctx)))"

definition applied_of :: "base64_engine \<Rightarrow> hash_engine \<Rightarrow> sig_engine \<Rightarrow> verify_ctx \<Rightarrow> proof_package \<Rightarrow> status_effect list" where
  "applied_of b64 h e ctx p =
     applied_effects ctx p (evd_ids_of b64 h p) (verified_of b64 h e ctx p) (effects_of b64 h e ctx p)"

definition stale_of :: "base64_engine \<Rightarrow> hash_engine \<Rightarrow> sig_engine \<Rightarrow> verify_ctx \<Rightarrow> proof_package \<Rightarrow> bool" where
  "stale_of b64 h e ctx p =
     revocation_stale ctx (length (embedded_status (verified_of b64 h e ctx p)) + length (ctx_status_objects ctx))"

definition lifecycle_result ::
  "base64_engine \<Rightarrow> hash_engine \<Rightarrow> sig_engine \<Rightarrow> verify_ctx \<Rightarrow> proof_package \<Rightarrow> check_record list \<times> lifecycle_record list" where
  "lifecycle_result b64 h e ctx p =
     lifecycle_stage (applied_of b64 h e ctx p) (snd (time_stage ctx (verified_of b64 h e ctx p)))
       (stale_of b64 h e ctx p) (verified_of b64 h e ctx p)"

definition nodes_of :: "base64_engine \<Rightarrow> hash_engine \<Rightarrow> proof_package \<Rightarrow> string list \<Rightarrow> node_set" where
  "nodes_of b64 h p event_ids = NodeSet_new (event_ids @ att_ids_of b64 h p @ evd_ids_of b64 h p)"

definition evidence_result ::
  "base64_engine \<Rightarrow> hash_engine \<Rightarrow> sig_engine \<Rightarrow> verify_ctx \<Rightarrow> proof_package \<Rightarrow> string list \<Rightarrow>
   check_record list \<times> evidence_status_record list" where
  "evidence_result b64 h e ctx p event_ids =
     evidence_stage p (evd_ids_of b64 h p) (nodes_of b64 h p event_ids) (verified_of b64 h e ctx p) (applied_of b64 h e ctx p)
       (snd (lifecycle_result b64 h e ctx p))"

definition status_checks_of :: "base64_engine \<Rightarrow> hash_engine \<Rightarrow> sig_engine \<Rightarrow> verify_ctx \<Rightarrow> proof_package \<Rightarrow> check_record list" where
  "status_checks_of b64 h e ctx p =
     concat (map (\<lambda>x. fst (embedded_effect x)) (verified_of b64 h e ctx p))
     @ concat (map (\<lambda>x. fst (supplied_effect b64 h e ctx x)) (enumerate 0 (ctx_status_objects ctx)))
     @ concat (map (effect_checks ctx p (evd_ids_of b64 h p) (verified_of b64 h e ctx p)) (effects_of b64 h e ctx p))"

definition full_checks ::
  "base64_engine \<Rightarrow> hash_engine \<Rightarrow> sig_engine \<Rightarrow> verify_ctx \<Rightarrow> proof_package \<Rightarrow> string list \<Rightarrow> string \<Rightarrow> check_record list \<Rightarrow> check_record list" where
  "full_checks b64 h e ctx p event_ids recomputed graph_checks =
     [check_ok ''PARSE'' ''proof:bytes'', check_ok ''SCHEMA'' (''proof:'' @ prf_id p)] @ vocabulary_notes ctx p
     @ [check_ok ''CANONICAL'' (''proof:'' @ prf_id p)]
     @ [if recomputed \<noteq> prf_id p then check_fail ''IDENTIFIERS'' (''proof:'' @ prf_id p) IdMismatch
        else check_ok ''IDENTIFIERS'' (''proof:'' @ prf_id p)]
     @ fst (signature_stage b64 h e ctx p (att_ids_of b64 h p))
     @ fst (time_stage ctx (verified_of b64 h e ctx p))
     @ status_checks_of b64 h e ctx p
     @ fst (lifecycle_result b64 h e ctx p)
     @ revocation_notes ctx (prf_id p)
         (length (embedded_status (verified_of b64 h e ctx p)) + length (ctx_status_objects ctx))
     @ fst (evidence_result b64 h e ctx p event_ids)
     @ graph_checks @ linkage_stage b64 ctx p @ fst (conflict_stage p (verified_of b64 h e ctx p))"

definition full_report ::
  "base64_engine \<Rightarrow> hash_engine \<Rightarrow> sig_engine \<Rightarrow> verify_ctx \<Rightarrow> proof_package \<Rightarrow> string list \<Rightarrow> string \<Rightarrow> check_record list \<Rightarrow> verify_report" where
  "full_report b64 h e ctx p event_ids recomputed graph_checks =
     finalize (Some (prf_id p)) (full_checks b64 h e ctx p event_ids recomputed graph_checks) (Some policy_note)
       (snd (lifecycle_result b64 h e ctx p)) (embedded_status (verified_of b64 h e ctx p))
       (withdrawn_targets (applied_of b64 h e ctx p)) (prf_referenced_proofs p) (prf_vocabularies p)
       (snd (evidence_result b64 h e ctx p event_ids)) (snd (conflict_stage p (verified_of b64 h e ctx p))) True"

lemma embedded_status_eq: "concat (map (\<lambda>(cs, es, ids). ids) (map embedded_effect verified)) = embedded_status verified"
  by (induction verified)
    (auto simp: embedded_status_def embedded_effect_def effect_result_def split: sum.splits)

lemma verify_members_eq:
  "verify_members b64 h e iter ctx p
     ([check_ok ''PARSE'' ''proof:bytes'', check_ok ''SCHEMA'' (''proof:'' @ prf_id p)] @ vocabulary_notes ctx p
      @ [check_ok ''CANONICAL'' (''proof:'' @ prf_id p)]) False event_ids recomputed =
   map_option (full_report b64 h e ctx p event_ids recomputed)
     (graph_stage iter ctx p (rel_ids_of b64 h p) (nodes_of b64 h p event_ids))"
proof -
  have ids: "map (\<lambda>a. attestation_id b64 h (encode_canonical (attestation_to_cbor (sa_content a)))) (prf_attestations p) = att_ids_of b64 h p"
    "map (\<lambda>x. evidence_id b64 h (encode_canonical (evidence_to_cbor x))) (prf_evidence p) = evd_ids_of b64 h p"
    "map (\<lambda>r. relationship_id b64 h (encode_canonical (relationship_to_cbor r))) (prf_relationships p) = rel_ids_of b64 h p"
    by (simp_all add: att_ids_of_def evd_ids_of_def rel_ids_of_def attestation_member_id_def evidence_member_id_def
        relationship_member_id_def)
  show ?thesis
    unfolding verify_members_def Let_def ids case_prod_unfold
      full_report_def full_checks_def
      evidence_result_def lifecycle_result_def stale_of_def applied_of_def
      effects_of_def status_checks_of_def verified_of_def nodes_of_def
    using embedded_status_eq [unfolded case_prod_unfold]
    by (simp add: comp_def)
qed


definition event_ids_of :: "base64_engine \<Rightarrow> hash_engine \<Rightarrow> proof_package \<Rightarrow> string list" where
  "event_ids_of b64 h p = map (\<lambda>ev. event_id b64 h (encode_canonical (event_map ev))) (prf_events p)"

definition bound_id :: "base64_engine \<Rightarrow> hash_engine \<Rightarrow> proof_package \<Rightarrow> string" where
  "bound_id b64 h p =
     proof_id_full b64 h (proposition_to_cbor (prf_proposition p)) (prf_created_at p) (event_ids_of b64 h p)
       (att_ids_of b64 h p) (evd_ids_of b64 h p) (rel_ids_of b64 h p) (prf_referenced_proofs p) (vocabulary_pairs p)"

definition parse_proof :: "base64_engine \<Rightarrow> bytes \<Rightarrow> limits \<Rightarrow> proof_package result" where
  "parse_proof b64 bs l = bindR (decode_strict bs l) (\<lambda>v. cbor_to_proof b64 v l)"

section \<open>The pipeline always reports\<close>

lemma parse_proof_ok:
  assumes "parse_proof b64 bs l = Inr p"
  shows "proof_ok b64 l p"
proof -
  obtain v where v: "canon_form l 0 v" "cbor_to_proof b64 v l = Inr p"
    using assms by (auto simp: parse_proof_def result_iff decode_strict_Inr_iff)
  then obtain m where "v = CMap m" by (auto simp: cbor_to_proof_def result_iff)
  then show ?thesis using v proof_parse_fields by blast
qed

lemma event_ids_Inr:
  assumes "proof_ok b64 l p"
  shows "mapR (pipeline_event_id b64 h) (prf_events p) = Inr (event_ids_of b64 h p)"
proof -
  have "pipeline_event_id b64 h ev = Inr (event_id b64 h (encode_canonical (event_map ev)))" if "ev \<in> set (prf_events p)" for ev
    using that assms by (simp add: proof_ok_def event_ok_def pipeline_event_id_def event_to_cbor_def)
  then show ?thesis using mapR_map_Inr [of "prf_events p" "pipeline_event_id b64 h" "\<lambda>x. x"] by (simp add: event_ids_of_def)
qed

lemma recomputed_Inr: "proof_ok b64 l p \<Longrightarrow> recomputed_proof_id b64 h p = Inr (bound_id b64 h p)"
  by (simp add: recomputed_proof_id_def event_ids_Inr bound_id_def att_ids_of_def evd_ids_of_def rel_ids_of_def
      attestation_member_id_def evidence_member_id_def [abs_def] relationship_member_id_def [abs_def])

lemma graph_stage_total: "hash_iter iter \<Longrightarrow> \<exists>g. graph_stage iter ctx p rel_ids nodes = Some g"
  using check_supersedes_total
  by (auto simp: graph_stage_def validate_graph_with_grounding_def Let_def split: sum.splits)

text \<open>The report on a parsed package.\<close>

definition report_on ::
  "base64_engine \<Rightarrow> hash_engine \<Rightarrow> sig_engine \<Rightarrow> (string list \<Rightarrow> string list) \<Rightarrow> verify_ctx \<Rightarrow> proof_package \<Rightarrow> verify_report" where
  "report_on b64 h e iter ctx p = full_report b64 h e ctx p (event_ids_of b64 h p) (bound_id b64 h p)
     (case graph_stage iter ctx p (rel_ids_of b64 h p) (nodes_of b64 h p (event_ids_of b64 h p)) of Some g \<Rightarrow> g | None \<Rightarrow> [])"

lemma verify_proof_eq:
  assumes "hash_iter iter" "ctx_misuse ctx = None"
  shows "verify_proof b64 h e iter bs ctx = Some (Inr (
    case decode_strict bs (ctx_limits ctx) of
      Inl code \<Rightarrow> early_report None [check_fail ''PARSE'' ''proof:bytes'' code]
    | Inr v \<Rightarrow> (case cbor_to_proof b64 v (ctx_limits ctx) of
        Inl code \<Rightarrow> early_report None [check_ok ''PARSE'' ''proof:bytes'', check_fail ''SCHEMA'' ''proof:bytes'' code]
      | Inr p \<Rightarrow> report_on b64 h e iter ctx p)))"
proof (cases "decode_strict bs (ctx_limits ctx)")
  case (Inr v)
  then have bs: "encode_canonical v = bs" by (simp add: decode_strict_Inr_iff)
  show ?thesis
  proof (cases "cbor_to_proof b64 v (ctx_limits ctx)")
    case p: (Inr p)
    have "parse_proof b64 bs (ctx_limits ctx) = Inr p" using Inr p by (simp add: parse_proof_def)
    then have ok: "proof_ok b64 (ctx_limits ctx) p" by (rule parse_proof_ok)
    obtain g where g: "graph_stage iter ctx p (rel_ids_of b64 h p) (nodes_of b64 h p (event_ids_of b64 h p)) = Some g"
      using graph_stage_total [OF assms(1)] by blast
    note members = verify_members_eq [of b64 h e iter ctx p "event_ids_of b64 h p" "bound_id b64 h p", unfolded g, simplified]
    show ?thesis
      using Inr p bs g members
      by (simp add: verify_proof_def assms(2) Let_def event_ids_Inr [OF ok] recomputed_Inr [OF ok] report_on_def)
  qed (use Inr assms in \<open>simp add: verify_proof_def\<close>)
qed (use assms in \<open>simp add: verify_proof_def\<close>)


section \<open>Which stages fail\<close>

definition failed_in :: "check_record list \<Rightarrow> string set \<Rightarrow> bool" where
  "failed_in checks stages \<longleftrightarrow> (\<exists>c \<in> set checks. \<not> chk_ok c \<and> chk_stage c \<in> stages)"

lemma failed_in_simps [simp]:
  "\<not> failed_in [] S"
  "failed_in (c # cs) S \<longleftrightarrow> \<not> chk_ok c \<and> chk_stage c \<in> S \<or> failed_in cs S"
  "failed_in (xs @ ys) S \<longleftrightarrow> failed_in xs S \<or> failed_in ys S"
  by (auto simp: failed_in_def)

lemma failed_in_concat: "failed_in (concat (map f xs)) S \<longleftrightarrow> (\<exists>x \<in> set xs. failed_in (f x) S)"
  by (auto simp: failed_in_def)

lemma failed_in_map: "failed_in (map f xs) S \<longleftrightarrow> (\<exists>x \<in> set xs. \<not> chk_ok (f x) \<and> chk_stage (f x) \<in> S)"
  by (auto simp: failed_in_def)

lemma stage_valid_iff: "stage_valid checks stages = Valid \<longleftrightarrow> \<not> failed_in checks (set stages)"
  by (auto simp: stage_valid_def failed_in_def Let_def list_ex_iff)

lemma finalize_fields:
  "rep_cryptographic_validity (finalize pid cs (Some policy_note) lc so w r v es cf b) = Valid \<longleftrightarrow> \<not> failed_in cs (set CRYPTO_STAGES)"
  "rep_evidence_validity (finalize pid cs (Some policy_note) lc so w r v es cf True) = Valid \<longleftrightarrow> \<not> failed_in cs (set EVIDENCE_STAGES)"
  "rep_evidence_validity (finalize pid cs (Some policy_note) lc so w r v es cf False) = Invalid"
  "rep_status_inputs_valid (finalize pid cs (Some policy_note) lc so w r v es cf b) \<longleftrightarrow> \<not> failed_in cs {STATUS_STAGE}"
  "rep_policy_decision (finalize pid cs (Some policy_note) lc so w r v es cf b) = Indeterminate"
  "rep_proof_id (finalize pid cs (Some policy_note) lc so w r v es cf b) = pid"
  "rep_lifecycle (finalize pid cs (Some policy_note) lc so w r v es cf b) = lc"
  "rep_status_objects (finalize pid cs (Some policy_note) lc so w r v es cf b) = so"
  "rep_evidence_status (finalize pid cs (Some policy_note) lc so w r v es cf b) = es"
  "rep_conflicts (finalize pid cs (Some policy_note) lc so w r v es cf b) = cf"
  "rep_withdrawn_ids (finalize pid cs (Some policy_note) lc so w r v es cf b) = w"
  "rep_lifecycle_checked (finalize pid cs (Some policy_note) lc so w r v es cf b) = b"
  "rep_checks (finalize pid cs (Some policy_note) lc so w r v es cf b) = cs @ [policy_note]"
  by (auto simp: finalize_def stage_valid_iff policy_note_def Let_def)
    (auto simp: failed_in_def list_ex_iff)

lemmas stage_lists = CRYPTO_STAGES_def EVIDENCE_STAGES_def STATUS_STAGE_def

text \<open>The stages of the records each part appends.\<close>

definition stages_of :: "check_record list \<Rightarrow> string set" where
  "stages_of cs = chk_stage ` {c \<in> set cs. \<not> chk_ok c}"

lemma failed_in_iff: "failed_in cs S \<longleftrightarrow> stages_of cs \<inter> S \<noteq> {}"
  by (auto simp: failed_in_def stages_of_def)

lemma stages_append: "stages_of (xs @ ys) = stages_of xs \<union> stages_of ys"
  by (auto simp: stages_of_def)

lemma stages_vocabulary: "stages_of (vocabulary_notes ctx p) = {}"
proof -
  have "\<forall>c \<in> set (vocabulary_notes ctx p). chk_ok c"
    by (auto simp: vocabulary_notes_def Let_def split: option.splits if_splits)
  then show ?thesis by (auto simp: stages_of_def)
qed

lemma stages_entry: "stages_of (fst (check_entry b64 h e ctx a i)) \<subseteq> {''SIGNATURES'', ''KEYS''}"
  by (auto simp: check_entry_def stages_of_def Let_def error_stage_def split: sum.splits if_splits)

lemma stages_time: "stages_of (fst (time_stage ctx verified)) \<subseteq> {''TIME''}"
  by (auto simp: time_stage_def stages_of_def)

lemma stages_effect: "stages_of (fst (effect_result obj r)) \<subseteq> {STATUS_STAGE}"
  by (auto simp: effect_result_def stages_of_def split: sum.splits)

lemma status_stage_name: "c \<in> set (status_checks_of b64 h e ctx p) \<Longrightarrow> chk_stage c = STATUS_STAGE"
  by (auto simp: status_checks_of_def embedded_effect_def supplied_effect_def effect_result_def effect_checks_def Let_def
      split: if_splits sum.splits)

lemma stages_status: "stages_of (status_checks_of b64 h e ctx p) \<subseteq> {STATUS_STAGE}"
  using status_stage_name by (auto simp: stages_of_def)

lemma stages_lifecycle: "stages_of (fst (lifecycle_stage a t s v)) \<subseteq> {''REVOCATION''}"
  by (auto simp: lifecycle_stage_def stages_of_def Let_def)

lemma stages_notes: "stages_of (revocation_notes ctx i n) = {}"
  by (auto simp: revocation_notes_def stages_of_def Let_def)

lemma digest_check_stage: "c \<in> set (digest_check digests x) \<Longrightarrow> chk_stage c = ''EVIDENCE''"
proof -
  assume c: "c \<in> set (digest_check digests x)"
  obtain i ct where x: "x = (i, ct)" by (cases x)
  show ?thesis
  proof (cases "evidence_digest_hex (att_claim ct)")
    case (Some r)
    then show ?thesis using c by (cases r) (auto simp: digest_check_def x Let_def split: option.splits if_splits)
  qed (use c in \<open>simp add: digest_check_def x\<close>)
qed

lemma evidence_check_stage: "chk_stage (fst (evidence_check i x)) = ''EVIDENCE''"
  by (cases x) (auto simp: evidence_check_def Let_def)

lemma evidence_ref_stage: "c \<in> set (evidence_ref_checks p nodes) \<Longrightarrow> chk_stage c = ''EVIDENCE''"
  by (auto simp: evidence_ref_checks_def split: option.splits if_splits)

lemma evidence_stage_name: "c \<in> set (fst (evidence_stage p ids nodes v a lc)) \<Longrightarrow> chk_stage c = ''EVIDENCE''"
  unfolding evidence_stage_def Let_def fst_conv set_append set_concat set_map image_image
  by (auto simp: evidence_check_stage dest: digest_check_stage evidence_ref_stage split: if_splits)

lemma stages_evidence: "stages_of (fst (evidence_stage p ids nodes v a lc)) \<subseteq> {''EVIDENCE''}"
  using evidence_stage_name by (auto simp: stages_of_def)

lemma stages_conflict: "stages_of (fst (conflict_stage p v)) = {}"
proof -
  have "\<forall>c \<in> set (fst (conflict_stage p v)). chk_ok c"
    by (auto simp: conflict_stage_def contradiction_of_def Let_def split: option.splits)
  then show ?thesis by (auto simp: stages_of_def)
qed

lemma stages_refs: "stages_of (check_refs b64 i rs) \<subseteq> {''GRAPH''}"
  by (induction rs) (auto simp: stages_of_def split: sum.splits)

lemma stages_linkage: "stages_of (linkage_stage b64 ctx p) \<subseteq> {''GRAPH''}"
proof -
  have "stages_of [] = {}" "stages_of [check_note s x] = {}" "stages_of [check_fail s x c] = {s}" for s x c
    by (auto simp: stages_of_def)
  then show ?thesis using stages_refs [of b64 "prf_id p" "prf_referenced_proofs p"]
    by (auto simp: linkage_stage_def Let_def stages_append)
qed

lemma graph_stage_name:
  assumes "graph_stage iter ctx p ids nodes = Some g" "c \<in> set g"
  shows "chk_stage c \<in> {''RELATIONSHIPS'', ''GRAPH''}"
proof -
    obtain x :: "validated_graph result" where "g = (case x of Inr _ \<Rightarrow> [check_ok ''RELATIONSHIPS'' (''proof:'' @ prf_id p), check_ok ''GRAPH'' (''proof:'' @ prf_id p),
        result_check ''GRAPH'' (''proof:'' @ prf_id p) (check_derivation_acyclic iter (map (\<lambda>(r, i). \<lparr>er_content = r, er_id = i\<rparr>) (zip (prf_relationships p) ids)) nodes)]
        @ (if ctx_require_acyclic_provenance ctx
           then [result_check ''GRAPH'' (''proof:'' @ prf_id p) (check_acyclic_provenance iter (map (\<lambda>(r, i). \<lparr>er_content = r, er_id = i\<rparr>) (zip (prf_relationships p) ids)) nodes)] else [])
      | Inl code \<Rightarrow> [check_fail (if code \<in> set [RelationshipUngrounded, DanglingReference] then ''RELATIONSHIPS'' else ''GRAPH'') (''proof:'' @ prf_id p) code])"
      using assms(1) unfolding graph_stage_def Let_def by blast
    with assms(2) show ?thesis
      by (cases x) (auto simp: result_check_def split: sum.splits if_splits)
qed

lemma stages_graph: "graph_stage iter ctx p ids nodes = Some g \<Longrightarrow> stages_of g \<subseteq> {''RELATIONSHIPS'', ''GRAPH''}"
  using graph_stage_name by (fastforce simp: stages_of_def)


section \<open>Signatures\<close>

text \<open>An entry of the package whose signature holds for its own issuer over its own content.\<close>

definition signed_entry :: "base64_engine \<Rightarrow> hash_engine \<Rightarrow> sig_engine \<Rightarrow> verify_ctx \<Rightarrow> stored_attestation \<Rightarrow> bool" where
  "signed_entry b64 h e ctx a \<longleftrightarrow>
     verify_attestation b64 h e (sa_sign1 a) (att_issuer (sa_content a)) (ctx_allowed_algs ctx) (ctx_limits ctx)
       = Inr (sa_content a, attestation_member_id b64 h (sa_content a))"

lemma self_issuer_eq:
  assumes "b64_law b64" "verify_sign1 b64 e bs issuer al l = Inr p"
  shows "self_issuer b64 p = issuer"
  using assms(2) unfolding verify_sign1_def verify_sign1_iff [OF assms(1)]
  by (auto simp: self_issuer_def b64u_nopad_def ed25519_signed_def esp256_signed_def COSE_ED25519_def COSE_ESP256_def)

lemma check_entry_eq:
  assumes "b64_law b64"
  shows "check_entry b64 h e ctx a (attestation_member_id b64 h (sa_content a)) =
    (if signed_entry b64 h e ctx a
     then ([check_ok ''SIGNATURES'' (''att:'' @ attestation_member_id b64 h (sa_content a)),
            check_ok ''KEYS'' (''att:'' @ attestation_member_id b64 h (sa_content a))],
           Some (attestation_member_id b64 h (sa_content a), sa_content a))
     else (fst (check_entry b64 h e ctx a (attestation_member_id b64 h (sa_content a))), None))
    \<and> (\<not> signed_entry b64 h e ctx a \<longrightarrow>
       failed_in (fst (check_entry b64 h e ctx a (attestation_member_id b64 h (sa_content a)))) {''SIGNATURES'', ''KEYS''})"
proof -
  let ?i = "attestation_member_id b64 h (sa_content a)"
  have parse: "parse_sign1 bs l = Inr p" if "verify_sign1 b64 e bs issuer al l = Inr p" for bs issuer al l p
    using that by (simp add: verify_sign1_def verify_sign1_iff assms)
  have stage: "error_stage code \<in> {''SIGNATURES'', ''KEYS''}" for code by (simp add: error_stage_def)
  show ?thesis
  proof (cases "parse_sign1 (sa_sign1 a) (ctx_limits ctx)")
    case (Inl code)
    then have "\<not> signed_entry b64 h e ctx a"
      using parse by (force simp: signed_entry_def verify_attestation_Inr assms)
    then show ?thesis using Inl stage [of code] by (simp add: check_entry_def)
  next
    case (Inr s)
    let ?v = "verify_attestation b64 h e (sa_sign1 a) (self_issuer b64 s) (ctx_allowed_algs ctx) (ctx_limits ctx)"
    have signed: "signed_entry b64 h e ctx a \<longleftrightarrow> ?v = Inr (sa_content a, ?i)"
      unfolding signed_entry_def verify_attestation_Inr [OF assms]
      using parse Inr self_issuer_eq [OF assms] by (metis sum.inject(2))
    show ?thesis
    proof (cases ?v)
      case (Inl code)
      then show ?thesis using Inr signed stage [of code] by (simp add: check_entry_def)
    next
      case v: (Inr r)
      then show ?thesis using Inr signed by (cases r) (auto simp: check_entry_def Let_def)
    qed
  qed
qed

lemma verified_of_eq:
  assumes "b64_law b64"
  shows "verified_of b64 h e ctx p =
    map (\<lambda>a. (attestation_member_id b64 h (sa_content a), sa_content a)) (filter (signed_entry b64 h e ctx) (prf_attestations p))"
proof -
  have "List.map_filter snd (map (\<lambda>(entry, i). check_entry b64 h e ctx entry i)
      (zip xs (map (\<lambda>a. attestation_member_id b64 h (sa_content a)) xs))) =
    map (\<lambda>a. (attestation_member_id b64 h (sa_content a), sa_content a)) (filter (signed_entry b64 h e ctx) xs)" for xs
  proof (induction xs)
    case (Cons a xs)
    then show ?case using check_entry_eq [OF assms, of h e ctx a]
      by (cases "signed_entry b64 h e ctx a") (auto simp: map_filter_simps split: option.splits dest!: arg_cong [of _ _ snd])
  qed (simp add: map_filter_simps)
  then show ?thesis by (simp add: verified_of_def signature_stage_def att_ids_of_def Let_def)
qed

lemma signatures_fail_iff:
  assumes "b64_law b64"
  shows "failed_in (fst (signature_stage b64 h e ctx p (att_ids_of b64 h p))) (set CRYPTO_STAGES) \<longleftrightarrow>
    (\<exists>a \<in> set (prf_attestations p). \<not> signed_entry b64 h e ctx a)"
proof -
  have one: "failed_in (fst (check_entry b64 h e ctx a (attestation_member_id b64 h (sa_content a)))) (set CRYPTO_STAGES) \<longleftrightarrow>
      \<not> signed_entry b64 h e ctx a" for a
    using check_entry_eq [OF assms, of h e ctx a]
    by (cases "signed_entry b64 h e ctx a") (auto simp: failed_in_def stage_lists dest!: arg_cong [of _ _ fst])
  have "zip xs (map f xs) = map (\<lambda>x. (x, f x)) xs" for xs :: "stored_attestation list" and f :: "stored_attestation \<Rightarrow> string"
    by (induction xs) auto
  then show ?thesis
    by (auto simp: signature_stage_def att_ids_of_def Let_def failed_in_concat one comp_def)
qed

section \<open>The two validities\<close>

lemma not_failed: "stages_of cs \<subseteq> T \<Longrightarrow> T \<inter> S = {} \<Longrightarrow> \<not> failed_in cs S"
  by (auto simp: failed_in_iff)

definition graph_checks_of ::
  "base64_engine \<Rightarrow> hash_engine \<Rightarrow> (string list \<Rightarrow> string list) \<Rightarrow> verify_ctx \<Rightarrow> proof_package \<Rightarrow> check_record list" where
  "graph_checks_of b64 h iter ctx p =
     (case graph_stage iter ctx p (rel_ids_of b64 h p) (nodes_of b64 h p (event_ids_of b64 h p)) of Some g \<Rightarrow> g | None \<Rightarrow> [])"

lemma stages_graph_checks: "stages_of (graph_checks_of b64 h iter ctx p) \<subseteq> {''RELATIONSHIPS'', ''GRAPH''}"
proof (cases "graph_stage iter ctx p (rel_ids_of b64 h p) (nodes_of b64 h p (event_ids_of b64 h p))")
  case (Some g)
  then show ?thesis using stages_graph [OF Some] by (simp add: graph_checks_of_def)
qed (simp add: graph_checks_of_def stages_of_def)

lemma report_on_def': "report_on b64 h e iter ctx p =
   full_report b64 h e ctx p (event_ids_of b64 h p) (bound_id b64 h p) (graph_checks_of b64 h iter ctx p)"
  by (simp add: report_on_def graph_checks_of_def)

lemmas stage_facts = stages_vocabulary stages_time stages_status stages_lifecycle stages_notes stages_evidence
  stages_conflict stages_linkage stages_graph_checks

lemma crypto_on:
  assumes "b64_law b64"
  shows "rep_cryptographic_validity (report_on b64 h e iter ctx p) = Valid \<longleftrightarrow>
    bound_id b64 h p = prf_id p \<and> (\<forall>a \<in> set (prf_attestations p). signed_entry b64 h e ctx a)"
proof -
  have "\<not> failed_in (vocabulary_notes ctx p) (set CRYPTO_STAGES)"
    "\<not> failed_in (fst (time_stage ctx v)) (set CRYPTO_STAGES)"
    "\<not> failed_in (status_checks_of b64 h e ctx p) (set CRYPTO_STAGES)"
    "\<not> failed_in (fst (lifecycle_stage a t s v)) (set CRYPTO_STAGES)"
    "\<not> failed_in (revocation_notes ctx i n) (set CRYPTO_STAGES)"
    "\<not> failed_in (fst (evidence_stage p ids nodes v a lc)) (set CRYPTO_STAGES)"
    "\<not> failed_in (fst (conflict_stage p v)) (set CRYPTO_STAGES)"
    "\<not> failed_in (linkage_stage b64 ctx p) (set CRYPTO_STAGES)"
    "\<not> failed_in (graph_checks_of b64 h iter ctx p) (set CRYPTO_STAGES)" for a t s v ids nodes lc i n
    by (rule not_failed [OF equalityD1 [OF stages_vocabulary]] not_failed [OF stages_time] not_failed [OF stages_status]
        not_failed [OF stages_lifecycle] not_failed [OF equalityD1 [OF stages_notes]] not_failed [OF stages_evidence]
        not_failed [OF equalityD1 [OF stages_conflict]] not_failed [OF stages_linkage] not_failed [OF stages_graph_checks];
        simp add: stage_lists)+
  then show ?thesis
    unfolding report_on_def' full_report_def finalize_fields full_checks_def failed_in_simps lifecycle_result_def evidence_result_def
      signatures_fail_iff [OF assms]
    by (auto simp: CRYPTO_STAGES_def)
qed

lemma evidence_on:
  "rep_evidence_validity (report_on b64 h e iter ctx p) = Valid \<longleftrightarrow>
    (\<forall>x \<in> set (statement_entries (verified_of b64 h e ctx p)). time_validity (snd x) ctx)
    \<and> (\<forall>x \<in> set (statement_entries (verified_of b64 h e ctx p)).
         lifecycle_ok (lifecycle_of (applied_of b64 h e ctx p) (snd (time_stage ctx (verified_of b64 h e ctx p))) (stale_of b64 h e ctx p) x))
    \<and> \<not> failed_in (fst (evidence_result b64 h e ctx p (event_ids_of b64 h p))) {''EVIDENCE''}
    \<and> \<not> failed_in (graph_checks_of b64 h iter ctx p) {''RELATIONSHIPS'', ''GRAPH''}
    \<and> \<not> failed_in (linkage_stage b64 ctx p) {''GRAPH''}"
proof -
  let ?E = "set EVIDENCE_STAGES"
  have stages: "stages_of (fst (signature_stage b64 h e ctx p ids)) \<subseteq> {''SIGNATURES'', ''KEYS''}" for ids
    using stages_entry by (fastforce simp: signature_stage_def stages_of_def Let_def split: if_splits)
  have no: "\<not> failed_in (vocabulary_notes ctx p) ?E" "\<not> failed_in (fst (signature_stage b64 h e ctx p ids)) ?E"
    "\<not> failed_in (status_checks_of b64 h e ctx p) ?E" "\<not> failed_in (revocation_notes ctx i n) ?E"
    "\<not> failed_in (fst (conflict_stage p v)) ?E" for ids i n v
    by (rule not_failed [OF equalityD1 [OF stages_vocabulary]] not_failed [OF stages] not_failed [OF stages_status]
        not_failed [OF equalityD1 [OF stages_notes]] not_failed [OF equalityD1 [OF stages_conflict]]; simp add: stage_lists)+
  have narrow: "stages_of cs \<subseteq> T \<Longrightarrow> T \<subseteq> ?E \<Longrightarrow> failed_in cs ?E \<longleftrightarrow> failed_in cs T" for cs T
    by (auto simp: failed_in_iff)
  have n: "failed_in (fst (time_stage ctx v)) ?E \<longleftrightarrow> (\<exists>x \<in> set (statement_entries v). \<not> time_validity (snd x) ctx)"
    "failed_in (fst (lifecycle_stage a t s v)) ?E \<longleftrightarrow> (\<exists>x \<in> set (statement_entries v). \<not> lifecycle_ok (lifecycle_of a t s x))"
    "failed_in (fst (evidence_stage p ids nodes v a lc)) ?E \<longleftrightarrow> failed_in (fst (evidence_stage p ids nodes v a lc)) {''EVIDENCE''}"
    "failed_in (graph_checks_of b64 h iter ctx p) ?E \<longleftrightarrow> failed_in (graph_checks_of b64 h iter ctx p) {''RELATIONSHIPS'', ''GRAPH''}"
    "failed_in (linkage_stage b64 ctx p) ?E \<longleftrightarrow> failed_in (linkage_stage b64 ctx p) {''GRAPH''}" for v a t s ids nodes lc
    using narrow [OF stages_evidence] narrow [OF stages_graph_checks] narrow [OF stages_linkage]
    by (simp_all add: stage_lists time_stage_def lifecycle_stage_def failed_in_map Let_def case_prod_unfold if_distrib
        [of chk_ok] if_distrib [of chk_stage] cong: if_cong)
  show ?thesis
    unfolding report_on_def' full_report_def finalize_fields full_checks_def failed_in_simps lifecycle_result_def evidence_result_def n
    by (auto simp: no) (auto simp: EVIDENCE_STAGES_def)
qed

lemma policy_note_simps [simp]: "chk_ok policy_note" "chk_stage policy_note = ''POLICY''" "chk_code policy_note = None"
  by (simp_all add: policy_note_def)

lemma verify_proof_cases:
  assumes "hash_iter iter" "ctx_misuse ctx = None"
  shows "verify_proof b64 h e iter bs ctx = Some (Inr (
    case parse_proof b64 bs (ctx_limits ctx) of
      Inr p \<Rightarrow> report_on b64 h e iter ctx p
    | Inl code \<Rightarrow> early_report None (case decode_strict bs (ctx_limits ctx) of
          Inl _ \<Rightarrow> [check_fail ''PARSE'' ''proof:bytes'' code]
        | Inr _ \<Rightarrow> [check_ok ''PARSE'' ''proof:bytes'', check_fail ''SCHEMA'' ''proof:bytes'' code])))"
  by (simp add: verify_proof_eq [OF assms] parse_proof_def split: sum.splits)

lemma verify_proof_Inr:
  assumes "hash_iter iter" "verify_proof b64 h e iter bs ctx = Some (Inr rep)"
  shows "ctx_misuse ctx = None"
    and "parse_proof b64 bs (ctx_limits ctx) = Inr p \<Longrightarrow> rep = report_on b64 h e iter ctx p"
    and "parse_proof b64 bs (ctx_limits ctx) = Inl code \<Longrightarrow>
      rep_cryptographic_validity rep = Invalid \<and> rep_evidence_validity rep = Invalid \<and> failure_codes rep = [code]"
proof -
  show m: "ctx_misuse ctx = None"
    using assms(2) by (cases "ctx_misuse ctx") (auto simp: verify_proof_def)
  note eq = verify_proof_cases [OF assms(1) m, of b64 h e bs, unfolded assms(2)]
  show "parse_proof b64 bs (ctx_limits ctx) = Inr p \<Longrightarrow> rep = report_on b64 h e iter ctx p" using eq by simp
  have crypto: "rep_cryptographic_validity (early_report None cs) = Invalid" if "failed_in cs (set CRYPTO_STAGES)" for cs
  proof -
    have "rep_cryptographic_validity (early_report None cs) \<noteq> Valid"
      using that unfolding early_report_def finalize_fields by simp
    then show ?thesis by (cases "rep_cryptographic_validity (early_report None cs)") simp_all
  qed
  show "parse_proof b64 bs (ctx_limits ctx) = Inl code \<Longrightarrow>
      rep_cryptographic_validity rep = Invalid \<and> rep_evidence_validity rep = Invalid \<and> failure_codes rep = [code]"
    using eq crypto
    by (auto simp: CRYPTO_STAGES_def early_report_def finalize_fields failure_codes_def map_filter_def split: sum.splits)
qed

lemma no_canonical_failure:
  "c \<in> set (rep_checks (report_on b64 h e iter ctx p)) \<Longrightarrow> chk_stage c = ''CANONICAL'' \<Longrightarrow> chk_ok c"
proof (rule ccontr)
  assume c: "c \<in> set (rep_checks (report_on b64 h e iter ctx p))" "chk_stage c = ''CANONICAL''" "\<not> chk_ok c"
  have sig: "stages_of (fst (signature_stage b64 h e ctx p ids)) \<subseteq> {''SIGNATURES'', ''KEYS''}" for ids
    using stages_entry by (fastforce simp: signature_stage_def stages_of_def Let_def split: if_splits)
  have "failed_in (rep_checks (report_on b64 h e iter ctx p)) {''CANONICAL''}" using c by (auto simp: failed_in_def)
  moreover have "\<not> failed_in (vocabulary_notes ctx p) {''CANONICAL''}" "\<not> failed_in (fst (signature_stage b64 h e ctx p ids)) {''CANONICAL''}"
    "\<not> failed_in (fst (time_stage ctx v)) {''CANONICAL''}" "\<not> failed_in (status_checks_of b64 h e ctx p) {''CANONICAL''}"
    "\<not> failed_in (fst (lifecycle_stage a t s v)) {''CANONICAL''}" "\<not> failed_in (revocation_notes ctx i n) {''CANONICAL''}"
    "\<not> failed_in (fst (evidence_stage p ids nodes v a lc)) {''CANONICAL''}" "\<not> failed_in (fst (conflict_stage p v)) {''CANONICAL''}"
    "\<not> failed_in (linkage_stage b64 ctx p) {''CANONICAL''}" "\<not> failed_in (graph_checks_of b64 h iter ctx p) {''CANONICAL''}"
    for a t s v ids nodes lc i n
    by (rule not_failed [OF equalityD1 [OF stages_vocabulary]] not_failed [OF sig] not_failed [OF stages_time] not_failed [OF stages_status]
        not_failed [OF stages_lifecycle] not_failed [OF equalityD1 [OF stages_notes]] not_failed [OF stages_evidence]
        not_failed [OF equalityD1 [OF stages_conflict]] not_failed [OF stages_linkage] not_failed [OF stages_graph_checks];
        simp add: stage_lists)+
  ultimately show False
    unfolding report_on_def' full_report_def finalize_fields full_checks_def failed_in_simps lifecycle_result_def evidence_result_def
    by (auto split: if_splits)
qed

section \<open>A concrete package\<close>

text \<open>One signed statement, parsed from its own bytes: the instance of the witnesses below.\<close>

definition demo_statement :: attestation_content where
  "demo_statement = status_content plain_b64 plain_sig sample_key ''order-7'' ''approve'' [] 5"

definition demo_package :: proof_package where
  "demo_package = \<lparr>prf_v = 1, prf_id = id_with plain_b64 zero_hash ''prf'' [],
     prf_proposition = \<lparr>prop_v = 1, prop_kind = ''k'', prop_subject = ''s'', prop_predicate = ''p'', prop_object = None,
        prop_at_time = None, prop_context = []\<rparr>,
     prf_events = [],
     prf_attestations = [\<lparr>sa_content = demo_statement,
        sa_sign1 = sign_ed25519 plain_sig (encode_canonical (attestation_to_cbor demo_statement)) sample_key\<rparr>],
     prf_evidence = [], prf_relationships = [], prf_referenced_proofs = [], prf_vocabularies = [], prf_created_at = 1\<rparr>"

definition demo_value :: cbor_value where
  "demo_value = CMap [
       (CText ''attestations'', CArray (map attestation_entry_to_cbor (prf_attestations demo_package))),
       (CText ''created_at'', CUint 1), (CText ''events'', CArray []), (CText ''evidence'', CArray []),
       (CText ''proof_id'', CText (prf_id demo_package)),
       (CText ''proposition'', proposition_to_cbor (prf_proposition demo_package)),
       (CText ''relationships'', CArray []), (CText ''v'', CUint 1)]"

definition demo_bytes :: bytes where
  "demo_bytes = encode_canonical demo_value"

lemma demo_statement_ok: "attestation_ok demo_statement" "d \<le> 9 \<Longrightarrow> wf_value default_limits d (attestation_to_cbor demo_statement)"
proof -
  have ty: "text_ok ''approve''" "valid_utf8 (as_bytes ''approve'')"
    by (simp_all add: text_ok_def as_bytes_def byte_of_char_def in_range_def)
  have sub: "utf8_text ''order-7''" by (simp add: utf8_text_def text_ok_def as_bytes_def byte_of_char_def in_range_def)
  have claim: "claim_ok (att_claim demo_statement)"
    by (simp add: claim_ok_def demo_statement_def status_content_def meta_sorted_def)
  show ok: "attestation_ok demo_statement"
    using claim sample_key_ref sub
    by (simp add: attestation_ok_def demo_statement_def status_content_def utf8_text_def ref_ok_def)
  show "wf_value default_limits d (attestation_to_cbor demo_statement)" if "d \<le> 9"
    using that ok claim ty sample_key_ref sub claim_wf [of "Suc d" "att_claim demo_statement"]
    by (intro attestation_wf) (simp_all add: demo_statement_def status_content_def)
qed

lemma demo_statement_size: "length (encode_canonical (attestation_to_cbor demo_statement)) \<le> 20000"
  using length_encode_attestation [OF demo_statement_ok(1)] by (simp add: demo_statement_def status_content_def)

lemma demo_sign1_size:
  "length (sign_ed25519 plain_sig (encode_canonical (attestation_to_cbor demo_statement)) sample_key) \<le> 20200"
  "sign_ed25519 plain_sig (encode_canonical (attestation_to_cbor demo_statement)) sample_key \<noteq> []"
proof -
  let ?prot = "protected_bytes COSE_ED25519 (pubkey_bytes plain_sig sample_key)"
  let ?m = "encode_canonical (attestation_to_cbor demo_statement)"
  let ?sig = "key_sign plain_sig sample_key (sig_structure_with_aad ?prot EXTERNAL_AAD ?m)"
  have eq: "sign_ed25519 plain_sig ?m sample_key = encode_canonical (sign1_value ?prot ?m ?sig)"
    by (simp add: sign_ed25519_def sign_ed25519_with_aad_def sign1_value_def Let_def)
  have "length ?sig = 64"
    by (simp add: key_sign_def plain_sig_def sample_key_def Ed25519Key_from_seed_def)
  moreover have "length ?prot \<le> 77"
    using length_protected [of COSE_ED25519 "pubkey_bytes plain_sig sample_key"]
    by (simp add: pubkey_bytes_def plain_sig_def sample_key_def Ed25519Key_from_seed_def)
  ultimately show "length (sign_ed25519 plain_sig ?m sample_key) \<le> 20200"
    using length_sign1 [of ?prot ?m ?sig] demo_statement_size unfolding eq by linarith
  show "sign_ed25519 plain_sig ?m sample_key \<noteq> []" unfolding eq by (simp add: encode_canonical_def)
qed

lemma demo_id: "prf_id demo_package = ''prf:v1:'' @ replicate 32 (char_of (0 :: nat))"
  by (simp add: demo_package_def id_with_def b64u_nopad_def plain_b64_def zero_hash_def str_of_bytes_def char_of_byte_def)

lemma demo_id_text: "utf8_text (prf_id demo_package)"
proof -
  have "valid_utf8 (replicate n 0)" for n by (induction n) (simp_all add: in_range_def)
  then show ?thesis by (simp add: demo_id utf8_text_def text_ok_def as_bytes_def byte_of_char_def in_range_def)
qed

lemma demo_ok: "proof_ok plain_b64 default_limits demo_package"
proof -
  have "entry_ok default_limits a" if "a \<in> set (prf_attestations demo_package)" for a
    using that demo_statement_ok(1) demo_sign1_size by (auto simp: demo_package_def entry_ok_def default_limits_def)
  moreover have "proposition_ok (prf_proposition demo_package)"
    by (simp add: demo_package_def proposition_ok_def text_ok_def metadata_ok_def meta_sorted_def)
  ultimately show ?thesis
    using demo_id_text by (simp add: proof_ok_def utf8_text_def demo_id starts_with_def)
      (simp add: demo_package_def refs_ok_def vocabularies_ok_def default_limits_def)
qed


lemma demo_keys:
  "k \<in> set [''attestations'', ''created_at'', ''events'', ''evidence'', ''proof_id'', ''proposition'', ''relationships'', ''v'',
      ''content'', ''sign1'', ''at_time'', ''context'', ''kind'', ''object'', ''predicate'', ''subject'', ''k'', ''s'', ''p''] \<Longrightarrow>
   d \<le> 10 \<Longrightarrow> canon_form default_limits d (CText k)"
  by (auto simp: default_limits_def as_bytes_def byte_of_char_def in_range_def)

lemma package_wf:
  assumes "wf_value default_limits (Suc (Suc 0)) a" "wf_value default_limits (Suc 0) q" "canon_form default_limits (Suc 0) (CText i)"
  shows "wf_value default_limits 0 (CMap [(CText ''attestations'', CArray [a]),
       (CText ''created_at'', CUint 1), (CText ''events'', CArray []), (CText ''evidence'', CArray []),
       (CText ''proof_id'', CText i), (CText ''proposition'', q), (CText ''relationships'', CArray []), (CText ''v'', CUint 1)])"
proof -
  have "distinct (map (\<lambda>k. encode_canonical (CText k)) [''attestations'', ''created_at'', ''events'', ''evidence'', ''proof_id'',
      ''proposition'', ''relationships'', ''v''])"
    by (simp add: encode_eval)
  then show ?thesis using assms demo_keys [of _ "Suc 0"] by (simp add: default_limits_def)
qed

lemma demo_wf: "wf_value default_limits 0 demo_value"
proof -
  let ?a = "attestation_entry_to_cbor (hd (prf_attestations demo_package))"
  have "wf_value default_limits (Suc (Suc 0)) ?a"
    using demo_keys [of "''content''" "Suc (Suc (Suc 0))"] demo_keys [of "''sign1''" "Suc (Suc (Suc 0))"]
      demo_statement_ok(2) [of "Suc (Suc (Suc 0))"] demo_sign1_size
    by (simp add: attestation_entry_to_cbor_def demo_package_def) (simp add: default_limits_def encode_eval)
  moreover have "wf_value default_limits (Suc 0) (proposition_to_cbor (prf_proposition demo_package))"
    using demo_keys [of _ "Suc (Suc 0)"]
    by (simp add: proposition_to_cbor_def demo_package_def opt_text_to_cbor_def opt_uint_to_cbor_def meta_pairs_to_cbor_def)
      (simp add: default_limits_def encode_eval)
  moreover have "canon_form default_limits (Suc 0) (CText (prf_id demo_package))" by (rule utf8_text_canon [OF demo_id_text]) simp
  moreover have "map attestation_entry_to_cbor (prf_attestations demo_package) = [?a]" by (simp add: demo_package_def)
  ultimately show ?thesis unfolding demo_value_def by (simp only: package_wf)
qed

lemma length_encode_short_array:
  "length (encode_value (CArray [])) \<le> 9" "length (encode_value (CArray [x])) \<le> 9 + length (encode_value x)"
  using length_encode_head [of 4 0] length_encode_head [of 4 1] by simp_all

lemma demo_size: "length demo_bytes \<le> 1048576"
proof -
  have "length (encode_value (attestation_to_cbor demo_statement)) \<le> 20000"
    using demo_statement_size by (simp add: encode_canonical_def)
  moreover have "length (encode_value (CArray (map attestation_entry_to_cbor (prf_attestations demo_package)))) \<le> 50000"
    using calculation length_encode_map [of "[(CText ''content'', attestation_to_cbor demo_statement),
        (CText ''sign1'', CBytes (sign_ed25519 plain_sig (encode_canonical (attestation_to_cbor demo_statement)) sample_key))]"]
      length_encode_bytes [of "sign_ed25519 plain_sig (encode_canonical (attestation_to_cbor demo_statement)) sample_key"]
      demo_sign1_size(1) length_encode_text [of "''content''"] length_encode_text [of "''sign1''"]
      length_encode_short_array(2) [of "attestation_entry_to_cbor (hd (prf_attestations demo_package))"]
    by (simp add: demo_package_def attestation_entry_to_cbor_def del: encode_value.simps)
  moreover have "length (encode_value (CText (prf_id demo_package))) \<le> 1033"
    using length_encode_text [of "prf_id demo_package"] demo_id_text by (simp add: utf8_text_def text_ok_def)
  moreover have "length (encode_value (proposition_to_cbor (prf_proposition demo_package))) \<le> 500"
    by (simp add: proposition_to_cbor_def demo_package_def opt_text_to_cbor_def opt_uint_to_cbor_def meta_pairs_to_cbor_def encode_eval)
  ultimately show ?thesis
    using length_encode_map [of "[(CText ''attestations'', CArray (map attestation_entry_to_cbor (prf_attestations demo_package))),
       (CText ''created_at'', CUint 1), (CText ''events'', CArray []), (CText ''evidence'', CArray []),
       (CText ''proof_id'', CText (prf_id demo_package)),
       (CText ''proposition'', proposition_to_cbor (prf_proposition demo_package)),
       (CText ''relationships'', CArray []), (CText ''v'', CUint 1)]"]
      length_encode_text [of "''attestations''"] length_encode_text [of "''created_at''"] length_encode_text [of "''events''"]
      length_encode_text [of "''evidence''"] length_encode_text [of "''proof_id''"] length_encode_text [of "''proposition''"]
      length_encode_text [of "''relationships''"] length_encode_text [of "''v''"] length_encode_uint [of 1] length_encode_short_array(1)
    by (simp add: demo_bytes_def demo_value_def encode_canonical_def del: encode_value.simps)
qed

lemma parse_written:
  assumes "proof_ok b64 l p" "proof_to_cbor p = Inr w" "wf_value l 0 w" "length (encode_canonical w) \<le> max_proof_size l"
  shows "parse_proof b64 (encode_canonical w) l = Inr p"
proof -
  obtain m where m: "sort_maps w = CMap m" using assms(1,2) by (auto simp: proof_ok_def proof_to_cbor_eq sort_maps_CMap)
  have canon: "canon_form l 0 (CMap m)" using canon_form_sort_maps [OF assms(3)] m by simp
  have enc: "encode_canonical (CMap m) = encode_canonical w" by (metis m encode_canonical_def encode_sort_maps)
  then have "decode_strict (encode_canonical w) l = Inr (CMap m)"
    using canon assms(4) by (simp add: decode_strict_Inr_iff)
  moreover have "\<exists>w. proof_to_cbor p = Inr w \<and> CMap m = sort_maps w" using assms(2) m by auto
  then have "cbor_to_proof b64 (CMap m) l = Inr p"
    using proof_parse_fields [OF canon, of b64 p] proof_write_fields [OF canon, of p] assms(1) by (auto simp: proof_ok_def)
  ultimately show ?thesis by (simp add: parse_proof_def)
qed

lemma demo_parses: "parse_proof plain_b64 demo_bytes default_limits = Inr demo_package"
proof -
  have "proof_to_cbor demo_package = Inr demo_value"
    by (subst proof_to_cbor_eq) (simp_all add: demo_value_def demo_package_def)
  then show ?thesis
    using parse_written [OF demo_ok _ demo_wf] demo_size by (simp add: demo_bytes_def default_limits_def)
qed

lemma demo_signed:
  assumes "al_ed25519 (ctx_allowed_algs ctx)" "ctx_limits ctx = default_limits" "a \<in> set (prf_attestations demo_package)"
  shows "signed_entry plain_b64 zero_hash plain_sig ctx a"
proof -
  have "\<exists>ca. attest plain_b64 zero_hash plain_sig demo_statement sample_key default_limits = Inr ca"
    using demo_statement_ok demo_statement_size canon_form_sort_maps
    by (auto simp: attest_Inr demo_statement_def status_content_def default_limits_def)
  then obtain ca where ca: "attest plain_b64 zero_hash plain_sig demo_statement sample_key default_limits = Inr ca" ..
  have "sign1_fits default_limits (ca_canonical ca)"
    using ca demo_statement_size by (auto simp: attest_Inr sign1_fits_def default_limits_def)
  from attest_verifies [OF engine_laws(1) plain_sig_law sample_key_seed assms(1) ca this] show ?thesis
    using ca assms(2,3) by (auto simp: signed_entry_def demo_package_def attest_Inr demo_statement_def status_content_def)
qed

section \<open>Properties\<close>

text \<open>
  C7. The verifier always returns. It refuses to run exactly on the documented caller errors
  (remote fetching requested, an oversized input vector); otherwise it returns a report that
  never decides policy, never blames the CANONICAL stage (the strict decoder has already
  rejected such bytes), and is invalid in both respects, with the parser's error code as
  its only failure, when the bytes are not a well-formed proof.
\<close>

theorem verify_proof_reports:
  assumes "hash_iter iter"
  shows "\<exists>r. verify_proof b64 h e iter bs ctx = Some r
    \<and> (\<forall>code. r = Inl code \<longleftrightarrow> ctx_misuse ctx = Some code)
    \<and> (\<forall>rep. r = Inr rep \<longrightarrow> rep_policy_decision rep = Indeterminate
        \<and> (\<forall>c \<in> set (rep_checks rep). chk_stage c = ''CANONICAL'' \<longrightarrow> chk_ok c)
        \<and> (\<forall>code. bindR (decode_strict bs (ctx_limits ctx)) (\<lambda>v. cbor_to_proof b64 v (ctx_limits ctx)) = Inl code \<longrightarrow>
             rep_cryptographic_validity rep = Invalid \<and> rep_evidence_validity rep = Invalid \<and> failure_codes rep = [code]))"
proof (cases "ctx_misuse ctx")
  case None
  obtain rep where rep: "verify_proof b64 h e iter bs ctx = Some (Inr rep)"
    using verify_proof_cases [OF assms None] by simp
  have "rep_policy_decision rep = Indeterminate \<and> (\<forall>c \<in> set (rep_checks rep). chk_stage c = ''CANONICAL'' \<longrightarrow> chk_ok c)"
  proof (cases "parse_proof b64 bs (ctx_limits ctx)")
    case (Inl code)
    then show ?thesis using verify_proof_cases [OF assms None, of b64 h e bs] rep
      by (auto simp: early_report_def finalize_fields split: sum.splits)
  next
    case (Inr p)
    then show ?thesis using verify_proof_Inr(2) [OF assms rep] no_canonical_failure
      by (auto simp: report_on_def full_report_def finalize_fields)
  qed
  then show ?thesis using rep None verify_proof_Inr(3) [OF assms rep] by (auto simp: parse_proof_def)
qed (simp add: verify_proof_def)

theorem verify_proof_reports_witness:
  "\<exists>rep. verify_proof plain_b64 zero_hash plain_sig remdups [0xff] VerifyCtx_default = Some (Inr rep)
     \<and> rep_cryptographic_validity rep = Invalid"
proof -
  have m: "ctx_misuse VerifyCtx_default = None" by (simp add: ctx_misuse_def VerifyCtx_default_def)
  have "decode_strict [0xff] default_limits = Inl ForbiddenCborConstruct"
    by (simp add: decode_strict_def default_limits_def decode_value.simps read_def decode_simple_def)
  then have d: "bindR (decode_strict [0xff] (ctx_limits VerifyCtx_default)) (\<lambda>v. cbor_to_proof plain_b64 v (ctx_limits VerifyCtx_default))
      = Inl ForbiddenCborConstruct" by (simp add: VerifyCtx_default_def)
  obtain r where r: "verify_proof plain_b64 zero_hash plain_sig remdups [0xff] VerifyCtx_default = Some r"
      "\<forall>code. r = Inl code \<longleftrightarrow> ctx_misuse VerifyCtx_default = Some code"
      "\<forall>rep. r = Inr rep \<longrightarrow> rep_cryptographic_validity rep = Invalid"
    using verify_proof_reports [OF hash_iter_remdups, of plain_b64 zero_hash plain_sig "[0xff]" VerifyCtx_default] d by blast
  then show ?thesis using m by (cases r) auto
qed

text \<open>
  C2. Cryptographic validity means exactly this: the bytes are a well-formed proof package, its
  recomputed id is the id it states, and every attestation carries a signature that verifies
  for its own issuer over its own content.
\<close>

theorem cryptographic_validity_iff:
  assumes "b64_law b64" "hash_iter iter" "verify_proof b64 h e iter bs ctx = Some (Inr rep)"
  shows "rep_cryptographic_validity rep = Valid \<longleftrightarrow>
    (\<exists>p. bindR (decode_strict bs (ctx_limits ctx)) (\<lambda>v. cbor_to_proof b64 v (ctx_limits ctx)) = Inr p
       \<and> rep_proof_id rep = Some (prf_id p) \<and> recomputed_proof_id b64 h p = Inr (prf_id p)
       \<and> (\<forall>a \<in> set (prf_attestations p).
            verify_attestation b64 h e (sa_sign1 a) (att_issuer (sa_content a)) (ctx_allowed_algs ctx) (ctx_limits ctx)
              = Inr (sa_content a, attestation_member_id b64 h (sa_content a))))"
proof (cases "parse_proof b64 bs (ctx_limits ctx)")
  case (Inl code)
  then show ?thesis using verify_proof_Inr(3) [OF assms(2,3) Inl] by (simp add: parse_proof_def)
next
  case (Inr p)
  then show ?thesis
    using verify_proof_Inr(2) [OF assms(2,3) Inr] crypto_on [OF assms(1)] recomputed_Inr [OF parse_proof_ok [OF Inr]]
    by (simp add: parse_proof_def signed_entry_def) (simp add: report_on_def full_report_def finalize_fields)
qed

definition demo_ctx :: verify_ctx where
  "demo_ctx = VerifyCtx_default\<lparr>ctx_verified_at := 100, ctx_revocations_known_at := Some 90, ctx_require_status_feed := False\<rparr>"

lemma demo_ctx_simps [simp]:
  "ctx_misuse demo_ctx = None" "al_ed25519 (ctx_allowed_algs demo_ctx)" "ctx_limits demo_ctx = default_limits"
  by (simp_all add: demo_ctx_def VerifyCtx_default_def ctx_misuse_def AllowedAlgs_strict_def AllowedAlgs_default_def)

lemma demo_report:
  "ctx_misuse ctx = None \<Longrightarrow> ctx_limits ctx = default_limits \<Longrightarrow>
   verify_proof plain_b64 zero_hash plain_sig remdups demo_bytes ctx
     = Some (Inr (report_on plain_b64 zero_hash plain_sig remdups ctx demo_package))"
  by (simp add: verify_proof_cases [OF hash_iter_remdups] demo_parses)

lemma demo_bound: "bound_id plain_b64 zero_hash demo_package = prf_id demo_package"
  by (simp add: bound_id_def proof_id_full_def demo_package_def id_with_def zero_hash_def)

theorem cryptographic_validity_iff_witness:
  "\<exists>rep. verify_proof plain_b64 zero_hash plain_sig remdups demo_bytes demo_ctx = Some (Inr rep)
     \<and> rep_cryptographic_validity rep = Valid"
proof -
  note rep = demo_report [of demo_ctx, simplified]
  have "parse_proof plain_b64 demo_bytes (ctx_limits demo_ctx) = Inr demo_package" by (simp add: demo_parses)
  then show ?thesis
    using cryptographic_validity_iff [OF engine_laws(1) hash_iter_remdups rep] demo_signed [of demo_ctx] demo_bound
      recomputed_Inr [OF demo_ok, of zero_hash] rep
    by (auto simp: parse_proof_def signed_entry_def report_on_def full_report_def finalize_fields)
qed

lemma time_validity_iff:
  "time_validity c ctx \<longleftrightarrow> ctx_verified_at ctx \<noteq> 0
    \<and> unat (att_issued_at c) \<le> unat (ctx_verified_at ctx) + unat (ctx_clock_skew_leeway ctx)
    \<and> (case att_expires_at c of None \<Rightarrow> True
       | Some x \<Rightarrow> unat (ctx_verified_at ctx) \<le> unat x + unat (ctx_clock_skew_leeway ctx))"
  by (auto simp: time_validity_def Let_def sat_add_less not_less split: option.splits)

lemma lifecycle_records:
  "snd (lifecycle_result b64 h e ctx p) =
     map (\<lambda>x. let s = lifecycle_of (applied_of b64 h e ctx p) (snd (time_stage ctx (verified_of b64 h e ctx p))) (stale_of b64 h e ctx p) x
              in \<lparr>lcr_object = ''att:'' @ fst x, lcr_status = s, lcr_code = lifecycle_code s\<rparr>)
       (statement_entries (verified_of b64 h e ctx p))"
  by (simp add: lifecycle_result_def lifecycle_stage_def Let_def comp_def)

lemma report_lifecycle: "rep_lifecycle (report_on b64 h e iter ctx p) = snd (lifecycle_result b64 h e ctx p)"
  by (simp add: report_on_def full_report_def finalize_fields)

lemma statement_entries_set:
  assumes "b64_law b64"
  shows "x \<in> set (statement_entries (verified_of b64 h e ctx p)) \<longleftrightarrow>
    (\<exists>a \<in> set (prf_attestations p). signed_entry b64 h e ctx a \<and> claim_kind_of (sa_content a) = KStatement
       \<and> x = (attestation_member_id b64 h (sa_content a), sa_content a))"
  by (auto simp: statement_entries_def verified_of_eq [OF assms])

lemma expired_in_time_failed:
  "(i, c) \<in> set (statement_entries v) \<Longrightarrow> \<not> time_validity c ctx \<Longrightarrow> i \<in> set (snd (time_stage ctx v))"
  by (force simp: time_stage_def)

lemma time_failed_fails:
  "i \<in> set (snd (time_stage ctx v)) \<Longrightarrow> \<exists>c. (i, c) \<in> set (statement_entries v) \<and> \<not> time_validity c ctx"
  by (auto simp: time_stage_def)

lemma in_force_on:
  assumes "b64_law b64" "rep_evidence_validity (report_on b64 h e iter ctx p) = Valid"
  shows "\<forall>r \<in> set (rep_lifecycle (report_on b64 h e iter ctx p)). lcr_status r \<in> {LActive, LSuperseded}"
    and "a \<in> set (prf_attestations p) \<Longrightarrow> signed_entry b64 h e ctx a \<Longrightarrow> claim_kind_of (sa_content a) = KStatement \<Longrightarrow>
      (\<exists>r \<in> set (rep_lifecycle (report_on b64 h e iter ctx p)). lcr_object r = ''att:'' @ attestation_member_id b64 h (sa_content a))
      \<and> time_validity (sa_content a) ctx"
proof -
  let ?v = "verified_of b64 h e ctx p"
  have time: "\<forall>x \<in> set (statement_entries ?v). time_validity (snd x) ctx"
    and life: "\<forall>x \<in> set (statement_entries ?v). lifecycle_ok (lifecycle_of (applied_of b64 h e ctx p) (snd (time_stage ctx ?v)) (stale_of b64 h e ctx p) x)"
    using assms(2) unfolding evidence_on by blast+
  have "lifecycle_of A (snd (time_stage ctx ?v)) s x \<in> {LActive, LSuperseded}"
    if "x \<in> set (statement_entries ?v)" "lifecycle_ok (lifecycle_of A (snd (time_stage ctx ?v)) s x)" for A s x
  proof -
    have "fst x \<notin> set (snd (time_stage ctx ?v))" using time time_failed_fails by force
    then show ?thesis using that(2) by (cases x) (auto simp: lifecycle_of_def Let_def split: if_splits)
  qed
  then show "\<forall>r \<in> set (rep_lifecycle (report_on b64 h e iter ctx p)). lcr_status r \<in> {LActive, LSuperseded}"
    using life by (auto simp: report_lifecycle lifecycle_records Let_def)
  show "(\<exists>r \<in> set (rep_lifecycle (report_on b64 h e iter ctx p)). lcr_object r = ''att:'' @ attestation_member_id b64 h (sa_content a))
      \<and> time_validity (sa_content a) ctx"
    if a: "a \<in> set (prf_attestations p)" "signed_entry b64 h e ctx a" "claim_kind_of (sa_content a) = KStatement"
  proof -
    have x: "(attestation_member_id b64 h (sa_content a), sa_content a) \<in> set (statement_entries ?v)"
      using a statement_entries_set [OF assms(1)] by blast
    then have "\<exists>r \<in> set (rep_lifecycle (report_on b64 h e iter ctx p)). lcr_object r = ''att:'' @ attestation_member_id b64 h (sa_content a)"
      by (force simp: report_lifecycle lifecycle_records Let_def)
    then show ?thesis using time x by force
  qed
qed

text \<open>
  C3. Valid evidence is timely and in force. If a report says the evidence is valid, then
  every lifecycle record is ACTIVE or SUPERSEDED, and for each signed statement of the package there is a record, the clock
  of the verifier is not zero, and the statement was issued and has not expired within the
  clock skew (bounds read over unbounded numbers: the saturating arithmetic never changes the
  answer). Of a package without statements nothing is said about the clock.
\<close>

theorem valid_evidence_in_force:
  assumes "b64_law b64" "hash_iter iter" "verify_proof b64 h e iter bs ctx = Some (Inr rep)"
    and "rep_evidence_validity rep = Valid"
  shows "\<exists>p. bindR (decode_strict bs (ctx_limits ctx)) (\<lambda>v. cbor_to_proof b64 v (ctx_limits ctx)) = Inr p
    \<and> (\<forall>r \<in> set (rep_lifecycle rep). lcr_status r \<in> {LActive, LSuperseded})
    \<and> (\<forall>a \<in> set (prf_attestations p). signed_entry b64 h e ctx a \<longrightarrow> claim_kind_of (sa_content a) = KStatement \<longrightarrow>
        (\<exists>r \<in> set (rep_lifecycle rep). lcr_object r = ''att:'' @ attestation_member_id b64 h (sa_content a))
        \<and> ctx_verified_at ctx \<noteq> 0
        \<and> unat (att_issued_at (sa_content a)) \<le> unat (ctx_verified_at ctx) + unat (ctx_clock_skew_leeway ctx)
        \<and> (case att_expires_at (sa_content a) of None \<Rightarrow> True
           | Some x \<Rightarrow> unat (ctx_verified_at ctx) \<le> unat x + unat (ctx_clock_skew_leeway ctx)))"
proof (cases "parse_proof b64 bs (ctx_limits ctx)")
  case (Inl code)
  then show ?thesis using verify_proof_Inr(3) [OF assms(2,3) Inl] assms(4) by simp
next
  case (Inr p)
  have rep: "rep = report_on b64 h e iter ctx p" by (rule verify_proof_Inr(2) [OF assms(2,3) Inr])
  show ?thesis
    using Inr in_force_on [OF assms(1) assms(4) [unfolded rep]]
    by (intro exI [of _ p]) (simp add: parse_proof_def time_validity_iff rep)
qed

lemma demo_verified: "al_ed25519 (ctx_allowed_algs ctx) \<Longrightarrow> ctx_limits ctx = default_limits \<Longrightarrow>
   verified_of plain_b64 zero_hash plain_sig ctx demo_package =
     [(attestation_member_id plain_b64 zero_hash demo_statement, demo_statement)]"
  using demo_signed [of ctx] by (simp add: verified_of_eq [OF engine_laws(1)] demo_package_def)

lemma demo_kind: "claim_kind_of demo_statement = KStatement"
  by (simp add: demo_statement_def status_content_def claim_kind_of_def)

lemma demo_graph:
  assumes "ctx_limits ctx = default_limits"
  shows "\<not> failed_in (graph_checks_of plain_b64 zero_hash remdups ctx demo_package) S"
proof -
  have "ns_len (nodes_of plain_b64 zero_hash demo_package (event_ids_of plain_b64 zero_hash demo_package)) = 1"
    by (simp add: nodes_of_def NodeSet_new_def ns_len_def event_ids_of_def att_ids_of_def evd_ids_of_def demo_package_def)
  moreover have "prf_relationships demo_package = []"
    by (simp add: demo_package_def)
  ultimately show ?thesis
    by (simp add: graph_checks_of_def graph_stage_def Let_def assms validate_graph_with_grounding_def check_supersedes_def check_chains_def
        supersedes_pairs_def check_derivation_acyclic_def derivation_edges_def check_acyclic_provenance_def provenance_edges_def
        endpoints_of_def result_check_def rel_ids_of_def failed_in_def)
      (auto simp: default_limits_def check_ok_def)
qed

lemma demo_linkage: "linkage_stage plain_b64 ctx demo_package = []"
  by (simp add: linkage_stage_def demo_package_def Let_def)

lemma demo_evidence:
  assumes "al_ed25519 (ctx_allowed_algs ctx)" "ctx_limits ctx = default_limits"
  shows "\<not> failed_in (fst (evidence_result plain_b64 zero_hash plain_sig ctx demo_package ids)) S"
proof -
  have "digest_check d (i, demo_statement) = []" for d i
    by (simp add: digest_check_def demo_statement_def status_content_def evidence_digest_hex_def)
  then show ?thesis
    by (simp add: evidence_result_def evidence_stage_def demo_verified assms statement_entries_def demo_kind
        evidence_ref_checks_def evd_ids_of_def Let_def failed_in_def)
      (simp add: demo_package_def demo_statement_def status_content_def)
qed

lemma demo_effects:
  assumes "al_ed25519 (ctx_allowed_algs ctx)" "ctx_limits ctx = default_limits"
  shows "effects_of plain_b64 zero_hash plain_sig ctx demo_package =
    concat (map (\<lambda>x. snd (supplied_effect plain_b64 zero_hash plain_sig ctx x)) (enumerate 0 (ctx_status_objects ctx)))"
    "embedded_status (verified_of plain_b64 zero_hash plain_sig ctx demo_package) = []"
  by (simp_all add: effects_of_def demo_verified assms embedded_effect_def demo_kind embedded_status_def)

lemma demo_lifecycle_active:
  assumes "al_ed25519 (ctx_allowed_algs ctx)" "ctx_limits ctx = default_limits" "applied_of plain_b64 zero_hash plain_sig ctx demo_package = []"
    and "time_validity demo_statement ctx"
  shows "rep_lifecycle (report_on plain_b64 zero_hash plain_sig iter ctx demo_package) =
    [\<lparr>lcr_object = ''att:'' @ attestation_member_id plain_b64 zero_hash demo_statement,
      lcr_status = (if stale_of plain_b64 zero_hash plain_sig ctx demo_package then LUnknown else LActive),
      lcr_code = (if stale_of plain_b64 zero_hash plain_sig ctx demo_package then Some RevocationUnknown else None)\<rparr>]"
  using assms(3,4)
  by (simp add: report_lifecycle lifecycle_records demo_verified assms(1,2) statement_entries_def demo_kind lifecycle_of_def
      compromises_of_def map_filter_simps time_stage_def Let_def)

lemma demo_ctx_time: "time_validity demo_statement demo_ctx"
  by (simp add: time_validity_iff demo_ctx_def VerifyCtx_default_def demo_statement_def status_content_def)

lemma demo_ctx_fresh: "\<not> stale_of plain_b64 zero_hash plain_sig demo_ctx demo_package"
  by (simp add: stale_of_def demo_effects revocation_stale_def) (simp add: demo_ctx_def VerifyCtx_default_def sat_sub_def)

lemma demo_ctx_applied: "applied_of plain_b64 zero_hash plain_sig demo_ctx demo_package = []"
  by (simp add: applied_of_def demo_effects applied_effects_def) (simp add: demo_ctx_def VerifyCtx_default_def)

lemma demo_valid: "rep_evidence_validity (report_on plain_b64 zero_hash plain_sig remdups demo_ctx demo_package) = Valid"
  unfolding evidence_on using demo_ctx_time demo_ctx_fresh
  by (simp add: demo_verified statement_entries_def demo_kind demo_evidence demo_graph demo_linkage demo_ctx_applied
      lifecycle_of_def compromises_of_def map_filter_simps time_stage_def Let_def)

theorem valid_evidence_in_force_witness:
  "\<exists>rep. verify_proof plain_b64 zero_hash plain_sig remdups demo_bytes demo_ctx = Some (Inr rep)
     \<and> rep_evidence_validity rep = Valid \<and> lcr_status (hd (rep_lifecycle rep)) \<in> {LActive, LSuperseded}"
proof -
  note rep = demo_report [of demo_ctx, simplified]
  have "rep_lifecycle (report_on plain_b64 zero_hash plain_sig remdups demo_ctx demo_package) \<noteq> []"
    using demo_lifecycle_active demo_ctx_applied demo_ctx_time by simp
  then show ?thesis
    using valid_evidence_in_force [OF engine_laws(1) hash_iter_remdups rep demo_valid] rep demo_valid hd_in_set by blast
qed

end
