(* ===== verification/Status_Feed.thy ===== *)
theory Status_Feed
  imports Verdict
begin

text \<open>
  What status objects do to a report: which effects reach the authority rules, that an
  authorised and timely revocation ends a statement's validity and that nothing else does, and how
  the verdict depends on the feed the caller supplies.
\<close>

section \<open>Status effects in the report\<close>

lemma last_of_Some: "last_of ps k = Some v \<Longrightarrow> (k, v) \<in> set ps"
  by (auto simp: last_of_def dest: map_of_SomeD)

lemma last_of_None: "last_of ps k = None \<longleftrightarrow> k \<notin> fst ` set ps"
  by (simp add: last_of_def map_of_eq_None_iff)

lemma supplied_in_effects:
  assumes "s \<in> set (ctx_status_objects ctx)"
    and "verify_status_object b64 h e (ss_sign1 s) (att_issuer (ss_content s)) (ctx_allowed_algs ctx) (ctx_limits ctx) = Inr c"
    and "\<And>obj. effect_of_claim c obj = Inr (mk_effect c obj t at)"
  shows "\<exists>obj. mk_effect c obj t at \<in> set (effects_of b64 h e ctx p)"
proof -
  obtain n where n: "n < length (ctx_status_objects ctx)" "s = ctx_status_objects ctx ! n"
    using assms(1) by (auto simp: in_set_conv_nth)
  then have "(n, s) \<in> set (enumerate 0 (ctx_status_objects ctx))" by (simp add: in_set_enumerate_eq)
  moreover have "snd (supplied_effect b64 h e ctx (n, s)) = [mk_effect c (''status:'' @ show_nat (n + 1)) t at]"
    using assms(2,3) by (simp add: supplied_effect_def effect_result_def Let_def)
  ultimately have "mk_effect c (''status:'' @ show_nat (n + 1)) t at \<in> set (effects_of b64 h e ctx p)"
    unfolding effects_of_def set_append set_concat set_map by (intro UnI2) force
  then show ?thesis by blast
qed

text \<open>The verified status claims that reach the authority rules, embedded or supplied.\<close>

definition status_claim :: "base64_engine \<Rightarrow> hash_engine \<Rightarrow> sig_engine \<Rightarrow> verify_ctx \<Rightarrow> proof_package \<Rightarrow> attestation_content \<Rightarrow> bool" where
  "status_claim b64 h e ctx p c \<longleftrightarrow>
     (\<exists>a \<in> set (prf_attestations p). signed_entry b64 h e ctx a \<and> sa_content a = c)
     \<or> (\<exists>s \<in> set (ctx_status_objects ctx).
          verify_status_object b64 h e (ss_sign1 s) (att_issuer (ss_content s)) (ctx_allowed_algs ctx) (ctx_limits ctx) = Inr c)"

lemma effect_of_claim_Inr:
  "effect_of_claim c obj = Inr eff \<longleftrightarrow> (\<exists>t at. eff = mk_effect c obj t at
     \<and> (case claim_kind_of c of
          KRevoke \<Rightarrow> revocation_target c = Inr t \<and> at = None
        | KSupersede \<Rightarrow> (\<exists>new. supersession_pair c = Inr (t, new)) \<and> at = None
        | KWithdraw \<Rightarrow> withdrawal_target c = Inr t \<and> at = None
        | KCompromise \<Rightarrow> (\<exists>n. compromise_mark c = Inr (t, n) \<and> at = Some n)
        | KStatement \<Rightarrow> False))"
  by (cases "claim_kind_of c") (auto simp: effect_of_claim_def bindR_Inr_iff)

lemma effects_from_claims:
  assumes "b64_law b64" "eff \<in> set (effects_of b64 h e ctx p)"
  shows "\<exists>c. status_claim b64 h e ctx p c \<and> effect_of_claim c (se_object eff) = Inr eff"
proof -
  have obj: "se_object eff = o'" if "effect_of_claim c o' = Inr eff" for c o'
    using that by (auto simp: effect_of_claim_Inr mk_effect_def)
  from assms(2) consider (embedded) x where "x \<in> set (verified_of b64 h e ctx p)" "eff \<in> set (fst (snd (embedded_effect x)))"
    | (supplied) n s where "(n, s) \<in> set (enumerate 0 (ctx_status_objects ctx))" "eff \<in> set (snd (supplied_effect b64 h e ctx (n, s)))"
    by (auto simp: effects_of_def)
  then show ?thesis
  proof cases
    case embedded
    then obtain a where a: "a \<in> set (prf_attestations p)" "signed_entry b64 h e ctx a"
        "x = (attestation_member_id b64 h (sa_content a), sa_content a)"
      by (auto simp: verified_of_eq [OF assms(1)])
    with embedded(2) have "effect_of_claim (sa_content a) (''att:'' @ fst x) = Inr eff"
      by (auto simp: embedded_effect_def effect_result_def Let_def split: if_splits sum.splits)
    then show ?thesis using a obj unfolding status_claim_def by metis
  next
    case supplied
    then obtain c where "verify_status_object b64 h e (ss_sign1 s) (att_issuer (ss_content s)) (ctx_allowed_algs ctx) (ctx_limits ctx) = Inr c"
        "effect_of_claim c (''status:'' @ show_nat (n + 1)) = Inr eff"
      by (auto simp: supplied_effect_def effect_result_def Let_def bindR_Inr_iff split: sum.splits)
    moreover have "s \<in> set (ctx_status_objects ctx)" using supplied(1) by (auto simp: in_set_enumerate_eq)
    ultimately show ?thesis using obj unfolding status_claim_def by metis
  qed
qed

lemma report_record:
  assumes "(i, c) \<in> set (statement_entries (verified_of b64 h e ctx p))"
  shows "\<exists>r \<in> set (rep_lifecycle (report_on b64 h e iter ctx p)). lcr_object r = ''att:'' @ i
     \<and> lcr_status r = lifecycle_of (applied_of b64 h e ctx p) (snd (time_stage ctx (verified_of b64 h e ctx p))) (stale_of b64 h e ctx p) (i, c)"
  using assms by (force simp: report_lifecycle lifecycle_records Let_def)

lemma revocation_on:
  assumes "b64_law b64"
    and "a \<in> set (prf_attestations p)" "signed_entry b64 h e ctx a" "claim_kind_of (sa_content a) = KStatement"
    and "s \<in> set (ctx_status_objects ctx)"
    and "verify_status_object b64 h e (ss_sign1 s) (att_issuer (ss_content s)) (ctx_allowed_algs ctx) (ctx_limits ctx) = Inr c"
    and "claim_kind_of c = KRevoke" "revocation_target c = Inr (attestation_member_id b64 h (sa_content a))"
    and "att_issuer c \<in> set (ctx_revocation_authorities ctx)
      \<or> (\<forall>a' \<in> set (prf_attestations p). attestation_member_id b64 h (sa_content a') = attestation_member_id b64 h (sa_content a)
           \<longrightarrow> att_issuer (sa_content a') = att_issuer c)"
    and "ctx_verified_at ctx \<noteq> 0" "att_issued_at c \<le> ctx_verified_at ctx"
  shows "rep_evidence_validity (report_on b64 h e iter ctx p) = Invalid"
    and "\<exists>r \<in> set (rep_lifecycle (report_on b64 h e iter ctx p)). lcr_object r = ''att:'' @ attestation_member_id b64 h (sa_content a)
         \<and> lcr_status r \<in> {LRevoked, LCompromised}"
proof -
  let ?i = "attestation_member_id b64 h (sa_content a)" and ?v = "verified_of b64 h e ctx p"
  have x: "(?i, sa_content a) \<in> set (statement_entries ?v)"
    using assms(2-4) statement_entries_set [OF assms(1)] by blast
  have "effect_of_claim c obj = Inr (mk_effect c obj ?i None)" for obj
    using assms(7,8) by (simp add: effect_of_claim_def)
  then obtain obj where obj: "mk_effect c obj ?i None \<in> set (effects_of b64 h e ctx p)"
    using supplied_in_effects [OF assms(5,6)] by blast
  obtain tc where tc: "last_of (statement_entries ?v) ?i = Some tc"
    using x last_of_None [of "statement_entries ?v" ?i] by (cases "last_of (statement_entries ?v) ?i") force+
  from last_of_Some [OF tc] obtain a' where "a' \<in> set (prf_attestations p)"
      "attestation_member_id b64 h (sa_content a') = ?i" "tc = sa_content a'"
    using statement_entries_set [OF assms(1)] by auto
  then have "empowered ctx p (evd_ids_of b64 h p) ?v (mk_effect c obj ?i None)"
    using assms(7,9) tc by (auto simp: empowered_def mk_effect_def Let_def)
  then have ap: "mk_effect c obj ?i None \<in> set (applied_of b64 h e ctx p)"
    using obj assms(10,11) by (simp add: applied_of_def applied_effects_def timely_def mk_effect_def)
  have st: "lifecycle_of (applied_of b64 h e ctx p) t st (?i, sa_content a) \<in> {LRevoked, LCompromised}" for t st
    using ap assms(7) by (auto simp: lifecycle_of_def Let_def list_ex_iff mk_effect_def)
  have "rep_evidence_validity (report_on b64 h e iter ctx p) \<noteq> Valid"
    unfolding evidence_on using x st by (metis insertE lifecycle_ok.simps(2,4) singletonD)
  then show "rep_evidence_validity (report_on b64 h e iter ctx p) = Invalid"
    by (cases "rep_evidence_validity (report_on b64 h e iter ctx p)") simp_all
  show "\<exists>r \<in> set (rep_lifecycle (report_on b64 h e iter ctx p)). lcr_object r = ''att:'' @ ?i \<and> lcr_status r \<in> {LRevoked, LCompromised}"
    using report_record [OF x, of iter] st by metis
qed

text \<open>
  C4. A revocation takes effect. If a signed statement is the target of a verified revocation that
  was supplied to the verifier, was issued no later than the verifier's clock, and comes
  from a revocation authority or from the issuer of every member with the target id, then the evidence is invalid
  and the statement's lifecycle record says REVOKED, or COMPROMISED, which outranks it.
\<close>

theorem revocation_takes_effect:
  assumes "b64_law b64" "hash_iter iter" "verify_proof b64 h e iter bs ctx = Some (Inr rep)"
    and "bindR (decode_strict bs (ctx_limits ctx)) (\<lambda>v. cbor_to_proof b64 v (ctx_limits ctx)) = Inr p"
    and "a \<in> set (prf_attestations p)" "signed_entry b64 h e ctx a" "claim_kind_of (sa_content a) = KStatement"
    and "s \<in> set (ctx_status_objects ctx)"
    and "verify_status_object b64 h e (ss_sign1 s) (att_issuer (ss_content s)) (ctx_allowed_algs ctx) (ctx_limits ctx) = Inr c"
    and "claim_kind_of c = KRevoke" "revocation_target c = Inr (attestation_member_id b64 h (sa_content a))"
    and "att_issuer c \<in> set (ctx_revocation_authorities ctx)
      \<or> (\<forall>a' \<in> set (prf_attestations p). attestation_member_id b64 h (sa_content a') = attestation_member_id b64 h (sa_content a)
           \<longrightarrow> att_issuer (sa_content a') = att_issuer c)"
    and "ctx_verified_at ctx \<noteq> 0" "att_issued_at c \<le> ctx_verified_at ctx"
  shows "rep_evidence_validity rep = Invalid
    \<and> (\<exists>r \<in> set (rep_lifecycle rep). lcr_object r = ''att:'' @ attestation_member_id b64 h (sa_content a)
         \<and> lcr_status r \<in> {LRevoked, LCompromised})"
proof -
  have "rep = report_on b64 h e iter ctx p"
    by (rule verify_proof_Inr(2) [OF assms(2,3)]) (simp add: parse_proof_def assms(4))
  then show ?thesis using revocation_on [OF assms(1,5-14)] by blast
qed

lemma demo_member_id: "attestation_member_id plain_b64 zero_hash c = ''att:v1:'' @ replicate 32 (char_of (0 :: nat))"
  by (simp add: attestation_member_id_def attestation_id_def id_with_def b64u_nopad_def plain_b64_def zero_hash_def str_of_bytes_def
      char_of_byte_def)

lemma demo_revocation:
  "\<exists>(s :: signed_status) c. verify_status_object plain_b64 zero_hash plain_sig (ss_sign1 s) (att_issuer (ss_content s)) AllowedAlgs_strict default_limits = Inr c
     \<and> claim_kind_of c = KRevoke \<and> revocation_target c = Inr (attestation_member_id plain_b64 zero_hash demo_statement)
     \<and> att_issuer c = att_issuer demo_statement \<and> att_issued_at c = 50"
proof -
  let ?t = "attestation_member_id plain_b64 zero_hash demo_statement"
  have "valid_utf8 (replicate n 0)" for n by (induction n) (simp_all add: in_range_def)
  then have t: "utf8_text ?t"
    by (simp add: demo_member_id utf8_text_def text_ok_def as_bytes_def byte_of_char_def in_range_def)
  have shape: "status_shape ''revoke'' [(''target'', MText ?t)]"
    using t by (simp add: status_shape_def utf8_text_def text_ok_def)
  from status_built [OF engine_laws(1) plain_sig_law sample_key_seed strict_ed25519 sample_key_ref t shape, of zero_hash 50]
  obtain ca :: created_attestation where ca: "verify_status_object plain_b64 zero_hash plain_sig (ca_sign1 ca)
      (key_ref plain_b64 plain_sig sample_key) AllowedAlgs_strict default_limits = Inr (ca_content ca)"
      "ca_content ca = status_content plain_b64 plain_sig sample_key ?t ''revoke'' [(''target'', MText ?t)] 50" by blast
  have target: "revocation_target (ca_content ca) = Inr ?t"
    using status_effects(1) [of "[]" _ ?t] ca(2) by (simp add: demo_member_id starts_with_def)
  have "att_issuer (ca_content ca) = key_ref plain_b64 plain_sig sample_key" "claim_kind_of (ca_content ca) = KRevoke"
    "att_issued_at (ca_content ca) = 50" "att_issuer demo_statement = key_ref plain_b64 plain_sig sample_key"
    by (simp_all add: ca(2) status_content_def claim_kind_of_def demo_statement_def)
  then show ?thesis using ca(1) target
    by (intro exI [of _ "\<lparr>ss_content = ca_content ca, ss_sign1 = ca_sign1 ca\<rparr>"] exI [of _ "ca_content ca"]) simp
qed

lemma demo_fed:
  "ctx_misuse (demo_ctx\<lparr>ctx_status_objects := [s]\<rparr>) = None" "ctx_limits (demo_ctx\<lparr>ctx_status_objects := [s]\<rparr>) = default_limits"
  "ctx_allowed_algs (demo_ctx\<lparr>ctx_status_objects := [s]\<rparr>) = AllowedAlgs_strict" "ctx_verified_at (demo_ctx\<lparr>ctx_status_objects := [s]\<rparr>) = 100"
  by (simp_all add: demo_ctx_def VerifyCtx_default_def ctx_misuse_def) (simp_all add: default_limits_def)

lemma demo_revoked:
  "\<exists>(s :: signed_status) c. verify_status_object plain_b64 zero_hash plain_sig (ss_sign1 s) (att_issuer (ss_content s))
         AllowedAlgs_strict default_limits = Inr c
     \<and> claim_kind_of c = KRevoke \<and> revocation_target c = Inr (attestation_member_id plain_b64 zero_hash demo_statement)
     \<and> att_issuer c = att_issuer demo_statement \<and> att_issued_at c = 50
     \<and> verify_proof plain_b64 zero_hash plain_sig remdups demo_bytes (demo_ctx\<lparr>ctx_status_objects := [s]\<rparr>)
        = Some (Inr (report_on plain_b64 zero_hash plain_sig remdups (demo_ctx\<lparr>ctx_status_objects := [s]\<rparr>) demo_package))
     \<and> (\<exists>r \<in> set (rep_lifecycle (report_on plain_b64 zero_hash plain_sig remdups (demo_ctx\<lparr>ctx_status_objects := [s]\<rparr>) demo_package)).
          lcr_status r \<in> {LRevoked, LCompromised})"
proof -
  obtain s :: signed_status and c where s: "verify_status_object plain_b64 zero_hash plain_sig (ss_sign1 s) (att_issuer (ss_content s)) AllowedAlgs_strict default_limits = Inr c"
     "claim_kind_of c = KRevoke" "revocation_target c = Inr (attestation_member_id plain_b64 zero_hash demo_statement)"
     "att_issuer c = att_issuer demo_statement" "att_issued_at c = 50"
    using demo_revocation by blast
  note ctx = demo_fed [of s]
  obtain a where a: "prf_attestations demo_package = [a]" "sa_content a = demo_statement" by (simp add: demo_package_def)
  have "signed_entry plain_b64 zero_hash plain_sig (demo_ctx\<lparr>ctx_status_objects := [s]\<rparr>) a"
    using demo_signed [of "demo_ctx\<lparr>ctx_status_objects := [s]\<rparr>"] a ctx strict_ed25519 by simp
  then show ?thesis
    using revocation_on(2) [OF engine_laws(1), of a demo_package zero_hash plain_sig "demo_ctx\<lparr>ctx_status_objects := [s]\<rparr>" s c remdups]
      a s demo_kind ctx demo_report [OF ctx(1,2)] by (intro exI [of _ s] exI [of _ c]) auto
qed

theorem revocation_takes_effect_witness:
  "\<exists>s rep. verify_proof plain_b64 zero_hash plain_sig remdups demo_bytes (demo_ctx\<lparr>ctx_status_objects := [s]\<rparr>) = Some (Inr rep)
     \<and> rep_evidence_validity rep = Invalid
     \<and> rep_evidence_validity (report_on plain_b64 zero_hash plain_sig remdups demo_ctx demo_package) = Valid"
proof -
  obtain s :: signed_status and c where s: "verify_status_object plain_b64 zero_hash plain_sig (ss_sign1 s) (att_issuer (ss_content s)) AllowedAlgs_strict default_limits = Inr c"
     "claim_kind_of c = KRevoke" "revocation_target c = Inr (attestation_member_id plain_b64 zero_hash demo_statement)"
     "att_issuer c = att_issuer demo_statement" "att_issued_at c = 50"
    using demo_revocation by blast
  note ctx = demo_fed [of s]
  note rep = demo_report [OF ctx(1,2)]
  have p: "bindR (decode_strict demo_bytes (ctx_limits (demo_ctx\<lparr>ctx_status_objects := [s]\<rparr>)))
      (\<lambda>v. cbor_to_proof plain_b64 v (ctx_limits (demo_ctx\<lparr>ctx_status_objects := [s]\<rparr>))) = Inr demo_package"
    using demo_parses by (simp add: parse_proof_def ctx(2))
  obtain a where a: "prf_attestations demo_package = [a]" "sa_content a = demo_statement" by (simp add: demo_package_def)
  have "signed_entry plain_b64 zero_hash plain_sig (demo_ctx\<lparr>ctx_status_objects := [s]\<rparr>) a"
    using demo_signed [of "demo_ctx\<lparr>ctx_status_objects := [s]\<rparr>"] a ctx strict_ed25519 by simp
  then show ?thesis
    using revocation_takes_effect [OF engine_laws(1) hash_iter_remdups rep p, of a s c] a s demo_kind ctx rep demo_valid by auto
qed

lemma effect_fields:
  assumes "effect_of_claim c obj = Inr eff"
  shows "se_issuer eff = att_issuer c" "se_issued_at eff = att_issued_at c" "se_kind eff = claim_kind_of c"
    and "se_kind eff = KRevoke \<Longrightarrow> revocation_target c = Inr (se_target eff)"
    and "se_kind eff = KCompromise \<Longrightarrow> se_at_time eff = Some n \<Longrightarrow> compromise_mark c = Inr (se_target eff, n)"
  using assms by (auto simp: effect_of_claim_Inr mk_effect_def)

lemma applied_claim:
  assumes "b64_law b64" "eff \<in> set (applied_of b64 h e ctx p)"
  shows "\<exists>c. status_claim b64 h e ctx p c \<and> effect_of_claim c (se_object eff) = Inr eff
    \<and> empowered ctx p (evd_ids_of b64 h p) (verified_of b64 h e ctx p) eff
    \<and> ctx_verified_at ctx \<noteq> 0 \<and> att_issued_at c \<le> ctx_verified_at ctx"
proof -
  have eff: "eff \<in> set (effects_of b64 h e ctx p)" "empowered ctx p (evd_ids_of b64 h p) (verified_of b64 h e ctx p) eff" "timely ctx eff"
    using assms(2) by (simp_all add: applied_of_def applied_effects_def)
  then obtain c where c: "status_claim b64 h e ctx p c" "effect_of_claim c (se_object eff) = Inr eff"
    using effects_from_claims [OF assms(1)] by blast
  note issued = effect_fields(2) [OF c(2)]
  show ?thesis using c eff issued by (auto simp: timely_def)
qed

lemma revoker:
  assumes "b64_law b64" "empowered ctx p ids (verified_of b64 h e ctx p) eff" "se_kind eff = KRevoke"
  shows "se_issuer eff \<in> set (ctx_revocation_authorities ctx)
    \<or> (\<exists>a \<in> set (prf_attestations p). signed_entry b64 h e ctx a \<and> attestation_member_id b64 h (sa_content a) = se_target eff
         \<and> att_issuer (sa_content a) = se_issuer eff)"
proof (cases "last_of (statement_entries (verified_of b64 h e ctx p)) (se_target eff)")
  case (Some tc)
  from last_of_Some [OF this] show ?thesis
    using assms Some statement_entries_set [OF assms(1)] by (auto simp: empowered_def Let_def)
qed (use assms in \<open>simp add: empowered_def Let_def\<close>)

text \<open>
  C5. Only the entitled end a statement's validity. A record says REVOKED only if a verified revocation
  of that statement, no later than the verifier's clock, comes from a
  revocation authority or from the issuer of a signed member with that id. It says COMPROMISED
  only if a verified, timely compromise mark, made by the marked identity or by an authority, names the
  statement or its issuer and an instant no later than the statement's issue.
\<close>

theorem ended_only_by_the_entitled:
  assumes "b64_law b64" "hash_iter iter" "verify_proof b64 h e iter bs ctx = Some (Inr rep)"
    and "bindR (decode_strict bs (ctx_limits ctx)) (\<lambda>v. cbor_to_proof b64 v (ctx_limits ctx)) = Inr p"
    and "r \<in> set (rep_lifecycle rep)" "lcr_status r \<in> {LRevoked, LCompromised}"
  shows "\<exists>a \<in> set (prf_attestations p). \<exists>c t.
    lcr_object r = ''att:'' @ attestation_member_id b64 h (sa_content a) \<and> signed_entry b64 h e ctx a
    \<and> status_claim b64 h e ctx p c \<and> ctx_verified_at ctx \<noteq> 0 \<and> att_issued_at c \<le> ctx_verified_at ctx
    \<and> (if lcr_status r = LRevoked
       then revocation_target c = Inr t \<and> t = attestation_member_id b64 h (sa_content a)
         \<and> (att_issuer c \<in> set (ctx_revocation_authorities ctx)
            \<or> (\<exists>a' \<in> set (prf_attestations p). signed_entry b64 h e ctx a' \<and> attestation_member_id b64 h (sa_content a') = t
                 \<and> att_issuer (sa_content a') = att_issuer c))
       else \<exists>n. compromise_mark c = Inr (t, n) \<and> n \<le> att_issued_at (sa_content a)
         \<and> t \<in> {att_issuer (sa_content a), attestation_member_id b64 h (sa_content a)}
         \<and> (att_issuer c \<in> set (ctx_revocation_authorities ctx) \<or> att_issuer c = t))"
proof -
  have rep: "rep = report_on b64 h e iter ctx p"
    by (rule verify_proof_Inr(2) [OF assms(2,3)]) (simp add: parse_proof_def assms(4))
  let ?A = "applied_of b64 h e ctx p" and ?T = "snd (time_stage ctx (verified_of b64 h e ctx p))" and ?s = "stale_of b64 h e ctx p"
  obtain a where a: "a \<in> set (prf_attestations p)" "signed_entry b64 h e ctx a"
      "lcr_object r = ''att:'' @ attestation_member_id b64 h (sa_content a)"
      "lcr_status r = lifecycle_of ?A ?T ?s (attestation_member_id b64 h (sa_content a), sa_content a)"
    using assms(5) unfolding rep report_lifecycle lifecycle_records
    by (auto simp: Let_def statement_entries_set [OF assms(1)])
  show ?thesis
  proof (cases "lcr_status r = LRevoked")
    case True
    then obtain eff where eff: "eff \<in> set ?A" "se_target eff = attestation_member_id b64 h (sa_content a)" "se_kind eff = KRevoke"
      using a(4) by (auto simp: lifecycle_of_def Let_def list_ex_iff split: if_splits)
    from applied_claim [OF assms(1) eff(1)] obtain c where c: "status_claim b64 h e ctx p c" "effect_of_claim c (se_object eff) = Inr eff"
        "empowered ctx p (evd_ids_of b64 h p) (verified_of b64 h e ctx p) eff" "ctx_verified_at ctx \<noteq> 0" "att_issued_at c \<le> ctx_verified_at ctx"
      by blast
    moreover have "se_issuer eff = att_issuer c" "revocation_target c = Inr (se_target eff)"
      using effect_fields(1,4) [OF c(2)] eff(3) by simp_all
    ultimately show ?thesis
      using True a(1-3) eff(2) revoker [OF assms(1) c(3) eff(3)] by (intro bexI [OF _ a(1)] exI [of _ c]) auto
  next
    case False
    then obtain t n where t: "(t, n) \<in> set (compromises_of ?A)" "n \<le> att_issued_at (sa_content a)"
        "t \<in> {att_issuer (sa_content a), attestation_member_id b64 h (sa_content a)}"
      using a(4) assms(6) by (auto simp: lifecycle_of_def Let_def list_ex_iff split: if_splits)
    then obtain eff where eff: "eff \<in> set ?A" "se_kind eff = KCompromise" "se_target eff = t" "se_at_time eff = Some n"
      by (auto simp: compromises_of_def List.map_filter_def split: if_splits)
    from applied_claim [OF assms(1) eff(1)] obtain c where c: "status_claim b64 h e ctx p c" "effect_of_claim c (se_object eff) = Inr eff"
        "empowered ctx p (evd_ids_of b64 h p) (verified_of b64 h e ctx p) eff" "ctx_verified_at ctx \<noteq> 0" "att_issued_at c \<le> ctx_verified_at ctx"
      by blast
    moreover have "se_issuer eff = att_issuer c" "compromise_mark c = Inr (t, n)"
      using effect_fields(1,5) [OF c(2)] eff(2-4) by simp_all
    ultimately show ?thesis
      using False a(1-3) t eff(2,3) by (intro bexI [OF _ a(1)] exI [of _ c] exI [of _ t]) (auto simp: empowered_def Let_def)
  qed
qed

theorem ended_only_by_the_entitled_witness:
  "\<exists>s rep r c. verify_proof plain_b64 zero_hash plain_sig remdups demo_bytes (demo_ctx\<lparr>ctx_status_objects := [s]\<rparr>) = Some (Inr rep)
     \<and> r \<in> set (rep_lifecycle rep) \<and> lcr_status r \<in> {LRevoked, LCompromised}
     \<and> status_claim plain_b64 zero_hash plain_sig (demo_ctx\<lparr>ctx_status_objects := [s]\<rparr>) demo_package c \<and> att_issued_at c \<le> 100"
proof -
  obtain s :: signed_status and r where s: "verify_proof plain_b64 zero_hash plain_sig remdups demo_bytes (demo_ctx\<lparr>ctx_status_objects := [s]\<rparr>)
        = Some (Inr (report_on plain_b64 zero_hash plain_sig remdups (demo_ctx\<lparr>ctx_status_objects := [s]\<rparr>) demo_package))"
      "r \<in> set (rep_lifecycle (report_on plain_b64 zero_hash plain_sig remdups (demo_ctx\<lparr>ctx_status_objects := [s]\<rparr>) demo_package))"
      "lcr_status r \<in> {LRevoked, LCompromised}"
    using demo_revoked by blast
  have "bindR (decode_strict demo_bytes (ctx_limits (demo_ctx\<lparr>ctx_status_objects := [s]\<rparr>)))
      (\<lambda>v. cbor_to_proof plain_b64 v (ctx_limits (demo_ctx\<lparr>ctx_status_objects := [s]\<rparr>))) = Inr demo_package"
    using demo_parses by (simp add: parse_proof_def demo_fed)
  from ended_only_by_the_entitled [OF engine_laws(1) hash_iter_remdups s(1) this s(2,3)]
  obtain c where "status_claim plain_b64 zero_hash plain_sig (demo_ctx\<lparr>ctx_status_objects := [s]\<rparr>) demo_package c"
      "att_issued_at c \<le> ctx_verified_at (demo_ctx\<lparr>ctx_status_objects := [s]\<rparr>)"
    by blast
  then show ?thesis using s demo_fed(4) [of s] by (metis (no_types, lifting))
qed

section \<open>The status feed\<close>

text \<open>Only the status stages read the feed and whether it is required.\<close>

lemma feed_independent:
  fixes ctx :: verify_ctx and fed :: "verify_ctx \<Rightarrow> verify_ctx"
  assumes "fed = (\<lambda>c. c\<lparr>ctx_status_objects := xs, ctx_require_status_feed := b\<rparr>)"
  shows "vocabulary_notes (fed ctx) p = vocabulary_notes ctx p"
    and "check_entry b64 h e (fed ctx) a i = check_entry b64 h e ctx a i"
    and "signature_stage b64 h e (fed ctx) p ids = signature_stage b64 h e ctx p ids"
    and "time_validity ct (fed ctx) = time_validity ct ctx"
    and "time_stage (fed ctx) v = time_stage ctx v"
    and "supplied_effect b64 h e (fed ctx) x = supplied_effect b64 h e ctx x"
    and "empowered (fed ctx) p ids v eff = empowered ctx p ids v eff"
    and "effect_checks (fed ctx) p ids v eff = effect_checks ctx p ids v eff"
    and "applied_effects (fed ctx) p ids v effs = applied_effects ctx p ids v effs"
    and "graph_stage iter (fed ctx) p ids nodes = graph_stage iter ctx p ids nodes"
    and "linkage_stage b64 (fed ctx) p = linkage_stage b64 ctx p"
    and "verified_of b64 h e (fed ctx) p = verified_of b64 h e ctx p"
    and "graph_checks_of b64 h iter (fed ctx) p = graph_checks_of b64 h iter ctx p"
proof -
  have sel: "ctx_limits (fed ctx) = ctx_limits ctx" "ctx_allowed_algs (fed ctx) = ctx_allowed_algs ctx"
    "ctx_verified_at (fed ctx) = ctx_verified_at ctx" "ctx_clock_skew_leeway (fed ctx) = ctx_clock_skew_leeway ctx"
    "ctx_revocation_authorities (fed ctx) = ctx_revocation_authorities ctx" "ctx_accepted_vocabularies (fed ctx) = ctx_accepted_vocabularies ctx"
    "ctx_extra_grounded (fed ctx) = ctx_extra_grounded ctx"
    "ctx_require_acyclic_provenance (fed ctx) = ctx_require_acyclic_provenance ctx"
    by (simp_all add: assms)
  show entry: "check_entry b64 h e (fed ctx) a i = check_entry b64 h e ctx a i" for a i
    unfolding check_entry_def sel ..
  show sig: "signature_stage b64 h e (fed ctx) p ids = signature_stage b64 h e ctx p ids" for ids
    by (simp add: signature_stage_def entry)
  show tv: "time_validity ct (fed ctx) = time_validity ct ctx" for ct
    unfolding time_validity_def sel ..
  show emp: "empowered (fed ctx) p ids v eff = empowered ctx p ids v eff" for ids v eff
    unfolding empowered_def sel ..
  have tm: "timely (fed ctx) eff = timely ctx eff" for eff unfolding timely_def sel ..
  show "effect_checks (fed ctx) p ids v eff = effect_checks ctx p ids v eff" "applied_effects (fed ctx) p ids v effs = applied_effects ctx p ids v effs"
    by (simp_all add: effect_checks_def applied_effects_def emp tm)
  show "time_stage (fed ctx) v = time_stage ctx v" by (simp add: time_stage_def tv)
  show "verified_of b64 h e (fed ctx) p = verified_of b64 h e ctx p" by (simp add: verified_of_def sig)
  show graph: "graph_stage iter (fed ctx) p ids nodes = graph_stage iter ctx p ids nodes" for ids nodes
    unfolding graph_stage_def sel ..
  show "graph_checks_of b64 h iter (fed ctx) p = graph_checks_of b64 h iter ctx p" by (simp add: graph_checks_of_def graph)
  show "vocabulary_notes (fed ctx) p = vocabulary_notes ctx p" "supplied_effect b64 h e (fed ctx) x = supplied_effect b64 h e ctx x"
    "linkage_stage b64 (fed ctx) p = linkage_stage b64 ctx p"
    unfolding vocabulary_notes_def supplied_effect_def linkage_stage_def sel by (rule refl)+
qed

text \<open>What a report depends on: the effects that apply, the staleness, and the status records.\<close>

lemma report_on_cong:
  fixes ctx :: verify_ctx and fed :: "verify_ctx \<Rightarrow> verify_ctx"
  assumes "fed = (\<lambda>c. c\<lparr>ctx_status_objects := xs, ctx_require_status_feed := b\<rparr>)"
    and "applied_of b64 h e (fed ctx) p = applied_of b64 h e ctx p" "stale_of b64 h e (fed ctx) p = stale_of b64 h e ctx p"
  shows "lifecycle_result b64 h e (fed ctx) p = lifecycle_result b64 h e ctx p"
    and "evidence_result b64 h e (fed ctx) p ids = evidence_result b64 h e ctx p ids"
    and "rep_cryptographic_validity (report_on b64 h e iter (fed ctx) p) = Valid \<longleftrightarrow>
         rep_cryptographic_validity (report_on b64 h e iter ctx p) = Valid"
    and "rep_evidence_validity (report_on b64 h e iter (fed ctx) p) = Valid \<longleftrightarrow>
         rep_evidence_validity (report_on b64 h e iter ctx p) = Valid"
proof -
  note feed = feed_independent [OF assms(1)]
  show life: "lifecycle_result b64 h e (fed ctx) p = lifecycle_result b64 h e ctx p"
    by (simp add: lifecycle_result_def feed assms(2,3))
  show ev: "evidence_result b64 h e (fed ctx) p ids = evidence_result b64 h e ctx p ids" for ids
    by (simp add: evidence_result_def feed assms(2) life)
  show "rep_evidence_validity (report_on b64 h e iter (fed ctx) p) = Valid \<longleftrightarrow>
         rep_evidence_validity (report_on b64 h e iter ctx p) = Valid"
    unfolding evidence_on by (simp add: feed assms(2,3) ev)
  have no: "\<not> failed_in (status_checks_of b64 h e c p) (set CRYPTO_STAGES)" "\<not> failed_in (revocation_notes c i n) (set CRYPTO_STAGES)" for c i n
    by (rule not_failed [OF stages_status] not_failed [OF equalityD1 [OF stages_notes]]; simp add: stage_lists)+
  show "rep_cryptographic_validity (report_on b64 h e iter (fed ctx) p) = Valid \<longleftrightarrow>
         rep_cryptographic_validity (report_on b64 h e iter ctx p) = Valid"
    unfolding report_on_def' full_report_def finalize_fields full_checks_def failed_in_simps
    by (simp add: feed life ev no)
qed

text \<open>
  C10. The requirement of a status feed asks for the presence of some object, not of a verified one: as soon as
  the caller supplies one status object, whatever its bytes are, or the package itself carries one signed
  status claim of anybody, the verifier gives the very report it gives when no feed is required.
\<close>

theorem feed_requirement_met_by_presence:
  assumes "b64_law b64" "hash_iter iter"
    and "ctx_status_objects ctx \<noteq> []
      \<or> (\<exists>p a. bindR (decode_strict bs (ctx_limits ctx)) (\<lambda>v. cbor_to_proof b64 v (ctx_limits ctx)) = Inr p
           \<and> a \<in> set (prf_attestations p) \<and> signed_entry b64 h e ctx a \<and> is_status (claim_kind_of (sa_content a)))"
  shows "verify_proof b64 h e iter bs ctx = verify_proof b64 h e iter bs (ctx\<lparr>ctx_require_status_feed := False\<rparr>)"
proof (cases "ctx_misuse ctx")
  case None
  define fed :: "verify_ctx \<Rightarrow> verify_ctx" where
    "fed = (\<lambda>c. c\<lparr>ctx_status_objects := ctx_status_objects ctx, ctx_require_status_feed := False\<rparr>)"
  have fed: "fed ctx = ctx\<lparr>ctx_require_status_feed := False\<rparr>" by (simp add: fed_def)
  have sel: "ctx_status_objects (fed ctx) = ctx_status_objects ctx" "ctx_limits (fed ctx) = ctx_limits ctx" "ctx_misuse (fed ctx) = ctx_misuse ctx"
    by (simp_all add: fed ctx_misuse_def)
  note feed = feed_independent [OF fed_def]
  have "report_on b64 h e iter (fed ctx) p = report_on b64 h e iter ctx p" if p: "parse_proof b64 bs (ctx_limits ctx) = Inr p" for p
  proof -
    let ?n = "length (embedded_status (verified_of b64 h e ctx p)) + length (ctx_status_objects ctx)"
    have "\<exists>x \<in> set (verified_of b64 h e ctx p). claim_kind_of (snd x) \<noteq> KStatement" if "ctx_status_objects ctx = []"
      using that p assms(3) by (fastforce simp: verified_of_eq [OF assms(1)] parse_proof_def is_status.simps)
    then have "embedded_status (verified_of b64 h e ctx p) \<noteq> []" if "ctx_status_objects ctx = []"
      using that by (force simp: embedded_status_def filter_empty_conv)
    then have n: "?n \<noteq> 0" by auto
    have "revocation_stale (fed ctx) n = revocation_stale ctx n" "revocation_notes (fed ctx) i n = revocation_notes ctx i n"
      if "n \<noteq> 0" for i n
      using that by (simp_all add: revocation_stale_def revocation_notes_def Let_def fed)
    note stale = this [OF n]
    have effs: "effects_of b64 h e (fed ctx) p = effects_of b64 h e ctx p" by (simp add: effects_of_def feed sel)
    have ap: "applied_of b64 h e (fed ctx) p = applied_of b64 h e ctx p" by (simp add: applied_of_def feed effs)
    have st: "stale_of b64 h e (fed ctx) p = stale_of b64 h e ctx p" by (simp add: stale_of_def feed sel stale)
    note same = report_on_cong(1,2) [OF fed_def ap st]
    have "status_checks_of b64 h e (fed ctx) p = status_checks_of b64 h e ctx p" 
      unfolding status_checks_of_def feed sel effs by (intro arg_cong2 [where f = append] arg_cong [where f = concat] map_cong refl feed)
    then show ?thesis
      unfolding report_on_def' full_report_def full_checks_def feed sel stale same ap by simp
  qed
  then show ?thesis
    unfolding fed [symmetric] verify_proof_cases [OF assms(2) None]
    by (subst verify_proof_cases [OF assms(2)]) (auto simp: sel None split: sum.splits)
next
  case (Some code)
  moreover have "ctx_misuse (ctx\<lparr>ctx_require_status_feed := False\<rparr>) = ctx_misuse ctx" by (simp add: ctx_misuse_def)
  ultimately show ?thesis by (simp add: verify_proof_def)
qed


definition junk_status :: signed_status where
  "junk_status = \<lparr>ss_content = demo_statement, ss_sign1 = [0xff]\<rparr>"

lemma junk_rejected:
  "verify_status_object plain_b64 zero_hash plain_sig (ss_sign1 junk_status) (att_issuer (ss_content junk_status)) al default_limits
     = Inl ForbiddenCborConstruct"
proof -
  have "decode_strict [0xff] default_limits = Inl ForbiddenCborConstruct"
    by (simp add: decode_strict_def default_limits_def decode_value.simps read_def decode_simple_def)
  then show ?thesis
    by (simp add: junk_status_def verify_status_object_def verify_attestation_def verify_sign1_def verify_sign1_with_aad_def
        parse_sign1_def)
      (simp add: default_limits_def EXTERNAL_AAD_def as_bytes_def)
qed


lemma junk_effect: "supplied_effect plain_b64 zero_hash plain_sig (demo_ctx\<lparr>ctx_status_objects := [junk_status]\<rparr>) (n, junk_status)
   = ([check_fail STATUS_STAGE (''status:'' @ show_nat (n + 1)) ForbiddenCborConstruct], [])"
  unfolding supplied_effect_def by (simp add: junk_rejected demo_fed effect_result_def Let_def)

lemma junk_fed_valid:
  "rep_evidence_validity (report_on plain_b64 zero_hash plain_sig remdups (demo_ctx\<lparr>ctx_status_objects := [junk_status]\<rparr>) demo_package) = Valid"
proof -
  define fed :: "verify_ctx \<Rightarrow> verify_ctx" where "fed = (\<lambda>c. c\<lparr>ctx_status_objects := [junk_status], ctx_require_status_feed := False\<rparr>)"
  have fed: "fed demo_ctx = demo_ctx\<lparr>ctx_status_objects := [junk_status]\<rparr>" by (simp add: fed_def demo_ctx_def)
  have "effects_of plain_b64 zero_hash plain_sig (fed demo_ctx) demo_package = []"
    using demo_effects(1) [of "fed demo_ctx"] demo_fed [of junk_status] strict_ed25519 junk_effect by (simp add: fed)
  then have ap: "applied_of plain_b64 zero_hash plain_sig (fed demo_ctx) demo_package = applied_of plain_b64 zero_hash plain_sig demo_ctx demo_package"
    unfolding demo_ctx_applied by (simp add: applied_of_def applied_effects_def)
  have "\<not> stale_of plain_b64 zero_hash plain_sig (fed demo_ctx) demo_package"
    by (simp add: fed stale_of_def revocation_stale_def) (simp add: demo_ctx_def VerifyCtx_default_def sat_sub_def)
  then have "stale_of plain_b64 zero_hash plain_sig (fed demo_ctx) demo_package = stale_of plain_b64 zero_hash plain_sig demo_ctx demo_package"
    using demo_ctx_fresh by simp
  then show ?thesis using report_on_cong(4) [OF fed_def ap] demo_valid unfolding fed by blast
qed

theorem feed_requirement_met_by_presence_witness:
  "\<exists>rep. verify_proof plain_b64 zero_hash plain_sig remdups demo_bytes
       (demo_ctx\<lparr>ctx_status_objects := [junk_status], ctx_require_status_feed := True\<rparr>) = Some (Inr rep)
     \<and> rep_evidence_validity rep = Valid
     \<and> verify_status_object plain_b64 zero_hash plain_sig (ss_sign1 junk_status) (att_issuer (ss_content junk_status))
         AllowedAlgs_strict default_limits = Inl ForbiddenCborConstruct"
proof -
  let ?ctx = "demo_ctx\<lparr>ctx_status_objects := [junk_status], ctx_require_status_feed := True\<rparr>"
  have eq: "?ctx\<lparr>ctx_require_status_feed := False\<rparr> = demo_ctx\<lparr>ctx_status_objects := [junk_status]\<rparr>" by (simp add: demo_ctx_def)
  have "ctx_status_objects ?ctx \<noteq> []" by simp
  then have "verify_proof plain_b64 zero_hash plain_sig remdups demo_bytes ?ctx =
      verify_proof plain_b64 zero_hash plain_sig remdups demo_bytes (?ctx\<lparr>ctx_require_status_feed := False\<rparr>)"
    by (intro feed_requirement_met_by_presence [OF engine_laws(1) hash_iter_remdups]) (rule disjI1)
  then show ?thesis unfolding eq demo_report [OF demo_fed(1,2)] using junk_fed_valid junk_rejected by blast
qed

text \<open>
  C9. A status object that has no effect changes no verdict, unless it is the first of a required feed. If the context requires no
  feed, or the feed was not empty, then adding to the feed an object that the status verifier rejects, or
  one issued after the verifier's clock, leaves both validities, the lifecycle, the evidence status, the withdrawals and
  the conflicts as they were; in a report that is cryptographically valid it also marks the feed as faulty.
\<close>

theorem ineffective_status_changes_nothing:
  assumes "hash_iter iter" "verify_proof b64 h e iter bs ctx = Some (Inr rep)"
    and "verify_proof b64 h e iter bs (ctx\<lparr>ctx_status_objects := ctx_status_objects ctx @ [s]\<rparr>) = Some (Inr rep')"
    and "case verify_status_object b64 h e (ss_sign1 s) (att_issuer (ss_content s)) (ctx_allowed_algs ctx) (ctx_limits ctx) of
        Inl code \<Rightarrow> True | Inr c \<Rightarrow> ctx_verified_at ctx < att_issued_at c"
    and "ctx_require_status_feed ctx \<Longrightarrow> ctx_status_objects ctx \<noteq> []"
  shows "rep_cryptographic_validity rep' = rep_cryptographic_validity rep \<and> rep_evidence_validity rep' = rep_evidence_validity rep
    \<and> rep_lifecycle rep' = rep_lifecycle rep \<and> rep_evidence_status rep' = rep_evidence_status rep
    \<and> rep_withdrawn_ids rep' = rep_withdrawn_ids rep \<and> rep_conflicts rep' = rep_conflicts rep
    \<and> (rep_cryptographic_validity rep = Valid \<longrightarrow> \<not> rep_status_inputs_valid rep')"
proof -
  define fed :: "verify_ctx \<Rightarrow> verify_ctx" where
    "fed = (\<lambda>c. c\<lparr>ctx_status_objects := ctx_status_objects ctx @ [s], ctx_require_status_feed := ctx_require_status_feed ctx\<rparr>)"
  have fed: "fed ctx = ctx\<lparr>ctx_status_objects := ctx_status_objects ctx @ [s]\<rparr>" by (simp add: fed_def)
  have lim: "ctx_limits (fed ctx) = ctx_limits ctx" by (simp add: fed)
  note rep' = assms(3) [folded fed]
  note feed = feed_independent [OF fed_def]
  show ?thesis
  proof (cases "parse_proof b64 bs (ctx_limits ctx)")
    case (Inl code)
    have "rep = rep'"
      using assms(2) rep' Inl
      unfolding verify_proof_cases [OF assms(1) verify_proof_Inr(1) [OF assms(1,2)]]
        verify_proof_cases [OF assms(1) verify_proof_Inr(1) [OF assms(1) rep']]
      by (simp add: lim)
    then show ?thesis using verify_proof_Inr(3) [OF assms(1,2) Inl] by simp
  next
    case (Inr p)
    have r: "rep = report_on b64 h e iter ctx p" "rep' = report_on b64 h e iter (fed ctx) p"
      using verify_proof_Inr(2) [OF assms(1,2) Inr] verify_proof_Inr(2) [OF assms(1) rep'] Inr by (simp_all add: lim)
    let ?x = "(length (ctx_status_objects ctx), s)"
    have effs: "effects_of b64 h e (fed ctx) p = effects_of b64 h e ctx p @ snd (supplied_effect b64 h e ctx ?x)"
      by (simp add: effects_of_def feed) (simp add: fed enumerate_append_eq)
    have late: "\<not> timely ctx eff" if "eff \<in> set (snd (supplied_effect b64 h e ctx ?x))" for eff
      using that assms(4) by (auto simp: supplied_effect_def effect_result_def Let_def bindR_Inr_iff effect_fields timely_def
          split: sum.splits dest: effect_fields(2))
    have ap: "applied_of b64 h e (fed ctx) p = applied_of b64 h e ctx p"
      using late by (simp add: applied_of_def feed effs) (auto simp: applied_effects_def filter_empty_conv)
    have st: "stale_of b64 h e (fed ctx) p = stale_of b64 h e ctx p"
      using assms(5) by (auto simp: stale_of_def feed) (auto simp: fed revocation_stale_def)
    note same = report_on_cong [OF fed_def ap st]
    have "failed_in (fst (supplied_effect b64 h e ctx ?x)) {STATUS_STAGE}
      \<or> (\<exists>eff \<in> set (snd (supplied_effect b64 h e ctx ?x)). \<not> timely ctx eff)"
    proof (cases "snd (supplied_effect b64 h e ctx ?x) = []")
      case True
      then show ?thesis by (auto simp: supplied_effect_def effect_result_def Let_def split: sum.splits)
    next
      case False
      then show ?thesis using late by (metis last_in_set)
    qed
    then have "failed_in (status_checks_of b64 h e (fed ctx) p) {STATUS_STAGE}"
      by (auto simp: status_checks_of_def feed effs failed_in_concat effect_checks_def) (auto simp: fed enumerate_append_eq failed_in_concat timely_def)
    then have "\<not> rep_status_inputs_valid rep'"
      unfolding r report_on_def' full_report_def finalize_fields full_checks_def failed_in_simps by blast
    moreover have "rep_lifecycle rep' = rep_lifecycle rep" "rep_evidence_status rep' = rep_evidence_status rep"
      "rep_withdrawn_ids rep' = rep_withdrawn_ids rep" "rep_conflicts rep' = rep_conflicts rep"
      unfolding r report_on_def' full_report_def finalize_fields by (simp_all add: same feed ap)
    moreover have "rep_cryptographic_validity rep' = rep_cryptographic_validity rep" "rep_evidence_validity rep' = rep_evidence_validity rep"
      using same(3,4) [of iter] unfolding r by (metis validity.exhaust)+
    ultimately show ?thesis by blast
  qed
qed

theorem ineffective_status_changes_nothing_witness:
  "\<exists>rep rep'. verify_proof plain_b64 zero_hash plain_sig remdups demo_bytes demo_ctx = Some (Inr rep)
     \<and> verify_proof plain_b64 zero_hash plain_sig remdups demo_bytes (demo_ctx\<lparr>ctx_status_objects := [junk_status]\<rparr>) = Some (Inr rep')
     \<and> rep_evidence_validity rep' = rep_evidence_validity rep \<and> rep_lifecycle rep' = rep_lifecycle rep"
proof -
  note rep = demo_report [of demo_ctx, simplified] demo_report [OF demo_fed(1,2) [of junk_status]]
  have "ctx_status_objects demo_ctx = []" "ctx_allowed_algs demo_ctx = AllowedAlgs_strict" "\<not> ctx_require_status_feed demo_ctx"
    by (simp_all add: demo_ctx_def VerifyCtx_default_def)
  then show ?thesis
    using ineffective_status_changes_nothing [OF hash_iter_remdups rep(1), of junk_status] rep junk_rejected by simp
qed

end
