(* ===== verification/Binding.thy ===== *)
theory Binding
  imports Status_Feed
begin

text \<open>
  What a report with valid evidence says of the package's references: evidence digests,
  evidence status, and the graph of relationships, through the lemmas of \<open>Graph\<close>.
\<close>

section \<open>Evidence and graph of a valid package\<close>

text \<open>The nodes of a package: the recomputed ids of its events, attestations and evidence.\<close>

definition members_of :: "base64_engine \<Rightarrow> hash_engine \<Rightarrow> proof_package \<Rightarrow> string set" where
  "members_of b64 h p = set (event_ids_of b64 h p) \<union> set (att_ids_of b64 h p) \<union> set (evd_ids_of b64 h p)"

lemma nodes_members: "ns_contains (nodes_of b64 h p (event_ids_of b64 h p)) i \<longleftrightarrow> i \<in> members_of b64 h p"
  by (auto simp: ns_contains_def nodes_of_def NodeSet_new_def members_of_def)

lemma validate_total: "hash_iter iter \<Longrightarrow> \<exists>r. validate_graph_with_grounding iter edges nodes l extra = Some r"
  using check_supersedes_total by (auto simp: validate_graph_with_grounding_def split: sum.splits)

lemma graph_checks_pass:
  assumes "hash_iter iter" "\<not> failed_in (graph_checks_of b64 h iter ctx p) {''RELATIONSHIPS'', ''GRAPH''}"
  defines "edges \<equiv> map (\<lambda>(r, i). \<lparr>er_content = r, er_id = i\<rparr>) (zip (prf_relationships p) (rel_ids_of b64 h p))"
    and "nodes \<equiv> nodes_of b64 h p (event_ids_of b64 h p)"
  shows "\<exists>g. validate_graph_with_grounding iter edges nodes (ctx_limits ctx)
      (if ctx_extra_grounded ctx = [] then None else Some (ctx_extra_grounded ctx)) = Some (Inr g)"
    and "check_derivation_acyclic iter edges nodes = Inr ()"
    and "ctx_require_acyclic_provenance ctx \<Longrightarrow> check_acyclic_provenance iter edges nodes = Inr ()"
proof -
  let ?v = "validate_graph_with_grounding iter edges nodes (ctx_limits ctx)
      (if ctx_extra_grounded ctx = [] then None else Some (ctx_extra_grounded ctx))"
  obtain r where r: "?v = Some r" using validate_total [OF assms(1)] by blast
  have "\<not> failed_in (case r of
      Inr g \<Rightarrow> [check_ok ''RELATIONSHIPS'' (''proof:'' @ prf_id p), check_ok ''GRAPH'' (''proof:'' @ prf_id p),
                result_check ''GRAPH'' (''proof:'' @ prf_id p) (check_derivation_acyclic iter edges nodes)]
               @ (if ctx_require_acyclic_provenance ctx
                  then [result_check ''GRAPH'' (''proof:'' @ prf_id p) (check_acyclic_provenance iter edges nodes)] else [])
    | Inl code \<Rightarrow> [check_fail (if code \<in> set [RelationshipUngrounded, DanglingReference] then ''RELATIONSHIPS'' else ''GRAPH'') (''proof:'' @ prf_id p) code])
      {''RELATIONSHIPS'', ''GRAPH''}"
    using assms(2) r unfolding graph_checks_of_def graph_stage_def Let_def edges_def nodes_def
    by (simp only: option.map option.case not_False_eq_True simp_thms)
  then have "(\<exists>g. r = Inr g) \<and> check_derivation_acyclic iter edges nodes = Inr ()
      \<and> (ctx_require_acyclic_provenance ctx \<longrightarrow> check_acyclic_provenance iter edges nodes = Inr ())"
    by (cases r; cases "check_derivation_acyclic iter edges nodes"; cases "check_acyclic_provenance iter edges nodes")
      (auto simp: result_check_def split: if_splits)
  then show "\<exists>g. ?v = Some (Inr g)" "check_derivation_acyclic iter edges nodes = Inr ()"
    "ctx_require_acyclic_provenance ctx \<Longrightarrow> check_acyclic_provenance iter edges nodes = Inr ()"
    using r by auto
qed

lemma edges_of_package:
  "set (derivation_edges (map (\<lambda>(r, i). \<lparr>er_content = r, er_id = i\<rparr>) (zip (prf_relationships p) (rel_ids_of b64 h p)))
        (nodes_of b64 h p (event_ids_of b64 h p)))
   = {(rel_from r, rel_to r) | r. r \<in> set (prf_relationships p) \<and> rel_ty r \<notin> {REFERENCES, EQUIVALENT}
        \<and> rel_from r \<in> members_of b64 h p \<and> rel_to r \<in> members_of b64 h p}"
  "er_content ` set (map (\<lambda>(r, i). \<lparr>er_content = r, er_id = i\<rparr>) (zip (prf_relationships p) (rel_ids_of b64 h p))) = set (prf_relationships p)"
  "set (supersedes_pairs (map (\<lambda>(r, i). \<lparr>er_content = r, er_id = i\<rparr>) (zip (prf_relationships p) (rel_ids_of b64 h p))))
   = {(rel_from r, rel_to r) | r. r \<in> set (prf_relationships p) \<and> rel_ty r = SUPERSEDES}"
proof -
  have zip: "zip xs (map f xs) = map (\<lambda>x. (x, f x)) xs" for xs :: "relationship list" and f :: "relationship \<Rightarrow> string"
    by (induction xs) auto
  show "set (derivation_edges (map (\<lambda>(r, i). \<lparr>er_content = r, er_id = i\<rparr>) (zip (prf_relationships p) (rel_ids_of b64 h p)))
        (nodes_of b64 h p (event_ids_of b64 h p)))
   = {(rel_from r, rel_to r) | r. r \<in> set (prf_relationships p) \<and> rel_ty r \<notin> {REFERENCES, EQUIVALENT}
        \<and> rel_from r \<in> members_of b64 h p \<and> rel_to r \<in> members_of b64 h p}"
    by (force simp: derivation_edges_def rel_ids_of_def zip nodes_members)
  show "er_content ` set (map (\<lambda>(r, i). \<lparr>er_content = r, er_id = i\<rparr>) (zip (prf_relationships p) (rel_ids_of b64 h p))) = set (prf_relationships p)"
    by (force simp: rel_ids_of_def zip)
  show "set (supersedes_pairs (map (\<lambda>(r, i). \<lparr>er_content = r, er_id = i\<rparr>) (zip (prf_relationships p) (rel_ids_of b64 h p))))
   = {(rel_from r, rel_to r) | r. r \<in> set (prf_relationships p) \<and> rel_ty r = SUPERSEDES}"
    by (force simp: supersedes_pairs_def rel_ids_of_def zip)
qed

lemma evidence_passes:
  assumes "\<not> failed_in (fst (evidence_stage p ids nodes v ap lc)) {''EVIDENCE''}" "length ids = length (prf_evidence p)"
  shows "a \<in> set (prf_attestations p) \<Longrightarrow> att_evidence_ref (sa_content a) = Some r \<Longrightarrow> ns_contains nodes r"
    and "(i, c) \<in> set (statement_entries v) \<Longrightarrow> evidence_digest_hex (att_claim c) = Some res \<Longrightarrow>
      \<exists>ev eid. (ev, eid) \<in> set (zip (prf_evidence p) ids) \<and> att_evidence_ref c = Some eid
        \<and> res = Inr (map lower_ascii (lower_hex (hr_digest (evd_digest ev))))"
    and "x \<in> set (snd (evidence_stage p ids nodes v ap lc)) \<Longrightarrow> esr_status x \<notin> {ECompromised, EWithdrawn, ERevoked}"
proof -
  let ?d = "last_of (zip ids (map (\<lambda>ev. lower_hex (hr_digest (evd_digest ev))) (prf_evidence p)))"
  let ?l = "last_of (List.map_filter (\<lambda>l. map_option (\<lambda>i. (i, lcr_status l)) (strip_prefix ''att:'' (lcr_object l))) lc)"
  have ok: "chk_ok c" if "c \<in> set (evidence_ref_checks p nodes) \<union> set (concat (map (digest_check ?d) (statement_entries v)))
      \<union> set (map fst (map (\<lambda>(ev, eid). evidence_check eid (evidence_state ap ?l ev eid)) (zip (prf_evidence p) ids)))" for c
  proof -
    have "c \<in> set (fst (evidence_stage p ids nodes v ap lc))" using that by (auto simp: evidence_stage_def Let_def)
    moreover from this have "chk_stage c = ''EVIDENCE''"
      using that by (auto simp: evidence_check_stage dest: digest_check_stage evidence_ref_stage)
    ultimately show ?thesis using assms(1) by (auto simp: failed_in_def)
  qed
  show "ns_contains nodes r" if "a \<in> set (prf_attestations p)" "att_evidence_ref (sa_content a) = Some r"
  proof (rule ccontr)
    assume "\<not> ns_contains nodes r"
    then have "check_fail ''EVIDENCE'' (''proof:'' @ prf_id p) DanglingReference \<in> set (evidence_ref_checks p nodes)"
      using that by (force simp: evidence_ref_checks_def)
    then show False using ok by fastforce
  qed
  show "\<exists>ev eid. (ev, eid) \<in> set (zip (prf_evidence p) ids) \<and> att_evidence_ref c = Some eid
        \<and> res = Inr (map lower_ascii (lower_hex (hr_digest (evd_digest ev))))"
    if x: "(i, c) \<in> set (statement_entries v)" and d: "evidence_digest_hex (att_claim c) = Some res"
  proof -
    have good: "\<forall>k \<in> set (digest_check ?d (i, c)). chk_ok k" using x ok by fastforce
    then obtain s where s: "res = Inr s" using d by (cases res) (auto simp: digest_check_def)
    then obtain eid actual where e: "att_evidence_ref c = Some eid" "?d eid = Some actual" "map lower_ascii actual = s"
      using good d by (auto simp: digest_check_def Let_def split: option.splits if_splits)
    then have "(eid, actual) \<in> set (zip ids (map (\<lambda>ev. lower_hex (hr_digest (evd_digest ev))) (prf_evidence p)))"
      using last_of_Some by fast
    then obtain n where n: "n < length ids" "ids ! n = eid" "actual = lower_hex (hr_digest (evd_digest (prf_evidence p ! n)))"
      using assms(2) by (auto simp: set_zip)
    then have "(prf_evidence p ! n, eid) \<in> set (zip (prf_evidence p) ids)" using assms(2) by (auto simp: set_zip)
    then show ?thesis using s e n by blast
  qed
  show "esr_status x \<notin> {ECompromised, EWithdrawn, ERevoked}" if x: "x \<in> set (snd (evidence_stage p ids nodes v ap lc))"
  proof -
    obtain ev eid where ev: "(ev, eid) \<in> set (zip (prf_evidence p) ids)" "x = snd (evidence_check eid (evidence_state ap ?l ev eid))"
      using x by (auto simp: evidence_stage_def Let_def)
    then have "chk_ok (fst (evidence_check eid (evidence_state ap ?l ev eid)))" using ok by fastforce
    then show ?thesis
      unfolding ev(2) evidence_state_def evidence_check_def Let_def
      by (auto split: if_splits option.splits lifecycle_status.splits)
  qed
qed


text \<open>
  C6. Valid evidence is bound and resolved. If a report says the evidence is valid, every evidence reference of an
  attestation names a member of the package; a signed statement that claims an evidence digest refers to an item
  of the package whose digest it states; no item is withdrawn, revoked or compromised;
  the relationships have distinct ids, are well-formed, resolved and grounded; and neither
  the derivation edges nor the SUPERSEDES edges have a cycle.
\<close>

theorem valid_evidence_bound:
  assumes "b64_law b64" "hash_iter iter" "verify_proof b64 h e iter bs ctx = Some (Inr rep)"
    and "bindR (decode_strict bs (ctx_limits ctx)) (\<lambda>v. cbor_to_proof b64 v (ctx_limits ctx)) = Inr p"
    and "rep_evidence_validity rep = Valid"
  shows "(\<forall>a \<in> set (prf_attestations p). \<forall>r. att_evidence_ref (sa_content a) = Some r \<longrightarrow> r \<in> members_of b64 h p)
    \<and> (\<forall>a \<in> set (prf_attestations p). \<forall>res. signed_entry b64 h e ctx a \<longrightarrow> claim_kind_of (sa_content a) = KStatement \<longrightarrow>
         evidence_digest_hex (att_claim (sa_content a)) = Some res \<longrightarrow>
         (\<exists>ev \<in> set (prf_evidence p). att_evidence_ref (sa_content a) = Some (evidence_member_id b64 h ev)
            \<and> res = Inr (map lower_ascii (lower_hex (hr_digest (evd_digest ev))))))
    \<and> (\<forall>x \<in> set (rep_evidence_status rep). esr_status x \<notin> {ECompromised, EWithdrawn, ERevoked})
    \<and> distinct (rel_ids_of b64 h p)
    \<and> (\<forall>r \<in> set (prf_relationships p). edge_ok (NodeSet_new (event_ids_of b64 h p @ att_ids_of b64 h p @ evd_ids_of b64 h p))
         (if ctx_extra_grounded ctx = [] then None else Some (ctx_extra_grounded ctx)) r)
    \<and> acyclic {(rel_from r, rel_to r) | r. r \<in> set (prf_relationships p) \<and> rel_ty r \<notin> {REFERENCES, EQUIVALENT}
         \<and> rel_from r \<in> members_of b64 h p \<and> rel_to r \<in> members_of b64 h p}
    \<and> acyclic {(rel_from r, rel_to r) | r. r \<in> set (prf_relationships p) \<and> rel_ty r = SUPERSEDES}"
proof -
  have rep: "rep = report_on b64 h e iter ctx p"
    by (rule verify_proof_Inr(2) [OF assms(2,3)]) (simp add: parse_proof_def assms(4))
  let ?edges = "map (\<lambda>(r, i). \<lparr>er_content = r, er_id = i\<rparr>) (zip (prf_relationships p) (rel_ids_of b64 h p))"
  let ?nodes = "nodes_of b64 h p (event_ids_of b64 h p)"
  have ev: "\<not> failed_in (fst (evidence_result b64 h e ctx p (event_ids_of b64 h p))) {''EVIDENCE''}"
    and graph: "\<not> failed_in (graph_checks_of b64 h iter ctx p) {''RELATIONSHIPS'', ''GRAPH''}"
    using assms(5) unfolding rep evidence_on by blast+
  have len: "length (evd_ids_of b64 h p) = length (prf_evidence p)" by (simp add: evd_ids_of_def)
  have item: "ev \<in> set (prf_evidence p) \<and> eid = evidence_member_id b64 h ev" if "(ev, eid) \<in> set (zip (prf_evidence p) (evd_ids_of b64 h p))" for ev eid
    using that by (auto simp: evd_ids_of_def in_set_zip)
  note evidence = evidence_passes [OF ev [unfolded evidence_result_def] len]
  note graph = graph_checks_pass [OF assms(2) graph]
  obtain g where g: "validate_graph_with_grounding iter ?edges ?nodes (ctx_limits ctx)
      (if ctx_extra_grounded ctx = [] then None else Some (ctx_extra_grounded ctx)) = Some (Inr g)"
    using graph(1) by blast
  have ids: "map er_id ?edges = rel_ids_of b64 h p" by (simp add: comp_def case_prod_unfold map_snd_zip rel_ids_of_def)
  have "acyclic (set (derivation_edges ?edges ?nodes))" using graph(2) derivation.decides [OF assms(2)] by (simp split: if_splits)
  note this [unfolded edges_of_package]
  moreover have "acyclic (set (supersedes_pairs ?edges))"
    using g by (auto simp: validate_graph_Inr_iff check_supersedes_Inr_iff [OF assms(2)])
  note this [unfolded edges_of_package]
  moreover have "distinct (rel_ids_of b64 h p)" using g unfolding validate_graph_Inr_iff ids by blast
  moreover have "edge_ok ?nodes (if ctx_extra_grounded ctx = [] then None else Some (ctx_extra_grounded ctx)) r" if "r \<in> set (prf_relationships p)" for r
    using g that unfolding validate_graph_Inr_iff edges_of_package(2) [symmetric, of p b64 h] by blast
  moreover have "r \<in> members_of b64 h p" if "a \<in> set (prf_attestations p)" "att_evidence_ref (sa_content a) = Some r" for a r
    using evidence(1) [OF that] by (simp add: nodes_members)
  moreover have "\<exists>ev \<in> set (prf_evidence p). att_evidence_ref (sa_content a) = Some (evidence_member_id b64 h ev)
      \<and> res = Inr (map lower_ascii (lower_hex (hr_digest (evd_digest ev))))"
    if "a \<in> set (prf_attestations p)" "signed_entry b64 h e ctx a" "claim_kind_of (sa_content a) = KStatement"
      "evidence_digest_hex (att_claim (sa_content a)) = Some res" for a res
  proof -
    have "(attestation_member_id b64 h (sa_content a), sa_content a) \<in> set (statement_entries (verified_of b64 h e ctx p))"
      using that statement_entries_set [OF assms(1)] by blast
    from evidence(2) [OF this that(4)] show ?thesis using item by blast
  qed
  moreover have "rep_evidence_status rep = snd (evidence_result b64 h e ctx p (event_ids_of b64 h p))"
    unfolding rep report_on_def' full_report_def finalize_fields ..
  ultimately show ?thesis
    using evidence(3) unfolding evidence_result_def nodes_of_def by (intro conjI ballI allI impI) simp_all
qed

theorem valid_evidence_bound_witness:
  "\<exists>rep. verify_proof plain_b64 zero_hash plain_sig remdups demo_bytes demo_ctx = Some (Inr rep)
     \<and> rep_evidence_validity rep = Valid \<and> distinct (rel_ids_of plain_b64 zero_hash demo_package)"
proof -
  note rep = demo_report [of demo_ctx, simplified]
  have "bindR (decode_strict demo_bytes (ctx_limits demo_ctx)) (\<lambda>v. cbor_to_proof plain_b64 v (ctx_limits demo_ctx)) = Inr demo_package"
    using demo_parses by (simp add: parse_proof_def)
  from valid_evidence_bound [OF engine_laws(1) hash_iter_remdups rep this demo_valid]
  show ?thesis using rep demo_valid by blast
qed

end
