(* ===== verification/Decision.thy ===== *)
theory Decision
  imports Verdict
begin

text \<open>
  Verification and policy in one call, \<^verbatim>\<open>proof-policy/src/combine.rs\<close>: one context for the pipeline
  and for the policy, the projection of the report in between. The lemmas show what the projection sees of
  a report of the pipeline, and reduce the call to one equation over the reference semantics of the policy.
\<close>

section \<open>Verification and policy together\<close>

definition EvalInputs_from :: "verification_context \<Rightarrow> eval_inputs" where
  "EvalInputs_from c = \<lparr>in_trusted_issuers = vc_trusted_issuers c, in_revocations = RevocationSet_empty,
     in_verified_at = vc_verified_at c, in_skew_leeway = vc_clock_skew_leeway c\<rparr>"

record verified_decision =
  vd_report :: verify_report
  vd_state :: verified_state
  vd_outcome :: policy_outcome

definition verify_and_evaluate ::
  "base64_engine \<Rightarrow> hash_engine \<Rightarrow> sig_engine \<Rightarrow> (string list \<Rightarrow> string list) \<Rightarrow> bytes \<Rightarrow> verification_context \<Rightarrow>
   policy \<Rightarrow> revocation_set \<Rightarrow> verified_decision result option" where
  "verify_and_evaluate b64 h e iter bs c pol revocations =
     (if length (vc_trusted_issuers c) > max_trusted_issuers (vc_limits c) then Some (Inl LimitExceeded)
      else if card (rs_revoked revocations) > max_status_objects (vc_limits c) then Some (Inl LimitExceeded)
      else Option.bind (verify_proof b64 h e iter bs (to_verify_ctx c)) (\<lambda>r.
        case r of
          Inl code \<Rightarrow> Some (Inl code)
        | Inr report \<Rightarrow>
            (case bindR (decode_strict bs (vc_limits c)) (\<lambda>value.
                  bindR (cbor_to_proof b64 value (vc_limits c)) (\<lambda>p.
                  state_from_report_and_proof b64 h report p)) of
               Inl code \<Rightarrow> Some (Inl code)
             | Inr st \<Rightarrow>
                 map_option (\<lambda>outcome. Inr \<lparr>vd_report = report, vd_state = st, vd_outcome = outcome\<rparr>)
                   (evaluate_policy st pol ((EvalInputs_from c)\<lparr>in_revocations := revocations\<rparr>)))))"

section \<open>From the bytes to the decision\<close>

lemma rejected_entry: "snd (check_entry b64 h e ctx a i) = None \<Longrightarrow> \<forall>c \<in> set (fst (check_entry b64 h e ctx a i)). \<not> chk_ok c"
proof (cases "parse_sign1 (sa_sign1 a) (ctx_limits ctx)")
  case (Inr s)
  then show "snd (check_entry b64 h e ctx a i) = None \<Longrightarrow> ?thesis"
    by (cases "verify_attestation b64 h e (sa_sign1 a) (self_issuer b64 s) (ctx_allowed_algs ctx) (ctx_limits ctx)")
      (auto simp: check_entry_def Let_def split: if_splits)
qed (simp add: check_entry_def Let_def)

lemma verified_ids_report:
  assumes "b64_law b64"
  shows "set (verified_ids (report_on b64 h e iter ctx p)) = fst ` set (verified_of b64 h e ctx p)"
proof -
  define sig :: "check_record list \<Rightarrow> string set" where "sig cs = {i. \<exists>c \<in> set cs. chk_ok c \<and> chk_stage c = ''SIGNATURES'' \<and> strip_prefix ''att:'' (chk_object c) = Some i}" for cs
  have sig_append: "sig (xs @ ys) = sig xs \<union> sig ys" for xs ys by (auto simp: sig_def)
  have other: "sig cs = {}" if "\<And>c. c \<in> set cs \<Longrightarrow> chk_stage c \<noteq> ''SIGNATURES''" for cs using that by (auto simp: sig_def)
  have refs: "c \<in> set (check_refs b64 i rs) \<Longrightarrow> chk_stage c = ''GRAPH''" for c i rs
    by (induction rs) (auto split: sum.splits if_splits)
  have graph: "c \<in> set (graph_checks_of b64 h iter ctx p) \<Longrightarrow> chk_stage c \<in> {''RELATIONSHIPS'', ''GRAPH''}" for c
    by (cases "graph_stage iter ctx p (rel_ids_of b64 h p) (nodes_of b64 h p (event_ids_of b64 h p))")
      (simp_all only: graph_checks_of_def option.case list.set empty_iff graph_stage_name)
  have none: "sig (vocabulary_notes ctx p) = {}" "sig (fst (time_stage ctx v)) = {}" "sig (status_checks_of b64 h e ctx p) = {}"
    "sig (fst (lifecycle_stage a t s v)) = {}" "sig (revocation_notes ctx i n) = {}" "sig (fst (evidence_stage p ids nodes v a lc)) = {}"
    "sig (graph_checks_of b64 h iter ctx p) = {}" "sig (linkage_stage b64 ctx p) = {}" "sig (fst (conflict_stage p v)) = {}" "sig [policy_note] = {}"
    for v a t s i n ids nodes lc
  proof -
    show "sig (vocabulary_notes ctx p) = {}"
      by (rule other) (auto simp: vocabulary_notes_def Let_def split: option.splits if_splits)
    show "sig (fst (time_stage ctx v)) = {}" by (rule other) (auto simp: time_stage_def split: if_splits)
    show "sig (status_checks_of b64 h e ctx p) = {}" by (rule other) (auto dest: status_stage_name simp: STATUS_STAGE_def)
    show "sig (fst (lifecycle_stage a t s v)) = {}" by (rule other) (auto simp: lifecycle_stage_def Let_def split: if_splits)
    show "sig (revocation_notes ctx i n) = {}" by (rule other) (auto simp: revocation_notes_def Let_def split: if_splits)
    show "sig (fst (evidence_stage p ids nodes v a lc)) = {}" by (rule other) (auto dest: evidence_stage_name)
    show "sig (graph_checks_of b64 h iter ctx p) = {}" by (rule other) (auto dest: graph)
    show "sig (linkage_stage b64 ctx p) = {}" by (rule other) (auto simp: linkage_stage_def Let_def dest: refs split: if_splits)
    show "sig (fst (conflict_stage p v)) = {}"
      by (rule other) (auto simp: conflict_stage_def contradiction_of_def Let_def split: option.splits)
    show "sig [policy_note] = {}" by (rule other) simp
  qed
  have one: "sig (fst (check_entry b64 h e ctx x (attestation_member_id b64 h (sa_content x)))) =
      (if signed_entry b64 h e ctx x then {attestation_member_id b64 h (sa_content x)} else {})" for x
  proof (cases "signed_entry b64 h e ctx x")
    case True
    then show ?thesis
      using check_entry_eq [OF assms, of h e ctx x] strip_prefix_append [of "''att:''"] by (simp add: sig_def del: strip_prefix.simps)
  next
    case False
    then have "snd (check_entry b64 h e ctx x (attestation_member_id b64 h (sa_content x))) = None"
      using check_entry_eq [OF assms, of h e ctx x] by (metis snd_conv)
    then have "\<forall>c \<in> set (fst (check_entry b64 h e ctx x (attestation_member_id b64 h (sa_content x)))). \<not> chk_ok c"
      by (rule rejected_entry)
    then show ?thesis using False by (auto simp: sig_def)
  qed
  have zip: "zip xs (map f xs) = map (\<lambda>x. (x, f x)) xs" for xs :: "stored_attestation list" and f :: "stored_attestation \<Rightarrow> string"
    by (induction xs) auto
  have "sig (concat (map f xs)) = (\<Union>x \<in> set xs. sig (f x))" for f :: "stored_attestation \<Rightarrow> check_record list" and xs by (auto simp: sig_def)
  moreover have "sig (if prf_attestations p = [] then [check_note ''SIGNATURES'' (''proof:'' @ prf_id p)] else []) = {}" by (simp add: sig_def)
  ultimately have "sig (fst (signature_stage b64 h e ctx p (att_ids_of b64 h p))) = fst ` set (verified_of b64 h e ctx p)"
    unfolding verified_of_eq [OF assms]
    by (simp add: signature_stage_def att_ids_of_def Let_def sig_append zip comp_def one image_image) blast
  moreover have "set (verified_ids rep) = sig (rep_checks rep)" for rep
    by (force simp: verified_ids_def sig_def map_filter_set)
  moreover have "sig [check_ok ''PARSE'' ''proof:bytes'', check_ok ''SCHEMA'' (''proof:'' @ prf_id p)] = {}"
    "sig [check_ok ''CANONICAL'' (''proof:'' @ prf_id p)] = {}"
    "sig [if bound_id b64 h p \<noteq> prf_id p then check_fail ''IDENTIFIERS'' (''proof:'' @ prf_id p) IdMismatch
          else check_ok ''IDENTIFIERS'' (''proof:'' @ prf_id p)] = {}"
    by (auto simp: sig_def)
  moreover have "rep_checks (report_on b64 h e iter ctx p) =
      full_checks b64 h e ctx p (event_ids_of b64 h p) (bound_id b64 h p) (graph_checks_of b64 h iter ctx p) @ [policy_note]"
    unfolding report_on_def' full_report_def finalize_fields ..
  ultimately show ?thesis
    unfolding full_checks_def lifecycle_result_def evidence_result_def by (simp only: sig_append none Un_empty_left Un_empty_right)
qed

lemma report_status_objects:
  assumes "b64_law b64"
  shows "set (rep_status_objects (report_on b64 h e iter ctx p)) =
    {attestation_member_id b64 h (sa_content a) | a. a \<in> set (prf_attestations p) \<and> signed_entry b64 h e ctx a
       \<and> claim_kind_of (sa_content a) \<noteq> KStatement}"
  by (force simp: report_on_def full_report_def finalize_fields embedded_status_def verified_of_eq [OF assms])

text \<open>The attestations that the policy sees: those whose id no status object of the package has.\<close>

definition visible_statements :: "base64_engine \<Rightarrow> hash_engine \<Rightarrow> proof_package \<Rightarrow> attestation_content set" where
  "visible_statements b64 h p = {sa_content a | a. a \<in> set (prf_attestations p)
     \<and> (\<forall>a' \<in> set (prf_attestations p). attestation_member_id b64 h (sa_content a') = attestation_member_id b64 h (sa_content a)
          \<longrightarrow> claim_kind_of (sa_content a') = KStatement)}"

lemma statements_set:
  "set (statements_of b64 h rep p) = {c. c \<in> sa_content ` set (prf_attestations p)
     \<and> attestation_member_id b64 h c \<in> set (verified_ids rep) \<and> attestation_member_id b64 h c \<notin> set (rep_status_objects rep)}"
  by (auto simp: statements_of_def is_statement_def att_id_of_def attestation_member_id_def)

lemma to_verify_ctx_fields [simp]:
  "ctx_limits (to_verify_ctx c) = vc_limits c" "ctx_allowed_algs (to_verify_ctx c) = vc_allowed_algs c"
  "ctx_verified_at (to_verify_ctx c) = vc_verified_at c" "ctx_clock_skew_leeway (to_verify_ctx c) = vc_clock_skew_leeway c"
  by (simp_all add: to_verify_ctx_def)

lemma projection_of_report: "\<exists>st. state_from_report_and_proof b64 h (report_on b64 h e iter ctx p) p = Inr st"
  by (simp add: state_from_report_and_proof_def report_on_def full_report_def finalize_fields ok_or_def Let_def)

lemma state_projection_valid:
  "state_from_report_and_proof b64 h rep p = Inr st \<Longrightarrow>
     (st_crypto_valid st \<longleftrightarrow> rep_cryptographic_validity rep = Valid) \<and> (st_evidence_valid st \<longleftrightarrow> rep_evidence_validity rep = Valid)
     \<and> st_claims st = map (claim_summary_of b64 h) (statements_of b64 h rep p)
     \<and> st_attestation_times st = map (\<lambda>c. (att_issued_at c, att_expires_at c)) (statements_of b64 h rep p)"
  by (auto simp: state_from_report_and_proof_def result_iff Let_def)

lemma verify_and_evaluate_eq:
  assumes "hash_iter iter"
  shows "verify_and_evaluate b64 h e iter bs c pol revs = Some (
    if length (vc_trusted_issuers c) > max_trusted_issuers (vc_limits c) then Inl LimitExceeded
    else if card (rs_revoked revs) > max_status_objects (vc_limits c) then Inl LimitExceeded
    else case ctx_misuse (to_verify_ctx c) of
      Some code \<Rightarrow> Inl code
    | None \<Rightarrow> bindR (parse_proof b64 bs (vc_limits c)) (\<lambda>p.
        let report = report_on b64 h e iter (to_verify_ctx c) p
        in bindR (state_from_report_and_proof b64 h report p) (\<lambda>st.
             let inp = (EvalInputs_from c)\<lparr>in_revocations := revs\<rparr>
             in Inr \<lparr>vd_report = report, vd_state = st, vd_outcome =
               \<lparr>out_policy_id = pol_id pol, out_decision = policy_meaning pol st inp,
                out_results = (if policy_meaning pol st inp = Indeterminate then []
                  else map (\<lambda>r. \<lparr>rr_requirement = describe r, rr_passed = holds r st inp\<rparr>) (policy_leaves pol))\<rparr>\<rparr>)))"
proof (cases "ctx_misuse (to_verify_ctx c)")
  case None
  note v = verify_proof_cases [OF assms None, of b64 h e bs, unfolded to_verify_ctx_fields]
  have parse: "bindR (decode_strict bs (vc_limits c)) (\<lambda>v. bindR (cbor_to_proof b64 v (vc_limits c)) F) =
      bindR (parse_proof b64 bs (vc_limits c)) F" for F :: "proof_package \<Rightarrow> verified_state result"
    by (simp add: parse_proof_def bindR_assoc)
  show ?thesis
  proof (cases "parse_proof b64 bs (vc_limits c)")
    case (Inl code)
    then show ?thesis unfolding verify_and_evaluate_def v parse by (simp add: None)
  next
    case (Inr p)
    obtain st where "state_from_report_and_proof b64 h (report_on b64 h e iter (to_verify_ctx c) p) p = Inr st"
      using projection_of_report by blast
    with Inr show ?thesis unfolding verify_and_evaluate_def v parse by (simp add: None evaluate_policy_total Let_def)
  qed
next
  case (Some code)
  then have "verify_proof b64 h e iter bs (to_verify_ctx c) = Some (Inl code)" by (simp add: verify_proof_def)
  with Some show ?thesis unfolding verify_and_evaluate_def by simp
qed


definition demo_vc :: verification_context where
  "demo_vc = VerificationContext_default\<lparr>vc_verified_at := 100, vc_revocations_known_at := Some 90, vc_require_status_feed := False\<rparr>"

definition demo_policy :: policy where
  "demo_policy = \<lparr>pol_version = 1, pol_id = ''p'', pol_requirements = [NotExpired], pol_expression = None\<rparr>"

lemma demo_vc_ctx: "to_verify_ctx demo_vc = demo_ctx"
  by (simp add: demo_vc_def demo_ctx_def to_verify_ctx_def VerificationContext_default_def VerifyCtx_default_def)

lemma demo_pass:
  "\<exists>d. verify_and_evaluate plain_b64 zero_hash plain_sig remdups demo_bytes demo_vc demo_policy RevocationSet_empty = Some (Inr d)
     \<and> out_decision (vd_outcome d) = Pass"
proof -
  let ?rep = "report_on plain_b64 zero_hash plain_sig remdups demo_ctx demo_package"
  obtain st where st: "state_from_report_and_proof plain_b64 zero_hash ?rep demo_package = Inr st"
    using projection_of_report by blast
  have lim: "vc_limits demo_vc = default_limits" by (simp add: demo_vc_def VerificationContext_default_def)
  have signed: "\<forall>a \<in> set (prf_attestations demo_package). signed_entry plain_b64 zero_hash plain_sig demo_ctx a" using demo_signed by simp
  then have crypto: "rep_cryptographic_validity ?rep = Valid" by (simp add: crypto_on [OF engine_laws(1)] demo_bound)
  have "set (statements_of plain_b64 zero_hash ?rep demo_package) \<subseteq> {demo_statement}"
    by (auto simp: statements_set demo_package_def)
  then have times: "\<forall>x \<in> set (st_attestation_times st). x = (5, None)"
    using state_projection_valid [OF st] by (auto simp: demo_statement_def status_content_def)
  have "within_validity ((EvalInputs_from demo_vc)\<lparr>in_revocations := RevocationSet_empty\<rparr>) (5, None)"
    by (simp add: within_validity_def EvalInputs_from_def demo_vc_def VerificationContext_default_def)
  then have "holds NotExpired st ((EvalInputs_from demo_vc)\<lparr>in_revocations := RevocationSet_empty\<rparr>)"
    using times by (auto dest!: set_zip_rightD simp del: split_paired_All)
  then have "policy_meaning demo_policy st ((EvalInputs_from demo_vc)\<lparr>in_revocations := RevocationSet_empty\<rparr>) = Pass"
    using state_projection_valid [OF st] crypto demo_valid
    by (simp add: policy_meaning_def demo_policy_def del: holds.simps)
  then show ?thesis
    unfolding verify_and_evaluate_eq [OF hash_iter_remdups]
    by (simp add: demo_vc_ctx lim demo_parses st Let_def) (simp add: demo_vc_def VerificationContext_default_def RevocationSet_empty_def default_limits_def)
qed

end
