(* ===== verification/Resolve.thy ===== *)
theory Resolve
  imports Verdict
begin

text \<open>
  The layers over the verifier: transitive resolution of referenced proofs against an artifact
  store, \<^verbatim>\<open>proof-verify/src/resolve.rs\<close>, and batches, \<^verbatim>\<open>batch.rs\<close>. A store is its \<^verbatim>\<open>get\<close>; the
  verifier under the caller's context is an argument of the loops, instantiated with \<open>verify_proof\<close>.
\<close>

section \<open>Reports of the resolver\<close>

datatype unresolved_reason = Unavailable | FoundOther string | DepthExceeded | OverBudget | StoreFailure string

record resolved_proof =
  rp_id :: string
  rp_depth :: nat
  rp_report :: verify_report

record unresolved_ref =
  ur_id :: string
  ur_depth :: nat
  ur_reason :: unresolved_reason

record resolution_report =
  rn_root :: verify_report
  rn_resolved :: "resolved_proof list"
  rn_unresolved :: "unresolved_ref list"

definition resolution_complete :: "resolution_report \<Rightarrow> bool" where
  "resolution_complete rep \<longleftrightarrow> rn_unresolved rep = []"

record ancestor =
  anc_id :: string
  anc_depth :: nat
  anc_resolved :: bool

text \<open>The entry of one id in the ordered map: the least depth of a resolved record, else the first unresolved one.\<close>

definition ancestor_of :: "resolution_report \<Rightarrow> string \<Rightarrow> ancestor" where
  "ancestor_of rep i =
     (case map rp_depth (filter (\<lambda>r. rp_id r = i) (rn_resolved rep)) of
        d # ds \<Rightarrow> \<lparr>anc_id = i, anc_depth = foldl min d ds, anc_resolved = True\<rparr>
      | [] \<Rightarrow> (case filter (\<lambda>u. ur_id u = i) (rn_unresolved rep) of
               u # us \<Rightarrow> \<lparr>anc_id = i, anc_depth = ur_depth u, anc_resolved = False\<rparr>
             | [] \<Rightarrow> \<lparr>anc_id = i, anc_depth = 0, anc_resolved = False\<rparr>))"

definition ancestors :: "resolution_report \<Rightarrow> ancestor list" where
  "ancestors rep =
     sort_key (\<lambda>a. (anc_depth a, anc_id a))
       (map (ancestor_of rep) (sort (remdups (map rp_id (rn_resolved rep) @ map ur_id (rn_unresolved rep)))))"

section \<open>Resolution\<close>

definition USIZE_MAX :: nat where "USIZE_MAX = 2 ^ 64 - 1"

definition fetch_budget :: "limits \<Rightarrow> nat \<Rightarrow> nat" where
  "fetch_budget l max_transitive_depth =
     max 1 (min USIZE_MAX (min USIZE_MAX (max_transitive_depth * max_referenced_proofs l) + 1))"

type_synonym verifier = "bytes \<Rightarrow> verify_report result option"
type_synonym store_reader = "string \<Rightarrow> string + bytes option"

function resolve_loop ::
  "verifier \<Rightarrow> store_reader \<Rightarrow> nat \<Rightarrow> nat \<Rightarrow> string list \<Rightarrow> (string \<times> nat) list \<Rightarrow> resolved_proof list \<Rightarrow> unresolved_ref list \<Rightarrow>
   (resolved_proof list \<times> unresolved_ref list) result option" where
  "resolve_loop verify get max_d budget visited [] res unres = Some (Inr (res, unres))"
| "resolve_loop verify get max_d budget visited ((i, d) # queue) res unres =
     (if i \<in> set visited then resolve_loop verify get max_d budget visited queue res unres
      else let give_up = (\<lambda>reason. resolve_loop verify get max_d budget (i # visited) queue res
                            (unres @ [\<lparr>ur_id = i, ur_depth = d, ur_reason = reason\<rparr>]))
      in if d > max_d then give_up DepthExceeded
      else if length res + length unres \<ge> budget then give_up OverBudget
      else case get i of
          Inl e \<Rightarrow> give_up (StoreFailure e)
        | Inr None \<Rightarrow> give_up Unavailable
        | Inr (Some bs) \<Rightarrow>
            (case verify bs of
               None \<Rightarrow> None
             | Some (Inl code) \<Rightarrow> Some (Inl code)
             | Some (Inr report) \<Rightarrow>
                 if rep_proof_id report \<noteq> Some i
                 then give_up (FoundOther (case rep_proof_id report of Some j \<Rightarrow> j | None \<Rightarrow> ''<unparseable>''))
                 else resolve_loop verify get max_d budget (i # visited)
                        (queue @ map (\<lambda>child. (child, d + 1)) (rep_referenced_proofs report))
                        (res @ [\<lparr>rp_id = i, rp_depth = d, rp_report = report\<rparr>]) unres))"
  by pat_completeness auto
termination
  by (relation "measures [\<lambda>(verify, get, max_d, budget, visited, queue, res, unres). budget - (length res + length unres),
      \<lambda>(verify, get, max_d, budget, visited, queue, res, unres). length queue]") auto

definition resolve_with :: "verifier \<Rightarrow> limits \<Rightarrow> bytes \<Rightarrow> store_reader \<Rightarrow> nat \<Rightarrow> resolution_report result option" where
  "resolve_with verify l root_canonical get max_transitive_depth =
     (case verify root_canonical of
        None \<Rightarrow> None
      | Some (Inl code) \<Rightarrow> Some (Inl code)
      | Some (Inr root) \<Rightarrow>
          map_option (\<lambda>r. bindR r (\<lambda>(res, unres). Inr \<lparr>rn_root = root, rn_resolved = res, rn_unresolved = unres\<rparr>))
            (resolve_loop verify get max_transitive_depth (fetch_budget l max_transitive_depth)
               (case rep_proof_id root of Some i \<Rightarrow> [i] | None \<Rightarrow> [])
               (map (\<lambda>i. (i, 1)) (rep_referenced_proofs root)) [] []))"

definition resolve_proof_chain ::
  "base64_engine \<Rightarrow> hash_engine \<Rightarrow> sig_engine \<Rightarrow> (string list \<Rightarrow> string list) \<Rightarrow> bytes \<Rightarrow> store_reader \<Rightarrow> verify_ctx \<Rightarrow> nat \<Rightarrow>
   resolution_report result option" where
  "resolve_proof_chain b64 h e iter root_canonical get ctx max_transitive_depth =
     resolve_with (\<lambda>bs. verify_proof b64 h e iter bs ctx) (ctx_limits ctx) root_canonical get max_transitive_depth"

section \<open>Descendants\<close>

definition union_get :: "store_reader \<Rightarrow> store_reader \<Rightarrow> store_reader" where
  "union_get a b i =
     bindR (a i) (\<lambda>from_a. bindR (b i) (\<lambda>from_b.
     case (from_a, from_b) of
       (Some x, Some y) \<Rightarrow> if x \<noteq> y then Inl ''store equivocation'' else Inr (Some x)
     | (Some x, None) \<Rightarrow> Inr (Some x)
     | (None, y) \<Rightarrow> Inr y))"

fun load_candidates :: "verifier \<Rightarrow> memory_store \<Rightarrow> string list \<Rightarrow> bytes list \<Rightarrow> (memory_store \<times> string list) result option" where
  "load_candidates verify mem ids [] = Some (Inr (mem, ids))"
| "load_candidates verify mem ids (bs # rest) =
     (case verify bs of
        None \<Rightarrow> None
      | Some (Inl code) \<Rightarrow> Some (Inl code)
      | Some (Inr report) \<Rightarrow>
          (case rep_proof_id report of
             None \<Rightarrow> load_candidates verify mem ids rest
           | Some i \<Rightarrow>
               (case store_put mem i bs of
                  Inl _ \<Rightarrow> Some (Inl SchemaViolation)
                | Inr mem' \<Rightarrow> load_candidates verify mem' (ids @ [i]) rest)))"

fun descend ::
  "(bytes \<Rightarrow> resolution_report result option) \<Rightarrow> store_reader \<Rightarrow> string \<Rightarrow> string list \<Rightarrow> string list \<Rightarrow> string list result option" where
  "descend resolve get target [] out = Some (Inr out)"
| "descend resolve get target (i # ids) out =
     (if i = target then descend resolve get target ids out
      else case get i of
          Inl _ \<Rightarrow> Some (Inl SchemaViolation)
        | Inr None \<Rightarrow> Some (Inl SchemaViolation)
        | Inr (Some bs) \<Rightarrow>
            (case resolve bs of
               None \<Rightarrow> None
             | Some (Inl code) \<Rightarrow> Some (Inl code)
             | Some (Inr rep) \<Rightarrow>
                 descend resolve get target ids
                   (if list_ex (\<lambda>a. anc_id a = target) (ancestors rep) then out @ [i] else out)))"

definition descendants_of ::
  "base64_engine \<Rightarrow> hash_engine \<Rightarrow> sig_engine \<Rightarrow> (string list \<Rightarrow> string list) \<Rightarrow> string \<Rightarrow> bytes list \<Rightarrow> store_reader \<Rightarrow> verify_ctx \<Rightarrow>
   nat \<Rightarrow> string list result option" where
  "descendants_of b64 h e iter target candidates store ctx max_transitive_depth =
     (case load_candidates (\<lambda>bs. verify_proof b64 h e iter bs ctx) MemoryStore_new [] candidates of
        None \<Rightarrow> None
      | Some (Inl code) \<Rightarrow> Some (Inl code)
      | Some (Inr (mem, ids)) \<Rightarrow>
          (let union = union_get (\<lambda>i. Inr (store_get mem i)) store
           in map_option (\<lambda>r. bindR r (\<lambda>out. Inr (sort out)))
                (descend (\<lambda>bs. resolve_proof_chain b64 h e iter bs union ctx max_transitive_depth) union target ids [])))"

section \<open>Batches\<close>

record batch_member =
  bm_index :: nat
  bm_report :: verify_report

record batch_report =
  br_members :: "batch_member list"
  br_crypto_valid_count :: nat
  br_evidence_valid_count :: nat

definition batch_complete :: "batch_report \<Rightarrow> nat \<Rightarrow> bool" where
  "batch_complete rep inputs \<longleftrightarrow> length (br_members rep) = inputs"

definition batch_all_valid :: "batch_report \<Rightarrow> bool" where
  "batch_all_valid rep \<longleftrightarrow> br_members rep \<noteq> []
     \<and> br_crypto_valid_count rep = length (br_members rep) \<and> br_evidence_valid_count rep = length (br_members rep)"

fun batch_loop :: "verifier \<Rightarrow> (nat \<times> bytes) list \<Rightarrow> batch_report \<Rightarrow> batch_report result option" where
  "batch_loop verify [] rep = Some (Inr rep)"
| "batch_loop verify ((index, bs) # rest) rep =
     (case verify bs of
        None \<Rightarrow> None
      | Some (Inl code) \<Rightarrow> Some (Inl code)
      | Some (Inr report) \<Rightarrow>
          batch_loop verify rest
            \<lparr>br_members = br_members rep @ [\<lparr>bm_index = index, bm_report = report\<rparr>],
             br_crypto_valid_count = br_crypto_valid_count rep + (if rep_cryptographic_validity report = Valid then 1 else 0),
             br_evidence_valid_count = br_evidence_valid_count rep + (if rep_evidence_validity report = Valid then 1 else 0)\<rparr>)"

definition verify_batch ::
  "base64_engine \<Rightarrow> hash_engine \<Rightarrow> sig_engine \<Rightarrow> (string list \<Rightarrow> string list) \<Rightarrow> bytes list \<Rightarrow> verify_ctx \<Rightarrow> nat \<Rightarrow>
   batch_report result option" where
  "verify_batch b64 h e iter canonicals ctx max_batch_size =
     (if length canonicals > max_batch_size then Some (Inl LimitExceeded)
      else batch_loop (\<lambda>bs. verify_proof b64 h e iter bs ctx) (enumerate 0 canonicals)
             \<lparr>br_members = [], br_crypto_valid_count = 0, br_evidence_valid_count = 0\<rparr>)"

section \<open>Chains of references\<close>

text \<open>An id expands to a report if the store holds bytes under it that the verifier reports on under that id.\<close>

definition expands :: "verifier \<Rightarrow> store_reader \<Rightarrow> string \<Rightarrow> verify_report \<Rightarrow> bool" where
  "expands verify get i report \<longleftrightarrow>
     (\<exists>bs. get i = Inr (Some bs) \<and> verify bs = Some (Inr report) \<and> rep_proof_id report = Some i)"

lemma expands_unique: "expands verify get i r \<Longrightarrow> expands verify get i r' \<Longrightarrow> r = r'"
  by (auto simp: expands_def)

text \<open>
  \<open>linked verify get avoid refs d i\<close>: a chain of \<open>d\<close> references leads to \<open>i\<close>, the first of them
  one of \<open>refs\<close>, and no chain goes on from an id of \<open>avoid\<close>.
\<close>

inductive linked :: "verifier \<Rightarrow> store_reader \<Rightarrow> string set \<Rightarrow> string list \<Rightarrow> nat \<Rightarrow> string \<Rightarrow> bool"
  for verify get avoid refs where
  direct: "j \<in> set refs \<Longrightarrow> linked verify get avoid refs (Suc 0) j"
| onward: "linked verify get avoid refs d i \<Longrightarrow> i \<notin> avoid \<Longrightarrow> expands verify get i report \<Longrightarrow>
    j \<in> set (rep_referenced_proofs report) \<Longrightarrow> linked verify get avoid refs (Suc d) j"

lemma linked_pos: "linked verify get avoid refs d i \<Longrightarrow> 0 < d"
  by (induction rule: linked.induct) auto

section \<open>The invariant of the loop\<close>

definition covered :: "string set \<Rightarrow> (string \<times> nat) list \<Rightarrow> resolved_proof list \<Rightarrow> unresolved_ref list \<Rightarrow> nat \<Rightarrow> string \<Rightarrow> bool" where
  "covered avoid queue res unres d j \<longleftrightarrow> j \<in> avoid \<or> (\<exists>r \<in> set res. rp_id r = j \<and> rp_depth r \<le> d)
     \<or> (\<exists>u \<in> set unres. ur_id u = j \<and> ur_depth u \<le> d) \<or> (\<exists>q \<in> set queue. fst q = j \<and> snd q \<le> d)"

text \<open>
  Why a reference was given up; the last two reasons do not depend on the store. The budget is used up if at least as many records
  were made \<open>before\<close> this one.
\<close>

fun reason_holds :: "verifier \<Rightarrow> store_reader \<Rightarrow> nat \<Rightarrow> nat \<Rightarrow> nat \<Rightarrow> unresolved_ref \<Rightarrow> bool" where
  "reason_holds verify get max_d budget before u = (case ur_reason u of
      Unavailable \<Rightarrow> get (ur_id u) = Inr None
    | StoreFailure e \<Rightarrow> get (ur_id u) = Inl e
    | FoundOther j \<Rightarrow> (\<exists>bs report. get (ur_id u) = Inr (Some bs) \<and> verify bs = Some (Inr report)
        \<and> rep_proof_id report \<noteq> Some (ur_id u) \<and> j = (case rep_proof_id report of Some k \<Rightarrow> k | None \<Rightarrow> ''<unparseable>''))
    | DepthExceeded \<Rightarrow> max_d < ur_depth u
    | OverBudget \<Rightarrow> budget \<le> before)"

definition recorded :: "resolved_proof list \<Rightarrow> unresolved_ref list \<Rightarrow> string list" where
  "recorded res unres = map rp_id res @ map ur_id unres"

definition records_ok ::
  "verifier \<Rightarrow> store_reader \<Rightarrow> nat \<Rightarrow> nat \<Rightarrow> string set \<Rightarrow> string list \<Rightarrow> resolved_proof list \<Rightarrow> unresolved_ref list \<Rightarrow> bool" where
  "records_ok verify get max_d budget avoid refs res unres \<longleftrightarrow>
     distinct (recorded res unres) \<and> set (recorded res unres) \<inter> avoid = {} \<and> length res \<le> budget
     \<and> (\<forall>r \<in> set res. expands verify get (rp_id r) (rp_report r) \<and> rp_depth r \<le> max_d
          \<and> linked verify get avoid refs (rp_depth r) (rp_id r)
          \<and> (\<forall>d. linked verify get avoid refs d (rp_id r) \<longrightarrow> rp_depth r \<le> d))
     \<and> (\<forall>u \<in> set unres. linked verify get avoid refs (ur_depth u) (ur_id u))
     \<and> (\<forall>k < length unres. reason_holds verify get max_d budget (length res + k) (unres ! k))"

lemma records_ok_reason:
  "records_ok verify get max_d budget avoid refs res unres \<Longrightarrow> u \<in> set unres \<Longrightarrow>
     \<exists>k < length unres. reason_holds verify get max_d budget (length res + k) u"
  by (metis in_set_conv_nth records_ok_def)

lemma reason_holds_later: "reason_holds verify get max_d budget n u \<Longrightarrow> n \<le> m \<Longrightarrow> reason_holds verify get max_d budget m u"
  by (auto split: unresolved_reason.splits)

lemma reason_in_budget:
  "records_ok verify get max_d budget avoid refs res unres \<Longrightarrow> length res + length unres < budget \<Longrightarrow> u \<in> set unres \<Longrightarrow> ur_reason u \<noteq> OverBudget"
  by (drule (1) records_ok_reason) auto

definition loop_inv ::
  "verifier \<Rightarrow> store_reader \<Rightarrow> nat \<Rightarrow> nat \<Rightarrow> string set \<Rightarrow> string list \<Rightarrow>
   string list \<Rightarrow> (string \<times> nat) list \<Rightarrow> resolved_proof list \<Rightarrow> unresolved_ref list \<Rightarrow> bool" where
  "loop_inv verify get max_d budget avoid refs visited queue res unres \<longleftrightarrow>
     records_ok verify get max_d budget avoid refs res unres
     \<and> set visited = avoid \<union> set (recorded res unres)
     \<and> (\<forall>q \<in> set queue. linked verify get avoid refs (snd q) (fst q))
     \<and> sorted (map snd queue)
     \<and> (queue \<noteq> [] \<longrightarrow> (\<forall>q \<in> set queue. snd q \<le> Suc (snd (hd queue)))
          \<and> (\<forall>r \<in> set res. rp_depth r \<le> snd (hd queue)) \<and> (\<forall>u \<in> set unres. ur_depth u \<le> snd (hd queue)))
     \<and> (\<forall>j \<in> set refs. covered avoid queue res unres 1 j)
     \<and> (\<forall>r \<in> set res. \<forall>j \<in> set (rep_referenced_proofs (rp_report r)). covered avoid queue res unres (Suc (rp_depth r)) j)"

lemma covered_linked:
  assumes inv: "loop_inv verify get max_d budget avoid refs visited ((i, D) # queue) res unres"
    and room: "D \<le> max_d" "length res + length unres < budget"
    and "linked verify get avoid refs d j" "d \<le> D"
  shows "covered avoid ((i, D) # queue) res unres d j"
  using assms(4,5)
proof (induction rule: linked.induct)
  case (direct j)
  then show ?case using inv by (auto simp: loop_inv_def)
next
  case (onward d k report j)
  have ok: "records_ok verify get max_d budget avoid refs res unres" using inv by (simp add: loop_inv_def)
  have "covered avoid ((i, D) # queue) res unres d k" using onward by simp
  then consider (res) r where "r \<in> set res" "rp_id r = k" "rp_depth r \<le> d"
    | (unres) u where "u \<in> set unres" "ur_id u = k" "ur_depth u \<le> d"
    | (queue) q where "q \<in> set ((i, D) # queue)" "snd q \<le> d"
    using onward by (auto simp: covered_def)
  then show ?case
  proof cases
    case res
    then have "rp_report r = report" using ok onward expands_unique by (force simp: records_ok_def)
    then have "covered avoid ((i, D) # queue) res unres (Suc (rp_depth r)) j" using inv onward res by (auto simp: loop_inv_def)
    then show ?thesis using res(3) by (fastforce simp: covered_def)
  next
    case unres
    have "ur_depth u \<le> D" using inv unres by (auto simp: loop_inv_def)
    moreover obtain k where "reason_holds verify get max_d budget (length res + k) u" using records_ok_reason [OF ok unres(1)] by blast
    moreover have "ur_reason u \<noteq> OverBudget" by (rule reason_in_budget [OF ok room(2) unres(1)])
    ultimately show ?thesis
      using unres(2) onward(3) room by (cases "ur_reason u") (auto simp: expands_def)
  next
    case queue
    then have "D \<le> snd q" using inv by (auto simp: loop_inv_def)
    then show ?thesis using queue onward by simp
  qed
qed


lemma first_depth_least:
  assumes "loop_inv verify get max_d budget avoid refs visited ((i, D) # queue) res unres"
    and "D \<le> max_d" "length res + length unres < budget" "i \<notin> set visited" "linked verify get avoid refs d i"
  shows "D \<le> d"
proof (rule ccontr)
  assume "\<not> D \<le> d"
  then have "covered avoid ((i, D) # queue) res unres d i" using covered_linked [OF assms(1-3,5)] by simp
  moreover have "D \<le> snd q" if "q \<in> set ((i, D) # queue)" for q using that assms(1) by (auto simp: loop_inv_def)
  ultimately show False
    using assms(1,4) \<open>\<not> D \<le> d\<close> by (fastforce simp: covered_def loop_inv_def recorded_def)
qed

lemma covered_mono: "covered avoid queue res unres d j \<Longrightarrow> d \<le> d' \<Longrightarrow> covered avoid queue res unres d' j"
  unfolding covered_def by (meson order_trans)

lemma loop_invD:
  assumes "loop_inv verify get max_d budget avoid refs visited queue res unres"
  shows "records_ok verify get max_d budget avoid refs res unres" "set visited = avoid \<union> set (recorded res unres)"
    and "\<forall>q \<in> set queue. linked verify get avoid refs (snd q) (fst q)" "sorted (map snd queue)"
    and "queue \<noteq> [] \<Longrightarrow> \<forall>q \<in> set queue. snd q \<le> Suc (snd (hd queue))"
    and "queue \<noteq> [] \<Longrightarrow> \<forall>r \<in> set res. rp_depth r \<le> snd (hd queue)"
    and "queue \<noteq> [] \<Longrightarrow> \<forall>u \<in> set unres. ur_depth u \<le> snd (hd queue)"
    and "\<forall>j \<in> set refs. covered avoid queue res unres 1 j"
    and "\<forall>r \<in> set res. \<forall>j \<in> set (rep_referenced_proofs (rp_report r)). covered avoid queue res unres (Suc (rp_depth r)) j"
  using assms unfolding loop_inv_def by blast+

lemma loop_invI:
  assumes "records_ok verify get max_d budget avoid refs res unres" "set visited = avoid \<union> set (recorded res unres)"
    and "\<And>q. q \<in> set queue \<Longrightarrow> linked verify get avoid refs (snd q) (fst q)" "sorted (map snd queue)"
    and "\<And>q. q \<in> set queue \<Longrightarrow> D \<le> snd q \<and> snd q \<le> Suc D"
    and "\<And>r. r \<in> set res \<Longrightarrow> rp_depth r \<le> D" "\<And>u. u \<in> set unres \<Longrightarrow> ur_depth u \<le> D"
    and "\<And>j. j \<in> set refs \<Longrightarrow> covered avoid queue res unres 1 j"
    and "\<And>r j. r \<in> set res \<Longrightarrow> j \<in> set (rep_referenced_proofs (rp_report r)) \<Longrightarrow> covered avoid queue res unres (Suc (rp_depth r)) j"
  shows "loop_inv verify get max_d budget avoid refs visited queue res unres"
proof -
  have "D \<le> snd (hd queue)" if "queue \<noteq> []" using that assms(5) by simp
  then show ?thesis
    using assms(1-4,8,9) assms(5-7) unfolding loop_inv_def by (meson Suc_le_mono order_trans)
qed

text \<open>The three things an iteration does with the first element of the queue.\<close>

lemma inv_seen:
  assumes inv: "loop_inv verify get max_d budget avoid refs visited ((i, D) # queue) res unres" and "i \<in> set visited"
  shows "loop_inv verify get max_d budget avoid refs visited queue res unres"
proof -
  note D = loop_invD [OF inv, simplified]
  have "i \<in> avoid \<or> (\<exists>r \<in> set res. rp_id r = i \<and> rp_depth r \<le> D) \<or> (\<exists>u \<in> set unres. ur_id u = i \<and> ur_depth u \<le> D)"
    using assms(2) D(2,6,7) by (auto simp: recorded_def)
  then have cov: "covered avoid queue res unres d j" if "covered avoid ((i, D) # queue) res unres d j" for d j
    using that by (auto simp: covered_def intro: order_trans)
  show ?thesis
  proof (rule loop_invI [where D = D])
    show "set visited = avoid \<union> set (recorded res unres)" by (rule D(2))
    show "D \<le> snd q \<and> snd q \<le> Suc D" if "q \<in> set queue" for q using that D(4,5) by auto
  qed (use D cov in auto)
qed

lemma inv_give_up:
  assumes inv: "loop_inv verify get max_d budget avoid refs visited ((i, D) # queue) res unres" and "i \<notin> set visited"
    and "reason_holds verify get max_d budget (length res + length unres) u" "ur_id u = i" "ur_depth u = D"
  shows "loop_inv verify get max_d budget avoid refs (i # visited) queue res (unres @ [u])"
proof -
  note D = loop_invD [OF inv, simplified]
  have cov: "covered avoid queue res (unres @ [u]) d j" if "covered avoid ((i, D) # queue) res unres d j" for d j
    using that assms(4,5) by (auto simp: covered_def)
  show ?thesis
  proof (rule loop_invI [where D = D])
    show "records_ok verify get max_d budget avoid refs res (unres @ [u])"
      using D(1-3) assms(2-5) by (auto simp: records_ok_def recorded_def nth_append less_Suc_eq simp del: reason_holds.simps)
    show "set (i # visited) = avoid \<union> set (recorded res (unres @ [u]))" using D(2) assms(4) by (simp add: recorded_def)
    show "D \<le> snd q \<and> snd q \<le> Suc D" if "q \<in> set queue" for q using that D(4,5) by auto
  qed (use D cov assms(5) in auto)
qed

lemma inv_resolve:
  assumes inv: "loop_inv verify get max_d budget avoid refs visited ((i, D) # queue) res unres" and "i \<notin> set visited"
    and "D \<le> max_d" "length res + length unres < budget" "expands verify get i report"
  shows "loop_inv verify get max_d budget avoid refs (i # visited)
    (queue @ map (\<lambda>child. (child, D + 1)) (rep_referenced_proofs report))
    (res @ [\<lparr>rp_id = i, rp_depth = D, rp_report = report\<rparr>]) unres"
proof -
  let ?q = "queue @ map (\<lambda>child. (child, D + 1)) (rep_referenced_proofs report)"
  let ?r = "\<lparr>rp_id = i, rp_depth = D, rp_report = report\<rparr>"
  note D = loop_invD [OF inv, simplified]
  have cov: "covered avoid ?q (res @ [?r]) unres d j" if "covered avoid ((i, D) # queue) res unres d j" for d j
    using that unfolding covered_def by (simp add: bex_Un) blast
  have new: "covered avoid ?q (res @ [?r]) unres (Suc D) j" if "j \<in> set (rep_referenced_proofs report)" for j
  proof -
    have "(j, Suc D) \<in> set ?q" using that by auto
    then show ?thesis unfolding covered_def by (metis fst_conv order_refl snd_conv)
  qed
  have link: "linked verify get avoid refs D i" and avoid: "i \<notin> avoid" using D(2,3) assms(2) by auto
  have fresh: "i \<notin> set (map rp_id res)" "i \<notin> set (map ur_id unres)" "i \<notin> avoid"
    using D(2) assms(2) by (auto simp: recorded_def)
  have least: "\<forall>d. linked verify get avoid refs d i \<longrightarrow> D \<le> d" using first_depth_least [OF inv assms(3,4,2)] by blast
  show ?thesis
  proof (rule loop_invI [where D = D])
    show "records_ok verify get max_d budget avoid refs (res @ [?r]) unres"
      using D(1) fresh assms(3-5) link least reason_holds_later [of verify get max_d budget "length res + k" _ "Suc (length res + k)" for k]
      by (simp add: records_ok_def recorded_def del: reason_holds.simps)
    show "set (i # visited) = avoid \<union> set (recorded (res @ [?r]) unres)" using D(2) by (auto simp: recorded_def)
    show "linked verify get avoid refs (snd q) (fst q)" if "q \<in> set ?q" for q
      using that D(3) assms(5) link avoid by (auto intro: linked.onward)
    show "sorted (map snd ?q)" using D(4,5) by (auto simp: sorted_append comp_def map_replicate_const)
    show "D \<le> snd q \<and> snd q \<le> Suc D" if "q \<in> set ?q" for q using that D(4,5) by auto
    show "rp_depth r \<le> D" if "r \<in> set (res @ [?r])" for r using that D(6) by auto
    show "ur_depth u \<le> D" if "u \<in> set unres" for u using that D(7) by auto
    show "covered avoid ?q (res @ [?r]) unres 1 j" if "j \<in> set refs" for j using that D(8) cov by simp
    show "covered avoid ?q (res @ [?r]) unres (Suc (rp_depth r)) j"
      if "r \<in> set (res @ [?r])" "j \<in> set (rep_referenced_proofs (rp_report r))" for r j
      using that D(9) cov new by auto
  qed
qed


lemma inv_start:
  assumes "\<And>i. root_id = Some i \<Longrightarrow> avoid = {i}" "root_id = None \<Longrightarrow> avoid = {}"
  shows "loop_inv verify get max_d budget avoid refs (case root_id of Some i \<Rightarrow> [i] | None \<Rightarrow> []) (map (\<lambda>i. (i, 1)) refs) [] []"
proof (rule loop_invI [where D = 1])
  show "set (case root_id of Some i \<Rightarrow> [i] | None \<Rightarrow> []) = avoid \<union> set (recorded [] [])"
    using assms by (cases root_id) (auto simp: recorded_def)
  show "covered avoid (map (\<lambda>i. (i, 1)) refs) [] [] 1 j" if "j \<in> set refs" for j
    using that unfolding covered_def by simp
qed (auto simp: records_ok_def recorded_def comp_def map_replicate_const intro: linked.direct)

lemma resolve_loop_inv:
  assumes total: "\<And>bs. \<exists>report. verify bs = Some (Inr report)"
    and "loop_inv verify get max_d budget avoid refs visited queue res unres"
  shows "\<exists>visited' res' unres'. resolve_loop verify get max_d budget visited queue res unres = Some (Inr (res', unres'))
    \<and> loop_inv verify get max_d budget avoid refs visited' [] res' unres'"
  using assms
proof (induction verify get max_d budget visited queue res unres rule: resolve_loop.induct)
  case (1 verify get max_d budget visited res unres)
  then show ?case by auto
next
  case (2 verify get max_d budget visited i d queue res unres)
  let ?goal = "\<lambda>r. \<exists>visited' res' unres'. r = Some (Inr (res', unres')) \<and> loop_inv verify get max_d budget avoid refs visited' [] res' unres'"
  show ?case
  proof (cases "i \<in> set visited")
    case True
    then show ?thesis using "2.IH"(1) [OF True "2.prems"(1)] inv_seen [OF "2.prems"(2)] by simp
  next
    case new: False
    have give_up: "?goal (resolve_loop verify get max_d budget (i # visited) queue res (unres @ [\<lparr>ur_id = i, ur_depth = d, ur_reason = x\<rparr>]))"
      if "reason_holds verify get max_d budget (length res + length unres) \<lparr>ur_id = i, ur_depth = d, ur_reason = x\<rparr>" for x
      using "2.IH"(2) [OF new "2.prems"(1)] inv_give_up [OF "2.prems"(2) new that] by simp
    show ?thesis
    proof (cases "max_d < d \<or> budget \<le> length res + length unres")
      case True
      then show ?thesis using new give_up [of DepthExceeded] give_up [of OverBudget] by (auto simp: Let_def)
    next
      case room: False
      show ?thesis
      proof (cases "get i")
        case (Inl e)
        then show ?thesis using new room give_up [of "StoreFailure e"] by simp
      next
        case (Inr found)
        show ?thesis
        proof (cases found)
          case None
          then show ?thesis using new room Inr give_up [of Unavailable] by simp
        next
          case (Some bs)
          obtain report where v: "verify bs = Some (Inr report)" using "2.prems"(1) by blast
          show ?thesis
          proof (cases "rep_proof_id report = Some i")
            case True
            then have "expands verify get i report" using Inr Some v by (simp add: expands_def)
            then have "loop_inv verify get max_d budget avoid refs (i # visited)
                (queue @ map (\<lambda>child. (child, d + 1)) (rep_referenced_proofs report))
                (res @ [\<lparr>rp_id = i, rp_depth = d, rp_report = report\<rparr>]) unres"
              using inv_resolve [OF "2.prems"(2) new] room by simp
            then show ?thesis
              using "2.IH"(3) [OF new refl _ _ Inr Some v refl _ "2.prems"(1)] room True new Inr Some v by simp
          next
            case False
            then show ?thesis
              using new room Inr Some v give_up [of "FoundOther (case rep_proof_id report of Some j \<Rightarrow> j | None \<Rightarrow> ''<unparseable>'')"] by simp
          qed
        qed
      qed
    qed
  qed
qed

section \<open>The resolver on the verifier\<close>

abbreviation verifier_under :: "base64_engine \<Rightarrow> hash_engine \<Rightarrow> sig_engine \<Rightarrow> (string list \<Rightarrow> string list) \<Rightarrow> verify_ctx \<Rightarrow> verifier" where
  "verifier_under b64 h e iter ctx \<equiv> \<lambda>bs. verify_proof b64 h e iter bs ctx"

definition own_id :: "verify_report \<Rightarrow> string set" where
  "own_id report = set_option (rep_proof_id report)"

lemma verifier_total:
  "hash_iter iter \<Longrightarrow> ctx_misuse ctx = None \<Longrightarrow> \<exists>report. verify_proof b64 h e iter bs ctx = Some (Inr report)"
  by (simp add: verify_proof_cases)

lemma verifier_refuses: "ctx_misuse ctx = Some code \<Longrightarrow> verify_proof b64 h e iter bs ctx = Some (Inl code)"
  by (simp add: verify_proof_def)

lemma expands_iff:
  assumes "hash_iter iter" "ctx_misuse ctx = None"
  shows "expands (verifier_under b64 h e iter ctx) get i report \<longleftrightarrow>
    (\<exists>bs p. get i = Inr (Some bs) \<and> parse_proof b64 bs (ctx_limits ctx) = Inr p \<and> prf_id p = i
       \<and> report = report_on b64 h e iter ctx p)"
proof -
  have "rep_proof_id (report_on b64 h e iter ctx p) = Some (prf_id p)" for p
    by (simp add: report_on_def full_report_def finalize_fields)
  moreover have "rep_proof_id (early_report None cs) = None" for cs by (simp add: early_report_def finalize_fields)
  ultimately have "(verify_proof b64 h e iter bs ctx = Some (Inr report) \<and> rep_proof_id report = Some i) \<longleftrightarrow>
      (\<exists>p. parse_proof b64 bs (ctx_limits ctx) = Inr p \<and> prf_id p = i \<and> report = report_on b64 h e iter ctx p)" for bs
    by (cases "parse_proof b64 bs (ctx_limits ctx)") (auto simp: verify_proof_cases [OF assms])
  then show ?thesis unfolding expands_def by metis
qed

lemma resolve_returned:
  assumes "hash_iter iter" "ctx_misuse ctx = None"
  shows "\<exists>root res unres. verify_proof b64 h e iter bs ctx = Some (Inr root)
    \<and> resolve_proof_chain b64 h e iter bs get ctx max_d = Some (Inr \<lparr>rn_root = root, rn_resolved = res, rn_unresolved = unres\<rparr>)
    \<and> (\<exists>visited. loop_inv (verifier_under b64 h e iter ctx) get max_d (fetch_budget (ctx_limits ctx) max_d) (own_id root) (rep_referenced_proofs root) visited [] res unres)"
proof -
  obtain root where root: "verify_proof b64 h e iter bs ctx = Some (Inr root)" using verifier_total [OF assms(1,2)] by blast
  have "loop_inv (verifier_under b64 h e iter ctx) get max_d (fetch_budget (ctx_limits ctx) max_d) (own_id root) (rep_referenced_proofs root)
      (case rep_proof_id root of Some i \<Rightarrow> [i] | None \<Rightarrow> []) (map (\<lambda>i. (i, 1)) (rep_referenced_proofs root)) [] []"
    by (rule inv_start) (auto simp: own_id_def)
  from resolve_loop_inv [OF _ this] obtain visited res unres where
    "resolve_loop (verifier_under b64 h e iter ctx) get max_d (fetch_budget (ctx_limits ctx) max_d) (case rep_proof_id root of Some i \<Rightarrow> [i] | None \<Rightarrow> [])
       (map (\<lambda>i. (i, 1)) (rep_referenced_proofs root)) [] [] = Some (Inr (res, unres))"
    "loop_inv (verifier_under b64 h e iter ctx) get max_d (fetch_budget (ctx_limits ctx) max_d) (own_id root) (rep_referenced_proofs root) visited [] res unres"
    using verifier_total [OF assms(1,2)] by blast
  then show ?thesis
    using root unfolding resolve_proof_chain_def resolve_with_def by (intro exI [of _ root] exI [of _ res] exI [of _ unres]) auto
qed

lemma resolve_refused: "ctx_misuse ctx = Some code \<Longrightarrow> resolve_proof_chain b64 h e iter bs get ctx max_d = Some (Inl code)"
  by (simp add: resolve_proof_chain_def resolve_with_def verifier_refuses)

lemma complete_closed:
  assumes "loop_inv verify get max_d budget avoid refs visited [] res unres"
  shows "unres = [] \<longleftrightarrow> (\<forall>d i. linked verify get avoid refs d i \<longrightarrow> i \<in> avoid \<or> i \<in> rp_id ` set res)"
proof
  assume none: "unres = []"
  have "j \<in> avoid \<or> j \<in> rp_id ` set res" if "linked verify get avoid refs d j" for d j
    using that
  proof (induction rule: linked.induct)
    case (direct j)
    then show ?case using loop_invD(8) [OF assms] none by (auto simp: covered_def)
  next
    case (onward d i report j)
    then obtain r where r: "r \<in> set res" "rp_id r = i" by auto
    then have "rp_report r = report" using loop_invD(1) [OF assms] onward(3) expands_unique by (auto simp: records_ok_def)
    then show ?case using loop_invD(9) [OF assms] r onward(4) none by (auto simp: covered_def)
  qed
  then show "\<forall>d i. linked verify get avoid refs d i \<longrightarrow> i \<in> avoid \<or> i \<in> rp_id ` set res" by blast
next
  assume all: "\<forall>d i. linked verify get avoid refs d i \<longrightarrow> i \<in> avoid \<or> i \<in> rp_id ` set res"
  have ok: "\<forall>u \<in> set unres. linked verify get avoid refs (ur_depth u) (ur_id u)" "set (recorded res unres) \<inter> avoid = {}"
      "distinct (recorded res unres)"
    using loop_invD(1) [OF assms] unfolding records_ok_def by blast+
  have False if "u \<in> set unres" for u
  proof -
    have "ur_id u \<in> avoid \<or> ur_id u \<in> rp_id ` set res" using all ok(1) that by blast
    moreover have "ur_id u \<in> ur_id ` set unres" using that by simp
    ultimately show False using ok(2,3) by (auto simp: recorded_def)
  qed
  then show "unres = []" by (cases unres) auto
qed

section \<open>Properties of the resolver\<close>

text \<open>
  Resolution of references always ends, whatever the store holds: it errs exactly when the verifier itself refuses the
  context, and otherwise it returns the root's own report and fetches at most the budget, which is positive.
\<close>

theorem resolution_returns:
  assumes "hash_iter iter"
  shows "\<exists>r. resolve_proof_chain b64 h e iter bs get ctx max_d = Some r
    \<and> (\<forall>code. r = Inl code \<longleftrightarrow> ctx_misuse ctx = Some code)
    \<and> (\<forall>rep. r = Inr rep \<longrightarrow> verify_proof b64 h e iter bs ctx = Some (Inr (rn_root rep))
         \<and> length (rn_resolved rep) \<le> fetch_budget (ctx_limits ctx) max_d
         \<and> 1 \<le> fetch_budget (ctx_limits ctx) max_d)"
proof (cases "ctx_misuse ctx")
  case None
  obtain root res unres visited where r: "verify_proof b64 h e iter bs ctx = Some (Inr root)"
      "resolve_proof_chain b64 h e iter bs get ctx max_d = Some (Inr \<lparr>rn_root = root, rn_resolved = res, rn_unresolved = unres\<rparr>)"
      "loop_inv (verifier_under b64 h e iter ctx) get max_d (fetch_budget (ctx_limits ctx) max_d) (own_id root)
         (rep_referenced_proofs root) visited [] res unres"
    using resolve_returned [OF assms None] by blast
  then show ?thesis using None loop_invD(1) [OF r(3)] by (auto simp: records_ok_def fetch_budget_def)
qed (simp add: resolve_refused)

text \<open>
  C23. What a resolution report says is true. No id is recorded twice, and never the root's own. A resolved id is held by the store as
  bytes on which the verifier gives the recorded report under that very id, and its depth is the length
  of the shortest chain of references that leads to it from the root and is within the requested depth. An unresolved id is the end of
  a chain of the recorded length, and the recorded reason holds: the store has nothing under the id, or errs with the recorded text, or holds a package
  that states the recorded other id; or the chain is longer than the requested depth; or as many records as the budget allows, which is
  positive, were made before this one.
\<close>

theorem resolution_sound:
  assumes "hash_iter iter" "resolve_proof_chain b64 h e iter bs get ctx max_d = Some (Inr rep)"
  shows "distinct (map rp_id (rn_resolved rep) @ map ur_id (rn_unresolved rep))
    \<and> (\<forall>i \<in> set (map rp_id (rn_resolved rep) @ map ur_id (rn_unresolved rep)). rep_proof_id (rn_root rep) \<noteq> Some i)
    \<and> (\<forall>r \<in> set (rn_resolved rep).
         (\<exists>b. get (rp_id r) = Inr (Some b) \<and> verify_proof b64 h e iter b ctx = Some (Inr (rp_report r)) \<and> rep_proof_id (rp_report r) = Some (rp_id r))
         \<and> rp_depth r \<le> max_d \<and> linked (verifier_under b64 h e iter ctx) get (own_id (rn_root rep)) (rep_referenced_proofs (rn_root rep)) (rp_depth r) (rp_id r) \<and> (\<forall>d. linked (verifier_under b64 h e iter ctx) get (own_id (rn_root rep)) (rep_referenced_proofs (rn_root rep)) d (rp_id r) \<longrightarrow> rp_depth r \<le> d))
    \<and> (\<forall>u \<in> set (rn_unresolved rep). linked (verifier_under b64 h e iter ctx) get (own_id (rn_root rep)) (rep_referenced_proofs (rn_root rep)) (ur_depth u) (ur_id u))
    \<and> (\<forall>k < length (rn_unresolved rep). reason_holds (verifier_under b64 h e iter ctx) get max_d (fetch_budget (ctx_limits ctx) max_d)
         (length (rn_resolved rep) + k) (rn_unresolved rep ! k))
    \<and> 1 \<le> fetch_budget (ctx_limits ctx) max_d"
proof -
  have m: "ctx_misuse ctx = None" using assms(2) by (cases "ctx_misuse ctx") (auto simp: resolve_refused)
  obtain root res unres visited where r: "rep = \<lparr>rn_root = root, rn_resolved = res, rn_unresolved = unres\<rparr>"
      "loop_inv (verifier_under b64 h e iter ctx) get max_d (fetch_budget (ctx_limits ctx) max_d) (own_id root) (rep_referenced_proofs root) visited [] res unres"
    using resolve_returned [OF assms(1) m, of b64 h e bs get max_d] assms(2) by auto
  have "\<forall>i \<in> set (recorded res unres). rep_proof_id root \<noteq> Some i"
    using loop_invD(1) [OF r(2)] by (auto simp: records_ok_def own_id_def)
  then show ?thesis
    using loop_invD(1) [OF r(2)] unfolding records_ok_def r(1) expands_def by (auto simp: recorded_def fetch_budget_def simp del: reason_holds.simps)
qed

text \<open>
  A complete resolution is complete: nothing is left unresolved exactly if every id that a chain of references of any length
  reaches is the root itself or among the resolved proofs.
\<close>

theorem complete_iff_closure_resolved:
  assumes "hash_iter iter" "resolve_proof_chain b64 h e iter bs get ctx max_d = Some (Inr rep)"
  shows "resolution_complete rep \<longleftrightarrow>
    (\<forall>d i. linked (verifier_under b64 h e iter ctx) get (own_id (rn_root rep)) (rep_referenced_proofs (rn_root rep)) d i \<longrightarrow>
       rep_proof_id (rn_root rep) = Some i \<or> i \<in> rp_id ` set (rn_resolved rep))"
proof -
  have m: "ctx_misuse ctx = None" using assms(2) by (cases "ctx_misuse ctx") (auto simp: resolve_refused)
  obtain root res unres visited where r: "rep = \<lparr>rn_root = root, rn_resolved = res, rn_unresolved = unres\<rparr>"
      "loop_inv (verifier_under b64 h e iter ctx) get max_d (fetch_budget (ctx_limits ctx) max_d) (own_id root)
         (rep_referenced_proofs root) visited [] res unres"
    using resolve_returned [OF assms(1) m, of b64 h e bs get max_d] assms(2) by auto
  show ?thesis using complete_closed [OF r(2)] by (simp add: r(1) resolution_complete_def own_id_def)
qed

section \<open>A package that cites another\<close>

definition cited_id :: string where
  "cited_id = ''prf:v1:'' @ replicate 32 (CHR ''a'')"

definition plain_package :: "string \<Rightarrow> string list \<Rightarrow> proof_package" where
  "plain_package i refs = demo_package\<lparr>prf_id := i, prf_attestations := [], prf_referenced_proofs := refs\<rparr>"

definition plain_value :: "string \<Rightarrow> string list \<Rightarrow> cbor_value" where
  "plain_value i refs = CMap ([(CText ''attestations'', CArray []),
       (CText ''created_at'', CUint 1), (CText ''events'', CArray []), (CText ''evidence'', CArray []),
       (CText ''proof_id'', CText i), (CText ''proposition'', proposition_to_cbor (prf_proposition demo_package)),
       (CText ''relationships'', CArray []), (CText ''v'', CUint 1)]
     @ (if refs = [] then [] else [(CText ''referenced_proofs'', CArray (map CText refs))]))"

lemma plain_fields: "prf_id (plain_package i refs) = i" "prf_attestations (plain_package i refs) = []"
    "prf_referenced_proofs (plain_package i refs) = refs"
  by (simp_all add: plain_package_def)

lemma plain_keys:
  "k \<in> set [''attestations'', ''created_at'', ''events'', ''evidence'', ''proof_id'', ''proposition'', ''relationships'', ''v'',
      ''referenced_proofs''] \<Longrightarrow> canon_form default_limits (Suc 0) (CText k)"
  by (auto simp: default_limits_def as_bytes_def byte_of_char_def in_range_def)

lemma cited_text: "utf8_text cited_id"
proof -
  have "valid_utf8 (replicate n 97)" for n by (induction n) (simp_all add: in_range_def)
  then show ?thesis by (simp add: cited_id_def utf8_text_def text_ok_def as_bytes_def byte_of_char_def in_range_def)
qed

lemma demo_proposition_wf: "wf_value default_limits (Suc 0) (proposition_to_cbor (prf_proposition demo_package))"
  using demo_keys [of _ "Suc (Suc 0)"]
  by (simp add: proposition_to_cbor_def demo_package_def opt_text_to_cbor_def opt_uint_to_cbor_def meta_pairs_to_cbor_def)
    (simp add: default_limits_def encode_eval)

lemma plain_wf:
  assumes "utf8_text i" "refs = [] \<or> refs = [cited_id]"
  shows "wf_value default_limits 0 (plain_value i refs)"
proof -
  have "distinct (map (\<lambda>k. encode_canonical (CText k)) [''attestations'', ''created_at'', ''events'', ''evidence'', ''proof_id'',
      ''proposition'', ''relationships'', ''v'', ''referenced_proofs''])"
    by (simp add: encode_eval)
  moreover have "canon_form default_limits (Suc 0) (CText i)" "canon_form default_limits (Suc (Suc 0)) (CText cited_id)"
    by (rule utf8_text_canon [OF assms(1)] utf8_text_canon [OF cited_text]; simp)+
  ultimately show ?thesis
    using assms(2) plain_keys demo_proposition_wf by (elim disjE) (simp_all add: plain_value_def default_limits_def)
qed

lemma plain_size:
  assumes "utf8_text i" "refs = [] \<or> refs = [cited_id]"
  shows "length (encode_canonical (plain_value i refs)) \<le> 10000"
proof -
  have "length (encode_value (CText i)) \<le> 1033" "length (encode_value (CText cited_id)) \<le> 1033"
    using length_encode_text [of i] length_encode_text [of cited_id] assms(1) cited_text by (simp_all add: utf8_text_def text_ok_def)
  moreover have "length (encode_value (proposition_to_cbor (prf_proposition demo_package))) \<le> 500"
    by (simp add: proposition_to_cbor_def demo_package_def opt_text_to_cbor_def opt_uint_to_cbor_def meta_pairs_to_cbor_def encode_eval)
  ultimately show ?thesis
    using length_encode_map [of "[(CText ''attestations'', CArray []),
       (CText ''created_at'', CUint 1), (CText ''events'', CArray []), (CText ''evidence'', CArray []),
       (CText ''proof_id'', CText i), (CText ''proposition'', proposition_to_cbor (prf_proposition demo_package)),
       (CText ''relationships'', CArray []), (CText ''v'', CUint 1)]
     @ (if refs = [] then [] else [(CText ''referenced_proofs'', CArray (map CText refs))])"] assms(2)
      length_encode_text [of "''attestations''"] length_encode_text [of "''created_at''"] length_encode_text [of "''events''"]
      length_encode_text [of "''evidence''"] length_encode_text [of "''proof_id''"] length_encode_text [of "''proposition''"]
      length_encode_text [of "''relationships''"] length_encode_text [of "''v''"] length_encode_uint [of 1] length_encode_short_array(1)
      length_encode_text [of "''referenced_proofs''"] length_encode_short_array(2) [of "CText cited_id"]
    by (elim disjE) (simp_all add: plain_value_def encode_canonical_def del: encode_value.simps)
qed

lemma plain_parses:
  assumes "utf8_text i" "starts_with i ''prf:v1:''" "refs = [] \<or> refs = [cited_id]"
  shows "parse_proof plain_b64 (encode_canonical (plain_value i refs)) default_limits = Inr (plain_package i refs)"
proof -
  have "check_proof_ref_shape plain_b64 cited_id = Inr ()"
    by (simp add: check_proof_ref_shape_def cited_id_def plain_b64_def as_bytes_def str_of_bytes_def)
  then have "proof_ok plain_b64 default_limits (plain_package i refs)"
    using demo_ok assms
    by (auto simp: plain_package_def proof_ok_def utf8_text_def refs_ok_def) (auto simp: default_limits_def)
  moreover have "proof_to_cbor (plain_package i refs) = Inr (plain_value i refs)"
    by (subst proof_to_cbor_eq) (simp_all add: plain_value_def plain_package_def demo_package_def)
  ultimately show ?thesis
    using parse_written plain_wf [OF assms(1,3)] plain_size [OF assms(1,3)] by (simp add: default_limits_def)
qed


definition citing_bytes :: "string \<Rightarrow> bytes" where
  "citing_bytes i = encode_canonical (plain_value i [cited_id])"

definition cited_store :: store_reader where
  "cited_store i = Inr (if i = cited_id then Some (encode_canonical (plain_value cited_id [])) else None)"

lemma cited_not_demo: "cited_id \<noteq> prf_id demo_package"
proof -
  have "of_char (CHR ''a'') \<noteq> (of_char (char_of (0 :: nat)) :: nat)" by simp
  then have "CHR ''a'' \<noteq> char_of (0 :: nat)" by metis
  then show ?thesis by (simp add: cited_id_def demo_id)
qed

lemma cited_expands:
  "get cited_id = cited_store cited_id \<Longrightarrow> expands (verifier_under plain_b64 zero_hash plain_sig remdups demo_ctx) get cited_id
     (report_on plain_b64 zero_hash plain_sig remdups demo_ctx (plain_package cited_id []))"
  using plain_parses [OF cited_text, of "[]"]
  by (auto simp: expands_iff [OF hash_iter_remdups] cited_store_def plain_package_def starts_with_def) (simp_all add: cited_id_def)

lemma report_refs: "rep_referenced_proofs (report_on b64 h e iter ctx p) = prf_referenced_proofs p"
  by (simp add: report_on_def full_report_def finalize_def policy_note_def Let_def)

lemma citing_resolves:
  assumes get: "get cited_id = cited_store cited_id" and i: "utf8_text i" "starts_with i ''prf:v1:''" "i \<noteq> cited_id"
  shows "\<exists>root report. verify_proof plain_b64 zero_hash plain_sig remdups (citing_bytes i) demo_ctx = Some (Inr root)
     \<and> resolve_proof_chain plain_b64 zero_hash plain_sig remdups (citing_bytes i) get demo_ctx 1
       = Some (Inr \<lparr>rn_root = root, rn_resolved = [\<lparr>rp_id = cited_id, rp_depth = 1, rp_report = report\<rparr>], rn_unresolved = []\<rparr>)
     \<and> rep_cryptographic_validity report = Invalid \<and> (rep_cryptographic_validity root = Valid \<longleftrightarrow> i = prf_id demo_package)
     \<and> rep_referenced_proofs root = [cited_id] \<and> rep_proof_id root = Some i"
proof -
  let ?v = "verifier_under plain_b64 zero_hash plain_sig remdups demo_ctx"
  let ?root = "report_on plain_b64 zero_hash plain_sig remdups demo_ctx (plain_package i [cited_id])"
  let ?leaf = "report_on plain_b64 zero_hash plain_sig remdups demo_ctx (plain_package cited_id [])"
  have root: "?v (citing_bytes i) = Some (Inr ?root)"
    using plain_parses [OF i(1,2), of "[cited_id]"]
    by (simp add: verify_proof_cases [OF hash_iter_remdups] citing_bytes_def)
  have "rep_proof_id ?root = Some i" "rep_referenced_proofs ?root = [cited_id]" "rep_referenced_proofs ?leaf = []"
    by (simp_all add: report_refs) (simp_all add: plain_package_def report_on_def full_report_def finalize_fields)
  note fields = this
  obtain bs where bs: "get cited_id = Inr (Some bs)" "?v bs = Some (Inr ?leaf)" "rep_proof_id ?leaf = Some cited_id"
    using cited_expands [of get, OF get] by (auto simp: expands_def)
  have "fetch_budget (ctx_limits demo_ctx) 1 \<noteq> 0" by (simp add: fetch_budget_def)
  then have "resolve_proof_chain plain_b64 zero_hash plain_sig remdups (citing_bytes i) get demo_ctx 1
       = Some (Inr \<lparr>rn_root = ?root, rn_resolved = [\<lparr>rp_id = cited_id, rp_depth = 1, rp_report = ?leaf\<rparr>], rn_unresolved = []\<rparr>)"
    using i(3) bs by (simp add: resolve_proof_chain_def resolve_with_def root fields)
  moreover have "bound_id plain_b64 zero_hash (plain_package j refs) = prf_id demo_package" for j refs
    by (simp add: bound_id_def proof_id_full_def demo_id id_with_def zero_hash_def b64u_nopad_def plain_b64_def str_of_bytes_def char_of_byte_def)
  then have "rep_cryptographic_validity ?root = Valid \<longleftrightarrow> i = prf_id demo_package" "rep_cryptographic_validity ?leaf \<noteq> Valid"
    unfolding crypto_on [OF engine_laws(1)] using cited_not_demo plain_fields by auto
  moreover from this(2) have "rep_cryptographic_validity ?leaf = Invalid"
    by (cases "rep_cryptographic_validity ?leaf"; simp)
  ultimately show ?thesis using fields root by blast
qed

text \<open>A resolved reference may be a tampered proof: the stored id is compared, not the recomputed one.\<close>

lemma tampered_reference_resolves:
  assumes get: "get cited_id = cited_store cited_id"
  shows "\<exists>root report. verify_proof plain_b64 zero_hash plain_sig remdups (citing_bytes (prf_id demo_package)) demo_ctx = Some (Inr root)
     \<and> resolve_proof_chain plain_b64 zero_hash plain_sig remdups (citing_bytes (prf_id demo_package)) get demo_ctx 1
       = Some (Inr \<lparr>rn_root = root, rn_resolved = [\<lparr>rp_id = cited_id, rp_depth = 1, rp_report = report\<rparr>], rn_unresolved = []\<rparr>)
     \<and> rep_cryptographic_validity report = Invalid \<and> rep_cryptographic_validity root = Valid
     \<and> rep_referenced_proofs root = [cited_id] \<and> rep_proof_id root = Some (prf_id demo_package)"
  using citing_resolves [of get, OF get demo_id_text _ cited_not_demo [symmetric]] demo_id by (auto simp: starts_with_def)

theorem resolution_returns_witness:
  "\<exists>rep. resolve_proof_chain plain_b64 zero_hash plain_sig remdups (citing_bytes (prf_id demo_package)) cited_store demo_ctx 1 = Some (Inr rep)
     \<and> length (rn_resolved rep) \<le> fetch_budget default_limits 1"
proof -
  obtain r where r: "resolve_proof_chain plain_b64 zero_hash plain_sig remdups (citing_bytes (prf_id demo_package)) cited_store demo_ctx 1 = Some r"
      "\<forall>code. r = Inl code \<longleftrightarrow> ctx_misuse demo_ctx = Some code"
      "\<forall>rep. r = Inr rep \<longrightarrow> length (rn_resolved rep) \<le> fetch_budget (ctx_limits demo_ctx) 1"
    using resolution_returns [OF hash_iter_remdups, of plain_b64 zero_hash plain_sig "citing_bytes (prf_id demo_package)" cited_store demo_ctx 1] by blast
  then show ?thesis by (cases r) auto
qed

theorem resolution_sound_witness:
  "\<exists>rep r. resolve_proof_chain plain_b64 zero_hash plain_sig remdups (citing_bytes (prf_id demo_package)) cited_store demo_ctx 1 = Some (Inr rep)
     \<and> rn_resolved rep = [r] \<and> rp_depth r \<le> 1 \<and> distinct (map rp_id (rn_resolved rep) @ map ur_id (rn_unresolved rep))"
proof -
  obtain rep r where "resolve_proof_chain plain_b64 zero_hash plain_sig remdups (citing_bytes (prf_id demo_package)) cited_store demo_ctx 1 = Some (Inr rep)"
      "rn_resolved rep = [r]"
    using tampered_reference_resolves [of cited_store] by fastforce
  then show ?thesis using resolution_sound [OF hash_iter_remdups, of plain_b64 zero_hash plain_sig "citing_bytes (prf_id demo_package)" cited_store demo_ctx 1 rep] by auto
qed

theorem complete_iff_closure_resolved_witness:
  "\<exists>rep. resolve_proof_chain plain_b64 zero_hash plain_sig remdups (citing_bytes (prf_id demo_package)) cited_store demo_ctx 1 = Some (Inr rep)
     \<and> resolution_complete rep \<and> cited_id \<in> rp_id ` set (rn_resolved rep)"
proof -
  obtain root report where r: "resolve_proof_chain plain_b64 zero_hash plain_sig remdups (citing_bytes (prf_id demo_package)) cited_store demo_ctx 1
       = Some (Inr \<lparr>rn_root = root, rn_resolved = [\<lparr>rp_id = cited_id, rp_depth = 1, rp_report = report\<rparr>], rn_unresolved = []\<rparr>)"
      "rep_referenced_proofs root = [cited_id]" "rep_proof_id root = Some (prf_id demo_package)"
    using tampered_reference_resolves [of cited_store] by blast
  have "linked (verifier_under plain_b64 zero_hash plain_sig remdups demo_ctx) cited_store (own_id root) (rep_referenced_proofs root) (Suc 0) cited_id"
    by (rule linked.direct) (simp add: r(2))
  then show ?thesis
    using complete_iff_closure_resolved [OF hash_iter_remdups r(1)] r cited_not_demo by (auto simp: resolution_complete_def)
qed

section \<open>Batches\<close>

lemma batch_loop_eq:
  assumes "\<And>bs. verify bs = Some (Inr (rep bs))"
  shows "batch_loop verify xs acc = Some (Inr
    \<lparr>br_members = br_members acc @ map (\<lambda>(i, bs). \<lparr>bm_index = i, bm_report = rep bs\<rparr>) xs,
     br_crypto_valid_count = br_crypto_valid_count acc + length (filter (\<lambda>(i, bs). rep_cryptographic_validity (rep bs) = Valid) xs),
     br_evidence_valid_count = br_evidence_valid_count acc + length (filter (\<lambda>(i, bs). rep_evidence_validity (rep bs) = Valid) xs)\<rparr>)"
proof (induction xs arbitrary: acc)
  case (Cons x xs)
  then show ?case by (cases x) (simp add: assms)
qed simp

lemma batch_reports:
  assumes "hash_iter iter" "length xs \<le> n" "xs \<noteq> []" "ctx_misuse ctx = None"
  shows "\<exists>R. verify_batch b64 h e iter xs ctx n = Some (Inr R) \<and> batch_complete R (length xs)
    \<and> (\<forall>i < length xs. verify_proof b64 h e iter (xs ! i) ctx = Some (Inr (bm_report (br_members R ! i))) \<and> bm_index (br_members R ! i) = i)
    \<and> (batch_all_valid R \<longleftrightarrow> xs \<noteq> [] \<and> (\<forall>m \<in> set (br_members R).
         rep_cryptographic_validity (bm_report m) = Valid \<and> rep_evidence_validity (bm_report m) = Valid))"
proof -
  define rep where "rep bs = (SOME report. verify_proof b64 h e iter bs ctx = Some (Inr report))" for bs
  have v: "verify_proof b64 h e iter bs ctx = Some (Inr (rep bs))" for bs
    unfolding rep_def using someI_ex [OF verifier_total [OF assms(1,4)]] .
  let ?xs = "enumerate 0 xs"
  have count: "length (filter (\<lambda>(i, bs). P (rep bs)) ?xs) = length (filter (\<lambda>bs. P (rep bs)) xs)" for P
  proof -
    have "length (filter (\<lambda>bs. P (rep bs)) (map snd ys)) = length (filter (\<lambda>(i, bs). P (rep bs)) ys)" for ys :: "(nat \<times> bytes) list"
      by (simp add: filter_map comp_def case_prod_unfold del: map_snd_enumerate)
    from this [of ?xs] show ?thesis by simp
  qed
  have all: "length (filter Q xs) = length xs \<longleftrightarrow> (\<forall>x \<in> set xs. Q x)" for Q
    by (metis filter_id_conv length_filter_less less_irrefl)
  let ?ms = "map (\<lambda>(i, bs). \<lparr>bm_index = i, bm_report = rep bs\<rparr>) ?xs"
  define R where "R = \<lparr>br_members = ?ms,
      br_crypto_valid_count = length (filter (\<lambda>bs. rep_cryptographic_validity (rep bs) = Valid) xs),
      br_evidence_valid_count = length (filter (\<lambda>bs. rep_evidence_validity (rep bs) = Valid) xs)\<rparr>"
  have r: "verify_batch b64 h e iter xs ctx n = Some (Inr R)"
    using assms(2) batch_loop_eq [of "verifier_under b64 h e iter ctx" rep ?xs, OF v]
      count [of "\<lambda>r. rep_cryptographic_validity r = Valid"] count [of "\<lambda>r. rep_evidence_validity r = Valid"]
    by (simp add: verify_batch_def R_def)
  have "bm_report ` set ?ms = rep ` set (map snd ?xs)" by (simp add: image_image case_prod_unfold del: map_snd_enumerate)
  then have "bm_report ` set ?ms = rep ` set xs" by simp
  then have ms: "(\<forall>m \<in> set ?ms. P (bm_report m)) \<longleftrightarrow> (\<forall>x \<in> set xs. P (rep x))" for P by (metis (no_types, lifting) image_iff)
  have "batch_all_valid R \<longleftrightarrow> xs \<noteq> [] \<and> (\<forall>m \<in> set (br_members R).
      rep_cryptographic_validity (bm_report m) = Valid \<and> rep_evidence_validity (bm_report m) = Valid)"
    using ms [of "\<lambda>r. rep_cryptographic_validity r = Valid \<and> rep_evidence_validity r = Valid"] assms(3)
    by (simp add: batch_all_valid_def R_def all del: set_map) (metis length_enumerate length_0_conv)
  moreover have "batch_complete R (length xs)" by (simp add: batch_complete_def R_def)
  moreover have "\<forall>i < length xs. bm_report (br_members R ! i) = rep (xs ! i) \<and> bm_index (br_members R ! i) = i"
    by (simp add: R_def nth_enumerate_eq)
  ultimately show ?thesis using r v by (intro exI [of _ R]) simp
qed

text \<open>
  A batch is its members: the call always returns, an over-long batch is refused, a context that the verifier refuses fails every non-empty batch, and
  otherwise member number i is the report of the verifier on input number i. All inputs are covered, and the batch
  is all valid exactly if it is not empty and every input is valid in both respects.
\<close>

theorem batch_matches_single_calls:
  assumes "hash_iter iter"
  shows "\<exists>r. verify_batch b64 h e iter xs ctx n = Some r
    \<and> (\<forall>code. r = Inl code \<longleftrightarrow> (if length xs > n then code = LimitExceeded else xs \<noteq> [] \<and> ctx_misuse ctx = Some code))
    \<and> (\<forall>rep. r = Inr rep \<longrightarrow> batch_complete rep (length xs)
         \<and> (\<forall>i < length xs. verify_proof b64 h e iter (xs ! i) ctx = Some (Inr (bm_report (br_members rep ! i))) \<and> bm_index (br_members rep ! i) = i)
         \<and> (batch_all_valid rep \<longleftrightarrow> xs \<noteq> [] \<and> (\<forall>m \<in> set (br_members rep).
              rep_cryptographic_validity (bm_report m) = Valid \<and> rep_evidence_validity (bm_report m) = Valid)))"
proof (cases "length xs > n \<or> xs = []")
  case True
  then show ?thesis by (auto simp: verify_batch_def batch_complete_def batch_all_valid_def)
next
  case fits: False
  show ?thesis
  proof (cases "ctx_misuse ctx")
    case (Some code)
    then show ?thesis using fits by (cases xs) (auto simp: verify_batch_def enumerate_simps verifier_refuses)
  next
    case None
    obtain R where "verify_batch b64 h e iter xs ctx n = Some (Inr R)" "batch_complete R (length xs)"
        "\<forall>i < length xs. verify_proof b64 h e iter (xs ! i) ctx = Some (Inr (bm_report (br_members R ! i))) \<and> bm_index (br_members R ! i) = i"
        "batch_all_valid R \<longleftrightarrow> xs \<noteq> [] \<and> (\<forall>m \<in> set (br_members R).
           rep_cryptographic_validity (bm_report m) = Valid \<and> rep_evidence_validity (bm_report m) = Valid)"
      using batch_reports [OF assms _ _ None, of xs n b64 h e] fits by auto
    then show ?thesis using fits None by (intro exI [of _ "Inr R"]) simp
  qed
qed

theorem batch_matches_single_calls_witness:
  "\<exists>rep. verify_batch plain_b64 zero_hash plain_sig remdups [demo_bytes, (citing_bytes (prf_id demo_package))] demo_ctx 2 = Some (Inr rep)
     \<and> verify_proof plain_b64 zero_hash plain_sig remdups (citing_bytes (prf_id demo_package)) demo_ctx = Some (Inr (bm_report (br_members rep ! 1)))"
proof -
  obtain r where r: "verify_batch plain_b64 zero_hash plain_sig remdups [demo_bytes, (citing_bytes (prf_id demo_package))] demo_ctx 2 = Some r"
      "\<forall>code. r = Inl code \<longleftrightarrow> (if length [demo_bytes, (citing_bytes (prf_id demo_package))] > 2 then code = LimitExceeded
         else [demo_bytes, (citing_bytes (prf_id demo_package))] \<noteq> [] \<and> ctx_misuse demo_ctx = Some code)"
      "\<forall>rep. r = Inr rep \<longrightarrow> (\<forall>i < length [demo_bytes, (citing_bytes (prf_id demo_package))].
         verify_proof plain_b64 zero_hash plain_sig remdups ([demo_bytes, (citing_bytes (prf_id demo_package))] ! i) demo_ctx = Some (Inr (bm_report (br_members rep ! i))))"
    using batch_matches_single_calls [OF hash_iter_remdups, of plain_b64 zero_hash plain_sig "[demo_bytes, (citing_bytes (prf_id demo_package))]" demo_ctx 2] by blast
  then show ?thesis by (cases r) (auto dest: spec [of _ 1])
qed

section \<open>Descendants\<close>

lemma ancestors_ids: "anc_id ` set (ancestors rep) = set (recorded (rn_resolved rep) (rn_unresolved rep))"
proof -
  have "anc_id (ancestor_of rep i) = i" for i by (auto simp: ancestor_of_def split: list.splits)
  then show ?thesis by (force simp: ancestors_def recorded_def image_image)
qed

text \<open>What the first loop leaves: every candidate with an id is held under it, and the ids are listed in order.\<close>

lemma load_candidates_Inr:
  assumes "load_candidates verify mem ids xs = Some (Inr (mem', ids'))"
  shows "(\<forall>i bs. store_get mem i = Some bs \<longrightarrow> store_get mem' i = Some bs)
    \<and> (\<forall>bs \<in> set xs. \<exists>report. verify bs = Some (Inr report) \<and> (\<forall>i. rep_proof_id report = Some i \<longrightarrow> store_get mem' i = Some bs \<and> i \<in> set ids'))
    \<and> (\<forall>i \<in> set ids'. i \<in> set ids \<or> (\<exists>bs \<in> set xs. \<exists>report. verify bs = Some (Inr report) \<and> rep_proof_id report = Some i))
    \<and> set ids \<subseteq> set ids'"
  using assms
proof (induction verify mem ids xs rule: load_candidates.induct)
  case (2 verify mem ids bs rest)
  then obtain report where v: "verify bs = Some (Inr report)" by (auto split: option.splits sum.splits)
  show ?case
  proof (cases "rep_proof_id report")
    case None
    then show ?thesis using 2 v by auto
  next
    case (Some i)
    then obtain mem1 where put: "store_put mem i bs = Inr mem1" using 2(3) v by (auto split: sum.splits)
    have "load_candidates verify mem1 (ids @ [i]) rest = Some (Inr (mem', ids'))" using 2(3) v Some put by simp
    note IH = 2(2) [OF v refl Some put this]
    show ?thesis using IH v Some memory.put_get [OF put] memory.put_monotone [OF put] by fastforce
  qed
qed simp


lemma descend_Inr:
  assumes "descend resolve get target ids out = Some (Inr out')"
  shows "set out' = set out \<union> {i \<in> set ids. i \<noteq> target \<and> (\<exists>bs rep. get i = Inr (Some bs) \<and> resolve bs = Some (Inr rep)
      \<and> target \<in> set (recorded (rn_resolved rep) (rn_unresolved rep)))}
    \<and> (\<forall>i \<in> set ids. i \<noteq> target \<longrightarrow> (\<exists>bs rep. get i = Inr (Some bs) \<and> resolve bs = Some (Inr rep)))"
  using assms
proof (induction resolve get target ids out rule: descend.induct)
  case (2 resolve get target i ids out)
  show ?case
  proof (cases "i = target")
    case True
    then show ?thesis using 2 by auto
  next
    case False
    with 2(3) obtain bs rep where b: "get i = Inr (Some bs)" "resolve bs = Some (Inr rep)"
      by (auto split: sum.splits option.splits)
    have named: "list_ex (\<lambda>a. anc_id a = target) (ancestors rep) \<longleftrightarrow> target \<in> set (recorded (rn_resolved rep) (rn_unresolved rep))"
      unfolding ancestors_ids [symmetric] by (auto simp: list_ex_iff)
    have "descend resolve get target ids (if list_ex (\<lambda>a. anc_id a = target) (ancestors rep) then out @ [i] else out) = Some (Inr out')"
      using 2(3) False b by simp
    from 2(2) [OF False b(1) refl b(2) refl this] show ?thesis using False b named by auto
  qed
qed simp

lemma citing_descends:
  assumes i: "utf8_text i" "starts_with i ''prf:v1:''" "i \<noteq> cited_id"
  shows "descendants_of plain_b64 zero_hash plain_sig remdups cited_id [citing_bytes i] cited_store demo_ctx 1 = Some (Inr [i])"
proof -
  let ?mem = "MemoryStore_new\<lparr>ms_inner := [i \<mapsto> citing_bytes i]\<rparr>"
  let ?get = "union_get (\<lambda>i. Inr (store_get ?mem i)) cited_store"
  have get: "?get cited_id = cited_store cited_id" "?get i = Inr (Some (citing_bytes i))"
    using i(3) by (simp_all add: union_get_def store_get_def cited_store_def)
  obtain root report where r: "verify_proof plain_b64 zero_hash plain_sig remdups (citing_bytes i) demo_ctx = Some (Inr root)"
      "rep_proof_id root = Some i"
      "resolve_proof_chain plain_b64 zero_hash plain_sig remdups (citing_bytes i) ?get demo_ctx 1
       = Some (Inr \<lparr>rn_root = root, rn_resolved = [\<lparr>rp_id = cited_id, rp_depth = 1, rp_report = report\<rparr>], rn_unresolved = []\<rparr>)"
    using citing_resolves [of ?get, OF get(1) i] by blast
  have "citing_bytes i \<noteq> []" "length (citing_bytes i) \<le> 10000" "i \<noteq> []"
    using plain_size [OF i(1), of "[cited_id]"] i(2) by (simp_all only: citing_bytes_def encode_canonical_def encode_value_not_Nil not_False_eq_True simp_thms)
      (auto simp: starts_with_def)
  then have put: "store_put MemoryStore_new i (citing_bytes i) = Inr ?mem"
    by (simp add: store_put_def MemoryStore_new_def default_limits_def)
  have load: "load_candidates (verifier_under plain_b64 zero_hash plain_sig remdups demo_ctx) MemoryStore_new [] [citing_bytes i]
      = Some (Inr (?mem, [i]))"
    unfolding load_candidates.simps r(1) option.case sum.case r(2) put append_Nil ..
  let ?rep = "\<lparr>rn_root = root, rn_resolved = [\<lparr>rp_id = cited_id, rp_depth = 1, rp_report = report\<rparr>], rn_unresolved = []\<rparr>"
  have "cited_id \<in> anc_id ` set (ancestors ?rep)" unfolding ancestors_ids by (simp add: recorded_def)
  then have "list_ex (\<lambda>a. anc_id a = cited_id) (ancestors ?rep)" unfolding list_ex_iff by (elim imageE) (rule bexI, rule sym, assumption+)
  then have "descend (\<lambda>bs. resolve_proof_chain plain_b64 zero_hash plain_sig remdups bs ?get demo_ctx 1) ?get cited_id [i] []
      = Some (Inr [i])"
    unfolding descend.simps get r(3) option.case sum.case if_not_P [OF i(3)] by simp
  then show ?thesis unfolding descendants_of_def load option.case sum.case prod.case Let_def by simp
qed

text \<open>A candidate that fails to verify is still listed as a descendant: only its stated id and its linkage are used.\<close>

lemma tampered_candidate_listed:
  "\<exists>report. verify_proof plain_b64 zero_hash plain_sig remdups (citing_bytes ''prf:v1:x'') demo_ctx = Some (Inr report)
     \<and> rep_cryptographic_validity report \<noteq> Valid
     \<and> descendants_of plain_b64 zero_hash plain_sig remdups cited_id [citing_bytes ''prf:v1:x''] cited_store demo_ctx 1 = Some (Inr [''prf:v1:x''])"
proof -
  have x: "''x'' \<noteq> replicate 32 c" for c
    by (rule notI, drule arg_cong [of _ _ length]) simp
  have i: "utf8_text ''prf:v1:x''" "starts_with ''prf:v1:x'' ''prf:v1:''" "''prf:v1:x'' \<noteq> cited_id" "''prf:v1:x'' \<noteq> prf_id demo_package"
    by (simp_all add: utf8_text_def text_ok_def as_bytes_def byte_of_char_def in_range_def starts_with_def cited_id_def demo_id x)
  then show ?thesis using citing_resolves [of cited_store, OF refl i(1-3)] citing_descends [OF i(1-3)] by blast
qed

lemma descendants_pointwise:
  fixes ctx :: verify_ctx
  assumes get: "get = union_get (\<lambda>i. Inr (store_get mem i)) store"
    and load: "load_candidates (verifier_under b64 h e iter ctx) MemoryStore_new [] candidates = Some (Inr (mem, ids))"
    and run: "descend (\<lambda>bs. resolve_proof_chain b64 h e iter bs get ctx max_d) get target ids [] = Some (Inr out)"
  shows "bs \<in> set candidates \<Longrightarrow> verify_proof b64 h e iter bs ctx = Some (Inr report) \<Longrightarrow> rep_proof_id report = Some i \<Longrightarrow>
      store_get mem i = Some bs"
    and "i \<in> set out \<longleftrightarrow> i \<noteq> target \<and> (\<exists>bs \<in> set candidates. \<exists>report rep.
         verify_proof b64 h e iter bs ctx = Some (Inr report) \<and> rep_proof_id report = Some i
         \<and> resolve_proof_chain b64 h e iter bs get ctx max_d = Some (Inr rep)
         \<and> target \<in> set (recorded (rn_resolved rep) (rn_unresolved rep)))" (is "?L \<longleftrightarrow> ?R")
proof -
  note L = load_candidates_Inr [OF load] and D = descend_Inr [OF run]
  have union: "get i = Inr (Some b) \<Longrightarrow> store_get mem i = Some bs \<Longrightarrow> b = bs" for i b bs
    by (auto simp: get union_get_def bindR_Inr_iff split: option.splits if_splits)
  show held: "store_get mem i = Some bs" if "bs \<in> set candidates" "verify_proof b64 h e iter bs ctx = Some (Inr report)" "rep_proof_id report = Some i" for bs report i
    using L that by fastforce
  show "?L \<longleftrightarrow> ?R"
  proof
    assume ?L
    then obtain b rep where b: "i \<in> set ids" "i \<noteq> target" "get i = Inr (Some b)"
        "resolve_proof_chain b64 h e iter b get ctx max_d = Some (Inr rep)"
        "target \<in> set (recorded (rn_resolved rep) (rn_unresolved rep))"
      using D by auto
    then obtain bs report where bs: "bs \<in> set candidates" "verify_proof b64 h e iter bs ctx = Some (Inr report)" "rep_proof_id report = Some i"
      using L by auto
    then have "b = bs" using union [OF b(3) held] by blast
    then show ?R using b bs by blast
  next
    assume ?R
    then obtain bs report rep where r: "i \<noteq> target" "bs \<in> set candidates" "verify_proof b64 h e iter bs ctx = Some (Inr report)" "rep_proof_id report = Some i"
        "resolve_proof_chain b64 h e iter bs get ctx max_d = Some (Inr rep)"
        "target \<in> set (recorded (rn_resolved rep) (rn_unresolved rep))" by blast
    have i: "i \<in> set ids" using L r(2-4) by fastforce
    then obtain b where b: "get i = Inr (Some b)" using D r(1) by blast
    then have "b = bs" using union held [OF r(2-4)] by blast
    then show ?L using D i b r by auto
  qed
qed

text \<open>
  The descendants of a proof among explicit candidates: the answer is sorted and lists exactly the ids of the candidates, other than the
  target itself, whose resolution against candidates and store together names the target. Bytes held by both sides under one id agree, or
  the call fails.
\<close>

theorem descendants_exact:
  assumes "descendants_of b64 h e iter target candidates store ctx max_d = Some (Inr out)"
  shows "\<exists>mem. sorted out
    \<and> set out = {i. i \<noteq> target \<and> (\<exists>bs \<in> set candidates. \<exists>report rep.
         verify_proof b64 h e iter bs ctx = Some (Inr report) \<and> rep_proof_id report = Some i
         \<and> resolve_proof_chain b64 h e iter bs (union_get (\<lambda>i. Inr (store_get mem i)) store) ctx max_d = Some (Inr rep)
         \<and> target \<in> set (map rp_id (rn_resolved rep) @ map ur_id (rn_unresolved rep)))}
    \<and> (\<forall>bs \<in> set candidates. \<forall>report i. verify_proof b64 h e iter bs ctx = Some (Inr report) \<longrightarrow> rep_proof_id report = Some i \<longrightarrow>
         store_get mem i = Some bs)"
proof -
  obtain mem ids out' where load: "load_candidates (verifier_under b64 h e iter ctx) MemoryStore_new [] candidates = Some (Inr (mem, ids))"
      and run: "descend (\<lambda>bs. resolve_proof_chain b64 h e iter bs (union_get (\<lambda>i. Inr (store_get mem i)) store) ctx max_d)
        (union_get (\<lambda>i. Inr (store_get mem i)) store) target ids [] = Some (Inr out')" "out = sort out'"
    using assms by (auto simp: descendants_of_def Let_def bindR_Inr_iff split: option.splits sum.splits)
  note P = descendants_pointwise [OF refl load run(1)]
  have "set out = {i. i \<noteq> target \<and> (\<exists>bs \<in> set candidates. \<exists>report rep.
         verify_proof b64 h e iter bs ctx = Some (Inr report) \<and> rep_proof_id report = Some i
         \<and> resolve_proof_chain b64 h e iter bs (union_get (\<lambda>i. Inr (store_get mem i)) store) ctx max_d = Some (Inr rep)
         \<and> target \<in> set (map rp_id (rn_resolved rep) @ map ur_id (rn_unresolved rep)))}"
    unfolding run(2) set_sort by (rule set_eqI) (unfold mem_Collect_eq, rule P(2) [unfolded recorded_def])
  moreover have "sorted out" unfolding run(2) by (rule sorted_sort)
  moreover have "\<forall>bs \<in> set candidates. \<forall>report i. verify_proof b64 h e iter bs ctx = Some (Inr report) \<longrightarrow> rep_proof_id report = Some i \<longrightarrow>
         store_get mem i = Some bs" using P(1) by blast
  ultimately show ?thesis by (intro exI [of _ mem] conjI)
qed

theorem descendants_exact_witness:
  "\<exists>out. descendants_of plain_b64 zero_hash plain_sig remdups cited_id [citing_bytes (prf_id demo_package)] cited_store demo_ctx 1 = Some (Inr out)
     \<and> sorted out \<and> out = [prf_id demo_package]"
  using citing_descends [OF demo_id_text _ cited_not_demo [symmetric]] demo_id
    descendants_exact [of plain_b64 zero_hash plain_sig remdups cited_id "[citing_bytes (prf_id demo_package)]" cited_store demo_ctx 1]
  by (auto simp: starts_with_def)

end
