(* ===== verification/Builder.thy ===== *)
theory Builder
  imports Verdict "HOL-Library.Multiset"
begin

text \<open>
  Assembly of a package from created artifacts, \<^verbatim>\<open>proof-verify/src/builder.rs\<close>: the builder's state,
  its operations in the order of the code and \<^verbatim>\<open>build\<close> with its self-check, and that what is built
  verifies, loses nothing and does not depend on the order of insertion.
\<close>

section \<open>State and operations\<close>

record built_proof =
  bp_proof :: proof_package
  bp_canonical :: bytes
  bp_id :: string

record proof_builder =
  pb_proposition :: "proposition_content option"
  pb_created_at :: u64
  pb_events :: "created_event list"
  pb_attestations :: "created_attestation list"
  pb_evidence :: "created_evidence list"
  pb_relationships :: "created_relationship list"
  pb_referenced_proofs :: "string list"
  pb_vocabularies :: "vocabulary_decl list"

definition ProofBuilder_default :: proof_builder where
  "ProofBuilder_default = \<lparr>pb_proposition = None, pb_created_at = 0, pb_events = [], pb_attestations = [], pb_evidence = [],
     pb_relationships = [], pb_referenced_proofs = [], pb_vocabularies = []\<rparr>"

definition ProofBuilder_new :: "proposition_content \<Rightarrow> u64 \<Rightarrow> proof_builder" where
  "ProofBuilder_new proposition created_at =
     ProofBuilder_default\<lparr>pb_proposition := Some proposition, pb_created_at := created_at\<rparr>"

definition add_event :: "proof_builder \<Rightarrow> created_event \<Rightarrow> proof_builder" where
  "add_event b x = b\<lparr>pb_events := pb_events b @ [x]\<rparr>"

definition add_attestation :: "proof_builder \<Rightarrow> created_attestation \<Rightarrow> proof_builder" where
  "add_attestation b x = b\<lparr>pb_attestations := pb_attestations b @ [x]\<rparr>"

definition add_evidence :: "proof_builder \<Rightarrow> created_evidence \<Rightarrow> proof_builder" where
  "add_evidence b x = b\<lparr>pb_evidence := pb_evidence b @ [x]\<rparr>"

definition add_relationship :: "proof_builder \<Rightarrow> created_relationship \<Rightarrow> proof_builder" where
  "add_relationship b x = b\<lparr>pb_relationships := pb_relationships b @ [x]\<rparr>"

definition add_referenced_proof :: "base64_engine \<Rightarrow> proof_builder \<Rightarrow> string \<Rightarrow> proof_builder result" where
  "add_referenced_proof b64 b i =
     bindR (check_proof_ref_shape_id b64 i) (\<lambda>_.
     Inr (b\<lparr>pb_referenced_proofs := pb_referenced_proofs b @ [i]\<rparr>))"

definition add_vocabulary :: "proof_builder \<Rightarrow> string \<Rightarrow> u64 \<Rightarrow> proof_builder result" where
  "add_vocabulary b ns version =
     (if ns = [] \<or> length ns > 128 then Inl SchemaViolation
      else if CHR '':'' \<in> set ns \<or> contains_whitespace ns then Inl SchemaViolation
      else Inr (b\<lparr>pb_vocabularies := pb_vocabularies b @ [\<lparr>voc_ns = ns, voc_version = version\<rparr>]\<rparr>))"

fun duplicates_from :: "string set \<Rightarrow> string list \<Rightarrow> unit result" where
  "duplicates_from seen [] = Inr ()"
| "duplicates_from seen (i # ids) = (if i \<in> seen then Inl SchemaViolation else duplicates_from (insert i seen) ids)"

definition check_duplicates :: "string list \<Rightarrow> unit result" where
  "check_duplicates ids = duplicates_from {} ids"

text \<open>\<^verbatim>\<open>Vec::dedup_by\<close> with equal keys: of a run of equal keys the first element stays.\<close>

fun dedup_key :: "('a \<Rightarrow> 'b) \<Rightarrow> 'a list \<Rightarrow> 'a list" where
  "dedup_key f (x # y # xs) = (if f x = f y then dedup_key f (x # xs) else x # dedup_key f (y # xs))"
| "dedup_key f xs = xs"

definition build :: "base64_engine \<Rightarrow> hash_engine \<Rightarrow> proof_builder \<Rightarrow> limits \<Rightarrow> built_proof result" where
  "build b64 h b l =
     bindR (ok_or (pb_proposition b) SchemaViolation) (\<lambda>proposition.
     if prop_v proposition \<noteq> 1 then Inl UnsupportedVersion else
     let events = sort_key ce_id (pb_events b);
         attestations = sort_key ca_id (pb_attestations b);
         evidence = sort_key cv_id (pb_evidence b);
         relationships = sort_key cr_id (pb_relationships b);
         event_ids = map ce_id events;
         att_ids = map ca_id attestations;
         evd_ids = map cv_id evidence;
         rel_ids = map cr_id relationships
     in bindR (check_duplicates event_ids) (\<lambda>_.
        bindR (check_duplicates att_ids) (\<lambda>_.
        bindR (check_duplicates evd_ids) (\<lambda>_.
        bindR (check_duplicates rel_ids) (\<lambda>_.
        let refs = remdups_adj (sort (pb_referenced_proofs b))
        in if length refs > max_referenced_proofs l then Inl LimitExceeded else
        let vocabularies = dedup_key voc_ns (sort_key voc_ns (pb_vocabularies b))
        in if length vocabularies > max_vocabularies l then Inl LimitExceeded else
        let i = proof_id_full b64 h (proposition_to_cbor proposition) (pb_created_at b) event_ids att_ids evd_ids rel_ids refs
                  (map (\<lambda>vd. (voc_ns vd, voc_version vd)) vocabularies)
        in if i \<in> set refs then Inl CycleDetected else
        let proof_pkg = \<lparr>prf_v = 1, prf_id = i, prf_proposition = proposition, prf_events = map ce_content events,
              prf_attestations = map (\<lambda>a. \<lparr>sa_content = ca_content a, sa_sign1 = ca_sign1 a\<rparr>) attestations,
              prf_evidence = map cv_content evidence, prf_relationships = map cr_content relationships,
              prf_referenced_proofs = refs, prf_vocabularies = vocabularies, prf_created_at = pb_created_at b\<rparr>
        in bindR (proof_to_cbor proof_pkg) (\<lambda>value.
        let canonical = encode_canonical value
        in if length canonical > max_proof_size l then Inl LimitExceeded else
        bindR (decode_and_check_canonical canonical l) (\<lambda>decoded.
        bindR (cbor_to_proof b64 decoded l) (\<lambda>back.
        if back \<noteq> proof_pkg then Inl SchemaViolation
        else Inr \<lparr>bp_proof = proof_pkg, bp_canonical = canonical, bp_id = i\<rparr>))))))))"

section \<open>What the passes of \<^verbatim>\<open>build\<close> compute\<close>

lemma duplicates_from_iff: "duplicates_from seen ids = Inr () \<longleftrightarrow> distinct ids \<and> set ids \<inter> seen = {}"
  by (induction ids arbitrary: seen) auto

lemma check_duplicates_iff [simp]: "check_duplicates ids = Inr u \<longleftrightarrow> distinct ids"
  using duplicates_from_iff [of "{}" ids] by (simp add: check_duplicates_def)

lemma check_duplicates_code: "check_duplicates ids = (if distinct ids then Inr () else Inl SchemaViolation)"
proof -
  have "duplicates_from seen ids = Inr () \<or> duplicates_from seen ids = Inl SchemaViolation" for seen
    by (induction ids arbitrary: seen) auto
  then show ?thesis using check_duplicates_iff [of ids "()"] by (auto simp: check_duplicates_def)
qed

lemma dedup_key_map: "map f (dedup_key f xs) = remdups_adj (map f xs)"
  by (induction f xs rule: dedup_key.induct) auto

lemma dedup_key_subset: "set (dedup_key f xs) \<subseteq> set xs"
  by (induction f xs rule: dedup_key.induct) auto

lemma dedup_key_set: "f ` set (dedup_key f xs) = f ` set xs"
  using arg_cong [OF dedup_key_map [of f xs], of set] by simp

lemma dedup_key_distinct: "distinct (map f xs) \<Longrightarrow> dedup_key f xs = xs"
  by (induction f xs rule: dedup_key.induct) auto

lemma remdups_adj_sort: "sorted_wrt (<) (remdups_adj (sort xs))"
  for xs :: "'a :: linorder list"
  by (rule sorted_distinct_adj_strict) simp_all

lemma remdups_adj_sort_set: "set xs = set ys \<Longrightarrow> remdups_adj (sort xs) = remdups_adj (sort ys)"
  for xs ys :: "'a :: linorder list"
  by (rule strict_sorted_equal [OF remdups_adj_sort remdups_adj_sort]) simp

text \<open>Stable sorting depends only on the order within each key.\<close>

lemma sort_key_by_classes:
  fixes f :: "'a \<Rightarrow> 'b :: linorder"
  assumes same: "\<And>k. filter (\<lambda>x. f x = k) xs = filter (\<lambda>x. f x = k) ys"
  shows "sort_key f xs = sort_key f ys"
proof (rule properties_for_sort_key)
  have "count (mset zs) a = count (mset (filter (\<lambda>x. f x = f a) zs)) a" for zs a by simp
  then have "count (mset ys) a = count (mset xs) a" for a using same [of "f a"] by metis
  then show "mset (sort_key f ys) = mset xs" by (intro multiset_eqI) simp
  show "filter (\<lambda>x. f k = f x) (sort_key f ys) = filter (\<lambda>x. f k = f x) xs" for k
    using sort_key_stable [of f "f k" ys] same [of "f k"] by (simp add: eq_commute)
qed simp

lemma sort_key_distinct_mset:
  fixes f :: "'a \<Rightarrow> 'b :: linorder"
  assumes same: "mset xs = mset ys" and "distinct (map f xs)"
  shows "sort_key f xs = sort_key f ys"
proof (rule sort_key_by_classes)
  fix k
  have "length (filter (\<lambda>x. f x = k) xs) \<le> 1"
    using assms(2)
  proof (induction xs)
    case (Cons a xs)
    then have "filter (\<lambda>x. f x = f a) xs = []" by (auto simp: filter_empty_conv) (metis image_eqI)
    then show ?case using Cons by auto
  qed simp
  moreover have "mset (filter (\<lambda>x. f x = k) xs) = mset (filter (\<lambda>x. f x = k) ys)" using same by simp
  ultimately show "filter (\<lambda>x. f x = k) xs = filter (\<lambda>x. f x = k) ys"
    using mset_single_iff [of "filter (\<lambda>x. f x = k) ys"] by (cases "filter (\<lambda>x. f x = k) xs") (auto simp del: mset_filter)
qed

lemma map_sort_key_sort: "map f (sort_key f xs) = sort (map f xs)"
  using map_sort_key [of f "\<lambda>x. x" xs] by (simp add: comp_def)

lemma strict_by_key: "distinct (map f xs) \<Longrightarrow> sorted_wrt (<) (map f (sort_key f xs))"
  for f :: "'a \<Rightarrow> 'b :: linorder"
  by (simp add: strict_sorted_iff map_sort_key_sort)

lemma distinct_map_mset: "mset xs = mset ys \<Longrightarrow> distinct (map f xs) \<longleftrightarrow> distinct (map f ys)"
  by (metis mset_eq_imp_distinct_iff mset_map)

section \<open>What is built\<close>

text \<open>The package that the members of a builder make up.\<close>

definition assembled :: "base64_engine \<Rightarrow> hash_engine \<Rightarrow> proof_builder \<Rightarrow> proposition_content \<Rightarrow> proof_package" where
  "assembled b64 h b proposition =
     (let events = sort_key ce_id (pb_events b); attestations = sort_key ca_id (pb_attestations b);
          evidence = sort_key cv_id (pb_evidence b); relationships = sort_key cr_id (pb_relationships b);
          refs = remdups_adj (sort (pb_referenced_proofs b));
          vocabularies = dedup_key voc_ns (sort_key voc_ns (pb_vocabularies b))
      in \<lparr>prf_v = 1,
           prf_id = proof_id_full b64 h (proposition_to_cbor proposition) (pb_created_at b) (map ce_id events) (map ca_id attestations)
             (map cv_id evidence) (map cr_id relationships) refs (map (\<lambda>vd. (voc_ns vd, voc_version vd)) vocabularies),
           prf_proposition = proposition, prf_events = map ce_content events,
           prf_attestations = map (\<lambda>a. \<lparr>sa_content = ca_content a, sa_sign1 = ca_sign1 a\<rparr>) attestations,
           prf_evidence = map cv_content evidence, prf_relationships = map cr_content relationships,
           prf_referenced_proofs = refs, prf_vocabularies = vocabularies, prf_created_at = pb_created_at b\<rparr>)"

text \<open>The last part of \<^verbatim>\<open>build\<close>: self reference, encoding, size and self-check.\<close>

definition seal :: "base64_engine \<Rightarrow> proof_package \<Rightarrow> limits \<Rightarrow> built_proof result" where
  "seal b64 p l =
     (if prf_id p \<in> set (prf_referenced_proofs p) then Inl CycleDetected else
      bindR (proof_to_cbor p) (\<lambda>w.
      if length (encode_canonical w) > max_proof_size l then Inl LimitExceeded else
      bindR (parse_proof b64 (encode_canonical w) l) (\<lambda>back.
      if back \<noteq> p then Inl SchemaViolation else Inr \<lparr>bp_proof = p, bp_canonical = encode_canonical w, bp_id = prf_id p\<rparr>)))"

lemma build_eq:
  "build b64 h b l =
     (case pb_proposition b of None \<Rightarrow> Inl SchemaViolation
      | Some proposition \<Rightarrow>
          if prop_v proposition \<noteq> 1 then Inl UnsupportedVersion
          else if \<not> (distinct (map ce_id (pb_events b)) \<and> distinct (map ca_id (pb_attestations b))
              \<and> distinct (map cv_id (pb_evidence b)) \<and> distinct (map cr_id (pb_relationships b))) then Inl SchemaViolation
          else if length (remdups_adj (sort (pb_referenced_proofs b))) > max_referenced_proofs l then Inl LimitExceeded
          else if length (dedup_key voc_ns (sort_key voc_ns (pb_vocabularies b))) > max_vocabularies l then Inl LimitExceeded
          else seal b64 (assembled b64 h b proposition) l)"
proof (cases "pb_proposition b")
  case (Some pr)
  show ?thesis
    unfolding build_def Let_def Some ok_or_Some bindR.simps option.case map_sort_key_sort check_duplicates_code distinct_sort
      seal_def assembled_def parse_proof_def decode_check_eq proof_package.select_convs bindR_assoc
    by simp
qed (simp add: build_def ok_or_def)

lemma seal_Inr:
  "seal b64 p l = Inr bp \<longleftrightarrow> prf_id p \<notin> set (prf_referenced_proofs p)
     \<and> (\<exists>w. proof_to_cbor p = Inr w \<and> length (encode_canonical w) \<le> max_proof_size l \<and> parse_proof b64 (encode_canonical w) l = Inr p
          \<and> bp = \<lparr>bp_proof = p, bp_canonical = encode_canonical w, bp_id = prf_id p\<rparr>)"
  by (auto simp: seal_def result_iff not_less)

lemma build_Inr:
  "build b64 h b l = Inr bp \<longleftrightarrow>
     (\<exists>proposition. pb_proposition b = Some proposition \<and> prop_v proposition = 1
       \<and> distinct (map ce_id (pb_events b)) \<and> distinct (map ca_id (pb_attestations b))
       \<and> distinct (map cv_id (pb_evidence b)) \<and> distinct (map cr_id (pb_relationships b))
       \<and> length (remdups_adj (sort (pb_referenced_proofs b))) \<le> max_referenced_proofs l
       \<and> length (dedup_key voc_ns (sort_key voc_ns (pb_vocabularies b))) \<le> max_vocabularies l
       \<and> seal b64 (assembled b64 h b proposition) l = Inr bp)"
  unfolding build_eq by (auto simp: result_iff not_less split: option.splits)

lemma dedup_key_first:
  fixes f :: "'a \<Rightarrow> 'b :: linorder"
  shows "sorted (map f xs) \<Longrightarrow> v \<in> set (dedup_key f xs) \<Longrightarrow> \<exists>rest. filter (\<lambda>x. f x = f v) xs = v # rest"
proof (induction f xs rule: dedup_key.induct)
  case (1 f x y xs)
  show ?case
  proof (cases "f x = f y")
    case True
    have "sorted (map f (x # xs))" "v \<in> set (dedup_key f (x # xs))" using 1(3,4) True by simp_all
    then obtain rest where rest: "filter (\<lambda>z. f z = f v) (x # xs) = v # rest" using 1(1) [OF True] by blast
    show ?thesis
    proof (cases "f x = f v")
      case same: True
      have "v = x" using rest unfolding filter.simps(2) if_P [OF same] by simp
      then show ?thesis by simp
    next
      case other: False
      then have "f y \<noteq> f v" using True by simp
      then show ?thesis using rest other by simp
    qed
  next
    case False
    have "f x \<le> f y" using 1(3) by simp
    then have "f x < f y" using False by (rule le_neq_trans)
    moreover have "f y \<le> f z" if "z \<in> set (y # xs)" for z using that 1(3) by auto
    ultimately have below: "f x < f z" if "z \<in> set (y # xs)" for z using that by (meson less_le_trans)
    show ?thesis
    proof (cases "v = x")
      case True
      then show ?thesis by auto
    next
      case other: False
      then have v: "v \<in> set (dedup_key f (y # xs))" using 1(4) False by auto
      then have "v \<in> set (y # xs)" using dedup_key_subset [of f "y # xs"] by blast
      then have "f x \<noteq> f v" using below [of v] by simp
      then show ?thesis using 1(2) [OF False _ v] 1(3) by simp
    qed
  qed
qed simp_all

lemma assembled_fields:
  fixes b :: proof_builder
  shows "prf_v (assembled b64 h b p) = 1" "prf_proposition (assembled b64 h b p) = p"
    "prf_events (assembled b64 h b p) = map ce_content (sort_key ce_id (pb_events b))"
    "prf_attestations (assembled b64 h b p)
       = map (\<lambda>a. \<lparr>sa_content = ca_content a, sa_sign1 = ca_sign1 a\<rparr>) (sort_key ca_id (pb_attestations b))"
    "prf_evidence (assembled b64 h b p) = map cv_content (sort_key cv_id (pb_evidence b))"
    "prf_relationships (assembled b64 h b p) = map cr_content (sort_key cr_id (pb_relationships b))"
    "prf_referenced_proofs (assembled b64 h b p) = remdups_adj (sort (pb_referenced_proofs b))"
    "prf_vocabularies (assembled b64 h b p) = dedup_key voc_ns (sort_key voc_ns (pb_vocabularies b))"
    "prf_created_at (assembled b64 h b p) = pb_created_at b"
  by (simp_all add: assembled_def Let_def)

section \<open>Correctness of \<^verbatim>\<open>build\<close>\<close>

text \<open>
  C24. What \<^verbatim>\<open>build\<close> emits is what was added, no more and no less: its bytes parse back to the package it
  returns under the id it returns, the members are those added in the order of their ids, the references
  are the added ones in strictly ascending order, and of several declarations of a vocabulary namespace
  exactly the first one stays.
\<close>

theorem build_contents:
  assumes "build b64 h b l = Inr bp"
  shows "bindR (decode_and_check_canonical (bp_canonical bp) l) (\<lambda>v. cbor_to_proof b64 v l) = Inr (bp_proof bp)
    \<and> prf_id (bp_proof bp) = bp_id bp \<and> bp_id bp \<notin> set (pb_referenced_proofs b)
    \<and> pb_proposition b = Some (prf_proposition (bp_proof bp)) \<and> prf_created_at (bp_proof bp) = pb_created_at b
    \<and> (\<exists>es. mset es = mset (pb_events b) \<and> sorted_wrt (<) (map ce_id es) \<and> prf_events (bp_proof bp) = map ce_content es)
    \<and> (\<exists>as. mset as = mset (pb_attestations b) \<and> sorted_wrt (<) (map ca_id as)
         \<and> prf_attestations (bp_proof bp) = map (\<lambda>a. \<lparr>sa_content = ca_content a, sa_sign1 = ca_sign1 a\<rparr>) as)
    \<and> (\<exists>vs. mset vs = mset (pb_evidence b) \<and> sorted_wrt (<) (map cv_id vs) \<and> prf_evidence (bp_proof bp) = map cv_content vs)
    \<and> (\<exists>rs. mset rs = mset (pb_relationships b) \<and> sorted_wrt (<) (map cr_id rs) \<and> prf_relationships (bp_proof bp) = map cr_content rs)
    \<and> set (prf_referenced_proofs (bp_proof bp)) = set (pb_referenced_proofs b) \<and> sorted_wrt (<) (prf_referenced_proofs (bp_proof bp))
    \<and> voc_ns ` set (prf_vocabularies (bp_proof bp)) = voc_ns ` set (pb_vocabularies b)
    \<and> (\<forall>v \<in> set (prf_vocabularies (bp_proof bp)). \<exists>rest. filter (\<lambda>x. voc_ns x = voc_ns v) (pb_vocabularies b) = v # rest)"
proof -
  obtain p where p: "pb_proposition b = Some p" "distinct (map ce_id (pb_events b))" "distinct (map ca_id (pb_attestations b))"
      "distinct (map cv_id (pb_evidence b))" "distinct (map cr_id (pb_relationships b))"
      "seal b64 (assembled b64 h b p) l = Inr bp"
    using assms unfolding build_Inr by blast
  then have bp: "bp_proof bp = assembled b64 h b p" "bp_id bp = prf_id (assembled b64 h b p)"
      "bindR (decode_and_check_canonical (bp_canonical bp) l) (\<lambda>v. cbor_to_proof b64 v l) = Inr (bp_proof bp)"
      "bp_id bp \<notin> set (pb_referenced_proofs b)"
    unfolding seal_Inr parse_proof_def decode_check_eq by (auto simp: assembled_fields)
  have "\<exists>rest. filter (\<lambda>x. voc_ns x = voc_ns v) (pb_vocabularies b) = v # rest"
    if "v \<in> set (dedup_key voc_ns (sort_key voc_ns (pb_vocabularies b)))" for v :: vocabulary_decl
    using dedup_key_first [OF _ that] by (simp add: sort_key_stable)
  then show ?thesis
    unfolding bp(1) bp(2) assembled_fields using bp p
    by (intro conjI exI [of _ "sort_key ce_id (pb_events b)"] exI [of _ "sort_key ca_id (pb_attestations b)"]
        exI [of _ "sort_key cv_id (pb_evidence b)"] exI [of _ "sort_key cr_id (pb_relationships b)"])
      (simp_all add: dedup_key_set strict_by_key remdups_adj_sort)
qed

text \<open>
  The order in which members, references and vocabularies were added does not matter: two builders with
  the same proposition, time, members, references and, for each namespace, the same sequence of declarations
  build the same package or fail with the same error.
\<close>

theorem build_order_irrelevant:
  assumes "pb_proposition b = pb_proposition b'" "pb_created_at b = pb_created_at b'"
    and "mset (pb_events b) = mset (pb_events b')" "mset (pb_attestations b) = mset (pb_attestations b')"
    and "mset (pb_evidence b) = mset (pb_evidence b')" "mset (pb_relationships b) = mset (pb_relationships b')"
    and "set (pb_referenced_proofs b) = set (pb_referenced_proofs b')"
    and "\<And>ns. filter (\<lambda>v. voc_ns v = ns) (pb_vocabularies b) = filter (\<lambda>v. voc_ns v = ns) (pb_vocabularies b')"
  shows "build b64 h b l = build b64 h b' l"
proof -
  note same = assms(1,2) remdups_adj_sort_set [OF assms(7)] sort_key_by_classes [OF assms(8)]
    distinct_map_mset [OF assms(3)] distinct_map_mset [OF assms(4)] distinct_map_mset [OF assms(5)] distinct_map_mset [OF assms(6)]
  have "assembled b64 h b p = assembled b64 h b' p"
    if "distinct (map ce_id (pb_events b'))" "distinct (map ca_id (pb_attestations b'))"
      "distinct (map cv_id (pb_evidence b'))" "distinct (map cr_id (pb_relationships b'))" for p
    unfolding assembled_def same sort_key_distinct_mset [OF assms(3)[symmetric] that(1)] sort_key_distinct_mset [OF assms(4)[symmetric] that(2)]
      sort_key_distinct_mset [OF assms(5)[symmetric] that(3)] sort_key_distinct_mset [OF assms(6)[symmetric] that(4)] ..
  then show ?thesis unfolding build_eq same by (auto split: option.splits)
qed

lemma created_ids:
  "create_event b64 h c l = Inr x \<Longrightarrow> ce_id x = event_id b64 h (encode_canonical (event_map (ce_content x)))"
  "attest b64 h e a k l = Inr y \<Longrightarrow> ca_id y = attestation_member_id b64 h (ca_content y)"
  "make_evidence b64 h kind digest ref hint l = Inr z \<Longrightarrow> cv_id z = evidence_member_id b64 h (cv_content z)"
  "make_relationship b64 h r l = Inr u \<Longrightarrow> cr_id u = relationship_member_id b64 h (cr_content u)"
  by (auto simp: create_event_def event_to_cbor_def make_evidence_def make_relationship_def Let_def result_iff
      evidence_member_id_def relationship_member_id_def)

lemma built_members_verify:
  assumes laws: "b64_law b64" "hash_iter iter" and ctx: "ctx_misuse ctx = None"
    and events: "\<forall>x \<in> set (pb_events b). \<exists>c l. create_event b64 h c l = Inr x"
    and attestations: "\<forall>x \<in> set (pb_attestations b). ca_id x = attestation_member_id b64 h (ca_content x)
      \<and> signed_entry b64 h e ctx \<lparr>sa_content = ca_content x, sa_sign1 = ca_sign1 x\<rparr>"
    and evidence: "\<forall>x \<in> set (pb_evidence b). \<exists>kind digest r hint l. make_evidence b64 h kind digest r hint l = Inr x"
    and relationships: "\<forall>x \<in> set (pb_relationships b). \<exists>c l. make_relationship b64 h c l = Inr x"
    and built: "build b64 h b (ctx_limits ctx) = Inr bp"
  shows "parse_proof b64 (bp_canonical bp) (ctx_limits ctx) = Inr (bp_proof bp) \<and> prf_id (bp_proof bp) = bp_id bp
    \<and> (\<exists>rep. verify_proof b64 h e iter (bp_canonical bp) ctx = Some (Inr rep)
         \<and> rep_cryptographic_validity rep = Valid \<and> rep_proof_id rep = Some (bp_id bp))"
proof -
  obtain p where "seal b64 (assembled b64 h b p) (ctx_limits ctx) = Inr bp" using built unfolding build_Inr by blast
  then have bp: "parse_proof b64 (bp_canonical bp) (ctx_limits ctx) = Inr (assembled b64 h b p)" "bp_id bp = prf_id (assembled b64 h b p)"
      "bp_proof bp = assembled b64 h b p"
    unfolding seal_Inr by auto
  have "event_ids_of b64 h (assembled b64 h b p) = map ce_id (sort_key ce_id (pb_events b))"
    "att_ids_of b64 h (assembled b64 h b p) = map ca_id (sort_key ca_id (pb_attestations b))"
    "evd_ids_of b64 h (assembled b64 h b p) = map cv_id (sort_key cv_id (pb_evidence b))"
    "rel_ids_of b64 h (assembled b64 h b p) = map cr_id (sort_key cr_id (pb_relationships b))"
    unfolding event_ids_of_def att_ids_of_def evd_ids_of_def rel_ids_of_def assembled_fields map_map
    by (rule map_cong [OF refl]; use events attestations evidence relationships created_ids in \<open>fastforce\<close>)+
  then have "bound_id b64 h (assembled b64 h b p) = prf_id (assembled b64 h b p)"
    unfolding bound_id_def assembled_fields vocabulary_pairs_def by (simp add: assembled_def Let_def)
  moreover have "\<forall>a \<in> set (prf_attestations (assembled b64 h b p)). signed_entry b64 h e ctx a"
    using attestations by (auto simp: assembled_fields)
  ultimately have "rep_cryptographic_validity (report_on b64 h e iter ctx (assembled b64 h b p)) = Valid"
    unfolding crypto_on [OF laws(1)] by blast
  then show ?thesis
    unfolding verify_proof_cases [OF laws(2) ctx] bp by (simp add: report_on_def full_report_def finalize_fields)
qed

text \<open>
  A package built from created artifacts verifies: when every member was made by its constructor, the
  attestations signed by \<^verbatim>\<open>attest\<close> with well-formed keys and small enough to be signed, the bytes that
  \<^verbatim>\<open>build\<close> returns under the verifier's limits are reported cryptographically valid, under the built id.
\<close>

theorem built_proof_verifies:
  assumes laws: "b64_law b64" "ed25519_law e" "hash_iter iter" and ctx: "ctx_misuse ctx = None" "al_ed25519 (ctx_allowed_algs ctx)"
    and events: "\<forall>x \<in> set (pb_events b). \<exists>c l. create_event b64 h c l = Inr x"
    and attestations: "\<forall>x \<in> set (pb_attestations b). \<exists>c k. attest b64 h e c k (ctx_limits ctx) = Inr x
      \<and> length (ek_seed k) = 32 \<and> sign1_fits (ctx_limits ctx) (ca_canonical x)"
    and evidence: "\<forall>x \<in> set (pb_evidence b). \<exists>kind digest r hint l. make_evidence b64 h kind digest r hint l = Inr x"
    and relationships: "\<forall>x \<in> set (pb_relationships b). \<exists>c l. make_relationship b64 h c l = Inr x"
    and built: "build b64 h b (ctx_limits ctx) = Inr bp"
  shows "\<exists>rep. verify_proof b64 h e iter (bp_canonical bp) ctx = Some (Inr rep)
    \<and> rep_cryptographic_validity rep = Valid \<and> rep_proof_id rep = Some (bp_id bp)"
proof -
  have "ca_id x = attestation_member_id b64 h (ca_content x) \<and> signed_entry b64 h e ctx \<lparr>sa_content = ca_content x, sa_sign1 = ca_sign1 x\<rparr>"
    if mem: "x \<in> set (pb_attestations b)" for x
  proof -
    obtain c k where x: "attest b64 h e c k (ctx_limits ctx) = Inr x" "length (ek_seed k) = 32" "sign1_fits (ctx_limits ctx) (ca_canonical x)"
      using mem attestations by blast
    then show ?thesis
      using attest_verifies [OF laws(1,2) x(2) ctx(2) x(1,3)] created_ids(2) [OF x(1)] by (auto simp: signed_entry_def attest_Inr)
  qed
  then show ?thesis
    using built_members_verify [OF laws(1,3) ctx(1) events _ evidence relationships built] by blast
qed

section \<open>A package that is built\<close>

definition demo_created :: created_attestation where
  "demo_created = \<lparr>ca_content = demo_statement, ca_canonical = encode_canonical (attestation_to_cbor demo_statement),
     ca_id = attestation_member_id plain_b64 zero_hash demo_statement,
     ca_sign1 = sign_ed25519 plain_sig (encode_canonical (attestation_to_cbor demo_statement)) sample_key\<rparr>"

definition demo_builder :: proof_builder where
  "demo_builder = add_attestation (ProofBuilder_new (prf_proposition demo_package) 1) demo_created"

lemma demo_attests: "attest plain_b64 zero_hash plain_sig demo_statement sample_key default_limits = Inr demo_created"
  using demo_statement_ok demo_statement_size canon_form_sort_maps
  by (auto simp: attest_Inr demo_created_def) (simp_all add: demo_statement_def status_content_def default_limits_def)

lemma demo_assembled: "assembled plain_b64 zero_hash demo_builder (prf_proposition demo_package) = demo_package"
  by (simp add: assembled_def demo_builder_def ProofBuilder_new_def ProofBuilder_default_def add_attestation_def Let_def demo_created_def)
    (simp add: demo_package_def proof_id_full_def id_with_def zero_hash_def)

lemma demo_builds:
  "build plain_b64 zero_hash demo_builder default_limits
     = Inr \<lparr>bp_proof = demo_package, bp_canonical = demo_bytes, bp_id = prf_id demo_package\<rparr>"
proof -
  have "proof_to_cbor demo_package = Inr demo_value"
    by (subst proof_to_cbor_eq) (simp_all add: demo_value_def demo_package_def)
  then have "seal plain_b64 (assembled plain_b64 zero_hash demo_builder (prf_proposition demo_package)) default_limits
      = Inr \<lparr>bp_proof = demo_package, bp_canonical = demo_bytes, bp_id = prf_id demo_package\<rparr>"
    unfolding demo_assembled seal_Inr using demo_parses demo_size
    by (auto simp: demo_bytes_def default_limits_def) (simp add: demo_package_def)
  then show ?thesis
    unfolding build_Inr by (auto simp: demo_builder_def ProofBuilder_new_def ProofBuilder_default_def add_attestation_def)
      (simp add: demo_package_def)
qed

theorem build_contents_witness:
  "\<exists>bp. build plain_b64 zero_hash demo_builder default_limits = Inr bp
     \<and> bindR (decode_and_check_canonical (bp_canonical bp) default_limits) (\<lambda>v. cbor_to_proof plain_b64 v default_limits) = Inr (bp_proof bp)
     \<and> set (prf_referenced_proofs (bp_proof bp)) = {}"
  using demo_builds build_contents [OF demo_builds]
  by (auto simp: demo_builder_def ProofBuilder_new_def ProofBuilder_default_def add_attestation_def)

theorem build_order_irrelevant_witness:
  "build plain_b64 zero_hash (demo_builder\<lparr>pb_referenced_proofs := [''b'', ''a''],
       pb_vocabularies := [\<lparr>voc_ns = ''n'', voc_version = 1\<rparr>, \<lparr>voc_ns = ''m'', voc_version = 2\<rparr>]\<rparr>) default_limits
   = build plain_b64 zero_hash (demo_builder\<lparr>pb_referenced_proofs := [''a'', ''b'', ''a''],
       pb_vocabularies := [\<lparr>voc_ns = ''m'', voc_version = 2\<rparr>, \<lparr>voc_ns = ''n'', voc_version = 1\<rparr>]\<rparr>) default_limits"
  by (rule build_order_irrelevant) auto

theorem built_proof_verifies_witness:
  "\<exists>bp rep. build plain_b64 zero_hash demo_builder default_limits = Inr bp
     \<and> verify_proof plain_b64 zero_hash plain_sig remdups (bp_canonical bp) demo_ctx = Some (Inr rep)
     \<and> rep_cryptographic_validity rep = Valid"
proof -
  have "sign1_fits default_limits (ca_canonical demo_created)"
    using demo_statement_size by (simp add: demo_created_def sign1_fits_def default_limits_def)
  then have "\<forall>x \<in> set (pb_attestations demo_builder). \<exists>c k. attest plain_b64 zero_hash plain_sig c k (ctx_limits demo_ctx) = Inr x
      \<and> length (ek_seed k) = 32 \<and> sign1_fits (ctx_limits demo_ctx) (ca_canonical x)"
    using demo_attests
    by (auto simp: demo_builder_def ProofBuilder_new_def ProofBuilder_default_def add_attestation_def sample_key_seed
        intro!: exI [of _ demo_statement] exI [of _ sample_key])
  moreover have "pb_events demo_builder = []" "pb_evidence demo_builder = []" "pb_relationships demo_builder = []"
    by (simp_all add: demo_builder_def ProofBuilder_new_def ProofBuilder_default_def add_attestation_def)
  ultimately have "\<exists>rep. verify_proof plain_b64 zero_hash plain_sig remdups demo_bytes demo_ctx = Some (Inr rep)
     \<and> rep_cryptographic_validity rep = Valid"
    using built_proof_verifies [OF engine_laws(1) plain_sig_law hash_iter_remdups, of demo_ctx demo_builder zero_hash] demo_builds
    by fastforce
  then show ?thesis using demo_builds by auto
qed

end
