(* ===== verification/Scitt.thy ===== *)
theory Scitt
  imports Verdict
begin

text \<open>
  The SCITT adapter, \<^verbatim>\<open>proof-adapter-scitt/src/statement.rs\<close> and \<^verbatim>\<open>map.rs\<close>: signed statements, their own
  hexadecimal and base64url readers, and the mapping of statements to attestations and evidence and back.
  The JSON writer \<^verbatim>\<open>serde_json::to_vec\<close> is a parameter of the definitions, as are base64 of the key
  references, SHA-2 and Ed25519.
\<close>

unbundle bit_operations_syntax

section \<open>Text codecs\<close>

definition HEX_TABLE :: string where
  "HEX_TABLE = ''0123456789abcdef''"

definition hex_of :: "bytes \<Rightarrow> string" where
  "hex_of bs = concat (map (\<lambda>b. [HEX_TABLE ! unat (drop_bit 4 b), HEX_TABLE ! unat (b AND 0xF)]) bs)"

text \<open>\<^verbatim>\<open>u8::from_str_radix\<close> on one hexadecimal digit; the upper case digits are excluded before.\<close>

fun nibble_of :: "char \<Rightarrow> byte option" where
  "nibble_of c =
     (let n = of_char c :: nat
      in if 48 \<le> n \<and> n \<le> 57 then Some (word_of_nat (n - 48))
         else if 97 \<le> n \<and> n \<le> 102 then Some (word_of_nat (n - 87))
         else if 65 \<le> n \<and> n \<le> 70 then Some (word_of_nat (n - 55))
         else None)"

fun hex_pairs :: "string \<Rightarrow> bytes option" where
  "hex_pairs [] = Some []"
| "hex_pairs [c] = None"
| "hex_pairs (c # d # s) =
     (case (nibble_of c, nibble_of d) of
        (Some x, Some y) \<Rightarrow> map_option (\<lambda>bs. (x * 16 + y) # bs) (hex_pairs s)
      | _ \<Rightarrow> None)"

definition is_ascii_uppercase :: "char \<Rightarrow> bool" where
  "is_ascii_uppercase c \<longleftrightarrow> 65 \<le> (of_char c :: nat) \<and> of_char c \<le> (90 :: nat)"

definition scitt_hex_decode :: "string \<Rightarrow> bytes option" where
  "scitt_hex_decode s =
     (if length s mod 2 \<noteq> 0 \<or> \<not> list_all is_ascii_hexdigit s then None
      else if list_ex is_ascii_uppercase s then None
      else hex_pairs s)"

fun b64u_value :: "char \<Rightarrow> 32 word option" where
  "b64u_value c =
     (let n = of_char c :: nat
      in if 65 \<le> n \<and> n \<le> 90 then Some (word_of_nat (n - 65))
         else if 97 \<le> n \<and> n \<le> 122 then Some (word_of_nat (n - 97 + 26))
         else if 48 \<le> n \<and> n \<le> 57 then Some (word_of_nat (n - 48 + 52))
         else if n = 45 then Some 62
         else if n = 95 then Some 63
         else None)"

fun b64u_loop :: "string \<Rightarrow> 32 word \<Rightarrow> nat \<Rightarrow> bytes \<Rightarrow> (bytes \<times> 32 word \<times> nat) option" where
  "b64u_loop [] buf bits out = Some (out, buf, bits)"
| "b64u_loop (c # s) buf bits out =
     (case b64u_value c of
        None \<Rightarrow> None
      | Some v \<Rightarrow>
          (let buf = push_bit 6 buf OR v; bits = bits + 6
           in if bits \<ge> 8
              then b64u_loop s (buf AND (push_bit (bits - 8) 1 - 1)) (bits - 8) (out @ [ucast (drop_bit (bits - 8) buf)])
              else b64u_loop s buf bits out))"

definition is_b64u_char :: "char \<Rightarrow> bool" where
  "is_b64u_char c =
     (let n = of_char c :: nat
      in 48 \<le> n \<and> n \<le> 57 \<or> 65 \<le> n \<and> n \<le> 90 \<or> 97 \<le> n \<and> n \<le> 122 \<or> n = 45 \<or> n = 95)"

definition scitt_b64u_decode :: "string \<Rightarrow> bytes option" where
  "scitt_b64u_decode s =
     (if list_ex (\<lambda>c. \<not> is_b64u_char c) s then None
      else case b64u_loop s 0 0 [] of
          None \<Rightarrow> None
        | Some (out, buf, bits) \<Rightarrow> if bits > 0 \<and> buf \<noteq> 0 then None else Some out)"

section \<open>Statements\<close>

record scitt_statement =
  sc_v :: u8
  sc_feed :: string
  sc_cti :: string
  sc_payload_sha256 :: string
  sc_issued_at :: u64
  sc_kid :: string

record signed_statement =
  sg_statement :: scitt_statement
  sg_signature_b64u :: string

type_synonym json_writer = "scitt_statement \<Rightarrow> bytes option"

definition scitt_validate :: "scitt_statement \<Rightarrow> unit result" where
  "scitt_validate st =
     (if sc_v st \<noteq> 1 then Inl UnsupportedVersion
      else if sc_feed st = [] \<or> length (sc_feed st) > 128 then Inl SchemaViolation
      else if sc_cti st = [] \<or> length (sc_cti st) > 256 then Inl SchemaViolation
      else bindR (ok_or (scitt_hex_decode (sc_payload_sha256 st)) SchemaViolation) (\<lambda>raw.
        if length raw \<noteq> 32 then Inl SchemaViolation
        else if sc_kid st = [] then Inl SchemaViolation
        else Inr ()))"

definition canonical_json :: "json_writer \<Rightarrow> scitt_statement \<Rightarrow> bytes result" where
  "canonical_json to_vec st = bindR (scitt_validate st) (\<lambda>_. ok_or (to_vec st) Malformed)"

definition scitt_digest :: "hash_engine \<Rightarrow> json_writer \<Rightarrow> scitt_statement \<Rightarrow> bytes result" where
  "scitt_digest h to_vec st = bindR (canonical_json to_vec st) (\<lambda>bs. compute_digest h bs 0)"

definition scitt_subject :: "scitt_statement \<Rightarrow> string" where
  "scitt_subject st = ''scitt:'' @ sc_feed st @ '':'' @ sc_cti st"

definition scitt_verify_ed25519 :: "sig_engine \<Rightarrow> bytes \<Rightarrow> bytes \<Rightarrow> bytes \<Rightarrow> unit result" where
  "scitt_verify_ed25519 e pubkey msg sg =
     (if \<not> ed_key_valid e pubkey then Inl Malformed
      else if \<not> ed_verify e pubkey msg sg then Inl SignatureInvalid
      else Inr ())"

definition signed_statement_verify ::
  "base64_engine \<Rightarrow> sig_engine \<Rightarrow> json_writer \<Rightarrow> signed_statement \<Rightarrow> scitt_statement result" where
  "signed_statement_verify b64 e to_vec sg =
     (let st = sg_statement sg
      in bindR (scitt_validate st) (\<lambda>_.
         if \<not> is_supported_keyref (sc_kid st) then Inl SchemaViolation else
         bindR (canonical_json to_vec st) (\<lambda>bs.
         bindR (ok_or (scitt_b64u_decode (sg_signature_b64u sg)) SchemaViolation) (\<lambda>raw_sig.
         if length raw_sig \<noteq> 64 then Inl SignatureInvalid else
         bindR (parse_ed25519_keyref b64 (sc_kid st)) (\<lambda>raw.
         bindR (scitt_verify_ed25519 e raw bs raw_sig) (\<lambda>_.
         Inr st))))))"

section \<open>Mapping to the model\<close>

definition CLAIM_SCITT_STATEMENT :: string where
  "CLAIM_SCITT_STATEMENT = ''scitt.statement''"

definition TRANSPARENCY_REGISTRATION :: evidence_kind where
  "TRANSPARENCY_REGISTRATION = ''transparency_registration''"

definition statement_content ::
  "base64_engine \<Rightarrow> hash_engine \<Rightarrow> sig_engine \<Rightarrow> json_writer \<Rightarrow> signed_statement \<Rightarrow> u64 \<Rightarrow> u64 option \<Rightarrow> limits \<Rightarrow>
   attestation_content result" where
  "statement_content b64 h e to_vec sg issued_at expires_at l =
     bindR (signed_statement_verify b64 e to_vec sg) (\<lambda>st.
     bindR (scitt_digest h to_vec st) (\<lambda>digest.
     Inr \<lparr>att_v = 1, att_issuer = sc_kid st, att_subject = scitt_subject st,
          att_claim = \<lparr>claim_type = CLAIM_SCITT_STATEMENT,
            claim_fields = [(''cti'', MText (sc_cti st)), (''feed'', MText (sc_feed st)),
              (''payload_sha256'', MText (sc_payload_sha256 st)), (''statement_digest'', MText (hex_of digest))]\<rparr>,
          att_issued_at = issued_at, att_expires_at = expires_at, att_evidence_ref = None\<rparr>))"

definition registration_evidence ::
  "base64_engine \<Rightarrow> hash_engine \<Rightarrow> json_writer \<Rightarrow> scitt_statement \<Rightarrow> limits \<Rightarrow> evidence result" where
  "registration_evidence b64 h to_vec st l =
     bindR (scitt_digest h to_vec st) (\<lambda>digest.
     bindR (HashRef_new Sha256 digest) (\<lambda>hr.
     bindR (make_evidence b64 h TRANSPARENCY_REGISTRATION hr None None l) (\<lambda>x. Inr (cv_content x))))"

definition checkpoint_content ::
  "string \<Rightarrow> string \<Rightarrow> u64 \<Rightarrow> string \<Rightarrow> u64 \<Rightarrow> u64 option \<Rightarrow> attestation_content result" where
  "checkpoint_content log_keyref log_name sequence subject issued_at expires_at =
     (if \<not> is_supported_keyref log_keyref then Inl SchemaViolation
      else if log_name = [] \<or> length log_name > 128 then Inl SchemaViolation
      else Inr \<lparr>att_v = 1, att_issuer = log_keyref, att_subject = subject,
          att_claim = \<lparr>claim_type = CLAIM_TRANSPARENCY_CHECKPOINT,
            claim_fields = [(''log'', MText log_name), (''sequence'', MUint sequence)]\<rparr>,
          att_issued_at = issued_at, att_expires_at = expires_at, att_evidence_ref = None\<rparr>)"

definition receipt_evidence ::
  "base64_engine \<Rightarrow> hash_engine \<Rightarrow> json_writer \<Rightarrow> scitt_statement \<Rightarrow> string \<Rightarrow> limits \<Rightarrow> evidence result" where
  "receipt_evidence b64 h to_vec st checkpoint_attestation_id l =
     bindR (scitt_digest h to_vec st) (\<lambda>digest.
     bindR (HashRef_new Sha256 digest) (\<lambda>hr.
     bindR (make_evidence b64 h TRANSPARENCY_RECEIPT hr (Some checkpoint_attestation_id) None l) (\<lambda>x. Inr (cv_content x))))"

definition claim_text :: "claim \<Rightarrow> string \<Rightarrow> string result" where
  "claim_text c name =
     (case find (\<lambda>(k, _). k = name) (claim_fields c) of
        Some (_, MText t) \<Rightarrow> Inr t
      | _ \<Rightarrow> Inl SchemaViolation)"

definition statement_json :: "hash_engine \<Rightarrow> json_writer \<Rightarrow> attestation_content \<Rightarrow> bytes result" where
  "statement_json h to_vec content =
     (if claim_type (att_claim content) \<noteq> CLAIM_SCITT_STATEMENT then Inl SchemaViolation else
      bindR (claim_text (att_claim content) ''feed'') (\<lambda>feed.
      bindR (claim_text (att_claim content) ''cti'') (\<lambda>cti.
      bindR (claim_text (att_claim content) ''payload_sha256'') (\<lambda>payload_sha256.
      let st = \<lparr>sc_v = 1, sc_feed = feed, sc_cti = cti, sc_payload_sha256 = payload_sha256,
                sc_issued_at = att_issued_at content, sc_kid = att_issuer content\<rparr>
      in bindR (claim_text (att_claim content) ''statement_digest'') (\<lambda>stated.
         bindR (scitt_digest h to_vec st) (\<lambda>digest.
         if stated \<noteq> hex_of digest then Inl SchemaViolation
         else if att_subject content \<noteq> scitt_subject st then Inl SchemaViolation
         else canonical_json to_vec st))))))"

section \<open>The codecs are exact\<close>

lemma hex_chars: "c \<in> set HEX_TABLE \<longleftrightarrow> is_ascii_hexdigit c \<and> \<not> is_ascii_uppercase c"
proof -
  have "list_all (\<lambda>c. is_ascii_hexdigit c \<and> \<not> is_ascii_uppercase c) HEX_TABLE"
    and "list_all (\<lambda>c. is_ascii_uppercase c \<or> c \<in> set HEX_TABLE) ''0123456789abcdefABCDEF''" by code_simp+
  then show ?thesis unfolding list_all_iff is_ascii_hexdigit_def by blast
qed

lemma nibble_of_table: "c \<in> set HEX_TABLE \<Longrightarrow> \<exists>x. nibble_of c = Some x \<and> unat x < 16 \<and> HEX_TABLE ! unat x = c"
proof -
  have "list_all (\<lambda>c. case nibble_of c of None \<Rightarrow> False | Some x \<Rightarrow> unat x < 16 \<and> HEX_TABLE ! unat x = c) HEX_TABLE" by code_simp
  then show "c \<in> set HEX_TABLE \<Longrightarrow> ?thesis" by (auto simp: list_all_iff split: option.splits)
qed

lemma nibble_of_at: "n < 16 \<Longrightarrow> nibble_of (HEX_TABLE ! n) = Some (word_of_nat n) \<and> HEX_TABLE ! n \<in> set HEX_TABLE"
proof -
  have "list_all (\<lambda>n. nibble_of (HEX_TABLE ! n) = Some (word_of_nat n) \<and> HEX_TABLE ! n \<in> set HEX_TABLE) [0 ..< 16]" by code_simp
  then show "n < 16 \<Longrightarrow> ?thesis" by (simp only: list_all_iff set_upt atLeastLessThan_iff) simp
qed

lemma byte_nibbles:
  fixes b :: byte
  shows "unat (drop_bit 4 b) < 16" "unat (b AND 0xF) < 16" "word_of_nat (unat (drop_bit 4 b)) * 16 + word_of_nat (unat (b AND 0xF)) = b"
proof -
  have hi: "unat (drop_bit 4 b) = unat b div 16" unfolding unat_drop_bit_eq by (simp add: drop_bit_eq_div)
  have lo: "unat (b AND 0xF) = unat b mod 16"
  proof -
    have "b AND 0xF = take_bit 4 b" by (simp add: take_bit_eq_mask mask_eq_exp_minus_1)
    then show ?thesis by (simp add: take_bit_eq_mod unat_mod)
  qed
  show "unat (drop_bit 4 b) < 16" "unat (b AND 0xF) < 16" using hi lo unsigned_less [where ?'a = nat, of b] by simp_all
  show "word_of_nat (unat (drop_bit 4 b)) * 16 + word_of_nat (unat (b AND 0xF)) = b"
  proof -
    have "(of_nat (unat b div 16 * 16 + unat b mod 16) :: byte) = b" by simp
    then show ?thesis unfolding hi lo by (simp only: of_nat_add of_nat_mult of_nat_numeral)
  qed
qed

lemma hex_pairs_hex_of: "hex_pairs (hex_of bs) = Some bs"
proof (induction bs)
  case (Cons b bs)
  have "hex_of (b # bs) = HEX_TABLE ! unat (drop_bit 4 b) # HEX_TABLE ! unat (b AND 0xF) # hex_of bs" by (simp add: hex_of_def)
  then show ?case using Cons nibble_of_at [OF byte_nibbles(1)] nibble_of_at [OF byte_nibbles(2)] byte_nibbles(3) [of b]
    by (simp del: nibble_of.simps)
qed (simp add: hex_of_def)

lemma hex_of_hex_pairs: "hex_pairs s = Some bs \<Longrightarrow> set s \<subseteq> set HEX_TABLE \<Longrightarrow> s = hex_of bs"
proof (induction s arbitrary: bs rule: hex_pairs.induct)
  case (3 c d s)
  obtain x y where x: "nibble_of c = Some x" "unat x < 16" "HEX_TABLE ! unat x = c" and y: "nibble_of d = Some y" "unat y < 16" "HEX_TABLE ! unat y = d"
    using nibble_of_table [of c] nibble_of_table [of d] 3(3) by (auto simp del: nibble_of.simps)
  then obtain ys where ys: "bs = (x * 16 + y) # ys" "hex_pairs s = Some ys" using 3(2) by (auto simp del: nibble_of.simps)
  have val: "unat (x * 16 + y) = 16 * unat x + unat y"
    using x(2) y(2) by (simp add: unat_word_ariths)
  have "unat (drop_bit 4 (x * 16 + y)) = unat x" unfolding unat_drop_bit_eq val using y(2) by (simp add: drop_bit_eq_div)
  moreover have "unat ((x * 16 + y) AND 0xF) = unat y"
  proof -
    have "(x * 16 + y) AND 0xF = (x * 16 + y) mod 16" using take_bit_eq_mask [of 4 "x * 16 + y"] by (simp add: take_bit_eq_mod mask_eq_exp_minus_1)
    then show ?thesis using val y(2) by (simp add: unat_mod)
  qed
  ultimately show ?case using 3(1) [OF refl x(1) y(1) ys(2)] ys(1) 3(3) x(3) y(3) by (simp add: hex_of_def)
qed (simp_all add: hex_of_def)

lemma hex_of_chars: "set (hex_of bs) \<subseteq> set HEX_TABLE" "length (hex_of bs) = 2 * length bs"
  using nibble_of_at [OF byte_nibbles(1)] nibble_of_at [OF byte_nibbles(2)] by (induction bs) (auto simp: hex_of_def)

text \<open>The number that a text over the alphabet and a byte string spell, most significant first.\<close>

fun b64u_number :: "nat \<Rightarrow> string \<Rightarrow> nat" where
  "b64u_number n [] = n"
| "b64u_number n (c # s) = b64u_number (64 * n + (case b64u_value c of Some v \<Rightarrow> unat v | None \<Rightarrow> 0)) s"

fun bytes_number :: "nat \<Rightarrow> bytes \<Rightarrow> nat" where
  "bytes_number n [] = n"
| "bytes_number n (b # bs) = bytes_number (256 * n + unat b) bs"

lemma bytes_number_append: "bytes_number n (bs @ [b]) = 256 * bytes_number n bs + unat b"
  by (induction bs arbitrary: n) simp_all

lemma b64u_chars: "is_b64u_char c \<longleftrightarrow> (\<exists>v. b64u_value c = Some v)" and b64u_value_less: "b64u_value c = Some v \<Longrightarrow> unat v < 64"
  by (auto simp: is_b64u_char_def Let_def unat_of_nat simp del: of_nat_diff of_nat_add split: if_splits)

lemma push_sextet:
  fixes buf v :: "32 word"
  assumes "unat buf < 256" "unat v < 64"
  shows "unat (push_bit 6 buf OR v) = 64 * unat buf + unat v"
proof -
  have "take_bit 6 v = v" using assms(2) by (simp add: take_bit_eq_mod word_unat_eq_iff unat_mod)
  then have "\<not> bit (push_bit 6 buf) n \<or> \<not> bit v n" for n
    by (metis bit_push_bit_iff bit_take_bit_iff not_le)
  then have "push_bit 6 buf OR v = push_bit 6 buf + v" by (simp add: disjunctive_add)
  moreover have "push_bit 6 buf = buf * 64" by (simp add: push_bit_eq_mult)
  ultimately show ?thesis using assms by (simp add: unat_word_ariths)
qed

lemma split_octet:
  fixes w :: "32 word"
  assumes "unat w < 2 ^ (8 + k)"
  shows "unat w = 2 ^ k * unat (ucast (drop_bit k w) :: byte) + unat (w AND (push_bit k 1 - 1))" "unat (w AND (push_bit k 1 - 1)) < 2 ^ k"
proof -
  have "unat (drop_bit k w) = unat w div 2 ^ k" unfolding unat_drop_bit_eq by (simp add: drop_bit_eq_div)
  moreover from this have "unat (drop_bit k w) < 256" using assms by (simp add: less_mult_imp_div_less power_add mult.commute)
  ultimately have hi: "unat (ucast (drop_bit k w) :: byte) = unat w div 2 ^ k" by (simp add: unsigned_ucast_eq take_bit_eq_mod)
  have "w AND (push_bit k 1 - 1) = take_bit k w" by (simp add: take_bit_eq_mask mask_eq_exp_minus_1)
  then have lo: "unat (w AND (push_bit k 1 - 1)) = unat w mod 2 ^ k"
    unfolding take_bit_eq_mod [symmetric] by (simp only: unsigned_take_bit_eq)
  show "unat w = 2 ^ k * unat (ucast (drop_bit k w) :: byte) + unat (w AND (push_bit k 1 - 1))" "unat (w AND (push_bit k 1 - 1)) < 2 ^ k"
    unfolding hi lo by simp_all
qed

lemma b64u_loop_number:
  assumes "\<forall>c \<in> set s. is_b64u_char c" "bits < 8" "unat buf < 2 ^ bits"
  shows "\<exists>out' buf' bits'. b64u_loop s buf bits out = Some (out', buf', bits') \<and> bits' < 8 \<and> unat buf' < 2 ^ bits'
    \<and> bits' + 8 * length out' = bits + 8 * length out + 6 * length s
    \<and> 2 ^ bits' * bytes_number 0 out' + unat buf' = b64u_number (2 ^ bits * bytes_number 0 out + unat buf) s"
  using assms
proof (induction s arbitrary: buf bits out)
  case (Cons c s)
  then obtain v where v: "b64u_value c = Some v" "unat v < 64" using b64u_chars b64u_value_less by (metis list.set_intros(1))
  let ?w = "push_bit 6 buf OR v"
  have "(2 :: nat) ^ bits \<le> 2 ^ 8" using Cons.prems(2) by (intro power_increasing) simp_all
  then have w: "unat ?w = 64 * unat buf + unat v" using push_sextet [of buf v] Cons.prems(3) v(2) by simp
  then have less: "unat ?w < 2 ^ (bits + 6)" using Cons.prems(3) v(2) by (simp add: power_add)
  have number: "2 ^ (bits + 6) * bytes_number 0 out + unat ?w = 64 * (2 ^ bits * bytes_number 0 out + unat buf) + unat v"
    unfolding w by (simp add: power_add algebra_simps)
  show ?case
  proof (cases "bits + 6 \<ge> 8")
    case True
    define k where "k = bits + 6 - 8"
    have k: "bits + 6 = 8 + k" "k < 8" using True Cons.prems(2) by (simp_all add: k_def)
    let ?x = "ucast (drop_bit k ?w) :: byte" and ?r = "?w AND (push_bit k 1 - 1)"
    note oct = split_octet [of ?w k, OF less [unfolded k(1)]]
    have step: "b64u_loop (c # s) buf bits out = b64u_loop s ?r k (out @ [?x])"
      using v(1) True by (simp add: k_def Let_def del: b64u_value.simps)
    have "2 ^ k * bytes_number 0 (out @ [?x]) + unat ?r = 2 ^ (bits + 6) * bytes_number 0 out + unat ?w"
      unfolding bytes_number_append k(1) oct(1) by (simp add: power_add algebra_simps)
    then have val: "b64u_number (2 ^ k * bytes_number 0 (out @ [?x]) + unat ?r) s
        = b64u_number (2 ^ bits * bytes_number 0 out + unat buf) (c # s)"
      using v(1) by (simp only: number b64u_number.simps option.case)
    have lens: "k + 8 * length (out @ [?x]) + 6 * length s = bits + 8 * length out + 6 * length (c # s)" using k(1) by simp
    show ?thesis unfolding step val [symmetric] lens [symmetric]
      by (rule Cons.IH [OF _ k(2) oct(2)]) (use Cons.prems(1) in simp)
  next
    case False
    then have step: "b64u_loop (c # s) buf bits out = b64u_loop s ?w (bits + 6) out"
      using v(1) by (simp add: Let_def del: b64u_value.simps)
    have val: "b64u_number (2 ^ (bits + 6) * bytes_number 0 out + unat ?w) s = b64u_number (2 ^ bits * bytes_number 0 out + unat buf) (c # s)"
      using v(1) by (simp only: number b64u_number.simps option.case)
    have lens: "bits + 6 + 8 * length out + 6 * length s = bits + 8 * length out + 6 * length (c # s)" by simp
    show ?thesis unfolding step val [symmetric] lens [symmetric]
      by (rule Cons.IH [OF _ _ less]) (use Cons.prems(1) False in simp_all)
  qed
qed auto

lemma digit_inject: "a < b \<Longrightarrow> c < b \<Longrightarrow> b * m + a = b * n + c \<longleftrightarrow> m = n \<and> a = c"
  for a b c m n :: nat
proof
  assume less: "a < b" "c < b" and eq: "b * m + a = b * n + c"
  have "m = (b * m + a) div b" "n = (b * n + c) div b" using less by simp_all
  then show "m = n \<and> a = c" using eq by simp
qed simp

lemma bytes_number_inject: "length as = length bs \<Longrightarrow> bytes_number 0 as = bytes_number 0 bs \<longleftrightarrow> as = bs"
proof (induction as arbitrary: bs rule: rev_induct)
  case (snoc a as)
  obtain b bs' where bs: "bs = bs' @ [b]" using snoc.prems by (cases bs rule: rev_cases) auto
  have "unat a < 256" "unat b < 256" using unsigned_less [where ?'a = nat, of a] unsigned_less [where ?'a = nat, of b] by simp_all
  then have "256 * m + unat a = 256 * n + unat b \<longleftrightarrow> m = n \<and> a = b" for m n using digit_inject by (simp add: word_unat_eq_iff)
  then show ?case using snoc.IH [of bs'] snoc.prems unfolding bs bytes_number_append by simp
qed simp

lemma scitt_b64u_decode_iff:
  "scitt_b64u_decode s = Some bs \<longleftrightarrow> (\<forall>c \<in> set s. is_b64u_char c) \<and> length bs = 6 * length s div 8
     \<and> b64u_number 0 s = 2 ^ (6 * length s mod 8) * bytes_number 0 bs"
proof (cases "\<forall>c \<in> set s. is_b64u_char c")
  case True
  obtain out buf bits where loop: "b64u_loop s 0 0 [] = Some (out, buf, bits)" "bits < 8" "unat buf < 2 ^ bits"
      "bits + 8 * length out = 6 * length s" "2 ^ bits * bytes_number 0 out + unat buf = b64u_number 0 s"
    using b64u_loop_number [OF True, of 0 0 "[]"] by auto
  have len: "length out = 6 * length s div 8" "bits = 6 * length s mod 8"
    using loop(2) unfolding loop(4) [symmetric] by simp_all
  have "scitt_b64u_decode s = Some bs \<longleftrightarrow> buf = 0 \<and> out = bs"
    using True loop(1-3) by (auto simp: scitt_b64u_decode_def list_ex_iff unat_eq_0)
  also have "\<dots> \<longleftrightarrow> length bs = length out \<and> b64u_number 0 s = 2 ^ bits * bytes_number 0 bs"
  proof
    assume R: "length bs = length out \<and> b64u_number 0 s = 2 ^ bits * bytes_number 0 bs"
    then have eq: "2 ^ bits * bytes_number 0 out + unat buf = 2 ^ bits * bytes_number 0 bs" using loop(5) by simp
    then have "bytes_number 0 out = bytes_number 0 bs \<and> unat buf = 0"
      using digit_inject [OF loop(3), of 0 "bytes_number 0 out" "bytes_number 0 bs"] by simp
    then show "buf = 0 \<and> out = bs" using R bytes_number_inject [of out bs] by (simp add: unat_eq_0)
  qed (use loop(5) in auto)
  finally show ?thesis using True len by simp
qed (auto simp: scitt_b64u_decode_def list_ex_iff)

lemma scitt_hex_decode_iff: "scitt_hex_decode s = Some bs \<longleftrightarrow> s = hex_of bs"
proof -
  have "list_all is_ascii_hexdigit s \<and> \<not> list_ex is_ascii_uppercase s \<longleftrightarrow> set s \<subseteq> set HEX_TABLE"
    using hex_chars by (auto simp: list_all_iff list_ex_iff)
  then have "scitt_hex_decode s = Some bs \<longleftrightarrow> length s mod 2 = 0 \<and> set s \<subseteq> set HEX_TABLE \<and> hex_pairs s = Some bs"
    by (auto simp: scitt_hex_decode_def)
  moreover have "length (hex_of bs) mod 2 = 0" by (simp add: hex_of_chars(2))
  ultimately show ?thesis using hex_of_hex_pairs [of s bs] hex_pairs_hex_of [of bs] hex_of_chars(1) [of bs] by blast
qed

lemma hex_of_inject [simp]: "hex_of as = hex_of bs \<longleftrightarrow> as = bs"
  using scitt_hex_decode_iff [of "hex_of as"] by (metis option.inject)

text \<open>
  A signature of 64 bytes has one spelling. Other lengths do not: a lone first letter of the alphabet
  is read as the empty string, although the reader means to accept canonical base64url only.
\<close>

lemma b64u_number_append: "b64u_number n (s @ [c]) = 64 * b64u_number n s + (case b64u_value c of Some v \<Rightarrow> unat v | None \<Rightarrow> 0)"
  by (induction s arbitrary: n) (simp_all del: b64u_value.simps)

definition sextet_of :: "nat \<Rightarrow> nat" where
  "sextet_of n = (if 65 \<le> n \<and> n \<le> 90 then n - 65 else if 97 \<le> n \<and> n \<le> 122 then n - 71
     else if n = 45 then 62 else if n = 95 then 63 else n + 4)"

lemma b64u_value_unat: "is_b64u_char c \<Longrightarrow> (case b64u_value c of Some v \<Rightarrow> unat v | None \<Rightarrow> 0) = sextet_of (of_char c)"
  by (auto simp: is_b64u_char_def sextet_of_def Let_def unat_of_nat simp del: of_nat_diff of_nat_add)

lemma sextet_of_inject:
  "48 \<le> n \<and> n \<le> 57 \<or> 65 \<le> n \<and> n \<le> 90 \<or> 97 \<le> n \<and> n \<le> 122 \<or> n = 45 \<or> n = 95 \<Longrightarrow>
   48 \<le> m \<and> m \<le> 57 \<or> 65 \<le> m \<and> m \<le> 90 \<or> 97 \<le> m \<and> m \<le> 122 \<or> m = 45 \<or> m = 95 \<Longrightarrow> sextet_of n = sextet_of m \<Longrightarrow> n = m"
  by (auto simp: sextet_of_def split: if_splits)

lemma b64u_value_inject:
  assumes "is_b64u_char c" "is_b64u_char d"
    and "(case b64u_value c of Some v \<Rightarrow> unat v | None \<Rightarrow> 0) = (case b64u_value d of Some v \<Rightarrow> unat v | None \<Rightarrow> 0)"
  shows "c = d"
proof -
  have "(of_char c :: nat) = of_char d"
    by (rule sextet_of_inject) (use assms in \<open>simp_all only: b64u_value_unat is_b64u_char_def Let_def\<close>)
  then show ?thesis by simp
qed

lemma b64u_number_inject:
  "length s = length t \<Longrightarrow> \<forall>c \<in> set s \<union> set t. is_b64u_char c \<Longrightarrow> b64u_number 0 s = b64u_number 0 t \<Longrightarrow> s = t"
proof (induction s arbitrary: t rule: rev_induct)
  case (snoc c s)
  obtain d t' where t: "t = t' @ [d]" using snoc.prems(1) by (cases t rule: rev_cases) auto
  have ok: "is_b64u_char c" "is_b64u_char d" using snoc.prems(2) by (simp_all add: t)
  have less: "(case b64u_value x of Some v \<Rightarrow> unat v | None \<Rightarrow> 0) < 64" for x
    using b64u_value_less by (simp del: b64u_value.simps split: option.splits)
  have "b64u_number 0 s = b64u_number 0 t'" "c = d"
    using snoc.prems(3) digit_inject [OF less less] b64u_value_inject [OF ok] unfolding t b64u_number_append by blast+
  then show ?case using snoc.IH [of t'] snoc.prems by (simp add: t)
qed simp

lemma signature_spelling_unique:
  assumes "scitt_b64u_decode s = Some x" "scitt_b64u_decode t = Some x" "length x = 64"
  shows "s = t"
proof (rule b64u_number_inject)
  have "length y = 86" if "64 = 6 * length y div 8" for y :: string using that by presburger
  then have "length s = 86" "length t = 86" using assms unfolding scitt_b64u_decode_iff by auto
  then show "length s = length t" "b64u_number 0 s = b64u_number 0 t" "\<forall>c \<in> set s \<union> set t. is_b64u_char c"
    using assms unfolding scitt_b64u_decode_iff by auto
qed

lemma stray_character_accepted: "scitt_b64u_decode ''A'' = Some [] \<and> scitt_b64u_decode [] = Some []"
  by (simp add: scitt_b64u_decode_def is_b64u_char_def Let_def)

section \<open>Verification and mapping\<close>

lemma scitt_validate_Inr [result_iff]:
  "scitt_validate st = Inr u \<longleftrightarrow> sc_v st = 1 \<and> sc_feed st \<noteq> [] \<and> length (sc_feed st) \<le> 128 \<and> sc_cti st \<noteq> []
     \<and> length (sc_cti st) \<le> 256 \<and> sc_kid st \<noteq> [] \<and> (\<exists>d. length d = 32 \<and> sc_payload_sha256 st = hex_of d)"
  unfolding scitt_validate_def by (auto simp: result_iff scitt_hex_decode_iff not_less)

lemma scitt_verify_ed25519_Inr [result_iff]:
  "scitt_verify_ed25519 e k m s = Inr u \<longleftrightarrow> ed_key_valid e k \<and> ed_verify e k m s"
  by (simp add: scitt_verify_ed25519_def)

lemma ed25519_keyref_supported: "is_supported_keyref (''key:ed25519:'' @ s) \<longleftrightarrow> s \<noteq> []"
  by (auto simp: is_supported_keyref_def KEYREF_PREFIXES_def starts_with_def)

section \<open>A statement that is accepted\<close>

definition cti_writer :: json_writer where
  "cti_writer st = Some (as_bytes (sc_cti st))"

definition demo_signed_statement :: signed_statement where
  "demo_signed_statement = \<lparr>sg_statement = \<lparr>sc_v = 1, sc_feed = ''f'', sc_cti = ''x'', sc_payload_sha256 = hex_of (replicate 32 0),
      sc_issued_at = 7, sc_kid = ''key:ed25519:'' @ b64_encode plain_b64 (replicate 32 0)\<rparr>,
     sg_signature_b64u = replicate 85 (CHR ''A'') @ ''Q''\<rparr>"

lemma demo_spelling: "scitt_b64u_decode (sg_signature_b64u demo_signed_statement) = Some (replicate 63 0 @ [1])"
proof -
  have "b64u_number 0 (replicate n (CHR ''A'')) = 0" "bytes_number 0 (replicate n 0) = 0" for n by (induction n) simp_all
  then show ?thesis
    by (auto simp: scitt_b64u_decode_iff demo_signed_statement_def b64u_number_append bytes_number_append is_b64u_char_def Let_def)
qed

lemma demo_statement_verifies:
  "signed_statement_verify plain_b64 plain_sig cti_writer demo_signed_statement = Inr (sg_statement demo_signed_statement)"
proof -
  have "replicate 63 0 @ [1] = replicate 32 0 @ replicate 31 0 @ [1 :: byte]" by (simp add: replicate_add [symmetric])
  moreover have "parse_ed25519_keyref plain_b64 (sc_kid (sg_statement demo_signed_statement)) = Inr (replicate 32 0)"
    by (simp add: ed25519_keyref_Inr [OF engine_laws(1)] demo_signed_statement_def)
  moreover have "scitt_validate (sg_statement demo_signed_statement) = Inr ()"
    by (auto simp: result_iff demo_signed_statement_def intro!: exI [of _ "replicate 32 0"])
  moreover have "is_supported_keyref (sc_kid (sg_statement demo_signed_statement))"
    using ed25519_keyref_supported [of "b64_encode plain_b64 (replicate 32 0)"]
    by (simp add: demo_signed_statement_def plain_b64_def str_of_bytes_def)
  moreover have "sc_cti (sg_statement demo_signed_statement) = ''x''" by (simp add: demo_signed_statement_def)
  ultimately show ?thesis
    unfolding signed_statement_verify_def Let_def canonical_json_def
    by (simp add: demo_spelling cti_writer_def scitt_verify_ed25519_def plain_sig_def)
qed

text \<open>
  A signed SCITT statement is accepted exactly when it has version 1, a feed and an id within their
  bounds, the lowercase hexadecimal of a 32-byte payload digest, and an Ed25519 key reference as its key id
  whose key accepts the 64-byte signature over the JSON of that very statement.
\<close>

theorem signed_statement_verify_iff:
  assumes "b64_law b64"
  shows "signed_statement_verify b64 e to_vec sg = Inr st \<longleftrightarrow>
    st = sg_statement sg \<and> sc_v st = 1 \<and> sc_feed st \<noteq> [] \<and> length (sc_feed st) \<le> 128 \<and> sc_cti st \<noteq> [] \<and> length (sc_cti st) \<le> 256
    \<and> (\<exists>d. length d = 32 \<and> sc_payload_sha256 st = hex_of d)
    \<and> (\<exists>raw s json. sc_kid st = ''key:ed25519:'' @ b64_encode b64 raw \<and> b64_encode b64 raw \<noteq> [] \<and> length raw = 32
         \<and> to_vec st = Some json \<and> scitt_b64u_decode (sg_signature_b64u sg) = Some s \<and> length s = 64
         \<and> ed_key_valid e raw \<and> ed_verify e raw json s)"
  unfolding signed_statement_verify_def Let_def canonical_json_def
  by (auto simp: result_iff assms ed25519_keyref_supported [simplified])

theorem signed_statement_verify_iff_witness:
  "\<exists>raw. sc_kid (sg_statement demo_signed_statement) = ''key:ed25519:'' @ b64_encode plain_b64 raw \<and> length raw = 32
     \<and> signed_statement_verify plain_b64 plain_sig cti_writer demo_signed_statement = Inr (sg_statement demo_signed_statement)"
  using signed_statement_verify_iff [OF engine_laws(1), of plain_sig cti_writer demo_signed_statement "sg_statement demo_signed_statement"]
    demo_statement_verifies by blast

lemma signed_statement_verified:
  "signed_statement_verify b64 e to_vec sg = Inr st \<Longrightarrow> st = sg_statement sg \<and> (\<exists>u. scitt_validate st = Inr u)"
  by (auto simp: signed_statement_verify_def Let_def bindR_Inr_iff if_Inl_Inr_iff)

lemma statement_fields_sorted:
  "meta_sorted [(''cti'', x), (''feed'', y), (''payload_sha256'', z), (''statement_digest'', w)]"
  "meta_sorted [(''log'', x), (''sequence'', y)]"
  by (simp_all add: meta_sorted_def encode_eval)

text \<open>
  C25. The mapping of an accepted statement to an attestation and back. The attestation is by the signer about
  the statement's feed and id, is admissible exactly when the key reference has at most 1024 bytes and the
  expiry is not before the given time, and maps back to JSON exactly when the statement re-dated to the
  given time has the digest of the accepted one, so to the bytes that were signed when the statement's own
  time is given.
\<close>

theorem statement_round_trip:
  assumes "sha256_law h" "statement_content b64 h e to_vec sg t x l = Inr c"
  shows "signed_statement_verify b64 e to_vec sg = Inr (sg_statement sg)
    \<and> att_issuer c = sc_kid (sg_statement sg) \<and> att_subject c = scitt_subject (sg_statement sg)
    \<and> (attestation_ok c \<longleftrightarrow> length (sc_kid (sg_statement sg)) \<le> 1024 \<and> pred_option (\<lambda>y. t \<le> y) x)
    \<and> (statement_json h to_vec c = Inr json \<longleftrightarrow>
         canonical_json to_vec (sg_statement sg\<lparr>sc_issued_at := t\<rparr>) = Inr json
         \<and> scitt_digest h to_vec (sg_statement sg\<lparr>sc_issued_at := t\<rparr>) = scitt_digest h to_vec (sg_statement sg))
    \<and> (t = sc_issued_at (sg_statement sg) \<longrightarrow> statement_json h to_vec c = canonical_json to_vec (sg_statement sg))"
proof -
  define st where "st = sg_statement sg"
  obtain d u where d: "scitt_digest h to_vec st = Inr d" and v: "scitt_validate st = Inr u" "signed_statement_verify b64 e to_vec sg = Inr st"
      and c: "c = \<lparr>att_v = 1, att_issuer = sc_kid st, att_subject = scitt_subject st,
          att_claim = \<lparr>claim_type = CLAIM_SCITT_STATEMENT,
            claim_fields = [(''cti'', MText (sc_cti st)), (''feed'', MText (sc_feed st)),
              (''payload_sha256'', MText (sc_payload_sha256 st)), (''statement_digest'', MText (hex_of d))]\<rparr>,
          att_issued_at = t, att_expires_at = x, att_evidence_ref = None\<rparr>"
    using assms(2) signed_statement_verified unfolding statement_content_def bindR_Inr_iff st_def by blast
  have len: "length d = 32" using d assms(1) by (auto simp: scitt_digest_def result_iff compute_digest_def sha256_law_def)
  have ok: "attestation_ok c \<longleftrightarrow> length (sc_kid st) \<le> 1024 \<and> pred_option (\<lambda>y. t \<le> y) x"
    using v(1) len statement_fields_sorted(1)
    by (auto simp: result_iff c attestation_ok_def text_ok_def claim_ok_def ref_ok_def scitt_subject_def CLAIM_SCITT_STATEMENT_def hex_of_chars)
  let ?st = "st\<lparr>sc_issued_at := t\<rparr>"
  have "\<lparr>sc_v = 1, sc_feed = sc_feed st, sc_cti = sc_cti st, sc_payload_sha256 = sc_payload_sha256 st, sc_issued_at = t, sc_kid = sc_kid st\<rparr> = ?st"
    using v(1) by (simp add: result_iff)
  then have outward: "statement_json h to_vec c = bindR (scitt_digest h to_vec ?st) (\<lambda>d'. if hex_of d \<noteq> hex_of d' then Inl SchemaViolation
      else if scitt_subject st \<noteq> scitt_subject ?st then Inl SchemaViolation else canonical_json to_vec ?st)"
    by (simp add: statement_json_def c claim_text_def Let_def cong: if_cong)
  have same: "scitt_subject ?st = scitt_subject st" by (simp add: scitt_subject_def)
  have "statement_json h to_vec c = Inr json \<longleftrightarrow> canonical_json to_vec ?st = Inr json \<and> scitt_digest h to_vec ?st = scitt_digest h to_vec st"
    unfolding outward d same by (auto simp: result_iff)
  moreover have "statement_json h to_vec c = canonical_json to_vec st" if "t = sc_issued_at st"
    using that outward d same by simp
  ultimately show ?thesis using v(2) ok c unfolding st_def [symmetric] by simp
qed

theorem statement_round_trip_witness:
  "\<exists>c. statement_content plain_b64 zero_hash plain_sig cti_writer demo_signed_statement 7 None default_limits = Inr c
     \<and> attestation_ok c \<and> statement_json zero_hash cti_writer c = Inr (as_bytes ''x'')"
proof -
  have json: "canonical_json cti_writer (sg_statement demo_signed_statement) = Inr (as_bytes ''x'')"
    by (auto simp: canonical_json_def result_iff cti_writer_def demo_signed_statement_def intro!: exI [of _ "replicate 32 0"])
  then obtain c where c: "statement_content plain_b64 zero_hash plain_sig cti_writer demo_signed_statement 7 None default_limits = Inr c"
    by (simp add: statement_content_def demo_statement_verifies scitt_digest_def compute_digest_def)
  have "length (sc_kid (sg_statement demo_signed_statement)) \<le> 1024" "sc_issued_at (sg_statement demo_signed_statement) = 7"
    by (simp_all add: demo_signed_statement_def plain_b64_def str_of_bytes_def)
  then show ?thesis using statement_round_trip [OF engine_laws(2) c] c json by auto
qed

section \<open>Evidence and inclusion\<close>

lemma receipt_evidence_Inr:
  assumes "receipt_evidence b64 h to_vec st i l = Inr ev"
  shows "evd_kind ev = TRANSPARENCY_RECEIPT" "evd_attestation_ref ev = Some i" "scitt_digest h to_vec st = Inr (hr_digest (evd_digest ev))"
  using assms by (auto simp: receipt_evidence_def make_evidence_def Let_def result_iff)

lemma registration_evidence_Inr:
  assumes "registration_evidence b64 h to_vec st l = Inr ev"
  shows "evd_kind ev = TRANSPARENCY_REGISTRATION" "scitt_digest h to_vec st = Inr (hr_digest (evd_digest ev))"
  using assms by (auto simp: registration_evidence_def make_evidence_def Let_def result_iff)

text \<open>A receipt for the checkpoint of a log, with the checkpoint active, is inclusion in that log and in no other.\<close>

lemma receipt_gives_inclusion:
  assumes "checkpoint_content log name n subject t x = Inr c" "receipt_evidence b64 h to_vec st i l = Inr ev"
    and "cs \<in> set (st_claims vs)" "cs_attestation_id cs = i" "cs_issuer cs = att_issuer c" "cs_claim_type cs = claim_type (att_claim c)"
    and "i \<in> active_set vs" and "es \<in> set (st_evidence_statuses vs)" "ese_kind es = evd_kind ev" "ese_attestation_ref es = evd_attestation_ref ev"
  shows "transparency_binding vs log"
    and "(\<And>cs'. cs' \<in> set (st_claims vs) \<Longrightarrow> cs_claim_type cs' = CLAIM_TRANSPARENCY_CHECKPOINT \<Longrightarrow> cs_issuer cs' \<noteq> other) \<Longrightarrow>
      \<not> transparency_binding vs other"
proof -
  have c: "att_issuer c = log" "claim_type (att_claim c) = CLAIM_TRANSPARENCY_CHECKPOINT"
    using assms(1) by (auto simp: checkpoint_content_def split: if_splits)
  show "transparency_binding vs log"
    using assms(3-10) c receipt_evidence_Inr [OF assms(2)] by (force simp: transparency_binding_def Let_def list_ex_iff filter_empty_conv split: option.splits)
  show "(\<And>cs'. cs' \<in> set (st_claims vs) \<Longrightarrow> cs_claim_type cs' = CLAIM_TRANSPARENCY_CHECKPOINT \<Longrightarrow> cs_issuer cs' \<noteq> other) \<Longrightarrow>
      \<not> transparency_binding vs other"
    by (auto simp: transparency_binding_def Let_def filter_empty_conv)
qed

end
