(* ===== verification/Cli_Args.thy ===== *)
theory Cli_Args
  imports Resolve Builder Scitt Decision
begin

text \<open>
  The arguments of the command line, \<^verbatim>\<open>proof-cli/src/lib.rs\<close>: the parser with its flag allowlists, the
  accessors, and the readers of verifier options in \<^verbatim>\<open>make.rs\<close>, \<^verbatim>\<open>artifact.rs\<close> and \<^verbatim>\<open>seen.rs\<close>. Usage errors
  are kept as values of \<open>usage_error\<close>, without their texts.
\<close>

section \<open>Texts\<close>

text \<open>\<^verbatim>\<open>str::split_once\<close> and \<^verbatim>\<open>str::split\<close> on one character.\<close>

fun split_once :: "char \<Rightarrow> string \<Rightarrow> (string \<times> string) option" where
  "split_once d [] = None"
| "split_once d (c # s) = (if c = d then Some ([], s) else map_option (\<lambda>(a, b). (c # a, b)) (split_once d s))"

fun split_on :: "(char \<Rightarrow> bool) \<Rightarrow> string \<Rightarrow> string list" where
  "split_on d [] = [[]]"
| "split_on d (c # s) =
     (if d c then [] # split_on d s
      else case split_on d s of [] \<Rightarrow> [[c]] | w # ws \<Rightarrow> (c # w) # ws)"

text \<open>\<^verbatim>\<open>str::parse::<u64>\<close>: an optional plus sign, decimal digits, no overflow.\<close>

fun decimal :: "nat \<Rightarrow> string \<Rightarrow> nat option" where
  "decimal n [] = Some n"
| "decimal n (c # s) = (let k = of_char c :: nat in if 48 \<le> k \<and> k \<le> 57 then decimal (10 * n + (k - 48)) s else None)"

definition parse_u64 :: "string \<Rightarrow> u64 option" where
  "parse_u64 s =
     (let digits = (if starts_with s ''+'' then tl s else s)
      in if digits = [] then None
         else case decimal 0 digits of
             Some n \<Rightarrow> if n < 2 ^ 64 then Some (word_of_nat n) else None
           | None \<Rightarrow> None)"

section \<open>The parser\<close>

datatype usage_error =
    MissingCommand
  | UnknownFlag string
  | MissingFlag string
  | NotU64 string
  | BadField string
  | BadVocabulary string
  | SeveralPaths
  | EmptyEntry string
  | SeenFlags
  | MissingEither string string
  | SeedConflict
  | SeedInArguments
  | BadKeyLength string
  | WrongReference string string
  | NotArtifactId string string
  | UngroundedEdge string
  | DigestClaimMalformed string
  | DigestClaimUnbound
  | DigestClaimNotText
  | UnsafeStoreId string

record cli =
  cl_command :: string
  cl_positional :: "string list"
  cl_values :: "string \<rightharpoonup> string"
  cl_multi :: "string \<Rightarrow> string list"
  cl_flags :: "string set"

definition Cli_default :: cli where
  "Cli_default = \<lparr>cl_command = [], cl_positional = [], cl_values = Map.empty, cl_multi = (\<lambda>_. []), cl_flags = {}\<rparr>"

definition short_flag_alias :: "string \<Rightarrow> string" where
  "short_flag_alias name =
     (if name = ''o'' then ''out''
      else if name = ''h'' then ''help''
      else if name = ''q'' then ''quiet''
      else if name = ''j'' then ''json''
      else if name = ''p'' then ''proof''
      else if name = ''c'' then ''clock''
      else if name = ''k'' then ''skew''
      else if name = ''s'' then ''subject''
      else if name = ''t'' then ''type''
      else name)"

definition GLOBAL_FLAGS :: "string list" where
  "GLOBAL_FLAGS = [''help'', ''quiet'', ''json'', ''out'', ''verbose'']"

definition COMMAND_FLAGS :: "(string \<times> string list) list" where
  "COMMAND_FLAGS =
     [(''create-event'', [''type'', ''subject'', ''effective-at'', ''payload-hex'', ''payload-file'', ''meta'']),
      (''attest'', [''seed'', ''seed-file'', ''subject'', ''claim-type'', ''claim'', ''issued-at'', ''expires-at'',
         ''evidence-ref'', ''production'']),
      (''add-evidence'', [''kind'', ''digest-hex'', ''digest-file'', ''attestation-ref'', ''hint'']),
      (''relate'', [''from'', ''to'', ''type'', ''evidence-ref'', ''attestation-ref'', ''allow-ungrounded'']),
      (''revoke'', [''seed'', ''seed-file'', ''target'', ''reason'', ''at'', ''production'']),
      (''supersede'', [''seed'', ''seed-file'', ''target'', ''old'', ''new'', ''successor'', ''reason'', ''at'', ''production'']),
      (''withdraw'', [''seed'', ''seed-file'', ''target'', ''reason'', ''at'', ''production'']),
      (''compromise'', [''seed'', ''seed-file'', ''target'', ''compromised-at'', ''reason'', ''at'', ''production'']),
      (''build'', [''kind'', ''subject'', ''predicate'', ''object'', ''at-time'', ''created-at'', ''context'', ''events'',
         ''attestations'', ''evidence'', ''relationships'', ''out'']),
      (''verify'', [''proof'', ''clock'', ''skew'', ''revocations-known-at'', ''trusted'', ''authority'', ''status'',
         ''esp256'', ''historical'', ''allow-deprecated'', ''accepted-vocab'', ''extra-grounded'', ''report-all'',
         ''require-acyclic'', ''require-status'', ''no-require-status'', ''strict-current'', ''production'', ''seen-store'',
         ''seen-context'', ''seen-record'']),
      (''evaluate'', [''proof'', ''policy'', ''clock'', ''skew'', ''revocations-known-at'', ''trusted'', ''authority'',
         ''status'', ''esp256'', ''historical'', ''allow-deprecated'', ''accepted-vocab'', ''extra-grounded'', ''report-all'',
         ''require-acyclic'', ''require-status'', ''no-require-status'', ''strict-current'', ''production'', ''seen-store'',
         ''seen-context'', ''seen-record'']),
      (''explain'', [''proof'', ''policy'', ''clock'', ''skew'', ''revocations-known-at'', ''trusted'', ''authority'',
         ''status'', ''esp256'', ''historical'', ''allow-deprecated'', ''accepted-vocab'', ''extra-grounded'', ''report-all'',
         ''require-acyclic'', ''require-status'', ''no-require-status'', ''strict-current'', ''production'', ''seen-store'',
         ''seen-context'', ''seen-record'']),
      (''batch-verify'', [''proofs'', ''clock'', ''skew'', ''revocations-known-at'', ''trusted'', ''authority'', ''status'',
         ''esp256'', ''historical'', ''allow-deprecated'', ''accepted-vocab'', ''extra-grounded'', ''report-all'',
         ''require-acyclic'', ''require-status'', ''no-require-status'', ''strict-current'', ''production'', ''max-batch'']),
      (''inspect'', [''proof'']),
      (''id'', [''artifact'', ''field'']),
      (''commit'', [''value'', ''value-file'', ''salt'', ''alg'', ''production'']),
      (''graph'', [''proof'', ''format'', ''depth'']),
      (''export'', [''proof'']),
      (''import'', [''proof'']),
      (''convert'', [''proof'']),
      (''compose'', [''proofs'', ''kind'', ''subject'', ''predicate'', ''object'', ''at-time'', ''created-at'', ''context'',
         ''events'', ''attestations'', ''evidence'', ''relationships'', ''out'', ''status'', ''authority'']),
      (''resolve'', [''proof'', ''status'', ''store'', ''clock'', ''skew'', ''revocations-known-at'', ''trusted'',
         ''authority'', ''esp256'', ''historical'', ''allow-deprecated'', ''accepted-vocab'', ''extra-grounded'',
         ''report-all'', ''require-acyclic'', ''require-status'', ''no-require-status'', ''strict-current'', ''production'']),
      (''ingest'', [''in'', ''out-dir'', ''dry-run'', ''skip-bad'']),
      (''init-policy'', [''issuer'', ''attestation'', ''proof'', ''relationship'', ''evidence-kind'', ''template'', ''out'']),
      (''demo'', [''interactive'']),
      (''doctor'', []),
      (''completion'', [''shell''])]"

definition allowed_flags :: "string \<Rightarrow> string list option" where
  "allowed_flags command =
     map_option (\<lambda>(_, flags). GLOBAL_FLAGS @ flags) (find (\<lambda>(c, _). c = command) COMMAND_FLAGS)"

definition flag_allowed :: "string list option \<Rightarrow> string \<Rightarrow> bool" where
  "flag_allowed allowed name = (case allowed of None \<Rightarrow> True | Some fs \<Rightarrow> name \<in> set fs)"

definition put_flag :: "cli \<Rightarrow> string \<Rightarrow> cli" where
  "put_flag c name = c\<lparr>cl_flags := insert name (cl_flags c)\<rparr>"

definition put_value :: "cli \<Rightarrow> string \<Rightarrow> string \<Rightarrow> cli" where
  "put_value c name value =
     c\<lparr>cl_multi := (cl_multi c)(name := cl_multi c name @ [value]), cl_values := (cl_values c)(name \<mapsto> value)\<rparr>"

text \<open>A single-letter flag: one dash and one byte that is no dash.\<close>

definition short_name :: "string \<Rightarrow> string option" where
  "short_name a =
     (case strip_prefix ''-'' a of
        Some s \<Rightarrow> if \<not> starts_with s ''-'' \<and> length s = 1 then Some s else None
      | None \<Rightarrow> None)"

function parse_args :: "string list option \<Rightarrow> cli \<Rightarrow> string list \<Rightarrow> usage_error + cli" where
  "parse_args allowed c [] = Inr c"
| "parse_args allowed c (a # rest) =
     (if a = ''-'' then parse_args allowed (c\<lparr>cl_positional := cl_positional c @ [a]\<rparr>) rest
      else case short_name a of
          Some name \<Rightarrow>
            (let long_name = short_flag_alias name
             in if \<not> flag_allowed allowed long_name then Inl (UnknownFlag name)
                else case rest of
                    v # rest' \<Rightarrow>
                      if \<not> starts_with v ''-'' then parse_args allowed (put_value c long_name v) rest'
                      else parse_args allowed (put_flag c long_name) rest
                  | [] \<Rightarrow> parse_args allowed (put_flag c long_name) [])
        | None \<Rightarrow>
            (case strip_prefix ''--'' a of
               None \<Rightarrow> parse_args allowed (c\<lparr>cl_positional := cl_positional c @ [a]\<rparr>) rest
             | Some body \<Rightarrow>
                 (let (name, inline) = (case split_once (CHR ''='') body of Some (n, v) \<Rightarrow> (n, Some v) | None \<Rightarrow> (body, None))
                  in if \<not> flag_allowed allowed name then Inl (UnknownFlag name)
                     else case inline of
                         Some v \<Rightarrow> parse_args allowed (put_value c name v) rest
                       | None \<Rightarrow>
                           (case rest of
                              v # rest' \<Rightarrow>
                                if v = ''-'' \<or> \<not> starts_with v ''--'' \<and> \<not> starts_with v ''-''
                                then parse_args allowed (put_value c name v) rest'
                                else parse_args allowed (put_flag c name) rest
                            | [] \<Rightarrow> parse_args allowed (put_flag c name) []))))"
  by pat_completeness auto
termination
  by (relation "measure (\<lambda>(_, _, args). length args)") auto

definition Cli_parse :: "string list \<Rightarrow> usage_error + cli" where
  "Cli_parse args =
     (case args of
        [] \<Rightarrow> Inl MissingCommand
      | raw # rest \<Rightarrow>
          (let command = (if raw = ''--help'' \<or> raw = ''-h'' then ''help'' else if raw = ''--version'' then ''version'' else raw)
           in parse_args (allowed_flags command) (Cli_default\<lparr>cl_command := command\<rparr>) rest))"

section \<open>Accessors\<close>

definition cli_req :: "cli \<Rightarrow> string \<Rightarrow> usage_error + string" where
  "cli_req c name = ok_or (cl_values c name) (MissingFlag name)"

definition cli_opt :: "cli \<Rightarrow> string \<Rightarrow> string option" where
  "cli_opt c name = cl_values c name"

definition cli_many :: "cli \<Rightarrow> string \<Rightarrow> string list" where
  "cli_many c name = cl_multi c name"

definition cli_has :: "cli \<Rightarrow> string \<Rightarrow> bool" where
  "cli_has c name \<longleftrightarrow> name \<in> cl_flags c"

definition proof_path :: "cli \<Rightarrow> usage_error + string" where
  "proof_path c =
     (case cli_opt c ''proof'' of
        Some p \<Rightarrow> Inr p
      | None \<Rightarrow> (case cl_positional c of [p] \<Rightarrow> Inr p | [] \<Rightarrow> Inl (MissingFlag ''proof'') | _ \<Rightarrow> Inl SeveralPaths))"

definition cli_req_u64 :: "cli \<Rightarrow> string \<Rightarrow> usage_error + u64" where
  "cli_req_u64 c name = bindR (cli_req c name) (\<lambda>v. ok_or (parse_u64 v) (NotU64 name))"

definition cli_opt_u64 :: "cli \<Rightarrow> string \<Rightarrow> usage_error + u64 option" where
  "cli_opt_u64 c name =
     (case cli_opt c name of
        None \<Rightarrow> Inr None
      | Some v \<Rightarrow> bindR (ok_or (parse_u64 v) (NotU64 name)) (\<lambda>n. Inr (Some n)))"

section \<open>Readers of options\<close>

definition parse_field :: "string \<Rightarrow> usage_error + (string \<times> meta_value)" where
  "parse_field pair =
     bindR (ok_or (split_once (CHR ''='') pair) (BadField pair)) (\<lambda>(k, v).
     if k = [] \<or> v = [] then Inl (BadField pair)
     else Inr (k, if v = ''true'' then MBool True else if v = ''false'' then MBool False
                  else case parse_u64 v of Some n \<Rightarrow> MUint n | None \<Rightarrow> MText v))"

definition parse_fields :: "string option \<Rightarrow> usage_error + (string \<times> meta_value) list" where
  "parse_fields spec =
     (case spec of
        None \<Rightarrow> Inr []
      | Some s \<Rightarrow> bindR (mapR parse_field (split_on (\<lambda>c. c = CHR '','') s)) (\<lambda>out.
          Inr (sort_key (\<lambda>p. encode_canonical (CText (fst p))) out)))"

definition list_entries :: "string \<Rightarrow> string \<Rightarrow> usage_error + string list" where
  "list_entries name item =
     (if item = [] then Inr []
      else mapR (\<lambda>f. if f = [] then Inl (EmptyEntry name) else Inr f) (split_on (\<lambda>c. c = CHR '','' \<or> c = CHR '':'') item))"

definition input_list :: "cli \<Rightarrow> string \<Rightarrow> usage_error + string list" where
  "input_list c name =
     bindR (mapR (list_entries name) (cli_many c name)) (\<lambda>outs.
     let out = concat outs
     in if out = [] \<and> \<not> list_ex (\<lambda>s. s = []) (cli_many c name) then Inl (MissingFlag name) else Inr out)"

record common_inputs =
  ci_verified_at :: u64
  ci_skew :: u64
  ci_revocations_known_at :: "u64 option"

definition common :: "cli \<Rightarrow> usage_error + common_inputs" where
  "common c =
     bindR (cli_req_u64 c ''clock'') (\<lambda>clock.
     bindR (case cli_opt c ''skew'' of None \<Rightarrow> Inr 300 | Some v \<Rightarrow> ok_or (parse_u64 v) (NotU64 ''skew'')) (\<lambda>skew.
     bindR (cli_opt_u64 c ''revocations-known-at'') (\<lambda>known.
     Inr \<lparr>ci_verified_at = clock, ci_skew = skew, ci_revocations_known_at = known\<rparr>)))"

record verifier_policy =
  vp_allowed_algs :: allowed_algs
  vp_report_all_failures :: bool
  vp_accepted_vocabularies :: "vocabulary_accept list"
  vp_extra_grounded :: "string list"
  vp_require_acyclic_provenance :: bool
  vp_require_status_feed :: bool
  vp_production :: bool

definition extra_grounded :: "cli \<Rightarrow> string list" where
  "extra_grounded c =
     concat (map (\<lambda>item. filter (\<lambda>s. s \<noteq> []) (map str_trim (split_on (\<lambda>c. c = CHR '','') item))) (cli_many c ''extra-grounded''))"

definition accepted_entry :: "string \<Rightarrow> usage_error + vocabulary_accept list" where
  "accepted_entry raw =
     (let entry = str_trim raw
      in if entry = [] then Inr []
         else bindR (ok_or (split_once (CHR '':'') entry) (BadVocabulary entry)) (\<lambda>(ns, max_text).
              let ns = str_trim ns
              in if ns = [] then Inl (BadVocabulary entry)
                 else bindR (ok_or (parse_u64 (str_trim max_text)) (BadVocabulary entry)) (\<lambda>n.
                      Inr [\<lparr>va_ns = ns, va_max_version = n\<rparr>])))"

definition verifier_policy_of :: "cli \<Rightarrow> usage_error + verifier_policy" where
  "verifier_policy_of c =
     (let allowed = AllowedAlgs_strict;
          allowed = (if cli_has c ''esp256'' then with_esp256 allowed else allowed);
          allowed = (if cli_has c ''historical'' \<or> cli_has c ''allow-deprecated'' then with_deprecated allowed else allowed)
      in bindR (mapR accepted_entry (concat (map (split_on (\<lambda>c. c = CHR '','')) (cli_many c ''accepted-vocab'')))) (\<lambda>vocs.
         let production = cli_has c ''production''
         in Inr \<lparr>vp_allowed_algs = allowed, vp_report_all_failures = cli_has c ''report-all'',
                 vp_accepted_vocabularies = concat vocs, vp_extra_grounded = extra_grounded c,
                 vp_require_acyclic_provenance = (cli_has c ''require-acyclic'' \<or> production),
                 vp_require_status_feed = (\<not> cli_has c ''no-require-status''), vp_production = production\<rparr>))"

definition eval_inputs_of :: "cli \<Rightarrow> common_inputs \<Rightarrow> eval_inputs" where
  "eval_inputs_of c ci =
     \<lparr>in_trusted_issuers = cli_many c ''trusted'',
      in_revocations = RevocationSet_new (concat (map (split_on (\<lambda>c. c = CHR '','')) (cli_many c ''revoked''))),
      in_verified_at = ci_verified_at ci, in_skew_leeway = ci_skew ci\<rparr>"

record seen_request =
  sq_store :: string
  sq_context :: string
  sq_record :: bool

definition seen_request_of :: "cli \<Rightarrow> usage_error + seen_request option" where
  "seen_request_of c =
     (case (cli_opt c ''seen-store'', cli_opt c ''seen-context'') of
        (None, None) \<Rightarrow> if cli_has c ''seen-record'' then Inl SeenFlags else Inr None
      | (None, Some _) \<Rightarrow> Inl SeenFlags
      | (Some _, None) \<Rightarrow> Inl SeenFlags
      | (Some store, Some ctx) \<Rightarrow>
          if ctx = [] then Inl SeenFlags
          else Inr (Some \<lparr>sq_store = store, sq_context = ctx, sq_record = cli_has c ''seen-record''\<rparr>))"

section \<open>What parsing accepts\<close>

text \<open>A token that names a flag: two dashes and a name without an equals sign, or a dash and one letter.\<close>

definition names_flag :: "string \<Rightarrow> string \<Rightarrow> bool" where
  "names_flag a name \<longleftrightarrow> a = ''--'' @ name \<and> CHR ''='' \<notin> set name \<or> (\<exists>s. short_name a = Some s \<and> short_flag_alias s = name)"

text \<open>It stands bare if no value follows it; a long flag also takes a single dash as its value.\<close>

definition stands_bare :: "string \<Rightarrow> string list \<Rightarrow> bool" where
  "stands_bare a rest \<longleftrightarrow> (case rest of [] \<Rightarrow> True | v # _ \<Rightarrow> starts_with v ''-'' \<and> (v = ''-'' \<longrightarrow> short_name a \<noteq> None))"

lemma split_once_None: "split_once d s = None \<longleftrightarrow> d \<notin> set s"
  by (induction s) auto

lemma split_once_Some: "split_once d s = Some (a, b) \<Longrightarrow> s = a @ d # b \<and> d \<notin> set a"
  by (induction s arbitrary: a b) (auto split: if_splits)

lemma dash_prefix: "starts_with v ''--'' \<Longrightarrow> starts_with v ''-''"
  by (auto simp: starts_with_iff)

lemma short_dashes: "short_name a = Some s \<Longrightarrow> a = ''-'' @ s \<and> length s = 1 \<and> a \<noteq> ''-'' \<and> \<not> starts_with a ''--''"
  by (auto simp: short_name_def strip_prefix_eq_Some starts_with_iff split: option.splits if_splits)

text \<open>A value is never a flag token, so every flag token of the command line is read as one.\<close>

definition bare_in :: "string list \<Rightarrow> string \<Rightarrow> bool" where
  "bare_in args name \<longleftrightarrow> (\<exists>pre a post. args = pre @ a # post \<and> names_flag a name \<and> stands_bare a post)"

lemma bare_in_Nil [simp]: "\<not> bare_in [] name"
  by (simp add: bare_in_def)

lemma bare_in_Cons: "bare_in (a # rest) name \<longleftrightarrow> names_flag a name \<and> stands_bare a rest \<or> bare_in rest name"
proof
  assume "bare_in (a # rest) name"
  then obtain pre b post where b: "a # rest = pre @ b # post" "names_flag b name" "stands_bare b post" by (auto simp: bare_in_def)
  then show "names_flag a name \<and> stands_bare a rest \<or> bare_in rest name" by (cases pre) (auto simp: bare_in_def)
next
  assume "names_flag a name \<and> stands_bare a rest \<or> bare_in rest name"
  then show "bare_in (a # rest) name"
  proof
    assume "bare_in rest name"
    then obtain pre b post where "rest = pre @ b # post" "names_flag b name" "stands_bare b post" by (auto simp: bare_in_def)
    then have "a # rest = (a # pre) @ b # post \<and> names_flag b name \<and> stands_bare b post" by simp
    then show ?thesis unfolding bare_in_def by blast
  qed (force simp: bare_in_def)
qed

lemma names_flag_dash: "names_flag a name \<Longrightarrow> starts_with a ''-'' \<and> a \<noteq> ''-''"
  unfolding names_flag_def by (elim disjE exE conjE) (simp_all add: starts_with_iff, use short_dashes in force)

lemma names_flag_long:
  assumes "strip_prefix ''--'' a = Some body" "short_name a = None"
  shows "names_flag a name \<longleftrightarrow> name = body \<and> CHR ''='' \<notin> set body"
  using assms unfolding names_flag_def strip_prefix_eq_Some by force

lemma names_flag_short:
  assumes "short_name a = Some s"
  shows "names_flag a name \<longleftrightarrow> name = short_flag_alias s"
proof -
  have "a \<noteq> ''--'' @ name" using short_dashes [OF assms] unfolding starts_with_iff by blast
  then show ?thesis using assms by (auto simp: names_flag_def)
qed

lemma names_flag_neither:
  assumes "strip_prefix ''--'' a = None" "short_name a = None"
  shows "\<not> names_flag a name"
proof
  assume "names_flag a name"
  then have "strip_prefix ''--'' a = Some name" using assms(2) by (simp add: names_flag_def strip_prefix_eq_Some)
  then show False using assms(1) by simp
qed

lemma cli_updates [simp]:
  "cl_flags (put_value c n v) = cl_flags c" "cl_flags (put_flag c n) = insert n (cl_flags c)"
  "cl_multi (put_flag c n) = cl_multi c" "cl_values (put_flag c n) = cl_values c"
  "cl_multi (put_value c n v) = (cl_multi c)(n := cl_multi c n @ [v])" "cl_values (put_value c n v) = (cl_values c)(n \<mapsto> v)"
  by (simp_all add: put_value_def put_flag_def)

text \<open>One step of the parser, by what it does with the token.\<close>

lemma parse_args_step:
  assumes "parse_args allowed c (a # rest) = Inr c'"
  obtains (bare) name where "names_flag a name" "stands_bare a rest" "flag_allowed allowed name"
      "parse_args allowed (put_flag c name) rest = Inr c'"
    | (taken) name v rest' where "rest = v # rest'" "\<not> stands_bare a rest" "\<And>n. \<not> names_flag v n" "flag_allowed allowed name"
      "parse_args allowed (put_value c name v) rest' = Inr c'"
    | (inline) name v where "\<And>n. \<not> names_flag a n" "flag_allowed allowed name" "parse_args allowed (put_value c name v) rest = Inr c'"
    | (positional) "\<And>n. \<not> names_flag a n" "parse_args allowed (c\<lparr>cl_positional := cl_positional c @ [a]\<rparr>) rest = Inr c'"
proof (cases "a = ''-''")
  case True
  then show thesis using assms positional names_flag_dash by auto
next
  case dash: False
  have value_token: "\<not> names_flag v n" if "v = ''-'' \<or> \<not> starts_with v ''-''" for v n
    using that names_flag_dash by blast
  show thesis
  proof (cases "short_name a")
    case (Some s)
    note step = assms [unfolded parse_args.simps(2) if_not_P [OF dash] Some option.case Let_def]
    show thesis
    proof (cases "stands_bare a rest")
      case True
      then show thesis using step Some bare [of "short_flag_alias s"]
        by (auto simp: names_flag_short stands_bare_def split: list.splits if_splits)
    next
      case False
      then obtain v rest' where v: "rest = v # rest'" "\<not> starts_with v ''-''"
        using Some by (auto simp: stands_bare_def split: list.splits)
      then show thesis using step False value_token taken [of v rest' "short_flag_alias s"] by (auto split: if_splits)
    qed
  next
    case short: None
    show thesis
    proof (cases "strip_prefix ''--'' a")
      case None
      then show thesis
        using assms dash short names_flag_neither [OF None short] positional by simp
    next
      case (Some body)
      note step = assms [unfolded parse_args.simps(2) if_not_P [OF dash] short Some option.case Let_def]
      show thesis
      proof (cases "split_once (CHR ''='') body")
        case (Some nv)
        obtain n v where nv: "split_once (CHR ''='') body = Some (n, v)" using Some by (cases nv) simp
        then have "\<not> names_flag a m" for m
          using names_flag_long [OF \<open>strip_prefix ''--'' a = Some body\<close> short] split_once_Some [OF nv] by simp
        then show thesis using step nv inline by (auto split: if_splits)
      next
        case None
        then have flag: "names_flag a body"
          using names_flag_long [OF Some short] by (simp add: split_once_None)
        note step' = step [unfolded None option.case prod.case]
        show thesis
        proof (cases "stands_bare a rest")
          case True
          then show thesis using step' flag bare [of body] short dash_prefix
            by (auto simp: stands_bare_def split: list.splits if_splits)
        next
          case False
          then obtain v rest' where v: "rest = v # rest'" "v = ''-'' \<or> \<not> starts_with v ''-''"
            using short by (auto simp: stands_bare_def split: list.splits)
          then have "v = ''-'' \<or> \<not> starts_with v ''--'' \<and> \<not> starts_with v ''-''" using dash_prefix by blast
          then show thesis using step' v False value_token taken [of v rest' body] by (auto split: if_splits)
        qed
      qed
    qed
  qed
qed

lemma names_flag_unique: "names_flag a m \<Longrightarrow> names_flag a n \<Longrightarrow> m = n"
proof (cases "short_name a")
  case None
  then show "names_flag a m \<Longrightarrow> names_flag a n \<Longrightarrow> m = n" by (simp add: names_flag_def)
next
  case (Some s)
  then show "names_flag a m \<Longrightarrow> names_flag a n \<Longrightarrow> m = n" by (simp add: names_flag_short [OF Some])
qed

lemma parse_args_flags:
  "parse_args allowed c args = Inr c' \<Longrightarrow> name \<in> cl_flags c' \<longleftrightarrow> name \<in> cl_flags c \<or> bare_in args name"
proof (induction "length args" arbitrary: c args rule: less_induct)
  case less
  show ?case
  proof (cases args)
    case (Cons a rest)
    from less.prems [unfolded Cons] show ?thesis
    proof (cases rule: parse_args_step)
      case (bare n)
      then show ?thesis using less.hyps [of rest "put_flag c n"] names_flag_unique [of a n name] by (auto simp: Cons bare_in_Cons)
    next
      case (taken n v rest')
      then show ?thesis using less.hyps [of rest' "put_value c n v"] by (simp add: Cons bare_in_Cons)
    next
      case (inline n v)
      then show ?thesis using less.hyps [of rest "put_value c n v"] by (simp add: Cons bare_in_Cons)
    next
      case positional
      then show ?thesis using less.hyps [of rest "c\<lparr>cl_positional := cl_positional c @ [a]\<rparr>"] by (simp add: Cons bare_in_Cons)
    qed
  qed (use less.prems in simp)
qed

lemma parse_args_allowed:
  "parse_args allowed c args = Inr c' \<Longrightarrow> \<not> flag_allowed allowed name \<Longrightarrow>
    cl_multi c' name = cl_multi c name \<and> cl_values c' name = cl_values c name \<and> (name \<in> cl_flags c' \<longleftrightarrow> name \<in> cl_flags c)"
proof (induction "length args" arbitrary: c args rule: less_induct)
  case less
  show ?case
  proof (cases args)
    case (Cons a rest)
    from less.prems(1) [unfolded Cons] show ?thesis
    proof (cases rule: parse_args_step)
      case (bare n)
      then show ?thesis using less.hyps [of rest "put_flag c n"] less.prems(2) by (auto simp: Cons)
    next
      case (taken n v rest')
      then show ?thesis using less.hyps [of rest' "put_value c n v"] less.prems(2) by (auto simp: Cons)
    next
      case (inline n v)
      then show ?thesis using less.hyps [of rest "put_value c n v"] less.prems(2) by (auto simp: Cons)
    next
      case positional
      then show ?thesis using less.hyps [of rest "c\<lparr>cl_positional := cl_positional c @ [a]\<rparr>"] less.prems(2) by (simp add: Cons)
    qed
  qed (use less.prems in simp)
qed

lemma Cli_parse_Inr:
  assumes "Cli_parse (cmd # args) = Inr c"
  shows "\<exists>c0. parse_args (allowed_flags (cl_command c0)) c0 args = Inr c \<and> cl_flags c0 = {} \<and> cl_values c0 = Map.empty \<and> cl_multi c0 = (\<lambda>_. [])
     \<and> cl_command c0 = (if cmd = ''--help'' \<or> cmd = ''-h'' then ''help'' else if cmd = ''--version'' then ''version'' else cmd)"
  using assms unfolding Cli_parse_def Let_def list.case
  by (intro exI [of _ "Cli_default\<lparr>cl_command := if cmd = ''--help'' \<or> cmd = ''-h'' then ''help'' else if cmd = ''--version'' then ''version'' else cmd\<rparr>"])
    (simp add: Cli_default_def)

text \<open>
  C30. A flag of the command line counts as set exactly if one of the tokens spells it, in its long form without an
  equals sign or as its one-letter alias, and no value follows: the token is the last one or the next one starts with
  a dash (a long flag also takes a lone dash as its value). Written with a value, as in \<^verbatim>\<open>--production=true\<close>, it is
  accepted and not set. A name outside the allowlist of a known command is neither set nor given a value.
\<close>

theorem flag_set_iff_bare_token:
  assumes "Cli_parse (cmd # args) = Inr c" "cmd \<notin> {''--help'', ''-h'', ''--version''}"
  shows "(cli_has c name \<longleftrightarrow> (\<exists>pre a post. args = pre @ a # post \<and> names_flag a name \<and> stands_bare a post))
    \<and> (\<not> flag_allowed (allowed_flags cmd) name \<longrightarrow> \<not> cli_has c name \<and> cli_opt c name = None \<and> cli_many c name = [])"
proof -
  obtain c0 where c0: "parse_args (allowed_flags cmd) c0 args = Inr c" "cl_flags c0 = {}" "cl_values c0 = Map.empty" "cl_multi c0 = (\<lambda>_. [])"
    using Cli_parse_Inr [OF assms(1)] assms(2) by auto
  show ?thesis
    using parse_args_flags [OF c0(1), of name] parse_args_allowed [OF c0(1), of name] c0(2-4)
    by (auto simp: cli_has_def cli_opt_def cli_many_def bare_in_def)
qed

theorem flag_set_iff_bare_token_witness:
  "\<exists>c. Cli_parse [''verify'', ''--production=true'', ''-q''] = Inr c \<and> \<not> cli_has c ''production'' \<and> cli_opt c ''production'' = Some ''true''
     \<and> cli_has c ''quiet'' \<and> cli_many c ''revoked'' = []"
proof -
  have allowed: "flag_allowed (allowed_flags ''verify'') ''production''" "flag_allowed (allowed_flags ''verify'') ''quiet''"
    "\<not> flag_allowed (allowed_flags ''verify'') ''revoked''"
    by (simp_all add: flag_allowed_def allowed_flags_def COMMAND_FLAGS_def GLOBAL_FLAGS_def)
  have parsed: "\<exists>c. Cli_parse [''verify'', ''--production=true'', ''-q''] = Inr c \<and> cli_opt c ''production'' = Some ''true''"
    using allowed(1,2) by (simp add: Cli_parse_def short_name_def starts_with_def short_flag_alias_def cli_opt_def Cli_default_def)
  then obtain c where c: "Cli_parse [''verify'', ''--production=true'', ''-q''] = Inr c" "cli_opt c ''production'' = Some ''true''" by blast
  note flags = flag_set_iff_bare_token [OF c(1), folded bare_in_def]
  have "short_name ''--production=true'' = None" "short_name ''-q'' = Some ''q''" by (simp_all add: short_name_def starts_with_def)
  then have "\<not> bare_in [''--production=true'', ''-q''] ''production''" "bare_in [''--production=true'', ''-q''] ''quiet''"
    by (simp_all add: bare_in_Cons names_flag_def short_flag_alias_def stands_bare_def)
  then have "\<not> cli_has c ''production''" "cli_has c ''quiet''" using flags by simp_all
  moreover have "cli_many c ''revoked'' = []" using flags allowed(3) by simp
  ultimately show ?thesis using c by blast
qed

text \<open>\<^verbatim>\<open>evaluate\<close> and \<^verbatim>\<open>explain\<close> read \<^verbatim>\<open>--revoked\<close>, but their allowlist refuses it: the denylist is always empty.\<close>

lemma denylist_always_empty:
  assumes "Cli_parse (cmd # args) = Inr c" "cmd = ''evaluate'' \<or> cmd = ''explain''"
  shows "in_revocations (eval_inputs_of c ci) = RevocationSet_empty"
proof -
  obtain c0 where c0: "parse_args (allowed_flags cmd) c0 args = Inr c" "cl_multi c0 = (\<lambda>_. [])"
    using Cli_parse_Inr [OF assms(1)] assms(2) by auto
  have "\<not> flag_allowed (allowed_flags cmd) ''revoked''"
    using assms(2) by (elim disjE) (simp_all add: flag_allowed_def allowed_flags_def COMMAND_FLAGS_def GLOBAL_FLAGS_def)
  then have "cli_many c ''revoked'' = []" using parse_args_allowed [OF c0(1)] c0(2) by (simp add: cli_many_def)
  then show ?thesis by (simp add: eval_inputs_of_def RevocationSet_new_def RevocationSet_empty_def)
qed

end
