(* ===== verification/Cli_Io.thy ===== *)
theory Cli_Io
  imports Cli_Args
begin

text \<open>
  What the commands of \<^verbatim>\<open>proof-cli\<close> read and write: the size-capped readers of \<^verbatim>\<open>lib.rs\<close>, the JSON
  wrappers and loaders of \<^verbatim>\<open>artifact.rs\<close> and \<^verbatim>\<open>check.rs\<close>, and the emission of reports. A command is a
  function of the world (standard input, files, standard output) that returns a value or an error text and
  the world it leaves; \<^verbatim>\<open>None\<close> is reserved for a call that does not end. Standard error is not modelled. A
  file is named by its path text, and a write that fails leaves the file as it was.
\<close>

section \<open>The world of a command\<close>

datatype file_state = NoFile | Unreadable | File bytes

record world =
  w_stdin :: "bytes option"
  w_files :: "string \<Rightarrow> file_state"
  w_writable :: "string \<Rightarrow> bool"
  w_stdout :: string

type_synonym 'a io = "world \<Rightarrow> ((string + 'a) \<times> world) option"

text \<open>\<open>bindIO m f\<close> is \<^verbatim>\<open>f(m?)\<close>, \<open>tryIO m\<close> hands the outcome of \<open>m\<close>, error or value, to a \<^verbatim>\<open>match\<close>.\<close>

definition retIO :: "'a \<Rightarrow> 'a io" where
  "retIO x w = Some (Inr x, w)"

definition failIO :: "string \<Rightarrow> 'a io" where
  "failIO e w = Some (Inl e, w)"

definition bindIO :: "'a io \<Rightarrow> ('a \<Rightarrow> 'b io) \<Rightarrow> 'b io" where
  "bindIO m f w = (case m w of None \<Rightarrow> None | Some (Inl e, w') \<Rightarrow> Some (Inl e, w') | Some (Inr x, w') \<Rightarrow> f x w')"

definition tryIO :: "'a io \<Rightarrow> (string + 'a) io" where
  "tryIO m w = map_option (\<lambda>(r, w'). (Inr r, w')) (m w)"

definition liftIO :: "string + 'a \<Rightarrow> 'a io" where
  "liftIO r w = Some (r, w)"

fun mapIO :: "('a \<Rightarrow> 'b io) \<Rightarrow> 'a list \<Rightarrow> 'b list io" where
  "mapIO f [] = retIO []"
| "mapIO f (x # xs) = bindIO (f x) (\<lambda>y. bindIO (mapIO f xs) (\<lambda>ys. retIO (y # ys)))"

text \<open>\<^verbatim>\<open>filter_map(|x| f(x).ok())\<close>: the errors are dropped.\<close>

fun mapOkIO :: "('a \<Rightarrow> 'b io) \<Rightarrow> 'a list \<Rightarrow> 'b list io" where
  "mapOkIO f [] = retIO []"
| "mapOkIO f (x # xs) = bindIO (tryIO (f x)) (\<lambda>r. bindIO (mapOkIO f xs) (\<lambda>ys. retIO (case r of Inl _ \<Rightarrow> ys | Inr y \<Rightarrow> y # ys)))"

text \<open>
  The libraries under the commands: base64, hashes, signatures, iteration order of hash maps, hex,
  \<^verbatim>\<open>serde_json\<close>, and the texts that are not modelled. Error texts depend on what was read; the text
  of a report and of a policy outcome is its JSON or prose rendering.
\<close>

record platform =
  pf_b64 :: base64_engine
  pf_hash :: hash_engine
  pf_sig :: sig_engine
  pf_iter :: "string list \<Rightarrow> string list"
  pf_hex :: hex_engine
  pf_from_str :: "string \<Rightarrow> json option"
  pf_to_string_pretty :: "json \<Rightarrow> string"
  pf_report_text :: "verify_report \<Rightarrow> string"
  pf_usage_text :: "usage_error \<Rightarrow> string"
  pf_io_text :: "string \<Rightarrow> string"
  pf_json_text :: "string \<Rightarrow> string"
  pf_hex_text :: "string \<Rightarrow> string"
  pf_error_text :: "bytes \<Rightarrow> error_code \<Rightarrow> string"

definition usageIO :: "platform \<Rightarrow> usage_error + 'a \<Rightarrow> 'a io" where
  "usageIO pf r = liftIO (case r of Inl u \<Rightarrow> Inl (pf_usage_text pf u) | Inr x \<Rightarrow> Inr x)"

definition NEWLINE :: string where
  "NEWLINE = [CHR 0x0A]"

definition QUOTE :: string where
  "QUOTE = [CHR 0x22]"

definition printIO :: "string \<Rightarrow> unit io" where
  "printIO text w = Some (Inr (), w\<lparr>w_stdout := w_stdout w @ text\<rparr>)"

definition printlnIO :: "string \<Rightarrow> unit io" where
  "printlnIO text = printIO (text @ NEWLINE)"

definition writeIO :: "platform \<Rightarrow> string \<Rightarrow> string \<Rightarrow> string \<Rightarrow> unit io" where
  "writeIO pf what fpath text w =
     (if w_writable w fpath then Some (Inr (), w\<lparr>w_files := (w_files w)(fpath := File (as_bytes text))\<rparr>)
      else Some (Inl (what @ fpath @ '': '' @ pf_io_text pf fpath), w))"

section \<open>Readers\<close>

definition MAX_INPUT_FILE_BYTES :: nat where
  "MAX_INPUT_FILE_BYTES = 8 * 1024 * 1024"

definition limits_of_cli :: limits where
  "limits_of_cli = default_limits"

text \<open>A reader takes at most one byte more than the cap; what it takes of standard input is gone.\<close>

definition read_stdin_text :: "platform \<Rightarrow> string io" where
  "read_stdin_text pf w =
     (case w_stdin w of
        None \<Rightarrow> Some (Inl (''read stdin: '' @ pf_io_text pf ''-''), w)
      | Some input \<Rightarrow>
          (let buf = take (MAX_INPUT_FILE_BYTES + 1) input;
               w' = w\<lparr>w_stdin := Some (drop (MAX_INPUT_FILE_BYTES + 1) input)\<rparr>
           in if length buf > MAX_INPUT_FILE_BYTES then Some (Inl ''stdin: input too large'', w')
              else if valid_utf8 buf then Some (Inr (str_of_bytes buf), w')
              else Some (Inl ''stdin: invalid UTF-8'', w')))"

definition read_input_file :: "platform \<Rightarrow> string \<Rightarrow> string io" where
  "read_input_file pf fpath w =
     (case w_files w fpath of
        File content \<Rightarrow>
          (let buf = take (MAX_INPUT_FILE_BYTES + 1) content
           in if length buf > MAX_INPUT_FILE_BYTES then Some (Inl (fpath @ '': file too large (>8388608 bytes)''), w)
              else if valid_utf8 buf then Some (Inr (str_of_bytes buf), w)
              else Some (Inl (fpath @ '': invalid UTF-8''), w))
      | _ \<Rightarrow> Some (Inl (''read '' @ fpath @ '': '' @ pf_io_text pf fpath), w))"

definition read_input_text :: "platform \<Rightarrow> string \<Rightarrow> (string \<times> string) io" where
  "read_input_text pf fpath =
     (if fpath = ''-'' then bindIO (read_stdin_text pf) (\<lambda>text. retIO (text, ''stdin''))
      else bindIO (read_input_file pf fpath) (\<lambda>text. retIO (text, fpath)))"

definition from_strIO :: "platform \<Rightarrow> string \<Rightarrow> string \<Rightarrow> json io" where
  "from_strIO pf label text =
     liftIO (case pf_from_str pf text of
        None \<Rightarrow> Inl (''parse '' @ label @ '': '' @ pf_json_text pf text)
      | Some v \<Rightarrow> Inr v)"

definition read_json :: "platform \<Rightarrow> string \<Rightarrow> json io" where
  "read_json pf fpath = bindIO (read_input_text pf fpath) (\<lambda>(text, label). from_strIO pf label text)"

section \<open>Wrappers\<close>

definition wrapper_label :: "string \<Rightarrow> string" where
  "wrapper_label fpath = (if fpath = ''-'' then ''stdin'' else fpath)"

text \<open>\<^verbatim>\<open>Value::get\<close> on an object key and \<^verbatim>\<open>Value::as_str\<close>.\<close>

fun json_get :: "json \<Rightarrow> string \<Rightarrow> json option" where
  "json_get (JObject m) k = map_of m k"
| "json_get _ k = None"

fun json_str :: "json \<Rightarrow> string option" where
  "json_str (JString s) = Some s"
| "json_str _ = None"

definition get_str :: "json \<Rightarrow> string \<Rightarrow> string option" where
  "get_str v k = Option.bind (json_get v k) json_str"

definition PROOF_WRAPPER_ALLOWED :: "string list" where
  "PROOF_WRAPPER_ALLOWED = [''cbor'', ''id'', ''kind'', ''container_version'']"

definition EVENT_WRAPPER_ALLOWED :: "string list" where
  "EVENT_WRAPPER_ALLOWED = [''cbor'', ''id'', ''kind'', ''container_version'']"

definition EVIDENCE_WRAPPER_ALLOWED :: "string list" where
  "EVIDENCE_WRAPPER_ALLOWED = [''cbor'', ''id'', ''kind'', ''container_version'']"

definition RELATIONSHIP_WRAPPER_ALLOWED :: "string list" where
  "RELATIONSHIP_WRAPPER_ALLOWED = [''cbor'', ''id'', ''kind'', ''container_version'']"

definition ATTESTATION_WRAPPER_ALLOWED :: "string list" where
  "ATTESTATION_WRAPPER_ALLOWED = [''cbor'', ''id'', ''kind'', ''issuer'', ''sign1_b64'', ''sign1'', ''container_version'']"

definition STATUS_WRAPPER_ALLOWED :: "string list" where
  "STATUS_WRAPPER_ALLOWED =
     [''cbor'', ''id'', ''kind'', ''issuer'', ''claim_type'', ''sign1_b64'', ''sign1'', ''container_version'']"

fun join_comma :: "string list \<Rightarrow> string" where
  "join_comma [] = []"
| "join_comma [s] = s"
| "join_comma (s # ss) = s @ '','' @ join_comma ss"

definition EM_DASH :: string where
  "EM_DASH = [CHR 0xE2, CHR 0x80, CHR 0x94]"

definition reject_unknown_wrapper_fields :: "json \<Rightarrow> string \<Rightarrow> string list \<Rightarrow> string + unit" where
  "reject_unknown_wrapper_fields v label allowed =
     (case v of
        JObject m \<Rightarrow>
          (case sort (filter (\<lambda>k. k \<notin> set allowed) (map fst m)) of
             key # _ \<Rightarrow> Inl (label @ '': wrapper has unknown field '' @ QUOTE @ key @ QUOTE @ '' (allowed: '' @ join_comma allowed
                @ '' '' @ EM_DASH @ '' unknown wrapper fields rejected fail-closed)'')
           | [] \<Rightarrow> Inr ())
      | _ \<Rightarrow> Inl (label @ '': wrapper must be a JSON object''))"

definition req_str :: "json \<Rightarrow> string \<Rightarrow> string \<Rightarrow> string + string" where
  "req_str v file key = ok_or (get_str v key) (file @ '': missing `'' @ key @ ''`'')"

definition opt_str :: "json \<Rightarrow> string \<Rightarrow> string \<Rightarrow> string + string option" where
  "opt_str v file key =
     (case json_get v key of
        None \<Rightarrow> Inr None
      | Some JNull \<Rightarrow> Inr None
      | Some x \<Rightarrow> bindR (ok_or (json_str x) (file @ '': `'' @ key @ ''` must be a string'')) (\<lambda>s. Inr (Some s)))"

definition hexR :: "platform \<Rightarrow> string \<Rightarrow> string \<Rightarrow> string + bytes" where
  "hexR pf label s = ok_or (hex_decode (pf_hex pf) s) (label @ '': bad hex: '' @ pf_hex_text pf s)"

text \<open>\<^verbatim>\<open>map_err(|e| format!("{label}: {e}"))\<close> on an error of the library crates.\<close>

definition labelR :: "platform \<Rightarrow> string \<Rightarrow> bytes \<Rightarrow> 'a result \<Rightarrow> string + 'a" where
  "labelR pf label input r = (case r of Inl code \<Rightarrow> Inl (label @ '': '' @ pf_error_text pf input code) | Inr x \<Rightarrow> Inr x)"

section \<open>Loading a proof\<close>

record loaded_proof =
  lp_canonical :: bytes
  lp_proof :: proof_package

definition check_wrapper_kind :: "json \<Rightarrow> string \<Rightarrow> string + unit" where
  "check_wrapper_kind v label =
     (case json_get v ''kind'' of
        None \<Rightarrow> Inr ()
      | Some kind \<Rightarrow>
          (case json_str kind of
             Some other \<Rightarrow>
               if other = ''proof'' then Inr ()
               else Inl (label @ '': envelope kind mismatch (wrapper says kind '' @ QUOTE @ other @ QUOTE @ '', expected ''
                  @ QUOTE @ ''proof'' @ QUOTE @ '')'')
           | None \<Rightarrow> Inl (label @ '': wrapper `kind` must be a string'')))"

definition check_wrapper_id :: "json \<Rightarrow> string \<Rightarrow> proof_package \<Rightarrow> string + unit" where
  "check_wrapper_id v label p =
     (case get_str v ''id'' of
        None \<Rightarrow> Inr ()
      | Some claimed \<Rightarrow>
          if claimed \<noteq> prf_id p
          then Inl (label @ '': envelope id mismatch (wrapper says '' @ claimed @ '', bytes bind '' @ prf_id p @ '')'')
          else Inr ())"

definition unwrap_proof :: "platform \<Rightarrow> string \<Rightarrow> json \<Rightarrow> string + loaded_proof" where
  "unwrap_proof pf label v =
     bindR (reject_unknown_wrapper_fields v label PROOF_WRAPPER_ALLOWED) (\<lambda>_.
     bindR (check_wrapper_kind v label) (\<lambda>_.
     bindR (req_str v label ''cbor'') (\<lambda>hex.
     bindR (hexR pf label hex) (\<lambda>bs.
     bindR (labelR pf label bs (decode_strict bs limits_of_cli)) (\<lambda>value.
     bindR (labelR pf label bs (cbor_to_proof (pf_b64 pf) value limits_of_cli)) (\<lambda>p.
     bindR (check_wrapper_id v label p) (\<lambda>_.
     Inr \<lparr>lp_canonical = bs, lp_proof = p\<rparr>)))))))"

definition load_proof :: "platform \<Rightarrow> string \<Rightarrow> loaded_proof io" where
  "load_proof pf fpath =
     bindIO (read_input_text pf fpath) (\<lambda>(text, label).
     bindIO (from_strIO pf label text) (\<lambda>v.
     liftIO (unwrap_proof pf label v)))"

definition load_proof_bytes_raw :: "platform \<Rightarrow> string \<Rightarrow> bytes io" where
  "load_proof_bytes_raw pf fpath =
     bindIO (read_input_text pf fpath) (\<lambda>(text, label).
     bindIO (from_strIO pf label text) (\<lambda>v.
     liftIO (bindR (req_str v label ''cbor'') (hexR pf label))))"

section \<open>Loading the members\<close>

definition load_event :: "platform \<Rightarrow> string \<Rightarrow> event_content io" where
  "load_event pf fpath =
     bindIO (read_json pf fpath) (\<lambda>v.
     liftIO (
     bindR (reject_unknown_wrapper_fields v (wrapper_label fpath) EVENT_WRAPPER_ALLOWED) (\<lambda>_.
     bindR (req_str v fpath ''cbor'') (\<lambda>hex.
     bindR (hexR pf fpath hex) (\<lambda>bs.
     bindR (opt_str v fpath ''id'') (\<lambda>expect.
     bindR (labelR pf fpath bs (verify_event (pf_b64 pf) (pf_hash pf) bs expect limits_of_cli)) (\<lambda>_.
     bindR (labelR pf fpath bs (decode_strict bs limits_of_cli)) (\<lambda>value.
     labelR pf fpath bs (cbor_to_event value limits_of_cli)))))))))"

definition load_evidence :: "platform \<Rightarrow> string \<Rightarrow> evidence io" where
  "load_evidence pf fpath =
     bindIO (read_json pf fpath) (\<lambda>v.
     liftIO (
     bindR (reject_unknown_wrapper_fields v (wrapper_label fpath) EVIDENCE_WRAPPER_ALLOWED) (\<lambda>_.
     bindR (req_str v fpath ''cbor'') (\<lambda>hex.
     bindR (hexR pf fpath hex) (\<lambda>bs.
     bindR (opt_str v fpath ''id'') (\<lambda>expect.
     bindR (labelR pf fpath bs (verify_evidence (pf_b64 pf) (pf_hash pf) bs expect limits_of_cli)) (\<lambda>_.
     bindR (labelR pf fpath bs (decode_strict bs limits_of_cli)) (\<lambda>value.
     labelR pf fpath bs (cbor_to_evidence value limits_of_cli)))))))))"

definition load_relationship :: "platform \<Rightarrow> string \<Rightarrow> relationship io" where
  "load_relationship pf fpath =
     bindIO (read_json pf fpath) (\<lambda>v.
     liftIO (
     bindR (reject_unknown_wrapper_fields v (wrapper_label fpath) RELATIONSHIP_WRAPPER_ALLOWED) (\<lambda>_.
     bindR (req_str v fpath ''cbor'') (\<lambda>hex.
     bindR (hexR pf fpath hex) (\<lambda>bs.
     bindR (opt_str v fpath ''id'') (\<lambda>expect.
     bindR (labelR pf fpath bs (verify_relationship (pf_b64 pf) (pf_hash pf) bs expect limits_of_cli)) (\<lambda>_.
     bindR (labelR pf fpath bs (decode_strict bs limits_of_cli)) (\<lambda>value.
     labelR pf fpath bs (cbor_to_relationship value limits_of_cli)))))))))"

text \<open>\<^verbatim>\<open>v.get(a).or_else(|| v.get(b)).and_then(as_str)\<close>: the first key present decides. The signature field has two spellings.\<close>

definition str_of_either :: "json \<Rightarrow> string \<Rightarrow> string \<Rightarrow> string option" where
  "str_of_either v a b = Option.bind (case json_get v a of Some x \<Rightarrow> Some x | None \<Rightarrow> json_get v b) json_str"

definition sign1_field :: "json \<Rightarrow> string \<Rightarrow> string + string" where
  "sign1_field v fpath = ok_or (str_of_either v ''sign1_b64'' ''sign1'') (wrapper_label fpath @ '': missing `sign1_b64`'')"

definition sign1R :: "platform \<Rightarrow> string \<Rightarrow> string \<Rightarrow> string + bytes" where
  "sign1R pf fpath s =
     (case b64u_decode (pf_b64 pf) s of
        Inl code \<Rightarrow> Inl (fpath @ '': bad sign1_b64: '' @ pf_error_text pf (as_bytes s) code)
      | Inr bs \<Rightarrow> Inr bs)"

definition load_attestation :: "platform \<Rightarrow> string \<Rightarrow> created_attestation io" where
  "load_attestation pf fpath =
     bindIO (read_json pf fpath) (\<lambda>v.
     liftIO (
     bindR (reject_unknown_wrapper_fields v (wrapper_label fpath) ATTESTATION_WRAPPER_ALLOWED) (\<lambda>_.
     bindR (sign1_field v fpath) (\<lambda>sign1_b64.
     bindR (req_str v fpath ''cbor'') (\<lambda>hex.
     bindR (hexR pf fpath hex) (\<lambda>bs.
     bindR (sign1R pf fpath sign1_b64) (\<lambda>sign1.
     bindR (opt_str v fpath ''issuer'') (\<lambda>named.
     bindR (ok_or named (fpath @ '': missing `issuer`'')) (\<lambda>issuer.
     bindR (labelR pf fpath sign1 (verify_attestation (pf_b64 pf) (pf_hash pf) (pf_sig pf) sign1 issuer AllowedAlgs_strict limits_of_cli))
       (\<lambda>(content, i).
     bindR (opt_str v fpath ''id'') (\<lambda>expect.
     if (case expect of None \<Rightarrow> False | Some x \<Rightarrow> x \<noteq> i)
     then Inl (fpath @ '': id mismatch (file says '' @ the expect @ '', bytes are '' @ i @ '')'')
     else
     bindR (labelR pf fpath bs (decode_strict bs limits_of_cli)) (\<lambda>value.
     if encode_canonical value \<noteq> bs then Inl (fpath @ '': attestation CBOR is not canonical'')
     else
     bindR (labelR pf fpath bs (cbor_to_attestation value limits_of_cli)) (\<lambda>content2.
     if content2 \<noteq> content then Inl (fpath @ '': envelope payload does not match CBOR bytes'')
     else Inr \<lparr>ca_content = content, ca_canonical = bs, ca_id = i, ca_sign1 = sign1\<rparr>)))))))))))))"

definition load_status :: "platform \<Rightarrow> string \<Rightarrow> signed_status io" where
  "load_status pf fpath =
     bindIO (read_json pf fpath) (\<lambda>v.
     liftIO (
     bindR (reject_unknown_wrapper_fields v (wrapper_label fpath) STATUS_WRAPPER_ALLOWED) (\<lambda>_.
     bindR (sign1_field v fpath) (\<lambda>sign1_b64.
     bindR (sign1R pf fpath sign1_b64) (\<lambda>sign1.
     bindR (req_str v fpath ''issuer'') (\<lambda>issuer.
     bindR (labelR pf fpath sign1 (verify_status_object (pf_b64 pf) (pf_hash pf) (pf_sig pf) sign1 issuer AllowedAlgs_strict limits_of_cli))
       (\<lambda>content.
     Inr \<lparr>ss_content = content, ss_sign1 = sign1\<rparr>)))))))"

definition emit_report :: "platform \<Rightarrow> verify_report \<Rightarrow> string option \<Rightarrow> unit io" where
  "emit_report pf report out =
     (let text = pf_report_text pf report
      in case out of
          None \<Rightarrow> printlnIO text
        | Some fpath \<Rightarrow> if fpath = ''-'' then printlnIO text else writeIO pf ''write '' fpath (text @ NEWLINE))"

section \<open>Runs that return\<close>

named_theorems io_iff \<open>when an operation of a command returns a value\<close>

lemma bindIO_Inr [io_iff]:
  "bindIO m f w = Some (Inr y, w') \<longleftrightarrow> (\<exists>x w1. m w = Some (Inr x, w1) \<and> f x w1 = Some (Inr y, w'))"
  by (auto simp: bindIO_def split: option.splits sum.splits)

lemma bindIO_Inl:
  "bindIO m f w = Some (Inl e, w') \<longleftrightarrow> m w = Some (Inl e, w') \<or> (\<exists>x w1. m w = Some (Inr x, w1) \<and> f x w1 = Some (Inl e, w'))"
  by (auto simp: bindIO_def split: option.splits sum.splits)

lemma retIO_iff [io_iff]: "retIO x w = Some (Inr y, w') \<longleftrightarrow> y = x \<and> w' = w"
  by (auto simp: retIO_def)

lemma failIO_iff [io_iff]: "failIO e w = Some (Inr y, w') \<longleftrightarrow> False"
  by (simp add: failIO_def)

lemma liftIO_iff [io_iff]: "liftIO r w = Some (Inr y, w') \<longleftrightarrow> r = Inr y \<and> w' = w"
  by (auto simp: liftIO_def)

lemma tryIO_iff [io_iff]: "tryIO m w = Some (Inr r, w') \<longleftrightarrow> m w = Some (r, w')"
  by (auto simp: tryIO_def)

lemma usageIO_iff [io_iff]: "usageIO pf r w = Some (Inr y, w') \<longleftrightarrow> r = Inr y \<and> w' = w"
  by (auto simp: usageIO_def liftIO_def split: sum.splits)

lemma case_sumIO: "(case r of Inl e \<Rightarrow> f e | Inr x \<Rightarrow> g x) w = z \<longleftrightarrow> (\<exists>e. r = Inl e \<and> f e w = z) \<or> (\<exists>x. r = Inr x \<and> g x w = z)"
  by (cases r) auto

lemma guardIO: "(if b then failIO e else m) w = Some (Inr y, w') \<longleftrightarrow> \<not> b \<and> m w = Some (Inr y, w')"
  by (simp add: failIO_def)

lemma labelR_iff [io_iff]: "labelR pf label input r = Inr y \<longleftrightarrow> r = Inr y"
  by (auto simp: labelR_def split: sum.splits)

lemma from_strIO_iff [io_iff]: "from_strIO pf label text w = Some (Inr v, w') \<longleftrightarrow> pf_from_str pf text = Some v \<and> w' = w"
  by (auto simp: from_strIO_def liftIO_def split: option.splits)

lemma printIO_iff [io_iff]: "printIO text w = Some (Inr u, w') \<longleftrightarrow> w' = w\<lparr>w_stdout := w_stdout w @ text\<rparr>"
  by (auto simp: printIO_def)

lemma writeIO_iff [io_iff]:
  "writeIO pf what fpath text w = Some (Inr u, w') \<longleftrightarrow>
     w_writable w fpath \<and> w' = w\<lparr>w_files := (w_files w)(fpath := File (as_bytes text))\<rparr>"
  by (auto simp: writeIO_def)

text \<open>Reading changes at most the standard input, and an error ends a read the same way as a value does.\<close>

definition reads_only :: "'a io \<Rightarrow> bool" where
  "reads_only m \<longleftrightarrow> (\<forall>w r w'. m w = Some (r, w') \<longrightarrow> w' = w\<lparr>w_stdin := w_stdin w'\<rparr>) \<and> (\<forall>w. m w \<noteq> None)"

lemma reads_only_lift: "reads_only (liftIO r)" "reads_only (retIO x)" "reads_only (failIO e)" "reads_only (from_strIO pf label text)"
  by (simp_all add: reads_only_def liftIO_def retIO_def failIO_def from_strIO_def)

lemma reads_only_bind:
  assumes "reads_only m" "\<And>x. reads_only (f x)"
  shows "reads_only (bindIO m f)"
proof -
  have frame: "w' = w\<lparr>w_stdin := w_stdin w'\<rparr>" if run: "bindIO m f w = Some (r, w')" for w r w'
  proof (cases "m w")
    case None
    with run show ?thesis by (simp add: bindIO_def)
  next
    case (Some a)
    obtain r1 w1 where a: "m w = Some (r1, w1)" using Some by (cases a) simp
    then have w1: "w1 = w\<lparr>w_stdin := w_stdin w1\<rparr>" using assms(1) by (simp add: reads_only_def)
    show ?thesis
    proof (cases r1)
      case (Inl e)
      with run a w1 show ?thesis by (simp add: bindIO_def)
    next
      case (Inr x)
      with run a have "f x w1 = Some (r, w')" by (simp add: bindIO_def)
      then have "w' = w1\<lparr>w_stdin := w_stdin w'\<rparr>" using assms(2) by (simp add: reads_only_def)
      with w1 show ?thesis by (metis world.surjective world.update_convs(1))
    qed
  qed
  moreover have "bindIO m f w \<noteq> None" for w
    using assms by (auto simp: bindIO_def reads_only_def split: option.splits sum.splits)
  ultimately show ?thesis by (simp add: reads_only_def)
qed

lemma reads_only_text: "reads_only (read_input_text pf fpath)"
proof -
  have "reads_only (read_stdin_text pf)"
    by (auto simp: reads_only_def read_stdin_text_def Let_def split: option.splits if_splits)
  moreover have "reads_only (read_input_file pf fpath)"
    by (auto simp: reads_only_def read_input_file_def Let_def split: file_state.splits if_splits)
  ultimately show ?thesis
    by (auto simp: read_input_text_def intro!: reads_only_bind reads_only_lift)
qed

lemma reads_only_map: "(\<And>x. reads_only (f x)) \<Longrightarrow> reads_only (mapIO f xs)"
  by (induction xs) (auto intro!: reads_only_bind reads_only_lift)

lemma reads_only_loaders: "reads_only (load_proof pf fpath)" "reads_only (load_status pf fpath)"
  unfolding load_proof_def load_status_def read_json_def
  by (auto intro!: reads_only_bind reads_only_lift reads_only_text)

text \<open>Reading a file does not change the world, and standard input cannot be read twice.\<close>

lemma read_file_again:
  assumes "fpath \<noteq> ''-''" "read_input_text pf fpath w = Some (r, w1)"
  shows "w1 = w"
  using assms by (auto simp: read_input_text_def read_input_file_def bindIO_def retIO_def Let_def split: file_state.splits if_splits sum.splits)

definition stdin_fits :: "string \<Rightarrow> world \<Rightarrow> bool" where
  "stdin_fits fpath w \<longleftrightarrow> fpath \<noteq> ''-'' \<or> (case w_stdin w of None \<Rightarrow> True | Some s \<Rightarrow> length s \<le> MAX_INPUT_FILE_BYTES)"

lemma read_stdin_again:
  assumes "stdin_fits ''-'' w" "read_input_text pf ''-'' w = Some (r, w1)" "read_input_text pf ''-'' w1 = Some (Inr (text, label), w2)"
  shows "text = []"
proof (cases "w_stdin w")
  case None
  then have "w1 = w" using assms(2) by (auto simp: read_input_text_def read_stdin_text_def bindIO_def retIO_def)
  with None assms(3) show ?thesis by (simp add: read_input_text_def read_stdin_text_def bindIO_def)
next
  case (Some s)
  then have "length s \<le> MAX_INPUT_FILE_BYTES" using assms(1) by (simp add: stdin_fits_def)
  then have "w_stdin w1 = Some []"
    using assms(2) Some by (auto simp: read_input_text_def read_stdin_text_def bindIO_def retIO_def Let_def split: if_splits)
  with assms(3) show ?thesis
    by (auto simp: read_input_text_def read_stdin_text_def bindIO_def retIO_def Let_def str_of_bytes_def)
qed

end
