(* ===== verification/Cli_Commands.thy ===== *)
theory Cli_Commands
  imports Cli_Io
begin

text \<open>
  The verification side of \<^verbatim>\<open>proof-cli\<close>: the verdicts and synthetic reports of \<^verbatim>\<open>check.rs\<close>, the replay
  guardrail of \<^verbatim>\<open>seen.rs\<close>, and the commands \<^verbatim>\<open>verify\<close>, \<^verbatim>\<open>batch-verify\<close>, \<^verbatim>\<open>evaluate\<close> and \<^verbatim>\<open>explain\<close> of
  \<^verbatim>\<open>make.rs\<close>, with their exit codes. Notes on standard error and human summaries are left out; what
  \<^verbatim>\<open>evaluate\<close> and \<^verbatim>\<open>batch-verify\<close> print is an arbitrary text of what it renders.
\<close>

section \<open>Verdicts\<close>

definition EXIT_OK :: int where "EXIT_OK = 0"

definition EXIT_FAIL :: int where "EXIT_FAIL = 1"

definition EXIT_ERR :: int where "EXIT_ERR = 2"

lemmas exit_codes = EXIT_OK_def EXIT_FAIL_def EXIT_ERR_def

definition is_currently_acceptable :: "verify_report \<Rightarrow> bool" where
  "is_currently_acceptable report =
     (if list_ex (\<lambda>l. lcr_status l = LSuperseded \<or> lcr_status l = LUnknown) (rep_lifecycle report) then False
      else if list_ex (\<lambda>x. esr_status x = ESuperseded \<or> esr_status x = EUnknown \<and> esr_hint_unverified x) (rep_evidence_status report)
      then False
      else True)"

definition verdict_exit :: "verify_report \<Rightarrow> int" where
  "verdict_exit report = (if passed_crypto report \<and> rep_evidence_validity report = Valid then EXIT_OK else EXIT_FAIL)"

datatype verdict_kind = ValidVerdict | HistoricalVerdict | InvalidVerdict

definition verdict_kind_of :: "verify_report \<Rightarrow> verdict_kind" where
  "verdict_kind_of report =
     (if \<not> (passed_crypto report \<and> rep_evidence_validity report = Valid) then InvalidVerdict
      else if is_currently_acceptable report then ValidVerdict
      else HistoricalVerdict)"

text \<open>The reports for inputs that never reach the pipeline; they differ in the id and the one failure.\<close>

definition refusal_report :: "string option \<Rightarrow> check_record \<Rightarrow> check_record \<Rightarrow> verify_report" where
  "refusal_report pid failure note =
     \<lparr>rep_proof_id = pid, rep_cryptographic_validity = Invalid, rep_evidence_validity = Invalid,
      rep_policy_decision = Indeterminate, rep_lifecycle_checked = False, rep_lifecycle = [], rep_status_objects = [],
      rep_withdrawn_ids = [], rep_referenced_proofs = [], rep_vocabularies = [], rep_evidence_status = [],
      rep_conflicts = [], rep_checks = [failure, note], rep_status_inputs_valid = True\<rparr>"

definition malformed_report :: "string \<Rightarrow> error_code \<Rightarrow> verify_report" where
  "malformed_report stage code =
     refusal_report None (check_fail stage ''proof:bytes'' code) (check_note ''POLICY'' ''proof:bytes'')"

definition envelope_kind_mismatch_report :: verify_report where
  "envelope_kind_mismatch_report =
     refusal_report None (check_fail ''SCHEMA'' ''proof:bytes'' SchemaViolation) (check_note ''POLICY'' ''proof:bytes'')"

definition envelope_mismatch_report :: "string \<Rightarrow> string \<Rightarrow> verify_report" where
  "envelope_mismatch_report claimed actual =
     refusal_report (Some actual) (check_fail ''IDENTIFIERS'' (''proof:'' @ claimed) IdMismatch)
       (check_note ''POLICY'' (''proof:'' @ actual))"

section \<open>Reading error texts\<close>

text \<open>\<^verbatim>\<open>str::contains\<close> and \<^verbatim>\<open>str::find\<close> with what is before and after the first occurrence.\<close>

fun split_text :: "string \<Rightarrow> string \<Rightarrow> (string \<times> string) option" where
  "split_text t [] = (if t = [] then Some ([], []) else None)"
| "split_text t (c # s) =
     (case strip_prefix t (c # s) of
        Some r \<Rightarrow> Some ([], r)
      | None \<Rightarrow> map_option (\<lambda>(a, b). (c # a, b)) (split_text t s))"

definition contains_text :: "string \<Rightarrow> string \<Rightarrow> bool" where
  "contains_text s t \<longleftrightarrow> split_text t s \<noteq> None"

definition trim_end_chars :: "char set \<Rightarrow> string \<Rightarrow> string" where
  "trim_end_chars cs s = rev (dropWhile (\<lambda>c. c \<in> cs) (rev s))"

text \<open>\<^verbatim>\<open>split_whitespace().next()\<close>.\<close>

fun up_to_whitespace :: "string \<Rightarrow> string" where
  "up_to_whitespace [] = []"
| "up_to_whitespace (c # s) = (if ws_prefix (c # s) \<noteq> None then [] else c # up_to_whitespace s)"

definition first_word :: "string \<Rightarrow> string option" where
  "first_word s = (case trim_start s of [] \<Rightarrow> None | r \<Rightarrow> Some (up_to_whitespace r))"

definition parse_envelope_mismatch :: "string \<Rightarrow> (string \<times> string) option" where
  "parse_envelope_mismatch msg =
     Option.bind (split_text ''wrapper says '' msg) (\<lambda>(_, from_start).
     Option.bind (split_text '', bytes bind '' from_start) (\<lambda>(claimed, rest).
     Option.bind (first_word (trim_end_chars {CHR '')'', CHR 0x0A, CHR '' ''} rest)) (\<lambda>word.
     Some (str_trim claimed, trim_end_chars {CHR '')''} word))))"

section \<open>The replay guardrail\<close>

definition seen_key :: "string \<Rightarrow> string \<Rightarrow> string" where
  "seen_key ctx pid = ctx @ ''::'' @ pid"

text \<open>The members of the store as the sorted list that \<^verbatim>\<open>BTreeSet\<close> iterates over.\<close>

definition seen_entries :: "string \<Rightarrow> json \<Rightarrow> string + string list" where
  "seen_entries store v =
     (case json_get v ''seen'' of
        Some (JArray xs) \<Rightarrow>
          bindR (mapR (\<lambda>x. ok_or (json_str x) (''seen-store '' @ store @ '': `seen` must be strings'')) xs)
            (\<lambda>ss. Inr (sort (remdups ss)))
      | _ \<Rightarrow> Inl (''seen-store '' @ store @ '': missing `seen` string array''))"

definition load_seen :: "platform \<Rightarrow> string \<Rightarrow> string list io" where
  "load_seen pf store w =
     (case w_files w store of
        NoFile \<Rightarrow> Some (Inr [], w)
      | Unreadable \<Rightarrow> Some (Inl (''seen-store read '' @ store @ '': '' @ pf_io_text pf store), w)
      | File content \<Rightarrow>
          (if \<not> valid_utf8 content then Some (Inl (''seen-store read '' @ store @ '': '' @ pf_io_text pf store), w)
           else liftIO
             (case pf_from_str pf (str_of_bytes content) of
                None \<Rightarrow> Inl (''seen-store parse '' @ store @ '': '' @ pf_json_text pf (str_of_bytes content))
              | Some v \<Rightarrow> seen_entries store v) w))"

definition seen_doc :: "string list \<Rightarrow> json" where
  "seen_doc seen = JObject [(''seen'', JArray (map JString seen))]"

definition gate :: "platform \<Rightarrow> seen_request \<Rightarrow> string \<Rightarrow> bool io" where
  "gate pf req pid =
     bindIO (load_seen pf (sq_store req)) (\<lambda>seen.
     let k = seen_key (sq_context req) pid
     in if k \<in> set seen then retIO True
        else if sq_record req
        then bindIO (writeIO pf ''seen-store write '' (sq_store req)
               (pf_to_string_pretty pf (seen_doc (insort_insert k seen)) @ NEWLINE))
               (\<lambda>_. retIO False)
        else retIO False)"

section \<open>Verify\<close>

definition cli_ctx :: "cli \<Rightarrow> common_inputs \<Rightarrow> verifier_policy \<Rightarrow> signed_status list \<Rightarrow> verify_ctx" where
  "cli_ctx c ci vp statuses = VerifyCtx_default\<lparr>
     ctx_verified_at := ci_verified_at ci,
     ctx_clock_skew_leeway := ci_skew ci,
     ctx_trusted_issuers := cli_many c ''trusted'',
     ctx_status_objects := statuses,
     ctx_revocation_authorities := cli_many c ''authority'',
     ctx_revocations_known_at := ci_revocations_known_at ci,
     ctx_allowed_algs := vp_allowed_algs vp,
     ctx_report_all_failures := vp_report_all_failures vp,
     ctx_accepted_vocabularies := vp_accepted_vocabularies vp,
     ctx_extra_grounded := vp_extra_grounded vp,
     ctx_require_acyclic_provenance := vp_require_acyclic_provenance vp,
     ctx_require_status_feed := vp_require_status_feed vp\<rparr>"

definition pf_verify :: "platform \<Rightarrow> bytes \<Rightarrow> verify_ctx \<Rightarrow> verify_report result option" where
  "pf_verify pf bs ctx = verify_proof (pf_b64 pf) (pf_hash pf) (pf_sig pf) (pf_iter pf) bs ctx"

text \<open>A call of the libraries under \<^verbatim>\<open>map_err(|e| format!("what: {e}"))\<close>.\<close>

definition engineIO :: "platform \<Rightarrow> string \<Rightarrow> bytes \<Rightarrow> 'a result option \<Rightarrow> 'a io" where
  "engineIO pf what input r w = map_option (\<lambda>x. (labelR pf what input x, w)) r"

definition strict_mode :: "cli \<Rightarrow> bool" where
  "strict_mode c \<longleftrightarrow> cli_has c ''strict-current'' \<or> cli_has c ''production''"

definition verify_fallback ::
  "platform \<Rightarrow> cli \<Rightarrow> (signed_status list \<Rightarrow> verify_ctx) \<Rightarrow> string \<Rightarrow> string \<Rightarrow> int io" where
  "verify_fallback pf c build_ctx fpath e =
     (if contains_text e ''envelope id mismatch''
      then let (claimed, actual) = (case parse_envelope_mismatch e of None \<Rightarrow> (''?'', ''?'') | Some x \<Rightarrow> x)
           in bindIO (emit_report pf (envelope_mismatch_report claimed actual) (cli_opt c ''out'')) (\<lambda>_. retIO EXIT_FAIL)
      else if contains_text e ''envelope kind mismatch''
      then bindIO (emit_report pf envelope_kind_mismatch_report (cli_opt c ''out'')) (\<lambda>_. retIO EXIT_FAIL)
      else if contains_text e ''wrapper has unknown field'' \<or> contains_text e ''wrapper must be a JSON object''
        \<or> contains_text e ''wrapper `kind` must be a string''
      then failIO e
      else
        bindIO (tryIO (load_proof_bytes_raw pf fpath)) (\<lambda>raw.
        case raw of
          Inl _ \<Rightarrow> failIO e
        | Inr bs \<Rightarrow>
            bindIO (mapOkIO (load_status pf) (cli_many c ''status'')) (\<lambda>statuses.
            bindIO (tryIO (engineIO pf ''verify'' bs (pf_verify pf bs (build_ctx statuses)))) (\<lambda>r.
            case r of
              Inr report \<Rightarrow> bindIO (emit_report pf report (cli_opt c ''out'')) (\<lambda>_. retIO (verdict_exit report))
            | Inl _ \<Rightarrow> bindIO (emit_report pf (malformed_report ''PARSE'' Malformed) (cli_opt c ''out'')) (\<lambda>_. retIO EXIT_FAIL)))))"

definition verify_loaded ::
  "platform \<Rightarrow> cli \<Rightarrow> (signed_status list \<Rightarrow> verify_ctx) \<Rightarrow> seen_request option \<Rightarrow> loaded_proof \<Rightarrow> int io" where
  "verify_loaded pf c build_ctx seen_req lp =
     bindIO (mapIO (load_status pf) (cli_many c ''status'')) (\<lambda>statuses.
     bindIO (engineIO pf ''verify'' (lp_canonical lp) (pf_verify pf (lp_canonical lp) (build_ctx statuses))) (\<lambda>report.
     bindIO (emit_report pf report (cli_opt c ''out'')) (\<lambda>_.
     if strict_mode c \<and> \<not> is_currently_acceptable report then retIO EXIT_FAIL
     else let base = verdict_exit report
          in if base \<noteq> EXIT_OK then retIO base
             else case seen_req of
                 None \<Rightarrow> retIO base
               | Some req \<Rightarrow>
                   bindIO (gate pf req (prf_id (lp_proof lp))) (\<lambda>replay.
                   if replay then retIO EXIT_FAIL else retIO base))))"

definition verify_command :: "platform \<Rightarrow> cli \<Rightarrow> int io" where
  "verify_command pf c =
     bindIO (usageIO pf (common c)) (\<lambda>ci.
     bindIO (usageIO pf (verifier_policy_of c)) (\<lambda>vp.
     bindIO (usageIO pf (seen_request_of c)) (\<lambda>seen_req.
     bindIO (usageIO pf (proof_path c)) (\<lambda>fpath.
     bindIO (tryIO (load_proof pf fpath)) (\<lambda>loaded.
     case loaded of
       Inl e \<Rightarrow> verify_fallback pf c (cli_ctx c ci vp) fpath e
     | Inr lp \<Rightarrow> verify_loaded pf c (cli_ctx c ci vp) seen_req lp)))))"

section \<open>Batches\<close>

definition max_batch_of :: "cli \<Rightarrow> usage_error + nat" where
  "max_batch_of c =
     (case cli_opt c ''max-batch'' of
        None \<Rightarrow> Inr 256
      | Some v \<Rightarrow> bindR (ok_or (parse_u64 v) (NotU64 ''max-batch'')) (\<lambda>n. Inr (unat n)))"

definition currency_failures :: "cli \<Rightarrow> batch_report \<Rightarrow> batch_member list" where
  "currency_failures c rep =
     filter (\<lambda>m. strict_mode c \<and> passed_crypto (bm_report m) \<and> rep_evidence_validity (bm_report m) = Valid
       \<and> \<not> is_currently_acceptable (bm_report m)) (br_members rep)"

definition batch_verify_command :: "platform \<Rightarrow> (nat \<Rightarrow> bool \<Rightarrow> batch_report \<Rightarrow> string) \<Rightarrow> cli \<Rightarrow> int io" where
  "batch_verify_command pf batch_text c =
     bindIO (usageIO pf (input_list c ''proofs'')) (\<lambda>paths.
     if paths = [] then failIO ''batch-verify: missing --proofs a.json,b.json''
     else
     bindIO (usageIO pf (common c)) (\<lambda>ci.
     bindIO (mapIO (load_status pf) (cli_many c ''status'')) (\<lambda>statuses.
     bindIO (usageIO pf (max_batch_of c)) (\<lambda>max_batch.
     bindIO (mapIO (\<lambda>fpath. bindIO (load_proof pf fpath) (\<lambda>lp. retIO (lp_canonical lp))) paths) (\<lambda>canonicals.
     bindIO (usageIO pf (verifier_policy_of c)) (\<lambda>vp.
     bindIO (engineIO pf ''batch-verify'' (concat canonicals)
         (verify_batch (pf_b64 pf) (pf_hash pf) (pf_sig pf) (pf_iter pf) canonicals (cli_ctx c ci vp statuses) max_batch)) (\<lambda>rep.
     let text = batch_text (length paths) (strict_mode c) rep
     in bindIO (case cli_opt c ''out'' of
            None \<Rightarrow> printlnIO text
          | Some fpath \<Rightarrow> if fpath = ''-'' then printlnIO text else writeIO pf ''write '' fpath (text @ NEWLINE)) (\<lambda>_.
        if strict_mode c \<and> 0 < length (currency_failures c rep) then retIO EXIT_FAIL
        else retIO (if batch_all_valid rep then EXIT_OK else EXIT_FAIL)))))))))"

section \<open>Evaluate and explain\<close>

definition read_policy :: "platform \<Rightarrow> string \<Rightarrow> policy io" where
  "read_policy pf fpath =
     bindIO (tryIO (read_input_file pf fpath)) (\<lambda>r.
     case r of
       Inl e \<Rightarrow> failIO (''read policy: '' @ e)
     | Inr text \<Rightarrow>
         if contains_text text ''REPLACE_WITH'' then failIO (fpath @ '': still contains a REPLACE_WITH placeholder; replace only the suffix after `key:ed25519:` with your issuer's key id (e.g. `key:ed25519:<id-from-attest>`), keeping the `key:ed25519:` prefix exactly once'')
         else
           bindIO (from_strIO pf ''policy'' text) (\<lambda>v.
           liftIO (labelR pf ''policy'' (as_bytes text) (parse_policy (pf_b64 pf) v limits_of_cli))))"

text \<open>What is printed depends on the mode, the policy, the report and the outcome.\<close>

type_synonym outcome_text = "bool \<Rightarrow> cli \<Rightarrow> policy \<Rightarrow> verify_report \<Rightarrow> policy_outcome \<Rightarrow> string"

definition finish_evaluation :: "platform \<Rightarrow> cli \<Rightarrow> bool \<Rightarrow> seen_request option \<Rightarrow> string \<Rightarrow> verify_report \<Rightarrow> policy_outcome \<Rightarrow> int io" where
  "finish_evaluation pf c explain seen_req pid report outcome =
     (if strict_mode c \<and> \<not> is_currently_acceptable report then retIO EXIT_FAIL
      else
        let verdict = (case out_decision outcome of Pass \<Rightarrow> EXIT_OK | Fail \<Rightarrow> EXIT_FAIL | Indeterminate \<Rightarrow> EXIT_FAIL)
        in if out_decision outcome = Pass
           then case seen_req of
               None \<Rightarrow> retIO verdict
             | Some req \<Rightarrow>
                 bindIO (gate pf req pid) (\<lambda>replay.
                 if replay
                 then bindIO (if \<not> explain \<and> \<not> cli_has c ''json''
                         then printlnIO ''  note: --seen-store: replay detected -> FAIL (decision above stands; the reuse, not the proof, is refused)''
                         else retIO ())
                       (\<lambda>_. retIO EXIT_FAIL)
                 else retIO verdict)
           else retIO verdict)"

definition evaluate_command :: "platform \<Rightarrow> outcome_text \<Rightarrow> cli \<Rightarrow> bool \<Rightarrow> int io" where
  "evaluate_command pf render c explain =
     bindIO (usageIO pf (proof_path c)) (\<lambda>fpath.
     bindIO (load_proof pf fpath) (\<lambda>lp.
     bindIO (usageIO pf (common c)) (\<lambda>ci.
     bindIO (usageIO pf (seen_request_of c)) (\<lambda>seen_req.
     bindIO (usageIO pf (cli_req c ''policy'')) (\<lambda>policy_path.
     bindIO (read_policy pf policy_path) (\<lambda>policy.
     bindIO (mapIO (load_status pf) (cli_many c ''status'')) (\<lambda>statuses.
     bindIO (usageIO pf (verifier_policy_of c)) (\<lambda>vp.
     bindIO (engineIO pf ''verify'' (lp_canonical lp) (pf_verify pf (lp_canonical lp) (cli_ctx c ci vp statuses))) (\<lambda>report.
     bindIO (liftIO (labelR pf ''state'' (lp_canonical lp)
         (state_from_report_and_proof (pf_b64 pf) (pf_hash pf) report (lp_proof lp)))) (\<lambda>state.
     bindIO (\<lambda>w. map_option (\<lambda>outcome. (Inr outcome, w)) (evaluate_policy state policy (eval_inputs_of c ci))) (\<lambda>outcome.
     bindIO (case cli_opt c ''out'' of None \<Rightarrow> retIO () | Some out \<Rightarrow> emit_report pf report (Some out)) (\<lambda>_.
     bindIO (printIO (render explain c policy report outcome)) (\<lambda>_.
     finish_evaluation pf c explain seen_req (prf_id (lp_proof lp)) report outcome)))))))))))))"

section \<open>When verify accepts\<close>

lemma engineIO_iff [io_iff]: "engineIO pf what input r w = Some (Inr y, w') \<longleftrightarrow> r = Some (Inr y) \<and> w' = w"
  by (cases r) (auto simp: engineIO_def labelR_def split: sum.splits)

lemma split_text_Some: "split_text t s = Some (a, b) \<Longrightarrow> s = a @ t @ b"
  by (induction t s arbitrary: a b rule: split_text.induct) (auto simp: strip_prefix_eq_Some split: option.splits if_splits)

lemma split_text_append: "split_text t (a @ t @ b) \<noteq> None"
proof (induction a)
  case Nil
  show ?case by (cases "t @ b") (auto simp del: split_paired_Ex simp: strip_prefix_append [of t b] split: option.splits dest: sym)
next
  case (Cons c a)
  then show ?case by (auto split: option.splits)
qed

lemma contains_text_iff: "contains_text s t \<longleftrightarrow> (\<exists>a b. s = a @ t @ b)"
  using split_text_append by (fastforce simp: contains_text_def dest: split_text_Some)

lemma contains_label: "contains_text s t \<Longrightarrow> contains_text (label @ s) t"
  unfolding contains_text_iff by (metis append.assoc)

lemma contains_Cons: "contains_text (c # s) t \<longleftrightarrow> starts_with (c # s) t \<or> contains_text s t"
  by (auto simp: contains_text_def starts_with_def split: option.splits)

text \<open>
  An error of the loader is one of the wrapper errors that \<^verbatim>\<open>verify\<close> tells apart by their texts, or the
  wrapper has no readable bytes, or the bytes do not parse.
\<close>

lemma unwrap_proof_error:
  assumes "unwrap_proof pf label v = Inl e"
    and "bindR (req_str v label ''cbor'') (hexR pf label) = Inr bs"
  shows "list_ex (contains_text e) [''envelope id mismatch'', ''envelope kind mismatch'', ''wrapper has unknown field'',
      ''wrapper must be a JSON object'', ''wrapper `kind` must be a string'']
    \<or> (\<exists>code. parse_proof (pf_b64 pf) bs limits_of_cli = Inl code)"
proof -
  have unknown: "contains_text x ''wrapper has unknown field'' \<or> contains_text x ''wrapper must be a JSON object''"
    if "reject_unknown_wrapper_fields v label PROOF_WRAPPER_ALLOWED = Inl x" for x
    using that by (cases v) (auto simp: reject_unknown_wrapper_fields_def contains_label contains_Cons starts_with_def split: list.splits) 
  have kind: "contains_text x ''envelope kind mismatch'' \<or> contains_text x ''wrapper `kind` must be a string''"
    if "check_wrapper_kind v label = Inl x" for x
    using that by (auto simp: check_wrapper_kind_def contains_label contains_Cons starts_with_def split: option.splits if_splits)
  have wrapper_id: "contains_text x ''envelope id mismatch''" if "check_wrapper_id v label p = Inl x" for x p
    using that by (auto simp: check_wrapper_id_def contains_label contains_Cons starts_with_def split: option.splits if_splits)
  obtain hex where hex: "req_str v label ''cbor'' = Inr hex" "hexR pf label hex = Inr bs"
    using assms(2) by (auto simp: bindR_Inr_iff)
  show ?thesis
    using assms(1) unknown kind wrapper_id
    by (auto simp: unwrap_proof_def hex bindR_Inl_iff parse_proof_def labelR_def split: sum.splits)
qed

lemma raw_bytes_do_not_parse:
  assumes "load_proof pf fpath w = Some (Inl e, w1)" "stdin_fits fpath w" "pf_from_str pf [] = None"
    and "load_proof_bytes_raw pf fpath w1 = Some (Inr bs, w2)"
  shows "list_ex (contains_text e) [''envelope id mismatch'', ''envelope kind mismatch'', ''wrapper has unknown field'',
      ''wrapper must be a JSON object'', ''wrapper `kind` must be a string'']
    \<or> (\<exists>code. parse_proof (pf_b64 pf) bs limits_of_cli = Inl code)"
proof -
  obtain body label v where raw: "read_input_text pf fpath w1 = Some (Inr (body, label), w2)" "pf_from_str pf body = Some v"
      "bindR (req_str v label ''cbor'') (hexR pf label) = Inr bs"
    using assms(4) by (auto simp: load_proof_bytes_raw_def io_iff)
  obtain r w0 where first: "read_input_text pf fpath w = Some (r, w0)"
    using assms(1) by (auto simp: load_proof_def bindIO_def split: option.splits)
  have "w1 = w0"
    using assms(1) first by (auto simp: load_proof_def bindIO_def from_strIO_def liftIO_def split: sum.splits option.splits)
  have "fpath \<noteq> ''-''"
    using read_stdin_again [of w pf r w0] assms(2,3) raw(1,2) first \<open>w1 = w0\<close> by fastforce
  then have "w0 = w" using read_file_again first by blast
  then have "unwrap_proof pf label v = Inl e"
    using assms(1) raw(1,2) first \<open>w1 = w0\<close> by (simp add: load_proof_def bindIO_def from_strIO_def liftIO_def)
  then show ?thesis using unwrap_proof_error raw(3) by blast
qed

lemma fallback_refuses:
  assumes "load_proof pf fpath w = Some (Inl e, w1)" "stdin_fits fpath w" "pf_from_str pf [] = None" "hash_iter (pf_iter pf)"
    and limits: "\<And>statuses. ctx_limits (build_ctx statuses) = limits_of_cli"
  shows "verify_fallback pf c build_ctx fpath e w1 \<noteq> Some (Inr EXIT_OK, w')"
proof
  assume run: "verify_fallback pf c build_ctx fpath e w1 = Some (Inr EXIT_OK, w')"
  have fail: "EXIT_OK \<noteq> EXIT_FAIL" by (simp add: exit_codes)
  from run fail have "\<not> list_ex (contains_text e) [''envelope id mismatch'', ''envelope kind mismatch'', ''wrapper has unknown field'',
      ''wrapper must be a JSON object'', ''wrapper `kind` must be a string'']"
    by (auto simp: verify_fallback_def io_iff split: prod.splits if_splits)
  moreover from this run fail obtain bs w2 statuses w3 report where
      bs: "load_proof_bytes_raw pf fpath w1 = Some (Inr bs, w2)"
      and report: "pf_verify pf bs (build_ctx statuses) = Some (Inr report)" "verdict_exit report = EXIT_OK"
    by (auto simp: verify_fallback_def io_iff case_sumIO)
  ultimately obtain code where "parse_proof (pf_b64 pf) bs limits_of_cli = Inl code"
    using raw_bytes_do_not_parse [OF assms(1-3)] by blast
  then have "rep_cryptographic_validity report = Invalid"
    using verify_proof_Inr(3) [OF assms(4)] report(1) limits unfolding pf_verify_def by metis
  then show False using report(2) fail by (simp add: verdict_exit_def passed_crypto_def split: if_splits)
qed

lemma cli_ctx_limits [simp]: "ctx_limits (cli_ctx c ci vp statuses) = limits_of_cli"
  by (simp add: cli_ctx_def VerifyCtx_default_def limits_of_cli_def)

lemma verdict_exit_iff: "verdict_exit report = EXIT_OK \<longleftrightarrow> rep_cryptographic_validity report = Valid \<and> rep_evidence_validity report = Valid"
  by (simp add: verdict_exit_def passed_crypto_def exit_codes)

text \<open>What the replay guardrail lets through.\<close>

definition not_replayed :: "platform \<Rightarrow> seen_request option \<Rightarrow> string \<Rightarrow> world \<Rightarrow> world \<Rightarrow> bool" where
  "not_replayed pf seen_req pid w w' \<longleftrightarrow>
     (case seen_req of None \<Rightarrow> w' = w | Some req \<Rightarrow> gate pf req pid w = Some (Inr False, w'))"

lemma verify_loaded_iff:
  "verify_loaded pf c build_ctx seen_req lp w = Some (Inr EXIT_OK, w') \<longleftrightarrow>
     (\<exists>statuses w2 report w3.
        mapIO (load_status pf) (cli_many c ''status'') w = Some (Inr statuses, w2)
      \<and> pf_verify pf (lp_canonical lp) (build_ctx statuses) = Some (Inr report)
      \<and> rep_cryptographic_validity report = Valid \<and> rep_evidence_validity report = Valid
      \<and> (strict_mode c \<longrightarrow> is_currently_acceptable report)
      \<and> emit_report pf report (cli_opt c ''out'') w2 = Some (Inr (), w3)
      \<and> not_replayed pf seen_req (prf_id (lp_proof lp)) w3 w')"
proof -
  have tail: "(if strict_mode c \<and> \<not> is_currently_acceptable report then retIO EXIT_FAIL
       else let base = verdict_exit report
            in if base \<noteq> EXIT_OK then retIO base
               else case seen_req of
                   None \<Rightarrow> retIO base
                 | Some req \<Rightarrow>
                     bindIO (gate pf req (prf_id (lp_proof lp))) (\<lambda>replay.
                     if replay then retIO EXIT_FAIL else retIO base)) w3 = Some (Inr EXIT_OK, w') \<longleftrightarrow>
      rep_cryptographic_validity report = Valid \<and> rep_evidence_validity report = Valid
      \<and> (strict_mode c \<longrightarrow> is_currently_acceptable report) \<and> not_replayed pf seen_req (prf_id (lp_proof lp)) w3 w'" for report w3
    using verdict_exit_iff [of report]
    by (auto simp: not_replayed_def io_iff exit_codes Let_def split: option.splits if_splits)
  show ?thesis unfolding verify_loaded_def io_iff tail by auto
qed

lemma verify_command_iff:
  assumes "hash_iter (pf_iter pf)" "pf_from_str pf [] = None" "proof_path c = Inr fpath" "stdin_fits fpath w"
  shows "verify_command pf c w = Some (Inr EXIT_OK, w') \<longleftrightarrow>
      (\<exists>ci vp seen_req lp w1. common c = Inr ci \<and> verifier_policy_of c = Inr vp \<and> seen_request_of c = Inr seen_req
        \<and> load_proof pf fpath w = Some (Inr lp, w1) \<and> verify_loaded pf c (cli_ctx c ci vp) seen_req lp w1 = Some (Inr EXIT_OK, w'))"
  using fallback_refuses [OF _ assms(4,2,1) cli_ctx_limits]
  by (auto simp: verify_command_def io_iff assms(3) case_sumIO)

text \<open>
  C26. With the proof in a file, or within the size cap on standard input, \<^verbatim>\<open>verify\<close> exits 0 exactly
  if its flags are well formed, the wrapper loads, every status file loads, the pipeline reports the bytes
  cryptographically valid with valid evidence under exactly the flags' context, the report is currently acceptable
  if a strict mode was asked for, the report could be emitted, and the replay guardrail, if asked for, has not seen
  the proof id in its context. In particular the path that reports malformed inputs never accepts.
\<close>

theorem verify_exits_zero_iff:
  assumes "hash_iter (pf_iter pf)" "pf_from_str pf [] = None" "proof_path c = Inr fpath" "stdin_fits fpath w"
  shows "verify_command pf c w = Some (Inr EXIT_OK, w') \<longleftrightarrow>
     (\<exists>ci vp seen_req lp w1 statuses w2 report w3.
        common c = Inr ci \<and> verifier_policy_of c = Inr vp \<and> seen_request_of c = Inr seen_req
      \<and> load_proof pf fpath w = Some (Inr lp, w1)
      \<and> mapIO (load_status pf) (cli_many c ''status'') w1 = Some (Inr statuses, w2)
      \<and> verify_proof (pf_b64 pf) (pf_hash pf) (pf_sig pf) (pf_iter pf) (lp_canonical lp) (cli_ctx c ci vp statuses) = Some (Inr report)
      \<and> rep_cryptographic_validity report = Valid \<and> rep_evidence_validity report = Valid
      \<and> (strict_mode c \<longrightarrow> is_currently_acceptable report)
      \<and> emit_report pf report (cli_opt c ''out'') w2 = Some (Inr (), w3)
      \<and> not_replayed pf seen_req (prf_id (lp_proof lp)) w3 w')"
  unfolding verify_command_iff [OF assms] verify_loaded_iff pf_verify_def by blast

text \<open>
  C29. Standard input that is over the cap is not refused: the loader stops after one byte more than the cap, and
  the path that reports malformed inputs reads on from there. Whatever verifies behind that padding is accepted with
  exit 0, whether or not a strict mode or the replay guardrail was asked for.
\<close>

theorem oversized_stdin_skips_guardrails:
  assumes "proof_path c = Inr ''-''" "common c = Inr ci" "verifier_policy_of c = Inr vp" "seen_request_of c = Inr seen_req"
    and "cli_many c ''status'' = []" "cli_opt c ''out'' = None"
    and "w_stdin w = Some (padding @ rest)" "length padding = MAX_INPUT_FILE_BYTES + 1"
    and "load_proof_bytes_raw pf ''-'' (w\<lparr>w_stdin := Some rest\<rparr>) = Some (Inr bs, w1)"
    and "verify_proof (pf_b64 pf) (pf_hash pf) (pf_sig pf) (pf_iter pf) bs (cli_ctx c ci vp []) = Some (Inr report)"
    and "rep_cryptographic_validity report = Valid" "rep_evidence_validity report = Valid"
  shows "\<exists>w'. verify_command pf c w = Some (Inr EXIT_OK, w')"
proof -
  let ?e = "''stdin: input too large''"
  have load: "load_proof pf ''-'' w = Some (Inl ?e, w\<lparr>w_stdin := Some rest\<rparr>)"
    using assms(7,8) by (simp add: load_proof_def read_input_text_def read_stdin_text_def bindIO_def)
  have marks: "\<not> contains_text ?e ''envelope id mismatch''" "\<not> contains_text ?e ''envelope kind mismatch''"
    "\<not> contains_text ?e ''wrapper has unknown field''" "\<not> contains_text ?e ''wrapper must be a JSON object''"
    "\<not> contains_text ?e ''wrapper `kind` must be a string''"
    by (simp_all add: contains_text_def)
  have "verify_fallback pf c (cli_ctx c ci vp) ''-'' ?e (w\<lparr>w_stdin := Some rest\<rparr>) =
      Some (Inr EXIT_OK, w1\<lparr>w_stdout := w_stdout w1 @ pf_report_text pf report @ NEWLINE\<rparr>)"
    using assms(5,6,9-12) marks verdict_exit_iff [of report]
    by (simp add: verify_fallback_def bindIO_def tryIO_def retIO_def engineIO_def labelR_def pf_verify_def emit_report_def
        printlnIO_def printIO_def del: cli_ctx_limits)
  then show ?thesis
    using assms(1-4) load by (simp add: verify_command_def bindIO_def usageIO_def liftIO_def tryIO_def)
qed

lemma load_proof_parses:
  assumes "load_proof pf fpath w = Some (Inr lp, w1)"
  shows "parse_proof (pf_b64 pf) (lp_canonical lp) limits_of_cli = Inr (lp_proof lp)"
  using assms by (auto simp: load_proof_def unwrap_proof_def parse_proof_def io_iff result_iff)

section \<open>When evaluate accepts\<close>

text \<open>The flags as the context of the one-shot call.\<close>

definition cli_vc :: "cli \<Rightarrow> common_inputs \<Rightarrow> verifier_policy \<Rightarrow> signed_status list \<Rightarrow> verification_context" where
  "cli_vc c ci vp statuses =
     \<lparr>vc_verified_at = ci_verified_at ci, vc_clock_skew_leeway = ci_skew ci, vc_allowed_algs = vp_allowed_algs vp,
      vc_trusted_issuers = cli_many c ''trusted'', vc_revocation_authorities = cli_many c ''authority'',
      vc_status_objects = statuses, vc_revocations_known_at = ci_revocations_known_at ci, vc_limits = default_limits,
      vc_allow_remote = False, vc_report_all_failures = vp_report_all_failures vp,
      vc_accepted_vocabularies = vp_accepted_vocabularies vp, vc_extra_grounded = vp_extra_grounded vp,
      vc_require_acyclic_provenance = vp_require_acyclic_provenance vp, vc_require_status_feed = vp_require_status_feed vp\<rparr>"

lemma cli_vc_ctx: "to_verify_ctx (cli_vc c ci vp statuses) = cli_ctx c ci vp statuses"
  by (simp add: cli_vc_def cli_ctx_def to_verify_ctx_def VerifyCtx_default_def)

lemma one_shot_steps:
  assumes "parse_proof b64 bs (vc_limits vc) = Inr p" "card (rs_revoked revs) \<le> max_status_objects (vc_limits vc)"
  shows "verify_and_evaluate b64 h e iter bs vc policy revs = Some (Inr d) \<longleftrightarrow>
    verify_proof b64 h e iter bs (to_verify_ctx vc) = Some (Inr (vd_report d))
    \<and> state_from_report_and_proof b64 h (vd_report d) p = Inr (vd_state d)
    \<and> evaluate_policy (vd_state d) policy ((EvalInputs_from vc)\<lparr>in_revocations := revs\<rparr>) = Some (vd_outcome d)"
proof -
  have parse: "bindR (decode_strict bs (vc_limits vc)) (\<lambda>v. bindR (cbor_to_proof b64 v (vc_limits vc)) F) = F p"
    for F :: "proof_package \<Rightarrow> verified_state result"
    using assms(1) by (auto simp: parse_proof_def result_iff)
  have misuse: "ctx_misuse (to_verify_ctx vc) \<noteq> None" if "length (vc_trusted_issuers vc) > max_trusted_issuers (vc_limits vc)"
    using that by (simp add: ctx_misuse_def to_verify_ctx_def)
  show ?thesis
  proof (cases "length (vc_trusted_issuers vc) > max_trusted_issuers (vc_limits vc)")
    case True
    then show ?thesis using misuse by (auto simp: verify_and_evaluate_def verify_proof_def)
  next
    case False
    then have eq: "verify_and_evaluate b64 h e iter bs vc policy revs = Option.bind (verify_proof b64 h e iter bs (to_verify_ctx vc)) (\<lambda>r.
        case r of Inl code \<Rightarrow> Some (Inl code) | Inr report \<Rightarrow>
          (case state_from_report_and_proof b64 h report p of Inl code \<Rightarrow> Some (Inl code)
           | Inr st \<Rightarrow> map_option (\<lambda>outcome. Inr \<lparr>vd_report = report, vd_state = st, vd_outcome = outcome\<rparr>)
               (evaluate_policy st policy ((EvalInputs_from vc)\<lparr>in_revocations := revs\<rparr>))))"
      using assms(2) by (simp add: verify_and_evaluate_def parse not_less)
    show ?thesis
    proof (cases "\<exists>report. verify_proof b64 h e iter bs (to_verify_ctx vc) = Some (Inr report)")
      case True
      then obtain report where v: "verify_proof b64 h e iter bs (to_verify_ctx vc) = Some (Inr report)" by blast
      show ?thesis unfolding eq v by (cases d; cases "state_from_report_and_proof b64 h report p") auto
    next
      case False
      then show ?thesis unfolding eq by (auto simp: bind_eq_Some_conv split: sum.splits) 
    qed
  qed
qed

lemma finish_iff:
  "finish_evaluation pf c explain seen_req pid report outcome w = Some (Inr EXIT_OK, w') \<longleftrightarrow>
     out_decision outcome = Pass \<and> (strict_mode c \<longrightarrow> is_currently_acceptable report) \<and> not_replayed pf seen_req pid w w'"
  by (auto simp: finish_evaluation_def not_replayed_def io_iff exit_codes Let_def split: policy_decision.splits option.splits if_splits)

lemma evaluate_iff:
  "evaluate_command pf render c explain w = Some (Inr EXIT_OK, w') \<longleftrightarrow>
     (\<exists>fpath lp w1 ci seen_req policy_path policy w2 statuses w3 vp report state outcome w4.
        proof_path c = Inr fpath \<and> load_proof pf fpath w = Some (Inr lp, w1) \<and> common c = Inr ci \<and> seen_request_of c = Inr seen_req
      \<and> cli_opt c ''policy'' = Some policy_path \<and> read_policy pf policy_path w1 = Some (Inr policy, w2)
      \<and> mapIO (load_status pf) (cli_many c ''status'') w2 = Some (Inr statuses, w3) \<and> verifier_policy_of c = Inr vp
      \<and> verify_proof (pf_b64 pf) (pf_hash pf) (pf_sig pf) (pf_iter pf) (lp_canonical lp) (cli_ctx c ci vp statuses) = Some (Inr report)
      \<and> state_from_report_and_proof (pf_b64 pf) (pf_hash pf) report (lp_proof lp) = Inr state
      \<and> evaluate_policy state policy (eval_inputs_of c ci) = Some outcome
      \<and> (case cli_opt c ''out'' of None \<Rightarrow> w4 = w3 | Some out \<Rightarrow> emit_report pf report (Some out) w3 = Some (Inr (), w4))
      \<and> out_decision outcome = Pass \<and> (strict_mode c \<longrightarrow> is_currently_acceptable report)
      \<and> not_replayed pf seen_req (prf_id (lp_proof lp)) (w4\<lparr>w_stdout := w_stdout w4 @ render explain c policy report outcome\<rparr>) w')"
proof -
  have value_run: "(\<lambda>w. map_option (\<lambda>x. (Inr x, w)) m) w = Some (Inr y, w'') \<longleftrightarrow> m = Some y \<and> w'' = w" for m :: "policy_outcome option" and w y w''
    by auto
  have out: "(case out of None \<Rightarrow> retIO () | Some out \<Rightarrow> emit_report pf report (Some out)) w = Some (Inr u, w'') \<longleftrightarrow>
      (case out of None \<Rightarrow> w'' = w | Some out \<Rightarrow> emit_report pf report (Some out) w = Some (Inr (), w''))" for out report u w w''
    by (cases out) (simp_all add: retIO_iff)
  show ?thesis
    unfolding evaluate_command_def io_iff value_run out finish_iff pf_verify_def cli_req_def cli_opt_def result_iff by auto
qed

text \<open>
  C27. \<^verbatim>\<open>evaluate\<close> and \<^verbatim>\<open>explain\<close> exit 0 exactly if everything loads, the one-shot verification of the library
  under the flags' context and with an empty denylist decides PASS, the report is currently acceptable if a strict mode
  was asked for, the report could be emitted, and the replay guardrail has not seen the proof id in its context.
\<close>

theorem evaluate_exits_zero_iff:
  assumes "Cli_parse (cmd # args) = Inr c" "cmd = ''evaluate'' \<or> cmd = ''explain''"
  shows "evaluate_command pf render c explain w = Some (Inr EXIT_OK, w') \<longleftrightarrow>
     (\<exists>fpath lp w1 ci seen_req policy_path policy w2 statuses w3 vp d w4.
        proof_path c = Inr fpath \<and> load_proof pf fpath w = Some (Inr lp, w1) \<and> common c = Inr ci \<and> seen_request_of c = Inr seen_req
      \<and> cli_opt c ''policy'' = Some policy_path \<and> read_policy pf policy_path w1 = Some (Inr policy, w2)
      \<and> mapIO (load_status pf) (cli_many c ''status'') w2 = Some (Inr statuses, w3) \<and> verifier_policy_of c = Inr vp
      \<and> verify_and_evaluate (pf_b64 pf) (pf_hash pf) (pf_sig pf) (pf_iter pf) (lp_canonical lp) (cli_vc c ci vp statuses) policy
          RevocationSet_empty = Some (Inr d)
      \<and> out_decision (vd_outcome d) = Pass \<and> (strict_mode c \<longrightarrow> is_currently_acceptable (vd_report d))
      \<and> (case cli_opt c ''out'' of None \<Rightarrow> w4 = w3 | Some out \<Rightarrow> emit_report pf (vd_report d) (Some out) w3 = Some (Inr (), w4))
      \<and> not_replayed pf seen_req (prf_id (lp_proof lp))
          (w4\<lparr>w_stdout := w_stdout w4 @ render explain c policy (vd_report d) (vd_outcome d)\<rparr>) w')"
proof -
  have inputs: "eval_inputs_of c ci = (EvalInputs_from (cli_vc c ci vp statuses))\<lparr>in_revocations := RevocationSet_empty\<rparr>" for ci vp statuses
    using denylist_always_empty [OF assms] by (simp add: eval_inputs_of_def EvalInputs_from_def cli_vc_def)
  have steps: "verify_and_evaluate (pf_b64 pf) (pf_hash pf) (pf_sig pf) (pf_iter pf) (lp_canonical lp) (cli_vc c ci vp statuses) policy
          RevocationSet_empty = Some (Inr d) \<longleftrightarrow>
      verify_proof (pf_b64 pf) (pf_hash pf) (pf_sig pf) (pf_iter pf) (lp_canonical lp) (cli_ctx c ci vp statuses) = Some (Inr (vd_report d))
      \<and> state_from_report_and_proof (pf_b64 pf) (pf_hash pf) (vd_report d) (lp_proof lp) = Inr (vd_state d)
      \<and> evaluate_policy (vd_state d) policy (eval_inputs_of c ci) = Some (vd_outcome d)"
    if "load_proof pf fpath w = Some (Inr lp, w1)" for lp fpath w1 ci vp statuses policy d
    using one_shot_steps [where vc = "cli_vc c ci vp statuses" and revs = RevocationSet_empty] load_proof_parses [OF that] inputs
    by (simp add: cli_vc_ctx cli_vc_def [THEN arg_cong [where f = vc_limits]] limits_of_cli_def RevocationSet_empty_def)
  show ?thesis (is "?run \<longleftrightarrow> ?accepts")
  proof
    assume ?run
    then obtain fpath lp w1 ci seen_req policy_path policy w2 statuses w3 vp report state outcome w4 where
      run: "proof_path c = Inr fpath" "load_proof pf fpath w = Some (Inr lp, w1)" "common c = Inr ci" "seen_request_of c = Inr seen_req"
      "cli_opt c ''policy'' = Some policy_path" "read_policy pf policy_path w1 = Some (Inr policy, w2)"
      "mapIO (load_status pf) (cli_many c ''status'') w2 = Some (Inr statuses, w3)" "verifier_policy_of c = Inr vp"
      and eval: "verify_proof (pf_b64 pf) (pf_hash pf) (pf_sig pf) (pf_iter pf) (lp_canonical lp) (cli_ctx c ci vp statuses) = Some (Inr report)"
      "state_from_report_and_proof (pf_b64 pf) (pf_hash pf) report (lp_proof lp) = Inr state"
      "evaluate_policy state policy (eval_inputs_of c ci) = Some outcome"
      and rest: "case cli_opt c ''out'' of None \<Rightarrow> w4 = w3 | Some out \<Rightarrow> emit_report pf report (Some out) w3 = Some (Inr (), w4)"
      "out_decision outcome = Pass" "strict_mode c \<longrightarrow> is_currently_acceptable report"
      "not_replayed pf seen_req (prf_id (lp_proof lp)) (w4\<lparr>w_stdout := w_stdout w4 @ render explain c policy report outcome\<rparr>) w'"
      unfolding evaluate_iff by blast
    define d where "d = \<lparr>vd_report = report, vd_state = state, vd_outcome = outcome\<rparr>"
    have d: "vd_report d = report" "vd_outcome d = outcome" by (simp_all add: d_def)
    have "verify_and_evaluate (pf_b64 pf) (pf_hash pf) (pf_sig pf) (pf_iter pf) (lp_canonical lp) (cli_vc c ci vp statuses) policy
          RevocationSet_empty = Some (Inr d)"
      using steps [OF run(2)] eval by (simp add: d_def)
    with run rest [folded d] show ?accepts by (intro exI conjI) assumption+
  next
    assume ?accepts
    then obtain fpath lp w1 ci seen_req policy_path policy w2 statuses w3 vp d w4 where
      run: "proof_path c = Inr fpath" "load_proof pf fpath w = Some (Inr lp, w1)" "common c = Inr ci" "seen_request_of c = Inr seen_req"
      "cli_opt c ''policy'' = Some policy_path" "read_policy pf policy_path w1 = Some (Inr policy, w2)"
      "mapIO (load_status pf) (cli_many c ''status'') w2 = Some (Inr statuses, w3)" "verifier_policy_of c = Inr vp"
      and eval: "verify_and_evaluate (pf_b64 pf) (pf_hash pf) (pf_sig pf) (pf_iter pf) (lp_canonical lp) (cli_vc c ci vp statuses) policy
          RevocationSet_empty = Some (Inr d)"
      and rest: "case cli_opt c ''out'' of None \<Rightarrow> w4 = w3 | Some out \<Rightarrow> emit_report pf (vd_report d) (Some out) w3 = Some (Inr (), w4)"
      "out_decision (vd_outcome d) = Pass" "strict_mode c \<longrightarrow> is_currently_acceptable (vd_report d)"
      "not_replayed pf seen_req (prf_id (lp_proof lp))
          (w4\<lparr>w_stdout := w_stdout w4 @ render explain c policy (vd_report d) (vd_outcome d)\<rparr>) w'"
      by blast
    from steps [OF run(2)] eval have
      "verify_proof (pf_b64 pf) (pf_hash pf) (pf_sig pf) (pf_iter pf) (lp_canonical lp) (cli_ctx c ci vp statuses) = Some (Inr (vd_report d))"
      "state_from_report_and_proof (pf_b64 pf) (pf_hash pf) (vd_report d) (lp_proof lp) = Inr (vd_state d)"
      "evaluate_policy (vd_state d) policy (eval_inputs_of c ci) = Some (vd_outcome d)" by simp_all
    with run rest show ?run unfolding evaluate_iff by (intro exI conjI) assumption+
  qed
qed

section \<open>Replays\<close>

text \<open>What the guardrail relies on of \<^verbatim>\<open>serde_json\<close>: its own document, a newline behind it, reads back as written.\<close>

definition json_law :: "platform \<Rightarrow> bool" where
  "json_law pf \<longleftrightarrow> pf_from_str pf [] = None
     \<and> (\<forall>t v xs s. pf_from_str pf t = Some v \<longrightarrow> json_get v ''seen'' = Some (JArray xs) \<longrightarrow> JString s \<in> set xs \<longrightarrow> valid_utf8 (as_bytes s))
     \<and> (\<forall>ss. list_all (\<lambda>s. valid_utf8 (as_bytes s)) ss \<longrightarrow>
          valid_utf8 (as_bytes (pf_to_string_pretty pf (seen_doc ss) @ NEWLINE))
        \<and> pf_from_str pf (pf_to_string_pretty pf (seen_doc ss) @ NEWLINE) = Some (seen_doc ss))"

lemma valid_utf8_append: "valid_utf8 a \<Longrightarrow> valid_utf8 b \<Longrightarrow> valid_utf8 (a @ b)"
proof (induction a rule: valid_utf8.induct)
  case (2 b0 r)
  consider "in_range 0x00 0x7F b0" | b1 r' where "\<not> in_range 0x00 0x7F b0" "in_range 0xC2 0xDF b0" "r = b1 # r'"
    | b1 b2 r' where "\<not> in_range 0x00 0x7F b0" "\<not> in_range 0xC2 0xDF b0" "in_range 0xE0 0xEF b0" "r = b1 # b2 # r'"
    | b1 b2 b3 r' where "\<not> in_range 0x00 0x7F b0" "\<not> in_range 0xC2 0xDF b0" "\<not> in_range 0xE0 0xEF b0" "in_range 0xF0 0xF4 b0" "r = b1 # b2 # b3 # r'"
    using "2.prems"(1) by (simp split: if_splits list.splits)
  then show ?case
  proof cases
    case 1
    with 2 show ?thesis by simp
  next
    case 2
    with "2.IH"(2) "2.prems" show ?thesis by simp
  next
    case 3
    with "2.IH"(3) "2.prems" show ?thesis by simp
  next
    case 4
    with "2.IH"(4) "2.prems" show ?thesis by simp
  qed
qed simp

lemma list_all2_in_set2: "list_all2 P xs ys \<Longrightarrow> y \<in> set ys \<Longrightarrow> \<exists>x \<in> set xs. P x y"
  by (induction rule: list_all2_induct) auto

lemma seen_entries_doc: "seen_entries store (seen_doc ss) = Inr (sort (remdups ss))"
proof -
  have "mapR (\<lambda>x. ok_or (json_str x) e) (map JString ss) = Inr ss" for e :: string
    by (induction ss) simp_all
  then show ?thesis by (simp add: seen_entries_def seen_doc_def)
qed

lemma seen_entries_utf8:
  assumes "json_law pf" "pf_from_str pf t = Some v" "seen_entries store v = Inr seen" "s \<in> set seen"
  shows "valid_utf8 (as_bytes s)"
proof -
  obtain xs ss where xs: "json_get v ''seen'' = Some (JArray xs)"
      "mapR (\<lambda>x. ok_or (json_str x) (''seen-store '' @ store @ '': `seen` must be strings'')) xs = Inr ss" "seen = sort (remdups ss)"
    using assms(3) by (auto simp: seen_entries_def bindR_Inr_iff split: option.splits json.splits)
  then have "s \<in> set ss" using assms(4) by simp
  then obtain x where x: "x \<in> set xs" "json_str x = Some s"
    using xs(2) by (auto simp: mapR_Inr_iff result_iff dest: list_all2_in_set2)
  from x(2) have "x = JString s" by (cases x) simp_all
  with x(1) have "JString s \<in> set xs" by simp
  then show ?thesis using assms(1,2) xs(1) unfolding json_law_def by blast
qed

lemma load_seen_frame: "load_seen pf store w = Some (r, w') \<Longrightarrow> w' = w"
  by (auto simp: load_seen_def liftIO_def split: file_state.splits if_splits)

lemma gate_records:
  assumes "json_law pf" "valid_utf8 (as_bytes (sq_context req))" "valid_utf8 (as_bytes pid)"
    and "sq_record req" "gate pf req pid w = Some (Inr False, w')"
  shows "\<exists>seen seen'. load_seen pf (sq_store req) w = Some (Inr seen, w) \<and> seen_key (sq_context req) pid \<notin> set seen
    \<and> load_seen pf (sq_store req) w' = Some (Inr seen', w') \<and> set seen' = insert (seen_key (sq_context req) pid) (set seen)"
proof -
  let ?k = "seen_key (sq_context req) pid"
  obtain seen where seen: "load_seen pf (sq_store req) w = Some (Inr seen, w)" "?k \<notin> set seen"
      and w': "w' = w\<lparr>w_files := (w_files w)(sq_store req := File (as_bytes (pf_to_string_pretty pf (seen_doc (insort_insert ?k seen)) @ NEWLINE)))\<rparr>"
    using assms(4,5) by (auto simp: gate_def io_iff Let_def split: if_splits dest: load_seen_frame)
  have "valid_utf8 (as_bytes s)" if "s \<in> set seen" for s
    using seen(1) that seen_entries_utf8 [OF assms(1)]
    by (auto simp: load_seen_def liftIO_def split: file_state.splits if_splits option.splits)
  moreover have "valid_utf8 (as_bytes ?k)"
    using assms(2,3) by (auto simp: seen_key_def as_bytes_def byte_of_char_def in_range_def intro!: valid_utf8_append)
  ultimately have "list_all (\<lambda>s. valid_utf8 (as_bytes s)) (insort_insert ?k seen)"
    by (auto simp: list_all_iff set_insort_insert)
  then have "load_seen pf (sq_store req) w' = Some (Inr (sort (remdups (insort_insert ?k seen))), w')"
    using assms(1) by (simp add: json_law_def load_seen_def w' liftIO_def seen_entries_doc)
  then show ?thesis using seen by (auto simp: set_insort_insert)
qed

lemma parse_proof_id_utf8:
  assumes "parse_proof b64 bs l = Inr p"
  shows "valid_utf8 (as_bytes (prf_id p))"
proof -
  obtain v where v: "canon_form l 0 v" "cbor_to_proof b64 v l = Inr p"
    using assms by (auto simp: parse_proof_def result_iff decode_strict_Inr_iff)
  then obtain m where m: "v = CMap m" by (auto simp: cbor_to_proof_def result_iff)
  have "proof_fields m p" using v proof_parse_fields unfolding m by blast
  then have "field m ''proof_id'' = Some (CText (prf_id p))" by (simp add: proof_fields_def)
  then have "(CText ''proof_id'', CText (prf_id p)) \<in> set m" by (auto simp: field_def dest: map_of_SomeD)
  then show ?thesis using v(1) m by fastforce
qed

text \<open>
  The history of one replay store and context: runs of \<^verbatim>\<open>verify\<close>, \<^verbatim>\<open>evaluate\<close> and \<^verbatim>\<open>explain\<close> that record and
  accept, and between them anything that leaves the store as it is.
\<close>

definition guarded_by :: "cli \<Rightarrow> string \<Rightarrow> string \<Rightarrow> bool" where
  "guarded_by c store ctx \<longleftrightarrow> seen_request_of c = Inr (Some \<lparr>sq_store = store, sq_context = ctx, sq_record = True\<rparr>)
     \<and> cli_opt c ''out'' \<noteq> Some store"

inductive accepted_runs :: "platform \<Rightarrow> outcome_text \<Rightarrow> string \<Rightarrow> string \<Rightarrow> world \<Rightarrow> string list \<Rightarrow> world \<Rightarrow> bool"
  for pf render store ctx where
  start: "accepted_runs pf render store ctx w [] w"
| elsewhere: "accepted_runs pf render store ctx w ids w1 \<Longrightarrow> w_files w2 store = w_files w1 store \<Longrightarrow>
    accepted_runs pf render store ctx w ids w2"
| verified: "accepted_runs pf render store ctx w ids w1 \<Longrightarrow> guarded_by c store ctx \<Longrightarrow> proof_path c = Inr fpath \<Longrightarrow>
    stdin_fits fpath w1 \<Longrightarrow> load_proof pf fpath w1 = Some (Inr lp, w0) \<Longrightarrow>
    verify_command pf c w1 = Some (Inr EXIT_OK, w2) \<Longrightarrow>
    accepted_runs pf render store ctx w (ids @ [prf_id (lp_proof lp)]) w2"
| evaluated: "accepted_runs pf render store ctx w ids w1 \<Longrightarrow> guarded_by c store ctx \<Longrightarrow> proof_path c = Inr fpath \<Longrightarrow>
    load_proof pf fpath w1 = Some (Inr lp, w0) \<Longrightarrow> evaluate_command pf render c explain w1 = Some (Inr EXIT_OK, w2) \<Longrightarrow>
    accepted_runs pf render store ctx w (ids @ [prf_id (lp_proof lp)]) w2"

definition store_holds :: "platform \<Rightarrow> string \<Rightarrow> string \<Rightarrow> world \<Rightarrow> string list \<Rightarrow> bool" where
  "store_holds pf store ctx w ids \<longleftrightarrow>
     ids = [] \<or> (\<exists>seen. load_seen pf store w = Some (Inr seen, w) \<and> seen_key ctx ` set ids \<subseteq> set seen)"

lemma load_seen_file: "w_files w2 store = w_files w1 store \<Longrightarrow> load_seen pf store w1 = Some (Inr seen, w1) \<Longrightarrow> load_seen pf store w2 = Some (Inr seen, w2)"
  by (auto simp: load_seen_def liftIO_def split: file_state.splits if_splits)

lemma emit_report_frame: "emit_report pf report out w = Some (r, w') \<Longrightarrow> out \<noteq> Some store \<Longrightarrow> w_files w' store = w_files w store"
  by (auto simp: emit_report_def printlnIO_def printIO_def writeIO_def Let_def split: option.splits if_splits)

lemma reads_only_policy: "reads_only (read_policy pf fpath)"
proof -
  have attempt: "reads_only (tryIO m)" if "reads_only m" for m :: "'x io"
    using that by (auto simp: reads_only_def tryIO_def)
  have "reads_only (read_input_file pf fpath)"
    by (auto simp: reads_only_def read_input_file_def Let_def split: file_state.splits if_splits)
  then show ?thesis
    unfolding read_policy_def
    by (intro reads_only_bind [OF attempt]) (auto intro!: reads_only_bind reads_only_lift split: sum.splits)
qed

lemma reads_only_files: "reads_only m \<Longrightarrow> m w = Some (r, w') \<Longrightarrow> w_files w' = w_files w"
  unfolding reads_only_def by (metis world.surjective world.update_convs(1) world.select_convs(2))

text \<open>A run records its id in the store if its gate lets the id through and nothing before the gate touched the store.\<close>

definition records :: "platform \<Rightarrow> string \<Rightarrow> string \<Rightarrow> string \<Rightarrow> world \<Rightarrow> world \<Rightarrow> bool" where
  "records pf store ctx pid w w' \<longleftrightarrow> (\<exists>seen seen'. load_seen pf store w = Some (Inr seen, w) \<and> seen_key ctx pid \<notin> set seen
     \<and> load_seen pf store w' = Some (Inr seen', w') \<and> set seen' = insert (seen_key ctx pid) (set seen))"

lemma gate_run_records:
  assumes "json_law pf" "valid_utf8 (as_bytes ctx)" "load_proof pf fpath w = Some (Inr lp, w0)"
    and "gate pf \<lparr>sq_store = store, sq_context = ctx, sq_record = True\<rparr> (prf_id (lp_proof lp)) w3 = Some (Inr False, w')"
    and "w_files w3 store = w_files w store"
  shows "records pf store ctx (prf_id (lp_proof lp)) w w'"
proof -
  let ?req = "\<lparr>sq_store = store, sq_context = ctx, sq_record = True\<rparr>"
  have "valid_utf8 (as_bytes (prf_id (lp_proof lp)))" using load_proof_parses [OF assms(3)] parse_proof_id_utf8 by blast
  then obtain seen seen' where s: "load_seen pf store w3 = Some (Inr seen, w3)" "seen_key ctx (prf_id (lp_proof lp)) \<notin> set seen"
      "load_seen pf store w' = Some (Inr seen', w')" "set seen' = insert (seen_key ctx (prf_id (lp_proof lp))) (set seen)"
    using gate_records [OF assms(1), of ?req "prf_id (lp_proof lp)" w3 w'] assms(2,4) by auto
  then have "load_seen pf store w = Some (Inr seen, w)" using load_seen_file [of w store w3] assms(5) by simp
  then show ?thesis using s unfolding records_def by blast
qed

lemmas load_frames = reads_only_files [OF reads_only_loaders(1)] reads_only_files [OF reads_only_map [OF reads_only_loaders(2)]]
  reads_only_files [OF reads_only_policy]

lemma verify_records:
  assumes "json_law pf" "hash_iter (pf_iter pf)" "valid_utf8 (as_bytes ctx)" "guarded_by c store ctx"
    and "proof_path c = Inr fpath" "stdin_fits fpath w" "load_proof pf fpath w = Some (Inr lp, w0)"
    and "verify_command pf c w = Some (Inr EXIT_OK, w')"
  shows "records pf store ctx (prf_id (lp_proof lp)) w w'"
proof -
  have "pf_from_str pf [] = None" using assms(1) by (simp add: json_law_def)
  with verify_command_iff [OF assms(2) _ assms(5,6)] assms(4,7,8) obtain statuses w2 report w3 where
      st: "mapIO (load_status pf) (cli_many c ''status'') w0 = Some (Inr statuses, w2)"
      and out: "emit_report pf report (cli_opt c ''out'') w2 = Some (Inr (), w3)"
      and gate: "gate pf \<lparr>sq_store = store, sq_context = ctx, sq_record = True\<rparr> (prf_id (lp_proof lp)) w3 = Some (Inr False, w')"
    unfolding verify_loaded_iff by (fastforce simp: not_replayed_def guarded_by_def)
  have "w_files w3 store = w_files w store"
    using emit_report_frame [OF out] assms(4) load_frames(1) [OF assms(7)] load_frames(2) [OF st] by (simp add: guarded_by_def)
  then show ?thesis using gate_run_records [OF assms(1,3,7) gate] by blast
qed

lemma evaluate_records:
  assumes "json_law pf" "valid_utf8 (as_bytes ctx)" "guarded_by c store ctx" "proof_path c = Inr fpath"
    and "load_proof pf fpath w = Some (Inr lp, w0)" "evaluate_command pf render c explain w = Some (Inr EXIT_OK, w')"
  shows "records pf store ctx (prf_id (lp_proof lp)) w w'"
proof -
  from assms(3-6) obtain policy_path policy w2 statuses w3 report w4 out_text where
      pol: "read_policy pf policy_path w0 = Some (Inr policy, w2)"
      and st: "mapIO (load_status pf) (cli_many c ''status'') w2 = Some (Inr statuses, w3)"
      and out: "case cli_opt c ''out'' of None \<Rightarrow> w4 = w3 | Some out \<Rightarrow> emit_report pf report (Some out) w3 = Some (Inr (), w4)"
      and gate: "gate pf \<lparr>sq_store = store, sq_context = ctx, sq_record = True\<rparr> (prf_id (lp_proof lp))
          (w4\<lparr>w_stdout := w_stdout w4 @ out_text\<rparr>) = Some (Inr False, w')"
    unfolding evaluate_iff guarded_by_def not_replayed_def by fastforce
  have "w_files w4 store = w_files w3 store"
    using out assms(3) emit_report_frame [of pf report _ w3 "Inr ()" w4 store] by (auto simp: guarded_by_def split: option.splits)
  then have "w_files w4 store = w_files w store"
    using load_frames(1) [OF assms(5)] load_frames(2) [OF st] load_frames(3) [OF pol] by simp
  then show ?thesis using gate_run_records [OF assms(1,2,5) gate] by simp
qed

text \<open>
  C28. Under one replay store and context no proof is accepted twice: the ids of the recording, accepting runs of
  \<^verbatim>\<open>verify\<close>, \<^verbatim>\<open>evaluate\<close> and \<^verbatim>\<open>explain\<close> are pairwise different, whatever else happens in between as long as it
  leaves the store alone.
\<close>

theorem replays_refused:
  assumes "json_law pf" "hash_iter (pf_iter pf)" "valid_utf8 (as_bytes ctx)" "accepted_runs pf render store ctx w ids w'"
  shows "distinct ids"
proof -
  have step: "distinct (ids @ [pid]) \<and> store_holds pf store ctx w' (ids @ [pid])"
    if "distinct ids \<and> store_holds pf store ctx w ids" "records pf store ctx pid w w'" for ids pid w w'
    using that by (auto simp: store_holds_def records_def image_subset_iff)
  have "distinct ids \<and> store_holds pf store ctx w' ids"
    using assms(4)
  proof induction
    case (elsewhere w ids w1 w2)
    then show ?case unfolding store_holds_def using load_seen_file by blast
  next
    case (verified w ids w1 c fpath lp w0 w2)
    then show ?case using step verify_records [OF assms(1-3) verified.hyps(2-6)] by blast
  next
    case (evaluated w ids w1 c fpath lp w0 explain w2)
    then show ?case using step evaluate_records [OF assms(1,3) evaluated.hyps(2-5)] by blast
  qed (simp add: store_holds_def)
  then show ?thesis by simp
qed

section \<open>When a batch is accepted\<close>

lemma no_currency_failure:
  "length (currency_failures c rep) = 0 \<longleftrightarrow> (\<forall>m \<in> set (br_members rep). strict_mode c \<longrightarrow> rep_cryptographic_validity (bm_report m) = Valid \<longrightarrow>
     rep_evidence_validity (bm_report m) = Valid \<longrightarrow> is_currently_acceptable (bm_report m))"
  by (auto simp: currency_failures_def filter_empty_conv passed_crypto_def)

definition accepted_under :: "platform \<Rightarrow> cli \<Rightarrow> verify_ctx \<Rightarrow> bytes \<Rightarrow> bool" where
  "accepted_under pf c ctx bs \<longleftrightarrow> (\<exists>report. verify_proof (pf_b64 pf) (pf_hash pf) (pf_sig pf) (pf_iter pf) bs ctx = Some (Inr report)
     \<and> rep_cryptographic_validity report = Valid \<and> rep_evidence_validity report = Valid
     \<and> (strict_mode c \<longrightarrow> is_currently_acceptable report))"

lemma batch_accepts:
  assumes "hash_iter (pf_iter pf)" "xs \<noteq> []"
  shows "(\<exists>rep. verify_batch (pf_b64 pf) (pf_hash pf) (pf_sig pf) (pf_iter pf) xs ctx n = Some (Inr rep)
      \<and> (strict_mode c \<longrightarrow> length (currency_failures c rep) = 0) \<and> batch_all_valid rep) \<longleftrightarrow>
    length xs \<le> n \<and> (\<forall>bs \<in> set xs. accepted_under pf c ctx bs)"
proof (cases "length xs \<le> n \<and> ctx_misuse ctx = None")
  case True
  then obtain R where R: "verify_batch (pf_b64 pf) (pf_hash pf) (pf_sig pf) (pf_iter pf) xs ctx n = Some (Inr R)" "batch_complete R (length xs)"
      "\<forall>i < length xs. verify_proof (pf_b64 pf) (pf_hash pf) (pf_sig pf) (pf_iter pf) (xs ! i) ctx = Some (Inr (bm_report (br_members R ! i)))"
      "batch_all_valid R \<longleftrightarrow> (\<forall>m \<in> set (br_members R). rep_cryptographic_validity (bm_report m) = Valid \<and> rep_evidence_validity (bm_report m) = Valid)"
    using batch_reports [OF assms(1) _ assms(2), of n ctx "pf_b64 pf" "pf_hash pf" "pf_sig pf"] assms(2) by auto
  have members: "(\<forall>m \<in> set (br_members R). P (bm_report m)) \<longleftrightarrow> (\<forall>bs \<in> set xs. \<exists>report.
      verify_proof (pf_b64 pf) (pf_hash pf) (pf_sig pf) (pf_iter pf) bs ctx = Some (Inr report) \<and> P report)" for P
    using R(2,3) by (auto simp: all_set_conv_all_nth batch_complete_def)
  have "(strict_mode c \<longrightarrow> length (currency_failures c R) = 0) \<and> batch_all_valid R \<longleftrightarrow>
      (\<forall>m \<in> set (br_members R). rep_cryptographic_validity (bm_report m) = Valid \<and> rep_evidence_validity (bm_report m) = Valid
        \<and> (strict_mode c \<longrightarrow> is_currently_acceptable (bm_report m)))"
    unfolding R(4) no_currency_failure by blast
  then show ?thesis
    using True R(1) members [of "\<lambda>r. rep_cryptographic_validity r = Valid \<and> rep_evidence_validity r = Valid \<and> (strict_mode c \<longrightarrow> is_currently_acceptable r)"]
    by (simp add: accepted_under_def)
next
  case False
  have "\<not> accepted_under pf c ctx bs" if "ctx_misuse ctx \<noteq> None" for bs
    using that by (auto simp: accepted_under_def verify_proof_def)
  moreover have "verify_batch (pf_b64 pf) (pf_hash pf) (pf_sig pf) (pf_iter pf) xs ctx n \<noteq> Some (Inr rep)" for rep
    using False assms(2) by (cases xs) (auto simp: verify_batch_def enumerate_simps verifier_refuses)
  ultimately show ?thesis using False assms(2) by (cases xs) auto
qed

text \<open>
  \<^verbatim>\<open>batch-verify\<close> is \<^verbatim>\<open>verify\<close> on every member: printing to standard output, it exits 0 exactly if its flags and
  status files are well formed, every listed proof loads, the list is no longer than the batch limit, and each
  member alone is reported valid in both respects under the shared context, and currently acceptable in a strict mode.
\<close>

theorem batch_verify_exits_zero_iff:
  assumes "hash_iter (pf_iter pf)" "cli_opt c ''out'' = None"
  shows "(\<exists>w'. batch_verify_command pf batch_text c w = Some (Inr EXIT_OK, w')) \<longleftrightarrow>
    (\<exists>paths ci statuses w1 max_batch canonicals w2 vp.
        input_list c ''proofs'' = Inr paths \<and> paths \<noteq> [] \<and> common c = Inr ci
      \<and> mapIO (load_status pf) (cli_many c ''status'') w = Some (Inr statuses, w1) \<and> max_batch_of c = Inr max_batch
      \<and> mapIO (\<lambda>fpath. bindIO (load_proof pf fpath) (\<lambda>lp. retIO (lp_canonical lp))) paths w1 = Some (Inr canonicals, w2)
      \<and> verifier_policy_of c = Inr vp \<and> length paths \<le> max_batch
      \<and> (\<forall>bs \<in> set canonicals. accepted_under pf c (cli_ctx c ci vp statuses) bs))"
proof -
  have len: "length ys = length xs" if "mapIO f xs w = Some (Inr ys, w')" for f :: "'x \<Rightarrow> 'y io" and xs ys w w'
    using that by (induction xs arbitrary: ys w) (auto simp: io_iff)
  have finish: "(if strict_mode c \<and> 0 < length (currency_failures c rep) then retIO EXIT_FAIL
        else retIO (if batch_all_valid rep then EXIT_OK else EXIT_FAIL)) w2 = Some (Inr EXIT_OK, w') \<longleftrightarrow>
      (strict_mode c \<longrightarrow> length (currency_failures c rep) = 0) \<and> batch_all_valid rep \<and> w' = w2" for rep w2 w'
    by (auto simp: retIO_iff exit_codes)
  have run: "(\<exists>w'. batch_verify_command pf batch_text c w = Some (Inr EXIT_OK, w')) \<longleftrightarrow>
    (\<exists>paths ci statuses w1 max_batch canonicals w2 vp.
        input_list c ''proofs'' = Inr paths \<and> paths \<noteq> [] \<and> common c = Inr ci
      \<and> mapIO (load_status pf) (cli_many c ''status'') w = Some (Inr statuses, w1) \<and> max_batch_of c = Inr max_batch
      \<and> mapIO (\<lambda>fpath. bindIO (load_proof pf fpath) (\<lambda>lp. retIO (lp_canonical lp))) paths w1 = Some (Inr canonicals, w2)
      \<and> verifier_policy_of c = Inr vp
      \<and> (\<exists>rep. verify_batch (pf_b64 pf) (pf_hash pf) (pf_sig pf) (pf_iter pf) canonicals (cli_ctx c ci vp statuses) max_batch = Some (Inr rep)
        \<and> (strict_mode c \<longrightarrow> length (currency_failures c rep) = 0) \<and> batch_all_valid rep))"
    unfolding batch_verify_command_def io_iff guardIO finish Let_def assms(2) option.case printlnIO_def by auto
  show ?thesis
    unfolding run
    by (intro ex_cong1 conj_cong refl) (metis batch_accepts [OF assms(1)] len length_0_conv)
qed

section \<open>A concrete platform\<close>

text \<open>
  Two documents and the replay stores, written in hex with commas, as the texts of a small JSON codec, for the
  witnesses.
\<close>

definition demo_wrapper :: json where
  "demo_wrapper = JObject [(''cbor'', JString (hex_encode plain_hex demo_bytes)), (''kind'', JString ''proof'')]"

definition store_of_text :: "string \<Rightarrow> json option" where
  "store_of_text t =
     (if t = [] \<or> last t \<noteq> CHR 0x0A then None
      else case those (map (hex_decode plain_hex) (butlast (split_on (\<lambda>c. c = CHR '','') (butlast t)))) of
          None \<Rightarrow> None
        | Some bss \<Rightarrow> if list_all valid_utf8 bss then Some (seen_doc (map str_of_bytes bss)) else None)"

definition demo_from_str :: "string \<Rightarrow> json option" where
  "demo_from_str t =
     (if t = ''proof'' then Some demo_wrapper else if t = ''policy'' then Some (policy_json demo_policy) else store_of_text t)"

definition demo_to_text :: "json \<Rightarrow> string" where
  "demo_to_text v =
     (case json_get v ''seen'' of
        Some (JArray xs) \<Rightarrow> concat (map (\<lambda>s. hex_encode plain_hex (as_bytes s) @ '','') (List.map_filter json_str xs))
      | _ \<Rightarrow> [])"

definition demo_platform :: platform where
  "demo_platform = \<lparr>pf_b64 = plain_b64, pf_hash = zero_hash, pf_sig = plain_sig, pf_iter = remdups, pf_hex = plain_hex,
     pf_from_str = demo_from_str, pf_to_string_pretty = demo_to_text, pf_report_text = (\<lambda>_. []), pf_usage_text = (\<lambda>_. []),
     pf_io_text = (\<lambda>_. []), pf_json_text = (\<lambda>_. []), pf_hex_text = (\<lambda>_. []), pf_error_text = (\<lambda>_ _. [])\<rparr>"

lemma split_on_concat:
  "\<forall>s \<in> set ss. \<forall>c \<in> set (f s). \<not> d c \<Longrightarrow> d e \<Longrightarrow> split_on d (concat (map (\<lambda>s. f s @ [e]) ss)) = map f ss @ [[]]"
proof (induction ss)
  case (Cons s ss)
  have "split_on d (a @ e # r) = a # split_on d r" if "\<forall>c \<in> set a. \<not> d c" for a r
    using that \<open>d e\<close> by (induction a) auto
  then show ?case using Cons by simp
qed simp

lemma valid_utf8_ascii: "\<forall>b \<in> set bs. unat b < 128 \<Longrightarrow> valid_utf8 bs"
  by (induction bs) (auto simp: in_range_def)

lemma hex_text_chars: "c \<in> set (hex_encode plain_hex bs) \<Longrightarrow> c \<in> set ''0123456789abcdef''"
  using plain_hex_law unfolding hex_law_def list_all_iff by blast

lemma hex_char_small: "c \<in> set ''0123456789abcdef'' \<Longrightarrow> unat (byte_of_char c) < 128"
  by (auto simp: byte_of_char_def)

lemma seen_strings: "List.map_filter json_str (map JString ss) = ss"
  by (induction ss) (simp_all add: map_filter_simps)

lemma demo_to_text_doc: "demo_to_text (seen_doc ss) = concat (map (\<lambda>s. hex_encode plain_hex (as_bytes s) @ '','') ss)"
  by (simp add: demo_to_text_def seen_doc_def seen_strings)

lemma store_round_trip:
  assumes "list_all (\<lambda>s. valid_utf8 (as_bytes s)) ss"
  shows "store_of_text (demo_to_text (seen_doc ss) @ NEWLINE) = Some (seen_doc ss)"
proof -
  have "split_on (\<lambda>c. c = CHR '','') (demo_to_text (seen_doc ss)) = map (\<lambda>s. hex_encode plain_hex (as_bytes s)) ss @ [[]]"
    unfolding demo_to_text_doc by (rule split_on_concat) (auto dest!: hex_text_chars)
  moreover have "those (map (hex_decode plain_hex) (map (\<lambda>s. hex_encode plain_hex (as_bytes s)) ss)) = Some (map as_bytes ss)"
    using plain_hex_law by (induction ss) (simp_all add: hex_law_def)
  ultimately show ?thesis
    using assms by (simp add: store_of_text_def NEWLINE_def list_all_iff comp_def)
qed

lemma store_text_ascii: "c \<in> set (demo_to_text (seen_doc ss) @ NEWLINE) \<Longrightarrow> unat (byte_of_char c) < 128"
proof -
  assume "c \<in> set (demo_to_text (seen_doc ss) @ NEWLINE)"
  then consider s where "c \<in> set (hex_encode plain_hex (as_bytes s))" | "c = CHR '',''" | "c = CHR 0x0A"
    unfolding demo_to_text_doc NEWLINE_def set_append set_concat set_map by (auto split: if_splits)
  then show ?thesis
  proof cases
    case 1
    then show ?thesis by (intro hex_char_small hex_text_chars)
  qed (simp_all add: byte_of_char_def)
qed

lemma demo_json_law: "json_law demo_platform"
proof -
  have ascii: "valid_utf8 (as_bytes (demo_to_text (seen_doc ss) @ NEWLINE))" for ss
  proof (rule valid_utf8_ascii, rule ballI)
    fix b assume "b \<in> set (as_bytes (demo_to_text (seen_doc ss) @ NEWLINE))"
    then obtain c where "b = byte_of_char c" "c \<in> set (demo_to_text (seen_doc ss) @ NEWLINE)"
      unfolding as_bytes_def set_map by blast
    then show "unat b < 128" using store_text_ascii by blast
  qed
  have parsed: "valid_utf8 (as_bytes s)"
    if "demo_from_str t = Some v" "json_get v ''seen'' = Some (JArray xs)" "JString s \<in> set xs" for t v xs s
  proof -
    have "json_get demo_wrapper ''seen'' = None" "json_get (policy_json demo_policy) ''seen'' = None"
      by (simp_all add: demo_wrapper_def policy_json_def demo_policy_def)
    then have "store_of_text t = Some v" using that(1,2) by (auto simp: demo_from_str_def split: if_splits)
    then obtain bss where "list_all valid_utf8 bss" "v = seen_doc (map str_of_bytes bss)"
      by (auto simp: store_of_text_def split: if_splits option.splits)
    then show ?thesis using that(2,3) by (auto simp: seen_doc_def list_all_iff)
  qed
  have "last (t @ NEWLINE) = CHR 0x0A" for t by (simp add: NEWLINE_def)
  moreover have "last ''proof'' \<noteq> CHR 0x0A" "last ''policy'' \<noteq> CHR 0x0A" by simp_all
  ultimately have other: "t @ NEWLINE \<noteq> ''proof''" "t @ NEWLINE \<noteq> ''policy''" for t by metis+
  have law: "demo_from_str (demo_to_text (seen_doc ss) @ NEWLINE) = Some (seen_doc ss)" if "list_all (\<lambda>s. valid_utf8 (as_bytes s)) ss" for ss
    unfolding demo_from_str_def if_not_P [OF other(1)] if_not_P [OF other(2)] by (rule store_round_trip [OF that])
  have "demo_from_str [] = None" by (simp add: demo_from_str_def store_of_text_def)
  with ascii law parsed show ?thesis
    unfolding json_law_def demo_platform_def platform.select_convs by blast
qed

definition demo_args :: "string list" where
  "demo_args = [''--proof'', ''p'', ''--clock'', ''100'', ''--revocations-known-at'', ''90'', ''--policy'', ''q'',
     ''--seen-store'', ''s'', ''--seen-context'', ''c'', ''--seen-record'', ''--no-require-status'', ''--strict-current'']"

definition demo_cli :: "string \<Rightarrow> cli" where
  "demo_cli cmd = put_flag (put_flag (put_flag (put_value (put_value (put_value (put_value (put_value (put_value (Cli_default\<lparr>cl_command := cmd\<rparr>)
     ''proof'' ''p'') ''clock'' ''100'') ''revocations-known-at'' ''90'') ''policy'' ''q'') ''seen-store'' ''s'') ''seen-context'' ''c'')
     ''seen-record'') ''no-require-status'') ''strict-current''"

lemma demo_parsed: "Cli_parse (''evaluate'' # demo_args) = Inr (demo_cli ''evaluate'')"
  by (simp add: Cli_parse_def demo_args_def demo_cli_def short_name_def starts_with_def flag_allowed_def allowed_flags_def
      COMMAND_FLAGS_def GLOBAL_FLAGS_def)

definition demo_world :: world where
  "demo_world = \<lparr>w_stdin = Some [], w_files = (\<lambda>_. NoFile)(''p'' := File (as_bytes ''proof''), ''q'' := File (as_bytes ''policy'')),
     w_writable = (\<lambda>_. True), w_stdout = []\<rparr>"

lemma demo_reads:
  "w_files w ''p'' = File (as_bytes ''proof'') \<Longrightarrow> read_input_text demo_platform ''p'' w = Some (Inr (''proof'', ''p''), w)"
  "w_files w ''q'' = File (as_bytes ''policy'') \<Longrightarrow> read_input_file demo_platform ''q'' w = Some (Inr ''policy'', w)"
proof -
  have len: "6 < MAX_INPUT_FILE_BYTES" by (simp add: MAX_INPUT_FILE_BYTES_def)
  have utf8: "valid_utf8 (as_bytes ''proof'')" "valid_utf8 (as_bytes ''policy'')"
    by (rule valid_utf8_ascii, simp add: as_bytes_def byte_of_char_def)+
  show "w_files w ''p'' = File (as_bytes ''proof'') \<Longrightarrow> read_input_text demo_platform ''p'' w = Some (Inr (''proof'', ''p''), w)"
    "w_files w ''q'' = File (as_bytes ''policy'') \<Longrightarrow> read_input_file demo_platform ''q'' w = Some (Inr ''policy'', w)"
    using len utf8 by (simp_all add: read_input_text_def read_input_file_def bindIO_def retIO_def Let_def)
qed

lemma demo_loads:
  assumes "w_files w ''p'' = File (as_bytes ''proof'')"
  shows "load_proof demo_platform ''p'' w = Some (Inr \<lparr>lp_canonical = demo_bytes, lp_proof = demo_package\<rparr>, w)"
proof -
  have "hex_decode plain_hex (hex_encode plain_hex demo_bytes) = Some demo_bytes" using plain_hex_law by (simp add: hex_law_def)
  moreover obtain v where "decode_strict demo_bytes limits_of_cli = Inr v" "cbor_to_proof plain_b64 v limits_of_cli = Inr demo_package"
    using demo_parses by (auto simp: parse_proof_def result_iff limits_of_cli_def)
  ultimately show ?thesis
    using demo_reads(1) [OF assms]
    by (simp add: load_proof_def bindIO_def from_strIO_def liftIO_def unwrap_proof_def demo_platform_def demo_from_str_def demo_wrapper_def
        reject_unknown_wrapper_fields_def PROOF_WRAPPER_ALLOWED_def check_wrapper_kind_def req_str_def get_str_def hexR_def labelR_def
        check_wrapper_id_def)
qed

definition demo_common :: common_inputs where
  "demo_common = \<lparr>ci_verified_at = 100, ci_skew = 300, ci_revocations_known_at = Some 90\<rparr>"

definition demo_verifier :: verifier_policy where
  "demo_verifier = \<lparr>vp_allowed_algs = AllowedAlgs_strict, vp_report_all_failures = False, vp_accepted_vocabularies = [],
     vp_extra_grounded = [], vp_require_acyclic_provenance = False, vp_require_status_feed = False, vp_production = False\<rparr>"

lemma demo_cli_reads:
  "proof_path (demo_cli cmd) = Inr ''p''" "cli_opt (demo_cli cmd) ''out'' = None" "cli_many (demo_cli cmd) ''status'' = []"
  "cli_opt (demo_cli cmd) ''policy'' = Some ''q''" "common (demo_cli cmd) = Inr demo_common"
  "verifier_policy_of (demo_cli cmd) = Inr demo_verifier" "strict_mode (demo_cli cmd)"
  "seen_request_of (demo_cli cmd) = Inr (Some \<lparr>sq_store = ''s'', sq_context = ''c'', sq_record = True\<rparr>)"
proof -
  have num: "parse_u64 ''100'' = Some 100" "parse_u64 ''90'' = Some 90" by (simp_all add: parse_u64_def starts_with_def)
  show "proof_path (demo_cli cmd) = Inr ''p''" "cli_opt (demo_cli cmd) ''out'' = None" "cli_many (demo_cli cmd) ''status'' = []"
    "cli_opt (demo_cli cmd) ''policy'' = Some ''q''" "strict_mode (demo_cli cmd)"
    "seen_request_of (demo_cli cmd) = Inr (Some \<lparr>sq_store = ''s'', sq_context = ''c'', sq_record = True\<rparr>)"
    by (simp_all add: demo_cli_def proof_path_def cli_opt_def cli_many_def Cli_default_def strict_mode_def cli_has_def seen_request_of_def)
  show "common (demo_cli cmd) = Inr demo_common"
    by (simp add: demo_cli_def common_def cli_req_u64_def cli_req_def cli_opt_def cli_opt_u64_def Cli_default_def num demo_common_def)
  show "verifier_policy_of (demo_cli cmd) = Inr demo_verifier"
    by (simp add: demo_cli_def verifier_policy_of_def cli_has_def cli_many_def Cli_default_def extra_grounded_def demo_verifier_def)
qed

lemma demo_cli_ctx: "cli_ctx (demo_cli cmd) demo_common demo_verifier [] = demo_ctx"
  by (simp add: cli_ctx_def demo_ctx_def demo_common_def demo_verifier_def VerifyCtx_default_def)
    (simp add: demo_cli_def cli_many_def Cli_default_def)

lemma demo_acceptable: "is_currently_acceptable (report_on plain_b64 zero_hash plain_sig remdups demo_ctx demo_package)"
proof -
  have "rep_evidence_status (report_on plain_b64 zero_hash plain_sig remdups demo_ctx demo_package) = []"
    by (simp add: report_on_def full_report_def finalize_fields evidence_result_def evidence_stage_def evd_ids_of_def Let_def)
      (simp add: demo_package_def)
  then show ?thesis
    using demo_lifecycle_active [OF demo_ctx_simps(2,3) demo_ctx_applied demo_ctx_time] demo_ctx_fresh
    by (simp add: is_currently_acceptable_def)
qed

lemma demo_crypto: "rep_cryptographic_validity (report_on plain_b64 zero_hash plain_sig remdups demo_ctx demo_package) = Valid"
  using demo_signed [OF demo_ctx_simps(2,3)] by (simp add: crypto_on [OF engine_laws(1)] demo_bound)

lemma demo_gate:
  assumes "w_files w ''s'' = NoFile" "w_writable w ''s''"
  shows "\<exists>w'. gate demo_platform \<lparr>sq_store = ''s'', sq_context = ''c'', sq_record = True\<rparr> pid w = Some (Inr False, w')"
  using assms by (simp add: gate_def bindIO_def load_seen_def writeIO_def retIO_def)

lemma demo_fields:
  "hash_iter (pf_iter demo_platform)" "pf_from_str demo_platform [] = None" "stdin_fits ''p'' w"
  "w_files demo_world ''p'' = File (as_bytes ''proof'')" "w_files demo_world ''q'' = File (as_bytes ''policy'')"
  "w_files demo_world ''s'' = NoFile" "w_writable demo_world x" "pf_report_text demo_platform r = []"
  "pf_b64 demo_platform = plain_b64" "pf_hash demo_platform = zero_hash" "pf_sig demo_platform = plain_sig" "pf_iter demo_platform = remdups"
  by (simp_all add: demo_platform_def hash_iter_remdups demo_from_str_def store_of_text_def stdin_fits_def demo_world_def)

lemma demo_verify_accepts: "\<exists>w'. verify_command demo_platform (demo_cli cmd) demo_world = Some (Inr EXIT_OK, w')"
proof -
  let ?w3 = "demo_world\<lparr>w_stdout := w_stdout demo_world @ NEWLINE\<rparr>"
  obtain w' where "gate demo_platform \<lparr>sq_store = ''s'', sq_context = ''c'', sq_record = True\<rparr> (prf_id demo_package) ?w3 = Some (Inr False, w')"
    using demo_gate [of ?w3] demo_fields(6,7) by auto
  then show ?thesis
    using demo_loads [OF demo_fields(4)] demo_report [OF demo_ctx_simps(1,3)] demo_crypto demo_valid demo_acceptable
      verdict_exit_iff [of "report_on plain_b64 zero_hash plain_sig remdups demo_ctx demo_package"]
    by (simp add: verify_command_def demo_cli_reads usageIO_def liftIO_def bindIO_def tryIO_def verify_loaded_def retIO_def demo_cli_ctx
        engineIO_def labelR_def pf_verify_def demo_fields emit_report_def printlnIO_def printIO_def)
qed

theorem verify_exits_zero_iff_witness:
  "\<exists>w' report. verify_command demo_platform (demo_cli ''verify'') demo_world = Some (Inr EXIT_OK, w') \<and> is_currently_acceptable report
     \<and> verify_proof plain_b64 zero_hash plain_sig remdups demo_bytes demo_ctx = Some (Inr report)"
proof -
  obtain w' where run: "verify_command demo_platform (demo_cli ''verify'') demo_world = Some (Inr EXIT_OK, w')"
    using demo_verify_accepts by blast
  from verify_exits_zero_iff [OF demo_fields(1,2) demo_cli_reads(1) demo_fields(3), of "''verify''" demo_world w'] run
  obtain statuses w1 report where "mapIO (load_status demo_platform) [] w1 = Some (Inr statuses, w1)"
      "verify_proof plain_b64 zero_hash plain_sig remdups demo_bytes (cli_ctx (demo_cli ''verify'') demo_common demo_verifier statuses) = Some (Inr report)"
      "is_currently_acceptable report"
    by (auto simp: demo_loads [OF demo_fields(4)] demo_cli_reads demo_fields retIO_def)
  then show ?thesis using run by (auto simp: retIO_def demo_cli_ctx)
qed

theorem replays_refused_witness:
  "\<exists>w'. accepted_runs demo_platform (\<lambda>_ _ _ _ _. []) ''s'' ''c'' demo_world [prf_id demo_package] w'
     \<and> (\<forall>w''. \<not> accepted_runs demo_platform (\<lambda>_ _ _ _ _. []) ''s'' ''c'' demo_world [prf_id demo_package, prf_id demo_package] w'')"
proof -
  obtain w' where run: "verify_command demo_platform (demo_cli ''verify'') demo_world = Some (Inr EXIT_OK, w')"
    using demo_verify_accepts by blast
  have guarded: "guarded_by (demo_cli ''verify'') ''s'' ''c''" by (simp add: guarded_by_def demo_cli_reads)
  have "accepted_runs demo_platform (\<lambda>_ _ _ _ _. []) ''s'' ''c'' demo_world ([] @ [prf_id demo_package]) w'"
    using accepted_runs.verified [OF accepted_runs.start guarded demo_cli_reads(1) demo_fields(3) demo_loads [OF demo_fields(4)] run] by simp
  moreover have "valid_utf8 (as_bytes ''c'')" by (rule valid_utf8_ascii) (simp add: as_bytes_def byte_of_char_def)
  note replays_refused [OF demo_json_law demo_fields(1) this, of "\<lambda>_ _ _ _ _. []" "''s''" demo_world "[prf_id demo_package, prf_id demo_package]"]
  ultimately show ?thesis by auto
qed

lemma demo_policy_parses: "parse_policy plain_b64 (policy_json demo_policy) default_limits = Inr demo_policy"
  by (rule parse_policy_json) (simp add: policy_ok_def demo_policy_def default_limits_def)

lemma demo_policy_read:
  assumes "w_files w ''q'' = File (as_bytes ''policy'')"
  shows "read_policy demo_platform ''q'' w = Some (Inr demo_policy, w)"
  using demo_reads(2) [OF assms] demo_policy_parses
  by (simp add: read_policy_def bindIO_def tryIO_def contains_text_def from_strIO_def liftIO_def labelR_def demo_platform_def demo_from_str_def
      limits_of_cli_def)

lemma demo_decision_report:
  assumes "verify_and_evaluate plain_b64 zero_hash plain_sig remdups demo_bytes demo_vc demo_policy RevocationSet_empty = Some (Inr d)"
  shows "vd_report d = report_on plain_b64 zero_hash plain_sig remdups demo_ctx demo_package"
  using assms demo_report [OF demo_ctx_simps(1,3)]
  by (auto simp: verify_and_evaluate_def demo_vc_ctx split: if_splits sum.splits)

theorem evaluate_exits_zero_iff_witness:
  "\<exists>w'. evaluate_command demo_platform (\<lambda>_ _ _ _ _. []) (demo_cli ''evaluate'') False demo_world = Some (Inr EXIT_OK, w')"
proof -
  obtain d where d: "verify_and_evaluate plain_b64 zero_hash plain_sig remdups demo_bytes demo_vc demo_policy RevocationSet_empty = Some (Inr d)"
      "out_decision (vd_outcome d) = Pass"
    using demo_pass by blast
  have vc: "cli_vc (demo_cli ''evaluate'') demo_common demo_verifier [] = demo_vc"
    by (simp add: cli_vc_def demo_vc_def demo_common_def demo_verifier_def VerificationContext_default_def)
      (simp add: demo_cli_def cli_many_def Cli_default_def)
  have "is_currently_acceptable (vd_report d)" using demo_decision_report [OF d(1)] by (simp add: demo_acceptable)
  moreover obtain w' where "gate demo_platform \<lparr>sq_store = ''s'', sq_context = ''c'', sq_record = True\<rparr> (prf_id demo_package) demo_world = Some (Inr False, w')"
    using demo_gate [of demo_world] demo_fields(6,7) by auto
  ultimately have "evaluate_command demo_platform (\<lambda>_ _ _ _ _. []) (demo_cli ''evaluate'') False demo_world = Some (Inr EXIT_OK, w')"
    using d demo_loads [OF demo_fields(4)] demo_policy_read [OF demo_fields(5)] vc
    unfolding evaluate_exits_zero_iff [OF demo_parsed disjI1 [OF refl]]
    by (simp add: demo_cli_reads demo_fields retIO_def not_replayed_def)
  then show ?thesis ..
qed

text \<open>A proof already recorded in the store, sent again on standard input behind the padding.\<close>

definition replay_world :: world where
  "replay_world = demo_world\<lparr>w_stdin := Some (replicate (MAX_INPUT_FILE_BYTES + 1) 0 @ as_bytes ''proof''),
     w_files := (w_files demo_world)(''s'' := File (as_bytes (demo_to_text (seen_doc [seen_key ''c'' (prf_id demo_package)]) @ NEWLINE)))\<rparr>"

theorem oversized_stdin_skips_guardrails_witness:
  "\<exists>w'. verify_command demo_platform (put_value (demo_cli ''verify'') ''proof'' ''-'') replay_world = Some (Inr EXIT_OK, w')"
proof -
  let ?c = "put_value (demo_cli ''verify'') ''proof'' ''-''"
  let ?rest = "replay_world\<lparr>w_stdin := Some (as_bytes ''proof'')\<rparr>"
  have hex: "hex_decode plain_hex (hex_encode plain_hex demo_bytes) = Some demo_bytes" using plain_hex_law by (simp add: hex_law_def)
  have utf8: "valid_utf8 (as_bytes ''proof'')" by (rule valid_utf8_ascii) (simp add: as_bytes_def byte_of_char_def)
  have same: "common ?c = common (demo_cli ''verify'')" "verifier_policy_of ?c = verifier_policy_of (demo_cli ''verify'')"
    "cli_many ?c ''status'' = []" "cli_opt ?c ''out'' = None"
    "cli_ctx ?c ci vp ss = cli_ctx (demo_cli ''verify'') ci vp ss" for ci vp ss
    using demo_cli_reads(2,3) [of "''verify''"]
    by (simp_all add: common_def cli_req_u64_def cli_req_def cli_opt_def cli_opt_u64_def verifier_policy_of_def cli_has_def cli_many_def
        extra_grounded_def cli_ctx_def)
  have seen: "seen_request_of ?c = Inr (Some \<lparr>sq_store = ''s'', sq_context = ''c'', sq_record = True\<rparr>)"
    by (simp add: seen_request_of_def cli_opt_def cli_has_def demo_cli_def)
  have raw: "load_proof_bytes_raw demo_platform ''-'' ?rest = Some (Inr demo_bytes, ?rest\<lparr>w_stdin := Some []\<rparr>)"
    using utf8 hex
    by (simp add: load_proof_bytes_raw_def read_input_text_def read_stdin_text_def bindIO_def retIO_def from_strIO_def liftIO_def Let_def
        demo_platform_def demo_from_str_def demo_wrapper_def req_str_def get_str_def hexR_def MAX_INPUT_FILE_BYTES_def)
  have flags: "proof_path ?c = Inr ''-''" "common ?c = Inr demo_common" "verifier_policy_of ?c = Inr demo_verifier"
    by (simp_all add: same demo_cli_reads) (simp add: proof_path_def cli_opt_def)
  have stdin: "w_stdin replay_world = Some (replicate (MAX_INPUT_FILE_BYTES + 1) 0 @ as_bytes ''proof'')"
    "length (replicate (MAX_INPUT_FILE_BYTES + 1) (0 :: byte)) = MAX_INPUT_FILE_BYTES + 1"
    by (simp_all add: replay_world_def)
  have "verify_proof (pf_b64 demo_platform) (pf_hash demo_platform) (pf_sig demo_platform) (pf_iter demo_platform) demo_bytes
      (cli_ctx ?c demo_common demo_verifier []) = Some (Inr (report_on plain_b64 zero_hash plain_sig remdups demo_ctx demo_package))"
    using demo_report [OF demo_ctx_simps(1,3)] by (simp add: same demo_cli_ctx demo_fields)
  from oversized_stdin_skips_guardrails [OF flags seen same(3,4) stdin raw this demo_crypto demo_valid] show ?thesis .
qed

theorem batch_verify_exits_zero_iff_witness:
  "\<exists>w'. batch_verify_command demo_platform (\<lambda>_ _ _. []) (put_value (demo_cli ''batch-verify'') ''proofs'' ''p,p'') demo_world = Some (Inr EXIT_OK, w')"
proof -
  let ?c = "put_value (demo_cli ''batch-verify'') ''proofs'' ''p,p''"
  have same: "common ?c = common (demo_cli ''batch-verify'')" "verifier_policy_of ?c = verifier_policy_of (demo_cli ''batch-verify'')"
    "cli_many ?c ''status'' = []" "cli_opt ?c ''out'' = None" "input_list ?c ''proofs'' = Inr [''p'', ''p'']" "max_batch_of ?c = Inr 256"
    "cli_ctx ?c ci vp ss = cli_ctx (demo_cli ''batch-verify'') ci vp ss" for ci vp ss
    using demo_cli_reads(2,3) [of "''batch-verify''"]
    by (simp_all add: common_def cli_req_u64_def cli_req_def cli_opt_def cli_opt_u64_def verifier_policy_of_def cli_has_def cli_many_def
        extra_grounded_def cli_ctx_def input_list_def max_batch_of_def)
      (simp_all add: demo_cli_def Cli_default_def list_entries_def)
  have "accepted_under demo_platform ?c demo_ctx demo_bytes"
    using demo_report [OF demo_ctx_simps(1,3)] demo_crypto demo_valid demo_acceptable by (simp add: accepted_under_def demo_fields)
  moreover have "mapIO (\<lambda>fpath. bindIO (load_proof demo_platform fpath) (\<lambda>lp. retIO (lp_canonical lp))) [''p'', ''p''] demo_world =
      Some (Inr [demo_bytes, demo_bytes], demo_world)"
    using demo_loads [OF demo_fields(4)] by (simp add: bindIO_def retIO_def)
  ultimately show ?thesis
    unfolding batch_verify_exits_zero_iff [OF demo_fields(1) same(4)]
    by (simp add: same demo_cli_reads demo_cli_ctx retIO_def)
qed

text \<open>
  The report about a wrapper id that does not match takes the bound id out of the error text, which contains the
  wrapper id: a wrapper id with the separator in it chooses the id that the report names.
\<close>

lemma mismatch_report_names_chosen_id:
  "parse_envelope_mismatch (''p: envelope id mismatch (wrapper says '' @ ''x, bytes bind prf:v1:CHOSEN '' @ '', bytes bind '' @ ''prf:v1:BOUND'' @ '')'')
     = Some (''x'', ''prf:v1:CHOSEN'')"
  by code_simp

end
