(* ===== verification/Cli_Make.thy ===== *)
theory Cli_Make
  imports Cli_Commands
begin

text \<open>
  The commands of \<^verbatim>\<open>proof-cli\<close> that write artifacts: \<^verbatim>\<open>create-event\<close>, \<^verbatim>\<open>attest\<close>, \<^verbatim>\<open>add-evidence\<close>, \<^verbatim>\<open>relate\<close>
  and the four status commands of \<^verbatim>\<open>artifact.rs\<close>, \<^verbatim>\<open>build\<close> of \<^verbatim>\<open>make.rs\<close> and \<^verbatim>\<open>ingest\<close> of \<^verbatim>\<open>ingest.rs\<close>, on the world of
  the commands. What they write is read back by the loaders.
\<close>

section \<open>Writing and reading\<close>

definition write_json :: "platform \<Rightarrow> string \<Rightarrow> json \<Rightarrow> unit io" where
  "write_json pf fpath v =
     (let text = pf_to_string_pretty pf v
      in if fpath = ''-'' then printlnIO text else writeIO pf ''write '' fpath (text @ NEWLINE))"

definition read_input_bytes :: "platform \<Rightarrow> string \<Rightarrow> bytes io" where
  "read_input_bytes pf fpath w =
     (if fpath = ''-''
      then case w_stdin w of
          None \<Rightarrow> Some (Inl (''read stdin: '' @ pf_io_text pf ''-''), w)
        | Some input \<Rightarrow>
            (let buf = take (MAX_INPUT_FILE_BYTES + 1) input;
                 w' = w\<lparr>w_stdin := Some (drop (MAX_INPUT_FILE_BYTES + 1) input)\<rparr>
             in if length buf > MAX_INPUT_FILE_BYTES then Some (Inl ''stdin: input too large (>8388608 bytes)'', w')
                else Some (Inr buf, w'))
      else case w_files w fpath of
          File content \<Rightarrow>
            (let buf = take (MAX_INPUT_FILE_BYTES + 1) content
             in if length buf > MAX_INPUT_FILE_BYTES then Some (Inl (fpath @ '': file too large (>8388608 bytes)''), w)
                else Some (Inr buf, w))
        | _ \<Rightarrow> Some (Inl (''read '' @ fpath @ '': '' @ pf_io_text pf fpath), w))"

text \<open>\<^verbatim>\<open>map_err(|e| e.to_string())\<close> on an error of the library crates.\<close>

definition codeR :: "platform \<Rightarrow> bytes \<Rightarrow> 'a result \<Rightarrow> string + 'a" where
  "codeR pf input r = (case r of Inl code \<Rightarrow> Inl (pf_error_text pf input code) | Inr x \<Rightarrow> Inr x)"

definition hash_ref_from_hex :: "platform \<Rightarrow> string \<Rightarrow> string + hash_ref" where
  "hash_ref_from_hex pf s =
     bindR (ok_or (hex_decode (pf_hex pf) s) (''bad digest hex: '' @ pf_hex_text pf s)) (\<lambda>d.
     bindR (if length d = 32 then Inr Sha256 else if length d = 48 then Inr Sha384
            else Inl ''digest must be 64 (SHA-256) or 96 (SHA-384) hex chars'') (\<lambda>alg.
     codeR pf d (HashRef_new alg d)))"

text \<open>
  A digest given in hex, or computed from a file: the same code in \<^verbatim>\<open>write_event\<close> and \<^verbatim>\<open>write_evidence\<close>, with other flags.
\<close>

definition digest_input :: "platform \<Rightarrow> cli \<Rightarrow> string \<Rightarrow> string \<Rightarrow> string \<Rightarrow> hash_ref io" where
  "digest_input pf c what file_flag hex_flag =
     (case cli_opt c file_flag of
        Some fpath \<Rightarrow>
          bindIO (tryIO (read_input_bytes pf fpath)) (\<lambda>r.
          case r of
            Inl e \<Rightarrow> failIO (what @ '' '' @ file_flag @ '': '' @ e)
          | Inr bs \<Rightarrow> let d = sha256 (pf_hash pf) bs in liftIO (codeR pf d (HashRef_new Sha256 d)))
      | None \<Rightarrow>
          bindIO (usageIO pf (ok_or (cli_opt c hex_flag) (MissingEither hex_flag file_flag))) (\<lambda>s.
          liftIO (hash_ref_from_hex pf s)))"

text \<open>A wrapper file: an object of strings, its keys in the order of \<^verbatim>\<open>serde_json\<close>'s map.\<close>

definition wrapper_doc :: "(string \<times> string) list \<Rightarrow> json" where
  "wrapper_doc kvs = JObject (map (\<lambda>(k, v). (k, JString v)) kvs)"

section \<open>Keys\<close>

definition test_key :: ed25519_key where
  "test_key = Ed25519Key_from_seed (replicate 32 9)"

definition load_key_material :: "platform \<Rightarrow> string \<Rightarrow> string \<Rightarrow> string + ed25519_key" where
  "load_key_material pf seed what =
     (if seed = ''test'' then Inr test_key
      else
        bindR (ok_or (hex_decode (pf_hex pf) seed) (what @ '' bad hex: '' @ pf_hex_text pf seed)) (\<lambda>bs.
        if length bs = 32 then Inr (Ed25519Key_from_seed bs)
        else Inl (pf_usage_text pf (BadKeyLength what))))"

definition load_key_opt :: "platform \<Rightarrow> cli \<Rightarrow> ed25519_key io" where
  "load_key_opt pf c =
     (case (cli_opt c ''seed'', cli_opt c ''seed-file'') of
        (Some _, Some _) \<Rightarrow> usageIO pf (Inl SeedConflict)
      | (None, Some fpath) \<Rightarrow>
          bindIO (read_input_file pf fpath) (\<lambda>seed. liftIO (load_key_material pf (str_trim seed) ''--seed-file''))
      | (Some seed, None) \<Rightarrow>
          if cli_has c ''production'' then usageIO pf (Inl SeedInArguments)
          else liftIO (load_key_material pf seed ''--seed'')
      | (None, None) \<Rightarrow> usageIO pf (Inl (MissingEither ''seed'' ''seed-file'')))"

section \<open>Events, attestations, evidence\<close>

definition event_doc :: "platform \<Rightarrow> created_event \<Rightarrow> json" where
  "event_doc pf created =
     wrapper_doc [(''cbor'', hex_encode (pf_hex pf) (ce_canonical created)), (''id'', ce_id created), (''kind'', ''event'')]"

definition write_event :: "platform \<Rightarrow> cli \<Rightarrow> string io" where
  "write_event pf c =
     bindIO (digest_input pf c ''create-event'' ''payload-file'' ''payload-hex'') (\<lambda>payload_ref.
     bindIO (usageIO pf (cli_req c ''type'')) (\<lambda>event_type.
     bindIO (usageIO pf (cli_req c ''subject'')) (\<lambda>subject.
     bindIO (usageIO pf (cli_req_u64 c ''effective-at'')) (\<lambda>effective_at.
     bindIO (usageIO pf (parse_fields (cli_opt c ''meta''))) (\<lambda>metadata.
     let content = \<lparr>ev_v = 1, ev_type = event_type, ev_subject = subject, ev_effective_at = effective_at,
           ev_payload_ref = payload_ref, ev_metadata = metadata\<rparr>
     in bindIO (liftIO (labelR pf ''create-event'' [] (create_event (pf_b64 pf) (pf_hash pf) content limits_of_cli))) (\<lambda>created.
        bindIO (usageIO pf (cli_req c ''out'')) (\<lambda>out.
        bindIO (write_json pf out (event_doc pf created)) (\<lambda>_.
        retIO (ce_id created)))))))))"

definition check_ref_prefix :: "cli \<Rightarrow> string \<Rightarrow> string \<Rightarrow> usage_error + unit" where
  "check_ref_prefix c flag prefix =
     (case cli_opt c flag of
        Some r \<Rightarrow> if starts_with r prefix then Inr () else Inl (WrongReference flag r)
      | None \<Rightarrow> Inr ())"

definition check_digest_field :: "cli \<Rightarrow> string \<times> meta_value \<Rightarrow> usage_error + unit" where
  "check_digest_field c = (\<lambda>(k, v).
     if k = ''evidence_digest''
     then case v of
         MText s \<Rightarrow>
           (let norm = normalize_hex s
            in if \<not> ((length norm = 64 \<or> length norm = 96) \<and> list_all is_ascii_hexdigit norm) then Inl (DigestClaimMalformed s)
               else if cli_opt c ''evidence-ref'' = None then Inl DigestClaimUnbound
               else Inr ())
       | _ \<Rightarrow> Inl DigestClaimNotText
     else Inr ())"

definition attestation_doc :: "platform \<Rightarrow> created_attestation \<Rightarrow> json" where
  "attestation_doc pf created =
     wrapper_doc [(''cbor'', hex_encode (pf_hex pf) (ca_canonical created)), (''id'', ca_id created),
       (''issuer'', att_issuer (ca_content created)), (''kind'', ''attestation''),
       (''sign1_b64'', b64u_nopad (pf_b64 pf) (ca_sign1 created))]"

definition write_attestation :: "platform \<Rightarrow> cli \<Rightarrow> string io" where
  "write_attestation pf c =
     bindIO (load_key_opt pf c) (\<lambda>key.
     bindIO (usageIO pf (check_ref_prefix c ''evidence-ref'' ''evd:v1:'')) (\<lambda>_.
     bindIO (usageIO pf (parse_fields (cli_opt c ''claim''))) (\<lambda>fields.
     bindIO (usageIO pf (mapR (check_digest_field c) fields)) (\<lambda>_.
     bindIO (usageIO pf (cli_req c ''subject'')) (\<lambda>subject.
     bindIO (usageIO pf (cli_req c ''claim-type'')) (\<lambda>type_name.
     bindIO (usageIO pf (cli_req_u64 c ''issued-at'')) (\<lambda>issued_at.
     bindIO (usageIO pf (cli_opt_u64 c ''expires-at'')) (\<lambda>expires_at.
     let content = \<lparr>att_v = 1, att_issuer = key_ref (pf_b64 pf) (pf_sig pf) key, att_subject = subject,
           att_claim = \<lparr>claim_type = type_name, claim_fields = fields\<rparr>, att_issued_at = issued_at, att_expires_at = expires_at,
           att_evidence_ref = cli_opt c ''evidence-ref''\<rparr>
     in bindIO (liftIO (labelR pf ''attest'' [] (attest (pf_b64 pf) (pf_hash pf) (pf_sig pf) content key limits_of_cli))) (\<lambda>created.
        bindIO (usageIO pf (cli_req c ''out'')) (\<lambda>out.
        bindIO (write_json pf out (attestation_doc pf created)) (\<lambda>_.
        retIO (ca_id created))))))))))))"

definition evidence_doc :: "platform \<Rightarrow> created_evidence \<Rightarrow> json" where
  "evidence_doc pf created =
     wrapper_doc [(''cbor'', hex_encode (pf_hex pf) (cv_canonical created)), (''id'', cv_id created), (''kind'', ''evidence'')]"

definition write_evidence :: "platform \<Rightarrow> cli \<Rightarrow> string io" where
  "write_evidence pf c =
     bindIO (digest_input pf c ''add-evidence'' ''digest-file'' ''digest-hex'') (\<lambda>digest.
     bindIO (usageIO pf (check_ref_prefix c ''attestation-ref'' ''att:v1:'')) (\<lambda>_.
     bindIO (usageIO pf (cli_req c ''kind'')) (\<lambda>kind.
     bindIO (liftIO (labelR pf ''add-evidence'' [] (make_evidence (pf_b64 pf) (pf_hash pf) kind digest
         (cli_opt c ''attestation-ref'') (cli_opt c ''hint'') limits_of_cli))) (\<lambda>created.
     bindIO (usageIO pf (cli_req c ''out'')) (\<lambda>out.
     bindIO (write_json pf out (evidence_doc pf created)) (\<lambda>_.
     retIO (cv_id created)))))))"

section \<open>Relationships\<close>

text \<open>\<^verbatim>\<open>s.splitn(3, ':')\<close> with all three parts present.\<close>

definition three_parts :: "string \<Rightarrow> (string \<times> string \<times> string) option" where
  "three_parts s =
     Option.bind (split_once (CHR '':'') s) (\<lambda>(p, r).
     Option.bind (split_once (CHR '':'') r) (\<lambda>(v, rest). Some (p, v, rest)))"

definition cli_looks_like_artifact_id :: "string \<Rightarrow> bool" where
  "cli_looks_like_artifact_id s \<longleftrightarrow>
     (case three_parts s of
        Some (p, v, rest) \<Rightarrow> v = ''v1'' \<and> p \<in> set [''evt'', ''att'', ''evd'', ''rel'', ''prf''] \<and> rest \<noteq> []
      | None \<Rightarrow> False)"

definition looks_shaped :: "string \<Rightarrow> bool" where
  "looks_shaped s \<longleftrightarrow>
     (case three_parts s of
        Some (p, v, rest) \<Rightarrow>
          p \<noteq> [] \<and> CHR '' '' \<notin> set p \<and> CHR ''/'' \<notin> set p \<and> length v > 1 \<and> hd v = CHR ''v''
          \<and> list_all (\<lambda>d. d \<in> set ''0123456789'') (tl v) \<and> rest \<noteq> []
      | None \<Rightarrow> False)"

definition is_free_identity_ref :: "string \<Rightarrow> bool" where
  "is_free_identity_ref s \<longleftrightarrow>
     s \<noteq> [] \<and> length s \<le> 256 \<and> \<not> list_ex (\<lambda>b. b \<in> {CHR '' '', CHR 0x09, CHR 0x0A, CHR 0x0C, CHR 0x0D}) s \<and> \<not> looks_shaped s"

definition check_endpoint :: "cli \<Rightarrow> bool \<Rightarrow> string \<Rightarrow> usage_error + unit" where
  "check_endpoint c is_equivalent flag =
     bindR (cli_req c flag) (\<lambda>v.
     if cli_looks_like_artifact_id v then Inr ()
     else if is_equivalent \<and> is_free_identity_ref v then Inr ()
     else Inl (NotArtifactId flag v))"

definition check_grounding_ref :: "cli \<Rightarrow> string \<Rightarrow> usage_error + unit" where
  "check_grounding_ref c flag =
     (case cli_opt c flag of
        None \<Rightarrow> Inr ()
      | Some v \<Rightarrow>
          if \<not> cli_looks_like_artifact_id v then Inl (NotArtifactId flag v)
          else if \<not> starts_with v (if flag = ''evidence-ref'' then ''evd:v1:'' else ''att:v1:'') then Inl (WrongReference flag v)
          else Inr ())"

definition relationship_doc :: "platform \<Rightarrow> created_relationship \<Rightarrow> json" where
  "relationship_doc pf created =
     wrapper_doc [(''cbor'', hex_encode (pf_hex pf) (cr_canonical created)), (''id'', cr_id created), (''kind'', ''relationship'')]"

definition write_relationship :: "platform \<Rightarrow> cli \<Rightarrow> string io" where
  "write_relationship pf c =
     bindIO (usageIO pf (cli_req c ''type'')) (\<lambda>rel_type.
     bindIO (usageIO pf (mapR (check_endpoint c (rel_type = EQUIVALENT)) [''from'', ''to''])) (\<lambda>_.
     bindIO (usageIO pf (mapR (check_grounding_ref c) [''evidence-ref'', ''attestation-ref''])) (\<lambda>_.
     bindIO (usageIO pf (cli_req c ''from'')) (\<lambda>from_id.
     bindIO (usageIO pf (cli_req c ''to'')) (\<lambda>to_id.
     let content = \<lparr>rel_v = 1, rel_from = from_id, rel_ty = rel_type, rel_to = to_id,
           rel_evidence_ref = cli_opt c ''evidence-ref'', rel_attestation_ref = cli_opt c ''attestation-ref''\<rparr>
     in if \<not> cli_has c ''allow-ungrounded'' \<and> requires_grounding rel_type
           \<and> rel_evidence_ref content = None \<and> rel_attestation_ref content = None
        then usageIO pf (Inl (UngroundedEdge rel_type))
        else
          bindIO (liftIO (labelR pf ''relate'' [] (make_relationship (pf_b64 pf) (pf_hash pf) content limits_of_cli))) (\<lambda>created.
          bindIO (usageIO pf (cli_req c ''out'')) (\<lambda>out.
          bindIO (write_json pf out (relationship_doc pf created)) (\<lambda>_.
          retIO (cr_id created)))))))))"

section \<open>Status objects\<close>

definition status_doc :: "platform \<Rightarrow> created_attestation \<Rightarrow> json" where
  "status_doc pf created =
     wrapper_doc [(''cbor'', hex_encode (pf_hex pf) (ca_canonical created)), (''claim_type'', claim_type (att_claim (ca_content created))),
       (''id'', ca_id created), (''issuer'', att_issuer (ca_content created)), (''kind'', ''status''),
       (''sign1_b64'', b64u_nopad (pf_b64 pf) (ca_sign1 created))]"

definition either_flag :: "cli \<Rightarrow> string \<Rightarrow> string \<Rightarrow> usage_error + string" where
  "either_flag c flag alias =
     ok_or (case cli_opt c flag of Some v \<Rightarrow> Some v | None \<Rightarrow> cli_opt c alias) (MissingEither flag alias)"

definition make_status :: "platform \<Rightarrow> cli \<Rightarrow> string \<Rightarrow> ed25519_key \<Rightarrow> u64 \<Rightarrow> usage_error + created_attestation result" where
  "make_status pf c kind key at =
     (if kind = ''revoke''
      then bindR (cli_req c ''target'') (\<lambda>target.
           Inr (revoke_attestation (pf_b64 pf) (pf_hash pf) (pf_sig pf) target (cli_opt c ''reason'') key at limits_of_cli))
      else if kind = ''withdraw''
      then bindR (cli_req c ''target'') (\<lambda>target.
           Inr (withdraw_attestation (pf_b64 pf) (pf_hash pf) (pf_sig pf) target (cli_opt c ''reason'') key at limits_of_cli))
      else if kind = ''compromise''
      then bindR (cli_req_u64 c ''compromised-at'') (\<lambda>at_time.
           bindR (cli_req c ''target'') (\<lambda>target.
           Inr (compromise_attestation (pf_b64 pf) (pf_hash pf) (pf_sig pf) target at_time (cli_opt c ''reason'') key at limits_of_cli)))
      else bindR (either_flag c ''old'' ''target'') (\<lambda>old.
           bindR (either_flag c ''new'' ''successor'') (\<lambda>new.
           Inr (supersede_attestation (pf_b64 pf) (pf_hash pf) (pf_sig pf) old new key at limits_of_cli))))"

definition write_status_object :: "platform \<Rightarrow> cli \<Rightarrow> string \<Rightarrow> string io" where
  "write_status_object pf c kind =
     bindIO (load_key_opt pf c) (\<lambda>key.
     bindIO (usageIO pf (cli_req_u64 c ''at'')) (\<lambda>at.
     bindIO (usageIO pf (make_status pf c kind key at)) (\<lambda>made.
     bindIO (liftIO (labelR pf kind [] made)) (\<lambda>created.
     bindIO (usageIO pf (cli_req c ''out'')) (\<lambda>out.
     bindIO (write_json pf out (status_doc pf created)) (\<lambda>_.
     retIO (ca_id created)))))))"

section \<open>Proofs\<close>

definition proof_doc :: "platform \<Rightarrow> string \<Rightarrow> bytes \<Rightarrow> json" where
  "proof_doc pf i canonical =
     wrapper_doc [(''cbor'', hex_encode (pf_hex pf) canonical), (''id'', i), (''kind'', ''proof'')]"

definition write_proof_file :: "platform \<Rightarrow> string \<Rightarrow> string \<Rightarrow> bytes \<Rightarrow> unit io" where
  "write_proof_file pf fpath i canonical = write_json pf fpath (proof_doc pf i canonical)"

definition opt_input_list :: "cli \<Rightarrow> string \<Rightarrow> usage_error + string list" where
  "opt_input_list c name = (if cli_many c name = [] then Inr [] else input_list c name)"

definition proposition_of :: "cli \<Rightarrow> usage_error + proposition_content" where
  "proposition_of c =
     bindR (parse_fields (cli_opt c ''context'')) (\<lambda>context.
     bindR (cli_req c ''kind'') (\<lambda>kind.
     bindR (cli_req c ''subject'') (\<lambda>subject.
     bindR (cli_req c ''predicate'') (\<lambda>predicate.
     bindR (cli_opt_u64 c ''at-time'') (\<lambda>at_time.
     Inr \<lparr>prop_v = 1, prop_kind = kind, prop_subject = subject, prop_predicate = predicate, prop_object = cli_opt c ''object'',
          prop_at_time = at_time, prop_context = context\<rparr>)))))"

definition created_event_of :: "platform \<Rightarrow> event_content \<Rightarrow> string + created_event" where
  "created_event_of pf content = codeR pf [] (create_event (pf_b64 pf) (pf_hash pf) content limits_of_cli)"

definition created_evidence_of :: "platform \<Rightarrow> evidence \<Rightarrow> string + created_evidence" where
  "created_evidence_of pf content =
     codeR pf [] (make_evidence (pf_b64 pf) (pf_hash pf) (evd_kind content) (evd_digest content) (evd_attestation_ref content)
       (evd_hint content) limits_of_cli)"

definition created_relationship_of :: "platform \<Rightarrow> relationship \<Rightarrow> string + created_relationship" where
  "created_relationship_of pf content = codeR pf [] (make_relationship (pf_b64 pf) (pf_hash pf) content limits_of_cli)"

definition build_command :: "platform \<Rightarrow> cli \<Rightarrow> string io" where
  "build_command pf c =
     bindIO (usageIO pf (proposition_of c)) (\<lambda>prop.
     bindIO (usageIO pf (cli_req_u64 c ''created-at'')) (\<lambda>created_at.
     bindIO (usageIO pf (input_list c ''events'')) (\<lambda>event_paths.
     bindIO (mapIO (\<lambda>fpath. bindIO (load_event pf fpath) (\<lambda>x. liftIO (created_event_of pf x))) event_paths) (\<lambda>events.
     bindIO (usageIO pf (input_list c ''attestations'')) (\<lambda>attestation_paths.
     bindIO (mapIO (load_attestation pf) attestation_paths) (\<lambda>attestations.
     bindIO (usageIO pf (opt_input_list c ''evidence'')) (\<lambda>evidence_paths.
     bindIO (mapIO (\<lambda>fpath. bindIO (load_evidence pf fpath) (\<lambda>x. liftIO (created_evidence_of pf x))) evidence_paths) (\<lambda>evidence.
     bindIO (usageIO pf (opt_input_list c ''relationships'')) (\<lambda>relationship_paths.
     bindIO (mapIO (\<lambda>fpath. bindIO (load_relationship pf fpath) (\<lambda>x. liftIO (created_relationship_of pf x))) relationship_paths) (\<lambda>relationships.
     let b = fold (\<lambda>x b. add_event b x) events (ProofBuilder_new prop created_at);
         b = fold (\<lambda>x b. add_attestation b x) attestations b;
         b = fold (\<lambda>x b. add_evidence b x) evidence b;
         b = fold (\<lambda>x b. add_relationship b x) relationships b
     in bindIO (liftIO (labelR pf ''build'' [] (build (pf_b64 pf) (pf_hash pf) b limits_of_cli))) (\<lambda>built.
        bindIO (usageIO pf (cli_req c ''out'')) (\<lambda>out.
        bindIO (write_proof_file pf out (bp_id built) (bp_canonical built)) (\<lambda>_.
        bindIO (if out = ''-'' then retIO () else printlnIO (''proof   '' @ bp_id built @ '' -> '' @ out)) (\<lambda>_.
        retIO (bp_id built)))))))))))))))"

section \<open>Ingestion\<close>

definition line_str :: "string \<Rightarrow> json_obj \<Rightarrow> string \<Rightarrow> string + string" where
  "line_str label obj name =
     (case Option.bind (map_of obj name) json_str of
        Some (x # s) \<Rightarrow> Inr (x # s)
      | _ \<Rightarrow> Inl (label @ '': missing non-empty string field `'' @ name @ ''`''))"

definition line_meta :: "string \<Rightarrow> json_obj \<Rightarrow> string + string option" where
  "line_meta label obj =
     (case map_of obj ''meta'' of
        None \<Rightarrow> Inr None
      | Some (JString s) \<Rightarrow> Inr (Some s)
      | Some _ \<Rightarrow> Inl (label @ '': `meta` must be a string''))"

definition line_known :: "string \<Rightarrow> json_obj \<Rightarrow> string + unit" where
  "line_known label obj =
     (case find (\<lambda>k. k \<notin> set [''type'', ''subject'', ''payload_hex'', ''effective_at'', ''meta'']) (map fst obj) of
        None \<Rightarrow> Inr ()
      | Some k \<Rightarrow> Inl (label @ '': unknown field `'' @ k @ ''`''))"

definition prefixR :: "string \<Rightarrow> string + 'a \<Rightarrow> string + 'a" where
  "prefixR label r = (case r of Inl e \<Rightarrow> Inl (label @ '': '' @ e) | Inr x \<Rightarrow> Inr x)"

definition usageR :: "platform \<Rightarrow> usage_error + 'a \<Rightarrow> string + 'a" where
  "usageR pf r = (case r of Inl u \<Rightarrow> Inl (pf_usage_text pf u) | Inr x \<Rightarrow> Inr x)"

definition line_event :: "platform \<Rightarrow> string \<Rightarrow> json \<Rightarrow> string + created_event" where
  "line_event pf label v =
     (case v of
        JObject obj \<Rightarrow>
          bindR (line_str label obj ''type'') (\<lambda>event_type.
          bindR (line_str label obj ''subject'') (\<lambda>subject.
          bindR (line_str label obj ''payload_hex'') (\<lambda>payload_hex.
          bindR (ok_or (case map_of obj ''effective_at'' of Some (JNumber n) \<Rightarrow> as_u64 n | _ \<Rightarrow> None)
            (label @ '': missing u64 field `effective_at`'')) (\<lambda>effective_at.
          bindR (line_meta label obj) (\<lambda>meta.
          bindR (line_known label obj) (\<lambda>_.
          bindR (prefixR label (hash_ref_from_hex pf payload_hex)) (\<lambda>payload_ref.
          bindR (prefixR label (usageR pf (parse_fields meta))) (\<lambda>metadata.
          labelR pf label [] (create_event (pf_b64 pf) (pf_hash pf) \<lparr>ev_v = 1, ev_type = event_type, ev_subject = subject,
            ev_effective_at = effective_at, ev_payload_ref = payload_ref, ev_metadata = metadata\<rparr> limits_of_cli)))))))))
      | _ \<Rightarrow> Inl (label @ '': must be a JSON object''))"

definition ingested_path :: "string \<Rightarrow> string \<Rightarrow> string" where
  "ingested_path out_dir i = out_dir @ ''/'' @ i @ ''.json''"

definition ingest_line :: "platform \<Rightarrow> string \<Rightarrow> string \<Rightarrow> bool \<Rightarrow> json \<Rightarrow> string io" where
  "ingest_line pf label out_dir dry_run v =
     bindIO (liftIO (line_event pf label v)) (\<lambda>created.
     bindIO (if dry_run then retIO () else write_json pf (ingested_path out_dir (ce_id created)) (event_doc pf created)) (\<lambda>_.
     retIO (ce_id created)))"

definition ingest_text :: "platform \<Rightarrow> string \<Rightarrow> bool \<Rightarrow> nat \<Rightarrow> string \<Rightarrow> string io" where
  "ingest_text pf out_dir dry_run n line =
     (let label = ''line '' @ show_nat n
      in case pf_from_str pf line of
          None \<Rightarrow> failIO (label @ '': bad JSON: '' @ pf_json_text pf line)
        | Some v \<Rightarrow> ingest_line pf label out_dir dry_run v)"

fun ingest_lines ::
  "(nat \<Rightarrow> string \<Rightarrow> string io) \<Rightarrow> bool \<Rightarrow> string list \<Rightarrow> nat \<Rightarrow> string list \<Rightarrow> string list \<Rightarrow> (string list \<times> string list) io" where
  "ingest_lines f skip_bad [] n ids skipped = retIO (ids, skipped)"
| "ingest_lines f skip_bad (raw # raws) n ids skipped =
     (let line = str_trim raw
      in if line = [] then ingest_lines f skip_bad raws n ids skipped
         else bindIO (tryIO (f (Suc n) line)) (\<lambda>r.
              case r of
                Inr i \<Rightarrow> ingest_lines f skip_bad raws (Suc n) (ids @ [i]) skipped
              | Inl e \<Rightarrow> if skip_bad then ingest_lines f skip_bad raws (Suc n) ids (skipped @ [e])
                         else failIO (''ingest: '' @ e)))"

text \<open>Creating a directory succeeds or fails and changes no file.\<close>

definition create_dir_all :: "platform \<Rightarrow> string \<Rightarrow> string \<Rightarrow> unit io" where
  "create_dir_all pf what dir w =
     Some (if w_writable w dir then Inr () else Inl (what @ dir @ '': '' @ pf_io_text pf dir), w)"

definition manifest :: "string list \<Rightarrow> string list \<Rightarrow> bool \<Rightarrow> json" where
  "manifest ids skipped dry_run =
     JObject [(''dry_run'', JBool dry_run), (''ids'', JArray (map JString ids)),
       (''ingested'', JNumber (PosInt (word_of_nat (length ids)))), (''skipped'', JArray (map JString skipped))]"

definition ingest_command :: "platform \<Rightarrow> cli \<Rightarrow> int io" where
  "ingest_command pf c =
     bindIO (read_input_text pf (case cli_opt c ''in'' of Some src \<Rightarrow> src | None \<Rightarrow> ''-'')) (\<lambda>(text, _).
     bindIO (usageIO pf (cli_req c ''out-dir'')) (\<lambda>out_dir.
     bindIO (if cli_has c ''dry-run'' then retIO () else create_dir_all pf ''ingest: mkdir '' out_dir) (\<lambda>_.
     bindIO (ingest_lines (ingest_text pf out_dir (cli_has c ''dry-run'')) (cli_has c ''skip-bad'')
         (split_on (\<lambda>c. c = CHR 0x0A) text) 0 [] []) (\<lambda>(ids, skipped).
     let doc = manifest ids skipped (cli_has c ''dry-run'')
     in bindIO (case cli_opt c ''out'' of
            None \<Rightarrow> printlnIO (pf_to_string_pretty pf doc)
          | Some fpath \<Rightarrow> write_json pf fpath doc) (\<lambda>_.
        retIO (if skipped = [] then EXIT_OK else EXIT_FAIL))))))"

section \<open>What a writer leaves is what a loader reads\<close>

text \<open>
  What is relied on of \<^verbatim>\<open>serde_json\<close>: the pretty form of an object of UTF-8 strings, a newline behind it, is UTF-8 and
  parses to the same object; and of \<^verbatim>\<open>base64\<close>: its output is text.
\<close>

definition wrapper_law :: "platform \<Rightarrow> bool" where
  "wrapper_law pf \<longleftrightarrow>
     (\<forall>kvs. sorted_wrt (<) (map fst kvs) \<and> list_all (\<lambda>(k, v). valid_utf8 (as_bytes k) \<and> valid_utf8 (as_bytes v)) kvs \<longrightarrow>
        valid_utf8 (as_bytes (pf_to_string_pretty pf (wrapper_doc kvs) @ NEWLINE))
      \<and> pf_from_str pf (pf_to_string_pretty pf (wrapper_doc kvs) @ NEWLINE) = Some (wrapper_doc kvs))"

definition b64_text_law :: "base64_engine \<Rightarrow> bool" where
  "b64_text_law b64 \<longleftrightarrow> (\<forall>bs. valid_utf8 (as_bytes (b64_encode b64 bs)))"

definition file_fits :: "string \<Rightarrow> world \<Rightarrow> bool" where
  "file_fits fpath w \<longleftrightarrow> (case w_files w fpath of File bs \<Rightarrow> length bs \<le> MAX_INPUT_FILE_BYTES | _ \<Rightarrow> True)"

lemma codeR_iff [io_iff]: "codeR pf input r = Inr y \<longleftrightarrow> r = Inr y"
  by (auto simp: codeR_def split: sum.splits)

lemma write_json_iff [io_iff]:
  "fpath \<noteq> ''-'' \<Longrightarrow> write_json pf fpath v w = Some (Inr u, w') \<longleftrightarrow>
     w_writable w fpath \<and> w' = w\<lparr>w_files := (w_files w)(fpath := File (as_bytes (pf_to_string_pretty pf v @ NEWLINE)))\<rparr>"
  by (simp add: write_json_def Let_def writeIO_iff)

lemma hex_utf8: "hex_law hx \<Longrightarrow> valid_utf8 (as_bytes (hex_encode hx bs))"
  using hex_char_small unfolding hex_law_def list_all_iff as_bytes_def
  by (intro valid_utf8_ascii) (unfold set_map, blast)

lemma id_utf8:
  assumes "b64_text_law b64"
  shows "valid_utf8 (as_bytes (event_id b64 h bs))" "valid_utf8 (as_bytes (attestation_id b64 h bs))"
    "valid_utf8 (as_bytes (evidence_id b64 h bs))" "valid_utf8 (as_bytes (relationship_id b64 h bs))"
    "valid_utf8 (as_bytes (b64u_nopad b64 bs))" "valid_utf8 (as_bytes (key_ref b64 e k))"
  using assms unfolding b64_text_law_def event_id_def attestation_id_def evidence_id_def relationship_id_def id_with_def b64u_nopad_def key_ref_def
  by (simp_all add: as_bytes_def byte_of_char_def in_range_def)

lemma read_doc:
  assumes "valid_utf8 (as_bytes (pf_to_string_pretty pf v @ NEWLINE))" "pf_from_str pf (pf_to_string_pretty pf v @ NEWLINE) = Some v"
    and "fpath \<noteq> ''-''" "w_files w fpath = File (as_bytes (pf_to_string_pretty pf v @ NEWLINE))" "file_fits fpath w"
  shows "read_json pf fpath w = Some (Inr v, w)" "load_proof pf fpath w = Some (unwrap_proof pf fpath v, w)"
proof -
  let ?t = "pf_to_string_pretty pf v @ NEWLINE"
  have "length (as_bytes ?t) \<le> MAX_INPUT_FILE_BYTES" using assms(4,5) by (simp add: file_fits_def)
  then have "read_input_text pf fpath w = Some (Inr (?t, fpath), w)" "from_strIO pf fpath ?t w = Some (Inr v, w)"
    using assms(1-4) by (simp_all add: read_input_text_def read_input_file_def bindIO_def retIO_def from_strIO_def liftIO_def)
  then show "read_json pf fpath w = Some (Inr v, w)" "load_proof pf fpath w = Some (unwrap_proof pf fpath v, w)"
    by (simp_all add: read_json_def load_proof_def bindIO_def liftIO_def)
qed

lemma read_wrapper:
  assumes "wrapper_law pf" "sorted_wrt (<) (map fst kvs)" "list_all (\<lambda>(k, v). valid_utf8 (as_bytes k) \<and> valid_utf8 (as_bytes v)) kvs"
    and "fpath \<noteq> ''-''" "w_files w fpath = File (as_bytes (pf_to_string_pretty pf (wrapper_doc kvs) @ NEWLINE))" "file_fits fpath w"
  shows "read_json pf fpath w = Some (Inr (wrapper_doc kvs), w)" "load_proof pf fpath w = Some (unwrap_proof pf fpath (wrapper_doc kvs), w)"
  using assms(1-3) unfolding wrapper_law_def by (blast intro: read_doc [OF _ _ assms(4-6)])+

lemma wrapper_doc_simps:
  "json_get (wrapper_doc kvs) k = map_option JString (map_of kvs k)"
  "get_str (wrapper_doc kvs) k = map_of kvs k"
  "reject_unknown_wrapper_fields (wrapper_doc kvs) label allowed =
     (if set (map fst kvs) \<subseteq> set allowed then Inr () else reject_unknown_wrapper_fields (wrapper_doc kvs) label allowed)"
proof -
  show get: "json_get (wrapper_doc kvs) k = map_option JString (map_of kvs k)"
    by (induction kvs) (auto simp: wrapper_doc_def)
  show "get_str (wrapper_doc kvs) k = map_of kvs k" unfolding get_str_def get by (cases "map_of kvs k") simp_all
  have keys: "map fst (map (\<lambda>(k, v). (k, JString v)) kvs) = map fst kvs" by (induction kvs) auto
  show "reject_unknown_wrapper_fields (wrapper_doc kvs) label allowed =
     (if set (map fst kvs) \<subseteq> set allowed then Inr () else reject_unknown_wrapper_fields (wrapper_doc kvs) label allowed)"
    unfolding reject_unknown_wrapper_fields_def wrapper_doc_def json.case keys
    by (auto simp: filter_empty_conv subset_iff split: list.splits)
qed


lemma wrapper_strs:
  "req_str (wrapper_doc kvs) label k = ok_or (map_of kvs k) (label @ '': missing `'' @ k @ ''`'')"
  "opt_str (wrapper_doc kvs) label k = Inr (map_of kvs k)"
  by (auto simp: req_str_def opt_str_def wrapper_doc_simps(1,2) ok_or_def split: option.splits)

lemma hexR_doc: "hex_law (pf_hex pf) \<Longrightarrow> hexR pf label (hex_encode (pf_hex pf) bs) = Inr bs"
  by (simp add: hexR_def hex_law_def ok_or_def)

lemma keys_allowed: "set (map fst kvs) \<subseteq> set allowed \<Longrightarrow> reject_unknown_wrapper_fields (wrapper_doc kvs) label allowed = Inr ()"
  by (subst wrapper_doc_simps(3)) simp

lemma event_created:
  assumes "b64_law b64" "sha256_law h" "create_event b64 h content l = Inr created"
  shows "verify_event b64 h (ce_canonical created) (Some (ce_id created)) l = Inr (content, ce_id created)"
    "bindR (decode_strict (ce_canonical created) l) (\<lambda>v. cbor_to_event v l) = Inr content"
    "ce_id created = event_id b64 h (ce_canonical created)" "event_member_id b64 h content = Inr (ce_id created)"
  using assms(3) verify_id_eq [OF assms(1,2)]
  by (auto simp: event_member_id_def create_event_def verify_event_def check_expected_id_def event_id_def Let_def result_iff decode_check_eq split: if_splits)

lemma evidence_created:
  assumes "b64_law b64" "sha256_law h" "make_evidence b64 h kind digest r hint l = Inr created"
  shows "verify_evidence b64 h (cv_canonical created) (Some (cv_id created)) l = Inr (cv_content created, cv_id created)"
    "bindR (decode_strict (cv_canonical created) l) (\<lambda>v. cbor_to_evidence v l) = Inr (cv_content created)"
    "cv_id created = evidence_id b64 h (cv_canonical created)" "evidence_member_id b64 h (cv_content created) = cv_id created"
    "evd_kind (cv_content created) = kind" "evd_attestation_ref (cv_content created) = r"
    "evd_digest (cv_content created) = digest" "evd_hint (cv_content created) = hint"
  using assms(3) verify_id_eq [OF assms(1,2)]
  by (auto simp: evidence_member_id_def make_evidence_def verify_evidence_def check_expected_id_def evidence_id_def Let_def result_iff decode_check_eq split: if_splits)

lemma relationship_created:
  assumes "b64_law b64" "sha256_law h" "make_relationship b64 h content l = Inr created"
  shows "verify_relationship b64 h (cr_canonical created) (Some (cr_id created)) l = Inr (content, cr_id created)"
    "bindR (decode_strict (cr_canonical created) l) (\<lambda>v. cbor_to_relationship v l) = Inr content"
    "cr_id created = relationship_id b64 h (cr_canonical created)" "relationship_member_id b64 h content = cr_id created"
  using assms(3) verify_id_eq [OF assms(1,2)]
  by (auto simp: relationship_member_id_def make_relationship_def verify_relationship_def check_expected_id_def relationship_id_def Let_def result_iff decode_check_eq split: if_splits)

definition holds_doc :: "platform \<Rightarrow> string \<Rightarrow> json \<Rightarrow> world \<Rightarrow> bool" where
  "holds_doc pf fpath v w \<longleftrightarrow>
     fpath \<noteq> ''-'' \<and> w_files w fpath = File (as_bytes (pf_to_string_pretty pf v @ NEWLINE)) \<and> file_fits fpath w"

lemma doc_read:
  assumes "wrapper_law pf" "hex_law (pf_hex pf)" "holds_doc pf fpath (wrapper_doc ((''cbor'', hex_encode (pf_hex pf) bs) # kvs)) w"
    and "sorted_wrt (<) (''cbor'' # map fst kvs)" "list_all (\<lambda>(k, v). valid_utf8 (as_bytes k) \<and> valid_utf8 (as_bytes v)) kvs"
  shows "read_json pf fpath w = Some (Inr (wrapper_doc ((''cbor'', hex_encode (pf_hex pf) bs) # kvs)), w)"
    "load_proof pf fpath w = Some (unwrap_proof pf fpath (wrapper_doc ((''cbor'', hex_encode (pf_hex pf) bs) # kvs)), w)"
proof -
  have "list_all (\<lambda>(k, v). valid_utf8 (as_bytes k) \<and> valid_utf8 (as_bytes v)) ((''cbor'', hex_encode (pf_hex pf) bs) # kvs)"
    using assms(5) hex_utf8 [OF assms(2)] by (simp add: as_bytes_def byte_of_char_def in_range_def)
  then show "read_json pf fpath w = Some (Inr (wrapper_doc ((''cbor'', hex_encode (pf_hex pf) bs) # kvs)), w)"
    "load_proof pf fpath w = Some (unwrap_proof pf fpath (wrapper_doc ((''cbor'', hex_encode (pf_hex pf) bs) # kvs)), w)"
    using assms(3,4) by (auto simp: holds_doc_def intro!: read_wrapper [OF assms(1)])
qed

lemma literal_utf8:
  "valid_utf8 (as_bytes ''id'')" "valid_utf8 (as_bytes ''kind'')" "valid_utf8 (as_bytes ''issuer'')" "valid_utf8 (as_bytes ''sign1_b64'')"
  "valid_utf8 (as_bytes ''claim_type'')" "valid_utf8 (as_bytes ''event'')" "valid_utf8 (as_bytes ''attestation'')" "valid_utf8 (as_bytes ''evidence'')"
  "valid_utf8 (as_bytes ''relationship'')" "valid_utf8 (as_bytes ''status'')" "valid_utf8 (as_bytes ''proof'')"
  by (simp_all add: as_bytes_def byte_of_char_def in_range_def)

lemma event_file_loads:
  assumes "b64_law (pf_b64 pf)" "sha256_law (pf_hash pf)" "hex_law (pf_hex pf)" "wrapper_law pf" "b64_text_law (pf_b64 pf)"
    and "create_event (pf_b64 pf) (pf_hash pf) content limits_of_cli = Inr created" "holds_doc pf fpath (event_doc pf created) w"
  shows "load_event pf fpath w = Some (Inr content, w)"
proof -
  note made = event_created [OF assms(1,2,6)]
  have "read_json pf fpath w = Some (Inr (event_doc pf created), w)"
    unfolding event_doc_def
    by (rule doc_read [OF assms(4,3) assms(7) [unfolded event_doc_def]]) (simp_all add: literal_utf8 made(3) id_utf8 [OF assms(5)])
  then show ?thesis
    using made hexR_doc [OF assms(3)]
    by (simp add: load_event_def bindIO_def liftIO_def event_doc_def wrapper_strs keys_allowed EVENT_WRAPPER_ALLOWED_def ok_or_def labelR_iff result_iff)
qed


lemma evidence_file_loads:
  assumes "b64_law (pf_b64 pf)" "sha256_law (pf_hash pf)" "hex_law (pf_hex pf)" "wrapper_law pf" "b64_text_law (pf_b64 pf)"
    and "make_evidence (pf_b64 pf) (pf_hash pf) kind digest r hint limits_of_cli = Inr created" "holds_doc pf fpath (evidence_doc pf created) w"
  shows "load_evidence pf fpath w = Some (Inr (cv_content created), w)"
proof -
  note made = evidence_created [OF assms(1,2,6)]
  have "read_json pf fpath w = Some (Inr (evidence_doc pf created), w)"
    unfolding evidence_doc_def
    by (rule doc_read [OF assms(4,3) assms(7) [unfolded evidence_doc_def]]) (simp_all add: literal_utf8 made(3) id_utf8 [OF assms(5)])
  then show ?thesis
    using made hexR_doc [OF assms(3)]
    by (simp add: load_evidence_def bindIO_def liftIO_def evidence_doc_def wrapper_strs keys_allowed EVIDENCE_WRAPPER_ALLOWED_def ok_or_def labelR_iff result_iff)
qed

lemma relationship_file_loads:
  assumes "b64_law (pf_b64 pf)" "sha256_law (pf_hash pf)" "hex_law (pf_hex pf)" "wrapper_law pf" "b64_text_law (pf_b64 pf)"
    and "make_relationship (pf_b64 pf) (pf_hash pf) content limits_of_cli = Inr created" "holds_doc pf fpath (relationship_doc pf created) w"
  shows "load_relationship pf fpath w = Some (Inr content, w)"
proof -
  note made = relationship_created [OF assms(1,2,6)]
  have "read_json pf fpath w = Some (Inr (relationship_doc pf created), w)"
    unfolding relationship_doc_def
    by (rule doc_read [OF assms(4,3) assms(7) [unfolded relationship_doc_def]]) (simp_all add: literal_utf8 made(3) id_utf8 [OF assms(5)])
  then show ?thesis
    using made hexR_doc [OF assms(3)]
    by (simp add: load_relationship_def bindIO_def liftIO_def relationship_doc_def wrapper_strs keys_allowed RELATIONSHIP_WRAPPER_ALLOWED_def
        ok_or_def labelR_iff result_iff)
qed

lemma sign1_doc:
  "map_of kvs ''sign1_b64'' = Some t \<Longrightarrow> sign1_field (wrapper_doc kvs) fpath = Inr t"
  "b64_law (pf_b64 pf) \<Longrightarrow> sign1R pf fpath (b64u_nopad (pf_b64 pf) bs) = Inr bs"
  by (simp_all add: sign1_field_def str_of_either_def sign1R_def wrapper_doc_simps(1) ok_or_def b64_law_def b64u_nopad_def b64u_decode_def)

lemma attest_fits:
  assumes "b64_law b64" "ed25519_law e" "length (ek_seed key) = 32" "attest b64 h e content key default_limits = Inr created"
  shows "verify_attestation b64 h e (ca_sign1 created) (att_issuer content) AllowedAlgs_strict default_limits = Inr (content, ca_id created) \<longleftrightarrow>
    length (ca_canonical created) \<le> max_field_size default_limits"
proof
  assume "verify_attestation b64 h e (ca_sign1 created) (att_issuer content) AllowedAlgs_strict default_limits = Inr (content, ca_id created)"
  then show "length (ca_canonical created) \<le> max_field_size default_limits"
    using assms(4) unfolding verify_attestation_Inr [OF assms(1)] verify_sign1_def verify_sign1_iff [OF assms(1)] parse_sign1_iff attest_Inr
    by (auto simp: sign1_ok_def sign1_value_def)
next
  assume "length (ca_canonical created) \<le> max_field_size default_limits"
  then have "sign1_fits default_limits (ca_canonical created)" by (simp add: sign1_fits_def default_limits_def)
  then show "verify_attestation b64 h e (ca_sign1 created) (att_issuer content) AllowedAlgs_strict default_limits = Inr (content, ca_id created)"
    using attest_verifies [OF assms(1-3) strict_ed25519 assms(4)] assms(4) by (simp add: attest_Inr)
qed

lemma attest_reads:
  assumes "attest b64 h e content key l = Inr created"
  shows "bindR (decode_strict (ca_canonical created) l) (\<lambda>v. cbor_to_attestation v l) = Inr content"
    "ca_content created = content" "ca_id created = attestation_id b64 h (ca_canonical created)" "att_issuer content = key_ref b64 e key"
  using assms by (auto simp: attest_def Let_def result_iff decode_check_eq split: if_splits)

lemma attestation_doc_read:
  assumes "hex_law (pf_hex pf)" "wrapper_law pf" "b64_text_law (pf_b64 pf)"
    and "attest (pf_b64 pf) (pf_hash pf) (pf_sig pf) content key limits_of_cli = Inr created" "holds_doc pf fpath (attestation_doc pf created) w"
  shows "read_json pf fpath w = Some (Inr (attestation_doc pf created), w)"
  unfolding attestation_doc_def
  by (rule doc_read [OF assms(2,1) assms(5) [unfolded attestation_doc_def]])
    (simp_all add: literal_utf8 attest_reads [OF assms(4)] id_utf8 [OF assms(3)])

lemma attestation_file_loads:
  assumes "b64_law (pf_b64 pf)" "ed25519_law (pf_sig pf)" "hex_law (pf_hex pf)"
    and "length (ek_seed key) = 32" "attest (pf_b64 pf) (pf_hash pf) (pf_sig pf) content key limits_of_cli = Inr created"
    and doc: "read_json pf fpath w = Some (Inr (attestation_doc pf created), w)"
  shows "(\<exists>x w'. load_attestation pf fpath w = Some (Inr x, w')) \<longleftrightarrow> length (ca_canonical created) \<le> max_field_size limits_of_cli"
    "load_attestation pf fpath w = Some (Inr x, w') \<Longrightarrow> x = created \<and> w' = w"
proof -
  let ?b = "pf_b64 pf" and ?h = "pf_hash pf" and ?e = "pf_sig pf" and ?bs = "ca_canonical created"
  let ?v = "verify_attestation ?b ?h ?e (ca_sign1 created) (att_issuer content) AllowedAlgs_strict limits_of_cli"
  note reads = attest_reads [OF assms(5)]
  obtain val where val: "decode_strict ?bs limits_of_cli = Inr val" "cbor_to_attestation val limits_of_cli = Inr content"
    using reads(1) by (auto simp: result_iff)
  have canonical: "encode_canonical val = ?bs" using val(1) by (simp add: decode_strict_Inr_iff)
  have run: "load_attestation pf fpath w = Some (bindR (labelR pf fpath (ca_sign1 created) ?v) (\<lambda>(c, i).
      if ca_id created \<noteq> i then Inl (fpath @ '': id mismatch (file says '' @ ca_id created @ '', bytes are '' @ i @ '')'')
      else if content \<noteq> c then Inl (fpath @ '': envelope payload does not match CBOR bytes'')
      else Inr \<lparr>ca_content = c, ca_canonical = ?bs, ca_id = i, ca_sign1 = ca_sign1 created\<rparr>), w)"
    using doc hexR_doc [OF assms(3)] val canonical reads(2)
    by (cases ?v) (auto simp: sign1_doc(1) sign1_doc(2) [OF assms(1)] load_attestation_def bindIO_def liftIO_def attestation_doc_def wrapper_strs keys_allowed ATTESTATION_WRAPPER_ALLOWED_def ok_or_def
        labelR_def)
  have "(\<exists>x w'. load_attestation pf fpath w = Some (Inr x, w')) \<longleftrightarrow> ?v = Inr (content, ca_id created)"
    unfolding run by (auto simp: result_iff labelR_iff split: if_splits)
  then show "(\<exists>x w'. load_attestation pf fpath w = Some (Inr x, w')) \<longleftrightarrow> length ?bs \<le> max_field_size limits_of_cli"
    using attest_fits [OF assms(1,2,4)] assms(5) by (simp add: limits_of_cli_def)
  show "x = created \<and> w' = w" if "load_attestation pf fpath w = Some (Inr x, w')"
    using that reads(2) unfolding run by (auto simp: result_iff labelR_iff split: if_splits)
qed


lemma status_file_loads:
  assumes "b64_law (pf_b64 pf)" "ed25519_law (pf_sig pf)" "hex_law (pf_hex pf)" "wrapper_law pf" "b64_text_law (pf_b64 pf)"
    and "length (ek_seed key) = 32" "attest (pf_b64 pf) (pf_hash pf) (pf_sig pf) content key limits_of_cli = Inr created"
    and "is_status (claim_kind_of content)" "valid_utf8 (as_bytes (claim_type (att_claim content)))"
    and "length (ca_canonical created) \<le> max_field_size limits_of_cli" "holds_doc pf fpath (status_doc pf created) w"
  shows "load_status pf fpath w = Some (Inr \<lparr>ss_content = content, ss_sign1 = ca_sign1 created\<rparr>, w)"
proof -
  note reads = attest_reads [OF assms(7)]
  have "read_json pf fpath w = Some (Inr (status_doc pf created), w)"
    unfolding status_doc_def
    by (rule doc_read [OF assms(4,3) assms(11) [unfolded status_doc_def]])
      (simp_all add: literal_utf8 reads id_utf8 [OF assms(5)] assms(9))
  moreover have "verify_status_object (pf_b64 pf) (pf_hash pf) (pf_sig pf) (ca_sign1 created) (att_issuer content) AllowedAlgs_strict limits_of_cli = Inr content"
    using attest_fits [OF assms(1,2,6) assms(7) [unfolded limits_of_cli_def]] assms(8,10)
    by (simp add: limits_of_cli_def verify_status_object_def)
  ultimately show ?thesis
    by (simp add: sign1_doc(1) sign1_doc(2) [OF assms(1)] load_status_def bindIO_def liftIO_def status_doc_def wrapper_strs keys_allowed
        STATUS_WRAPPER_ALLOWED_def ok_or_def labelR_def reads(2))
qed


lemma cli_req_iff [io_iff]: "cli_req c k = Inr v \<longleftrightarrow> cli_opt c k = Some v"
  by (auto simp: cli_req_def cli_opt_def ok_or_def split: option.splits)

lemma load_key_length: "load_key_opt pf c w = Some (Inr key, w') \<Longrightarrow> length (ek_seed key) = 32"
  by (auto simp: load_key_opt_def load_key_material_def test_key_def Ed25519Key_from_seed_def io_iff result_iff
      split: option.splits if_splits)

lemma made_status:
  assumes "make_status pf c kind key at = Inr (Inr created)"
  shows "\<exists>content. attest (pf_b64 pf) (pf_hash pf) (pf_sig pf) content key limits_of_cli = Inr created
    \<and> is_status (claim_kind_of content) \<and> valid_utf8 (as_bytes (claim_type (att_claim content)))
    \<and> length (ca_canonical created) \<le> max_field_size limits_of_cli"
proof -
  let ?content = "\<lambda>s ty fs. status_content (pf_b64 pf) (pf_sig pf) key s ty fs at"
  obtain s ty fs where made: "attest (pf_b64 pf) (pf_hash pf) (pf_sig pf) (?content s ty fs) key limits_of_cli = Inr created"
      and ty: "ty \<in> {''revoke'', ''withdraw'', ''compromise'', ''supersede''}" and fs: "\<forall>(k, v) \<in> set fs. length k \<le> 64"
    using assms
    by (auto simp: make_status_def revoke_attestation_def withdraw_attestation_def compromise_attestation_def supersede_attestation_def
        reason_fields_def result_iff split: if_splits option.splits)
  have "length (ca_canonical created) \<le> 20000"
    using made fs length_encode_attestation [of "?content s ty fs"] by (auto simp: attest_Inr status_content_def)
  moreover have "is_status (claim_kind_of (?content s ty fs))" "valid_utf8 (as_bytes (claim_type (att_claim (?content s ty fs))))"
    using ty by (auto simp: claim_kind_of_def status_content_def as_bytes_def byte_of_char_def in_range_def)
  ultimately show ?thesis using made by (intro exI [of _ "?content s ty fs"]) (simp add: limits_of_cli_def default_limits_def)
qed

section \<open>Properties of the writers\<close>

text \<open>
  C34. What \<^verbatim>\<open>create-event\<close>, \<^verbatim>\<open>add-evidence\<close> and \<^verbatim>\<open>relate\<close> write is read back: the file named by \<^verbatim>\<open>--out\<close>, unless it is over
  the size cap, loads as an artifact whose recomputed id is the one the command returned, and every field of it is what the flags say:
  type, subject, time, metadata and the digest of the payload of an event; kind, digest, attestation reference and hint of an evidence
  item; type, endpoints and both references of a relationship.
\<close>

theorem written_artifacts_load:
  assumes "b64_law (pf_b64 pf)" "sha256_law (pf_hash pf)" "hex_law (pf_hex pf)" "wrapper_law pf" "b64_text_law (pf_b64 pf)"
    and "cli_opt c ''out'' = Some out" "out \<noteq> ''-''" "file_fits out w'"
  shows "(write_event pf c w = Some (Inr i, w') \<longrightarrow>
      (\<exists>x w1. load_event pf out w' = Some (Inr x, w') \<and> event_member_id (pf_b64 pf) (pf_hash pf) x = Inr i \<and> ev_v x = 1
         \<and> cli_opt c ''type'' = Some (ev_type x) \<and> cli_opt c ''subject'' = Some (ev_subject x)
         \<and> cli_req_u64 c ''effective-at'' = Inr (ev_effective_at x) \<and> parse_fields (cli_opt c ''meta'') = Inr (ev_metadata x)
         \<and> digest_input pf c ''create-event'' ''payload-file'' ''payload-hex'' w = Some (Inr (ev_payload_ref x), w1)))
    \<and> (write_evidence pf c w = Some (Inr i, w') \<longrightarrow>
      (\<exists>x w1. load_evidence pf out w' = Some (Inr x, w') \<and> evidence_member_id (pf_b64 pf) (pf_hash pf) x = i
         \<and> cli_opt c ''kind'' = Some (evd_kind x) \<and> evd_attestation_ref x = cli_opt c ''attestation-ref'' \<and> evd_hint x = cli_opt c ''hint''
         \<and> digest_input pf c ''add-evidence'' ''digest-file'' ''digest-hex'' w = Some (Inr (evd_digest x), w1)))
    \<and> (write_relationship pf c w = Some (Inr i, w') \<longrightarrow>
      (\<exists>x. load_relationship pf out w' = Some (Inr x, w') \<and> relationship_member_id (pf_b64 pf) (pf_hash pf) x = i \<and> rel_v x = 1
         \<and> cli_opt c ''from'' = Some (rel_from x) \<and> cli_opt c ''to'' = Some (rel_to x) \<and> cli_opt c ''type'' = Some (rel_ty x)
         \<and> rel_evidence_ref x = cli_opt c ''evidence-ref'' \<and> rel_attestation_ref x = cli_opt c ''attestation-ref''))"
  (is "(_ \<longrightarrow> ?event) \<and> (_ \<longrightarrow> ?evidence) \<and> (_ \<longrightarrow> ?relationship)")
proof (intro conjI impI)
  assume "write_event pf c w = Some (Inr i, w')"
  then obtain x created w1 where x: "create_event (pf_b64 pf) (pf_hash pf) x limits_of_cli = Inr created" "i = ce_id created" "ev_v x = 1"
      "cli_opt c ''type'' = Some (ev_type x)" "cli_opt c ''subject'' = Some (ev_subject x)" "cli_req_u64 c ''effective-at'' = Inr (ev_effective_at x)"
      "parse_fields (cli_opt c ''meta'') = Inr (ev_metadata x)"
      "digest_input pf c ''create-event'' ''payload-file'' ''payload-hex'' w = Some (Inr (ev_payload_ref x), w1)"
    and doc: "holds_doc pf out (event_doc pf created) w'"
    using assms(6-8) by (auto simp: write_event_def io_iff result_iff Let_def holds_doc_def)
  show ?event
    using event_file_loads [OF assms(1-5) x(1) doc] event_created(4) [OF assms(1,2) x(1)] x by blast
next
  assume "write_evidence pf c w = Some (Inr i, w')"
  then obtain digest kind created w1 where x: "make_evidence (pf_b64 pf) (pf_hash pf) kind digest (cli_opt c ''attestation-ref'') (cli_opt c ''hint'')
        limits_of_cli = Inr created" "i = cv_id created" "cli_opt c ''kind'' = Some kind"
      "digest_input pf c ''add-evidence'' ''digest-file'' ''digest-hex'' w = Some (Inr digest, w1)"
    and doc: "holds_doc pf out (evidence_doc pf created) w'"
    using assms(6-8) by (auto simp: write_evidence_def io_iff result_iff Let_def holds_doc_def)
  show ?evidence
    using evidence_file_loads [OF assms(1-5) x(1) doc] evidence_created(4-8) [OF assms(1,2) x(1)] x(2-4)
    by (intro exI [of _ "cv_content created"] exI [of _ w1]) simp
next
  assume "write_relationship pf c w = Some (Inr i, w')"
  then obtain x created where x: "make_relationship (pf_b64 pf) (pf_hash pf) x limits_of_cli = Inr created" "i = cr_id created" "rel_v x = 1"
      "cli_opt c ''from'' = Some (rel_from x)" "cli_opt c ''to'' = Some (rel_to x)" "cli_opt c ''type'' = Some (rel_ty x)"
      "rel_evidence_ref x = cli_opt c ''evidence-ref''" "rel_attestation_ref x = cli_opt c ''attestation-ref''"
    and doc: "holds_doc pf out (relationship_doc pf created) w'"
    using assms(6-8) by (auto simp: write_relationship_def io_iff result_iff Let_def holds_doc_def split: if_splits)
  show ?relationship
    using relationship_file_loads [OF assms(1-5) x(1) doc] relationship_created(4) [OF assms(1,2) x(1)] x by blast
qed

text \<open>
  C35. A file that \<^verbatim>\<open>attest\<close> writes loads again exactly if its statement fits the field size limit, and then as what was
  signed, for the subject of the flags; a longer statement is signed and written, and no command accepts the file. A file
  of the four status commands always loads, as a status object with the returned id.
\<close>

theorem signed_files_load:
  assumes "b64_law (pf_b64 pf)" "ed25519_law (pf_sig pf)" "hex_law (pf_hex pf)" "wrapper_law pf" "b64_text_law (pf_b64 pf)"
    and "cli_opt c ''out'' = Some out" "out \<noteq> ''-''" "file_fits out w'"
  shows "(write_attestation pf c w = Some (Inr i, w') \<longrightarrow>
      (\<exists>made. i = attestation_id (pf_b64 pf) (pf_hash pf) (ca_canonical made) \<and> cli_opt c ''subject'' = Some (att_subject (ca_content made))
         \<and> ((\<exists>x w2. load_attestation pf out w' = Some (Inr x, w2)) \<longleftrightarrow> length (ca_canonical made) \<le> max_field_size default_limits)
         \<and> (\<forall>x w2. load_attestation pf out w' = Some (Inr x, w2) \<longrightarrow> x = made \<and> w2 = w')))
    \<and> (write_status_object pf c kind w = Some (Inr i, w') \<longrightarrow>
      (\<exists>st. load_status pf out w' = Some (Inr st, w') \<and> attestation_member_id (pf_b64 pf) (pf_hash pf) (ss_content st) = i
         \<and> is_status (claim_kind_of (ss_content st))))"
proof (intro conjI impI)
  assume "write_attestation pf c w = Some (Inr i, w')"
  then obtain key w1 content made where x: "load_key_opt pf c w = Some (Inr key, w1)"
      "attest (pf_b64 pf) (pf_hash pf) (pf_sig pf) content key limits_of_cli = Inr made" "i = ca_id made"
      "cli_opt c ''subject'' = Some (att_subject content)" "holds_doc pf out (attestation_doc pf made) w'"
    using assms(6-8) by (auto simp: write_attestation_def io_iff Let_def holds_doc_def)
  note loads = attestation_file_loads [OF assms(1-3) load_key_length [OF x(1)] x(2) attestation_doc_read [OF assms(3-5) x(2,5)]]
  show "\<exists>made. i = attestation_id (pf_b64 pf) (pf_hash pf) (ca_canonical made) \<and> cli_opt c ''subject'' = Some (att_subject (ca_content made))
         \<and> ((\<exists>x w2. load_attestation pf out w' = Some (Inr x, w2)) \<longleftrightarrow> length (ca_canonical made) \<le> max_field_size default_limits)
         \<and> (\<forall>x w2. load_attestation pf out w' = Some (Inr x, w2) \<longrightarrow> x = made \<and> w2 = w')"
    using loads attest_reads [OF x(2)] x(3,4) unfolding limits_of_cli_def by (intro exI [of _ made]) blast
next
  assume "write_status_object pf c kind w = Some (Inr i, w')"
  then obtain key w1 at made where x: "load_key_opt pf c w = Some (Inr key, w1)" "make_status pf c kind key at = Inr (Inr made)"
      "i = ca_id made" "holds_doc pf out (status_doc pf made) w'"
    using assms(6-8) by (auto simp: write_status_object_def io_iff result_iff holds_doc_def)
  obtain content where m: "attest (pf_b64 pf) (pf_hash pf) (pf_sig pf) content key limits_of_cli = Inr made"
      "is_status (claim_kind_of content)" "valid_utf8 (as_bytes (claim_type (att_claim content)))"
      "length (ca_canonical made) \<le> max_field_size limits_of_cli"
    using made_status [OF x(2)] by blast
  then show "\<exists>st. load_status pf out w' = Some (Inr st, w') \<and> attestation_member_id (pf_b64 pf) (pf_hash pf) (ss_content st) = i
         \<and> is_status (claim_kind_of (ss_content st))"
    using status_file_loads [OF assms(1-5) load_key_length [OF x(1)] m x(4)] x(3) by (auto simp: attest_Inr)
qed

section \<open>Building a proof from files\<close>

lemma strict_verifies:
  assumes "b64_law b64" "al_ed25519 al" "verify_attestation b64 h e bs issuer AllowedAlgs_strict l = Inr (c, i)"
  shows "verify_attestation b64 h e bs issuer al l = Inr (c, i)"
proof -
  have "ed25519_signed b64 e issuer al aad p" if "ed25519_signed b64 e issuer AllowedAlgs_strict aad p" for aad p
    using that assms(2) by (auto simp: ed25519_signed_def AllowedAlgs_strict_def AllowedAlgs_default_def)
  moreover have "\<not> esp256_signed b64 e issuer AllowedAlgs_strict aad p" for aad p
    by (auto simp: esp256_signed_def AllowedAlgs_strict_def AllowedAlgs_default_def)
  ultimately show ?thesis
    using assms(3) unfolding verify_attestation_Inr [OF assms(1)] verify_sign1_def verify_sign1_iff [OF assms(1)] by blast
qed

lemma loaded_attestation_signed:
  assumes "b64_law (pf_b64 pf)" "al_ed25519 (ctx_allowed_algs ctx)" "ctx_limits ctx = default_limits"
    and "load_attestation pf fpath w = Some (Inr x, w')"
  shows "ca_id x = attestation_member_id (pf_b64 pf) (pf_hash pf) (ca_content x)
    \<and> signed_entry (pf_b64 pf) (pf_hash pf) (pf_sig pf) ctx \<lparr>sa_content = ca_content x, sa_sign1 = ca_sign1 x\<rparr>"
proof -
  obtain issuer where v: "verify_attestation (pf_b64 pf) (pf_hash pf) (pf_sig pf) (ca_sign1 x) issuer AllowedAlgs_strict default_limits
      = Inr (ca_content x, ca_id x)"
    using assms(4) by (auto simp: load_attestation_def io_iff result_iff limits_of_cli_def split: if_splits)
  then have "issuer = att_issuer (ca_content x)" "ca_id x = attestation_member_id (pf_b64 pf) (pf_hash pf) (ca_content x)"
    by (simp_all add: verify_attestation_Inr [OF assms(1)])
  then show ?thesis using strict_verifies [OF assms(1,2) v] assms(3) by (simp add: signed_entry_def)
qed

lemma mapIO_members:
  assumes "mapIO f xs w = Some (Inr ys, w')" "y \<in> set ys"
  shows "\<exists>x w1 w2. f x w1 = Some (Inr y, w2)"
  using assms
proof (induction xs arbitrary: ys w)
  case (Cons x xs)
  then show ?case by (auto simp: io_iff) blast
qed (simp add: io_iff)

lemma builder_folds:
  "fold (\<lambda>x b. add_event b x) xs b = b\<lparr>pb_events := pb_events b @ xs\<rparr>"
  "fold (\<lambda>x b. add_attestation b x) as b = b\<lparr>pb_attestations := pb_attestations b @ as\<rparr>"
  "fold (\<lambda>x b. add_evidence b x) vs b = b\<lparr>pb_evidence := pb_evidence b @ vs\<rparr>"
  "fold (\<lambda>x b. add_relationship b x) rs b = b\<lparr>pb_relationships := pb_relationships b @ rs\<rparr>"
proof -
  show "fold (\<lambda>x b. add_event b x) xs b = b\<lparr>pb_events := pb_events b @ xs\<rparr>"
    by (induction xs arbitrary: b) (simp_all add: add_event_def)
  show "fold (\<lambda>x b. add_attestation b x) as b = b\<lparr>pb_attestations := pb_attestations b @ as\<rparr>"
    by (induction as arbitrary: b) (simp_all add: add_attestation_def)
  show "fold (\<lambda>x b. add_evidence b x) vs b = b\<lparr>pb_evidence := pb_evidence b @ vs\<rparr>"
    by (induction vs arbitrary: b) (simp_all add: add_evidence_def)
  show "fold (\<lambda>x b. add_relationship b x) rs b = b\<lparr>pb_relationships := pb_relationships b @ rs\<rparr>"
    by (induction rs arbitrary: b) (simp_all add: add_relationship_def)
qed

lemma proof_file_loads:
  assumes "hex_law (pf_hex pf)" "wrapper_law pf"
    and "parse_proof (pf_b64 pf) bs default_limits = Inr p" "holds_doc pf fpath (proof_doc pf (prf_id p) bs) w"
  shows "load_proof pf fpath w = Some (Inr \<lparr>lp_canonical = bs, lp_proof = p\<rparr>, w)"
proof -
  have "load_proof pf fpath w = Some (unwrap_proof pf fpath (proof_doc pf (prf_id p) bs), w)"
    unfolding proof_doc_def
    by (rule doc_read(2) [OF assms(2,1) assms(4) [unfolded proof_doc_def]])
      (simp_all add: literal_utf8 parse_proof_id_utf8 [OF assms(3)])
  moreover have "unwrap_proof pf fpath (proof_doc pf (prf_id p) bs) = Inr \<lparr>lp_canonical = bs, lp_proof = p\<rparr>"
    using assms(3) hexR_doc [OF assms(1)]
    by (auto simp: unwrap_proof_def proof_doc_def wrapper_strs wrapper_doc_simps(1,2) keys_allowed PROOF_WRAPPER_ALLOWED_def ok_or_def labelR_def
        check_wrapper_kind_def check_wrapper_id_def parse_proof_def limits_of_cli_def result_iff)
  ultimately show ?thesis by simp
qed


text \<open>
  C33. What \<^verbatim>\<open>build\<close> writes is a proof that loads and verifies: the file named by \<^verbatim>\<open>--out\<close>, unless it is over the size cap,
  loads as a package with the returned id, and every verifier that accepts Ed25519 under the default limits reports it
  cryptographically valid under this id, whatever files the members came from.
\<close>

theorem build_writes_valid_proof:
  assumes "b64_law (pf_b64 pf)" "hash_iter (pf_iter pf)" "hex_law (pf_hex pf)" "wrapper_law pf"
    and "cli_opt c ''out'' = Some out" "out \<noteq> ''-''" "file_fits out w'" "build_command pf c w = Some (Inr i, w')"
    and "ctx_misuse ctx = None" "al_ed25519 (ctx_allowed_algs ctx)" "ctx_limits ctx = default_limits"
  shows "\<exists>lp rep. load_proof pf out w' = Some (Inr lp, w') \<and> prf_id (lp_proof lp) = i
    \<and> verify_proof (pf_b64 pf) (pf_hash pf) (pf_sig pf) (pf_iter pf) (lp_canonical lp) ctx = Some (Inr rep)
    \<and> rep_cryptographic_validity rep = Valid \<and> rep_proof_id rep = Some i"
proof -
  obtain pr created_at event_paths events w1 w2 attestation_paths attestations w3 evidence_paths evidence w4 relationship_paths relationships w5 bp where
    run: "mapIO (\<lambda>fpath. bindIO (load_event pf fpath) (\<lambda>x. liftIO (created_event_of pf x))) event_paths w1 = Some (Inr events, w2)"
      "mapIO (load_attestation pf) attestation_paths w2 = Some (Inr attestations, w3)"
      "mapIO (\<lambda>fpath. bindIO (load_evidence pf fpath) (\<lambda>x. liftIO (created_evidence_of pf x))) evidence_paths w3 = Some (Inr evidence, w4)"
      "mapIO (\<lambda>fpath. bindIO (load_relationship pf fpath) (\<lambda>x. liftIO (created_relationship_of pf x))) relationship_paths w4
        = Some (Inr relationships, w5)"
      "build (pf_b64 pf) (pf_hash pf) ((ProofBuilder_new pr created_at)\<lparr>pb_events := events, pb_attestations := attestations,
        pb_evidence := evidence, pb_relationships := relationships\<rparr>) limits_of_cli = Inr bp"
      "i = bp_id bp" "holds_doc pf out (proof_doc pf (bp_id bp) (bp_canonical bp)) w'"
    using assms(5-8)
    by (auto simp: build_command_def io_iff Let_def builder_folds write_proof_file_def holds_doc_def file_fits_def ProofBuilder_new_def
        ProofBuilder_default_def printlnIO_def)
  let ?b = "(ProofBuilder_new pr created_at)\<lparr>pb_events := events, pb_attestations := attestations, pb_evidence := evidence,
    pb_relationships := relationships\<rparr>"
  have members: "\<exists>c l. create_event (pf_b64 pf) (pf_hash pf) c l = Inr x" if "x \<in> set events" for x
    using mapIO_members [OF run(1) that] by (auto simp: io_iff created_event_of_def)
  have evd: "\<exists>kind digest r hint l. make_evidence (pf_b64 pf) (pf_hash pf) kind digest r hint l = Inr x" if "x \<in> set evidence" for x
    using mapIO_members [OF run(3) that] by (auto simp: io_iff created_evidence_of_def) blast
  have rel: "\<exists>c l. make_relationship (pf_b64 pf) (pf_hash pf) c l = Inr x" if "x \<in> set relationships" for x
    using mapIO_members [OF run(4) that] by (auto simp: io_iff created_relationship_of_def)
  have att: "ca_id x = attestation_member_id (pf_b64 pf) (pf_hash pf) (ca_content x)
      \<and> signed_entry (pf_b64 pf) (pf_hash pf) (pf_sig pf) ctx \<lparr>sa_content = ca_content x, sa_sign1 = ca_sign1 x\<rparr>" if "x \<in> set attestations" for x
    using mapIO_members [OF run(2) that] loaded_attestation_signed [OF assms(1,10,11)] by blast
  have built: "build (pf_b64 pf) (pf_hash pf) ?b (ctx_limits ctx) = Inr bp" using run(5) assms(11) by (simp add: limits_of_cli_def)
  have "parse_proof (pf_b64 pf) (bp_canonical bp) default_limits = Inr (bp_proof bp) \<and> prf_id (bp_proof bp) = bp_id bp
    \<and> (\<exists>rep. verify_proof (pf_b64 pf) (pf_hash pf) (pf_sig pf) (pf_iter pf) (bp_canonical bp) ctx = Some (Inr rep)
         \<and> rep_cryptographic_validity rep = Valid \<and> rep_proof_id rep = Some (bp_id bp))"
    unfolding assms(11) [symmetric]
    by (rule built_members_verify [OF assms(1,2,9) _ _ _ _ built]) (use members att evd rel in simp_all)
  then show ?thesis
    using proof_file_loads [OF assms(3,4)] run(6,7) by (intro exI [of _ "\<lparr>lp_canonical = bp_canonical bp, lp_proof = bp_proof bp\<rparr>"]) force
qed


section \<open>What is ingested\<close>

definition ingested :: "platform \<Rightarrow> string \<Rightarrow> world \<Rightarrow> string \<Rightarrow> bool" where
  "ingested pf dir w i \<longleftrightarrow> (\<exists>x created. create_event (pf_b64 pf) (pf_hash pf) x limits_of_cli = Inr created \<and> ce_id created = i
     \<and> w_files w (ingested_path dir i) = File (as_bytes (pf_to_string_pretty pf (event_doc pf created) @ NEWLINE)))"

lemma ingested_path_file: "ingested_path dir i \<noteq> ''-''"
  by (cases dir) (auto simp: ingested_path_def)

lemma ingested_path_inject: "ingested_path dir i = ingested_path dir j \<longleftrightarrow> i = j"
  by (simp add: ingested_path_def)

lemma line_event_created: "line_event pf label v = Inr created \<Longrightarrow> \<exists>x. create_event (pf_b64 pf) (pf_hash pf) x limits_of_cli = Inr created"
  by (auto simp: line_event_def bindR_Inr_iff labelR_iff split: json.splits)

lemma ingest_text_frame: "ingest_text pf dir False n line w = Some (r, w') \<Longrightarrow> w_stdout w' = w_stdout w"
  by (auto simp: ingest_text_def ingest_line_def bindIO_def liftIO_def retIO_def failIO_def write_json_def ingested_path_file writeIO_def Let_def
      split: option.splits sum.splits if_splits)

lemma ingest_text_keeps:
  assumes "ingest_text pf dir False n line w = Some (r, w')" "ingested pf dir w i"
  shows "ingested pf dir w' i"
proof -
  consider "w' = w" | v created where "line_event pf (''line '' @ show_nat n) v = Inr created"
      "w' = w\<lparr>w_files := (w_files w)(ingested_path dir (ce_id created) := File (as_bytes (pf_to_string_pretty pf (event_doc pf created) @ NEWLINE)))\<rparr>"
    using assms(1) by (auto simp: ingest_text_def ingest_line_def bindIO_def liftIO_def retIO_def failIO_def write_json_def ingested_path_file
        writeIO_def Let_def split: option.splits sum.splits if_splits)
  then show ?thesis
  proof cases
    case 2
    then show ?thesis using assms(2) line_event_created [OF 2(1)] by (auto simp: ingested_def ingested_path_inject)
  qed (use assms(2) in simp)
qed

lemma ingest_text_done:
  assumes "ingest_text pf dir False n line w = Some (Inr i, w')"
  shows "ingested pf dir w' i"
  using assms ingested_path_file
  by (auto simp: ingest_text_def ingest_line_def ingested_def io_iff Let_def split: option.splits dest!: line_event_created) blast

lemma ingest_lines_count:
  "ingest_lines f skip_bad raws n ids skipped w = Some (Inr (ids', skipped'), w') \<Longrightarrow>
     length ids' + length skipped' = length ids + length skipped + length (filter (\<lambda>raw. str_trim raw \<noteq> []) raws)"
proof (induction raws arbitrary: n ids skipped w)
  case (Cons raw raws)
  show ?case
  proof (cases "str_trim raw = []")
    case True
    then show ?thesis using Cons by (simp add: Let_def)
  next
    case False
    then obtain x w1 where x: "f (Suc n) (str_trim raw) w = Some (x, w1)"
        "(case x of Inr i \<Rightarrow> ingest_lines f skip_bad raws (Suc n) (ids @ [i]) skipped
          | Inl e \<Rightarrow> if skip_bad then ingest_lines f skip_bad raws (Suc n) ids (skipped @ [e]) else failIO (''ingest: '' @ e)) w1
           = Some (Inr (ids', skipped'), w')"
      using Cons.prems by (auto simp: io_iff Let_def)
    then show ?thesis using Cons.IH False by (cases x) (fastforce simp: failIO_def split: if_splits)+
  qed
qed (auto simp: io_iff)

lemma ingest_lines_done:
  assumes "ingest_lines (ingest_text pf dir False) skip_bad raws n ids skipped w = Some (Inr (ids', skipped'), w')" "\<forall>i \<in> set ids. ingested pf dir w i"
  shows "(\<forall>i \<in> set ids'. ingested pf dir w' i) \<and> w_stdout w' = w_stdout w"
  using assms
proof (induction raws arbitrary: n ids skipped w)
  case (Cons raw raws)
  show ?case
  proof (cases "str_trim raw = []")
    case False
    then obtain r w1 where r: "ingest_text pf dir False (Suc n) (str_trim raw) w = Some (r, w1)"
        "(case r of Inr i \<Rightarrow> ingest_lines (ingest_text pf dir False) skip_bad raws (Suc n) (ids @ [i]) skipped
          | Inl e \<Rightarrow> if skip_bad then ingest_lines (ingest_text pf dir False) skip_bad raws (Suc n) ids (skipped @ [e])
                     else failIO (''ingest: '' @ e)) w1 = Some (Inr (ids', skipped'), w')"
      using Cons.prems(1) by (auto simp: io_iff Let_def)
    have kept: "\<forall>i \<in> set ids. ingested pf dir w1 i" using Cons.prems(2) ingest_text_keeps [OF r(1)] by blast
    show ?thesis
    proof (cases r)
      case (Inl e)
      then show ?thesis using r(2) Cons.IH [OF _ kept] ingest_text_frame [OF r(1)] by (auto simp: failIO_def split: if_splits)
    next
      case (Inr i)
      then have "\<forall>j \<in> set (ids @ [i]). ingested pf dir w1 j" using kept ingest_text_done r(1) by auto
      then show ?thesis using r(2) Inr Cons.IH ingest_text_frame [OF r(1)] by auto
    qed
  qed (use Cons in \<open>auto simp: Let_def\<close>)
qed (auto simp: io_iff)

lemma split_on_parts: "s \<in> set (split_on d t) \<Longrightarrow> c \<in> set s \<Longrightarrow> \<not> d c"
  by (induction t arbitrary: s) (auto split: list.splits if_splits, blast)

lemma listed_without_colon:
  assumes "input_list c name = Inr paths" "fpath \<in> set paths"
  shows "CHR '':'' \<notin> set fpath"
proof -
  obtain outs where "mapR (list_entries name) (cli_many c name) = Inr outs" "paths = concat outs"
    using assms(1) by (auto simp: input_list_def result_iff Let_def split: if_splits)
  then obtain item out where item: "list_entries name item = Inr out" "fpath \<in> set out"
    using assms(2) by (auto simp: mapR_Inr_iff dest!: list_all2_in_set2)
  then have "fpath \<in> set (split_on (\<lambda>c. c = CHR '','' \<or> c = CHR '':'') item)"
    by (auto simp: list_entries_def mapR_Inr_iff split: if_splits dest!: list_all2_in_set2)
  then show ?thesis using split_on_parts by fastforce
qed


text \<open>
  C36. A run of \<^verbatim>\<open>ingest\<close> without \<^verbatim>\<open>--dry-run\<close> and without \<^verbatim>\<open>--out\<close> has an id or a
  skipped entry for every line that is not blank, prints them as its manifest, and exits 0 exactly if it skipped nothing; every listed id has
  its file in the output directory, which loads (unless over the cap) as an event with that id. No such file can be
  handed to \<^verbatim>\<open>build --events\<close> or another list flag: file names carry the colons of the ids, and lists are split at colons.
\<close>

theorem ingested_files_cannot_be_listed:
  assumes "b64_law (pf_b64 pf)" "sha256_law (pf_hash pf)" "hex_law (pf_hex pf)" "wrapper_law pf" "b64_text_law (pf_b64 pf)"
    and "ingest_command pf c w = Some (Inr code, w')" "cli_opt c ''out-dir'' = Some dir" "\<not> cli_has c ''dry-run''" "cli_opt c ''out'' = None"
  shows "\<exists>input label w1 ids skipped. read_input_text pf (case cli_opt c ''in'' of Some src \<Rightarrow> src | None \<Rightarrow> ''-'') w = Some (Inr (input, label), w1)
    \<and> length ids + length skipped = length (filter (\<lambda>line. str_trim line \<noteq> []) (split_on (\<lambda>c. c = CHR 0x0A) input))
    \<and> w_stdout w' = w_stdout w @ pf_to_string_pretty pf (manifest ids skipped False) @ NEWLINE
    \<and> code = (if skipped = [] then EXIT_OK else EXIT_FAIL)
    \<and> (\<forall>i \<in> set ids. w_files w' (ingested_path dir i) \<noteq> NoFile
        \<and> (file_fits (ingested_path dir i) w' \<longrightarrow>
            (\<exists>x. load_event pf (ingested_path dir i) w' = Some (Inr x, w') \<and> event_member_id (pf_b64 pf) (pf_hash pf) x = Inr i))
        \<and> (\<forall>c' name paths. input_list c' name = Inr paths \<longrightarrow> ingested_path dir i \<notin> set paths))"
proof -
  obtain input label w1 ids skipped w2 where
    run: "read_input_text pf (case cli_opt c ''in'' of Some src \<Rightarrow> src | None \<Rightarrow> ''-'') w = Some (Inr (input, label), w1)"
      "ingest_lines (ingest_text pf dir False) (cli_has c ''skip-bad'') (split_on (\<lambda>c. c = CHR 0x0A) input) 0 [] [] w1 = Some (Inr (ids, skipped), w2)"
      "w' = w2\<lparr>w_stdout := w_stdout w2 @ pf_to_string_pretty pf (manifest ids skipped False) @ NEWLINE\<rparr>"
      "code = (if skipped = [] then EXIT_OK else EXIT_FAIL)"
    using assms(6-9) by (auto simp: ingest_command_def io_iff create_dir_all_def printlnIO_def Let_def split: prod.splits)
  have "w_stdout w1 = w_stdout w" using reads_only_text run(1) unfolding reads_only_def by (metis world.select_convs(4) world.surjective world.update_convs(1))
  moreover have written: "\<forall>i \<in> set ids. ingested pf dir w2 i" "w_stdout w2 = w_stdout w1" using ingest_lines_done [OF run(2)] by simp_all
  moreover have "w_files w' (ingested_path dir i) \<noteq> NoFile
      \<and> (file_fits (ingested_path dir i) w' \<longrightarrow>
          (\<exists>x. load_event pf (ingested_path dir i) w' = Some (Inr x, w') \<and> event_member_id (pf_b64 pf) (pf_hash pf) x = Inr i))
      \<and> (\<forall>c' name paths. input_list c' name = Inr paths \<longrightarrow> ingested_path dir i \<notin> set paths)" if "i \<in> set ids" for i
  proof -
    obtain x created where x: "create_event (pf_b64 pf) (pf_hash pf) x limits_of_cli = Inr created" "ce_id created = i"
        "w_files w' (ingested_path dir i) = File (as_bytes (pf_to_string_pretty pf (event_doc pf created) @ NEWLINE))"
      using written(1) \<open>i \<in> set ids\<close> run(3) unfolding ingested_def by auto
    then have "file_fits (ingested_path dir i) w' \<Longrightarrow> holds_doc pf (ingested_path dir i) (event_doc pf created) w'"
      by (simp add: holds_doc_def ingested_path_file)
    moreover have "CHR '':'' \<in> set (ingested_path dir i)"
      using event_created(3) [OF assms(1,2) x(1)] x(2) by (simp add: ingested_path_def event_id_def id_with_def)
    ultimately show ?thesis
      using x event_file_loads [OF assms(1-5) x(1)] event_created(4) [OF assms(1,2) x(1)] listed_without_colon by auto
  qed
  ultimately show ?thesis
    using run ingest_lines_count [OF run(2)] by (intro exI [of _ input] exI [of _ label] exI [of _ w1] exI [of _ ids] exI [of _ skipped]) simp
qed

section \<open>A platform for the writers\<close>

text \<open>
  Objects of strings as texts: the keys and values in turn, each in hex behind a comma. Two further texts stand for an
  attestation file and for a record to ingest.
\<close>

fun pair_up :: "'a list \<Rightarrow> ('a \<times> 'a) list" where
  "pair_up (a # b # r) = (a, b) # pair_up r"
| "pair_up _ = []"

definition doc_strings :: "json \<Rightarrow> string list" where
  "doc_strings v =
     (case v of JObject m \<Rightarrow> concat (map (\<lambda>(k, x). [k, case json_str x of Some s \<Rightarrow> s | None \<Rightarrow> []]) m) | _ \<Rightarrow> [])"

definition make_to_text :: "json \<Rightarrow> string" where
  "make_to_text v = demo_to_text (seen_doc (doc_strings v))"

definition demo_record :: json where
  "demo_record = JObject [(''effective_at'', JNumber (PosInt 7)), (''payload_hex'', JString (hex_encode plain_hex (replicate 32 0))),
     (''subject'', JString ''s''), (''type'', JString ''t'')]"

definition make_from_str :: "string \<Rightarrow> json option" where
  "make_from_str t =
     (if t = ''record'' then Some demo_record
      else if t = ''att'' then Some (attestation_doc demo_platform demo_created)
      else case store_of_text t of
          Some (JObject [(_, JArray xs)]) \<Rightarrow> Some (wrapper_doc (pair_up (List.map_filter json_str xs)))
        | _ \<Rightarrow> None)"

definition make_platform :: "base64_engine \<Rightarrow> platform" where
  "make_platform b64 = demo_platform\<lparr>pf_b64 := b64, pf_from_str := make_from_str, pf_to_string_pretty := make_to_text\<rparr>"

definition hex_b64 :: base64_engine where
  "hex_b64 = \<lparr>b64_encode = hex_encode plain_hex, b64_decode = hex_decode plain_hex\<rparr>"

lemma hex_b64_laws: "b64_law hex_b64" "b64_text_law hex_b64"
  using plain_hex_law hex_utf8 by (simp_all add: b64_law_def b64_text_law_def hex_b64_def hex_law_def)

lemma make_platform_fields [simp]:
  "pf_b64 (make_platform b64) = b64" "pf_hash (make_platform b64) = zero_hash" "pf_sig (make_platform b64) = plain_sig"
  "pf_iter (make_platform b64) = remdups" "pf_hex (make_platform b64) = plain_hex" "pf_from_str (make_platform b64) = make_from_str"
  "pf_to_string_pretty (make_platform b64) = make_to_text"
  by (simp_all add: make_platform_def demo_platform_def)

lemma doc_strings_wrapper: "doc_strings (wrapper_doc kvs) = concat (map (\<lambda>(k, v). [k, v]) kvs)"
  by (induction kvs) (auto simp: doc_strings_def wrapper_doc_def)

lemma pair_up_strings: "pair_up (concat (map (\<lambda>(k, v). [k, v]) kvs)) = kvs"
  by (induction kvs) auto

lemma make_wrapper_law: "wrapper_law (make_platform b64)"
proof -
  have "valid_utf8 (as_bytes (make_to_text (wrapper_doc kvs) @ NEWLINE)) \<and> make_from_str (make_to_text (wrapper_doc kvs) @ NEWLINE) = Some (wrapper_doc kvs)"
    if "list_all (\<lambda>(k, v). valid_utf8 (as_bytes k) \<and> valid_utf8 (as_bytes v)) kvs" for kvs
  proof
    let ?ss = "concat (map (\<lambda>(k, v). [k, v]) kvs)"
    have utf8: "list_all (\<lambda>s. valid_utf8 (as_bytes s)) ?ss" using that by (induction kvs) auto
    show "valid_utf8 (as_bytes (make_to_text (wrapper_doc kvs) @ NEWLINE))"
      unfolding make_to_text_def using demo_json_law utf8 by (auto simp: json_law_def doc_strings_wrapper demo_platform_def)
    have "last (make_to_text (wrapper_doc kvs) @ NEWLINE) = CHR 0x0A" by (simp add: NEWLINE_def)
    moreover have "last ''record'' \<noteq> CHR 0x0A" "last ''att'' \<noteq> CHR 0x0A" by simp_all
    ultimately have "make_to_text (wrapper_doc kvs) @ NEWLINE \<noteq> ''record''" "make_to_text (wrapper_doc kvs) @ NEWLINE \<noteq> ''att''" by metis+
    then show "make_from_str (make_to_text (wrapper_doc kvs) @ NEWLINE) = Some (wrapper_doc kvs)"
      unfolding make_from_str_def make_to_text_def doc_strings_wrapper store_round_trip [OF utf8]
      by (simp add: seen_doc_def seen_strings pair_up_strings)
  qed
  then show ?thesis by (simp add: wrapper_law_def)
qed

lemma hex_length: "length (hex_encode plain_hex bs) = 2 * length bs"
  by (induction bs) (simp_all add: plain_hex_def)

lemma make_text_length: "length (make_to_text (wrapper_doc kvs)) = sum_list (map (\<lambda>(k, v). 2 * length k + 2 * length v + 2) kvs)"
  unfolding make_to_text_def doc_strings_wrapper demo_to_text_doc by (induction kvs) (auto simp: hex_length)

text \<open>An event, and the run of \<^verbatim>\<open>create-event\<close> that makes it.\<close>

definition small_event :: event_content where
  "small_event = \<lparr>ev_v = 1, ev_type = ''t'', ev_subject = ''s'', ev_effective_at = 7,
     ev_payload_ref = \<lparr>hr_v = 1, hr_alg = Sha256, hr_digest = replicate 32 0\<rparr>, ev_metadata = []\<rparr>"

lemma small_event_size: "length (encode_canonical (event_map small_event)) \<le> 200"
  by (simp add: small_event_def event_map_def encode_eval meta_pairs_to_cbor_def hashref_to_cbor_def)

definition small_created :: "base64_engine \<Rightarrow> created_event" where
  "small_created b64 = \<lparr>ce_content = small_event, ce_canonical = encode_canonical (event_map small_event),
     ce_id = event_id b64 zero_hash (encode_canonical (event_map small_event))\<rparr>"

lemma small_event_created: "create_event b64 zero_hash small_event default_limits = Inr (small_created b64)"
proof -
  have keys: "distinct (map (\<lambda>k. encode_canonical (CText k)) [''effective_at'', ''metadata'', ''payload_ref'', ''subject'', ''type'', ''v''])"
    "distinct (map (\<lambda>k. encode_canonical (CText k)) [''alg'', ''digest'', ''v''])"
    by (simp_all add: encode_eval)
  have "wf_value default_limits 0 (event_map small_event)"
    using keys by (simp add: small_event_def event_map_def meta_pairs_to_cbor_def hashref_to_cbor_def default_limits_def as_bytes_def byte_of_char_def in_range_def)
  then have "canon_form default_limits 0 (sort_maps (event_map small_event))" by (rule canon_form_sort_maps)
  moreover have "event_ok small_event" by (simp add: small_event_def event_ok_def text_ok_def hash_ref_ok_def metadata_ok_def meta_sorted_def)
  ultimately have "bindR (decode_strict (encode_canonical (event_map small_event)) default_limits) (\<lambda>v. cbor_to_event v default_limits) = Inr small_event"
    using small_event_size unfolding event_schema.read_iff by (simp add: default_limits_def)
  then show ?thesis
    by (auto simp: create_event_def event_to_cbor_def Let_def decode_check_eq small_created_def result_iff) (simp_all add: small_event_def)
qed


definition quiet_world :: world where
  "quiet_world = \<lparr>w_stdin = None, w_files = (\<lambda>_. NoFile), w_writable = (\<lambda>_. True), w_stdout = []\<rparr>"

definition flags_of :: "(string \<times> string) list \<Rightarrow> cli" where
  "flags_of kvs = Cli_default\<lparr>cl_values := map_of kvs, cl_multi := (\<lambda>k. case map_of kvs k of Some v \<Rightarrow> [v] | None \<Rightarrow> [])\<rparr>"

definition event_flags :: cli where
  "event_flags = flags_of [(''payload-hex'', hex_encode plain_hex (replicate 32 0)), (''type'', ''t''), (''subject'', ''s''),
     (''effective-at'', ''7''), (''out'', ''f'')]"

lemma flags_simps [simp]:
  "cli_opt (flags_of kvs) k = map_of kvs k" "\<not> cli_has (flags_of kvs) k"
  "cli_many (flags_of kvs) k = (case map_of kvs k of Some v \<Rightarrow> [v] | None \<Rightarrow> [])"
  by (simp_all add: flags_of_def cli_opt_def cli_has_def cli_many_def Cli_default_def)

lemma cli_req_flags [simp]: "cli_req (flags_of kvs) k = ok_or (map_of kvs k) (MissingFlag k)"
  by (simp add: cli_req_def flags_of_def)

lemma small_digest: "hash_ref_from_hex (make_platform b64) (hex_encode plain_hex (replicate 32 0)) = Inr (ev_payload_ref small_event)"
  using plain_hex_law by (simp add: hash_ref_from_hex_def hex_law_def ok_or_def codeR_def HashRef_new_def small_event_def)

lemma seven: "parse_u64 ''7'' = Some 7"
  by (simp add: parse_u64_def starts_with_def)

lemma event_run:
  "write_event (make_platform hex_b64) event_flags quiet_world = Some (Inr (ce_id (small_created hex_b64)),
     quiet_world\<lparr>w_files := (\<lambda>_. NoFile)(''f'' := File (as_bytes (make_to_text (event_doc (make_platform hex_b64) (small_created hex_b64)) @ NEWLINE)))\<rparr>)"
proof -
  have "\<lparr>ev_v = 1, ev_type = ''t'', ev_subject = ''s'', ev_effective_at = 7, ev_payload_ref = ev_payload_ref small_event, ev_metadata = []\<rparr> = small_event"
    by (simp add: small_event_def)
  then show ?thesis
    using small_digest small_event_created [of hex_b64]
    by (simp add: write_event_def event_flags_def digest_input_def bindIO_def usageIO_def liftIO_def retIO_def ok_or_def cli_req_u64_def seven
        parse_fields_def labelR_def limits_of_cli_def write_json_def writeIO_def Let_def quiet_world_def)
qed

theorem written_artifacts_load_witness:
  "\<exists>w' x. write_event (make_platform hex_b64) event_flags quiet_world = Some (Inr (ce_id (small_created hex_b64)), w')
     \<and> load_event (make_platform hex_b64) ''f'' w' = Some (Inr x, w') \<and> ev_subject x = ''s''"
proof -
  let ?pf = "make_platform hex_b64"
  obtain w' where run: "write_event ?pf event_flags quiet_world = Some (Inr (ce_id (small_created hex_b64)), w')"
      "w_files w' ''f'' = File (as_bytes (make_to_text (event_doc ?pf (small_created hex_b64)) @ NEWLINE))"
    using event_run by simp
  have "length (make_to_text (event_doc ?pf (small_created hex_b64))) < MAX_INPUT_FILE_BYTES"
    using small_event_size unfolding event_doc_def make_text_length
    by (simp add: MAX_INPUT_FILE_BYTES_def hex_length small_created_def event_id_def id_with_def b64u_nopad_def hex_b64_def zero_hash_def)
  then have "file_fits ''f'' w'" by (simp add: file_fits_def run(2) NEWLINE_def)
  moreover have "cli_opt event_flags ''out'' = Some ''f''" "cli_opt event_flags ''subject'' = Some ''s''" by (simp_all add: event_flags_def)
  ultimately show ?thesis
    using written_artifacts_load [of ?pf event_flags "''f''" w' quiet_world "ce_id (small_created hex_b64)"] run(1)
      hex_b64_laws engine_laws(2) plain_hex_law make_wrapper_law
    by auto
qed


lemma verified_size:
  assumes "b64_law b64" "verify_attestation b64 h e bs issuer al l = Inr (c, i)"
  shows "length bs \<le> max_proof_size l"
  using assms(2) unfolding verify_attestation_Inr [OF assms(1)] verify_sign1_def verify_sign1_iff [OF assms(1)] parse_sign1_iff
  by (auto simp: sign1_ok_def)

definition status_flags :: cli where
  "status_flags = flags_of [(''seed'', ''test''), (''at'', ''7''), (''target'', ''att:v1:x''), (''out'', ''f'')]"

lemma status_run:
  "\<exists>made. write_status_object (make_platform hex_b64) status_flags ''revoke'' quiet_world = Some (Inr (ca_id made),
     quiet_world\<lparr>w_files := (\<lambda>_. NoFile)(''f'' := File (as_bytes (make_to_text (status_doc (make_platform hex_b64) made) @ NEWLINE)))\<rparr>)
     \<and> length (make_to_text (status_doc (make_platform hex_b64) made)) < MAX_INPUT_FILE_BYTES"
proof -
  let ?key = "key_ref hex_b64 plain_sig sample_key"
  let ?fs = "[(''target'', MText ''att:v1:x'')]"
  have key: "utf8_text ?key"
    unfolding utf8_text_def
  proof
    show "text_ok ?key"
      by (simp add: text_ok_def key_ref_def hex_b64_def hex_length pubkey_bytes_def plain_sig_def sample_key_def Ed25519Key_from_seed_def)
  qed (rule id_utf8(6) [OF hex_b64_laws(2)])
  have target: "utf8_text ''att:v1:x''" "status_shape ''revoke'' ?fs"
    by (simp_all add: utf8_text_def text_ok_def status_shape_def as_bytes_def byte_of_char_def in_range_def)
  obtain made where made: "attest hex_b64 zero_hash plain_sig (status_content hex_b64 plain_sig sample_key ''att:v1:x'' ''revoke'' ?fs 7) sample_key
        default_limits = Inr made"
      "verify_status_object hex_b64 zero_hash plain_sig (ca_sign1 made) ?key AllowedAlgs_strict default_limits = Inr (ca_content made)"
    using status_built [OF hex_b64_laws(1) plain_sig_law sample_key_seed strict_ed25519 key target, of zero_hash 7] by blast
  have "length (ca_sign1 made) \<le> 1024 * 1024"
    using made(2) verified_size [OF hex_b64_laws(1), of zero_hash plain_sig "ca_sign1 made" ?key AllowedAlgs_strict default_limits]
    by (auto simp: verify_status_object_def result_iff default_limits_def split: if_splits)
  moreover have "length (ca_canonical made) \<le> 20000" "ca_id made = attestation_id hex_b64 zero_hash (ca_canonical made)"
      "length (att_issuer (ca_content made)) \<le> 1024" "claim_type (att_claim (ca_content made)) = ''revoke''"
    using made(1) length_encode_attestation key attest_reads [OF made(1)]
    by (auto simp: attest_Inr status_content_def utf8_text_def text_ok_def)
  ultimately have "length (make_to_text (status_doc (make_platform hex_b64) made)) < MAX_INPUT_FILE_BYTES"
    unfolding status_doc_def make_text_length
    by (simp add: MAX_INPUT_FILE_BYTES_def hex_length attestation_id_def id_with_def b64u_nopad_def hex_b64_def zero_hash_def)
  moreover have "test_key = sample_key" by (simp add: test_key_def sample_key_def)
  ultimately show ?thesis
    using made(1)
    by (intro exI [of _ made])
      (simp add: write_status_object_def status_flags_def load_key_opt_def load_key_material_def make_status_def bindIO_def usageIO_def liftIO_def
        retIO_def ok_or_def cli_req_u64_def seven labelR_def limits_of_cli_def write_json_def writeIO_def Let_def quiet_world_def
        revoke_attestation_def reason_fields_def)
qed

theorem signed_files_load_witness:
  "\<exists>i w' st. write_status_object (make_platform hex_b64) status_flags ''revoke'' quiet_world = Some (Inr i, w')
     \<and> load_status (make_platform hex_b64) ''f'' w' = Some (Inr st, w') \<and> is_status (claim_kind_of (ss_content st))"
proof -
  let ?pf = "make_platform hex_b64"
  obtain i w' bs where run: "write_status_object ?pf status_flags ''revoke'' quiet_world = Some (Inr i, w')"
      "w_files w' ''f'' = File bs" "length bs \<le> MAX_INPUT_FILE_BYTES"
    using status_run by (auto simp: NEWLINE_def)
  have "file_fits ''f'' w'" using run by (simp add: file_fits_def)
  moreover have "cli_opt status_flags ''out'' = Some ''f''" by (simp add: status_flags_def)
  ultimately show ?thesis
    using signed_files_load [of ?pf status_flags "''f''" w' quiet_world i "''revoke''"] run(1)
      hex_b64_laws plain_sig_law plain_hex_law make_wrapper_law
    by auto
qed


definition build_flags :: cli where
  "build_flags = flags_of [(''kind'', ''k''), (''subject'', ''s''), (''predicate'', ''p''), (''created-at'', ''1''), (''events'', []),
     (''attestations'', ''a''), (''out'', ''f'')]"

definition build_world :: world where
  "build_world = quiet_world\<lparr>w_files := (\<lambda>_. NoFile)(''a'' := File (as_bytes ''att''))\<rparr>"

lemma att_file: "load_attestation (make_platform plain_b64) ''a'' build_world = Some (Inr demo_created, build_world)"
proof -
  let ?pf = "make_platform plain_b64"
  have "valid_utf8 (as_bytes ''att'')" by (simp add: as_bytes_def byte_of_char_def in_range_def)
  then have "read_json ?pf ''a'' build_world = Some (Inr (attestation_doc demo_platform demo_created), build_world)"
    by (simp add: read_json_def read_input_text_def read_input_file_def bindIO_def retIO_def from_strIO_def liftIO_def build_world_def make_from_str_def
        MAX_INPUT_FILE_BYTES_def)
  moreover have "attestation_doc demo_platform demo_created = attestation_doc ?pf demo_created"
    by (simp add: attestation_doc_def demo_platform_def)
  ultimately have doc: "read_json ?pf ''a'' build_world = Some (Inr (attestation_doc ?pf demo_created), build_world)" by simp
  have made: "attest (pf_b64 ?pf) (pf_hash ?pf) (pf_sig ?pf) demo_statement sample_key limits_of_cli = Inr demo_created"
    using demo_attests by (simp add: limits_of_cli_def)
  have "length (ca_canonical demo_created) \<le> max_field_size limits_of_cli"
    using demo_statement_size by (simp add: demo_created_def limits_of_cli_def default_limits_def)
  then show ?thesis
    using attestation_file_loads [OF _ _ _ sample_key_seed made doc] engine_laws(1) plain_sig_law plain_hex_law by auto
qed

lemma build_run:
  "\<exists>w'. build_command (make_platform plain_b64) build_flags build_world = Some (Inr (prf_id demo_package), w')
     \<and> w_files w' ''f'' = File (as_bytes (make_to_text (proof_doc (make_platform plain_b64) (prf_id demo_package) demo_bytes) @ NEWLINE))"
proof -
  have "proposition_of build_flags = Inr (prf_proposition demo_package)"
    by (simp add: proposition_of_def build_flags_def parse_fields_def ok_or_def cli_opt_u64_def demo_package_def)
  moreover have "cli_req_u64 build_flags ''created-at'' = Inr 1"
    by (simp add: build_flags_def cli_req_u64_def ok_or_def parse_u64_def starts_with_def)
  moreover have "input_list build_flags ''events'' = Inr []" "input_list build_flags ''attestations'' = Inr [''a'']"
      "opt_input_list build_flags ''evidence'' = Inr []" "opt_input_list build_flags ''relationships'' = Inr []"
    by (simp_all add: input_list_def opt_input_list_def build_flags_def list_entries_def)
  moreover have "cli_req build_flags ''out'' = Inr ''f''" by (simp add: build_flags_def ok_or_def)
  moreover have "build plain_b64 zero_hash (add_attestation (ProofBuilder_new (prf_proposition demo_package) 1) demo_created) limits_of_cli
      = Inr \<lparr>bp_proof = demo_package, bp_canonical = demo_bytes, bp_id = prf_id demo_package\<rparr>"
    using demo_builds by (simp add: demo_builder_def limits_of_cli_def)
  ultimately show ?thesis
    using att_file
    by (simp add: build_command_def bindIO_def usageIO_def liftIO_def retIO_def labelR_def Let_def write_proof_file_def write_json_def writeIO_def
        printlnIO_def printIO_def build_world_def quiet_world_def)
qed

theorem build_writes_valid_proof_witness:
  "\<exists>w' lp rep. build_command (make_platform plain_b64) build_flags build_world = Some (Inr (prf_id demo_package), w')
     \<and> load_proof (make_platform plain_b64) ''f'' w' = Some (Inr lp, w')
     \<and> verify_proof plain_b64 zero_hash plain_sig remdups (lp_canonical lp) demo_ctx = Some (Inr rep) \<and> rep_cryptographic_validity rep = Valid"
proof -
  let ?pf = "make_platform plain_b64"
  obtain w' where run: "build_command ?pf build_flags build_world = Some (Inr (prf_id demo_package), w')"
      "w_files w' ''f'' = File (as_bytes (make_to_text (proof_doc ?pf (prf_id demo_package) demo_bytes) @ NEWLINE))"
    using build_run by blast
  have "length (make_to_text (proof_doc ?pf (prf_id demo_package) demo_bytes)) < MAX_INPUT_FILE_BYTES"
    using demo_size unfolding proof_doc_def make_text_length
    by (simp add: MAX_INPUT_FILE_BYTES_def hex_length demo_package_def id_with_def b64u_nopad_def plain_b64_def zero_hash_def str_of_bytes_def)
  then have "file_fits ''f'' w'" by (simp add: file_fits_def run(2) NEWLINE_def)
  moreover have "cli_opt build_flags ''out'' = Some ''f''" by (simp add: build_flags_def)
  ultimately show ?thesis
    using build_writes_valid_proof [of ?pf build_flags "''f''" w' build_world "prf_id demo_package" demo_ctx] run(1)
      engine_laws(1) hash_iter_remdups plain_hex_law make_wrapper_law
    by auto
qed

definition ingest_flags :: cli where
  "ingest_flags = flags_of [(''out-dir'', ''d'')]"

definition ingest_world :: world where
  "ingest_world = quiet_world\<lparr>w_stdin := Some (as_bytes ''record'')\<rparr>"

lemma record_event: "line_event (make_platform hex_b64) label demo_record = Inr (small_created hex_b64)"
proof -
  have "\<lparr>ev_v = 1, ev_type = ''t'', ev_subject = ''s'', ev_effective_at = 7, ev_payload_ref = ev_payload_ref small_event, ev_metadata = []\<rparr> = small_event"
    by (simp add: small_event_def)
  moreover have "line_str label obj name = Inr t" if "map_of obj name = Some (JString t)" "t \<noteq> []" for obj name t
    using that by (cases t) (simp_all add: line_str_def)
  moreover have "hex_encode plain_hex (replicate 32 0) \<noteq> []" using hex_length [of "replicate 32 0"] by auto
  ultimately show ?thesis
    using small_digest small_event_created [of hex_b64]
    by (simp add: line_event_def demo_record_def line_meta_def line_known_def ok_or_def prefixR_def usageR_def parse_fields_def labelR_def
        limits_of_cli_def)
qed

lemma ingest_run: "\<exists>w'. ingest_command (make_platform hex_b64) ingest_flags ingest_world = Some (Inr EXIT_OK, w')"
proof -
  have "valid_utf8 (as_bytes ''record'')" by (simp add: as_bytes_def byte_of_char_def in_range_def)
  moreover have "str_trim ''record'' = ''record''" by code_simp
  ultimately show ?thesis
    by (simp add: ingest_command_def ingest_flags_def read_input_text_def read_stdin_text_def bindIO_def retIO_def ingest_world_def quiet_world_def
        MAX_INPUT_FILE_BYTES_def usageIO_def liftIO_def ok_or_def create_dir_all_def ingest_text_def ingest_line_def record_event tryIO_def Let_def
        make_from_str_def write_json_def ingested_path_file writeIO_def printlnIO_def printIO_def)
qed

theorem ingested_files_cannot_be_listed_witness:
  "\<exists>w' i. ingest_command (make_platform hex_b64) ingest_flags ingest_world = Some (Inr EXIT_OK, w')
     \<and> w_stdout w' = make_to_text (manifest [i] [] False) @ NEWLINE \<and> w_files w' (ingested_path ''d'' i) \<noteq> NoFile
     \<and> input_list (flags_of [(''events'', ingested_path ''d'' i)]) ''events'' \<noteq> Inr [ingested_path ''d'' i]"
proof -
  let ?pf = "make_platform hex_b64"
  obtain w' where run: "ingest_command ?pf ingest_flags ingest_world = Some (Inr EXIT_OK, w')" using ingest_run by blast
  have utf8: "valid_utf8 (as_bytes ''record'')" by (simp add: as_bytes_def byte_of_char_def in_range_def)
  have line: "length (filter (\<lambda>line. str_trim line \<noteq> []) (split_on (\<lambda>c. c = CHR 0x0A) ''record'')) = 1" by code_simp
  obtain input label w1 ids skipped where *: "read_input_text ?pf ''-'' ingest_world = Some (Inr (input, label), w1)"
      "length ids + length skipped = length (filter (\<lambda>line. str_trim line \<noteq> []) (split_on (\<lambda>c. c = CHR 0x0A) input))"
      "w_stdout w' = w_stdout ingest_world @ make_to_text (manifest ids skipped False) @ NEWLINE"
      "EXIT_OK = (if skipped = [] then EXIT_OK else EXIT_FAIL)"
      "\<forall>i \<in> set ids. w_files w' (ingested_path ''d'' i) \<noteq> NoFile \<and> (\<forall>c' name paths. input_list c' name = Inr paths \<longrightarrow> ingested_path ''d'' i \<notin> set paths)"
    using ingested_files_cannot_be_listed [of ?pf, OF _ _ _ _ _ run, of "''d''"] hex_b64_laws engine_laws(2) plain_hex_law make_wrapper_law
    by (auto simp: ingest_flags_def)
  have "input = ''record''"
    using *(1) utf8 by (simp add: read_input_text_def read_stdin_text_def ingest_world_def bindIO_def retIO_def MAX_INPUT_FILE_BYTES_def Let_def)
  moreover have "skipped = []" using *(4) by (simp add: exit_codes split: if_splits)
  ultimately obtain i where "ids = [i]" using *(2) line by (auto simp: length_Suc_conv)
  then have "w_stdout w' = make_to_text (manifest [i] [] False) @ NEWLINE" "w_files w' (ingested_path ''d'' i) \<noteq> NoFile"
    using *(3,5) \<open>skipped = []\<close> by (auto simp: ingest_world_def quiet_world_def)
  moreover have "ingested_path ''d'' i \<notin> set paths" if "input_list c' name = Inr paths" for c' name paths
    using that *(5) \<open>ids = [i]\<close> by simp
  then have "input_list (flags_of [(''events'', ingested_path ''d'' i)]) ''events'' \<noteq> Inr [ingested_path ''d'' i]"
    by fastforce
  ultimately show ?thesis using run by blast
qed

end
