(* ===== verification/Cli_Port.thy ===== *)
theory Cli_Port
  imports Cli_Make
begin

text \<open>
  The portability commands of \<^verbatim>\<open>proof-cli\<close>, \<^verbatim>\<open>port.rs\<close>: \<^verbatim>\<open>export\<close>, \<^verbatim>\<open>import\<close>, \<^verbatim>\<open>convert\<close>, \<^verbatim>\<open>compose\<close> and \<^verbatim>\<open>resolve\<close>, and the
  directory store of \<^verbatim>\<open>store.rs\<close>, on the world of the commands. A composition is the union of its sources and verifies, the
  store refines the contract of the memory store, and exported files are not accepted by the loaders.
\<close>

section \<open>Export, import and convert\<close>

definition read_json_text :: "platform \<Rightarrow> string \<Rightarrow> json io" where
  "read_json_text pf fpath = bindIO (read_input_text pf fpath) (\<lambda>(text, label). from_strIO pf label text)"

text \<open>The fields that \<^verbatim>\<open>export\<close> and \<^verbatim>\<open>import\<close> read, in their order.\<close>

definition wrapper_kind :: "string \<Rightarrow> json \<Rightarrow> string + artifact_kind" where
  "wrapper_kind what v =
     bindR (ok_or (get_str v ''kind'') (what @ '': missing `kind`'')) (\<lambda>s.
     ok_or (artifact_kind_parse s) (what @ '': unknown kind `'' @ s @ ''`''))"

definition wrapper_field :: "string \<Rightarrow> json \<Rightarrow> string \<Rightarrow> string + string" where
  "wrapper_field what v name = ok_or (get_str v name) (what @ '': missing `'' @ name @ ''`'')"

definition check_envelope :: "platform \<Rightarrow> string \<Rightarrow> artifact_kind \<Rightarrow> string \<Rightarrow> string \<Rightarrow> string option \<Rightarrow> string + bytes" where
  "check_envelope pf what kind i cbor_hex sign1 =
     labelR pf (what @ '': envelope does not verify'') (as_bytes cbor_hex)
       (verify_envelope (pf_b64 pf) (pf_hash pf) (pf_hex pf) (pf_sig pf)
         \<lparr>env_container_version = CONTAINER_VERSION, env_kind = kind, env_id = i, env_cbor_hex = cbor_hex, env_sign1_b64u = sign1\<rparr>
         limits_of_cli None None)"

definition export_doc :: "artifact_kind \<Rightarrow> string \<Rightarrow> string \<Rightarrow> string option \<Rightarrow> json" where
  "export_doc kind i cbor_hex sign1 =
     JObject [(''cbor'', JString cbor_hex), (''container_version'', JNumber (PosInt (word_of_nat CONTAINER_VERSION))), (''id'', JString i),
       (''kind'', JString (artifact_kind_as_str kind)), (''sign1'', case sign1 of Some s \<Rightarrow> JString s | None \<Rightarrow> JNull)]"

definition export_command :: "platform \<Rightarrow> cli \<Rightarrow> unit io" where
  "export_command pf c =
     bindIO (usageIO pf (proof_path c)) (\<lambda>src.
     bindIO (usageIO pf (cli_req c ''out'')) (\<lambda>out.
     bindIO (read_json_text pf src) (\<lambda>v.
     bindIO (liftIO (wrapper_kind ''export'' v)) (\<lambda>kind.
     bindIO (liftIO (wrapper_field ''export'' v ''id'')) (\<lambda>i.
     bindIO (liftIO (wrapper_field ''export'' v ''cbor'')) (\<lambda>cbor_hex.
     let sign1 = str_of_either v ''sign1_b64'' ''sign1''
     in bindIO (liftIO (check_envelope pf ''export'' kind i cbor_hex sign1)) (\<lambda>_.
        write_json pf out (export_doc kind i cbor_hex sign1))))))))"

text \<open>\<^verbatim>\<open>Map::insert\<close> of the ordered map behind a JSON object.\<close>

fun obj_insert :: "string \<Rightarrow> json \<Rightarrow> json_obj \<Rightarrow> json_obj" where
  "obj_insert k v [] = [(k, v)]"
| "obj_insert k v ((k', v') # m) =
     (if k < k' then (k, v) # (k', v') # m else if k = k' then (k, v) # m else (k', v') # obj_insert k v m)"

definition container_version_of :: "json \<Rightarrow> u64" where
  "container_version_of v =
     (case json_get v ''container_version'' of Some (JNumber n) \<Rightarrow> (case as_u64 n of Some x \<Rightarrow> x | None \<Rightarrow> 0) | _ \<Rightarrow> 0)"

definition check_container :: "json \<Rightarrow> string + unit" where
  "check_container v =
     (if container_version_of v \<noteq> word_of_nat CONTAINER_VERSION
        \<and> \<not> (json_get v ''container_version'' = None \<and> json_get v ''id'' \<noteq> None \<and> json_get v ''cbor'' \<noteq> None)
      then Inl (''import: unsupported container_version '' @ show_nat (unat (container_version_of v)) @ '' (expected 1)'')
      else Inr ())"

definition import_doc :: "artifact_kind \<Rightarrow> string \<Rightarrow> string \<Rightarrow> string option \<Rightarrow> json option \<Rightarrow> json_obj" where
  "import_doc kind i cbor_hex sign1 issuer =
     (let doc = [(''cbor'', JString cbor_hex), (''id'', JString i), (''kind'', JString (artifact_kind_as_str kind))];
          doc = (case sign1 of Some s \<Rightarrow> obj_insert ''sign1_b64'' (JString s) doc | None \<Rightarrow> doc)
      in case issuer of Some iss \<Rightarrow> obj_insert ''issuer'' iss doc | None \<Rightarrow> doc)"

definition import_command :: "platform \<Rightarrow> cli \<Rightarrow> unit io" where
  "import_command pf c =
     bindIO (usageIO pf (proof_path c)) (\<lambda>src.
     bindIO (usageIO pf (cli_req c ''out'')) (\<lambda>out.
     bindIO (read_json_text pf src) (\<lambda>v.
     bindIO (liftIO (wrapper_kind ''import'' v)) (\<lambda>kind.
     bindIO (liftIO (check_container v)) (\<lambda>_.
     bindIO (liftIO (wrapper_field ''import'' v ''id'')) (\<lambda>i.
     bindIO (liftIO (wrapper_field ''import'' v ''cbor'')) (\<lambda>cbor_hex.
     let sign1 = str_of_either v ''sign1'' ''sign1_b64''
     in bindIO (liftIO (check_envelope pf ''import'' kind i cbor_hex sign1)) (\<lambda>_.
        write_json pf out (JObject (import_doc kind i cbor_hex sign1 (json_get v ''issuer'')))))))))))"

text \<open>\<^verbatim>\<open>convert\<close>; the Unicode tables behind \<^verbatim>\<open>to_lowercase\<close> are the argument \<open>lowercase\<close>.\<close>

definition convert_obj :: "(string \<Rightarrow> string) \<Rightarrow> json_obj \<Rightarrow> json_obj" where
  "convert_obj lowercase obj =
     (let obj = (if map_of obj ''kind'' \<noteq> None \<and> map_of obj ''cbor'' \<noteq> None \<and> map_of obj ''container_version'' = None
                 then obj_insert ''container_version'' (JNumber (PosInt (word_of_nat CONTAINER_VERSION))) obj else obj);
          obj = (case str_of_either (JObject obj) ''sign1'' ''sign1_b64'' of
                   Some s \<Rightarrow> obj_insert ''sign1_b64'' (JString s) (obj_insert ''sign1'' (JString s) obj)
                 | None \<Rightarrow> obj)
      in case get_str (JObject obj) ''cbor'' of
           Some cbor \<Rightarrow> obj_insert ''cbor'' (JString (lowercase cbor)) obj
         | None \<Rightarrow> obj)"

definition convert_command :: "platform \<Rightarrow> (string \<Rightarrow> string) \<Rightarrow> cli \<Rightarrow> unit io" where
  "convert_command pf lowercase c =
     bindIO (usageIO pf (proof_path c)) (\<lambda>src.
     bindIO (usageIO pf (cli_req c ''out'')) (\<lambda>out.
     bindIO (read_json_text pf src) (\<lambda>v.
     case v of
       JObject obj \<Rightarrow> write_json pf out (JObject (convert_obj lowercase obj))
     | _ \<Rightarrow> failIO ''convert: not an object'')))"

section \<open>Compose\<close>

text \<open>
  The four maps of \<^verbatim>\<open>compose\<close> as lists of entries in the order of insertion; \<^verbatim>\<open>entry(id).or_insert\<close> keeps what is there.
  Their iteration goes through the order that the platform gives a hash map with these keys.
\<close>

record composition =
  cm_events :: "(string \<times> event_content) list"
  cm_attestations :: "(string \<times> created_attestation) list"
  cm_evidence :: "(string \<times> evidence) list"
  cm_relationships :: "(string \<times> relationship) list"
  cm_seen :: "string list"

definition composition_empty :: composition where
  "composition_empty = \<lparr>cm_events = [], cm_attestations = [], cm_evidence = [], cm_relationships = [], cm_seen = []\<rparr>"

definition or_insert :: "'a \<Rightarrow> 'b \<Rightarrow> ('a \<times> 'b) list \<Rightarrow> ('a \<times> 'b) list" where
  "or_insert k v m = (if k \<in> fst ` set m then m else m @ [(k, v)])"

definition or_insert_all :: "('a \<times> 'b) list \<Rightarrow> ('a \<times> 'b) list \<Rightarrow> ('a \<times> 'b) list" where
  "or_insert_all ps m = fold (\<lambda>(k, v). or_insert k v) ps m"

definition entries_in :: "(string list \<Rightarrow> string list) \<Rightarrow> (string \<times> 'b) list \<Rightarrow> 'b list" where
  "entries_in iter m = List.map_filter (map_of m) (iter (map fst m))"

fun add_attestations ::
  "platform \<Rightarrow> string \<Rightarrow> stored_attestation list \<Rightarrow> (string \<times> created_attestation) list \<Rightarrow> string + (string \<times> created_attestation) list" where
  "add_attestations pf fpath [] m = Inr m"
| "add_attestations pf fpath (a # as) m =
     (let canon = encode_canonical (attestation_to_cbor (sa_content a));
          i = attestation_id (pf_b64 pf) (pf_hash pf) canon
      in if i \<in> fst ` set m then add_attestations pf fpath as m
         else bindR (labelR pf (''compose: attestation in '' @ fpath @ '' rejected'') (sa_sign1 a)
                (verify_attestation (pf_b64 pf) (pf_hash pf) (pf_sig pf) (sa_sign1 a) (att_issuer (sa_content a)) AllowedAlgs_strict limits_of_cli))
              (\<lambda>(content, vid).
              if vid \<noteq> i \<or> content \<noteq> sa_content a then Inl (''compose: attestation id mismatch in '' @ fpath)
              else add_attestations pf fpath as
                (m @ [(i, \<lparr>ca_content = sa_content a, ca_canonical = canon, ca_id = i, ca_sign1 = sa_sign1 a\<rparr>)])))"

definition event_key :: "platform \<Rightarrow> event_content \<Rightarrow> string + string" where
  "event_key pf x = codeR pf [] (bindR (event_to_cbor x) (\<lambda>v. Inr (event_id (pf_b64 pf) (pf_hash pf) (encode_canonical v))))"

definition evidence_key :: "platform \<Rightarrow> evidence \<Rightarrow> string" where
  "evidence_key pf x = evidence_id (pf_b64 pf) (pf_hash pf) (encode_canonical (evidence_to_cbor x))"

definition relationship_key :: "platform \<Rightarrow> relationship \<Rightarrow> string" where
  "relationship_key pf x = relationship_id (pf_b64 pf) (pf_hash pf) (encode_canonical (relationship_to_cbor x))"

definition absorb :: "platform \<Rightarrow> string \<Rightarrow> proof_package \<Rightarrow> composition \<Rightarrow> string + composition" where
  "absorb pf fpath p m =
     (if prf_id p \<in> set (cm_seen m) then Inr m
      else
        bindR (mapR (event_key pf) (prf_events p)) (\<lambda>event_keys.
        bindR (add_attestations pf fpath (prf_attestations p) (cm_attestations m)) (\<lambda>attestations.
        Inr \<lparr>cm_events = or_insert_all (zip event_keys (prf_events p)) (cm_events m),
             cm_attestations = attestations,
             cm_evidence = or_insert_all (map (\<lambda>x. (evidence_key pf x, x)) (prf_evidence p)) (cm_evidence m),
             cm_relationships = or_insert_all (map (\<lambda>x. (relationship_key pf x, x)) (prf_relationships p)) (cm_relationships m),
             cm_seen = cm_seen m @ [prf_id p]\<rparr>)))"

fun absorb_all :: "platform \<Rightarrow> string list \<Rightarrow> composition \<Rightarrow> composition io" where
  "absorb_all pf [] m = retIO m"
| "absorb_all pf (fpath # paths) m =
     bindIO (load_proof pf fpath) (\<lambda>lp.
     bindIO (liftIO (absorb pf fpath (lp_proof lp) m)) (\<lambda>m'.
     absorb_all pf paths m'))"

text \<open>
  Divergent claims: among the attestations with one claim type and subject, those whose fields differ from the one with
  the least id. The groups come in the order of a hash map, \<open>group_iter\<close>.
\<close>

definition group_key :: "created_attestation \<Rightarrow> string \<times> string" where
  "group_key a = (claim_type (att_claim (ca_content a)), att_subject (ca_content a))"

definition divergent_in :: "(string \<times> created_attestation) list \<Rightarrow> string \<times> string \<Rightarrow> (string \<times> string \<times> string \<times> string) list" where
  "divergent_in m key =
     (case sort_key fst (filter (\<lambda>(i, a). group_key a = key) m) of
        [] \<Rightarrow> []
      | (base_id, base) # others \<Rightarrow>
          map (\<lambda>(i, a). (fst key, snd key, base_id, i))
            (filter (\<lambda>(i, a). claim_fields (att_claim (ca_content base)) \<noteq> claim_fields (att_claim (ca_content a))) others))"

definition divergent_pairs ::
  "((string \<times> string) list \<Rightarrow> (string \<times> string) list) \<Rightarrow> (string \<times> created_attestation) list \<Rightarrow> (string \<times> string \<times> string \<times> string) list" where
  "divergent_pairs group_iter m = concat (map (divergent_in m) (group_iter (remdups (map (group_key \<circ> snd) m))))"

definition conflicts_doc :: "(string \<times> string \<times> string \<times> string) list \<Rightarrow> json" where
  "conflicts_doc pairs =
     JObject [(''conflicts'', JArray (map (\<lambda>(ty, subject, a, b). JObject [(''attestation_a'', JString a), (''attestation_b'', JString b),
       (''claim_type'', JString ty), (''kind'', JString ''divergent_claims''), (''subject'', JString subject)]) pairs))]"

fun trim_json :: "nat \<Rightarrow> string \<Rightarrow> string" where
  "trim_json 0 s = s"
| "trim_json (Suc n) s = (case strip_prefix (rev ''.json'') (rev s) of Some r \<Rightarrow> trim_json n (rev r) | None \<Rightarrow> s)"

definition conflicts_path :: "string \<Rightarrow> string" where
  "conflicts_path out = trim_json (length out) out @ ''.conflicts.json''"

text \<open>The union graph, read from the files a second time.\<close>

definition union_edges :: "platform \<Rightarrow> proof_package list \<Rightarrow> edge_record list" where
  "union_edges pf ps =
     map (\<lambda>(i, r). \<lparr>er_content = r, er_id = i\<rparr>)
       (or_insert_all (map (\<lambda>r. (relationship_key pf r, r)) (concat (map prf_relationships ps))) [])"

definition union_nodes :: "platform \<Rightarrow> proof_package list \<Rightarrow> string + string list" where
  "union_nodes pf ps =
     bindR (mapR (\<lambda>p. bindR (mapR (event_key pf) (prf_events p)) (\<lambda>es.
         Inr (es @ map (\<lambda>a. attestation_id (pf_b64 pf) (pf_hash pf) (encode_canonical (attestation_to_cbor (sa_content a)))) (prf_attestations p)
              @ map (evidence_key pf) (prf_evidence p)))) ps) (\<lambda>nss. Inr (concat nss))"

definition check_union :: "platform \<Rightarrow> cli \<Rightarrow> proof_package list \<Rightarrow> unit io" where
  "check_union pf c ps =
     bindIO (liftIO (union_nodes pf ps)) (\<lambda>ids.
     let extra = extra_grounded c;
         edges = union_edges pf ps;
         nodes = NodeSet_new ids
     in bindIO (engineIO pf ''compose: union graph invalid'' []
            (validate_graph_with_grounding (pf_iter pf) edges nodes limits_of_cli (if extra = [] then None else Some extra))) (\<lambda>_.
        liftIO (labelR pf ''compose: union derivation cycle'' [] (check_derivation_acyclic (pf_iter pf) edges nodes))))"

fun add_sources :: "platform \<Rightarrow> string list \<Rightarrow> proof_builder \<Rightarrow> string + proof_builder" where
  "add_sources pf [] b = Inr b"
| "add_sources pf (i # is) b =
     bindR (labelR pf ''compose: bad source id'' (as_bytes i) (add_referenced_proof (pf_b64 pf) b i)) (add_sources pf is)"

definition compose_builder :: "platform \<Rightarrow> composition \<Rightarrow> proof_builder \<Rightarrow> string + proof_builder" where
  "compose_builder pf m b =
     bindR (add_sources pf (sort (cm_seen m)) b) (\<lambda>b.
     bindR (mapR (created_event_of pf) (entries_in (pf_iter pf) (cm_events m))) (\<lambda>events.
     bindR (mapR (created_evidence_of pf) (entries_in (pf_iter pf) (cm_evidence m))) (\<lambda>evidence.
     bindR (mapR (created_relationship_of pf) (entries_in (pf_iter pf) (cm_relationships m))) (\<lambda>relationships.
     let b = fold (\<lambda>x b. add_event b x) events b;
         b = fold (\<lambda>x b. add_attestation b x) (entries_in (pf_iter pf) (cm_attestations m)) b;
         b = fold (\<lambda>x b. add_evidence b x) evidence b
     in Inr (fold (\<lambda>x b. add_relationship b x) relationships b)))))"

definition compose_command :: "platform \<Rightarrow> ((string \<times> string) list \<Rightarrow> (string \<times> string) list) \<Rightarrow> cli \<Rightarrow> string io" where
  "compose_command pf group_iter c =
     bindIO (usageIO pf (input_list c ''proofs'')) (\<lambda>paths.
     if paths = [] then failIO ''compose: missing --proofs a.json,b.json''
     else
     bindIO (usageIO pf (proposition_of c)) (\<lambda>prop.
     bindIO (absorb_all pf paths composition_empty) (\<lambda>m.
     bindIO (usageIO pf (cli_req_u64 c ''created-at'')) (\<lambda>created_at.
     bindIO (liftIO (compose_builder pf m (ProofBuilder_new prop created_at))) (\<lambda>b.
     bindIO (mapIO (load_proof pf) paths) (\<lambda>again.
     bindIO (check_union pf c (map lp_proof again)) (\<lambda>_.
     bindIO (liftIO (labelR pf ''compose'' [] (build (pf_b64 pf) (pf_hash pf) b limits_of_cli))) (\<lambda>built.
     bindIO (usageIO pf (cli_req c ''out'')) (\<lambda>out.
     bindIO (write_proof_file pf out (bp_id built) (bp_canonical built)) (\<lambda>_.
     let pairs = divergent_pairs group_iter (cm_attestations m)
     in bindIO (if pairs = [] then retIO () else write_json pf (conflicts_path out) (conflicts_doc pairs)) (\<lambda>_.
        retIO (bp_id built))))))))))))"

section \<open>The directory store and resolve\<close>

text \<open>\<^verbatim>\<open>Path::join\<close> with a relative name.\<close>

definition path_join :: "string \<Rightarrow> string \<Rightarrow> string" where
  "path_join dir name = (if dir = [] \<or> last dir = CHR ''/'' then dir @ name else dir @ ''/'' @ name)"

definition safe_store_id :: "string \<Rightarrow> bool" where
  "safe_store_id i \<longleftrightarrow> i \<noteq> [] \<and> CHR ''/'' \<notin> set i \<and> CHR 0x5C \<notin> set i \<and> \<not> contains_text i ''..''"

definition store_path :: "platform \<Rightarrow> string \<Rightarrow> string \<Rightarrow> string + string" where
  "store_path pf dir i = (if safe_store_id i then Inr (path_join dir (i @ ''.cbor'')) else Inl (pf_usage_text pf (UnsafeStoreId i)))"

text \<open>The operations of the store on the world; a put that fails leaves the world as it was.\<close>

definition file_put :: "platform \<Rightarrow> string \<Rightarrow> world \<Rightarrow> string \<Rightarrow> bytes \<Rightarrow> string + world" where
  "file_put pf dir w i cbor =
     (if cbor = [] then Inl ''store put requires non-empty bytes''
      else
        bindR (store_path pf dir i) (\<lambda>fpath.
        case w_files w fpath of
          File prev \<Rightarrow> if prev \<noteq> cbor then Inl (''store conflict: '' @ i @ '' already held with different bytes'') else Inr w
        | Unreadable \<Rightarrow> Inl (''store read '' @ fpath @ '': '' @ pf_io_text pf fpath)
        | NoFile \<Rightarrow>
            if w_writable w fpath then Inr (w\<lparr>w_files := (w_files w)(fpath := File cbor)\<rparr>)
            else Inl (''store write '' @ fpath @ '': '' @ pf_io_text pf fpath)))"

definition file_get :: "platform \<Rightarrow> string \<Rightarrow> world \<Rightarrow> string \<Rightarrow> string + bytes option" where
  "file_get pf dir w i =
     bindR (store_path pf dir i) (\<lambda>fpath.
     case w_files w fpath of
       File bs \<Rightarrow> Inr (Some bs)
     | NoFile \<Rightarrow> Inr None
     | Unreadable \<Rightarrow> Inl (''store read '' @ fpath @ '': '' @ pf_io_text pf fpath))"

definition reason_word :: "unresolved_reason \<Rightarrow> string" where
  "reason_word r =
     (case r of
        Unavailable \<Rightarrow> ''UNAVAILABLE''
      | FoundOther found \<Rightarrow> ''ID_MISMATCH(found='' @ found @ '')''
      | DepthExceeded \<Rightarrow> ''DEPTH_EXCEEDED''
      | OverBudget \<Rightarrow> ''OVER_BUDGET''
      | StoreFailure e \<Rightarrow> ''STORE_ERROR('' @ e @ '')'')"

definition json_count :: "nat \<Rightarrow> json" where
  "json_count n = JNumber (PosInt (word_of_nat n))"

definition resolution_doc :: "nat \<Rightarrow> resolution_report \<Rightarrow> json" where
  "resolution_doc max_d rep =
     (let debug = (\<lambda>v. JString (case v of Valid \<Rightarrow> ''Valid'' | Invalid \<Rightarrow> ''Invalid''))
      in JObject [
        (''complete'', JBool (resolution_complete rep)),
        (''max_depth'', json_count max_d),
        (''resolved'', JArray (map (\<lambda>r. JObject [
          (''cryptographic_validity'', debug (rep_cryptographic_validity (rp_report r))),
          (''currently_acceptable'', JBool (is_currently_acceptable (rp_report r))),
          (''depth'', json_count (rp_depth r)),
          (''evidence_validity'', debug (rep_evidence_validity (rp_report r))),
          (''id'', JString (rp_id r))]) (rn_resolved rep))),
        (''root'', case rep_proof_id (rn_root rep) of Some i \<Rightarrow> JString i | None \<Rightarrow> JNull),
        (''root_currently_acceptable'', JBool (is_currently_acceptable (rn_root rep))),
        (''unresolved'', JArray (map (\<lambda>u. JObject [
          (''depth'', json_count (ur_depth u)), (''id'', JString (ur_id u)), (''reason'', JString (reason_word (ur_reason u)))])
          (rn_unresolved rep)))])"

definition depth_of :: "cli \<Rightarrow> usage_error + nat" where
  "depth_of c = bindR (cli_opt_u64 c ''depth'') (\<lambda>d. Inr (case d of Some n \<Rightarrow> unat n | None \<Rightarrow> 8))"

definition resolve_command :: "platform \<Rightarrow> cli \<Rightarrow> int io" where
  "resolve_command pf c =
     bindIO (usageIO pf (proof_path c)) (\<lambda>fpath.
     bindIO (load_proof pf fpath) (\<lambda>lp.
     bindIO (usageIO pf (common c)) (\<lambda>ci.
     bindIO (mapIO (load_status pf) (cli_many c ''status'')) (\<lambda>statuses.
     bindIO (usageIO pf (cli_req c ''store'')) (\<lambda>dir.
     bindIO (create_dir_all pf ''store open '' dir) (\<lambda>_.
     bindIO (usageIO pf (depth_of c)) (\<lambda>max_d.
     bindIO (usageIO pf (verifier_policy_of c)) (\<lambda>vp.
     bindIO (\<lambda>w. engineIO pf ''resolve'' (lp_canonical lp)
         (resolve_proof_chain (pf_b64 pf) (pf_hash pf) (pf_sig pf) (pf_iter pf) (lp_canonical lp) (file_get pf dir w)
            (cli_ctx c ci vp statuses) max_d) w) (\<lambda>rep.
     bindIO (printlnIO (pf_to_string_pretty pf (resolution_doc max_d rep))) (\<lambda>_.
     retIO (if resolution_complete rep then EXIT_OK else EXIT_FAIL)))))))))))"

section \<open>The directory store keeps the contract of a store\<close>

definition file_held :: "platform \<Rightarrow> string \<Rightarrow> world \<Rightarrow> string \<Rightarrow> bytes option" where
  "file_held pf dir w i = (case file_get pf dir w i of Inr held \<Rightarrow> held | Inl _ \<Rightarrow> None)"

lemma path_join_inj: "path_join dir a = path_join dir b \<longleftrightarrow> a = b"
  by (simp add: path_join_def)

lemma file_put_Inr [result_iff]:
  "file_put pf dir w i b = Inr w' \<longleftrightarrow> b \<noteq> [] \<and> safe_store_id i
     \<and> (let fpath = path_join dir (i @ ''.cbor'')
        in w_files w fpath = File b \<and> w' = w
         \<or> w_files w fpath = NoFile \<and> w_writable w fpath \<and> w' = w\<lparr>w_files := (w_files w)(fpath := File b)\<rparr>)"
  by (auto simp: file_put_def store_path_def Let_def split: file_state.splits if_splits)

lemma file_held_iff: "file_held pf dir w i = Some b \<longleftrightarrow> safe_store_id i \<and> w_files w (path_join dir (i @ ''.cbor'')) = File b"
  by (auto simp: file_held_def file_get_def store_path_def split: file_state.splits if_splits)

lemma file_held_other: "j \<noteq> i \<Longrightarrow> file_held pf dir (w\<lparr>w_files := (w_files w)(path_join dir (i @ ''.cbor'') := x)\<rparr>) j = file_held pf dir w j"
  by (simp add: file_held_def file_get_def store_path_def path_join_inj)

interpretation directory: artifact_store "file_put pf dir" "file_held pf dir" for pf dir
proof
  show "file_held pf dir s' i = Some b" if "file_put pf dir s i b = Inr s'" for s i b s'
    using that by (auto simp: result_iff file_held_iff Let_def)
  show "file_held pf dir s' j = file_held pf dir s j" if "file_put pf dir s i b = Inr s'" "j \<noteq> i" for s i b s' j
    using that by (auto simp: result_iff Let_def file_held_other)
  show "b' = b" if "file_put pf dir s i b = Inr s'" "file_held pf dir s i = Some b'" for s i b s' b'
    using that by (auto simp: result_iff file_held_iff Let_def)
  show "file_put pf dir s' i b = Inr s'" if "file_put pf dir s i b = Inr s'" for s i b s'
    using that by (auto simp: result_iff Let_def)
qed

text \<open>The memory store that a directory stands for, with a size limit that files do not have.\<close>

definition store_of_dir :: "platform \<Rightarrow> string \<Rightarrow> nat \<Rightarrow> world \<Rightarrow> memory_store" where
  "store_of_dir pf dir cap w = \<lparr>ms_inner = file_held pf dir w, ms_max_bytes = cap\<rparr>"

text \<open>Every file of the store can be read and written.\<close>

definition dir_usable :: "string \<Rightarrow> world \<Rightarrow> bool" where
  "dir_usable dir w \<longleftrightarrow> (\<forall>i. w_writable w (path_join dir i) \<and> w_files w (path_join dir i) \<noteq> Unreadable)"

lemma dir_usable_put: "file_put pf dir w i b = Inr w' \<Longrightarrow> dir_usable dir w \<Longrightarrow> dir_usable dir w'"
  by (auto simp: result_iff Let_def dir_usable_def split: if_splits)

lemma file_put_refines:
  assumes "dir_usable dir w" "safe_store_id i" "length b \<le> cap"
  shows "(\<exists>w'. file_put pf dir w i b = Inr w' \<and> store_put (store_of_dir pf dir cap w) i b = Inr (store_of_dir pf dir cap w'))
    \<or> (\<exists>e e'. file_put pf dir w i b = Inl e \<and> store_put (store_of_dir pf dir cap w) i b = Inl e')"
proof (cases "file_put pf dir w i b")
  case (Inl e)
  then have "b = [] \<or> (\<exists>prev. file_held pf dir w i = Some prev \<and> prev \<noteq> b)"
    using assms by (auto simp: file_put_def store_path_def dir_usable_def file_held_iff split: file_state.splits if_splits)
  then show ?thesis using Inl by (auto simp: store_put_def store_of_dir_def)
next
  case (Inr w')
  have "file_held pf dir w' = (file_held pf dir w)(i \<mapsto> b)"
    using directory.put_get [OF Inr] directory.put_other [OF Inr] by (intro ext) auto
  moreover have "file_held pf dir w i = None \<or> file_held pf dir w i = Some b"
    using directory.put_keeps [OF Inr] by (cases "file_held pf dir w i") auto
  ultimately show ?thesis
    using Inr assms(2,3) by (auto simp: store_put_Inr store_of_dir_def safe_store_id_def result_iff)
qed

lemma file_puts_refine:
  assumes "dir_usable dir w" "list_all (\<lambda>(i, b). safe_store_id i \<and> length b \<le> cap) xs"
  shows "store_of_dir pf dir cap (puts (file_put pf dir) w xs) = puts store_put (store_of_dir pf dir cap w) xs"
  using assms
proof (induction xs arbitrary: w)
  case (Cons x xs)
  obtain i b where x: "x = (i, b)" by (cases x)
  show ?case
    using file_put_refines [of dir w i b cap pf] Cons dir_usable_put [of pf dir w i b] by (auto simp: x)
qed simp

text \<open>
  C38. The directory store refines the memory store. On a usable directory, for ids that are names and contents within the size limit of the
  memory store, any sequence of puts, refused ones included, leaves in the files what the memory store holds after the same puts; a get answers from it and never
  errs. On any directory an id that is not a name (empty, with a slash, a backslash or two dots) is refused, so a store call touches no
  file outside of the directory.
\<close>

theorem directory_store_refines_memory:
  shows "(dir_usable dir w \<and> list_all (\<lambda>(i, b). safe_store_id i \<and> length b \<le> cap) xs \<longrightarrow>
      (let w' = puts (file_put pf dir) w xs; s' = puts store_put (store_of_dir pf dir cap w) xs
       in store_of_dir pf dir cap w' = s' \<and> (\<forall>i. safe_store_id i \<longrightarrow> file_get pf dir w' i = Inr (store_get s' i))))
    \<and> (\<forall>fpath. (\<forall>i. safe_store_id i \<longrightarrow> fpath \<noteq> path_join dir (i @ ''.cbor'')) \<longrightarrow> w_files (puts (file_put pf dir) w xs) fpath = w_files w fpath)
    \<and> (\<not> safe_store_id i \<longrightarrow> (\<exists>e. file_get pf dir w i = Inl e) \<and> (\<exists>e. file_put pf dir w i b = Inl e))"
proof (intro conjI impI allI)
  assume usable: "dir_usable dir w \<and> list_all (\<lambda>(i, b). safe_store_id i \<and> length b \<le> cap) xs"
  have "dir_usable dir (puts (file_put pf dir) w xs)"
    using usable by (induction xs arbitrary: w) (auto split: sum.splits dest: dir_usable_put)
  then have "file_get pf dir (puts (file_put pf dir) w xs) i = Inr (file_held pf dir (puts (file_put pf dir) w xs) i)" if "safe_store_id i" for i
    using that by (auto simp: file_held_def file_get_def store_path_def dir_usable_def split: file_state.splits)
  moreover have "store_of_dir pf dir cap (puts (file_put pf dir) w xs) = puts store_put (store_of_dir pf dir cap w) xs"
    using usable file_puts_refine by blast
  moreover from this have "ms_inner (puts store_put (store_of_dir pf dir cap w) xs) = file_held pf dir (puts (file_put pf dir) w xs)"
    by (metis memory_store.select_convs(1) store_of_dir_def)
  ultimately show "let w' = puts (file_put pf dir) w xs; s' = puts store_put (store_of_dir pf dir cap w) xs
      in store_of_dir pf dir cap w' = s' \<and> (\<forall>i. safe_store_id i \<longrightarrow> file_get pf dir w' i = Inr (store_get s' i))"
    by (simp add: Let_def store_get_def)
next
  fix fpath assume "\<forall>i. safe_store_id i \<longrightarrow> fpath \<noteq> path_join dir (i @ ''.cbor'')"
  then show "w_files (puts (file_put pf dir) w xs) fpath = w_files w fpath"
    by (induction xs arbitrary: w) (auto simp: result_iff Let_def split: sum.splits)
qed (auto simp: file_get_def file_put_def store_path_def)

theorem directory_store_refines_memory_witness:
  "file_get (make_platform plain_b64) ''d'' (puts (file_put (make_platform plain_b64) ''d'') quiet_world [(''a'', [1]), (''a'', [2]), (''b'', [3])]) ''a''
     = Inr (Some [1])"
proof -
  let ?pf = "make_platform plain_b64"
  have "dir_usable ''d'' quiet_world" by (simp add: dir_usable_def quiet_world_def)
  moreover have "safe_store_id ''a''" "safe_store_id ''b''" by (simp_all add: safe_store_id_def contains_text_def)
  moreover have "store_get (puts store_put (store_of_dir ?pf ''d'' 5 quiet_world) [(''a'', [1]), (''a'', [2]), (''b'', [3])]) ''a'' = Some [1]"
    by (simp add: store_put_def store_of_dir_def store_get_def quiet_world_def file_held_def file_get_def store_path_def calculation)
  ultimately show ?thesis
    using directory_store_refines_memory [of "''d''" quiet_world 5 "[(''a'', [1]), (''a'', [2]), (''b'', [3])]" ?pf] by (simp add: Let_def)
qed

section \<open>Resolution from a directory\<close>

lemma returns_bind: "m w \<noteq> None \<Longrightarrow> (\<And>x w1. f x w1 \<noteq> None) \<Longrightarrow> bindIO m f w \<noteq> None"
  by (auto simp: bindIO_def split: option.splits sum.splits)

lemma reads_only_frame:
  assumes "reads_only m" "m w = Some (r, w')"
  shows "w_files w' = w_files w" "w_writable w' = w_writable w" "w_stdout w' = w_stdout w"
  using assms unfolding reads_only_def by (metis world.select_convs(2-4) world.surjective world.update_convs(1))+

lemma file_get_frame: "w_files w' = w_files w \<Longrightarrow> file_get pf dir w' = file_get pf dir w"
  by (simp add: file_get_def fun_eq_iff)

abbreviation pf_resolve :: "platform \<Rightarrow> bytes \<Rightarrow> store_reader \<Rightarrow> verify_ctx \<Rightarrow> nat \<Rightarrow> resolution_report result option" where
  "pf_resolve pf \<equiv> resolve_proof_chain (pf_b64 pf) (pf_hash pf) (pf_sig pf) (pf_iter pf)"

lemma pf_resolve_returns: "hash_iter (pf_iter pf) \<Longrightarrow> pf_resolve pf bs get ctx max_d \<noteq> None"
  by (cases "ctx_misuse ctx") (auto simp: resolve_refused dest: resolve_returned)

lemma resolve_command_returns:
  assumes "hash_iter (pf_iter pf)"
  shows "resolve_command pf c w \<noteq> None"
proof -
  have "load_proof pf fpath w \<noteq> None" "mapIO (load_status pf) xs w \<noteq> None" for fpath xs w
    using reads_only_loaders(1) [of pf fpath] reads_only_map [of "load_status pf", OF reads_only_loaders(2)] by (simp_all add: reads_only_def)
  then show ?thesis
    unfolding resolve_command_def using pf_resolve_returns [OF assms]
    by (intro returns_bind) (simp_all add: usageIO_def liftIO_def create_dir_all_def engineIO_def printlnIO_def printIO_def retIO_def)
qed

text \<open>Commands that leave every file as it was, whether they succeed or fail.\<close>

definition keeps_files :: "'a io \<Rightarrow> bool" where
  "keeps_files m \<longleftrightarrow> (\<forall>w r w'. m w = Some (r, w') \<longrightarrow> w_files w' = w_files w)"

lemma keeps_files_bind: "keeps_files m \<Longrightarrow> (\<And>x. keeps_files (f x)) \<Longrightarrow> keeps_files (bindIO m f)"
  by (auto simp: keeps_files_def bindIO_def split: option.splits sum.splits)

lemma keeps_files_reads: "reads_only m \<Longrightarrow> keeps_files m"
  using reads_only_files by (auto simp: keeps_files_def)

lemma keeps_files_basic:
  "keeps_files (usageIO pf r)" "keeps_files (liftIO u)" "keeps_files (retIO x)" "keeps_files (failIO e)" "keeps_files (printlnIO t)"
  "keeps_files (create_dir_all pf what dir)" "keeps_files (\<lambda>w. engineIO pf label input (g w) w)"
  by (auto simp: keeps_files_def usageIO_def liftIO_def retIO_def failIO_def printlnIO_def printIO_def create_dir_all_def engineIO_def split: option.splits)

lemma resolve_keeps_files: "keeps_files (resolve_command pf c)"
  unfolding resolve_command_def
  by (intro keeps_files_bind keeps_files_basic keeps_files_reads reads_only_loaders reads_only_map)

lemma create_dir_iff [io_iff]: "create_dir_all pf what dir w = Some (Inr u, w') \<longleftrightarrow> w_writable w dir \<and> w' = w"
  by (auto simp: create_dir_all_def)

lemma resolve_command_iff:
  "resolve_command pf c w = Some (Inr code, w') \<longleftrightarrow>
    (\<exists>fpath lp w1 ci statuses w2 dir max_d vp rep. proof_path c = Inr fpath \<and> load_proof pf fpath w = Some (Inr lp, w1) \<and> common c = Inr ci
      \<and> mapIO (load_status pf) (cli_many c ''status'') w1 = Some (Inr statuses, w2) \<and> cli_req c ''store'' = Inr dir \<and> w_writable w dir
      \<and> depth_of c = Inr max_d \<and> verifier_policy_of c = Inr vp
      \<and> pf_resolve pf (lp_canonical lp) (file_get pf dir w) (cli_ctx c ci vp statuses) max_d = Some (Inr rep)
      \<and> w' = w2\<lparr>w_stdout := w_stdout w @ pf_to_string_pretty pf (resolution_doc max_d rep) @ NEWLINE\<rparr>
      \<and> code = (if resolution_complete rep then EXIT_OK else EXIT_FAIL))"
proof -
  have frame: "w_files w2 = w_files w \<and> w_writable w2 = w_writable w \<and> w_stdout w2 = w_stdout w"
    if "load_proof pf fpath w = Some (Inr lp, w1)" "mapIO (load_status pf) xs w1 = Some (Inr statuses, w2)" for fpath lp w1 xs statuses w2
    using reads_only_frame [OF reads_only_loaders(1) that(1)] reads_only_frame [OF reads_only_map [OF reads_only_loaders(2)] that(2)] by simp
  show ?thesis
  proof
    assume "resolve_command pf c w = Some (Inr code, w')"
    then obtain fpath lp w1 ci statuses w2 dir max_d vp rep where r: "proof_path c = Inr fpath" "load_proof pf fpath w = Some (Inr lp, w1)" "common c = Inr ci"
        "mapIO (load_status pf) (cli_many c ''status'') w1 = Some (Inr statuses, w2)" "cli_req c ''store'' = Inr dir" "w_writable w2 dir"
        "depth_of c = Inr max_d" "verifier_policy_of c = Inr vp"
        "pf_resolve pf (lp_canonical lp) (file_get pf dir w2) (cli_ctx c ci vp statuses) max_d = Some (Inr rep)"
        "w' = w2\<lparr>w_stdout := w_stdout w2 @ pf_to_string_pretty pf (resolution_doc max_d rep) @ NEWLINE\<rparr>"
        "code = (if resolution_complete rep then EXIT_OK else EXIT_FAIL)"
      unfolding resolve_command_def by (auto simp: io_iff printlnIO_def)
    then show "\<exists>fpath lp w1 ci statuses w2 dir max_d vp rep. proof_path c = Inr fpath \<and> load_proof pf fpath w = Some (Inr lp, w1) \<and> common c = Inr ci
      \<and> mapIO (load_status pf) (cli_many c ''status'') w1 = Some (Inr statuses, w2) \<and> cli_req c ''store'' = Inr dir \<and> w_writable w dir
      \<and> depth_of c = Inr max_d \<and> verifier_policy_of c = Inr vp
      \<and> pf_resolve pf (lp_canonical lp) (file_get pf dir w) (cli_ctx c ci vp statuses) max_d = Some (Inr rep)
      \<and> w' = w2\<lparr>w_stdout := w_stdout w @ pf_to_string_pretty pf (resolution_doc max_d rep) @ NEWLINE\<rparr>
      \<and> code = (if resolution_complete rep then EXIT_OK else EXIT_FAIL)"
      using frame [OF r(2,4)] file_get_frame [of w2 w pf dir] by auto
  next
    assume "\<exists>fpath lp w1 ci statuses w2 dir max_d vp rep. proof_path c = Inr fpath \<and> load_proof pf fpath w = Some (Inr lp, w1) \<and> common c = Inr ci
      \<and> mapIO (load_status pf) (cli_many c ''status'') w1 = Some (Inr statuses, w2) \<and> cli_req c ''store'' = Inr dir \<and> w_writable w dir
      \<and> depth_of c = Inr max_d \<and> verifier_policy_of c = Inr vp
      \<and> pf_resolve pf (lp_canonical lp) (file_get pf dir w) (cli_ctx c ci vp statuses) max_d = Some (Inr rep)
      \<and> w' = w2\<lparr>w_stdout := w_stdout w @ pf_to_string_pretty pf (resolution_doc max_d rep) @ NEWLINE\<rparr>
      \<and> code = (if resolution_complete rep then EXIT_OK else EXIT_FAIL)"
    then obtain fpath lp w1 ci statuses w2 dir max_d vp rep where r: "proof_path c = Inr fpath" "load_proof pf fpath w = Some (Inr lp, w1)" "common c = Inr ci"
        "mapIO (load_status pf) (cli_many c ''status'') w1 = Some (Inr statuses, w2)" "cli_req c ''store'' = Inr dir" "w_writable w dir"
        "depth_of c = Inr max_d" "verifier_policy_of c = Inr vp"
        "pf_resolve pf (lp_canonical lp) (file_get pf dir w) (cli_ctx c ci vp statuses) max_d = Some (Inr rep)"
        "w' = w2\<lparr>w_stdout := w_stdout w @ pf_to_string_pretty pf (resolution_doc max_d rep) @ NEWLINE\<rparr>"
        "code = (if resolution_complete rep then EXIT_OK else EXIT_FAIL)"
      by blast
    then show "resolve_command pf c w = Some (Inr code, w')"
      using frame [OF r(2,4)] file_get_frame [of w2 w pf dir]
      by (simp add: resolve_command_def bindIO_def usageIO_def liftIO_def create_dir_all_def engineIO_def labelR_def printlnIO_def printIO_def retIO_def)
  qed
qed

lemma closure_stored:
  assumes "hash_iter (pf_iter pf)" "pf_resolve pf bs get ctx max_d = Some (Inr rep)"
  shows "resolution_complete rep \<longleftrightarrow>
    (\<forall>d i. linked (verifier_under (pf_b64 pf) (pf_hash pf) (pf_sig pf) (pf_iter pf) ctx) get (own_id (rn_root rep)) (rep_referenced_proofs (rn_root rep)) d i \<longrightarrow>
       rep_proof_id (rn_root rep) = Some i \<or> i \<in> rp_id ` set (rn_resolved rep))"
    "r \<in> set (rn_resolved rep) \<Longrightarrow> rp_depth r \<le> max_d \<and>
       (\<exists>b p. get (rp_id r) = Inr (Some b) \<and> parse_proof (pf_b64 pf) b (ctx_limits ctx) = Inr p \<and> prf_id p = rp_id r)"
proof -
  have m: "ctx_misuse ctx = None" using assms(2) by (cases "ctx_misuse ctx") (auto simp: resolve_refused)
  obtain root res unres visited where r: "rep = \<lparr>rn_root = root, rn_resolved = res, rn_unresolved = unres\<rparr>"
      "loop_inv (verifier_under (pf_b64 pf) (pf_hash pf) (pf_sig pf) (pf_iter pf) ctx) get max_d (fetch_budget (ctx_limits ctx) max_d) (own_id root)
         (rep_referenced_proofs root) visited [] res unres"
    using resolve_returned [OF assms(1) m, of "pf_b64 pf" "pf_hash pf" "pf_sig pf" bs get max_d] assms(2) by auto
  show "resolution_complete rep \<longleftrightarrow>
    (\<forall>d i. linked (verifier_under (pf_b64 pf) (pf_hash pf) (pf_sig pf) (pf_iter pf) ctx) get (own_id (rn_root rep)) (rep_referenced_proofs (rn_root rep)) d i \<longrightarrow>
       rep_proof_id (rn_root rep) = Some i \<or> i \<in> rp_id ` set (rn_resolved rep))"
    using complete_closed [OF r(2)] by (simp add: r(1) resolution_complete_def own_id_def)
  show "rp_depth r \<le> max_d \<and>
       (\<exists>b p. get (rp_id r) = Inr (Some b) \<and> parse_proof (pf_b64 pf) b (ctx_limits ctx) = Inr p \<and> prf_id p = rp_id r)"
    if "r \<in> set (rn_resolved rep)"
    using that loop_invD(1) [OF r(2)] unfolding records_ok_def r(1) expands_iff [OF assms(1) m] by auto
qed

lemma file_get_found: "file_get pf dir w i = Inr (Some b) \<Longrightarrow> w_files w (path_join dir (i @ ''.cbor'')) = File b"
  by (auto simp: file_get_def store_path_def split: file_state.splits if_splits)

text \<open>
  C39. \<^verbatim>\<open>resolve\<close> always ends, also on cyclic references, and leaves every file as it was, whatever its outcome (the directory of the store is
  created if it is missing). It exits 0 exactly if its inputs load, the context is
  admissible, and every id that a chain of references of any length reaches from the root is the root's own or was resolved;
  then the file of that id in the store holds a package that states this id. Nothing is said of the validity of
  the resolved packages, which only the printed document shows.
\<close>

theorem resolve_exits_zero_iff:
  assumes "hash_iter (pf_iter pf)"
  shows "(\<exists>r w'. resolve_command pf c w = Some (r, w') \<and> w_files w' = w_files w)
    \<and> (resolve_command pf c w = Some (Inr EXIT_OK, w') \<longleftrightarrow>
      (\<exists>fpath lp w1 ci statuses w2 dir max_d vp rep. proof_path c = Inr fpath \<and> load_proof pf fpath w = Some (Inr lp, w1) \<and> common c = Inr ci
        \<and> mapIO (load_status pf) (cli_many c ''status'') w1 = Some (Inr statuses, w2) \<and> cli_req c ''store'' = Inr dir \<and> w_writable w dir
        \<and> depth_of c = Inr max_d \<and> verifier_policy_of c = Inr vp
        \<and> pf_resolve pf (lp_canonical lp) (file_get pf dir w) (cli_ctx c ci vp statuses) max_d = Some (Inr rep)
        \<and> w' = w2\<lparr>w_stdout := w_stdout w @ pf_to_string_pretty pf (resolution_doc max_d rep) @ NEWLINE\<rparr>
        \<and> (\<forall>d i. linked (verifier_under (pf_b64 pf) (pf_hash pf) (pf_sig pf) (pf_iter pf) (cli_ctx c ci vp statuses)) (file_get pf dir w)
              (own_id (rn_root rep)) (rep_referenced_proofs (rn_root rep)) d i \<longrightarrow>
            rep_proof_id (rn_root rep) = Some i
            \<or> (\<exists>r b p. r \<in> set (rn_resolved rep) \<and> rp_id r = i \<and> rp_depth r \<le> max_d
                 \<and> w_files w (path_join dir (i @ ''.cbor'')) = File b \<and> parse_proof (pf_b64 pf) b default_limits = Inr p \<and> prf_id p = i))))"
proof
  show "\<exists>r w'. resolve_command pf c w = Some (r, w') \<and> w_files w' = w_files w"
    using resolve_command_returns [OF assms, of c w] resolve_keeps_files [of pf c] by (auto simp: keeps_files_def)
  have "resolution_complete rep \<longleftrightarrow>
        (\<forall>d i. linked (verifier_under (pf_b64 pf) (pf_hash pf) (pf_sig pf) (pf_iter pf) (cli_ctx c ci vp statuses)) (file_get pf dir w)
              (own_id (rn_root rep)) (rep_referenced_proofs (rn_root rep)) d i \<longrightarrow>
            rep_proof_id (rn_root rep) = Some i
            \<or> (\<exists>r b p. r \<in> set (rn_resolved rep) \<and> rp_id r = i \<and> rp_depth r \<le> max_d
                 \<and> w_files w (path_join dir (i @ ''.cbor'')) = File b \<and> parse_proof (pf_b64 pf) b default_limits = Inr p \<and> prf_id p = i))"
    if "pf_resolve pf bs (file_get pf dir w) (cli_ctx c ci vp statuses) max_d = Some (Inr rep)" for bs dir ci vp statuses max_d rep
  proof -
    have "ctx_limits (cli_ctx c ci vp statuses) = default_limits" by (simp add: cli_ctx_def VerifyCtx_default_def)
    then have "i \<in> rp_id ` set (rn_resolved rep) \<longleftrightarrow> (\<exists>r b p. r \<in> set (rn_resolved rep) \<and> rp_id r = i \<and> rp_depth r \<le> max_d
        \<and> w_files w (path_join dir (i @ ''.cbor'')) = File b \<and> parse_proof (pf_b64 pf) b default_limits = Inr p \<and> prf_id p = i)" for i
      using closure_stored(2) [OF assms that] file_get_found by (auto simp: image_iff) (metis file_get_found)
    then show ?thesis unfolding closure_stored(1) [OF assms that] by simp
  qed
  note complete = this
  have "EXIT_OK = (if b then EXIT_OK else EXIT_FAIL) \<longleftrightarrow> b" for b by (simp add: exit_codes)
  then show "resolve_command pf c w = Some (Inr EXIT_OK, w') \<longleftrightarrow>
      (\<exists>fpath lp w1 ci statuses w2 dir max_d vp rep. proof_path c = Inr fpath \<and> load_proof pf fpath w = Some (Inr lp, w1) \<and> common c = Inr ci
        \<and> mapIO (load_status pf) (cli_many c ''status'') w1 = Some (Inr statuses, w2) \<and> cli_req c ''store'' = Inr dir \<and> w_writable w dir
        \<and> depth_of c = Inr max_d \<and> verifier_policy_of c = Inr vp
        \<and> pf_resolve pf (lp_canonical lp) (file_get pf dir w) (cli_ctx c ci vp statuses) max_d = Some (Inr rep)
        \<and> w' = w2\<lparr>w_stdout := w_stdout w @ pf_to_string_pretty pf (resolution_doc max_d rep) @ NEWLINE\<rparr>
        \<and> (\<forall>d i. linked (verifier_under (pf_b64 pf) (pf_hash pf) (pf_sig pf) (pf_iter pf) (cli_ctx c ci vp statuses)) (file_get pf dir w)
              (own_id (rn_root rep)) (rep_referenced_proofs (rn_root rep)) d i \<longrightarrow>
            rep_proof_id (rn_root rep) = Some i
            \<or> (\<exists>r b p. r \<in> set (rn_resolved rep) \<and> rp_id r = i \<and> rp_depth r \<le> max_d
                 \<and> w_files w (path_join dir (i @ ''.cbor'')) = File b \<and> parse_proof (pf_b64 pf) b default_limits = Inr p \<and> prf_id p = i)))"
    unfolding resolve_command_iff by (intro iff_exI conj_cong refl) (simp only: complete)
qed
text \<open>A package that cites another one, which is found in the directory and is not valid.\<close>

definition citing_cli :: cli where
  "citing_cli = put_value (put_value (demo_cli ''resolve'') ''store'' ''d'') ''depth'' ''1''"

definition citing_world :: world where
  "citing_world = quiet_world\<lparr>w_files := (\<lambda>_. NoFile)(
     ''p'' := File (as_bytes (make_to_text (proof_doc (make_platform plain_b64) (prf_id demo_package) (citing_bytes (prf_id demo_package))) @ NEWLINE)),
     path_join ''d'' (cited_id @ ''.cbor'') := File (encode_canonical (plain_value cited_id [])))\<rparr>"

lemma citing_cli_reads:
  "proof_path citing_cli = Inr ''p''" "cli_many citing_cli ''status'' = []" "cli_req citing_cli ''store'' = Inr ''d''" "depth_of citing_cli = Inr 1"
  "common citing_cli = Inr demo_common" "verifier_policy_of citing_cli = Inr demo_verifier" "cli_ctx citing_cli demo_common demo_verifier [] = demo_ctx"
proof -
  have num: "parse_u64 ''100'' = Some 100" "parse_u64 ''90'' = Some 90" "parse_u64 ''1'' = Some 1" by (simp_all add: parse_u64_def starts_with_def)
  show "proof_path citing_cli = Inr ''p''" "cli_many citing_cli ''status'' = []" "cli_req citing_cli ''store'' = Inr ''d''" "depth_of citing_cli = Inr 1"
    by (simp_all add: citing_cli_def demo_cli_def proof_path_def cli_opt_def cli_many_def cli_req_def Cli_default_def depth_of_def cli_opt_u64_def num)
  show "common citing_cli = Inr demo_common"
    by (simp add: citing_cli_def demo_cli_def common_def cli_req_u64_def cli_req_def cli_opt_def cli_opt_u64_def Cli_default_def num demo_common_def)
  show "verifier_policy_of citing_cli = Inr demo_verifier"
    by (simp add: citing_cli_def demo_cli_def verifier_policy_of_def cli_has_def cli_many_def Cli_default_def extra_grounded_def demo_verifier_def)
  have "cli_many citing_cli x = cli_many (demo_cli ''resolve'') x" if "x = ''trusted'' \<or> x = ''authority''" for x
    using that by (auto simp: citing_cli_def cli_many_def)
  then show "cli_ctx citing_cli demo_common demo_verifier [] = demo_ctx"
    using demo_cli_ctx [of "''resolve''"] by (simp add: cli_ctx_def)
qed

lemma citing_loads:
  "load_proof (make_platform plain_b64) ''p'' citing_world
     = Some (Inr \<lparr>lp_canonical = citing_bytes (prf_id demo_package), lp_proof = plain_package (prf_id demo_package) [cited_id]\<rparr>, citing_world)"
proof -
  let ?pf = "make_platform plain_b64"
  let ?i = "prf_id demo_package"
  have i: "utf8_text ?i" "starts_with ?i ''prf:v1:''" using demo_id_text demo_id by (simp_all add: starts_with_def)
  then have parsed: "parse_proof plain_b64 (citing_bytes ?i) default_limits = Inr (plain_package ?i [cited_id])"
    unfolding citing_bytes_def by (rule plain_parses) simp
  have "length (make_to_text (proof_doc ?pf ?i (citing_bytes ?i))) < MAX_INPUT_FILE_BYTES"
    using plain_size [OF i(1), of "[cited_id]"] i(1) unfolding proof_doc_def make_text_length citing_bytes_def
    by (simp add: MAX_INPUT_FILE_BYTES_def hex_length utf8_text_def text_ok_def)
  moreover have "path_join ''d'' (cited_id @ ''.cbor'') \<noteq> ''p''" by (simp add: path_join_def)
  ultimately have "holds_doc ?pf ''p'' (proof_doc ?pf ?i (citing_bytes ?i)) citing_world"
    by (simp add: holds_doc_def file_fits_def citing_world_def NEWLINE_def)
  then show ?thesis
    using proof_file_loads [of ?pf "citing_bytes ?i" "plain_package ?i [cited_id]" "''p''" citing_world] parsed plain_hex_law make_wrapper_law plain_fields
    by simp
qed

theorem resolve_exits_zero_iff_witness:
  "\<exists>w' b p. resolve_command (make_platform plain_b64) citing_cli citing_world = Some (Inr EXIT_OK, w')
     \<and> w_files citing_world (path_join ''d'' (cited_id @ ''.cbor'')) = File b \<and> parse_proof plain_b64 b default_limits = Inr p \<and> prf_id p = cited_id"
proof -
  let ?pf = "make_platform plain_b64"
  let ?get = "file_get ?pf ''d'' citing_world"
  let ?v = "verifier_under plain_b64 zero_hash plain_sig remdups demo_ctx"
  have "safe_store_id cited_id" by code_simp
  then have "?get cited_id = cited_store cited_id"
    by (simp add: file_get_def store_path_def cited_store_def citing_world_def)
  then obtain root report where r: "resolve_proof_chain plain_b64 zero_hash plain_sig remdups (citing_bytes (prf_id demo_package)) ?get demo_ctx 1
       = Some (Inr \<lparr>rn_root = root, rn_resolved = [\<lparr>rp_id = cited_id, rp_depth = 1, rp_report = report\<rparr>], rn_unresolved = []\<rparr>)"
      "rep_referenced_proofs root = [cited_id]" "rep_proof_id root = Some (prf_id demo_package)"
    using tampered_reference_resolves [of ?get] by blast
  have "mapIO (load_status ?pf) [] citing_world = Some (Inr [], citing_world)" by (simp add: retIO_def)
  then have "\<exists>w'. resolve_command ?pf citing_cli citing_world = Some (Inr EXIT_OK, w')"
    unfolding resolve_command_iff using citing_loads citing_cli_reads r(1)
    by (auto simp: resolution_complete_def citing_world_def quiet_world_def)
  then obtain w' where run: "resolve_command ?pf citing_cli citing_world = Some (Inr EXIT_OK, w')" by blast
  have "linked ?v ?get (own_id root) (rep_referenced_proofs root) (Suc 0) cited_id" by (rule linked.direct) (simp add: r(2))
  then show ?thesis
    using resolve_exits_zero_iff [of ?pf citing_cli citing_world w', unfolded make_platform_fields, OF hash_iter_remdups] run citing_loads
      citing_cli_reads r cited_not_demo
    by (auto simp: retIO_def) metis
qed

section \<open>Exported files\<close>

text \<open>
  What is relied on of \<^verbatim>\<open>serde_json\<close>: the pretty form of an exported document, a newline behind it, is UTF-8 and parses to the same
  document; and the strings of a parsed document are UTF-8.
\<close>

definition export_law :: "platform \<Rightarrow> bool" where
  "export_law pf \<longleftrightarrow>
     (\<forall>kind i hex sign1. valid_utf8 (as_bytes i) \<and> valid_utf8 (as_bytes hex) \<and> (\<forall>s. sign1 = Some s \<longrightarrow> valid_utf8 (as_bytes s)) \<longrightarrow>
        valid_utf8 (as_bytes (pf_to_string_pretty pf (export_doc kind i hex sign1) @ NEWLINE))
      \<and> pf_from_str pf (pf_to_string_pretty pf (export_doc kind i hex sign1) @ NEWLINE) = Some (export_doc kind i hex sign1))"

definition text_law :: "platform \<Rightarrow> bool" where
  "text_law pf \<longleftrightarrow> (\<forall>t v k s. pf_from_str pf t = Some v \<and> get_str v k = Some s \<longrightarrow> valid_utf8 (as_bytes s))"

lemma read_text: "read_json_text = read_json"
  by (intro ext) (simp add: read_json_text_def read_json_def)

lemma read_json_text_utf8:
  "text_law pf \<Longrightarrow> read_json_text pf fpath w = Some (Inr v, w') \<Longrightarrow> get_str v k = Some s \<Longrightarrow> valid_utf8 (as_bytes s)"
  by (auto simp: read_json_text_def io_iff text_law_def split: prod.splits)

lemma either_get: "str_of_either v a b = Some s \<Longrightarrow> get_str v a = Some s \<or> get_str v b = Some s"
  by (auto simp: str_of_either_def get_str_def split: option.splits)

lemma liftIO_refused: "(\<And>y. r \<noteq> Inr y) \<Longrightarrow> \<exists>x. liftIO r w = Some (Inl x, w)"
  by (cases r) (auto simp: liftIO_def)

lemma unissued_refused:
  assumes "read_json pf fpath w = Some (Inr v, w)" "json_get v ''issuer'' = None"
  shows "\<exists>x. load_attestation pf fpath w = Some (Inl x, w)" "\<exists>x. load_status pf fpath w = Some (Inl x, w)"
proof -
  have issuer: "opt_str v label ''issuer'' = Inr None" "req_str v label ''issuer'' \<noteq> Inr y" for label y
    using assms(2) by (simp_all add: opt_str_def req_str_def get_str_def ok_or_def)
  show "\<exists>x. load_attestation pf fpath w = Some (Inl x, w)"
    unfolding load_attestation_def using assms(1) issuer
    by (auto simp: bindIO_def ok_or_def bindR_Inr_iff intro!: liftIO_refused)
  show "\<exists>x. load_status pf fpath w = Some (Inl x, w)"
    unfolding load_status_def using assms(1) issuer
    by (auto simp: bindIO_def bindR_Inr_iff intro!: liftIO_refused)
qed

lemma accepted_keys:
  assumes "reject_unknown_wrapper_fields v label allowed = Inr u" "k \<notin> set allowed"
  shows "json_get v k = None"
proof (cases v)
  case (JObject m)
  have sort_nil: "sort ks = [] \<longleftrightarrow> ks = []" for ks :: "string list" by (metis set_empty set_sort)
  have "filter (\<lambda>k. k \<notin> set allowed) (map fst m) = []"
    using assms(1) unfolding JObject by (auto simp: reject_unknown_wrapper_fields_def sort_nil split: list.splits)
  then have "k \<notin> fst ` set m" using assms(2) unfolding filter_empty_conv set_map by blast
  then show ?thesis by (simp add: JObject map_of_eq_None_iff)
qed (use assms in \<open>simp_all add: reject_unknown_wrapper_fields_def\<close>)

lemma unknown_field_refused:
  assumes "read_json pf fpath w = Some (Inr (JObject m), w)" "load_proof pf fpath w = Some (unwrap_proof pf fpath (JObject m), w)" "''sign1'' \<in> fst ` set m"
  shows "\<exists>x. load_event pf fpath w = Some (Inl x, w)" "\<exists>x. load_evidence pf fpath w = Some (Inl x, w)"
    "\<exists>x. load_relationship pf fpath w = Some (Inl x, w)" "\<exists>x. load_proof pf fpath w = Some (Inl x, w)"
proof -
  have "json_get (JObject m) ''sign1'' \<noteq> None" using assms(3) by (simp add: map_of_eq_None_iff)
  then have "reject_unknown_wrapper_fields (JObject m) label allowed \<noteq> Inr u" if "''sign1'' \<notin> set allowed" for label allowed u
    using accepted_keys [of "JObject m" label allowed u, OF _ that] by auto
  then have "reject_unknown_wrapper_fields (JObject m) label EVENT_WRAPPER_ALLOWED \<noteq> Inr u"
      "reject_unknown_wrapper_fields (JObject m) label EVIDENCE_WRAPPER_ALLOWED \<noteq> Inr u"
      "reject_unknown_wrapper_fields (JObject m) label RELATIONSHIP_WRAPPER_ALLOWED \<noteq> Inr u"
      "reject_unknown_wrapper_fields (JObject m) label PROOF_WRAPPER_ALLOWED \<noteq> Inr u" for label u
    by (simp_all add: EVENT_WRAPPER_ALLOWED_def EVIDENCE_WRAPPER_ALLOWED_def RELATIONSHIP_WRAPPER_ALLOWED_def PROOF_WRAPPER_ALLOWED_def)
  note reject = this
  show "\<exists>x. load_event pf fpath w = Some (Inl x, w)"
    unfolding load_event_def using assms(1) reject(1) by (auto simp: bindIO_def bindR_Inr_iff intro!: liftIO_refused)
  show "\<exists>x. load_evidence pf fpath w = Some (Inl x, w)"
    unfolding load_evidence_def using assms(1) reject(2) by (auto simp: bindIO_def bindR_Inr_iff intro!: liftIO_refused)
  show "\<exists>x. load_relationship pf fpath w = Some (Inl x, w)"
    unfolding load_relationship_def using assms(1) reject(3) by (auto simp: bindIO_def bindR_Inr_iff intro!: liftIO_refused)
  have "unwrap_proof pf fpath (JObject m) \<noteq> Inr y" for y using reject(4) by (auto simp: unwrap_proof_def bindR_Inr_iff)
  then show "\<exists>x. load_proof pf fpath w = Some (Inl x, w)" using assms(2) by (cases "unwrap_proof pf fpath (JObject m)") auto
qed

lemma export_run:
  assumes "export_command pf c w = Some (Inr (), w1)" "cli_opt c ''out'' = Some e" "e \<noteq> ''-''"
  shows "\<exists>src v w0 kind i hex. proof_path c = Inr src \<and> read_json pf src w = Some (Inr v, w0)
    \<and> get_str v ''kind'' = Some (artifact_kind_as_str kind) \<and> get_str v ''id'' = Some i \<and> get_str v ''cbor'' = Some hex
    \<and> w_files w1 e = File (as_bytes (pf_to_string_pretty pf (export_doc kind i hex (str_of_either v ''sign1_b64'' ''sign1'')) @ NEWLINE))"
proof -
  have named: "artifact_kind_parse s = Some k \<Longrightarrow> s = artifact_kind_as_str k" for s k
    by (auto simp: artifact_kind_parse_def split: if_splits)
  show ?thesis
    using assms
    by (auto simp: export_command_def io_iff read_text wrapper_kind_def wrapper_field_def cli_req_iff Let_def result_iff dest!: named)
qed

lemma import_run:
  assumes "import_command pf c w = Some (Inr (), w1)" "proof_path c = Inr e" "cli_opt c ''out'' = Some out" "out \<noteq> ''-''"
    and "read_json pf e w = Some (Inr (export_doc kind i hex sign1), w)"
  shows "w_files w1 out = File (as_bytes (pf_to_string_pretty pf (wrapper_doc
      ([(''cbor'', hex), (''id'', i), (''kind'', artifact_kind_as_str kind)] @ (case sign1 of Some s \<Rightarrow> [(''sign1_b64'', s)] | None \<Rightarrow> []))) @ NEWLINE))"
proof -
  have named: "artifact_kind_parse (artifact_kind_as_str k) = Some k" for k
    by (cases k) (simp_all add: artifact_kind_parse_def)
  have "json_get (export_doc kind i hex sign1) ''issuer'' = None" "get_str (export_doc kind i hex sign1) ''id'' = Some i"
      "get_str (export_doc kind i hex sign1) ''cbor'' = Some hex" "get_str (export_doc kind i hex sign1) ''kind'' = Some (artifact_kind_as_str kind)"
      "str_of_either (export_doc kind i hex sign1) ''sign1'' ''sign1_b64'' = sign1"
    by (auto simp: export_doc_def get_str_def str_of_either_def split: option.splits)
  then show ?thesis
    using assms
    by (auto simp: import_command_def io_iff read_text wrapper_kind_def wrapper_field_def cli_req_iff Let_def result_iff named import_doc_def wrapper_doc_def
        split: option.splits)
qed


lemma unwrapped_again:
  assumes "unwrap_proof pf label v = Inr lp" "get_str v ''kind'' = Some k" "get_str v ''id'' = Some i" "get_str v ''cbor'' = Some hex"
  shows "str_of_either v ''sign1_b64'' ''sign1'' = None"
    "unwrap_proof pf label' (wrapper_doc [(''cbor'', hex), (''id'', i), (''kind'', k)]) = Inr lp"
proof -
  obtain bs val p where u: "reject_unknown_wrapper_fields v label PROOF_WRAPPER_ALLOWED = Inr ()" "k = ''proof''" "hex_decode (pf_hex pf) hex = Some bs"
      "decode_strict bs limits_of_cli = Inr val" "cbor_to_proof (pf_b64 pf) val limits_of_cli = Inr p" "i = prf_id p"
      "lp = \<lparr>lp_canonical = bs, lp_proof = p\<rparr>"
    using assms
    by (auto simp: unwrap_proof_def bindR_Inr_iff check_wrapper_kind_def check_wrapper_id_def req_str_def hexR_def labelR_iff get_str_def ok_or_def
        split: option.splits if_splits Option.bind_splits)
  have "json_get v ''sign1_b64'' = None" "json_get v ''sign1'' = None"
    using accepted_keys [OF u(1)] by (simp_all add: PROOF_WRAPPER_ALLOWED_def)
  then show "str_of_either v ''sign1_b64'' ''sign1'' = None" by (simp add: str_of_either_def)
  show "unwrap_proof pf label' (wrapper_doc [(''cbor'', hex), (''id'', i), (''kind'', k)]) = Inr lp"
    using u(2-7) by (auto simp: unwrap_proof_def wrapper_strs wrapper_doc_simps(1,2) keys_allowed PROOF_WRAPPER_ALLOWED_def ok_or_def labelR_def hexR_def
        check_wrapper_kind_def check_wrapper_id_def)
qed

text \<open>
  C40. Export and import do not round trip for signed artifacts, and nothing reads an exported file. A file that \<^verbatim>\<open>export\<close> writes (unless
  over the size cap) is refused by the loader of every artifact kind: the unsigned ones do not know its field \<^verbatim>\<open>sign1\<close>,
  the signed ones miss the issuer. What \<^verbatim>\<open>import\<close> makes of it still has no issuer, so it loads neither as an attestation nor
  as a status object; a proof, in contrast, comes back as the same package.
\<close>

theorem exported_files_refused:
  assumes "wrapper_law pf" "export_law pf" "text_law pf"
    and "export_command pf c1 w = Some (Inr (), w1)" "cli_opt c1 ''out'' = Some e" "e \<noteq> ''-''" "file_fits e w1"
    and "import_command pf c2 w1 = Some (Inr (), w2)" "proof_path c2 = Inr e" "cli_opt c2 ''out'' = Some out" "out \<noteq> ''-''" "file_fits out w2"
  shows "((\<exists>x. load_event pf e w1 = Some (Inl x, w1)) \<and> (\<exists>x. load_evidence pf e w1 = Some (Inl x, w1))
      \<and> (\<exists>x. load_relationship pf e w1 = Some (Inl x, w1)) \<and> (\<exists>x. load_proof pf e w1 = Some (Inl x, w1))
      \<and> (\<exists>x. load_attestation pf e w1 = Some (Inl x, w1)) \<and> (\<exists>x. load_status pf e w1 = Some (Inl x, w1)))
    \<and> (\<exists>x. load_attestation pf out w2 = Some (Inl x, w2)) \<and> (\<exists>x. load_status pf out w2 = Some (Inl x, w2))
    \<and> (\<forall>src lp. proof_path c1 = Inr src \<and> load_proof pf src w = Some (Inr lp, w) \<longrightarrow> load_proof pf out w2 = Some (Inr lp, w2))"
proof -
  obtain src v w0 kind i hex where ex: "proof_path c1 = Inr src" "read_json pf src w = Some (Inr v, w0)"
      "get_str v ''kind'' = Some (artifact_kind_as_str kind)" "get_str v ''id'' = Some i" "get_str v ''cbor'' = Some hex"
      "w_files w1 e = File (as_bytes (pf_to_string_pretty pf (export_doc kind i hex (str_of_either v ''sign1_b64'' ''sign1'')) @ NEWLINE))"
    using export_run [OF assms(4-6)] by blast
  let ?sign1 = "str_of_either v ''sign1_b64'' ''sign1''"
  let ?doc = "export_doc kind i hex ?sign1"
  let ?kvs = "[(''cbor'', hex), (''id'', i), (''kind'', artifact_kind_as_str kind)] @ (case ?sign1 of Some s \<Rightarrow> [(''sign1_b64'', s)] | None \<Rightarrow> [])"
  have utf8: "get_str v k = Some s \<Longrightarrow> valid_utf8 (as_bytes s)" for k s
    using read_json_text_utf8 [OF assms(3)] ex(2) by (simp add: read_text)
  then have "valid_utf8 (as_bytes i)" "valid_utf8 (as_bytes hex)" "\<forall>s. ?sign1 = Some s \<longrightarrow> valid_utf8 (as_bytes s)"
    using ex(4,5) either_get by blast+
  note strs = this
  then have "valid_utf8 (as_bytes (pf_to_string_pretty pf ?doc @ NEWLINE))" "pf_from_str pf (pf_to_string_pretty pf ?doc @ NEWLINE) = Some ?doc"
    using assms(2) unfolding export_law_def by blast+
  note held = read_doc [OF this assms(6) ex(6) assms(7)]
  have "w_files w2 out = File (as_bytes (pf_to_string_pretty pf (wrapper_doc ?kvs) @ NEWLINE))"
    by (rule import_run [OF assms(8-11) held(1)])
  moreover have "sorted_wrt (<) (map fst ?kvs)" by (cases ?sign1) simp_all
  moreover have "list_all (\<lambda>(k, v). valid_utf8 (as_bytes k) \<and> valid_utf8 (as_bytes v)) ?kvs"
    using strs utf8 [OF ex(3)] by (cases ?sign1) (simp_all add: as_bytes_def byte_of_char_def in_range_def)
  ultimately have again: "read_json pf out w2 = Some (Inr (wrapper_doc ?kvs), w2)" "load_proof pf out w2 = Some (unwrap_proof pf out (wrapper_doc ?kvs), w2)"
    using read_wrapper [OF assms(1) _ _ assms(11) _ assms(12)] by blast+
  have doc: "?doc = JObject [(''cbor'', JString hex), (''container_version'', JNumber (PosInt (word_of_nat CONTAINER_VERSION))), (''id'', JString i),
      (''kind'', JString (artifact_kind_as_str kind)), (''sign1'', case ?sign1 of Some s \<Rightarrow> JString s | None \<Rightarrow> JNull)]"
    by (simp add: export_doc_def)
  have "json_get ?doc ''issuer'' = None" "json_get (wrapper_doc ?kvs) ''issuer'' = None"
    by (simp add: export_doc_def) (cases ?sign1; simp add: wrapper_doc_simps(1))
  moreover have "load_proof pf out w2 = Some (Inr lp, w2)" if "load_proof pf src w = Some (Inr lp, w)" for lp
    using unwrapped_again [OF _ ex(3-5), of pf _ lp] that ex(2) again(2)
    by (auto simp: load_proof_def read_json_def io_iff split: prod.splits)
  ultimately show ?thesis
    using unissued_refused [OF held(1)] unissued_refused [OF again(1)] unknown_field_refused [OF held [unfolded doc]] ex(1)
    by auto
qed

text \<open>A serializer for exported documents next to the wrappers: lists of three and five strings, where a wrapper gives an even number.\<close>

definition port_to_text :: "json \<Rightarrow> string" where
  "port_to_text v =
     (case (json_get v ''container_version'', get_str v ''cbor'', get_str v ''id'', get_str v ''kind'') of
        (Some (JNumber _), Some c, Some i, Some k) \<Rightarrow>
          demo_to_text (seen_doc ([c, i, k] @ (case get_str v ''sign1'' of Some s \<Rightarrow> [s, []] | None \<Rightarrow> [])))
      | _ \<Rightarrow> make_to_text v)"

definition port_doc :: "string list \<Rightarrow> json option" where
  "port_doc ss =
     (case ss of
        [c, i, k] \<Rightarrow> map_option (\<lambda>kind. export_doc kind i c None) (artifact_kind_parse k)
      | [c, i, k, s, _] \<Rightarrow> map_option (\<lambda>kind. export_doc kind i c (Some s)) (artifact_kind_parse k)
      | _ \<Rightarrow> Some (wrapper_doc (pair_up ss)))"

definition port_from_str :: "string \<Rightarrow> json option" where
  "port_from_str t =
     (case store_of_text t of
        Some (JObject [(_, JArray xs)]) \<Rightarrow> port_doc (List.map_filter json_str xs)
      | _ \<Rightarrow> None)"

definition port_platform :: platform where
  "port_platform = (make_platform plain_b64)\<lparr>pf_from_str := port_from_str, pf_to_string_pretty := port_to_text\<rparr>"

lemma port_platform_fields [simp]:
  "pf_b64 port_platform = plain_b64" "pf_hash port_platform = zero_hash" "pf_sig port_platform = plain_sig" "pf_hex port_platform = plain_hex"
  "pf_iter port_platform = remdups" "pf_from_str port_platform = port_from_str" "pf_to_string_pretty port_platform = port_to_text"
  by (simp_all add: port_platform_def)

lemma port_from_strings:
  assumes "list_all (\<lambda>s. valid_utf8 (as_bytes s)) ss"
  shows "port_from_str (demo_to_text (seen_doc ss) @ NEWLINE) = port_doc ss"
    "valid_utf8 (as_bytes (demo_to_text (seen_doc ss) @ NEWLINE))"
  using demo_json_law assms
  by (simp_all add: port_from_str_def store_round_trip seen_strings json_law_def demo_platform_def) (simp_all add: seen_doc_def seen_strings)

lemma kind_utf8: "valid_utf8 (as_bytes (artifact_kind_as_str k))"
  by (cases k) (simp_all add: as_bytes_def byte_of_char_def in_range_def)

lemma kind_parsed: "artifact_kind_parse (artifact_kind_as_str k) = Some k"
  by (cases k) (simp_all add: artifact_kind_parse_def)

definition export_strings :: "artifact_kind \<Rightarrow> string \<Rightarrow> string \<Rightarrow> string option \<Rightarrow> string list" where
  "export_strings kind i c sign1 = [c, i, artifact_kind_as_str kind] @ (case sign1 of Some s \<Rightarrow> [s, []] | None \<Rightarrow> [])"

lemma export_strings_facts:
  "port_to_text (export_doc kind i c sign1) = demo_to_text (seen_doc (export_strings kind i c sign1))"
  "port_doc (export_strings kind i c sign1) = Some (export_doc kind i c sign1)"
  "valid_utf8 (as_bytes i) \<Longrightarrow> valid_utf8 (as_bytes c) \<Longrightarrow> \<forall>s. sign1 = Some s \<longrightarrow> valid_utf8 (as_bytes s) \<Longrightarrow>
     list_all (\<lambda>s. valid_utf8 (as_bytes s)) (export_strings kind i c sign1)"
  using kind_utf8
  by (cases sign1; simp add: port_to_text_def port_doc_def kind_parsed export_strings_def export_doc_def get_str_def as_bytes_def; fail)+

lemma port_export_law: "export_law port_platform"
  using export_strings_facts(3) port_from_strings unfolding export_law_def port_platform_fields export_strings_facts(1)
  by (simp add: export_strings_facts(2))

lemma port_wrapper_text: "port_to_text (wrapper_doc kvs) = make_to_text (wrapper_doc kvs)"
proof -
  have "json_get (wrapper_doc kvs) k \<noteq> Some (JNumber n)" for k n by (simp add: wrapper_doc_simps(1))
  then show ?thesis by (auto simp: port_to_text_def split: option.splits json.splits)
qed

lemma even_strings: "even (length (concat (map (\<lambda>(k, v). [k, v]) kvs)))"
  by (induction kvs) auto

lemma port_wrapper_law: "wrapper_law port_platform"
proof -
  have "even (length ss) \<Longrightarrow> port_doc ss = Some (wrapper_doc (pair_up ss))" for ss
    by (auto simp: port_doc_def split: list.splits)
  then have "port_doc (concat (map (\<lambda>(k, v). [k, v]) kvs)) = Some (wrapper_doc kvs)" for kvs
    using even_strings [of kvs] pair_up_strings [of kvs] by simp
  moreover have "list_all (\<lambda>s. valid_utf8 (as_bytes s)) (concat (map (\<lambda>(k, v). [k, v]) kvs))"
    if "list_all (\<lambda>(k, v). valid_utf8 (as_bytes k) \<and> valid_utf8 (as_bytes v)) kvs" for kvs
    using that by (induction kvs) auto
  ultimately show ?thesis
    using port_from_strings by (simp add: wrapper_law_def port_wrapper_text make_to_text_def doc_strings_wrapper)
qed

lemma pair_up_set: "(a, b) \<in> set (pair_up ss) \<Longrightarrow> b \<in> set ss"
  by (induction ss rule: pair_up.induct) auto

lemma port_text_law: "text_law port_platform"
proof -
  have "valid_utf8 (as_bytes s)" if v: "port_from_str t = Some v" "get_str v k = Some s" for t v k s
  proof -
    obtain bss where "store_of_text t = Some (seen_doc (map str_of_bytes bss))" "list_all valid_utf8 bss"
      using v(1) by (auto simp: port_from_str_def store_of_text_def split: if_splits option.splits)
    then have "list_all (\<lambda>s. valid_utf8 (as_bytes s)) (map str_of_bytes bss)" "port_doc (map str_of_bytes bss) = Some v"
      using v(1) seen_strings [of "map str_of_bytes bss"] by (simp_all add: port_from_str_def seen_doc_def list_all_iff)
    then obtain ss where ss: "list_all (\<lambda>s. valid_utf8 (as_bytes s)) ss" "port_doc ss = Some v" by blast
    have "get_str (export_doc kind i c sign1) k = Some s \<Longrightarrow> s \<in> set [c, i, artifact_kind_as_str kind] \<union> set_option sign1" for kind i c sign1
      by (auto simp: export_doc_def get_str_def split: if_splits option.splits)
    moreover have "get_str (wrapper_doc (pair_up ss)) k = Some s \<Longrightarrow> s \<in> set ss"
      by (auto simp: wrapper_doc_simps(2) dest!: map_of_SomeD pair_up_set)
    ultimately show ?thesis
      using ss v(2) kind_utf8 by (fastforce simp: port_doc_def list_all_iff split: list.splits)
  qed
  then show ?thesis by (auto simp: text_law_def)
qed


definition port_world :: world where
  "port_world = quiet_world\<lparr>w_files := (\<lambda>_. NoFile)(
     ''p'' := File (as_bytes (port_to_text (proof_doc port_platform (prf_id demo_package) demo_bytes) @ NEWLINE)))\<rparr>"

definition port_flags :: "string \<Rightarrow> string \<Rightarrow> cli" where
  "port_flags src out = flags_of [(''proof'', src), (''out'', out)]"

lemma port_flags_reads:
  "proof_path (port_flags src out) = Inr src" "cli_req (port_flags src out) ''out'' = Inr out" "cli_opt (port_flags src out) ''out'' = Some out"
  by (simp_all add: port_flags_def proof_path_def ok_or_def)

lemma demo_envelope: "check_envelope port_platform what AProof (prf_id demo_package) (hex_encode plain_hex demo_bytes) None = Inr demo_bytes"
proof -
  have "demo_bytes \<noteq> []" by (simp add: demo_bytes_def encode_canonical_def)
  then have "cbor_bytes plain_hex \<lparr>env_container_version = CONTAINER_VERSION, env_kind = AProof, env_id = prf_id demo_package,
      env_cbor_hex = hex_encode plain_hex demo_bytes, env_sign1_b64u = None\<rparr> limits_of_cli = Inr demo_bytes"
    using plain_hex_law demo_size by (simp add: cbor_bytes_Inr hex_law_def trim_hex limits_of_cli_def default_limits_def)
  moreover obtain val where "decode_strict demo_bytes limits_of_cli = Inr val" "cbor_to_proof plain_b64 val limits_of_cli = Inr demo_package"
    using demo_parses by (auto simp: parse_proof_def result_iff limits_of_cli_def)
  moreover have "bindR (member_id_sets plain_b64 zero_hash demo_package) (\<lambda>(eids, aids, vids, rids).
      Inr (proof_id_full plain_b64 zero_hash (proposition_to_cbor (prf_proposition demo_package)) (prf_created_at demo_package) eids aids vids rids
        (prf_referenced_proofs demo_package) (vocabulary_pairs demo_package))) = Inr (prf_id demo_package)"
    by (simp add: member_id_sets_def proof_id_full_def id_with_def zero_hash_def) (simp add: demo_package_def id_with_def zero_hash_def)
  ultimately show ?thesis
    by (simp add: check_envelope_def verify_envelope_def decode_check_eq envelope_id_def labelR_def)
qed

lemma demo_file_size: "length (make_to_text (wrapper_doc [(''cbor'', hex_encode plain_hex demo_bytes), (''id'', prf_id demo_package), (''kind'', ''proof'')]))
    < MAX_INPUT_FILE_BYTES"
  using demo_size unfolding make_text_length
  by (simp add: MAX_INPUT_FILE_BYTES_def hex_length demo_package_def id_with_def b64u_nopad_def plain_b64_def zero_hash_def str_of_bytes_def)

lemma export_demo:
  "export_command port_platform (port_flags ''p'' ''e'') port_world = Some (Inr (), port_world\<lparr>w_files := (w_files port_world)(
     ''e'' := File (as_bytes (port_to_text (export_doc AProof (prf_id demo_package) (hex_encode plain_hex demo_bytes) None) @ NEWLINE)))\<rparr>)"
    and demo_source: "load_proof port_platform ''p'' port_world = Some (Inr \<lparr>lp_canonical = demo_bytes, lp_proof = demo_package\<rparr>, port_world)"
proof -
  let ?doc = "proof_doc port_platform (prf_id demo_package) demo_bytes"
  have held: "holds_doc port_platform ''p'' ?doc port_world"
    using demo_file_size by (simp add: holds_doc_def file_fits_def port_world_def proof_doc_def port_wrapper_text NEWLINE_def)
  show "load_proof port_platform ''p'' port_world = Some (Inr \<lparr>lp_canonical = demo_bytes, lp_proof = demo_package\<rparr>, port_world)"
    using proof_file_loads [of port_platform demo_bytes demo_package "''p''" port_world] held plain_hex_law port_wrapper_law demo_parses by simp
  have doc: "read_json port_platform ''p'' port_world = Some (Inr ?doc, port_world)"
    using doc_read(1) [of port_platform "''p''" demo_bytes "[(''id'', prf_id demo_package), (''kind'', ''proof'')]" port_world] held port_wrapper_law plain_hex_law
      literal_utf8 demo_id_text
    by (simp add: proof_doc_def utf8_text_def)
  have "get_str ?doc ''kind'' = Some ''proof''" "get_str ?doc ''id'' = Some (prf_id demo_package)" "get_str ?doc ''cbor'' = Some (hex_encode plain_hex demo_bytes)"
      "str_of_either ?doc ''sign1_b64'' ''sign1'' = None"
    by (simp_all add: proof_doc_def wrapper_doc_simps(2)) (simp add: str_of_either_def wrapper_doc_simps(1))
  then show "export_command port_platform (port_flags ''p'' ''e'') port_world = Some (Inr (), port_world\<lparr>w_files := (w_files port_world)(
     ''e'' := File (as_bytes (port_to_text (export_doc AProof (prf_id demo_package) (hex_encode plain_hex demo_bytes) None) @ NEWLINE)))\<rparr>)"
    using doc demo_envelope
    by (simp add: export_command_def port_flags_reads read_text bindIO_def usageIO_def liftIO_def wrapper_kind_def wrapper_field_def ok_or_def
        artifact_kind_parse_def Let_def write_json_def writeIO_def)
      (simp add: port_world_def quiet_world_def)
qed

lemma import_demo:
  assumes "read_json port_platform ''e'' w = Some (Inr (export_doc AProof (prf_id demo_package) (hex_encode plain_hex demo_bytes) None), w)" "w_writable w ''f''"
  shows "import_command port_platform (port_flags ''e'' ''f'') w = Some (Inr (), w\<lparr>w_files := (w_files w)(''f'' := File (as_bytes (make_to_text (wrapper_doc
     [(''cbor'', hex_encode plain_hex demo_bytes), (''id'', prf_id demo_package), (''kind'', ''proof'')]) @ NEWLINE)))\<rparr>)"
proof -
  let ?doc = "export_doc AProof (prf_id demo_package) (hex_encode plain_hex demo_bytes) None"
  have "get_str ?doc ''kind'' = Some ''proof''" "get_str ?doc ''id'' = Some (prf_id demo_package)" "get_str ?doc ''cbor'' = Some (hex_encode plain_hex demo_bytes)"
      "str_of_either ?doc ''sign1'' ''sign1_b64'' = None" "json_get ?doc ''issuer'' = None" "check_container ?doc = Inr ()"
    by (simp_all add: export_doc_def get_str_def str_of_either_def check_container_def container_version_of_def CONTAINER_VERSION_def)
  moreover have "import_doc AProof i c None None = [(''cbor'', JString c), (''id'', JString i), (''kind'', JString ''proof'')]" for i c
    by (simp add: import_doc_def)
  ultimately show ?thesis
    using assms demo_envelope port_wrapper_text [of "[(''cbor'', hex_encode plain_hex demo_bytes), (''id'', prf_id demo_package), (''kind'', ''proof'')]"]
    by (simp add: import_command_def port_flags_reads read_text bindIO_def usageIO_def liftIO_def wrapper_kind_def wrapper_field_def ok_or_def
        artifact_kind_parse_def Let_def write_json_def writeIO_def wrapper_doc_def)
qed

theorem exported_files_refused_witness:
  "\<exists>w1 w2 x. export_command port_platform (port_flags ''p'' ''e'') port_world = Some (Inr (), w1)
     \<and> import_command port_platform (port_flags ''e'' ''f'') w1 = Some (Inr (), w2)
     \<and> load_proof port_platform ''e'' w1 = Some (Inl x, w1)
     \<and> load_proof port_platform ''f'' w2 = Some (Inr \<lparr>lp_canonical = demo_bytes, lp_proof = demo_package\<rparr>, w2)"
proof -
  let ?hex = "hex_encode plain_hex demo_bytes"
  let ?doc = "export_doc AProof (prf_id demo_package) ?hex None"
  let ?w1 = "port_world\<lparr>w_files := (w_files port_world)(''e'' := File (as_bytes (port_to_text ?doc @ NEWLINE)))\<rparr>"
  have "length (port_to_text ?doc) \<le> length (make_to_text (wrapper_doc [(''cbor'', ?hex), (''id'', prf_id demo_package), (''kind'', ''proof'')]))"
    unfolding export_strings_facts(1) export_strings_def make_to_text_def doc_strings_wrapper demo_to_text_doc by simp
  then have fits: "file_fits ''e'' ?w1" using demo_file_size by (simp add: file_fits_def NEWLINE_def)
  have "valid_utf8 (as_bytes (prf_id demo_package))" "valid_utf8 (as_bytes ?hex)"
    using demo_id_text hex_utf8 plain_hex_law by (simp_all add: utf8_text_def)
  then have "read_json port_platform ''e'' ?w1 = Some (Inr ?doc, ?w1)"
    using port_export_law fits by (intro read_doc) (simp_all add: export_law_def)
  then obtain w2 where w2: "import_command port_platform (port_flags ''e'' ''f'') ?w1 = Some (Inr (), w2)"
      "w_files w2 ''f'' = File (as_bytes (make_to_text (wrapper_doc [(''cbor'', ?hex), (''id'', prf_id demo_package), (''kind'', ''proof'')]) @ NEWLINE))"
    using import_demo [of ?w1] by (simp add: port_world_def quiet_world_def)
  then have "file_fits ''f'' w2" using demo_file_size by (simp add: file_fits_def NEWLINE_def)
  then show ?thesis
    using exported_files_refused [OF port_wrapper_law port_export_law port_text_law export_demo _ _ fits w2(1), of "''f''"] export_demo w2(1) demo_source
      port_flags_reads
    by auto
qed

section \<open>Composition is union\<close>

text \<open>A map whose entries stand under their own keys, and which has exactly the keys \<open>ids\<close>.\<close>

definition keyed :: "('b \<Rightarrow> 'a \<Rightarrow> bool) \<Rightarrow> ('a \<times> 'b) list \<Rightarrow> 'a set \<Rightarrow> bool" where
  "keyed P m ids \<longleftrightarrow> distinct (map fst m) \<and> (\<forall>(k, x) \<in> set m. P x k) \<and> fst ` set m = ids"

lemma keyed_Nil: "keyed P [] {}"
  by (simp add: keyed_def)

lemma keyed_snoc: "keyed P m ids \<Longrightarrow> k \<notin> ids \<Longrightarrow> P x k \<Longrightarrow> keyed P (m @ [(k, x)]) (insert k ids)"
  by (auto simp: keyed_def)

lemma keyed_insert_all:
  assumes "keyed P m ids" "\<forall>(k, x) \<in> set ps. P x k"
  shows "keyed P (or_insert_all ps m) (ids \<union> fst ` set ps)"
  using assms
proof (induction ps arbitrary: m ids)
  case (Cons y ps)
  obtain k x where y: "y = (k, x)" by (cases y)
  have "keyed P (or_insert k x m) (insert k ids)"
    using Cons.prems keyed_snoc [of P m ids k x] by (auto simp: y or_insert_def keyed_def insert_absorb)
  then show ?case using Cons.IH [of "or_insert k x m" "insert k ids"] Cons.prems(2) by (simp add: y or_insert_all_def)
qed (simp add: or_insert_all_def)

lemma keyed_entries:
  assumes "hash_iter iter" "keyed P m ids"
  shows "set (entries_in iter m) = snd ` (set m :: (string \<times> 'b) set)"
proof -
  have "distinct (map fst m)" using assms(2) by (simp add: keyed_def)
  then have "x \<in> snd ` set m \<longleftrightarrow> (\<exists>k \<in> set (iter (map fst m)). map_of m k = Some x)" for x
    using assms(1) by (force simp: hash_iter_def)
  moreover have "set (List.map_filter f ks) = {x. \<exists>k \<in> set ks. f k = Some x}" for f :: "string \<Rightarrow> 'b option" and ks
    by (induction ks) (auto simp: map_filter_simps split: option.splits)
  ultimately show ?thesis unfolding entries_in_def by auto
qed

lemma keyed_values: "keyed P m ids \<Longrightarrow> x \<in> snd ` set m \<Longrightarrow> \<exists>k \<in> ids. P x k"
  by (force simp: keyed_def)

lemma keyed_image: "keyed P m ids \<Longrightarrow> (\<And>x k. P x k \<Longrightarrow> f x = g k) \<Longrightarrow> f ` snd ` set m = g ` ids"
  by (force simp: keyed_def image_iff)

abbreviation ev_id :: "platform \<Rightarrow> event_content \<Rightarrow> string result" where
  "ev_id pf \<equiv> event_member_id (pf_b64 pf) (pf_hash pf)"

abbreviation at_id :: "platform \<Rightarrow> attestation_content \<Rightarrow> string" where
  "at_id pf \<equiv> attestation_member_id (pf_b64 pf) (pf_hash pf)"

abbreviation vd_id :: "platform \<Rightarrow> evidence \<Rightarrow> string" where
  "vd_id pf \<equiv> evidence_member_id (pf_b64 pf) (pf_hash pf)"

abbreviation rl_id :: "platform \<Rightarrow> relationship \<Rightarrow> string" where
  "rl_id pf \<equiv> relationship_member_id (pf_b64 pf) (pf_hash pf)"

lemma keys_are_ids:
  "event_key pf x = Inr k \<longleftrightarrow> ev_id pf x = Inr k" "evidence_key pf y = vd_id pf y" "relationship_key pf z = rl_id pf z"
  by (simp_all add: event_key_def codeR_iff event_member_id_def evidence_key_def evidence_member_id_def relationship_key_def relationship_member_id_def)

definition composed_attestation :: "platform \<Rightarrow> created_attestation \<Rightarrow> string \<Rightarrow> bool" where
  "composed_attestation pf a k \<longleftrightarrow> ca_id a = k \<and> at_id pf (ca_content a) = k
     \<and> verify_attestation (pf_b64 pf) (pf_hash pf) (pf_sig pf) (ca_sign1 a) (att_issuer (ca_content a)) AllowedAlgs_strict default_limits = Inr (ca_content a, k)"

text \<open>What the maps of \<^verbatim>\<open>compose\<close> hold after the packages \<open>S\<close> went in.\<close>

definition composed :: "platform \<Rightarrow> composition \<Rightarrow> proof_package set \<Rightarrow> bool" where
  "composed pf m S \<longleftrightarrow>
     keyed (\<lambda>x k. ev_id pf x = Inr k) (cm_events m) {k. \<exists>p \<in> S. Inr k \<in> ev_id pf ` set (prf_events p)}
   \<and> keyed (composed_attestation pf) (cm_attestations m) (\<Union>p \<in> S. at_id pf ` sa_content ` set (prf_attestations p))
   \<and> keyed (\<lambda>x k. vd_id pf x = k \<and> evd_v x = 1) (cm_evidence m) (\<Union>p \<in> S. vd_id pf ` set (prf_evidence p))
   \<and> keyed (\<lambda>x k. rl_id pf x = k) (cm_relationships m) (\<Union>p \<in> S. rl_id pf ` set (prf_relationships p))
   \<and> (\<forall>p \<in> S. \<forall>x \<in> set (prf_events p). \<exists>k. ev_id pf x = Inr k)
   \<and> set (cm_seen m) = prf_id ` S \<and> inj_on prf_id S"

lemma composed_empty: "composed pf composition_empty {}"
  by (simp add: composed_def composition_empty_def keyed_Nil)

lemma add_attestations_keyed:
  assumes "keyed (composed_attestation pf) m ids" "add_attestations pf fpath as m = Inr m'"
  shows "keyed (composed_attestation pf) m' (ids \<union> at_id pf ` sa_content ` set as)"
  using assms
proof (induction as arbitrary: m ids)
  case (Cons a as)
  let ?i = "at_id pf (sa_content a)"
  have i: "attestation_id (pf_b64 pf) (pf_hash pf) (encode_canonical (attestation_to_cbor (sa_content a))) = ?i"
    by (simp add: attestation_member_id_def)
  show ?case
  proof (cases "?i \<in> ids")
    case True
    then have "add_attestations pf fpath as m = Inr m'" using Cons.prems i by (simp add: keyed_def Let_def)
    then show ?thesis using Cons.IH [OF Cons.prems(1)] True by (simp add: insert_absorb)
  next
    case False
    let ?a = "\<lparr>ca_content = sa_content a, ca_canonical = encode_canonical (attestation_to_cbor (sa_content a)), ca_id = ?i, ca_sign1 = sa_sign1 a\<rparr>"
    have rest: "add_attestations pf fpath as (m @ [(?i, ?a)]) = Inr m'" "composed_attestation pf ?a ?i"
      using Cons.prems False i
      by (auto simp: Let_def bindR_Inr_iff labelR_iff composed_attestation_def limits_of_cli_def keyed_def split: if_splits)
    then show ?thesis using Cons.IH [OF keyed_snoc [OF Cons.prems(1) False rest(2)] rest(1)] by simp
  qed
qed simp

lemma zip_keys:
  assumes "mapR f xs = Inr ks" "\<And>x k. f x = Inr k \<longleftrightarrow> g x = Inr k"
  shows "\<forall>(k, x) \<in> set (zip ks xs). g x = Inr k" "fst ` set (zip ks xs) = {k. Inr k \<in> g ` set xs}" "\<forall>x \<in> set xs. \<exists>k. g x = Inr k"
proof -
  have all: "list_all2 (\<lambda>x k. g x = Inr k) xs ks" using assms by (simp add: mapR_Inr_iff)
  then show "\<forall>(k, x) \<in> set (zip ks xs). g x = Inr k" by (auto simp: list_all2_conv_all_nth in_set_zip)
  show each: "\<forall>x \<in> set xs. \<exists>k. g x = Inr k" using all by (auto simp: list_all2_conv_all_nth in_set_conv_nth)
  have "set ks = {k. Inr k \<in> g ` set xs}"
    using all by (force simp: list_all2_conv_all_nth in_set_conv_nth image_iff)
  then show "fst ` set (zip ks xs) = {k. Inr k \<in> g ` set xs}"
    using list_all2_lengthD [OF all] by (metis length_map map_fst_zip set_map)
qed

lemma composed_absorb:
  assumes "composed pf m S" "absorb pf fpath p m = Inr m'" "\<forall>x \<in> set (prf_evidence p). evd_v x = 1"
  shows "\<exists>S'. composed pf m' S' \<and> S \<subseteq> S' \<and> S' \<subseteq> insert p S \<and> prf_id p \<in> prf_id ` S'"
proof (cases "prf_id p \<in> set (cm_seen m)")
  case True
  then have "m' = m" "prf_id p \<in> prf_id ` S" using assms by (simp_all add: absorb_def composed_def)
  then show ?thesis using assms(1) by (intro exI [of _ S]) auto
next
  case False
  obtain keys atts where r: "mapR (event_key pf) (prf_events p) = Inr keys" "add_attestations pf fpath (prf_attestations p) (cm_attestations m) = Inr atts"
      "m' = \<lparr>cm_events = or_insert_all (zip keys (prf_events p)) (cm_events m), cm_attestations = atts,
         cm_evidence = or_insert_all (map (\<lambda>x. (evidence_key pf x, x)) (prf_evidence p)) (cm_evidence m),
         cm_relationships = or_insert_all (map (\<lambda>x. (relationship_key pf x, x)) (prf_relationships p)) (cm_relationships m),
         cm_seen = cm_seen m @ [prf_id p]\<rparr>"
    using assms(2) False by (auto simp: absorb_def bindR_Inr_iff)
  have inv: "keyed (\<lambda>x k. ev_id pf x = Inr k) (cm_events m) {k. \<exists>p \<in> S. Inr k \<in> ev_id pf ` set (prf_events p)}"
      "keyed (composed_attestation pf) (cm_attestations m) (\<Union>p \<in> S. at_id pf ` sa_content ` set (prf_attestations p))"
      "keyed (\<lambda>x k. vd_id pf x = k \<and> evd_v x = 1) (cm_evidence m) (\<Union>p \<in> S. vd_id pf ` set (prf_evidence p))"
      "keyed (\<lambda>x k. rl_id pf x = k) (cm_relationships m) (\<Union>p \<in> S. rl_id pf ` set (prf_relationships p))"
      "\<forall>p \<in> S. \<forall>x \<in> set (prf_events p). \<exists>k. ev_id pf x = Inr k" "set (cm_seen m) = prf_id ` S" "inj_on prf_id S"
    using assms(1) unfolding composed_def by blast+
  note ks = zip_keys [OF r(1) keys_are_ids(1)]
  have "keyed (\<lambda>x k. ev_id pf x = Inr k) (cm_events m') {k. \<exists>p \<in> insert p S. Inr k \<in> ev_id pf ` set (prf_events p)}"
    using keyed_insert_all [OF inv(1) ks(1)] unfolding ks(2) r(3) by (simp add: Collect_disj_eq Un_commute)
  moreover have "keyed (composed_attestation pf) (cm_attestations m') (\<Union>p \<in> insert p S. at_id pf ` sa_content ` set (prf_attestations p))"
    using add_attestations_keyed [OF inv(2) r(2)] by (simp add: r(3) Un_commute)
  moreover have "keyed (\<lambda>x k. vd_id pf x = k \<and> evd_v x = 1) (cm_evidence m') (\<Union>p \<in> insert p S. vd_id pf ` set (prf_evidence p))"
    using keyed_insert_all [OF inv(3), of "map (\<lambda>x. (evidence_key pf x, x)) (prf_evidence p)"] assms(3)
    by (simp add: r(3) keys_are_ids image_image Un_commute)
  moreover have "keyed (\<lambda>x k. rl_id pf x = k) (cm_relationships m') (\<Union>p \<in> insert p S. rl_id pf ` set (prf_relationships p))"
    using keyed_insert_all [OF inv(4), of "map (\<lambda>x. (relationship_key pf x, x)) (prf_relationships p)"]
    by (simp add: r(3) keys_are_ids image_image Un_commute)
  moreover have "\<forall>q \<in> insert p S. \<forall>x \<in> set (prf_events q). \<exists>k. ev_id pf x = Inr k" using ks(3) inv(5) by blast
  moreover have "set (cm_seen m') = prf_id ` insert p S" "inj_on prf_id (insert p S)" using inv(6,7) False by (auto simp: r(3))
  ultimately have "composed pf m' (insert p S)" unfolding composed_def by blast
  then show ?thesis by blast
qed

lemma loaded_parses: "load_proof pf fpath w = Some (Inr lp, w') \<Longrightarrow> parse_proof (pf_b64 pf) (lp_canonical lp) default_limits = Inr (lp_proof lp)"
  by (auto simp: load_proof_def io_iff unwrap_proof_def bindR_Inr_iff parse_proof_def limits_of_cli_def labelR_iff hexR_def split: prod.splits)

lemma loaded_evidence: "load_proof pf fpath w = Some (Inr lp, w') \<Longrightarrow> \<forall>x \<in> set (prf_evidence (lp_proof lp)). evd_v x = 1"
  by (auto dest!: loaded_parses parse_proof_ok simp: proof_ok_def evidence_ok_def list_all_iff)

lemma composed_all:
  assumes "composed pf m S" "absorb_all pf paths m w = Some (Inr m', w')"
  shows "\<exists>lps S'. mapIO (load_proof pf) paths w = Some (Inr lps, w') \<and> composed pf m' S' \<and> S \<subseteq> S' \<and> S' \<subseteq> S \<union> lp_proof ` set lps
    \<and> prf_id ` lp_proof ` set lps \<subseteq> prf_id ` S'"
  using assms
proof (induction paths arbitrary: m S w)
  case (Cons fpath paths)
  obtain lp w1 m1 where r: "load_proof pf fpath w = Some (Inr lp, w1)" "absorb pf fpath (lp_proof lp) m = Inr m1" "absorb_all pf paths m1 w1 = Some (Inr m', w')"
    using Cons.prems(2) by (auto simp: io_iff)
  obtain S1 where S1: "composed pf m1 S1" "S \<subseteq> S1" "S1 \<subseteq> insert (lp_proof lp) S" "prf_id (lp_proof lp) \<in> prf_id ` S1"
    using composed_absorb [OF Cons.prems(1) r(2) loaded_evidence [OF r(1)]] by blast
  obtain lps S' where IH: "mapIO (load_proof pf) paths w1 = Some (Inr lps, w')" "composed pf m' S'" "S1 \<subseteq> S'" "S' \<subseteq> S1 \<union> lp_proof ` set lps"
      "prf_id ` lp_proof ` set lps \<subseteq> prf_id ` S'"
    using Cons.IH [OF S1(1) r(3)] by blast
  then have "mapIO (load_proof pf) (fpath # paths) w = Some (Inr (lp # lps), w')" using r(1) by (simp add: bindIO_def retIO_def)
  moreover have "S \<subseteq> S'" "S' \<subseteq> S \<union> lp_proof ` set (lp # lps)" "prf_id ` lp_proof ` set (lp # lps) \<subseteq> prf_id ` S'" using S1 IH(3-5) by auto
  ultimately show ?case using IH(2) by blast
qed (auto simp: io_iff)

lemma created_members:
  "mapR (created_event_of pf) xs = Inr es \<Longrightarrow> map ce_content es = xs \<and> (\<forall>x \<in> set es. \<exists>c l. create_event (pf_b64 pf) (pf_hash pf) c l = Inr x)"
  "mapR (created_relationship_of pf) zs = Inr rs \<Longrightarrow> map cr_content rs = zs \<and> (\<forall>x \<in> set rs. \<exists>c l. make_relationship (pf_b64 pf) (pf_hash pf) c l = Inr x)"
proof -
  have content: "create_event b64 h c l = Inr x \<Longrightarrow> ce_content x = c" "make_relationship b64 h r l = Inr y \<Longrightarrow> cr_content y = r" for b64 h c l x r y
    by (auto simp: create_event_def make_relationship_def Let_def result_iff split: if_splits)
  show "mapR (created_event_of pf) xs = Inr es \<Longrightarrow> map ce_content es = xs \<and> (\<forall>x \<in> set es. \<exists>c l. create_event (pf_b64 pf) (pf_hash pf) c l = Inr x)"
    unfolding mapR_Inr_iff by (induction rule: list_all2_induct) (auto simp: created_event_of_def codeR_iff content)
  show "mapR (created_relationship_of pf) zs = Inr rs \<Longrightarrow> map cr_content rs = zs \<and> (\<forall>x \<in> set rs. \<exists>c l. make_relationship (pf_b64 pf) (pf_hash pf) c l = Inr x)"
    unfolding mapR_Inr_iff by (induction rule: list_all2_induct) (auto simp: created_relationship_of_def codeR_iff content)
qed

lemma created_evidence_members:
  assumes "mapR (created_evidence_of pf) ys = Inr vs" "\<forall>y \<in> set ys. evd_v y = 1"
  shows "map cv_content vs = ys \<and> (\<forall>x \<in> set vs. \<exists>kind digest r hint l. make_evidence (pf_b64 pf) (pf_hash pf) kind digest r hint l = Inr x)"
proof -
  have content: "created_evidence_of pf y = Inr v \<Longrightarrow> evd_v y = 1 \<Longrightarrow> cv_content v = y" for y v
    by (auto simp: created_evidence_of_def codeR_iff make_evidence_def Let_def result_iff split: if_splits)
  have made: "created_evidence_of pf y = Inr v \<Longrightarrow> \<exists>kind digest r hint l. make_evidence (pf_b64 pf) (pf_hash pf) kind digest r hint l = Inr v" for y v
    by (auto simp: created_evidence_of_def codeR_iff) blast
  have "list_all2 (\<lambda>y v. created_evidence_of pf y = Inr v) ys vs" using assms(1) by (simp add: mapR_Inr_iff)
  then show ?thesis using assms(2) by (induction rule: list_all2_induct) (auto simp: content intro: made)
qed

lemma add_sources_Inr: "add_sources pf is b = Inr b' \<Longrightarrow> b' = b\<lparr>pb_referenced_proofs := pb_referenced_proofs b @ is\<rparr>"
  by (induction pf "is" b rule: add_sources.induct) (auto simp: bindR_Inr_iff labelR_iff add_referenced_proof_def)

lemma conflicts_elsewhere: "conflicts_path out \<noteq> out" "conflicts_path out \<noteq> ''-''"
proof -
  have stop: "trim_json n (u @ ''.conflicts'') = u @ ''.conflicts''" for n u by (cases n) simp_all
  have cut: "trim_json (Suc n) (u @ ''.conflicts.json'') = u @ ''.conflicts''" for n u using stop [of n u] by simp
  show "conflicts_path out \<noteq> out"
  proof
    assume same: "conflicts_path out = out"
    obtain t where t: "trim_json (length out) out = t" by simp
    then have out: "out = t @ ''.conflicts.json''" using same by (simp add: conflicts_path_def)
    obtain n where n: "length out = Suc n" using out by (cases "length out") auto
    show False using t cut [of n t] unfolding n unfolding out by simp
  qed
  show "conflicts_path out \<noteq> ''-''" by (simp add: conflicts_path_def)
qed


lemma compose_run:
  assumes "compose_command pf group_iter c w = Some (Inr i, w')" "cli_opt c ''out'' = Some out"
  shows "\<exists>paths pr m w1 created_at b bp w2 u w3. input_list c ''proofs'' = Inr paths \<and> absorb_all pf paths composition_empty w = Some (Inr m, w1)
    \<and> compose_builder pf m (ProofBuilder_new pr created_at) = Inr b \<and> build (pf_b64 pf) (pf_hash pf) b limits_of_cli = Inr bp \<and> i = bp_id bp
    \<and> write_json pf out (proof_doc pf (bp_id bp) (bp_canonical bp)) w2 = Some (Inr u, w3)
    \<and> (w' = w3 \<or> (\<exists>doc u'. write_json pf (conflicts_path out) doc w3 = Some (Inr u', w')))"
proof -
  have out: "cli_req c ''out'' = Inr y \<longleftrightarrow> y = out" for y using assms(2) by (auto simp: cli_req_def cli_opt_def ok_or_def)
  have sidecar: "(if b then retIO x else m) w0 = Some (Inr y, w1) \<longleftrightarrow> b \<and> y = x \<and> w1 = w0 \<or> \<not> b \<and> m w0 = Some (Inr y, w1)"
    for b x y w0 w1 and m :: "'b io"
    by (simp add: retIO_iff)
  from assms(1) show ?thesis
    unfolding compose_command_def Let_def bindIO_Inr usageIO_iff liftIO_iff retIO_iff labelR_iff out write_proof_file_def guardIO sidecar by blast
qed

lemma compose_builder_members:
  assumes "hash_iter (pf_iter pf)" "composed pf m S" "compose_builder pf m (ProofBuilder_new pr created_at) = Inr b"
  shows "ce_content ` set (pb_events b) = snd ` set (cm_events m)" "set (pb_attestations b) = snd ` set (cm_attestations m)"
    "cv_content ` set (pb_evidence b) = snd ` set (cm_evidence m)" "cr_content ` set (pb_relationships b) = snd ` set (cm_relationships m)"
    "set (pb_referenced_proofs b) = prf_id ` S" "pb_vocabularies b = []"
    "\<forall>x \<in> set (pb_events b). \<exists>c l. create_event (pf_b64 pf) (pf_hash pf) c l = Inr x"
    "\<forall>x \<in> set (pb_evidence b). \<exists>kind digest r hint l. make_evidence (pf_b64 pf) (pf_hash pf) kind digest r hint l = Inr x"
    "\<forall>x \<in> set (pb_relationships b). \<exists>c l. make_relationship (pf_b64 pf) (pf_hash pf) c l = Inr x"
proof -
  obtain es vs rs where r: "mapR (created_event_of pf) (entries_in (pf_iter pf) (cm_events m)) = Inr es"
      "mapR (created_evidence_of pf) (entries_in (pf_iter pf) (cm_evidence m)) = Inr vs"
      "mapR (created_relationship_of pf) (entries_in (pf_iter pf) (cm_relationships m)) = Inr rs"
      "b = (ProofBuilder_new pr created_at)\<lparr>pb_referenced_proofs := sort (cm_seen m), pb_events := es,
         pb_attestations := entries_in (pf_iter pf) (cm_attestations m), pb_evidence := vs, pb_relationships := rs\<rparr>"
    using assms(3)
    by (auto simp: compose_builder_def bindR_Inr_iff Let_def builder_folds ProofBuilder_new_def ProofBuilder_default_def dest!: add_sources_Inr)
  have keyed: "keyed (\<lambda>x k. ev_id pf x = Inr k) (cm_events m) {k. \<exists>p \<in> S. Inr k \<in> ev_id pf ` set (prf_events p)}"
      "keyed (composed_attestation pf) (cm_attestations m) (\<Union>p \<in> S. at_id pf ` sa_content ` set (prf_attestations p))"
      "keyed (\<lambda>x k. vd_id pf x = k \<and> evd_v x = 1) (cm_evidence m) (\<Union>p \<in> S. vd_id pf ` set (prf_evidence p))"
      "keyed (\<lambda>x k. rl_id pf x = k) (cm_relationships m) (\<Union>p \<in> S. rl_id pf ` set (prf_relationships p))" "set (cm_seen m) = prf_id ` S"
    using assms(2) unfolding composed_def by blast+
  note entries = keyed_entries [OF assms(1) keyed(1)] keyed_entries [OF assms(1) keyed(2)] keyed_entries [OF assms(1) keyed(3)]
    keyed_entries [OF assms(1) keyed(4)]
  have v1: "\<forall>y \<in> set (entries_in (pf_iter pf) (cm_evidence m)). evd_v y = 1" unfolding entries(3) using keyed_values [OF keyed(3)] by blast
  note made = created_members(1) [OF r(1)] created_evidence_members [OF r(2) v1] created_members(2) [OF r(3)]
  have "ce_content ` set es = snd ` set (cm_events m)" "cv_content ` set vs = snd ` set (cm_evidence m)"
      "cr_content ` set rs = snd ` set (cm_relationships m)"
    using made entries by (metis set_map)+
  then show "ce_content ` set (pb_events b) = snd ` set (cm_events m)" "set (pb_attestations b) = snd ` set (cm_attestations m)"
    "cv_content ` set (pb_evidence b) = snd ` set (cm_evidence m)" "cr_content ` set (pb_relationships b) = snd ` set (cm_relationships m)"
    "set (pb_referenced_proofs b) = prf_id ` S" "pb_vocabularies b = []"
    "\<forall>x \<in> set (pb_events b). \<exists>c l. create_event (pf_b64 pf) (pf_hash pf) c l = Inr x"
    "\<forall>x \<in> set (pb_evidence b). \<exists>kind digest r hint l. make_evidence (pf_b64 pf) (pf_hash pf) kind digest r hint l = Inr x"
    "\<forall>x \<in> set (pb_relationships b). \<exists>c l. make_relationship (pf_b64 pf) (pf_hash pf) c l = Inr x"
    using made entries(2) keyed(5) by (simp_all add: r(4) ProofBuilder_new_def ProofBuilder_default_def)
qed

text \<open>
  C37. \<^verbatim>\<open>compose\<close> makes a valid union. The file named by \<^verbatim>\<open>--out\<close>, unless it is over the size cap, loads as a package with the returned id that
  every verifier accepting Ed25519 under the default limits reports as cryptographically valid. Its event, attestation, evidence and
  relationship ids are exactly those of the sources, its references are exactly the ids the inputs state, and it declares no
  vocabularies, whatever the sources declare. The sources are one input per stated id: of two inputs that
  state the same id only one is used.
\<close>

theorem compose_is_valid_union:
  assumes "b64_law (pf_b64 pf)" "hash_iter (pf_iter pf)" "hex_law (pf_hex pf)" "wrapper_law pf"
    and "cli_opt c ''out'' = Some out" "out \<noteq> ''-''" "file_fits out w'" "compose_command pf group_iter c w = Some (Inr i, w')"
    and "ctx_misuse ctx = None" "al_ed25519 (ctx_allowed_algs ctx)" "ctx_limits ctx = default_limits"
  shows "\<exists>paths lps w1 S lp rep. input_list c ''proofs'' = Inr paths \<and> mapIO (load_proof pf) paths w = Some (Inr lps, w1)
    \<and> S \<subseteq> lp_proof ` set lps \<and> inj_on prf_id S \<and> prf_id ` S = prf_id ` lp_proof ` set lps
    \<and> load_proof pf out w' = Some (Inr lp, w') \<and> prf_id (lp_proof lp) = i
    \<and> ev_id pf ` set (prf_events (lp_proof lp)) = (\<Union>p \<in> S. ev_id pf ` set (prf_events p))
    \<and> at_id pf ` sa_content ` set (prf_attestations (lp_proof lp)) = (\<Union>p \<in> S. at_id pf ` sa_content ` set (prf_attestations p))
    \<and> vd_id pf ` set (prf_evidence (lp_proof lp)) = (\<Union>p \<in> S. vd_id pf ` set (prf_evidence p))
    \<and> rl_id pf ` set (prf_relationships (lp_proof lp)) = (\<Union>p \<in> S. rl_id pf ` set (prf_relationships p))
    \<and> set (prf_referenced_proofs (lp_proof lp)) = prf_id ` S \<and> prf_vocabularies (lp_proof lp) = []
    \<and> verify_proof (pf_b64 pf) (pf_hash pf) (pf_sig pf) (pf_iter pf) (lp_canonical lp) ctx = Some (Inr rep)
    \<and> rep_cryptographic_validity rep = Valid \<and> rep_proof_id rep = Some i"
proof -
  obtain paths pr m w1 created_at b bp where
    run: "input_list c ''proofs'' = Inr paths" "absorb_all pf paths composition_empty w = Some (Inr m, w1)"
      "compose_builder pf m (ProofBuilder_new pr created_at) = Inr b" "build (pf_b64 pf) (pf_hash pf) b limits_of_cli = Inr bp"
      "i = bp_id bp" "holds_doc pf out (proof_doc pf (bp_id bp) (bp_canonical bp)) w'"
    using compose_run [OF assms(8,5)] assms(6,7) conflicts_elsewhere [of out] by (auto simp: write_json_iff holds_doc_def)
  obtain lps S where S: "mapIO (load_proof pf) paths w = Some (Inr lps, w1)" "composed pf m S" "S \<subseteq> lp_proof ` set lps" "prf_id ` lp_proof ` set lps \<subseteq> prf_id ` S"
    using composed_all [OF composed_empty run(2)] by auto
  note mem = compose_builder_members [OF assms(2) S(2) run(3)]
  have keyed: "keyed (\<lambda>x k. ev_id pf x = Inr k) (cm_events m) {k. \<exists>p \<in> S. Inr k \<in> ev_id pf ` set (prf_events p)}"
      "keyed (composed_attestation pf) (cm_attestations m) (\<Union>p \<in> S. at_id pf ` sa_content ` set (prf_attestations p))"
      "keyed (\<lambda>x k. vd_id pf x = k \<and> evd_v x = 1) (cm_evidence m) (\<Union>p \<in> S. vd_id pf ` set (prf_evidence p))"
      "keyed (\<lambda>x k. rl_id pf x = k) (cm_relationships m) (\<Union>p \<in> S. rl_id pf ` set (prf_relationships p))"
      "\<forall>p \<in> S. \<forall>x \<in> set (prf_events p). \<exists>k. ev_id pf x = Inr k" "inj_on prf_id S"
    using S(2) unfolding composed_def by blast+
  have att: "ca_id x = at_id pf (ca_content x) \<and> signed_entry (pf_b64 pf) (pf_hash pf) (pf_sig pf) ctx \<lparr>sa_content = ca_content x, sa_sign1 = ca_sign1 x\<rparr>"
    if "x \<in> set (pb_attestations b)" for x
    using keyed_values [OF keyed(2)] that strict_verifies [OF assms(1,10)] unfolding mem(2) composed_attestation_def signed_entry_def
    by (auto simp: assms(11))
  have built: "build (pf_b64 pf) (pf_hash pf) b (ctx_limits ctx) = Inr bp" using run(4) assms(11) by (simp add: limits_of_cli_def)
  have ok: "parse_proof (pf_b64 pf) (bp_canonical bp) default_limits = Inr (bp_proof bp) \<and> prf_id (bp_proof bp) = bp_id bp
    \<and> (\<exists>rep. verify_proof (pf_b64 pf) (pf_hash pf) (pf_sig pf) (pf_iter pf) (bp_canonical bp) ctx = Some (Inr rep)
         \<and> rep_cryptographic_validity rep = Valid \<and> rep_proof_id rep = Some (bp_id bp))"
    unfolding assms(11) [symmetric] by (rule built_members_verify [OF assms(1,2,9) mem(7) _ mem(8,9) built]) (use att in blast)
  obtain q where "bp_proof bp = assembled (pf_b64 pf) (pf_hash pf) b q" using built unfolding build_Inr seal_Inr by auto
  then have sets: "set (prf_events (bp_proof bp)) = snd ` set (cm_events m)"
      "sa_content ` set (prf_attestations (bp_proof bp)) = ca_content ` snd ` set (cm_attestations m)"
      "set (prf_evidence (bp_proof bp)) = snd ` set (cm_evidence m)" "set (prf_relationships (bp_proof bp)) = snd ` set (cm_relationships m)"
      "set (prf_referenced_proofs (bp_proof bp)) = prf_id ` S" "prf_vocabularies (bp_proof bp) = []"
    using mem(1-6) by (simp_all add: assembled_fields image_image)
  have "{k. \<exists>p \<in> S. Inr k \<in> ev_id pf ` set (prf_events p)} = {k. Inr k \<in> (\<Union>p \<in> S. ev_id pf ` set (prf_events p))}" by blast
  then have ids: "ev_id pf ` set (prf_events (bp_proof bp)) = (\<Union>p \<in> S. ev_id pf ` set (prf_events p))"
    unfolding sets using keyed_image [OF keyed(1), of "ev_id pf" Inr] keyed(5) by (force simp: image_iff)
  have "at_id pf ` sa_content ` set (prf_attestations (bp_proof bp)) = (\<Union>p \<in> S. at_id pf ` sa_content ` set (prf_attestations p))"
      "vd_id pf ` set (prf_evidence (bp_proof bp)) = (\<Union>p \<in> S. vd_id pf ` set (prf_evidence p))"
      "rl_id pf ` set (prf_relationships (bp_proof bp)) = (\<Union>p \<in> S. rl_id pf ` set (prf_relationships p))"
    unfolding sets using keyed_image [OF keyed(2), of "\<lambda>a. at_id pf (ca_content a)" id] keyed_image [OF keyed(3), of "vd_id pf" id]
      keyed_image [OF keyed(4), of "rl_id pf" id]
    by (simp_all add: composed_attestation_def image_image)
  moreover have "load_proof pf out w' = Some (Inr \<lparr>lp_canonical = bp_canonical bp, lp_proof = bp_proof bp\<rparr>, w')"
    using proof_file_loads [OF assms(3,4)] ok run(6) by force
  moreover have "prf_id ` S = prf_id ` lp_proof ` set lps" using S(3,4) by blast
  ultimately show ?thesis
    using run(1,5) S(1,3) keyed(6) ids sets(5,6) ok
    by (intro exI [of _ paths] exI [of _ lps] exI [of _ w1] exI [of _ S] exI [of _ "\<lparr>lp_canonical = bp_canonical bp, lp_proof = bp_proof bp\<rparr>"])
      auto
qed

definition compose_flags :: cli where
  "compose_flags = flags_of [(''proofs'', ''p''), (''kind'', ''k''), (''subject'', ''s''), (''predicate'', ''p''), (''created-at'', ''1''), (''out'', ''f'')]"

definition compose_world :: world where
  "compose_world = quiet_world\<lparr>w_files := (\<lambda>_. NoFile)(
     ''p'' := File (as_bytes (make_to_text (proof_doc (make_platform plain_b64) cited_id (encode_canonical (plain_value cited_id []))) @ NEWLINE)))\<rparr>"

lemma compose_source:
  "load_proof (make_platform plain_b64) ''p'' compose_world
     = Some (Inr \<lparr>lp_canonical = encode_canonical (plain_value cited_id []), lp_proof = plain_package cited_id []\<rparr>, compose_world)"
proof -
  let ?pf = "make_platform plain_b64"
  let ?bs = "encode_canonical (plain_value cited_id [])"
  have parsed: "parse_proof plain_b64 ?bs default_limits = Inr (plain_package cited_id [])"
    by (rule plain_parses [OF cited_text]) (simp_all add: cited_id_def starts_with_def)
  have "length (make_to_text (proof_doc ?pf cited_id ?bs)) < MAX_INPUT_FILE_BYTES"
    using plain_size [OF cited_text, of "[]"] unfolding proof_doc_def make_text_length
    by (simp add: MAX_INPUT_FILE_BYTES_def hex_length cited_id_def)
  then have "holds_doc ?pf ''p'' (proof_doc ?pf cited_id ?bs) compose_world"
    by (simp add: holds_doc_def file_fits_def compose_world_def NEWLINE_def)
  then show ?thesis
    using proof_file_loads [of ?pf ?bs "plain_package cited_id []" "''p''" compose_world] parsed plain_hex_law make_wrapper_law plain_fields by simp
qed

definition compose_base :: proof_builder where
  "compose_base = (ProofBuilder_new (prf_proposition demo_package) 1)\<lparr>pb_referenced_proofs := [cited_id]\<rparr>"

lemma compose_builds:
  "build plain_b64 zero_hash compose_base default_limits
     = Inr \<lparr>bp_proof = plain_package (prf_id demo_package) [cited_id], bp_canonical = citing_bytes (prf_id demo_package), bp_id = prf_id demo_package\<rparr>"
proof -
  let ?i = "prf_id demo_package"
  have i: "utf8_text ?i" "starts_with ?i ''prf:v1:''" using demo_id_text demo_id by (simp_all add: starts_with_def)
  have asm: "assembled plain_b64 zero_hash compose_base (prf_proposition demo_package) = plain_package ?i [cited_id]"
    by (simp add: assembled_def compose_base_def ProofBuilder_new_def ProofBuilder_default_def Let_def plain_package_def)
      (simp add: demo_package_def proof_id_full_def id_with_def zero_hash_def)
  have written: "proof_to_cbor (plain_package ?i [cited_id]) = Inr (plain_value ?i [cited_id])"
    by (subst proof_to_cbor_eq) (simp_all add: plain_value_def plain_package_def demo_package_def)
  have "parse_proof plain_b64 (citing_bytes ?i) default_limits = Inr (plain_package ?i [cited_id])"
    unfolding citing_bytes_def by (rule plain_parses [OF i]) simp
  then have "seal plain_b64 (plain_package ?i [cited_id]) default_limits
      = Inr \<lparr>bp_proof = plain_package ?i [cited_id], bp_canonical = citing_bytes ?i, bp_id = ?i\<rparr>"
    unfolding seal_Inr using written plain_size [OF i(1), of "[cited_id]"] cited_not_demo plain_fields by (simp add: citing_bytes_def default_limits_def)
  moreover have "pb_proposition compose_base = Some (prf_proposition demo_package)" "pb_events compose_base = []" "pb_attestations compose_base = []"
      "pb_evidence compose_base = []" "pb_relationships compose_base = []" "pb_referenced_proofs compose_base = [cited_id]" "pb_vocabularies compose_base = []"
    by (simp_all add: compose_base_def ProofBuilder_new_def ProofBuilder_default_def)
  moreover have "prop_v (prf_proposition demo_package) = 1" "1 \<le> max_referenced_proofs default_limits"
    by (simp_all add: demo_package_def default_limits_def)
  ultimately show ?thesis unfolding build_Inr using asm by simp
qed


lemma compose_demo:
  "\<exists>w'. compose_command (make_platform plain_b64) id compose_flags compose_world = Some (Inr (prf_id demo_package), w')
     \<and> w_files w' ''f'' = File (as_bytes (make_to_text (proof_doc (make_platform plain_b64) (prf_id demo_package) (citing_bytes (prf_id demo_package))) @ NEWLINE))"
proof -
  let ?pf = "make_platform plain_b64"
  let ?m = "composition_empty\<lparr>cm_seen := [cited_id]\<rparr>"
  have flags: "input_list compose_flags ''proofs'' = Inr [''p'']" "proposition_of compose_flags = Inr (prf_proposition demo_package)"
      "cli_req_u64 compose_flags ''created-at'' = Inr 1" "cli_req compose_flags ''out'' = Inr ''f''" "extra_grounded compose_flags = []"
    by (simp_all add: input_list_def compose_flags_def list_entries_def proposition_of_def parse_fields_def ok_or_def cli_opt_u64_def cli_req_u64_def
        parse_u64_def starts_with_def extra_grounded_def) (simp add: demo_package_def)
  have "absorb ?pf ''p'' (plain_package cited_id []) composition_empty = Inr ?m"
    by (simp add: absorb_def composition_empty_def plain_package_def or_insert_all_def) (simp add: demo_package_def)
  then have taken: "absorb_all ?pf [''p''] composition_empty compose_world = Some (Inr ?m, compose_world)"
    using compose_source by (simp add: bindIO_def liftIO_def retIO_def)
  have "add_referenced_proof plain_b64 (ProofBuilder_new (prf_proposition demo_package) 1) cited_id = Inr compose_base"
    by (simp add: add_referenced_proof_def check_proof_ref_shape_id_def compose_base_def cited_id_def b64u_decode_def b64u_nopad_def plain_b64_def
        as_bytes_def str_of_bytes_def ok_or_def ProofBuilder_new_def ProofBuilder_default_def)
  then have made: "compose_builder ?pf ?m (ProofBuilder_new (prf_proposition demo_package) 1) = Inr compose_base"
    by (simp add: compose_builder_def composition_empty_def entries_in_def map_filter_def labelR_def)
  have union: "check_union ?pf compose_flags [plain_package cited_id []] w = Some (Inr (), w)" for w
  proof -
    have "union_nodes ?pf [plain_package cited_id []] = Inr []" "union_edges ?pf [plain_package cited_id []] = []"
      by (simp_all add: union_nodes_def union_edges_def plain_package_def or_insert_all_def) (simp_all add: demo_package_def)
    then show ?thesis
      using flags(5)
      by (simp add: check_union_def bindIO_def liftIO_def engineIO_def labelR_def Let_def validate_graph_with_grounding_def check_derivation_acyclic_def
          limits_of_cli_def check_supersedes_def check_chains_def supersedes_pairs_def NodeSet_new_def ns_len_def derivation_edges_def endpoints_of_def)
  qed
  show ?thesis
    using flags taken made compose_source union compose_builds
    by (simp add: compose_command_def bindIO_def usageIO_def liftIO_def retIO_def limits_of_cli_def labelR_def Let_def divergent_pairs_def
        composition_empty_def write_proof_file_def write_json_def writeIO_def compose_world_def quiet_world_def)
qed


theorem compose_is_valid_union_witness:
  "\<exists>w' lp rep. compose_command (make_platform plain_b64) id compose_flags compose_world = Some (Inr (prf_id demo_package), w')
     \<and> load_proof (make_platform plain_b64) ''f'' w' = Some (Inr lp, w') \<and> set (prf_referenced_proofs (lp_proof lp)) = {cited_id}
     \<and> verify_proof plain_b64 zero_hash plain_sig remdups (lp_canonical lp) demo_ctx = Some (Inr rep) \<and> rep_cryptographic_validity rep = Valid"
proof -
  let ?pf = "make_platform plain_b64"
  let ?doc = "proof_doc ?pf (prf_id demo_package) (citing_bytes (prf_id demo_package))"
  obtain w' where run: "compose_command ?pf id compose_flags compose_world = Some (Inr (prf_id demo_package), w')"
      "w_files w' ''f'' = File (as_bytes (make_to_text ?doc @ NEWLINE))"
    using compose_demo by blast
  have "length (make_to_text ?doc) < MAX_INPUT_FILE_BYTES"
    using plain_size [OF demo_id_text, of "[cited_id]"] demo_id_text unfolding proof_doc_def make_text_length citing_bytes_def
    by (simp add: MAX_INPUT_FILE_BYTES_def hex_length utf8_text_def text_ok_def)
  then have fits: "file_fits ''f'' w'" by (simp add: file_fits_def run(2) NEWLINE_def)
  have out: "cli_opt compose_flags ''out'' = Some ''f''" "input_list compose_flags ''proofs'' = Inr [''p'']" "''f'' \<noteq> ''-''"
    by (simp_all add: compose_flags_def input_list_def list_entries_def)
  have sources: "mapIO (load_proof ?pf) [''p''] compose_world = Some (Inr lps, w1) \<Longrightarrow> map lp_proof lps = [plain_package cited_id []]" for lps w1
    using compose_source by (auto simp: bindIO_def retIO_def)
  obtain paths lps w1 lp rep and S :: "proof_package set" where x: "input_list compose_flags ''proofs'' = Inr paths" "mapIO (load_proof ?pf) paths compose_world = Some (Inr lps, w1)"
      "prf_id ` S = prf_id ` lp_proof ` set lps" "load_proof ?pf ''f'' w' = Some (Inr lp, w')" "set (prf_referenced_proofs (lp_proof lp)) = prf_id ` S"
      "verify_proof plain_b64 zero_hash plain_sig remdups (lp_canonical lp) demo_ctx = Some (Inr rep)" "rep_cryptographic_validity rep = Valid"
    using compose_is_valid_union [of ?pf, unfolded make_platform_fields, OF engine_laws(1) hash_iter_remdups plain_hex_law make_wrapper_law out(1,3) fits run(1)
        demo_ctx_simps]
    by (elim exE conjE) (rule that; assumption)
  have "paths = [''p'']" using x(1) out(2) by simp
  then have "map lp_proof lps = [plain_package cited_id []]" using sources x(2) by blast
  from arg_cong [OF this, of set] have "prf_id ` S = {cited_id}" using x(3) plain_fields by simp
  then show ?thesis using run(1) x(4-7) by auto
qed

section \<open>Convert is idempotent\<close>

lemma obj_insert_keys: "fst ` set (obj_insert k v m) = insert k (fst ` set m)"
  by (induction k v m rule: obj_insert.induct) auto

lemma obj_insert_sorted: "sorted_wrt (<) (map fst m) \<Longrightarrow> sorted_wrt (<) (map fst (obj_insert k v m))"
proof (induction m)
  case (Cons a m)
  obtain k' v' where a: "a = (k', v')" by (cases a)
  have "\<forall>x \<in> fst ` set (obj_insert k v m). k' < x" if "k' < k" using that Cons.prems unfolding obj_insert_keys by (auto simp: a)
  then show ?case using Cons by (fastforce simp: a)
qed simp

lemma obj_insert_get: "sorted_wrt (<) (map fst m) \<Longrightarrow> map_of (obj_insert k v m) j = (if j = k then Some v else map_of m j)"
  by (induction m) (auto dest: order.strict_trans)

lemma obj_insert_same: "sorted_wrt (<) (map fst m) \<Longrightarrow> map_of m k = Some v \<Longrightarrow> obj_insert k v m = m"
  by (induction m) (auto dest!: map_of_SomeD split: if_splits)

text \<open>A second \<^verbatim>\<open>convert\<close> changes nothing, and converting keeps every field but the hex text, the signature spellings and the version.\<close>

lemma convert_idempotent:
  assumes "sorted_wrt (<) (map fst obj)" "\<And>s. lowercase (lowercase s) = lowercase s"
  shows "convert_obj lowercase (convert_obj lowercase obj) = convert_obj lowercase obj"
    "k \<notin> {''cbor'', ''container_version'', ''sign1'', ''sign1_b64''} \<Longrightarrow> map_of (convert_obj lowercase obj) k = map_of obj k"
proof -
  define o1 where "o1 = (if map_of obj ''kind'' \<noteq> None \<and> map_of obj ''cbor'' \<noteq> None \<and> map_of obj ''container_version'' = None
     then obj_insert ''container_version'' (JNumber (PosInt (word_of_nat CONTAINER_VERSION))) obj else obj)"
  define o2 where "o2 = (case str_of_either (JObject o1) ''sign1'' ''sign1_b64'' of
     Some s \<Rightarrow> obj_insert ''sign1_b64'' (JString s) (obj_insert ''sign1'' (JString s) o1) | None \<Rightarrow> o1)"
  define o3 where "o3 = (case get_str (JObject o2) ''cbor'' of Some cbor \<Rightarrow> obj_insert ''cbor'' (JString (lowercase cbor)) o2 | None \<Rightarrow> o2)"
  have conv: "convert_obj lowercase obj = o3" 
    unfolding convert_obj_def Let_def o1_def [symmetric] o2_def [symmetric] o3_def [symmetric] ..
  have s1: "sorted_wrt (<) (map fst o1)" using assms(1) by (simp add: o1_def obj_insert_sorted)
  have s2: "sorted_wrt (<) (map fst o2)" using s1 by (simp add: o2_def obj_insert_sorted split: option.splits)
  have s3: "sorted_wrt (<) (map fst o3)" using s2 by (simp add: o3_def obj_insert_sorted split: option.splits)
  have get1: "map_of o1 j = map_of obj j" if "j \<noteq> ''container_version''" for j using that by (simp add: o1_def obj_insert_get [OF assms(1)])
  have get2: "map_of o2 j = map_of o1 j" if "j \<noteq> ''sign1''" "j \<noteq> ''sign1_b64''" for j
    using that by (simp add: o2_def obj_insert_get [OF obj_insert_sorted [OF s1]] obj_insert_get [OF s1] split: option.splits)
  have get3: "map_of o3 j = map_of o2 j" if "j \<noteq> ''cbor''" for j using that by (simp add: o3_def obj_insert_get [OF s2] split: option.splits)
  show "map_of (convert_obj lowercase obj) k = map_of obj k" if "k \<notin> {''cbor'', ''container_version'', ''sign1'', ''sign1_b64''}"
    using that get1 get2 get3 by (simp add: conv)
  have "map_of o1 ''kind'' = None \<or> map_of o1 ''cbor'' = None \<or> map_of o1 ''container_version'' \<noteq> None"
    by (auto simp: o1_def obj_insert_get [OF assms(1)])
  moreover have "map_of o3 ''cbor'' = None \<longleftrightarrow> map_of o2 ''cbor'' = None"
    by (cases "map_of o2 ''cbor''") (auto simp: o3_def obj_insert_get [OF s2] get_str_def split: option.splits)
  ultimately have v: "map_of o3 ''kind'' = None \<or> map_of o3 ''cbor'' = None \<or> map_of o3 ''container_version'' \<noteq> None"
    using get2 [of "''kind''"] get3 [of "''kind''"] get2 [of "''container_version''"] get3 [of "''container_version''"] get2 [of "''cbor''"] by simp
  have o2_sig: "map_of o2 ''sign1'' = Some (JString s) \<and> map_of o2 ''sign1_b64'' = Some (JString s)"
    if "str_of_either (JObject o1) ''sign1'' ''sign1_b64'' = Some s" for s
    using that by (simp add: o2_def obj_insert_get [OF obj_insert_sorted [OF s1]] obj_insert_get [OF s1])
  have "str_of_either (JObject o3) ''sign1'' ''sign1_b64'' = str_of_either (JObject o2) ''sign1'' ''sign1_b64''"
    unfolding str_of_either_def json_get.simps using get3 [of "''sign1''"] get3 [of "''sign1_b64''"] by (simp split: option.split)
  moreover have "str_of_either (JObject o2) ''sign1'' ''sign1_b64'' = str_of_either (JObject o1) ''sign1'' ''sign1_b64''"
    using o2_sig by (cases "str_of_either (JObject o1) ''sign1'' ''sign1_b64''") (simp_all add: o2_def str_of_either_def)
  ultimately have sig: "map_of o3 ''sign1'' = Some (JString s) \<and> map_of o3 ''sign1_b64'' = Some (JString s)"
    if "str_of_either (JObject o3) ''sign1'' ''sign1_b64'' = Some s" for s
    using o2_sig [of s] that get3 [of "''sign1''"] get3 [of "''sign1_b64''"] by simp
  have hex: "get_str (JObject o3) ''cbor'' = Some c \<Longrightarrow> map_of o3 ''cbor'' = Some (JString c) \<and> lowercase c = c" for c
    by (auto simp: o3_def get_str_def obj_insert_get [OF s2] assms(2) split: option.splits)
  have "(if map_of o3 ''kind'' \<noteq> None \<and> map_of o3 ''cbor'' \<noteq> None \<and> map_of o3 ''container_version'' = None
      then obj_insert ''container_version'' (JNumber (PosInt (word_of_nat CONTAINER_VERSION))) o3 else o3) = o3"
    using v by auto
  note a = this
  have b: "(case str_of_either (JObject o3) ''sign1'' ''sign1_b64'' of
      Some s \<Rightarrow> obj_insert ''sign1_b64'' (JString s) (obj_insert ''sign1'' (JString s) o3) | None \<Rightarrow> o3) = o3"
    using sig obj_insert_same [OF s3] by (cases "str_of_either (JObject o3) ''sign1'' ''sign1_b64''") simp_all
  have c: "(case get_str (JObject o3) ''cbor'' of Some cbor \<Rightarrow> obj_insert ''cbor'' (JString (lowercase cbor)) o3 | None \<Rightarrow> o3) = o3"
    using hex obj_insert_same [OF s3] by (cases "get_str (JObject o3) ''cbor''") simp_all
  have "convert_obj lowercase o3 = o3" unfolding convert_obj_def Let_def a b c ..
  then show "convert_obj lowercase (convert_obj lowercase obj) = convert_obj lowercase obj" by (simp add: conv)
qed

end
