(* ===== verification/Api.thy ===== *)
theory Api
  imports Cli_Commands
begin

text \<open>
  The request routing of the reference API, \<^verbatim>\<open>proof-api/src/api.rs\<close>: readers of the JSON request, the context
  they build, and the routes. A response is its status with the values its JSON document is rendered from; the texts of
  errors are not kept, so a reader that fails returns \<^verbatim>\<open>None\<close>. \<^verbatim>\<open>serde_json\<close> is a parameter, the socket loop of
  \<^verbatim>\<open>server.rs\<close> is not modelled.
\<close>

section \<open>Readers\<close>

definition api_hex_decode :: "string \<Rightarrow> bytes option" where
  "api_hex_decode s = (if length s mod 2 \<noteq> 0 \<or> \<not> list_all is_ascii_hexdigit s then None else hex_pairs s)"

definition api_b64u_decode :: "string \<Rightarrow> bytes option" where
  "api_b64u_decode s =
     (if list_ex (\<lambda>c. \<not> is_b64u_char c) s then None
      else case b64u_loop s 0 0 [] of
          None \<Rightarrow> None
        | Some (out, buf, bits) \<Rightarrow> if bits > 0 \<and> buf \<noteq> 0 then None else Some out)"

definition proof_of :: "base64_engine \<Rightarrow> bytes \<Rightarrow> limits \<Rightarrow> proof_package result" where
  "proof_of b64 bs l = bindR (decode_strict bs l) (\<lambda>value. cbor_to_proof b64 value l)"

definition proof_bytes :: "base64_engine \<Rightarrow> json \<Rightarrow> bytes option" where
  "proof_bytes b64 v =
     Option.bind (json_get v ''proof'') (\<lambda>pr.
     Option.bind (str_of_either pr ''cbor_hex'' ''cbor'') (\<lambda>hex.
     Option.bind (api_hex_decode hex) (\<lambda>bs.
     case str_of_either pr ''id'' ''proof_id'' of
       None \<Rightarrow> Some bs
     | Some claimed \<Rightarrow>
         (case bindR (decode_strict bs default_limits) (\<lambda>value. cbor_to_proof b64 value default_limits) of
            Inl _ \<Rightarrow> None
          | Inr p \<Rightarrow> if claimed \<noteq> prf_id p then None else Some bs))))"

definition u64_field :: "json \<Rightarrow> string \<Rightarrow> bool \<Rightarrow> u64 option option" where
  "u64_field v name needed =
     (case json_get v name of
        None \<Rightarrow> if needed then None else Some None
      | Some (JNumber n) \<Rightarrow> map_option Some (as_u64 n)
      | Some _ \<Rightarrow> None)"

definition str_list :: "json \<Rightarrow> string \<Rightarrow> string list option" where
  "str_list v name =
     (case json_get v name of
        None \<Rightarrow> Some []
      | Some (JArray items) \<Rightarrow> those (map json_str items)
      | Some _ \<Rightarrow> None)"

definition parse_status :: "base64_engine \<Rightarrow> hash_engine \<Rightarrow> sig_engine \<Rightarrow> json \<Rightarrow> signed_status option" where
  "parse_status b64 h e item =
     Option.bind (get_str item ''issuer'') (\<lambda>issuer.
     Option.bind (get_str item ''sign1_b64'') (\<lambda>sign1_b64.
     Option.bind (api_b64u_decode sign1_b64) (\<lambda>sign1.
     case verify_status_object b64 h e sign1 issuer AllowedAlgs_default default_limits of
       Inl _ \<Rightarrow> None
     | Inr content \<Rightarrow> Some \<lparr>ss_content = content, ss_sign1 = sign1\<rparr>)))"

definition parse_statuses :: "base64_engine \<Rightarrow> hash_engine \<Rightarrow> sig_engine \<Rightarrow> json \<Rightarrow> signed_status list option" where
  "parse_statuses b64 h e v =
     (case json_get v ''status'' of
        None \<Rightarrow> Some []
      | Some (JArray items) \<Rightarrow> those (map (parse_status b64 h e) items)
      | Some _ \<Rightarrow> None)"

definition bool_field :: "json \<Rightarrow> string \<Rightarrow> bool" where
  "bool_field v name = (case json_get v name of Some (JBool b) \<Rightarrow> b | _ \<Rightarrow> False)"

definition api_accepted_entry :: "json \<Rightarrow> vocabulary_accept option" where
  "api_accepted_entry entry =
     Option.bind (json_str entry) (\<lambda>s.
     Option.bind (split_once (CHR '':'') s) (\<lambda>(ns, max_text).
     if ns = [] then None
     else map_option (\<lambda>n. \<lparr>va_ns = ns, va_max_version = n\<rparr>) (parse_u64 (str_trim max_text))))"

definition api_accepted :: "json \<Rightarrow> vocabulary_accept list option" where
  "api_accepted v =
     (case json_get v ''accepted_vocab'' of
        None \<Rightarrow> Some []
      | Some (JArray items) \<Rightarrow> those (map api_accepted_entry items)
      | Some _ \<Rightarrow> None)"

definition context_from :: "base64_engine \<Rightarrow> hash_engine \<Rightarrow> sig_engine \<Rightarrow> json \<Rightarrow> verify_ctx option" where
  "context_from b64 h e v =
     (let production = bool_field v ''production'';
          allowed = AllowedAlgs_strict;
          allowed = (if bool_field v ''esp256'' then with_esp256 allowed else allowed);
          allowed = (if bool_field v ''historical'' \<or> bool_field v ''allow_deprecated'' then with_deprecated allowed else allowed)
      in Option.bind (api_accepted v) (\<lambda>accepted.
         Option.bind (u64_field v ''clock'' True) (\<lambda>clock.
         Option.bind (u64_field v ''skew'' False) (\<lambda>skew.
         Option.bind (str_list v ''trusted'') (\<lambda>trusted.
         Option.bind (parse_statuses b64 h e v) (\<lambda>statuses.
         Option.bind (str_list v ''authority'') (\<lambda>authorities.
         Option.bind (u64_field v ''revocations_known_at'' False) (\<lambda>known_at.
         Option.bind (str_list v ''extra_grounded'') (\<lambda>grounded.
         Some (VerifyCtx_default\<lparr>
           ctx_verified_at := (case clock of None \<Rightarrow> 0 | Some n \<Rightarrow> n),
           ctx_clock_skew_leeway := (case skew of None \<Rightarrow> 300 | Some n \<Rightarrow> n),
           ctx_trusted_issuers := trusted,
           ctx_status_objects := statuses,
           ctx_revocation_authorities := authorities,
           ctx_revocations_known_at := known_at,
           ctx_allowed_algs := allowed,
           ctx_report_all_failures := bool_field v ''report_all'',
           ctx_accepted_vocabularies := accepted,
           ctx_extra_grounded := grounded,
           ctx_require_acyclic_provenance := (bool_field v ''require_acyclic'' \<or> production),
           ctx_require_status_feed := (\<not> bool_field v ''no_require_status'')\<rparr>))))))))))"

definition currently_acceptable :: "verify_report \<Rightarrow> bool" where
  "currently_acceptable report =
     (if list_ex (\<lambda>l. lcr_status l = LSuperseded \<or> lcr_status l = LUnknown) (rep_lifecycle report) then False
      else if list_ex (\<lambda>x. esr_status x = ESuperseded \<or> esr_status x = EUnknown \<and> esr_hint_unverified x) (rep_evidence_status report)
      then False
      else True)"

section \<open>Routes\<close>

datatype api_body =
    ErrorBody
  | HealthBody
  | VersionBody
  | ReportBody verify_report bool
  | EvaluationBody verify_report policy_outcome bool bool bool
  | ManifestBody "string list" "nat list" bool

type_synonym response = "nat \<times> api_body"

text \<open>One record of an ingestion, to the id of its event.\<close>

definition record_str :: "json_obj \<Rightarrow> string \<Rightarrow> string option" where
  "record_str m name = (case Option.bind (map_of m name) json_str of Some s \<Rightarrow> if s = [] then None else Some s | None \<Rightarrow> None)"

definition record_field :: "string \<Rightarrow> (string \<times> meta_value) option" where
  "record_field pair =
     Option.bind (split_once (CHR ''='') pair) (\<lambda>(k, val).
     if k = [] \<or> val = [] then None else Some (k, MText val))"

definition record_meta :: "json_obj \<Rightarrow> (string \<times> meta_value) list option" where
  "record_meta m =
     (case map_of m ''meta'' of
        None \<Rightarrow> Some []
      | Some meta \<Rightarrow> Option.bind (json_str meta) (\<lambda>s. those (map record_field (split_on (\<lambda>c. c = CHR '','') s))))"

definition digest_alg :: "bytes \<Rightarrow> hash_algorithm option" where
  "digest_alg d = (if length d = 32 then Some Sha256 else if length d = 48 then Some Sha384 else None)"

definition ingest_record :: "base64_engine \<Rightarrow> hash_engine \<Rightarrow> json \<Rightarrow> string option" where
  "ingest_record b64 h v =
     (case v of
        JObject m \<Rightarrow>
          if list_ex (\<lambda>k. k \<notin> set [''type'', ''subject'', ''payload_hex'', ''effective_at'', ''meta'']) (map fst m) then None
          else
            Option.bind (Option.bind (map_of m ''payload_hex'') json_str) (\<lambda>hex.
            Option.bind (api_hex_decode hex) (\<lambda>digest.
            Option.bind (digest_alg digest) (\<lambda>alg.
            Option.bind (record_meta m) (\<lambda>metadata.
            Option.bind (record_str m ''type'') (\<lambda>event_type.
            Option.bind (record_str m ''subject'') (\<lambda>subject.
            Option.bind (case map_of m ''effective_at'' of Some (JNumber n) \<Rightarrow> as_u64 n | _ \<Rightarrow> None) (\<lambda>effective_at.
            case bindR (HashRef_new alg digest) (\<lambda>payload_ref.
                create_event b64 h \<lparr>ev_v = 1, ev_type = event_type, ev_subject = subject, ev_effective_at = effective_at,
                  ev_payload_ref = payload_ref, ev_metadata = metadata\<rparr> default_limits) of
              Inl _ \<Rightarrow> None
            | Inr created \<Rightarrow> Some (ce_id created))))))))
      | _ \<Rightarrow> None)"

text \<open>\<^verbatim>\<open>str::lines\<close>, whose lines are trimmed at once: carriage returns and the empty rest after the last newline go with the blanks.\<close>

fun ingest_loop ::
  "(string \<Rightarrow> string option) \<Rightarrow> bool \<Rightarrow> string list \<Rightarrow> nat \<Rightarrow> string list \<Rightarrow> nat list \<Rightarrow> (string list \<times> nat list) option" where
  "ingest_loop record_id skip_bad [] line_no ids skipped = Some (ids, skipped)"
| "ingest_loop record_id skip_bad (raw # rest) line_no ids skipped =
     (let line = str_trim raw
      in if line = [] then ingest_loop record_id skip_bad rest line_no ids skipped
         else case record_id line of
             Some i \<Rightarrow> ingest_loop record_id skip_bad rest (line_no + 1) (ids @ [i]) skipped
           | None \<Rightarrow>
               if skip_bad then ingest_loop record_id skip_bad rest (line_no + 1) ids (skipped @ [line_no + 1]) else None)"

definition ingest_route :: "platform \<Rightarrow> json \<Rightarrow> response" where
  "ingest_route pf v =
     (case get_str v ''records'' of
        None \<Rightarrow> (400, ErrorBody)
      | Some text \<Rightarrow>
          if length text > 8 * 1024 * 1024 then (400, ErrorBody)
          else case ingest_loop (\<lambda>line. Option.bind (pf_from_str pf line) (ingest_record (pf_b64 pf) (pf_hash pf)))
                 (bool_field v ''skip_bad'') (split_on (\<lambda>c. c = CHR 0x0A) text) 0 [] [] of
              None \<Rightarrow> (400, ErrorBody)
            | Some (ids, skipped) \<Rightarrow> (200, ManifestBody ids skipped (bool_field v ''dry_run'')))"

definition evaluate_route :: "platform \<Rightarrow> string \<Rightarrow> json \<Rightarrow> response option" where
  "evaluate_route pf where_to v =
     (case proof_bytes (pf_b64 pf) v of
        None \<Rightarrow> Some (400, ErrorBody)
      | Some bs \<Rightarrow>
     (case json_get v ''policy'' of
        None \<Rightarrow> Some (400, ErrorBody)
      | Some policy_doc \<Rightarrow>
     (case parse_policy (pf_b64 pf) policy_doc default_limits of
        Inl _ \<Rightarrow> Some (400, ErrorBody)
      | Inr policy \<Rightarrow>
     (case context_from (pf_b64 pf) (pf_hash pf) (pf_sig pf) v of
        None \<Rightarrow> Some (400, ErrorBody)
      | Some ctx \<Rightarrow>
     (case pf_verify pf bs ctx of
        None \<Rightarrow> None
      | Some (Inl _) \<Rightarrow> Some (422, ErrorBody)
      | Some (Inr report) \<Rightarrow>
     (case bindR (proof_of (pf_b64 pf) bs default_limits) (\<lambda>p. state_from_report_and_proof (pf_b64 pf) (pf_hash pf) report p) of
        Inl _ \<Rightarrow> Some (422, ErrorBody)
      | Inr state \<Rightarrow>
          (let revoked = (case str_list v ''revoked'' of None \<Rightarrow> [] | Some xs \<Rightarrow> xs);
               inputs = \<lparr>in_trusted_issuers = (case str_list v ''trusted'' of None \<Rightarrow> [] | Some xs \<Rightarrow> xs),
                 in_revocations = RevocationSet_new revoked, in_verified_at = ctx_verified_at ctx,
                 in_skew_leeway = ctx_clock_skew_leeway ctx\<rparr>
           in map_option (\<lambda>outcome.
                let strict = (bool_field v ''strict_current'' \<or> bool_field v ''production'');
                    acceptable = currently_acceptable report
                in (200, EvaluationBody report outcome acceptable (strict \<and> \<not> acceptable) (where_to = ''/v1/explain'')))
              (evaluate_policy state policy inputs))))))))"

definition route :: "platform \<Rightarrow> (bytes \<Rightarrow> json option) \<Rightarrow> string \<Rightarrow> string \<Rightarrow> bytes \<Rightarrow> response option" where
  "route pf from_slice meth where_to body =
     (if meth = ''GET'' then
        Some (if where_to = ''/v1/health'' then (200, HealthBody)
              else if where_to = ''/v1/version'' then (200, VersionBody)
              else (404, ErrorBody))
      else if meth \<noteq> ''POST'' then Some (405, ErrorBody)
      else case from_slice body of
          None \<Rightarrow> Some (400, ErrorBody)
        | Some v \<Rightarrow>
            if where_to = ''/v1/verify'' then
              (case proof_bytes (pf_b64 pf) v of
                 None \<Rightarrow> Some (400, ErrorBody)
               | Some bs \<Rightarrow>
                   (case context_from (pf_b64 pf) (pf_hash pf) (pf_sig pf) v of
                      None \<Rightarrow> Some (400, ErrorBody)
                    | Some ctx \<Rightarrow>
                        map_option (\<lambda>r. case r of
                            Inr report \<Rightarrow> (200, ReportBody report (currently_acceptable report))
                          | Inl _ \<Rightarrow> (422, ErrorBody)) (pf_verify pf bs ctx)))
            else if where_to = ''/v1/evaluate'' \<or> where_to = ''/v1/explain'' then evaluate_route pf where_to v
            else if where_to = ''/v1/ingest'' then Some (ingest_route pf v)
            else Some (404, ErrorBody))"

section \<open>Verification\<close>

lemma currently_acceptable_eq: "currently_acceptable report = is_currently_acceptable report"
  by (simp add: currently_acceptable_def is_currently_acceptable_def)

lemma context_from_fields:
  assumes "context_from b64 h e v = Some ctx"
  shows "ctx_limits ctx = default_limits" "\<not> ctx_allow_remote ctx" "str_list v ''trusted'' = Some (ctx_trusted_issuers ctx)"
  using assms by (auto simp: context_from_def Let_def Option.bind_eq_Some_conv VerifyCtx_default_def)

lemma case_sum_Some: "(case r of Inl _ \<Rightarrow> None | Inr x \<Rightarrow> f x) = Some y \<longleftrightarrow> (\<exists>x. r = Inr x \<and> f x = Some y)"
  by (cases r) auto

lemma report_response:
  "map_option (\<lambda>r. case r of Inr report \<Rightarrow> (200, ReportBody report (currently_acceptable report)) | Inl _ \<Rightarrow> (422, ErrorBody)) m
     = Some (200 :: nat, ReportBody rep acc) \<longleftrightarrow> m = Some (Inr rep) \<and> acc = currently_acceptable rep"
  by (cases m) (auto split: sum.splits)

lemma proof_bytes_named:
  assumes "proof_bytes b64 v = Some bs" "json_get v ''proof'' = Some pr" "str_of_either pr ''id'' ''proof_id'' = Some i"
  shows "\<exists>p. parse_proof b64 bs default_limits = Inr p \<and> prf_id p = i"
  using assms by (auto simp: proof_bytes_def parse_proof_def Option.bind_eq_Some_conv case_sum_Some split: if_splits)

text \<open>
  C31. A report that \<^verbatim>\<open>/v1/verify\<close> returns for a request that names a proof id is about that proof: the bytes parse to a
  package with this id, the report carries it, it is the id recomputed from the package whenever the report says
  cryptographically valid, and the currency verdict is the one the command line computes.
\<close>

theorem report_about_named_proof:
  assumes "b64_law (pf_b64 pf)" "hash_iter (pf_iter pf)"
    and "route pf from_slice ''POST'' ''/v1/verify'' body = Some (200, ReportBody rep acc)"
    and "from_slice body = Some v" "json_get v ''proof'' = Some pr" "str_of_either pr ''id'' ''proof_id'' = Some i"
  shows "\<exists>bs p. proof_bytes (pf_b64 pf) v = Some bs \<and> parse_proof (pf_b64 pf) bs default_limits = Inr p \<and> prf_id p = i
    \<and> rep_proof_id rep = Some i \<and> (rep_cryptographic_validity rep = Valid \<longrightarrow> bound_id (pf_b64 pf) (pf_hash pf) p = i)
    \<and> acc = is_currently_acceptable rep"
proof -
  obtain bs ctx where bs: "proof_bytes (pf_b64 pf) v = Some bs" "context_from (pf_b64 pf) (pf_hash pf) (pf_sig pf) v = Some ctx"
      "pf_verify pf bs ctx = Some (Inr rep)" "acc = currently_acceptable rep"
    using assms(3,4) by (auto simp: route_def report_response simp del: map_option_eq_Some split: option.splits)
  obtain p where p: "parse_proof (pf_b64 pf) bs default_limits = Inr p" "prf_id p = i"
    using proof_bytes_named [OF bs(1) assms(5,6)] by blast
  have rep: "rep = report_on (pf_b64 pf) (pf_hash pf) (pf_sig pf) (pf_iter pf) ctx p"
    using verify_proof_Inr(2) [OF assms(2) bs(3) [unfolded pf_verify_def]] p(1) context_from_fields(1) [OF bs(2)] by simp
  have "rep_proof_id rep = Some i" using p(2) unfolding rep by (simp add: report_on_def full_report_def finalize_fields)
  moreover have "rep_cryptographic_validity rep = Valid \<longrightarrow> bound_id (pf_b64 pf) (pf_hash pf) p = i"
    using p(2) unfolding rep crypto_on [OF assms(1)] by simp
  ultimately show ?thesis using bs p currently_acceptable_eq by auto
qed

section \<open>Evaluation\<close>

definition vc_of_ctx :: "verify_ctx \<Rightarrow> verification_context" where
  "vc_of_ctx ctx =
     \<lparr>vc_verified_at = ctx_verified_at ctx, vc_clock_skew_leeway = ctx_clock_skew_leeway ctx, vc_allowed_algs = ctx_allowed_algs ctx,
      vc_trusted_issuers = ctx_trusted_issuers ctx, vc_revocation_authorities = ctx_revocation_authorities ctx,
      vc_status_objects = ctx_status_objects ctx, vc_revocations_known_at = ctx_revocations_known_at ctx, vc_limits = ctx_limits ctx,
      vc_allow_remote = ctx_allow_remote ctx, vc_report_all_failures = ctx_report_all_failures ctx,
      vc_accepted_vocabularies = ctx_accepted_vocabularies ctx, vc_extra_grounded = ctx_extra_grounded ctx,
      vc_require_acyclic_provenance = ctx_require_acyclic_provenance ctx, vc_require_status_feed = ctx_require_status_feed ctx\<rparr>"

lemma vc_of_ctx_inverse [simp]: "to_verify_ctx (vc_of_ctx ctx) = ctx"
  by (simp add: to_verify_ctx_def vc_of_ctx_def)

text \<open>The denylist the policy sees: a \<^verbatim>\<open>revoked\<close> field that is no array of strings counts as none.\<close>

definition denylist :: "json \<Rightarrow> revocation_set" where
  "denylist v = RevocationSet_new (case str_list v ''revoked'' of None \<Rightarrow> [] | Some xs \<Rightarrow> xs)"

lemma evaluation_steps:
  assumes "context_from (pf_b64 pf) (pf_hash pf) (pf_sig pf) v = Some ctx"
    and "card (rs_revoked (denylist v)) \<le> max_status_objects default_limits"
  shows "verify_and_evaluate (pf_b64 pf) (pf_hash pf) (pf_sig pf) (pf_iter pf) bs (vc_of_ctx ctx) policy (denylist v) = Some (Inr d) \<longleftrightarrow>
    (\<exists>p. proof_of (pf_b64 pf) bs default_limits = Inr p \<and> pf_verify pf bs ctx = Some (Inr (vd_report d))
      \<and> state_from_report_and_proof (pf_b64 pf) (pf_hash pf) (vd_report d) p = Inr (vd_state d)
      \<and> evaluate_policy (vd_state d) policy \<lparr>in_trusted_issuers = ctx_trusted_issuers ctx, in_revocations = denylist v,
          in_verified_at = ctx_verified_at ctx, in_skew_leeway = ctx_clock_skew_leeway ctx\<rparr> = Some (vd_outcome d))"
proof (cases "parse_proof (pf_b64 pf) bs default_limits")
  case (Inr p)
  have lim: "vc_limits (vc_of_ctx ctx) = default_limits" using context_from_fields(1) [OF assms(1)] by (simp add: vc_of_ctx_def)
  have inputs: "(EvalInputs_from (vc_of_ctx ctx))\<lparr>in_revocations := denylist v\<rparr> = \<lparr>in_trusted_issuers = ctx_trusted_issuers ctx,
      in_revocations = denylist v, in_verified_at = ctx_verified_at ctx, in_skew_leeway = ctx_clock_skew_leeway ctx\<rparr>"
    by (simp add: EvalInputs_from_def vc_of_ctx_def)
  show ?thesis
    using one_shot_steps [of "pf_b64 pf" bs "vc_of_ctx ctx" p "denylist v", unfolded lim inputs vc_of_ctx_inverse, OF Inr assms(2)] Inr
    by (simp add: proof_of_def parse_proof_def pf_verify_def)
next
  case (Inl code)
  then have dec: "bindR (decode_strict bs default_limits) (\<lambda>v. bindR (cbor_to_proof (pf_b64 pf) v default_limits) F) = Inl code"
    for F :: "proof_package \<Rightarrow> verified_state result"
    by (cases "decode_strict bs default_limits") (auto simp: parse_proof_def)
  have "vc_limits (vc_of_ctx ctx) = default_limits" using context_from_fields(1) [OF assms(1)] by (simp add: vc_of_ctx_def)
  then have "verify_and_evaluate (pf_b64 pf) (pf_hash pf) (pf_sig pf) (pf_iter pf) bs (vc_of_ctx ctx) policy (denylist v) \<noteq> Some (Inr d)"
    by (auto simp: verify_and_evaluate_def dec Option.bind_eq_Some_conv split: if_splits sum.splits)
  then show ?thesis using Inl by (simp add: proof_of_def parse_proof_def)
qed

lemma evaluate_route_200:
  "evaluate_route pf where_to v = Some (200, body) \<longleftrightarrow>
     (\<exists>bs doc policy ctx report p state outcome. proof_bytes (pf_b64 pf) v = Some bs \<and> json_get v ''policy'' = Some doc
       \<and> parse_policy (pf_b64 pf) doc default_limits = Inr policy \<and> context_from (pf_b64 pf) (pf_hash pf) (pf_sig pf) v = Some ctx
       \<and> pf_verify pf bs ctx = Some (Inr report) \<and> proof_of (pf_b64 pf) bs default_limits = Inr p
       \<and> state_from_report_and_proof (pf_b64 pf) (pf_hash pf) report p = Inr state
       \<and> evaluate_policy state policy \<lparr>in_trusted_issuers = ctx_trusted_issuers ctx, in_revocations = denylist v,
            in_verified_at = ctx_verified_at ctx, in_skew_leeway = ctx_clock_skew_leeway ctx\<rparr> = Some outcome
       \<and> body = EvaluationBody report outcome (is_currently_acceptable report)
            ((bool_field v ''strict_current'' \<or> bool_field v ''production'') \<and> \<not> is_currently_acceptable report) (where_to = ''/v1/explain''))"
  (is "?run \<longleftrightarrow> ?steps")
proof
  assume ?run
  then show ?steps
    by (auto simp: evaluate_route_def denylist_def currently_acceptable_eq Let_def bindR_Inr_iff dest: context_from_fields(3)
        split: option.splits sum.splits)
next
  assume ?steps
  then obtain bs doc policy ctx report p state outcome where
    s: "proof_bytes (pf_b64 pf) v = Some bs" "json_get v ''policy'' = Some doc" "parse_policy (pf_b64 pf) doc default_limits = Inr policy"
      "context_from (pf_b64 pf) (pf_hash pf) (pf_sig pf) v = Some ctx" "pf_verify pf bs ctx = Some (Inr report)"
      "proof_of (pf_b64 pf) bs default_limits = Inr p" "state_from_report_and_proof (pf_b64 pf) (pf_hash pf) report p = Inr state"
      "evaluate_policy state policy \<lparr>in_trusted_issuers = ctx_trusted_issuers ctx, in_revocations = denylist v,
            in_verified_at = ctx_verified_at ctx, in_skew_leeway = ctx_clock_skew_leeway ctx\<rparr> = Some outcome"
      "body = EvaluationBody report outcome (is_currently_acceptable report)
         ((bool_field v ''strict_current'' \<or> bool_field v ''production'') \<and> \<not> is_currently_acceptable report) (where_to = ''/v1/explain'')"
    by blast
  then show ?run
    using context_from_fields(3) [OF s(4)] by (simp add: evaluate_route_def denylist_def currently_acceptable_eq Let_def)
qed

lemma evaluation_steps_ex:
  assumes "context_from (pf_b64 pf) (pf_hash pf) (pf_sig pf) v = Some ctx"
    and "card (rs_revoked (denylist v)) \<le> max_status_objects default_limits"
  shows "(\<exists>d. verify_and_evaluate (pf_b64 pf) (pf_hash pf) (pf_sig pf) (pf_iter pf) bs (vc_of_ctx ctx) policy (denylist v) = Some (Inr d)
       \<and> rep = vd_report d \<and> outcome = vd_outcome d) \<longleftrightarrow>
     (\<exists>p state. proof_of (pf_b64 pf) bs default_limits = Inr p \<and> pf_verify pf bs ctx = Some (Inr rep)
       \<and> state_from_report_and_proof (pf_b64 pf) (pf_hash pf) rep p = Inr state
       \<and> evaluate_policy state policy \<lparr>in_trusted_issuers = ctx_trusted_issuers ctx, in_revocations = denylist v,
            in_verified_at = ctx_verified_at ctx, in_skew_leeway = ctx_clock_skew_leeway ctx\<rparr> = Some outcome)"
  (is "?one_shot \<longleftrightarrow> ?steps")
proof
  assume ?one_shot
  then show ?steps unfolding evaluation_steps [OF assms] by blast
next
  assume ?steps
  then obtain p state where "proof_of (pf_b64 pf) bs default_limits = Inr p" "pf_verify pf bs ctx = Some (Inr rep)"
      "state_from_report_and_proof (pf_b64 pf) (pf_hash pf) rep p = Inr state"
      "evaluate_policy state policy \<lparr>in_trusted_issuers = ctx_trusted_issuers ctx, in_revocations = denylist v,
            in_verified_at = ctx_verified_at ctx, in_skew_leeway = ctx_clock_skew_leeway ctx\<rparr> = Some outcome"
    by blast
  then show ?one_shot unfolding evaluation_steps [OF assms]
    by (intro exI [of _ "\<lparr>vd_report = rep, vd_state = state, vd_outcome = outcome\<rparr>"]) simp
qed

text \<open>
  C32. \<^verbatim>\<open>/v1/evaluate\<close> and \<^verbatim>\<open>/v1/explain\<close> are the one-shot verification of the library: with a denylist within the
  limit, they answer 200 exactly if the request reads as bytes, policy and context and the one-shot call on these returns,
  and the answer carries its report and outcome, the currency verdict of the command line, and a currency failure
  exactly if a strict mode was asked for and the report is not currently acceptable.
\<close>

theorem evaluate_route_is_one_shot:
  assumes "from_slice body = Some v" "where_to \<in> {''/v1/evaluate'', ''/v1/explain''}"
    and "card (rs_revoked (denylist v)) \<le> max_status_objects default_limits"
  shows "route pf from_slice ''POST'' where_to body = Some (200, EvaluationBody rep outcome acc currency_fail explained) \<longleftrightarrow>
    (\<exists>bs doc policy ctx d. proof_bytes (pf_b64 pf) v = Some bs \<and> json_get v ''policy'' = Some doc
       \<and> parse_policy (pf_b64 pf) doc default_limits = Inr policy \<and> context_from (pf_b64 pf) (pf_hash pf) (pf_sig pf) v = Some ctx
       \<and> verify_and_evaluate (pf_b64 pf) (pf_hash pf) (pf_sig pf) (pf_iter pf) bs (vc_of_ctx ctx) policy (denylist v) = Some (Inr d)
       \<and> rep = vd_report d \<and> outcome = vd_outcome d \<and> acc = is_currently_acceptable rep
       \<and> currency_fail = ((bool_field v ''strict_current'' \<or> bool_field v ''production'') \<and> \<not> acc)
       \<and> explained = (where_to = ''/v1/explain''))"
  (is "?run \<longleftrightarrow> ?one_shot")
proof -
  have r: "route pf from_slice ''POST'' where_to body = evaluate_route pf where_to v"
    using assms(1,2) by (auto simp: route_def)
  have "?run \<longleftrightarrow> (\<exists>bs doc policy ctx. proof_bytes (pf_b64 pf) v = Some bs \<and> json_get v ''policy'' = Some doc
       \<and> parse_policy (pf_b64 pf) doc default_limits = Inr policy \<and> context_from (pf_b64 pf) (pf_hash pf) (pf_sig pf) v = Some ctx
       \<and> (\<exists>p state. proof_of (pf_b64 pf) bs default_limits = Inr p \<and> pf_verify pf bs ctx = Some (Inr rep)
         \<and> state_from_report_and_proof (pf_b64 pf) (pf_hash pf) rep p = Inr state
         \<and> evaluate_policy state policy \<lparr>in_trusted_issuers = ctx_trusted_issuers ctx, in_revocations = denylist v,
              in_verified_at = ctx_verified_at ctx, in_skew_leeway = ctx_clock_skew_leeway ctx\<rparr> = Some outcome)
       \<and> acc = is_currently_acceptable rep
       \<and> currency_fail = ((bool_field v ''strict_current'' \<or> bool_field v ''production'') \<and> \<not> acc)
       \<and> explained = (where_to = ''/v1/explain''))"
    unfolding r evaluate_route_200 by auto
  also have "\<dots> \<longleftrightarrow> (\<exists>bs doc policy ctx. proof_bytes (pf_b64 pf) v = Some bs \<and> json_get v ''policy'' = Some doc
       \<and> parse_policy (pf_b64 pf) doc default_limits = Inr policy \<and> context_from (pf_b64 pf) (pf_hash pf) (pf_sig pf) v = Some ctx
       \<and> (\<exists>d. verify_and_evaluate (pf_b64 pf) (pf_hash pf) (pf_sig pf) (pf_iter pf) bs (vc_of_ctx ctx) policy (denylist v) = Some (Inr d)
         \<and> rep = vd_report d \<and> outcome = vd_outcome d)
       \<and> acc = is_currently_acceptable rep
       \<and> currency_fail = ((bool_field v ''strict_current'' \<or> bool_field v ''production'') \<and> \<not> acc)
       \<and> explained = (where_to = ''/v1/explain''))"
    by (intro ex_cong1 conj_cong refl evaluation_steps_ex [OF _ assms(3), symmetric])
  also have "\<dots> \<longleftrightarrow> ?one_shot" by blast
  finally show ?thesis .
qed

section \<open>Ingestion\<close>

definition record_lines :: "string \<Rightarrow> string list" where
  "record_lines text = filter (\<lambda>l. l \<noteq> []) (map str_trim (split_on (\<lambda>c. c = CHR 0x0A) text))"

lemma ingest_loop_eq:
  "ingest_loop f skip_bad raws n ids skipped =
     (let ls = filter (\<lambda>l. l \<noteq> []) (map str_trim raws)
      in if skip_bad \<or> (\<forall>l \<in> set ls. f l \<noteq> None)
         then Some (ids @ List.map_filter f ls, skipped @ map fst (filter (\<lambda>(i, l). f l = None) (enumerate (n + 1) ls)))
         else None)"
  by (induction raws arbitrary: n ids skipped) (auto simp: Let_def map_filter_simps enumerate_simps split: option.splits)

lemma ingest_loop_lines:
  "ingest_loop f skip_bad (split_on (\<lambda>c. c = CHR 0x0A) input_text) 0 [] [] =
     (if skip_bad \<or> (\<forall>l \<in> set (record_lines input_text). f l \<noteq> None)
      then Some (List.map_filter f (record_lines input_text),
             map fst (filter (\<lambda>(i, l). f l = None) (enumerate 1 (record_lines input_text))))
      else None)"
  by (simp only: ingest_loop_eq record_lines_def Let_def append_Nil add_0)

lemma ingested_id_verifies:
  assumes "b64_law b64" "sha256_law h" "ingest_record b64 h v = Some i"
  shows "\<exists>bs content. verify_event b64 h bs (Some i) default_limits = Inr (content, i)"
proof -
  obtain content created where c: "create_event b64 h content default_limits = Inr created" "i = ce_id created"
    using assms(3) by (auto simp: ingest_record_def Option.bind_eq_Some_conv bindR_Inr_iff case_sum_Some split: json.splits if_splits)
  then have "verify_event b64 h (ce_canonical created) (Some i) default_limits = Inr (content, i)"
    using verify_id_eq [OF assms(1,2)]
    by (auto simp: create_event_def verify_event_def check_expected_id_def event_id_def Let_def result_iff split: if_splits)
  then show ?thesis by blast
qed

text \<open>
  \<^verbatim>\<open>/v1/ingest\<close> accounts for every record: within the size cap it answers 200 with the ids of the good lines in order
  and the numbers of the bad ones among the lines that are not blank, or 400 if there is a bad line and skipping was not asked
  for. Every id names an event that verifies under it.
\<close>

theorem ingest_accounts_for_every_line:
  assumes "b64_law (pf_b64 pf)" "sha256_law (pf_hash pf)" "from_slice body = Some v"
    and "get_str v ''records'' = Some input_text" "length input_text \<le> 8 * 1024 * 1024"
    and id_of: "id_of = (\<lambda>line. Option.bind (pf_from_str pf line) (ingest_record (pf_b64 pf) (pf_hash pf)))"
  shows "route pf from_slice ''POST'' ''/v1/ingest'' body =
      Some (if bool_field v ''skip_bad'' \<or> (\<forall>l \<in> set (record_lines input_text). id_of l \<noteq> None)
            then (200, ManifestBody (List.map_filter id_of (record_lines input_text))
                   (map fst (filter (\<lambda>(n, l). id_of l = None) (enumerate 1 (record_lines input_text)))) (bool_field v ''dry_run''))
            else (400, ErrorBody))
    \<and> (\<forall>l i. id_of l = Some i \<longrightarrow> (\<exists>bs content. verify_event (pf_b64 pf) (pf_hash pf) bs (Some i) default_limits = Inr (content, i)))"
proof
  show "\<forall>l i. id_of l = Some i \<longrightarrow> (\<exists>bs content. verify_event (pf_b64 pf) (pf_hash pf) bs (Some i) default_limits = Inr (content, i))"
    using ingested_id_verifies [OF assms(1,2)] by (auto simp: id_of Option.bind_eq_Some_conv)
  show "route pf from_slice ''POST'' ''/v1/ingest'' body =
      Some (if bool_field v ''skip_bad'' \<or> (\<forall>l \<in> set (record_lines input_text). id_of l \<noteq> None)
            then (200, ManifestBody (List.map_filter id_of (record_lines input_text))
                   (map fst (filter (\<lambda>(n, l). id_of l = None) (enumerate 1 (record_lines input_text)))) (bool_field v ''dry_run''))
            else (400, ErrorBody))"
    using assms(3-5) ingest_loop_lines [of id_of "bool_field v ''skip_bad''" input_text]
    by (simp add: route_def ingest_route_def flip: id_of)
qed

theorem ingest_accounts_for_every_line_witness:
  "route demo_platform (\<lambda>_. Some (JObject [(''records'', JString ''x''), (''skip_bad'', JBool True)])) ''POST'' ''/v1/ingest'' []
     = Some (200, ManifestBody [] [1] False)"
proof -
  let ?v = "JObject [(''records'', JString ''x''), (''skip_bad'', JBool True)]"
  have none: "pf_from_str demo_platform ''x'' = None" by (simp add: demo_platform_def demo_from_str_def store_of_text_def)
  have lines: "record_lines ''x'' = [''x'']" by (simp add: record_lines_def) code_simp
  have "b64_law (pf_b64 demo_platform)" "sha256_law (pf_hash demo_platform)" using engine_laws by (simp_all add: demo_platform_def)
  note ingest_accounts_for_every_line [OF this, of "\<lambda>_. Some ?v" "[]" ?v "''x''", OF refl _ _ refl]
  then show ?thesis by (simp add: lines none get_str_def bool_field_def map_filter_simps enumerate_simps)
qed

section \<open>Witnesses\<close>

definition demo_request :: json where
  "demo_request = JObject [
     (''proof'', JObject [(''cbor_hex'', JString (hex_of demo_bytes)), (''id'', JString (prf_id demo_package))]),
     (''policy'', policy_json demo_policy), (''clock'', JNumber (PosInt 100)), (''revocations_known_at'', JNumber (PosInt 90)),
     (''no_require_status'', JBool True), (''strict_current'', JBool True)]"

lemma demo_request_reads:
  "proof_bytes plain_b64 demo_request = Some demo_bytes" "context_from b64 h e demo_request = Some demo_ctx"
  "json_get demo_request ''policy'' = Some (policy_json demo_policy)" "denylist demo_request = RevocationSet_empty"
  "bool_field demo_request ''strict_current''"
proof -
  have "api_hex_decode (hex_of demo_bytes) = Some demo_bytes"
  proof -
    have "set HEX_TABLE \<subseteq> set ''0123456789abcdefABCDEF''" by (simp add: HEX_TABLE_def)
    then have "list_all is_ascii_hexdigit (hex_of demo_bytes)"
      unfolding list_all_iff is_ascii_hexdigit_def using hex_of_chars(1) by blast
    then show ?thesis using hex_pairs_hex_of hex_of_chars(2) [of demo_bytes] by (simp add: api_hex_decode_def)
  qed
  then show "proof_bytes plain_b64 demo_request = Some demo_bytes"
    using demo_parses by (simp add: proof_bytes_def demo_request_def str_of_either_def parse_proof_def)
  show "context_from b64 h e demo_request = Some demo_ctx"
    by (simp add: context_from_def demo_request_def bool_field_def api_accepted_def u64_field_def str_list_def parse_statuses_def Let_def
        demo_ctx_def VerifyCtx_default_def)
  show "json_get demo_request ''policy'' = Some (policy_json demo_policy)" "denylist demo_request = RevocationSet_empty"
    "bool_field demo_request ''strict_current''"
    by (simp_all add: demo_request_def denylist_def str_list_def RevocationSet_new_def RevocationSet_empty_def bool_field_def)
qed

theorem report_about_named_proof_witness:
  "\<exists>rep. route demo_platform (\<lambda>_. Some demo_request) ''POST'' ''/v1/verify'' [] = Some (200, ReportBody rep True)
     \<and> rep_proof_id rep = Some (prf_id demo_package) \<and> bound_id plain_b64 zero_hash demo_package = prf_id demo_package"
proof -
  let ?rep = "report_on plain_b64 zero_hash plain_sig remdups demo_ctx demo_package"
  have run: "route demo_platform (\<lambda>_. Some demo_request) ''POST'' ''/v1/verify'' [] = Some (200, ReportBody ?rep True)"
    using demo_report [OF demo_ctx_simps(1,3)] demo_acceptable
    by (simp add: route_def demo_request_reads demo_fields pf_verify_def currently_acceptable_eq)
  have named: "json_get demo_request ''proof'' = Some (JObject [(''cbor_hex'', JString (hex_of demo_bytes)), (''id'', JString (prf_id demo_package))])"
    "str_of_either (JObject [(''cbor_hex'', JString (hex_of demo_bytes)), (''id'', JString (prf_id demo_package))]) ''id'' ''proof_id''
      = Some (prf_id demo_package)"
    by (simp_all add: demo_request_def str_of_either_def)
  from report_about_named_proof [of demo_platform, unfolded demo_fields, OF engine_laws(1) hash_iter_remdups run refl named]
  show ?thesis using run demo_crypto demo_parses by (auto simp: demo_request_reads)
qed

theorem evaluate_route_is_one_shot_witness:
  "\<exists>rep outcome. route demo_platform (\<lambda>_. Some demo_request) ''POST'' ''/v1/evaluate'' []
     = Some (200, EvaluationBody rep outcome True False False) \<and> out_decision outcome = Pass"
proof -
  obtain d where d: "verify_and_evaluate plain_b64 zero_hash plain_sig remdups demo_bytes demo_vc demo_policy RevocationSet_empty = Some (Inr d)"
      "out_decision (vd_outcome d) = Pass"
    using demo_pass by blast
  have vc: "vc_of_ctx demo_ctx = demo_vc"
    by (simp add: vc_of_ctx_def demo_ctx_def demo_vc_def VerifyCtx_default_def VerificationContext_default_def)
  have acc: "is_currently_acceptable (vd_report d)" using demo_decision_report [OF d(1)] demo_acceptable by simp
  have "route demo_platform (\<lambda>_. Some demo_request) ''POST'' ''/v1/evaluate'' []
      = Some (200, EvaluationBody (vd_report d) (vd_outcome d) True False False)"
    using evaluate_route_is_one_shot [of "\<lambda>_. Some demo_request" "[]" demo_request "''/v1/evaluate''" demo_platform
        "vd_report d" "vd_outcome d" True False False] d(1) acc demo_policy_parses
    by (simp add: demo_request_reads demo_fields vc RevocationSet_empty_def)
  then show ?thesis using d(2) by blast
qed

end
