(* ===== verification/Spec2Isabelle.thy ===== *)
theory Spec2Isabelle
  imports Cbor Graph Schema Ids Search Store Eval Build Verdict Status_Feed Binding Decision
    Resolve Builder Scitt Cli_Args Cli_Io Cli_Commands Cli_Make Cli_Port Api
begin

text \<open>
  A verification library for the Proof Engine (\<^verbatim>\<open>src/crates\<close>), an offline verifier of portable proof
  packages.

  \<^bold>\<open>The program.\<close> A proof package is one deterministic CBOR document: a proposition, events,
  signed attestations, evidence items named by digest, and typed relationships between them. The
  verifier decodes the bytes strictly, reads them through closed schemas, recomputes
  every id, verifies the COSE signatures, checks timeliness against the caller's clock, applies
  signed status objects (revoke, supersede, withdraw, compromise) that are embedded or
  supplied by the caller, checks evidence bindings and the graph, and reports two validities with a
  record per check. A policy is then evaluated over a projection of that report. The crates depend on each other in this
  order: proof-core, proof-format, proof-graph and proof-crypto, proof-verify, proof-policy. Around them stand two front
  ends, the command line proof-cli, which reads and writes JSON files that wrap the CBOR bytes, and the HTTP routes of proof-api.

  \<^bold>\<open>Theories and sources.\<close>
  \<^item> \<open>Prelude\<close>: results as sums (\<open>bindR\<close> is the question mark operator), loops that stop at the first
    error, Rust strings as byte strings, saturating 64-bit arithmetic, shared collections of lemmas.
  \<^item> \<open>Core\<close>: \<^verbatim>\<open>proof-core\<close> (error codes, hash references, limits, the data model).
  \<^item> \<open>Interfaces\<close>: the contracts of canonical codecs and of record schemas as locales, with the lemmas of their clients.
  \<^item> \<open>Cbor\<close>: \<^verbatim>\<open>proof-format/src/cbor.rs\<close>; \<open>Schema\<close>: \<^verbatim>\<open>schema.rs\<close>; \<open>Store\<close>: \<^verbatim>\<open>store.rs\<close>,
    \<^verbatim>\<open>envelope.rs\<close>, \<^verbatim>\<open>bundle.rs\<close>.
  \<^item> \<open>Graph\<close>: \<^verbatim>\<open>proof-graph/src/lib.rs\<close>.
  \<^item> \<open>Ids\<close>: \<^verbatim>\<open>proof-crypto\<close> \<^verbatim>\<open>id.rs\<close>, \<^verbatim>\<open>hash.rs\<close>, \<^verbatim>\<open>claim.rs\<close>; \<open>Cose\<close>: \<^verbatim>\<open>alg.rs\<close>, \<^verbatim>\<open>keys.rs\<close>,
    \<^verbatim>\<open>cose.rs\<close>; \<open>Build\<close>: \<^verbatim>\<open>build.rs\<close>, \<^verbatim>\<open>envelope.rs\<close>.
  \<^item> \<open>Policy\<close>, \<open>Policy_Parse\<close>: \<^verbatim>\<open>proof-policy\<close> \<^verbatim>\<open>policy.rs\<close>, \<^verbatim>\<open>expr.rs\<close>; \<open>State\<close>: \<^verbatim>\<open>state.rs\<close>;
    \<open>Search\<close> and \<open>Eval\<close>: \<^verbatim>\<open>eval.rs\<close>; \<open>Decision\<close>: \<^verbatim>\<open>combine.rs\<close>.
  \<^item> \<open>Report\<close>: \<^verbatim>\<open>proof-verify/src/report.rs\<close>; \<open>Pipeline\<close>: \<^verbatim>\<open>pipeline.rs\<close>, \<^verbatim>\<open>context.rs\<close>,
    \<^verbatim>\<open>status.rs\<close>, one definition per stage of \<^verbatim>\<open>verify_proof\<close>.
  \<^item> \<open>Verdict\<close>, \<open>Status_Feed\<close>, \<open>Binding\<close>: no new code, what a report means.
  \<^item> \<open>Resolve\<close>: \<^verbatim>\<open>proof-verify/src/resolve.rs\<close> and \<^verbatim>\<open>batch.rs\<close>; \<open>Builder\<close>: \<^verbatim>\<open>builder.rs\<close>; \<open>Scitt\<close>: the adapter
    \<^verbatim>\<open>proof-adapter-scitt\<close>.
  \<^item> \<open>Cli_Args\<close>: the argument parser and accessors of \<^verbatim>\<open>proof-cli/src/lib.rs\<close>; \<open>Cli_Io\<close>: its readers and the loaders of
    \<^verbatim>\<open>artifact.rs\<close> and \<^verbatim>\<open>check.rs\<close>; \<open>Cli_Commands\<close>: \<^verbatim>\<open>verify\<close>, \<^verbatim>\<open>batch-verify\<close>, \<^verbatim>\<open>evaluate\<close> and \<^verbatim>\<open>explain\<close> of \<^verbatim>\<open>make.rs\<close> with the
    replay store of \<^verbatim>\<open>seen.rs\<close>; \<open>Cli_Make\<close>: the writers of \<^verbatim>\<open>artifact.rs\<close>, \<^verbatim>\<open>build\<close> of \<^verbatim>\<open>make.rs\<close> and \<^verbatim>\<open>ingest.rs\<close>;
    \<open>Cli_Port\<close>: \<^verbatim>\<open>port.rs\<close> (export, import, convert, compose, resolve) and the directory store of \<^verbatim>\<open>store.rs\<close>.
  \<^item> \<open>Api\<close>: the routes of \<^verbatim>\<open>proof-api/src/api.rs\<close>.

  \<^bold>\<open>What is shown.\<close> Codec: the strict decoder accepts exactly the canonical encodings, so the check by re-encoding is
  redundant and bytes determine values. Schemas: reading from bytes succeeds exactly on the encoding of an admissible record.
  Ids: ids bind every part and kinds never collide. Graph: the searches terminate for every order in which a hash set is iterated and decide acyclicity;
  validation accepts a declarative set of graphs. Signatures: acceptance is characterised,
  signing round trips, the signed message determines algorithm, key, domain and payload. Builders: what they build
  verifies and has the requested effect, exactly if it fits. Policies: the parser accepts exactly the
  documents of the schema and reads each as the policy it spells, bytes determine policies, evaluation refines a semantics over sets and
  relations. Verifier: it always reports; validity of a report is characterised by the bytes and the signatures; valid evidence
  is timely, in force, bound and acyclic; revocation takes effect and only the entitled can end
  a statement; a useless status object changes nothing. Around the verifier: resolution over a store ends also on cyclic references and is complete exactly when
  the closure is resolved, batches are single calls, what the builder builds verifies and does not depend on
  the order of insertion, and SCITT statements map to attestations and back. Front ends: the exit code 0 of the
  checking commands is characterised by the library calls under the context of the flags, the replay store refuses a second
  acceptance, written files load again with the returned id, a composition is a valid union of its sources, the directory store refines
  the memory store, and the routes answer what the library says; where
  a front end does less than its documentation says, the theorem states what it does. This theory composes the core: a PASS of
  the one-shot call is traced back to the bytes.

  \<^bold>\<open>Modelling.\<close> Structs are records, enums datatypes, \<^verbatim>\<open>u64\<close> and \<^verbatim>\<open>i64\<close> are 64-bit words, \<^verbatim>\<open>usize\<close>
  counters are natural numbers (each is bounded by a limit or an input length), \<^verbatim>\<open>Result\<close> is a sum whose
  left side is the error code; texts of messages are not kept. A Rust string is the list of
  its UTF-8 bytes as characters, so \<^verbatim>\<open>len\<close> and the orderings are those of bytes. A hash map filled from an
  iterator keeps the last entry of a key. Panics are \<open>None\<close> of an outer \<open>option\<close> and are proved
  unreachable. Recursion needs no fuel: the decoder recurses on the remaining depth and item count, the graph
  searches on a measure of unvisited nodes and stack, the parser of policies on the size of the
  document, and their termination is proved with the definition.

  \<^bold>\<open>Parameters.\<close> The crates base64, sha2, hex, ed25519-dalek and p256 are records of functions, declared where they are first used. Their laws are named
  hypotheses (\<open>b64_law\<close>: decoding inverts encoding; \<open>ed25519_law\<close>: a signature by a
  key verifies under its public key), instantiated by \<open>plain_b64\<close>, \<open>zero_hash\<close> and \<open>plain_sig\<close> in the witnesses.
  No collision freedom is assumed anywhere. serde_json values are a datatype and its writer a parameter; the iteration order of a hash set is a function
  with the law \<open>hash_iter\<close> that it enumerates the set. The commands take these libraries in one record \<open>platform\<close>, together with the
  parser and writer of serde_json (\<open>json_law\<close>, \<open>wrapper_law\<close>: documents of the shapes that the commands write parse back to themselves) and the texts
  of errors and reports, of which nothing is assumed; \<open>b64_text_law\<close> says that base64 text is UTF-8.
  \<open>export_law\<close> and \<open>text_law\<close> say the same of exported documents and of strings in parsed ones.

  \<^bold>\<open>The world of the commands.\<close> A command is a function on a record of standard input, files, writable paths and standard
  output that returns its exit code or value, or an error text, and the world it leaves. A path is a key: two texts that
  an operating system would resolve to one file are two files here. A write that fails leaves the file as it was; nothing else
  runs in between. Directories are not kept: creating one succeeds exactly if its path is writable. Standard error is not modelled. The loops of the commands recurse on their inputs.

  \<^bold>\<open>Not modelled.\<close> The textual explanations of proof-policy and the display commands of proof-cli, which
  render what is modelled; the dispatcher and the helpers \<^verbatim>\<open>id\<close>, \<^verbatim>\<open>commit\<close> and \<^verbatim>\<open>init-policy\<close>; the guided and demonstration commands, which call
  the modelled ones; sockets, timeouts and counters of the HTTP
  server; benchmarks, the example domains, the fuzz targets and the Python and TypeScript ports.
\<close>

section \<open>From the bytes to the decision\<close>

text \<open>
  C1. What a PASS of the one-shot verification means, end to end: the bytes are a proof package whose recomputed id is
  the one it states; every attestation is signed by its issuer over its own content; every
  statement is timely and every lifecycle record is ACTIVE or SUPERSEDED; the claims the policy saw are those of the
  statements of the package, no more and no fewer; and the policy holds in its reference semantics under the trust list and
  the clock of the same context.
\<close>

theorem pass_means_verified:
  assumes "b64_law b64" "hash_iter iter" "verify_and_evaluate b64 h e iter bs c pol revs = Some (Inr d)"
    and "out_decision (vd_outcome d) = Pass"
  shows "\<exists>p. bindR (decode_strict bs (vc_limits c)) (\<lambda>v. cbor_to_proof b64 v (vc_limits c)) = Inr p
    \<and> recomputed_proof_id b64 h p = Inr (prf_id p)
    \<and> (\<forall>a \<in> set (prf_attestations p).
         verify_attestation b64 h e (sa_sign1 a) (att_issuer (sa_content a)) (vc_allowed_algs c) (vc_limits c)
           = Inr (sa_content a, attestation_member_id b64 h (sa_content a)))
    \<and> (\<forall>a \<in> set (prf_attestations p). claim_kind_of (sa_content a) = KStatement \<longrightarrow> vc_verified_at c \<noteq> 0
         \<and> unat (att_issued_at (sa_content a)) \<le> unat (vc_verified_at c) + unat (vc_clock_skew_leeway c)
         \<and> (case att_expires_at (sa_content a) of None \<Rightarrow> True
            | Some x \<Rightarrow> unat (vc_verified_at c) \<le> unat x + unat (vc_clock_skew_leeway c)))
    \<and> (\<forall>r \<in> set (rep_lifecycle (vd_report d)). lcr_status r \<in> {LActive, LSuperseded})
    \<and> set (st_claims (vd_state d)) = claim_summary_of b64 h ` visible_statements b64 h p
    \<and> policy_meaning pol (vd_state d) ((EvalInputs_from c)\<lparr>in_revocations := revs\<rparr>) = Pass"
proof -
  let ?ctx = "to_verify_ctx c"
  obtain p st where p: "parse_proof b64 bs (vc_limits c) = Inr p" "vd_report d = report_on b64 h e iter ?ctx p"
      "state_from_report_and_proof b64 h (report_on b64 h e iter ?ctx p) p = Inr st" "vd_state d = st"
      and pass: "policy_meaning pol st ((EvalInputs_from c)\<lparr>in_revocations := revs\<rparr>) = Pass"
    using assms(3,4) unfolding verify_and_evaluate_eq [OF assms(2)]
    by (auto simp: bindR_Inr_iff Let_def split: if_splits option.splits)
  have valid: "rep_cryptographic_validity (vd_report d) = Valid" "rep_evidence_validity (vd_report d) = Valid"
    using pass p(2,3) by (auto simp: policy_meaning_def state_projection_valid split: if_splits)
  have signed: "\<forall>a \<in> set (prf_attestations p). signed_entry b64 h e ?ctx a" and bound: "bound_id b64 h p = prf_id p"
    using valid(1) unfolding p(2) crypto_on [OF assms(1)] by blast+
  note force = in_force_on [OF assms(1) valid(2) [unfolded p(2)]]
  have "set (verified_ids (vd_report d)) = attestation_member_id b64 h ` sa_content ` set (prf_attestations p)"
    using signed by (force simp: p(2) verified_ids_report [OF assms(1)] verified_of_eq [OF assms(1)])
  then have "set (statements_of b64 h (vd_report d) p) = visible_statements b64 h p"
    using signed unfolding visible_statements_def statements_set p(2) report_status_objects [OF assms(1)] by auto
  then have "set (st_claims (vd_state d)) = claim_summary_of b64 h ` visible_statements b64 h p"
    using p state_projection_valid [OF p(3)] by auto
  moreover have "\<forall>a \<in> set (prf_attestations p). claim_kind_of (sa_content a) = KStatement \<longrightarrow> time_validity (sa_content a) ?ctx"
    using signed force(2) by blast
  note this [unfolded time_validity_iff to_verify_ctx_fields]
  ultimately show ?thesis
    using p(1) pass signed force(1) recomputed_Inr [OF parse_proof_ok [OF p(1)], of h] bound
    unfolding p(2,4) parse_proof_def signed_entry_def to_verify_ctx_fields by (intro exI [of _ p]) (intro conjI; simp)
qed


theorem pass_means_verified_witness:
  "\<exists>p. bindR (decode_strict demo_bytes (vc_limits demo_vc)) (\<lambda>v. cbor_to_proof plain_b64 v (vc_limits demo_vc)) = Inr p
     \<and> recomputed_proof_id plain_b64 zero_hash p = Inr (prf_id p)"
proof -
  obtain d where "verify_and_evaluate plain_b64 zero_hash plain_sig remdups demo_bytes demo_vc demo_policy RevocationSet_empty = Some (Inr d)"
      "out_decision (vd_outcome d) = Pass"
    using demo_pass by blast
  from pass_means_verified [OF engine_laws(1) hash_iter_remdups this] show ?thesis by blast
qed

text \<open>
  C8. The one-shot verification always returns, and it fails with an error exactly if a vector of
  the caller is over its limit, remote fetching is asked for, or the bytes are no proof package; it
  then gives the code of the first of these. In every other case there is a decision.
\<close>

theorem verify_and_evaluate_returns:
  assumes "hash_iter iter"
  shows "\<exists>r. verify_and_evaluate b64 h e iter bs c pol revs = Some r
    \<and> ((\<exists>d. r = Inr d) \<longleftrightarrow>
         length (vc_trusted_issuers c) \<le> max_trusted_issuers (vc_limits c) \<and> card (rs_revoked revs) \<le> max_status_objects (vc_limits c)
         \<and> ctx_misuse (to_verify_ctx c) = None
         \<and> (\<exists>p. bindR (decode_strict bs (vc_limits c)) (\<lambda>v. cbor_to_proof b64 v (vc_limits c)) = Inr p))
    \<and> (\<forall>code. r = Inl code \<longrightarrow> code = LimitExceeded \<or> ctx_misuse (to_verify_ctx c) = Some code
         \<or> bindR (decode_strict bs (vc_limits c)) (\<lambda>v. cbor_to_proof b64 v (vc_limits c)) = Inl code)"
proof (cases "parse_proof b64 bs (vc_limits c)")
  case (Inr p)
  obtain st where "state_from_report_and_proof b64 h (report_on b64 h e iter (to_verify_ctx c) p) p = Inr st"
    using projection_of_report by blast
  with Inr show ?thesis
    unfolding verify_and_evaluate_eq [OF assms] parse_proof_def [symmetric]
    by (cases "ctx_misuse (to_verify_ctx c)") (auto simp: Let_def)
next
  case (Inl code)
  then show ?thesis
    unfolding verify_and_evaluate_eq [OF assms] parse_proof_def [symmetric]
    by (cases "ctx_misuse (to_verify_ctx c)") auto
qed

theorem verify_and_evaluate_returns_witness:
  "\<exists>r. verify_and_evaluate plain_b64 zero_hash plain_sig remdups [0xff] demo_vc demo_policy RevocationSet_empty = Some (Inl r)"
proof -
  have "decode_strict [0xff] default_limits = Inl ForbiddenCborConstruct"
    by (simp add: decode_strict_def default_limits_def decode_value.simps read_def decode_simple_def)
  then have "bindR (decode_strict [0xff] (vc_limits demo_vc)) (\<lambda>v. cbor_to_proof plain_b64 v (vc_limits demo_vc)) = Inl ForbiddenCborConstruct"
    by (simp add: demo_vc_def VerificationContext_default_def)
  then obtain r where "verify_and_evaluate plain_b64 zero_hash plain_sig remdups [0xff] demo_vc demo_policy RevocationSet_empty = Some r" "\<nexists>d. r = Inr d"
    using verify_and_evaluate_returns [OF hash_iter_remdups, of plain_b64 zero_hash plain_sig "[0xff]" demo_vc demo_policy RevocationSet_empty]
    by (metis sum.distinct(1))
  then show ?thesis by (cases r) auto
qed

end
